(* ===== verification/Gfsim_Prelude.thy ===== *)
theory Gfsim_Prelude
  imports Main "HOL-Library.Word" "HOL-Library.Multiset" "HOL-Library.Product_Lexorder"
begin

text \<open>
  Shared vocabulary of the development: the machine-integer types of the runtime, the ordered
  containers of the C++ standard library that the runtime iterates over (\<open>std::map\<close>,
  \<open>std::set\<close>, \<open>std::multiset\<close>, \<open>std::sort\<close>, \<open>std::lower_bound\<close>), the early-return
  sequencing of a C++ function that answers \<open>bool\<close> and mutates its object, and the lemma
  collections the component theories extend.

  \<^item> \<open>std::map<K,V>\<close> is an association list whose keys are strictly increasing, so that
    iteration order is the list order and \<open>begin()\<close> is the head.
  \<^item> \<open>std::set<K>\<close> is a strictly increasing list.
  \<^item> \<open>std::multiset<T>\<close> with a key comparison is a list sorted by the key; an insertion goes
    behind the elements with an equal key, as the standard requires.
\<close>

section \<open>Machine integers\<close>

type_synonym u8 = "8 word"
type_synonym u32 = "32 word"
type_synonym u64 = "64 word"

named_theorems gf_simps \<open>unfolding rules of the model's operations\<close>
named_theorems gf_inv \<open>preservation of the component invariants\<close>

text \<open>\<open>std::to_string\<close> of an unsigned number.\<close>

fun decimal :: "nat \<Rightarrow> string" where
  "decimal n = (if n < 10 then [char_of (48 + n)] else decimal (n div 10) @ [char_of (48 + n mod 10)])"

declare decimal.simps [simp del]

section \<open>Early return\<close>

text \<open>
  A C++ member function that returns \<open>bool\<close> and mutates its object is a function to
  \<open>bool \<times> 's\<close>. \<open>and_then\<close> is \<open>if (!f()) return false; g()\<close>.
\<close>

definition and_then :: "bool \<times> 's \<Rightarrow> ('s \<Rightarrow> bool \<times> 's) \<Rightarrow> bool \<times> 's" where
  "and_then r f = (if fst r then f (snd r) else r)"

lemma and_then_simps [simp]:
  "and_then (True, s) f = f s"
  "and_then (False, s) f = (False, s)"
  by (simp_all add: and_then_def)

lemma and_then_cong [fundef_cong]:
  "r = r' \<Longrightarrow> (\<And>s. r' = (True, s) \<Longrightarrow> f s = g s) \<Longrightarrow> and_then r f = and_then r' g"
  by (cases r') (auto simp: and_then_def)

lemma and_then_False: "and_then r f = (False, t) \<longleftrightarrow>
    r = (False, t) \<or> (\<exists>s. r = (True, s) \<and> f s = (False, t))"
  by (cases r) (auto simp: and_then_def)

lemma and_then_True: "and_then r f = (True, t) \<longleftrightarrow> (\<exists>s. r = (True, s) \<and> f s = (True, t))"
  by (cases r) (auto simp: and_then_def)

section \<open>Strictly increasing lists: ordered sets\<close>

abbreviation increasing :: "'a::linorder list \<Rightarrow> bool" where
  "increasing xs \<equiv> sorted_wrt (<) xs"

lemma increasing_distinct: "increasing xs \<Longrightarrow> distinct xs"
  by (induction xs) auto

fun set_insert :: "'a::linorder \<Rightarrow> 'a list \<Rightarrow> 'a list" where
  "set_insert x [] = [x]"
| "set_insert x (y # ys) =
     (if y < x then y # set_insert x ys else if x = y then y # ys else x # y # ys)"

definition set_erase :: "'a \<Rightarrow> 'a list \<Rightarrow> 'a list" where
  "set_erase x xs = filter (\<lambda>y. y \<noteq> x) xs"

lemma set_set_insert [simp]: "set (set_insert x xs) = insert x (set xs)"
  by (induction xs) auto

lemma increasing_set_insert [simp]: "increasing xs \<Longrightarrow> increasing (set_insert x xs)"
  by (induction xs) auto

lemma set_set_erase [simp]: "set (set_erase x xs) = set xs - {x}"
  by (auto simp: set_erase_def)

lemma increasing_set_erase [simp]: "increasing xs \<Longrightarrow> increasing (set_erase x xs)"
  by (simp add: set_erase_def sorted_wrt_filter)

lemma set_insert_not_Nil [simp]: "set_insert x xs \<noteq> []"
  by (cases xs) auto

lemma set_fold_insert [simp]: "set (fold set_insert xs ys) = set xs \<union> set ys"
  by (induction xs arbitrary: ys) auto

lemma increasing_fold_insert [simp]: "increasing ys \<Longrightarrow> increasing (fold set_insert xs ys)"
  by (induction xs arbitrary: ys) simp_all

lemma set_fold_erase [simp]: "set (fold set_erase xs ys) = set ys - set xs"
  by (induction xs arbitrary: ys) auto

lemma increasing_fold_erase [simp]: "increasing ys \<Longrightarrow> increasing (fold set_erase xs ys)"
  by (induction xs arbitrary: ys) simp_all

lemma increasing_length: "increasing xs \<Longrightarrow> length xs = card (set xs)"
  by (simp add: increasing_distinct distinct_card)

section \<open>Ordered maps\<close>

fun map_put :: "'k::linorder \<Rightarrow> 'v \<Rightarrow> ('k \<times> 'v) list \<Rightarrow> ('k \<times> 'v) list" where
  "map_put k v [] = [(k, v)]"
| "map_put k v (e # m) =
     (if fst e < k then e # map_put k v m else if k = fst e then (k, v) # m else (k, v) # e # m)"

definition map_del :: "'k \<Rightarrow> ('k \<times> 'v) list \<Rightarrow> ('k \<times> 'v) list" where
  "map_del k m = filter (\<lambda>e. fst e \<noteq> k) m"

text \<open>\<open>emplace\<close> leaves an existing entry alone.\<close>

definition map_emplace :: "'k::linorder \<Rightarrow> 'v \<Rightarrow> ('k \<times> 'v) list \<Rightarrow> ('k \<times> 'v) list" where
  "map_emplace k v m = (case map_of m k of None \<Rightarrow> map_put k v m | Some _ \<Rightarrow> m)"

abbreviation ordered :: "('k::linorder \<times> 'v) list \<Rightarrow> bool" where
  "ordered m \<equiv> increasing (map fst m)"

lemma fst_set_map_put [simp]: "fst ` set (map_put k v m) = insert k (fst ` set m)"
  by (induction m) auto

lemma ordered_map_put [simp]: "ordered m \<Longrightarrow> ordered (map_put k v m)"
  by (induction m) auto

lemma ordered_map_del [simp]: "ordered m \<Longrightarrow> ordered (map_del k m)"
  by (induction m) (auto simp: map_del_def)

lemma ordered_map_emplace [simp]: "ordered m \<Longrightarrow> ordered (map_emplace k v m)"
  by (simp add: map_emplace_def split: option.split)

lemma map_of_below: "ordered m \<Longrightarrow> \<forall>e \<in> set m. k < fst e \<Longrightarrow> map_of m k = None"
  by (auto simp: map_of_eq_None_iff)

lemma map_of_map_put: "ordered m \<Longrightarrow> map_of (map_put k v m) = (map_of m)(k \<mapsto> v)"
proof (induction m)
  case (Cons e m)
  show ?case
  proof (cases "fst e < k")
    case True
    with Cons show ?thesis by (cases e) (auto simp: fun_eq_iff)
  next
    case False
    then show ?thesis by (cases e) (auto simp: fun_eq_iff)
  qed
qed simp

lemma map_of_map_del: "map_of (map_del k m) = (map_of m)(k := None)"
  by (induction m) (auto simp: map_del_def fun_eq_iff)

lemma set_map_del [simp]: "set (map_del k m) = {e \<in> set m. fst e \<noteq> k}"
  by (auto simp: map_del_def)

lemma map_put_not_Nil [simp]: "map_put k v m \<noteq> []"
  by (cases m) auto

lemma set_map_put_subset: "set (map_put k v m) \<subseteq> insert (k, v) (set m)"
  by (induction m) auto

lemma ordered_hd_least:
  "ordered (e # m) \<Longrightarrow> x \<in> set (e # m) \<Longrightarrow> fst e \<le> fst x"
  by (auto simp: less_imp_le)

text \<open>
  The contract of an ordered container, as the runtime uses it: what a lookup sees after a
  write or an erase, and that iteration stays in key order.
\<close>

locale ordered_container =
  fixes lookup :: "'m \<Rightarrow> 'k::linorder \<Rightarrow> 'v option"
    and put :: "'k \<Rightarrow> 'v \<Rightarrow> 'm \<Rightarrow> 'm"
    and del :: "'k \<Rightarrow> 'm \<Rightarrow> 'm"
    and keys :: "'m \<Rightarrow> 'k list"
    and wf :: "'m \<Rightarrow> bool"
  assumes lookup_put: "wf m \<Longrightarrow> lookup (put k v m) = (lookup m)(k \<mapsto> v)"
    and lookup_del: "wf m \<Longrightarrow> lookup (del k m) = (lookup m)(k := None)"
    and keys_lookup: "wf m \<Longrightarrow> set (keys m) = dom (lookup m)"
    and keys_increasing: "wf m \<Longrightarrow> increasing (keys m)"
    and wf_put: "wf m \<Longrightarrow> wf (put k v m)"
    and wf_del: "wf m \<Longrightarrow> wf (del k m)"
begin

lemma keys_put: "wf m \<Longrightarrow> set (keys (put k v m)) = insert k (set (keys m))"
  using keys_lookup [of m] keys_lookup [OF wf_put] by (auto simp: lookup_put)

lemma keys_del: "wf m \<Longrightarrow> set (keys (del k m)) = set (keys m) - {k}"
  using keys_lookup [of m] keys_lookup [OF wf_del] by (auto simp: lookup_del)

lemma put_put_other:
  "wf m \<Longrightarrow> k \<noteq> k' \<Longrightarrow> lookup (put k v (put k' v' m)) = lookup (put k' v' (put k v m))"
  by (simp add: lookup_put wf_put fun_upd_twist)

lemma del_put_same: "wf m \<Longrightarrow> lookup (del k (put k v m)) = lookup (del k m)"
  by (simp add: lookup_put lookup_del wf_put)

end

interpretation std_map: ordered_container map_of map_put map_del "map fst" ordered
  by unfold_locales (auto simp: map_of_map_put map_of_map_del dom_map_of_conv_image_fst)

section \<open>Ordered multisets, sorting and binary search\<close>

definition ms_insert :: "('a \<Rightarrow> 'k::linorder) \<Rightarrow> 'a \<Rightarrow> 'a list \<Rightarrow> 'a list" where
  "ms_insert key x ys =
     takeWhile (\<lambda>y. key y \<le> key x) ys @ x # dropWhile (\<lambda>y. key y \<le> key x) ys"

text \<open>Insertion at the position of \<open>std::lower_bound\<close>.\<close>

definition lb_insert :: "('a \<Rightarrow> 'k::linorder) \<Rightarrow> 'a \<Rightarrow> 'a list \<Rightarrow> 'a list" where
  "lb_insert key x ys =
     takeWhile (\<lambda>y. key y < key x) ys @ x # dropWhile (\<lambda>y. key y < key x) ys"

definition lower_bound :: "'k::linorder list \<Rightarrow> 'k \<Rightarrow> nat" where
  "lower_bound bs v = length (takeWhile (\<lambda>b. b < v) bs)"

abbreviation sorted_by :: "('a \<Rightarrow> 'k::linorder) \<Rightarrow> 'a list \<Rightarrow> bool" where
  "sorted_by key xs \<equiv> sorted (map key xs)"

lemma mset_split_insert: "mset (takeWhile P ys @ x # dropWhile P ys) = add_mset x (mset ys)"
  by (metis add_mset_add_single mset.simps(2) mset_append takeWhile_dropWhile_id union_mset_add_mset_right)

lemma mset_ms_insert [simp]: "mset (ms_insert key x ys) = add_mset x (mset ys)"
  unfolding ms_insert_def by (rule mset_split_insert)

lemma mset_lb_insert [simp]: "mset (lb_insert key x ys) = add_mset x (mset ys)"
  unfolding lb_insert_def by (rule mset_split_insert)

lemma set_ms_insert [simp]: "set (ms_insert key x ys) = insert x (set ys)"
  by (metis mset_ms_insert set_mset_add_mset_insert set_mset_mset)

lemma set_lb_insert [simp]: "set (lb_insert key x ys) = insert x (set ys)"
  by (metis mset_lb_insert set_mset_add_mset_insert set_mset_mset)

lemma length_ms_insert [simp]: "length (ms_insert key x ys) = Suc (length ys)"
  by (metis mset_ms_insert size_add_mset size_mset)

lemma length_lb_insert [simp]: "length (lb_insert key x ys) = Suc (length ys)"
  by (metis mset_lb_insert size_add_mset size_mset)

lemma sorted_split_insert:
  assumes "sorted_by key ys"
    and below: "\<And>y. P y \<Longrightarrow> key y \<le> key x"
    and above: "\<And>y. \<not> P y \<Longrightarrow> key x \<le> key y"
  shows "sorted_by key (takeWhile P ys @ x # dropWhile P ys)"
  using assms(1)
proof (induction ys)
  case (Cons y ys)
  show ?case
  proof (cases "P y")
    case True
    have "\<forall>z \<in> set (takeWhile P ys @ x # dropWhile P ys). key y \<le> key z"
      using Cons.prems below [OF True] by (auto dest: set_takeWhileD set_dropWhileD)
    with Cons True show ?thesis by (auto simp: sorted_append)
  next
    case False
    from above [OF False] Cons.prems have "\<forall>z \<in> set (y # ys). key x \<le> key z"
      by (auto intro: order_trans)
    with Cons.prems False show ?thesis by simp
  qed
qed simp

lemma sorted_ms_insert [simp]: "sorted_by key ys \<Longrightarrow> sorted_by key (ms_insert key x ys)"
  unfolding ms_insert_def by (rule sorted_split_insert) auto

lemma sorted_lb_insert [simp]: "sorted_by key ys \<Longrightarrow> sorted_by key (lb_insert key x ys)"
  unfolding lb_insert_def by (rule sorted_split_insert) auto

text \<open>
  \<open>std::sort\<close> is not stable; where the keys of the sorted elements are pairwise distinct there
  is only one sorted arrangement, so \<^const>\<open>sort_key\<close> is what any sorting routine returns.
\<close>

lemma sort_key_unique:
  assumes "mset ys = mset xs" and "sorted_by key ys" and "distinct (map key xs)"
  shows "ys = sort_key key xs"
  using assms by (metis distinct_map mset_eq_setD properties_for_sort_key
      sort_key_inj_key_eq)

lemma lower_bound_le: "lower_bound bs v \<le> length bs"
  by (simp add: lower_bound_def length_takeWhile_le)

lemma lower_bound_below: "i < lower_bound bs v \<Longrightarrow> bs ! i < v"
  unfolding lower_bound_def by (metis nth_mem set_takeWhileD takeWhile_nth)

lemma lower_bound_at: "lower_bound bs v < length bs \<Longrightarrow> v \<le> bs ! lower_bound bs v"
  unfolding lower_bound_def by (metis nth_length_takeWhile not_le)

section \<open>Lists and words\<close>

lemma distinct_map_drop: "distinct (map f xs) \<Longrightarrow> distinct (map f (drop n xs))"
  by (simp add: drop_map [symmetric])

lemma distinct_map_take: "distinct (map f xs) \<Longrightarrow> distinct (map f (take n xs))"
  by (simp add: take_map [symmetric])

lemma distinct_map_coarser:
  assumes "distinct (map g xs)" and "\<And>x y. f x = f y \<Longrightarrow> g x = g y"
  shows "distinct (map f xs)"
  using assms(1) by (auto simp: distinct_map inj_on_def dest: assms(2))

lemma sum_list_map_filter_le:
  "sum_list (map f (filter P xs)) \<le> (sum_list (map f xs) :: nat)"
  by (induction xs) auto

lemma unat_max_minus: "unat (- 1 - a :: 'a::len word) = 2 ^ LENGTH('a) - 1 - unat a"
proof -
  have "unat (- 1 :: 'a word) = 2 ^ LENGTH('a) - 1"
    by (simp add: unsigned_minus_1_eq_mask mask_eq_exp_minus_1)
  moreover have "a \<le> - 1"
    by (simp add: word_order.extremum)
  ultimately show ?thesis by (simp add: unat_sub)
qed

lemma word_add_no_wrap:
  fixes a b :: "'a::len word"
  assumes "b \<le> - 1 - a"
  shows "unat (a + b) = unat a + unat b"
proof -
  have "unat b \<le> unat (- 1 - a)"
    using assms by (simp add: word_le_nat_alt)
  also have "unat (- 1 - a) = 2 ^ LENGTH('a) - 1 - unat a"
    by (rule unat_max_minus)
  finally have "unat a + unat b < 2 ^ LENGTH('a)"
    using unsigned_less [of a, where ?'a = nat] by linarith
  then show ?thesis by (simp add: unat_add_lem [symmetric])
qed

lemma word_less_inc:
  fixes n :: "'a::len word"
  assumes "n \<noteq> - 1"
  shows "n < n + 1"
proof -
  have "unat n \<noteq> unat (- 1 :: 'a word)"
    using assms by (metis word_unat_eq_iff)
  then have "unat n \<noteq> 2 ^ LENGTH('a) - 1"
    by (simp add: unsigned_minus_1_eq_mask mask_eq_exp_minus_1)
  then have "Suc (unat n) < 2 ^ LENGTH('a)"
    using unsigned_less [of n, where ?'a = nat] by linarith
  then have "unat (n + 1) = Suc (unat n)"
    by (simp add: unat_word_ariths)
  then show ?thesis by (simp add: word_less_nat_alt)
qed

lemma word_less_Suc:
  fixes x n :: "'a::len word"
  shows "x < n \<Longrightarrow> n \<noteq> - 1 \<Longrightarrow> x < n + 1"
  using word_less_inc order_less_trans by blast

section \<open>Multisets of map entries\<close>

lemma mset_map_put_new:
  "ordered m \<Longrightarrow> map_of m k = None \<Longrightarrow> mset (map_put k v m) = add_mset (k, v) (mset m)"
  by (induction m) (auto split: if_splits)

lemma mset_map_put_old:
  "ordered m \<Longrightarrow> map_of m k = Some w \<Longrightarrow>
     add_mset (k, w) (mset (map_put k v m)) = add_mset (k, v) (mset m)"
proof (induction m)
  case (Cons e m)
  show ?case
  proof (cases "fst e < k")
    case True
    with Cons show ?thesis by (cases e) (auto simp: add_mset_commute [of "(k, w)"] add_mset_commute [of "(k, v)"]
          split: if_splits)
  next
    case False
    have "fst e = k"
      using Cons.prems False by (cases e) (auto dest!: map_of_SomeD split: if_splits)
    with Cons.prems show ?thesis by (cases e) (auto simp: add_mset_commute)
  qed
qed simp

lemma mset_map_del:
  "distinct (map fst m) \<Longrightarrow> map_of m k = Some w \<Longrightarrow> mset m = add_mset (k, w) (mset (map_del k m))"
proof (induction m)
  case (Cons e m)
  have "filter (\<lambda>e. fst e \<noteq> k) m = m" if "k \<notin> fst ` set m"
    using that by (force simp: filter_id_conv)
  with Cons show ?case
    by (cases e) (auto simp: map_del_def mset_filter [symmetric] simp del: mset_filter split: if_splits)
qed simp

lemma fold_map_del: "fold map_del ks m = filter (\<lambda>e. fst e \<notin> set ks) m"
  by (induction ks arbitrary: m) (auto simp: map_del_def intro: filter_cong)

lemma ordered_filter [simp]: "ordered m \<Longrightarrow> ordered (filter P m)"
  by (induction m) auto

lemma map_of_in_ordered: "ordered m \<Longrightarrow> (k, v) \<in> set m \<longleftrightarrow> map_of m k = Some v"
  by (simp add: increasing_distinct map_of_eq_Some_iff)

text \<open>Widening a word commutes with sums and differences that do not wrap.\<close>

lemma ucast_add_no_wrap:
  fixes a b :: "'a::len word"
  assumes "unat a + unat b < 2 ^ LENGTH('a)" and "LENGTH('a) \<le> LENGTH('b::len)"
  shows "(ucast (a + b) :: 'b word) = ucast a + ucast b"
proof -
  have "unat (a + b) = unat a + unat b"
    using assms(1) by (simp add: unat_add_lem [symmetric])
  then show ?thesis
    by (metis of_nat_add of_nat_unat)
qed

lemma ucast_diff_no_wrap:
  fixes a b :: "'a::len word"
  assumes "b \<le> a" and "LENGTH('a) \<le> LENGTH('b::len)"
  shows "(ucast (a - b) :: 'b word) = ucast a - ucast b"
proof -
  have "unat (a - b) = unat a - unat b" and "unat b \<le> unat a"
    using assms(1) by (simp_all add: unat_sub word_le_nat_alt)
  then show ?thesis
    by (metis of_nat_diff of_nat_unat)
qed

end
