(* ===== verification/Gfsim_Core.thy ===== *)
theory Gfsim_Core
  imports Gfsim_Prelude "HOL-Library.Char_ord" "HOL-Library.List_Lexorder"
begin

text \<open>
  The value types of \<open>include/gfsim/core.h\<close>: the exact epoch \<open>(time, delta)\<close> with its total
  order, object identities and kinds, events, termination results, statistic snapshots and the
  no-progress report. Ticks, sequence numbers and counters keep their 64 bits, deltas and object
  IDs their 32 bits; sizes of containers are natural numbers.
\<close>

section \<open>Epochs\<close>

type_synonym tick = u64
type_synonym causal_delta = u32
type_synonym object_id = u32
type_synonym ptr = nat

datatype epoch = Epoch (ep_time: tick) (ep_delta: causal_delta)

text \<open>The defaulted comparison of \<open>Epoch\<close>: the members in order.\<close>

definition epoch_less_eq :: "epoch \<Rightarrow> epoch \<Rightarrow> bool" where
  "epoch_less_eq a b \<longleftrightarrow> ep_time a < ep_time b \<or> (ep_time a = ep_time b \<and> ep_delta a \<le> ep_delta b)"

definition epoch_less :: "epoch \<Rightarrow> epoch \<Rightarrow> bool" where
  "epoch_less a b \<longleftrightarrow> ep_time a < ep_time b \<or> (ep_time a = ep_time b \<and> ep_delta a < ep_delta b)"

instantiation epoch :: linorder
begin

definition less_eq_epoch :: "epoch \<Rightarrow> epoch \<Rightarrow> bool" where
  "less_eq_epoch = epoch_less_eq"

definition less_epoch :: "epoch \<Rightarrow> epoch \<Rightarrow> bool" where
  "less_epoch = epoch_less"

instance
  by standard (auto simp: less_eq_epoch_def less_epoch_def epoch_less_eq_def epoch_less_def intro: epoch.expand)

end

lemma epoch_order:
  fixes a b :: epoch
  shows "a \<le> b \<longleftrightarrow> ep_time a < ep_time b \<or> (ep_time a = ep_time b \<and> ep_delta a \<le> ep_delta b)"
    and "a < b \<longleftrightarrow> ep_time a < ep_time b \<or> (ep_time a = ep_time b \<and> ep_delta a < ep_delta b)"
  by (simp_all add: less_eq_epoch_def less_epoch_def epoch_less_eq_def epoch_less_def)

definition epoch0 :: epoch where
  "epoch0 = Epoch 0 0"

definition nextDelta :: "epoch \<Rightarrow> epoch" where
  "nextDelta e = Epoch (ep_time e) (ep_delta e + 1)"

definition sameTime :: "epoch \<Rightarrow> epoch \<Rightarrow> bool" where
  "sameTime a b \<longleftrightarrow> ep_time a = ep_time b"

definition kMaxDeltasPerTick :: causal_delta where
  "kMaxDeltasPerTick = 1024"

lemma epoch0_least [simp]: "epoch0 \<le> e"
  by (auto simp: epoch_order epoch0_def word_neq_0_conv [symmetric])

text \<open>
  The distance of an epoch from the origin, in causal deltas. It is the measure by which the
  simulation loop terminates.
\<close>

definition epoch_rank :: "epoch \<Rightarrow> nat" where
  "epoch_rank e = unat (ep_time e) * 2 ^ 32 + unat (ep_delta e)"

lemma epoch_rank_less: "a < b \<Longrightarrow> epoch_rank a < epoch_rank b"
proof -
  assume "a < b"
  then consider "unat (ep_time a) < unat (ep_time b)"
    | "ep_time a = ep_time b" "unat (ep_delta a) < unat (ep_delta b)"
    by (auto simp: epoch_order word_less_nat_alt)
  then show ?thesis
  proof cases
    case 1
    then have "Suc (unat (ep_time a)) * 2 ^ 32 \<le> unat (ep_time b) * 2 ^ 32"
      by (intro mult_le_mono1) simp
    moreover have "unat (ep_delta a) < 2 ^ 32"
      using unsigned_less [of "ep_delta a", where ?'a = nat] by simp
    ultimately show ?thesis by (simp add: epoch_rank_def)
  qed (simp add: epoch_rank_def)
qed

lemma epoch_rank_bound: "epoch_rank e < 2 ^ 96"
proof -
  have "unat (ep_time e) < 2 ^ 64" "unat (ep_delta e) < 2 ^ 32"
    using unsigned_less [of "ep_time e", where ?'a = nat]
      unsigned_less [of "ep_delta e", where ?'a = nat] by simp_all
  then show ?thesis by (simp add: epoch_rank_def)
qed

lemma nextDelta_greater:
  assumes "ep_delta e < kMaxDeltasPerTick"
  shows "e < nextDelta e"
proof -
  from assms have "unat (ep_delta e) < 1024"
    by (simp add: word_less_nat_alt kMaxDeltasPerTick_def)
  then have "unat (ep_delta e + 1) = Suc (unat (ep_delta e))"
    by (simp add: unat_word_ariths)
  then show ?thesis
    by (simp add: epoch_order nextDelta_def word_less_nat_alt)
qed

section \<open>Object identities\<close>

definition kInvalidObjectId :: object_id where
  "kInvalidObjectId = - 1"

definition kSystemObjectId :: object_id where
  "kSystemObjectId = kInvalidObjectId - 1"

definition kRootObjectId :: object_id where
  "kRootObjectId = kInvalidObjectId - 2"

datatype object_kind = KSystem | KModule | KQueue | KEventQueue | KResource | KProcess
  | KTraceSource | KCompute | KLink | KMemory | KSink | KProbe | KStatistic | KScheduler

section \<open>Termination\<close>

datatype termination_class = Completed | Incomplete | Failed

record time_domain_runtime =
  td_name :: string
  td_period :: u64
  td_phase :: u64
  td_tickScale :: u64

record runtime_limits =
  rl_deadlockWindow :: "u64 option"
  rl_maxTicks :: "u64 option"
  rl_maxDomainCycles :: "(string \<times> u64) list"

record termination_result =
  tr_classification :: termination_class
  tr_finalEpoch :: epoch
  tr_committedEventCount :: u64
  tr_tracePosition :: u64
  tr_traceLastCommittedSequenceId :: "u64 option"
  tr_terminationCap :: "u64 option"
  tr_domainCycles :: "(string \<times> u64) list"
  tr_diagnosticCode :: string
  tr_message :: "string option"

definition empty_termination_result :: termination_result where
  "empty_termination_result =
     \<lparr>tr_classification = Incomplete, tr_finalEpoch = epoch0, tr_committedEventCount = 0,
      tr_tracePosition = 0, tr_traceLastCommittedSequenceId = None, tr_terminationCap = None,
      tr_domainCycles = [], tr_diagnosticCode = '''', tr_message = None\<rparr>"

section \<open>Events\<close>

record event =
  ev_readyTime :: epoch
  ev_targetId :: object_id
  ev_eventKind :: u32
  ev_payload :: u64
  ev_sequence :: u64

text \<open>\<open>Event::operator<=>\<close>: the exact ready epoch, then the acceptance sequence.\<close>

definition event_key :: "event \<Rightarrow> epoch \<times> u64" where
  "event_key e = (ev_readyTime e, ev_sequence e)"

section \<open>Statistics snapshots and diagnostics\<close>

datatype statistic_kind = Counter | Gauge | Histogram

record histogram_bucket =
  hb_upperBound :: u64
  hb_count :: u64

record stat_snapshot =
  ss_name :: string
  ss_objectPath :: string
  ss_kind :: statistic_kind
  ss_value :: u64
  ss_count :: u64
  ss_sum :: u64
  ss_minimum :: u64
  ss_maximum :: u64
  ss_buckets :: "histogram_bucket list"
  ss_lastUpdate :: epoch

text \<open>A snapshot with only the designated members of a component's \<open>append\<close> call.\<close>

definition plain_snapshot ::
  "string \<Rightarrow> string \<Rightarrow> statistic_kind \<Rightarrow> u64 \<Rightarrow> epoch \<Rightarrow> stat_snapshot" where
  "plain_snapshot n path k v upd =
     \<lparr>ss_name = n, ss_objectPath = path, ss_kind = k, ss_value = v, ss_count = 0, ss_sum = 0,
      ss_minimum = 0, ss_maximum = 0, ss_buckets = [], ss_lastUpdate = upd\<rparr>"

record runtime_object_state =
  ros_quiescent :: bool
  ros_runnable :: bool
  ros_pendingCommit :: bool
  ros_reason :: string
  ros_subscriptions :: "string list"
  ros_dependencyChain :: "u64 list"
  ros_correlationChain :: "u64 list"
  ros_queueOccupancy :: nat
  ros_pendingOffers :: nat
  ros_activeReservations :: nat
  ros_protocolState :: string
  ros_traceOwner :: bool
  ros_tracePosition :: u64
  ros_traceLastCommittedSequenceId :: "u64 option"
  ros_traceEof :: bool

definition empty_runtime_object_state :: runtime_object_state where
  "empty_runtime_object_state =
     \<lparr>ros_quiescent = True, ros_runnable = False, ros_pendingCommit = False, ros_reason = '''',
      ros_subscriptions = [], ros_dependencyChain = [], ros_correlationChain = [],
      ros_queueOccupancy = 0, ros_pendingOffers = 0, ros_activeReservations = 0,
      ros_protocolState = '''', ros_traceOwner = False, ros_tracePosition = 0,
      ros_traceLastCommittedSequenceId = None, ros_traceEof = False\<rparr>"

record blocked_object =
  bo_id :: object_id
  bo_path :: string
  bo_reason :: string
  bo_subscriptions :: "string list"
  bo_dependencyChain :: "u64 list"
  bo_correlationChain :: "u64 list"
  bo_queueOccupancy :: nat
  bo_pendingOffers :: nat
  bo_activeReservations :: nat
  bo_protocolState :: string

record no_progress_report =
  np_blockedObjects :: "blocked_object list"
  np_queueOccupancy :: nat
  np_pendingOffers :: nat
  np_activeReservations :: nat
  np_nextEvent :: "event option"
  np_tracePosition :: u64
  np_lastCommittedSequenceId :: "u64 option"
  np_summary :: string

definition empty_no_progress_report :: no_progress_report where
  "empty_no_progress_report =
     \<lparr>np_blockedObjects = [], np_queueOccupancy = 0, np_pendingOffers = 0,
      np_activeReservations = 0, np_nextEvent = None, np_tracePosition = 0,
      np_lastCommittedSequenceId = None, np_summary = ''''\<rparr>"

definition no_progress_report_empty :: "no_progress_report \<Rightarrow> bool" where
  "no_progress_report_empty r \<longleftrightarrow> np_blockedObjects r = [] \<and> np_nextEvent r = None"

end
