(* ===== verification/Dispatch.thy ===== *)
theory Dispatch
  imports Gfsim_Core
begin

text \<open>
  The generated static tables of \<open>include/gfsim/dispatch.h\<close>: the dense dispatch table indexed
  by object ID and the compressed activation adjacency. A thunk is a function pointer; a row
  records whether each of them is present, and the object pointer is an address of the model's
  object store. The lemmas show that an accepted activation plan is a compressed adjacency in
  the usual sense: every \<open>subspan\<close> the runtime takes is in range, every target list is strictly
  increasing and dense, and the lists concatenate to the whole target array.
\<close>

section \<open>The dispatch table\<close>

datatype xfer_phase = Arbitrate | Probe | Commit

record dispatch_row =
  row_id :: object_id
  row_kind :: object_kind
  row_object :: "ptr option"
  row_work :: bool
  row_xfer :: bool
  row_reset :: bool
  row_validate :: bool

text \<open>\<open>makeDispatchRow\<close> on an object at address \<open>p\<close>, or on a null pointer.\<close>

definition makeDispatchRow :: "(ptr \<times> object_id \<times> object_kind) option \<Rightarrow> dispatch_row" where
  "makeDispatchRow obj =
     (case obj of
        None \<Rightarrow> \<lparr>row_id = kInvalidObjectId, row_kind = KModule, row_object = None, row_work = True,
                 row_xfer = True, row_reset = True, row_validate = True\<rparr>
      | Some (p, i, k) \<Rightarrow> \<lparr>row_id = i, row_kind = k, row_object = Some p, row_work = True,
                 row_xfer = True, row_reset = True, row_validate = True\<rparr>)"

definition dispatch_lookup :: "dispatch_row list \<Rightarrow> object_id \<Rightarrow> dispatch_row option" where
  "dispatch_lookup rows i = (if unat i \<ge> length rows then None else Some (rows ! unat i))"

text \<open>
  \<open>check p i k\<close> is the row's \<open>validate\<close> thunk applied to the object at \<open>p\<close>.
\<close>

definition dispatch_validate ::
  "(ptr \<Rightarrow> object_id \<Rightarrow> object_kind \<Rightarrow> bool) \<Rightarrow> dispatch_row list \<Rightarrow> bool" where
  "dispatch_validate check rows \<longleftrightarrow>
     list_all (\<lambda>index. let row = rows ! index in
        \<not> (unat (row_id row) \<noteq> index \<or> row_object row = None \<or> \<not> row_work row \<or> \<not> row_xfer row
           \<or> \<not> row_reset row \<or> \<not> row_validate row
           \<or> \<not> check (the (row_object row)) (row_id row) (row_kind row)))
       [0..<length rows]"

lemma dispatch_validate_lookup:
  assumes "dispatch_validate check rows" and "dispatch_lookup rows i = Some row"
  shows "row_id row = i" and "\<exists>p. row_object row = Some p \<and> check p i (row_kind row)"
proof -
  from assms(2) have "unat i < length rows" and row: "row = rows ! unat i"
    by (auto simp: dispatch_lookup_def split: if_splits)
  with assms(1) have *: "unat (row_id row) = unat i" "row_object row \<noteq> None"
    "check (the (row_object row)) (row_id row) (row_kind row)"
    by (auto simp: dispatch_validate_def Let_def list_all_iff)
  from *(1) show "row_id row = i" by (simp add: word_unat_eq_iff)
  with * show "\<exists>p. row_object row = Some p \<and> check p i (row_kind row)" by auto
qed

section \<open>The activation plan\<close>

record activation_plan =
  ap_offsets :: "u32 list"
  ap_targets :: "object_id list"

definition empty_plan :: activation_plan where
  "empty_plan = \<lparr>ap_offsets = [], ap_targets = []\<rparr>"

definition plan_empty :: "activation_plan \<Rightarrow> bool" where
  "plan_empty p \<longleftrightarrow> ap_offsets p = []"

definition plan_range_ok :: "activation_plan \<Rightarrow> nat \<Rightarrow> nat \<Rightarrow> bool" where
  "plan_range_ok p objectCount source =
     (let begin_ix = unat (ap_offsets p ! source); end_ix = unat (ap_offsets p ! (source + 1)) in
      if begin_ix > end_ix \<or> end_ix > length (ap_targets p) then False
      else list_all (\<lambda>index. \<not> (unat (ap_targets p ! index) \<ge> objectCount \<or>
             (index > begin_ix \<and> ap_targets p ! (index - 1) \<ge> ap_targets p ! index)))
           [begin_ix..<end_ix])"

definition plan_validate :: "activation_plan \<Rightarrow> nat \<Rightarrow> bool" where
  "plan_validate p objectCount =
     (if length (ap_offsets p) \<noteq> objectCount + 1 \<or> ap_offsets p = [] \<or>
         length (ap_targets p) > 2 ^ 32 - 1 \<or>
         hd (ap_offsets p) \<noteq> 0 \<or> unat (last (ap_offsets p)) \<noteq> length (ap_targets p)
      then False
      else list_all (plan_range_ok p objectCount) [0..<objectCount])"

definition targetsFor :: "activation_plan \<Rightarrow> object_id \<Rightarrow> object_id list" where
  "targetsFor p source =
     (if ap_offsets p = [] \<or> unat source \<ge> length (ap_offsets p) - 1 then []
      else take (unat (ap_offsets p ! (unat source + 1) - ap_offsets p ! unat source))
             (drop (unat (ap_offsets p ! unat source)) (ap_targets p)))"

text \<open>
  The precondition of \<open>std::span::subspan(offset, count)\<close> in \<open>targetsFor\<close>: without it the
  call is undefined behaviour.
\<close>

definition subspan_defined :: "activation_plan \<Rightarrow> object_id \<Rightarrow> bool" where
  "subspan_defined p source \<longleftrightarrow>
     ap_offsets p = [] \<or> unat source \<ge> length (ap_offsets p) - 1 \<or>
     (let off = unat (ap_offsets p ! unat source);
          cnt = unat (ap_offsets p ! (unat source + 1) - ap_offsets p ! unat source)
      in off \<le> length (ap_targets p) \<and> cnt \<le> length (ap_targets p) - off)"

lemma plan_validate_range:
  assumes "plan_validate p n" and "s < n"
  shows "unat (ap_offsets p ! s) \<le> unat (ap_offsets p ! Suc s)"
    and "unat (ap_offsets p ! Suc s) \<le> length (ap_targets p)"
    and "unat (ap_offsets p ! s) \<le> i \<Longrightarrow> i < unat (ap_offsets p ! Suc s) \<Longrightarrow>
         unat (ap_targets p ! i) < n"
    and "unat (ap_offsets p ! s) < i \<Longrightarrow> i < unat (ap_offsets p ! Suc s) \<Longrightarrow>
         ap_targets p ! (i - 1) < ap_targets p ! i"
proof -
  have "plan_range_ok p n s"
    using assms by (auto simp: plan_validate_def list_all_iff split: if_splits)
  then have "\<not> unat (ap_offsets p ! s) > unat (ap_offsets p ! Suc s)"
    and "\<not> unat (ap_offsets p ! Suc s) > length (ap_targets p)"
    and *: "\<And>k. k \<in> {unat (ap_offsets p ! s)..<unat (ap_offsets p ! Suc s)} \<Longrightarrow>
       unat (ap_targets p ! k) < n \<and>
       (unat (ap_offsets p ! s) < k \<longrightarrow> ap_targets p ! (k - 1) < ap_targets p ! k)"
    by (auto simp: plan_range_ok_def Let_def list_all_iff not_le split: if_splits)
  then show "unat (ap_offsets p ! s) \<le> unat (ap_offsets p ! Suc s)"
    and "unat (ap_offsets p ! Suc s) \<le> length (ap_targets p)"
    by simp_all
  show "unat (ap_targets p ! i) < n"
    if "unat (ap_offsets p ! s) \<le> i" "i < unat (ap_offsets p ! Suc s)"
    using * [of i] that by simp
  show "ap_targets p ! (i - 1) < ap_targets p ! i"
    if "unat (ap_offsets p ! s) < i" "i < unat (ap_offsets p ! Suc s)"
    using * [of i] that by simp
qed

lemma unat_offset_diff:
  assumes "plan_validate p n" and "s < n"
  shows "unat (ap_offsets p ! Suc s - ap_offsets p ! s) =
         unat (ap_offsets p ! Suc s) - unat (ap_offsets p ! s)"
  using plan_validate_range(1) [OF assms] by (simp add: unat_sub word_le_nat_alt)

lemma plan_validate_size: "plan_validate p n \<Longrightarrow> length (ap_offsets p) = Suc n"
  by (auto simp: plan_validate_def split: if_splits)

definition plan_slice :: "activation_plan \<Rightarrow> nat \<Rightarrow> object_id list" where
  "plan_slice p s = take (unat (ap_offsets p ! Suc s) - unat (ap_offsets p ! s))
                      (drop (unat (ap_offsets p ! s)) (ap_targets p))"

lemma targetsFor_slice:
  assumes "plan_validate p n"
  shows "targetsFor p source = (if unat source < n then plan_slice p (unat source) else [])"
  using plan_validate_size [OF assms] unat_offset_diff [OF assms, of "unat source"]
  by (auto simp: targetsFor_def plan_slice_def)

lemma nth_plan_slice:
  assumes "plan_validate p n" and "s < n" and "i < length (plan_slice p s)"
  shows "plan_slice p s ! i = ap_targets p ! (unat (ap_offsets p ! s) + i)"
  using assms plan_validate_range(2) [OF assms(1,2)] by (simp add: plan_slice_def)

lemma plan_slice_length:
  assumes "plan_validate p n" and "s < n"
  shows "length (plan_slice p s) = unat (ap_offsets p ! Suc s) - unat (ap_offsets p ! s)"
  using plan_validate_range(2) [OF assms] by (simp add: plan_slice_def)

lemma plan_slice_increasing:
  assumes "plan_validate p n" and "s < n"
  shows "increasing (plan_slice p s)"
proof -
  have "plan_slice p s ! i < plan_slice p s ! Suc i" if "Suc i < length (plan_slice p s)" for i
    using plan_validate_range(4) [OF assms, of "unat (ap_offsets p ! s) + Suc i"] that
      plan_slice_length [OF assms] nth_plan_slice [OF assms, of i]
      nth_plan_slice [OF assms, of "Suc i"]
    by simp
  then show ?thesis by (simp add: sorted_wrt_iff_nth_Suc_transp)
qed

lemma plan_slice_dense:
  assumes "plan_validate p n" and "s < n" and "t \<in> set (plan_slice p s)"
  shows "unat t < n"
proof -
  from assms(3) obtain i where i: "i < length (plan_slice p s)" "t = plan_slice p s ! i"
    by (auto simp: in_set_conv_nth)
  with plan_validate_range(3) [OF assms(1,2), of "unat (ap_offsets p ! s) + i"]
  show ?thesis
    using nth_plan_slice [OF assms(1,2) i(1)] plan_slice_length [OF assms(1,2)] by simp
qed

lemma plan_slices_prefix:
  assumes "plan_validate p n" and "m \<le> n"
  shows "concat (map (plan_slice p) [0..<m]) = take (unat (ap_offsets p ! m)) (ap_targets p)"
  using assms(2)
proof (induction m)
  case 0
  from assms(1) have "ap_offsets p ! 0 = 0"
    by (auto simp: plan_validate_def hd_conv_nth split: if_splits)
  then show ?case by simp
next
  case (Suc m)
  then have m: "m < n" by simp
  have "take (unat (ap_offsets p ! m)) (ap_targets p) @ plan_slice p m =
        take (unat (ap_offsets p ! m) + (unat (ap_offsets p ! Suc m) - unat (ap_offsets p ! m)))
          (ap_targets p)"
    by (simp add: plan_slice_def take_add)
  with Suc plan_validate_range(1) [OF assms(1) m] show ?case by simp
qed

lemma plan_slices_cover:
  assumes "plan_validate p n"
  shows "concat (map (plan_slice p) [0..<n]) = ap_targets p"
proof -
  have "unat (ap_offsets p ! n) = length (ap_targets p)"
    using assms plan_validate_size [OF assms]
    by (auto simp: plan_validate_def last_conv_nth split: if_splits)
  with plan_slices_prefix [OF assms order_refl] show ?thesis by simp
qed

text \<open>
  C33: An accepted activation plan is a compressed adjacency over the objects. Taking the targets of
  an object never reads outside the target array; the target lists of the objects, in order of
  their IDs, concatenate to the whole array; each is strictly increasing and names only objects of
  the dispatch table.
\<close>

theorem activation_plan_partition:
  assumes "plan_validate p n" and "n < 2 ^ 32"
  shows "concat (map (\<lambda>i. targetsFor p (of_nat i)) [0..<n]) = ap_targets p \<and>
    (\<forall>source. subspan_defined p source \<and> increasing (targetsFor p source) \<and>
       (\<forall>t \<in> set (targetsFor p source). unat t < n))"
proof (intro conjI allI)
  have "targetsFor p (of_nat i) = plan_slice p i" if "i < n" for i
    using targetsFor_slice [OF assms(1), of "of_nat i"] that assms(2) by (simp add: unat_of_nat)
  then have "map (\<lambda>i. targetsFor p (of_nat i)) [0..<n] = map (plan_slice p) [0..<n]"
    by (intro map_cong) simp_all
  then show "concat (map (\<lambda>i. targetsFor p (of_nat i)) [0..<n]) = ap_targets p"
    by (simp only: plan_slices_cover [OF assms(1)])
  fix source
  show "subspan_defined p source"
    using plan_validate_size [OF assms(1)] unat_offset_diff [OF assms(1), of "unat source"]
      plan_validate_range(1,2) [OF assms(1), of "unat source"]
    by (cases "unat source < n") (simp_all add: subspan_defined_def Let_def diff_le_mono)
  show "increasing (targetsFor p source)" and "\<forall>t \<in> set (targetsFor p source). unat t < n"
    using plan_slice_increasing [OF assms(1), of "unat source"] plan_slice_dense [OF assms(1), of "unat source"]
    by (simp_all add: targetsFor_slice [OF assms(1)])
qed

theorem activation_plan_partition_witness:
  "plan_validate \<lparr>ap_offsets = [0, 2, 2, 3], ap_targets = [1, 2, 0]\<rparr> 3 \<and>
   concat (map (\<lambda>i. targetsFor \<lparr>ap_offsets = [0, 2, 2, 3], ap_targets = [1, 2, 0]\<rparr> (of_nat i)) [0..<3]) = [1, 2, 0]"
proof -
  have v: "plan_validate \<lparr>ap_offsets = [0, 2, 2, 3], ap_targets = [1, 2, 0]\<rparr> 3"
    by (simp add: plan_validate_def plan_range_ok_def upt_rec word_le_nat_alt)
  with activation_plan_partition [OF v] show ?thesis by simp
qed

end
