(* ===== verification/Observation.thy ===== *)
theory Observation
  imports Gfsim_Core
begin

text \<open>
  \<open>include/gfsim/observation.h\<close> and \<open>lib/gfsim/observation.cpp\<close>: the recorder that buffers
  private observation proposals per owner and publishes them only when the owner's state commits.
  The invariant says that the published log is strictly ordered by (epoch, owner, local index),
  that the local indices of an owner are below its nxt index, and that a flow is active exactly
  when it was started once more than it was ended. Every operation keeps it, and a refused
  commit publishes nothing.
\<close>

section \<open>Data\<close>

datatype trace_event_phase = Instant | Complete | CounterPhase | FlowStart | FlowEnd

datatype observation_value = OBool bool | OInt int | OUInt u64 | OString string

type_synonym observation_argument = "string \<times> observation_value"

record event_proposal =
  op_ownerId :: object_id
  op_category :: string
  op_name :: string
  op_phase :: trace_event_phase
  op_rootSequenceId :: "u64 option"
  op_duration :: "u64 option"
  op_flowId :: "u64 option"
  op_arguments :: "observation_argument list"

record committed_event =
  ce_epoch :: epoch
  ce_ownerId :: object_id
  ce_localCommittedIndex :: u64
  ce_category :: string
  ce_name :: string
  ce_phase :: trace_event_phase
  ce_rootSequenceId :: "u64 option"
  ce_duration :: "u64 option"
  ce_flowId :: "u64 option"
  ce_arguments :: "observation_argument list"

record observation_recorder =
  or_pending :: "(object_id \<times> event_proposal list) list"
  or_nextIndices :: "(object_id \<times> u64) list"
  or_activeFlows :: "(u64 \<times> bool) list"
  or_committed :: "committed_event list"
  or_lastCommitEpoch :: "epoch option"
  or_lastError :: string

definition empty_recorder :: observation_recorder where
  "empty_recorder = \<lparr>or_pending = [], or_nextIndices = [], or_activeFlows = [], or_committed = [],
     or_lastCommitEpoch = None, or_lastError = ''''\<rparr>"

section \<open>Operations\<close>

definition alpha :: "char \<Rightarrow> bool" where
  "alpha c = (let n = of_char c :: nat in (65 \<le> n \<and> n \<le> 90) \<or> (97 \<le> n \<and> n \<le> 122))"

definition digit :: "char \<Rightarrow> bool" where
  "digit c = (let n = of_char c :: nat in 48 \<le> n \<and> n \<le> 57)"

definition validName :: "string \<Rightarrow> bool" where
  "validName s =
     (case s of [] \<Rightarrow> False
      | c # cs \<Rightarrow> if \<not> (alpha c \<or> c = CHR ''_'') then False
                 else list_all (\<lambda>d. alpha d \<or> digit d \<or> d = CHR ''_'' \<or> d = CHR ''.'' \<or> d = CHR ''-'') cs)"

definition event_order_key :: "committed_event \<Rightarrow> epoch \<times> object_id \<times> u64" where
  "event_order_key e = (ce_epoch e, ce_ownerId e, ce_localCommittedIndex e)"

definition recorder_reject :: "string \<Rightarrow> observation_recorder \<Rightarrow> bool \<times> observation_recorder" where
  "recorder_reject message r = (False, r\<lparr>or_lastError := message\<rparr>)"

fun arguments_ok :: "string \<Rightarrow> observation_argument list \<Rightarrow> bool" where
  "arguments_ok previous [] = True"
| "arguments_ok previous (a # as) =
     (if \<not> validName (fst a) \<or> take 6 (fst a) = ''gfsim_'' \<or>
         (previous \<noteq> [] \<and> previous \<ge> fst a)
      then False else arguments_ok (fst a) as)"

definition is_flow :: "trace_event_phase \<Rightarrow> bool" where
  "is_flow p \<longleftrightarrow> p = FlowStart \<or> p = FlowEnd"

definition pending_of :: "observation_recorder \<Rightarrow> object_id \<Rightarrow> event_proposal list" where
  "pending_of r owner = (case map_of (or_pending r) owner of None \<Rightarrow> [] | Some ps \<Rightarrow> ps)"

definition recorder_propose ::
  "event_proposal \<Rightarrow> observation_recorder \<Rightarrow> bool \<times> observation_recorder" where
  "recorder_propose p r0 =
     (let r = r0\<lparr>or_lastError := ''''\<rparr> in
      if op_ownerId p = kInvalidObjectId \<or> \<not> validName (op_category p) \<or> \<not> validName (op_name p)
      then recorder_reject ''observation owner, category, or name is invalid'' r
      else if \<not> arguments_ok '''' (op_arguments p)
      then recorder_reject ''observation arguments must be sorted and unique'' r
      else if is_flow (op_phase p) \<noteq> (op_flowId p \<noteq> None)
      then recorder_reject ''flow observations require exactly one flow identity'' r
      else if op_phase p = Complete \<and> op_duration p = None
      then recorder_reject ''complete observations require a duration'' r
      else if op_phase p \<noteq> Complete \<and> op_duration p \<noteq> None
      then recorder_reject ''only complete observations may carry a duration'' r
      else (True, r\<lparr>or_pending :=
              map_put (op_ownerId p) (pending_of r (op_ownerId p) @ [p]) (or_pending r)\<rparr>))"

text \<open>
  The flow check of \<open>commitOwner\<close>, over a private copy of the active flows. The result is the
  refusal message or the updated copy; a flow proposal always carries its identity, because
  \<open>propose\<close> refuses one without.
\<close>

fun check_flows :: "(u64 \<times> bool) list \<Rightarrow> event_proposal list \<Rightarrow> string + (u64 \<times> bool) list" where
  "check_flows flows [] = Inr flows"
| "check_flows flows (p # ps) =
     (if op_phase p = FlowStart then
        (if map_of flows (the (op_flowId p)) = Some True
         then Inl ''observation flow started more than once''
         else check_flows (map_put (the (op_flowId p)) True flows) ps)
      else if op_phase p = FlowEnd then
        (if map_of flows (the (op_flowId p)) \<noteq> Some True
         then Inl ''observation flow ended before it started''
         else check_flows (map_put (the (op_flowId p)) False flows) ps)
      else check_flows flows ps)"

definition committed_of :: "epoch \<Rightarrow> object_id \<Rightarrow> u64 \<Rightarrow> event_proposal \<Rightarrow> committed_event" where
  "committed_of epoch owner index p =
     \<lparr>ce_epoch = epoch, ce_ownerId = owner, ce_localCommittedIndex = index,
      ce_category = op_category p, ce_name = op_name p, ce_phase = op_phase p,
      ce_rootSequenceId = op_rootSequenceId p, ce_duration = op_duration p,
      ce_flowId = op_flowId p, ce_arguments = op_arguments p\<rparr>"

fun additions :: "epoch \<Rightarrow> object_id \<Rightarrow> u64 \<Rightarrow> event_proposal list \<Rightarrow> committed_event list" where
  "additions epoch owner nxt [] = []"
| "additions epoch owner nxt (p # ps) =
     committed_of epoch owner nxt p # additions epoch owner (nxt + 1) ps"

definition commitOwner ::
  "object_id \<Rightarrow> epoch \<Rightarrow> observation_recorder \<Rightarrow> bool \<times> observation_recorder" where
  "commitOwner owner epoch r0 =
     (let r = r0\<lparr>or_lastError := ''''\<rparr> in
      if owner = kInvalidObjectId then recorder_reject ''observation commit owner is invalid'' r
      else if (case or_lastCommitEpoch r of None \<Rightarrow> False | Some e \<Rightarrow> epoch < e)
      then recorder_reject ''observation commit time regressed'' r
      else case map_of (or_pending r) owner of
        None \<Rightarrow> (True, r)
      | Some ps \<Rightarrow>
         (let indices = map_emplace owner 0 (or_nextIndices r);
              r1 = r\<lparr>or_nextIndices := indices\<rparr>;
              nxt = the (map_of indices owner)
          in if length ps > unat (- 1 - nxt)
             then recorder_reject ''observation owner-local index overflowed'' r1
             else case check_flows (or_activeFlows r1) ps of
               Inl message \<Rightarrow> recorder_reject message r1
             | Inr flows \<Rightarrow>
                (True, r1\<lparr>or_pending := map_del owner (or_pending r1),
                          or_nextIndices := map_put owner (nxt + of_nat (length ps)) indices,
                          or_activeFlows := flows,
                          or_committed := fold (lb_insert event_order_key)
                             (additions epoch owner nxt ps) (or_committed r1),
                          or_lastCommitEpoch := Some epoch\<rparr>)))"

definition rejectOwner :: "object_id \<Rightarrow> observation_recorder \<Rightarrow> observation_recorder" where
  "rejectOwner owner r = r\<lparr>or_pending := map_del owner (or_pending r)\<rparr>"

definition pendingCount :: "observation_recorder \<Rightarrow> object_id \<Rightarrow> nat" where
  "pendingCount r owner = length (pending_of r owner)"

definition recorder_reset :: "observation_recorder \<Rightarrow> observation_recorder" where
  "recorder_reset r = \<lparr>or_pending = [], or_nextIndices = [], or_activeFlows = [],
     or_committed = [], or_lastCommitEpoch = None, or_lastError = ''''\<rparr>"

section \<open>Flows\<close>

definition flow_count :: "trace_event_phase \<Rightarrow> u64 \<Rightarrow> committed_event list \<Rightarrow> nat" where
  "flow_count ph f es = length (filter (\<lambda>e. ce_phase e = ph \<and> ce_flowId e = Some f) es)"

definition flow_active :: "(u64 \<times> bool) list \<Rightarrow> u64 \<Rightarrow> bool" where
  "flow_active flows f \<longleftrightarrow> map_of flows f = Some True"

definition flows_balanced :: "(u64 \<times> bool) list \<Rightarrow> committed_event list \<Rightarrow> bool" where
  "flows_balanced flows es \<longleftrightarrow>
     (\<forall>f. flow_count FlowStart f es = flow_count FlowEnd f es + (if flow_active flows f then 1 else 0))"

definition proposal_ok :: "event_proposal \<Rightarrow> bool" where
  "proposal_ok p \<longleftrightarrow> is_flow (op_phase p) = (op_flowId p \<noteq> None)"

lemma flow_count_Cons [simp]:
  "flow_count ph f (e # es) =
     (if ce_phase e = ph \<and> ce_flowId e = Some f then 1 else 0) + flow_count ph f es"
  by (simp add: flow_count_def)

lemma flow_count_append [simp]:
  "flow_count ph f (xs @ ys) = flow_count ph f xs + flow_count ph f ys"
  by (simp add: flow_count_def)

lemma flow_count_mset: "mset xs = mset ys \<Longrightarrow> flow_count ph f xs = flow_count ph f ys"
  unfolding flow_count_def by (rule mset_eq_length) simp

lemma check_flows_ordered:
  assumes "check_flows flows ps = Inr fl" and "ordered flows"
  shows "ordered fl"
  using assms
proof (induction flows ps rule: check_flows.induct)
  case (2 flows p ps)
  from "2.prems"(1) consider "op_phase p = FlowStart" "map_of flows (the (op_flowId p)) \<noteq> Some True"
      "check_flows (map_put (the (op_flowId p)) True flows) ps = Inr fl"
    | "op_phase p = FlowEnd" "map_of flows (the (op_flowId p)) = Some True"
      "check_flows (map_put (the (op_flowId p)) False flows) ps = Inr fl"
    | "op_phase p \<noteq> FlowStart" "op_phase p \<noteq> FlowEnd" "check_flows flows ps = Inr fl"
    by (simp only: check_flows.simps split: if_splits) auto
  then show ?case
    using "2.IH" "2.prems"(2) by cases simp_all
qed simp

lemma flows_balanced_start:
  assumes "ordered flows" and bal: "flows_balanced flows es" and "\<not> flow_active flows f"
    and "ce_phase e = FlowStart" and "ce_flowId e = Some f"
  shows "flows_balanced (map_put f True flows) (e # es)"
  unfolding flows_balanced_def
proof
  fix g
  from bal have "flow_count FlowStart g es =
      flow_count FlowEnd g es + (if flow_active flows g then 1 else 0)"
    by (simp add: flows_balanced_def)
  with assms show "flow_count FlowStart g (e # es) =
      flow_count FlowEnd g (e # es) + (if flow_active (map_put f True flows) g then 1 else 0)"
    by (cases "g = f") (simp_all add: flow_active_def map_of_map_put)
qed

lemma flows_balanced_stop:
  assumes "ordered flows" and bal: "flows_balanced flows es" and "flow_active flows f"
    and "ce_phase e = FlowEnd" and "ce_flowId e = Some f"
  shows "flows_balanced (map_put f False flows) (e # es)"
  unfolding flows_balanced_def
proof
  fix g
  from bal have "flow_count FlowStart g es =
      flow_count FlowEnd g es + (if flow_active flows g then 1 else 0)"
    by (simp add: flows_balanced_def)
  with assms show "flow_count FlowStart g (e # es) =
      flow_count FlowEnd g (e # es) + (if flow_active (map_put f False flows) g then 1 else 0)"
    by (cases "g = f") (simp_all add: flow_active_def map_of_map_put)
qed

lemma flows_balanced_other:
  "flows_balanced flows es \<Longrightarrow> ce_phase e \<noteq> FlowStart \<Longrightarrow> ce_phase e \<noteq> FlowEnd \<Longrightarrow>
     flows_balanced flows (e # es)"
  by (simp add: flows_balanced_def)

lemma check_flows_balanced:
  assumes "check_flows flows ps = Inr fl" and "ordered flows" and "\<forall>p \<in> set ps. proposal_ok p"
    and "flows_balanced flows es"
  shows "flows_balanced fl (rev (additions epoch owner nxt ps) @ es)"
  using assms
proof (induction flows ps arbitrary: es nxt rule: check_flows.induct)
  case (2 flows p ps)
  let ?e = "committed_of epoch owner nxt p"
  let ?f = "the (op_flowId p)"
  from "2.prems" have ok: "proposal_ok p" and rest: "\<forall>q \<in> set ps. proposal_ok q" by auto
  consider (start) "op_phase p = FlowStart" | (stop) "op_phase p = FlowEnd"
    | (none) "op_phase p \<noteq> FlowStart" "op_phase p \<noteq> FlowEnd" by auto
  then show ?case
  proof cases
    case start
    with "2.prems" ok have "flows_balanced (map_put ?f True flows) (?e # es)"
      by (intro flows_balanced_start)
        (auto simp: flow_active_def committed_of_def proposal_ok_def is_flow_def split: if_splits)
    with "2.IH"(1) [OF start] "2.prems" start rest show ?thesis by (auto split: if_splits)
  next
    case stop
    with "2.prems" ok have "flows_balanced (map_put ?f False flows) (?e # es)"
      by (intro flows_balanced_stop)
        (auto simp: flow_active_def committed_of_def proposal_ok_def is_flow_def split: if_splits)
    with "2.IH"(2) "2.prems" stop rest show ?thesis by (auto split: if_splits)
  next
    case none
    with "2.prems" have "flows_balanced flows (?e # es)"
      by (intro flows_balanced_other) (auto simp: committed_of_def)
    with "2.IH"(3) "2.prems" none rest show ?thesis by simp
  qed
qed simp

section \<open>Indices and order\<close>

lemma length_additions [simp]: "length (additions epoch owner n ps) = length ps"
  by (induction ps arbitrary: n) auto

lemma additions_index:
  assumes "e \<in> set (additions epoch owner n ps)" and "unat n + length ps < 2 ^ 64"
  shows "ce_epoch e = epoch \<and> ce_ownerId e = owner \<and> unat n \<le> unat (ce_localCommittedIndex e) \<and>
         unat (ce_localCommittedIndex e) < unat n + length ps"
  using assms
proof (induction ps arbitrary: n)
  case (Cons p ps)
  then have "unat (n + 1) = Suc (unat n)"
    by (simp add: unat_word_ariths)
  with Cons show ?case by (fastforce simp: committed_of_def)
qed simp

lemma additions_distinct:
  assumes "unat n + length ps < 2 ^ 64"
  shows "distinct (map event_order_key (additions epoch owner n ps))"
  using assms
proof (induction ps arbitrary: n)
  case (Cons p ps)
  then have n1: "unat (n + 1) = Suc (unat n)"
    by (simp add: unat_word_ariths)
  with Cons.prems additions_index [of _ epoch owner "n + 1" ps]
  have "\<forall>e \<in> set (additions epoch owner (n + 1) ps). ce_localCommittedIndex e \<noteq> n"
    by fastforce
  with Cons n1 show ?case by (auto simp: event_order_key_def committed_of_def)
qed simp

lemma mset_fold_lb_insert: "mset (fold (lb_insert key) xs ys) = mset xs + mset ys"
  by (induction xs arbitrary: ys) auto

lemma sorted_fold_lb_insert:
  "sorted_by key ys \<Longrightarrow> sorted_by key (fold (lb_insert key) xs ys)"
  by (induction xs arbitrary: ys) auto

definition recorder_inv :: "observation_recorder \<Rightarrow> bool" where
  "recorder_inv r \<longleftrightarrow>
     ordered (or_pending r) \<and> ordered (or_nextIndices r) \<and> ordered (or_activeFlows r) \<and>
     (\<forall>owner. \<forall>p \<in> set (pending_of r owner). proposal_ok p) \<and>
     sorted_by event_order_key (or_committed r) \<and>
     distinct (map event_order_key (or_committed r)) \<and>
     (\<forall>e \<in> set (or_committed r). \<exists>n. map_of (or_nextIndices r) (ce_ownerId e) = Some n \<and>
        ce_localCommittedIndex e < n) \<and>
     flows_balanced (or_activeFlows r) (or_committed r)"

lemma recorder_inv_empty: "recorder_inv empty_recorder"
  by (simp add: recorder_inv_def empty_recorder_def pending_of_def flows_balanced_def
      flow_count_def flow_active_def)

lemma recorder_inv_reset: "recorder_inv (recorder_reset r)"
  using recorder_inv_empty by (simp add: recorder_reset_def empty_recorder_def)

lemma recorder_inv_lastError: "recorder_inv (r\<lparr>or_lastError := m\<rparr>) = recorder_inv r"
  by (simp add: recorder_inv_def pending_of_def)

lemma recorder_inv_propose:
  assumes "recorder_inv r"
  shows "recorder_inv (snd (recorder_propose p r))"
proof -
  let ?r = "r\<lparr>or_lastError := ''''\<rparr>"
  from assms have inv: "recorder_inv ?r" by (simp add: recorder_inv_lastError)
  have "recorder_inv (?r\<lparr>or_pending :=
      map_put (op_ownerId p) (pending_of ?r (op_ownerId p) @ [p]) (or_pending ?r)\<rparr>)"
    if "proposal_ok p"
    using inv that by (auto simp: recorder_inv_def pending_of_def map_of_map_put)
  with inv show ?thesis
    by (auto simp: recorder_propose_def recorder_reject_def Let_def recorder_inv_lastError
        proposal_ok_def)
qed

lemma recorder_inv_rejectOwner:
  "recorder_inv r \<Longrightarrow> recorder_inv (rejectOwner owner r)"
  by (auto simp: recorder_inv_def rejectOwner_def pending_of_def map_of_map_del)

lemma recorder_inv_publish:
  assumes inv: "recorder_inv r"
    and nxt: "nxt = (case map_of (or_nextIndices r) owner of None \<Rightarrow> 0 | Some n \<Rightarrow> n)"
    and room: "length ps \<le> unat (- 1 - nxt)"
    and ps: "\<forall>p \<in> set ps. proposal_ok p"
    and flows: "check_flows (or_activeFlows r) ps = Inr fl"
  shows "recorder_inv (r\<lparr>or_pending := map_del owner (or_pending r),
           or_nextIndices := map_put owner (nxt + of_nat (length ps)) (map_emplace owner 0 (or_nextIndices r)),
           or_activeFlows := fl,
           or_committed := fold (lb_insert event_order_key) (additions epoch owner nxt ps) (or_committed r),
           or_lastCommitEpoch := Some epoch\<rparr>)"
proof -
  let ?new = "additions epoch owner nxt ps"
  have bound: "unat nxt + length ps < 2 ^ 64"
    using room unsigned_less [of nxt, where ?'a = nat] by (simp add: unat_max_minus)
  then have len: "unat (of_nat (length ps) :: u64) = length ps"
    by (simp add: unat_of_nat)
  have top: "unat (nxt + of_nat (length ps)) = unat nxt + length ps"
    using bound len by (simp add: unat_word_ariths)
  have old: "ce_localCommittedIndex e < nxt" if "e \<in> set (or_committed r)" "ce_ownerId e = owner" for e
    using inv that nxt by (fastforce simp: recorder_inv_def)
  have new: "ce_ownerId e = owner" "nxt \<le> ce_localCommittedIndex e"
      "ce_localCommittedIndex e < nxt + of_nat (length ps)" if "e \<in> set ?new" for e
    using additions_index [OF that bound] top by (simp_all add: word_le_nat_alt word_less_nat_alt)
  have "distinct (map event_order_key (?new @ or_committed r))"
    using inv additions_distinct [OF bound, of epoch owner] old new
    by (fastforce simp: recorder_inv_def event_order_key_def)
  moreover have "mset (map event_order_key (fold (lb_insert event_order_key) ?new (or_committed r)))
      = mset (map event_order_key (?new @ or_committed r))"
    by (simp add: mset_fold_lb_insert)
  ultimately have dist:
    "distinct (map event_order_key (fold (lb_insert event_order_key) ?new (or_committed r)))"
    by (metis mset_eq_imp_distinct_iff)
  have le: "nxt \<le> nxt + of_nat (length ps)"
    using top by (simp add: word_le_nat_alt)
  have set_eq: "set (fold (lb_insert event_order_key) ?new (or_committed r)) =
      set ?new \<union> set (or_committed r)"
    by (metis mset_fold_lb_insert set_mset_mset set_mset_union)
  have "flows_balanced fl (fold (lb_insert event_order_key) ?new (or_committed r))"
  proof -
    have "flows_balanced fl (rev ?new @ or_committed r)"
      using inv flows ps by (intro check_flows_balanced) (auto simp: recorder_inv_def)
    then show ?thesis
      using flow_count_mset [of "rev ?new @ or_committed r"
          "fold (lb_insert event_order_key) ?new (or_committed r)"]
      by (simp add: flows_balanced_def mset_fold_lb_insert)
  qed
  with inv dist flows old new le show ?thesis
    unfolding recorder_inv_def
    by (auto simp: sorted_fold_lb_insert check_flows_ordered map_of_map_put map_of_map_del
        pending_of_def set_eq map_emplace_def dest: less_le_trans split: option.splits)
qed

lemma pending_flow_ok:
  "recorder_inv r \<Longrightarrow> map_of (or_pending r) owner = Some ps \<Longrightarrow> \<forall>p \<in> set ps. proposal_ok p"
  unfolding recorder_inv_def pending_of_def by (metis option.simps(5))

lemma recorder_inv_touch:
  "recorder_inv r \<Longrightarrow> recorder_inv (r\<lparr>or_nextIndices := map_emplace owner 0 (or_nextIndices r)\<rparr>)"
  by (fastforce simp: recorder_inv_def pending_of_def map_emplace_def map_of_map_put
      split: option.splits)

lemma recorder_inv_commitOwner:
  assumes "recorder_inv r"
  shows "recorder_inv (snd (commitOwner owner epoch r))"
proof -
  let ?r = "r\<lparr>or_lastError := ''''\<rparr>"
  from assms have inv: "recorder_inv ?r" by (simp add: recorder_inv_lastError)
  show ?thesis
  proof (cases "map_of (or_pending ?r) owner")
    case None
    with inv show ?thesis
      by (simp add: commitOwner_def recorder_reject_def Let_def recorder_inv_lastError)
  next
    case (Some ps)
    define nx where "nx = (case map_of (or_nextIndices r) owner of None \<Rightarrow> 0 | Some n \<Rightarrow> n)"
    have emplaced: "the (map_of (map_emplace owner 0 (or_nextIndices r)) owner) = nx"
      using assms by (simp add: recorder_inv_def map_emplace_def map_of_map_put nx_def
          split: option.split)
    have touch: "recorder_inv (r\<lparr>or_nextIndices := map_emplace owner 0 (or_nextIndices r),
        or_lastError := m\<rparr>)" for m
      using recorder_inv_touch [OF assms] by (simp add: recorder_inv_lastError)
    have "recorder_inv (?r\<lparr>or_pending := map_del owner (or_pending ?r),
        or_nextIndices := map_put owner (nx + of_nat (length ps)) (map_emplace owner 0 (or_nextIndices ?r)),
        or_activeFlows := fl,
        or_committed := fold (lb_insert event_order_key) (additions epoch owner nx ps) (or_committed ?r),
        or_lastCommitEpoch := Some epoch\<rparr>)"
      if "length ps \<le> unat (- 1 - nx)" "check_flows (or_activeFlows r) ps = Inr fl" for fl
      using that pending_flow_ok [OF inv Some]
      by (intro recorder_inv_publish [OF inv]) (simp_all add: nx_def)
    with inv Some touch show ?thesis
      by (auto simp: commitOwner_def recorder_reject_def Let_def recorder_inv_lastError emplaced
          split: sum.split)
  qed
qed

lemmas recorder_inv_ops [gf_inv] =
  recorder_inv_empty recorder_inv_reset recorder_inv_propose recorder_inv_rejectOwner
  recorder_inv_commitOwner

lemma commitOwner_refused:
  assumes "commitOwner owner epoch r = (False, r')"
  shows "or_committed r' = or_committed r \<and> or_pending r' = or_pending r \<and>
         or_activeFlows r' = or_activeFlows r \<and> or_lastCommitEpoch r' = or_lastCommitEpoch r"
  using assms
  by (auto simp: commitOwner_def recorder_reject_def Let_def split: if_splits option.splits sum.splits)

lemma commitOwner_publishes:
  assumes "commitOwner owner epoch r = (True, r')"
  shows "\<exists>n. mset (or_committed r') = mset (additions epoch owner n (pending_of r owner)) + mset (or_committed r)"
    and "pending_of r' owner = []"
    and "o2 \<noteq> owner \<Longrightarrow> pending_of r' o2 = pending_of r o2"
proof -
  show "\<exists>n. mset (or_committed r') = mset (additions epoch owner n (pending_of r owner)) + mset (or_committed r)"
    using assms
    by (auto simp: commitOwner_def recorder_reject_def Let_def pending_of_def mset_fold_lb_insert
        split: if_splits option.splits sum.splits)
  show "pending_of r' owner = []" and "o2 \<noteq> owner \<Longrightarrow> pending_of r' o2 = pending_of r o2"
    using assms
    by (auto simp: commitOwner_def recorder_reject_def Let_def pending_of_def map_of_map_del
        split: if_splits option.splits sum.splits)
qed

section \<open>Properties\<close>

text \<open>The calls a runtime can make on a recorder.\<close>

datatype recorder_call = CallPropose event_proposal | CallCommit object_id epoch
  | CallReject object_id | CallReset

fun recorder_apply :: "recorder_call \<Rightarrow> observation_recorder \<Rightarrow> observation_recorder" where
  "recorder_apply (CallPropose p) r = snd (recorder_propose p r)"
| "recorder_apply (CallCommit owner e) r = snd (commitOwner owner e r)"
| "recorder_apply (CallReject owner) r = rejectOwner owner r"
| "recorder_apply CallReset r = recorder_reset r"

lemma recorder_inv_calls: "recorder_inv r \<Longrightarrow> recorder_inv (fold recorder_apply cs r)"
proof (induction cs arbitrary: r)
  case (Cons c cs)
  from Cons.prems have "recorder_inv (recorder_apply c r)"
    by (cases c) (simp_all add: recorder_inv_ops)
  with Cons.IH show ?case by simp
qed simp

text \<open>
  C32: Through any sequence of proposals, commits, rejections and resets the committed log stays
  ordered by epoch, owner and owner-local index, no two entries share these three, and flows stay
  balanced: each flow identity was started exactly as often as it was ended, plus once when it is
  active.
\<close>

theorem observation_log_ordered:
  fixes cs defines "r \<equiv> fold recorder_apply cs empty_recorder"
  shows "sorted_by event_order_key (or_committed r) \<and> distinct (map event_order_key (or_committed r)) \<and>
    (\<forall>f. flow_count FlowStart f (or_committed r) =
       flow_count FlowEnd f (or_committed r) + (if map_of (or_activeFlows r) f = Some True then 1 else 0))"
  using recorder_inv_calls [OF recorder_inv_empty, of cs]
  unfolding r_def recorder_inv_def flows_balanced_def flow_active_def by auto

text \<open>
  Committing an owner publishes exactly its pending proposals, once, and touches no other
  owner's; a refused commit publishes nothing and keeps every proposal and flow as it was.
\<close>

theorem commit_owner_exact:
  assumes "commitOwner owner epoch r = (ok, r')"
  shows "if ok
    then (\<exists>n. mset (or_committed r') = mset (additions epoch owner n (pending_of r owner)) + mset (or_committed r)) \<and>
      pending_of r' owner = [] \<and> (\<forall>o2. o2 \<noteq> owner \<longrightarrow> pending_of r' o2 = pending_of r o2)
    else or_committed r' = or_committed r \<and> or_pending r' = or_pending r \<and> or_activeFlows r' = or_activeFlows r"
  using assms commitOwner_publishes [of owner epoch r r'] commitOwner_refused [of owner epoch r r']
  by (cases ok) auto

theorem commit_owner_exact_witness:
  "\<exists>r'. commitOwner 1 epoch0 (snd (recorder_propose \<lparr>op_ownerId = 1, op_category = ''c'', op_name = ''n'', op_phase = Instant,
       op_rootSequenceId = None, op_duration = None, op_flowId = None, op_arguments = []\<rparr> empty_recorder)) = (True, r') \<and>
     pending_of r' 1 = []"
proof -
  define r where "r = snd (recorder_propose \<lparr>op_ownerId = 1, op_category = ''c'', op_name = ''n'', op_phase = Instant,
       op_rootSequenceId = None, op_duration = None, op_flowId = None, op_arguments = []\<rparr> empty_recorder)"
  have "fst (commitOwner 1 epoch0 r)" 
    by (simp add: r_def commitOwner_def recorder_propose_def empty_recorder_def validName_def alpha_def is_flow_def
        kInvalidObjectId_def pending_of_def map_emplace_def Let_def unat_eq_0)
  then obtain r' where c: "commitOwner 1 epoch0 r = (True, r')" by (cases "commitOwner 1 epoch0 r") auto
  from commit_owner_exact [OF c] c show ?thesis unfolding r_def by auto
qed

end
