(* ===== verification/Sim_Object.thy ===== *)
theory Sim_Object
  imports Observation
begin

text \<open>
  The base class \<open>SimObject\<close> of \<open>include/gfsim/object.h\<close>, and the part of \<open>SimSystem\<close> that
  components call back into. Inheritance is record extension: every component record extends
  \<open>sim_object\<close>. A component never reads the scheduler's state; it reaches the system through
  four calls, which are the fields of \<open>sim_api\<close> over an arbitrary system state \<open>'s\<close>. The
  scheduler theory supplies the one implementation of that interface.
\<close>

section \<open>The base object\<close>

record sim_object =
  so_kind :: object_kind
  so_name :: string
  so_id :: object_id
  so_path :: string
  so_parent :: "ptr option"
  so_observationSink :: "ptr option"
  so_runtimeFailureCode :: string

definition setPath :: "string \<Rightarrow> 'z sim_object_scheme \<Rightarrow> 'z sim_object_scheme" where
  "setPath path ob = ob\<lparr>so_path := path\<rparr>"

definition setParent :: "ptr option \<Rightarrow> 'z sim_object_scheme \<Rightarrow> 'z sim_object_scheme" where
  "setParent p ob = ob\<lparr>so_parent := p\<rparr>"

definition setObservationSink :: "ptr option \<Rightarrow> 'z sim_object_scheme \<Rightarrow> 'z sim_object_scheme" where
  "setObservationSink p ob = ob\<lparr>so_observationSink := p\<rparr>"

definition setRuntimeFailureCode :: "string \<Rightarrow> 'z sim_object_scheme \<Rightarrow> 'z sim_object_scheme" where
  "setRuntimeFailureCode code ob = ob\<lparr>so_runtimeFailureCode := code\<rparr>"

definition clearRuntimeFailureCode :: "'z sim_object_scheme \<Rightarrow> 'z sim_object_scheme" where
  "clearRuntimeFailureCode ob = ob\<lparr>so_runtimeFailureCode := ''''\<rparr>"

text \<open>The base implementations of the virtual functions that are not overridden.\<close>

definition base_validatePendingCommit :: "'z sim_object_scheme \<Rightarrow> bool" where
  "base_validatePendingCommit ob \<longleftrightarrow> so_runtimeFailureCode ob = ''''"

definition base_runtimeState :: "bool \<Rightarrow> bool \<Rightarrow> runtime_object_state" where
  "base_runtimeState pending runnable = empty_runtime_object_state
     \<lparr>ros_quiescent := \<not> pending \<and> \<not> runnable, ros_runnable := runnable,
      ros_pendingCommit := pending,
      ros_reason := (if pending then ''pending_commit'' else if runnable then ''runnable'' else '''')\<rparr>"

lemma failure_code_simps [simp]:
  "so_runtimeFailureCode (setRuntimeFailureCode c ob) = c"
  "so_runtimeFailureCode (clearRuntimeFailureCode ob) = ''''"
  "so_id (setRuntimeFailureCode c ob) = so_id ob"
  "so_kind (setRuntimeFailureCode c ob) = so_kind ob"
  "so_path (setRuntimeFailureCode c ob) = so_path ob"
  "so_id (clearRuntimeFailureCode ob) = so_id ob"
  "so_kind (clearRuntimeFailureCode ob) = so_kind ob"
  "so_path (clearRuntimeFailureCode ob) = so_path ob"
  "sim_object.more (setRuntimeFailureCode c ob) = sim_object.more ob"
  "sim_object.more (clearRuntimeFailureCode ob) = sim_object.more ob"
  by (simp_all add: setRuntimeFailureCode_def clearRuntimeFailureCode_def)

section \<open>The system as components see it\<close>

record 's sim_api =
  api_registerCommitParticipant :: "object_id \<Rightarrow> 's \<Rightarrow> bool \<times> 's"
  api_scheduleEvent :: "event \<Rightarrow> 's \<Rightarrow> bool \<times> 's"
  api_proposeObservation :: "event_proposal \<Rightarrow> 's \<Rightarrow> bool \<times> 's"
  api_currentEpoch :: "'s \<Rightarrow> epoch"

text \<open>\<open>!system_ || system_->registerCommitParticipant(id())\<close>\<close>

definition registered ::
  "'s sim_api \<Rightarrow> ptr option \<Rightarrow> object_id \<Rightarrow> 's \<Rightarrow> bool \<times> 's" where
  "registered api system i s =
     (case system of None \<Rightarrow> (True, s) | Some _ \<Rightarrow> api_registerCommitParticipant api i s)"

definition emitObservation ::
  "'s sim_api \<Rightarrow> event_proposal \<Rightarrow> 'z sim_object_scheme \<Rightarrow> 's \<Rightarrow> 'z sim_object_scheme \<times> 's" where
  "emitObservation api proposal ob s =
     (case so_observationSink ob of
        None \<Rightarrow> (ob, s)
      | Some _ \<Rightarrow>
         (case api_proposeObservation api (proposal\<lparr>op_ownerId := so_id ob\<rparr>) s of
            (True, s') \<Rightarrow> (ob, s')
          | (False, s') \<Rightarrow> (setRuntimeFailureCode ''observation_proposal_failed'' ob, s')))"

fun emitObservations ::
  "'s sim_api \<Rightarrow> event_proposal list \<Rightarrow> 'z sim_object_scheme \<Rightarrow> 's \<Rightarrow> 'z sim_object_scheme \<times> 's" where
  "emitObservations api [] ob s = (ob, s)"
| "emitObservations api (p # ps) ob s =
     (case emitObservation api p ob s of (ob', s') \<Rightarrow> emitObservations api ps ob' s')"

text \<open>An \<open>EventProposal\<close> with only its category, name and phase designated.\<close>

definition observation :: "string \<Rightarrow> string \<Rightarrow> trace_event_phase \<Rightarrow> event_proposal" where
  "observation category nm phase =
     \<lparr>op_ownerId = kInvalidObjectId, op_category = category, op_name = nm, op_phase = phase,
      op_rootSequenceId = None, op_duration = None, op_flowId = None, op_arguments = []\<rparr>"

text \<open>
  Emitting observations touches an object only through its failure code.
\<close>

lemma emitObservation_object:
  "fst (emitObservation api p ob s) = ob \<or>
   fst (emitObservation api p ob s) = setRuntimeFailureCode ''observation_proposal_failed'' ob"
  by (auto simp: emitObservation_def split: option.splits prod.splits bool.splits)

lemma emitObservations_object:
  "fst (emitObservations api ps ob s) = ob \<or>
   fst (emitObservations api ps ob s) = setRuntimeFailureCode ''observation_proposal_failed'' ob"
proof (induction ps arbitrary: ob s)
  case (Cons p ps)
  obtain ob' s' where e: "emitObservation api p ob s = (ob', s')" by fastforce
  with emitObservation_object [of api p ob s]
  have "ob' = ob \<or> ob' = setRuntimeFailureCode ''observation_proposal_failed'' ob" by simp
  moreover have "setRuntimeFailureCode c (setRuntimeFailureCode c ob) = setRuntimeFailureCode c ob" for c
    by (simp add: setRuntimeFailureCode_def)
  ultimately show ?case
    using Cons.IH [of ob' s'] e by auto
qed simp

lemma emitObservations_frame [simp]:
  "so_id (fst (emitObservations api ps ob s)) = so_id ob"
  "so_kind (fst (emitObservations api ps ob s)) = so_kind ob"
  "so_path (fst (emitObservations api ps ob s)) = so_path ob"
  "sim_object.more (fst (emitObservations api ps ob s)) = sim_object.more ob"
  using emitObservations_object [of api ps ob s] by auto

lemma emitObservations_no_sink [simp]:
  "so_observationSink ob = None \<Longrightarrow> emitObservations api ps ob s = (ob, s)"
  by (induction ps) (simp_all add: emitObservation_def)

text \<open>A system that accepts every call: components that are exercised on their own.\<close>

definition permissive_api :: "unit sim_api" where
  "permissive_api = \<lparr>api_registerCommitParticipant = (\<lambda>i s. (True, s)),
     api_scheduleEvent = (\<lambda>e s. (True, s)), api_proposeObservation = (\<lambda>p s. (True, s)),
     api_currentEpoch = (\<lambda>s. epoch0)\<rparr>"

text \<open>
  What components rely on: the calls into the system never move the epoch they ran at, and a
  relation \<open>evolves\<close> between system states that the calls respect and that composes.
\<close>

locale sim_runtime =
  fixes api :: "'s sim_api"
    and evolves :: "'s \<Rightarrow> 's \<Rightarrow> bool"
  assumes evolves_refl: "evolves s s"
    and evolves_trans: "evolves s t \<Longrightarrow> evolves t u \<Longrightarrow> evolves s u"
    and evolves_register: "evolves s (snd (api_registerCommitParticipant api i s))"
    and evolves_schedule: "evolves s (snd (api_scheduleEvent api e s))"
    and evolves_observe: "evolves s (snd (api_proposeObservation api p s))"
    and evolves_epoch: "evolves s t \<Longrightarrow> api_currentEpoch api t = api_currentEpoch api s"
begin

lemma evolves_registered: "evolves s (snd (registered api system i s))"
  by (simp add: registered_def evolves_refl evolves_register split: option.split)

lemma evolves_emit: "evolves s (snd (emitObservation api p ob s))"
  using evolves_observe [of s "p\<lparr>op_ownerId := so_id ob\<rparr>"]
  by (auto simp: emitObservation_def evolves_refl split: option.splits prod.splits bool.splits)

lemma evolves_emits: "evolves s (snd (emitObservations api ps ob s))"
proof (induction ps arbitrary: ob s)
  case (Cons p ps)
  obtain ob' s' where e: "emitObservation api p ob s = (ob', s')" by fastforce
  with evolves_emit [of s p ob] have "evolves s s'" by simp
  with Cons.IH [of s' ob'] e show ?case by (auto intro: evolves_trans)
qed (simp add: evolves_refl)

end

text \<open>
  The contract every component keeps: an invariant that its fresh states satisfy, that each of
  its calls preserves, and that implies the component's own \<open>validate\<close>. Whatever calls are
  made, in whatever order, the component then stays valid.
\<close>

locale component_contract =
  fixes fresh :: "'c \<Rightarrow> bool"
    and perform :: "'call \<Rightarrow> 'c \<Rightarrow> 'c"
    and inv :: "'c \<Rightarrow> bool"
    and valid :: "'c \<Rightarrow> bool"
  assumes fresh_inv: "fresh c \<Longrightarrow> inv c"
    and perform_inv: "inv c \<Longrightarrow> inv (perform call c)"
    and inv_valid: "inv c \<Longrightarrow> valid c"
begin

lemma run_keeps: "inv c \<Longrightarrow> inv (fold perform calls c)"
  by (induction calls arbitrary: c) (simp_all add: perform_inv)

lemma run_inv: "fresh c \<Longrightarrow> inv (fold perform calls c)"
  by (simp add: fresh_inv run_keeps)

lemma run_valid: "fresh c \<Longrightarrow> valid (fold perform calls c)"
  by (simp add: inv_valid run_inv)

end

end
