(* ===== verification/Event_Queue.thy ===== *)
theory Event_Queue
  imports Sim_Object
begin

text \<open>
  The two time-ordered queues of \<open>include/gfsim/queue.h\<close>: \<open>EventQueue\<close>, the system's
  notification queue, and \<open>TimedEventQueue\<close>, the compiler-native delayed queue. Both are
  multisets ordered by (ready epoch, acceptance sequence), modelled as sorted lists. The lemmas
  show that capacity and order are invariants, that the earliest event comes first, that sequence
  numbers are unique, and that a delayed value is never received before its exact ready time.
\<close>

section \<open>The system event queue\<close>

record event_queue =
  eq_capacity :: nat
  eq_committed :: "event list"
  eq_pushProposals :: "event list"

definition newEventQueue :: "nat \<Rightarrow> event_queue" where
  "newEventQueue capacity = \<lparr>eq_capacity = capacity, eq_committed = [], eq_pushProposals = []\<rparr>"

definition eq_setCapacity :: "nat \<Rightarrow> event_queue \<Rightarrow> bool \<times> event_queue" where
  "eq_setCapacity capacity q =
     (if capacity < length (eq_committed q) + length (eq_pushProposals q) then (False, q)
      else (True, q\<lparr>eq_capacity := capacity\<rparr>))"

definition eq_isFull :: "event_queue \<Rightarrow> bool" where
  "eq_isFull q \<longleftrightarrow> length (eq_committed q) + length (eq_pushProposals q) \<ge> eq_capacity q"

definition eq_proposeSchedule :: "event \<Rightarrow> event_queue \<Rightarrow> bool \<times> event_queue" where
  "eq_proposeSchedule e q =
     (if length (eq_committed q) + length (eq_pushProposals q) \<ge> eq_capacity q then (False, q)
      else (True, q\<lparr>eq_pushProposals := ms_insert event_key e (eq_pushProposals q)\<rparr>))"

definition eq_doXfer :: "event_queue \<Rightarrow> event_queue" where
  "eq_doXfer q = q\<lparr>eq_committed := fold (ms_insert event_key) (eq_pushProposals q) (eq_committed q),
                   eq_pushProposals := []\<rparr>"

definition eq_hasPendingCommit :: "event_queue \<Rightarrow> bool" where
  "eq_hasPendingCommit q \<longleftrightarrow> eq_pushProposals q \<noteq> []"

definition eq_nextEvent :: "event_queue \<Rightarrow> event option" where
  "eq_nextEvent q = (case eq_committed q of [] \<Rightarrow> None | e # _ \<Rightarrow> Some e)"

definition eq_popNext :: "event_queue \<Rightarrow> event option \<times> event_queue" where
  "eq_popNext q =
     (case eq_committed q of [] \<Rightarrow> (None, q) | e # es \<Rightarrow> (Some e, q\<lparr>eq_committed := es\<rparr>))"

definition eq_hasEventAt :: "epoch \<Rightarrow> event_queue \<Rightarrow> bool" where
  "eq_hasEventAt epoch q \<longleftrightarrow> list_ex (\<lambda>e. ev_readyTime e = epoch) (eq_committed q)"

definition eq_reset :: "event_queue \<Rightarrow> event_queue" where
  "eq_reset q = q\<lparr>eq_committed := [], eq_pushProposals := []\<rparr>"

definition eq_inv :: "event_queue \<Rightarrow> bool" where
  "eq_inv q \<longleftrightarrow>
     sorted_by event_key (eq_committed q) \<and> sorted_by event_key (eq_pushProposals q) \<and>
     length (eq_committed q) + length (eq_pushProposals q) \<le> eq_capacity q"

lemma mset_fold_ms_insert: "mset (fold (ms_insert key) xs ys) = mset xs + mset ys"
  by (induction xs arbitrary: ys) auto

lemma set_fold_ms_insert [simp]: "set (fold (ms_insert key) xs ys) = set xs \<union> set ys"
  by (induction xs arbitrary: ys) auto

lemma length_fold_ms_insert [simp]: "length (fold (ms_insert key) xs ys) = length xs + length ys"
  by (induction xs arbitrary: ys) auto

lemma sorted_fold_ms_insert: "sorted_by key ys \<Longrightarrow> sorted_by key (fold (ms_insert key) xs ys)"
  by (induction xs arbitrary: ys) auto

lemma eq_inv_new: "eq_inv (newEventQueue c)"
  by (simp add: eq_inv_def newEventQueue_def)

lemma eq_inv_schedule: "eq_inv q \<Longrightarrow> eq_inv (snd (eq_proposeSchedule e q))"
  by (simp add: eq_inv_def eq_proposeSchedule_def)

lemma eq_inv_xfer: "eq_inv q \<Longrightarrow> eq_inv (eq_doXfer q)"
  by (simp add: eq_inv_def eq_doXfer_def sorted_fold_ms_insert)

lemma eq_inv_pop: "eq_inv q \<Longrightarrow> eq_inv (snd (eq_popNext q))"
  by (auto simp: eq_inv_def eq_popNext_def split: list.split)

lemma eq_inv_setCapacity: "eq_inv q \<Longrightarrow> eq_inv (snd (eq_setCapacity c q))"
  by (simp add: eq_inv_def eq_setCapacity_def)

lemma eq_inv_reset: "eq_inv (eq_reset q)"
  by (simp add: eq_inv_def eq_reset_def)

lemmas eq_inv_ops [gf_inv] =
  eq_inv_new eq_inv_schedule eq_inv_xfer eq_inv_pop eq_inv_setCapacity eq_inv_reset

lemma eq_nextEvent_earliest:
  "eq_inv q \<Longrightarrow> eq_nextEvent q = Some e \<Longrightarrow> x \<in> set (eq_committed q) \<Longrightarrow> event_key e \<le> event_key x"
  by (auto simp: eq_inv_def eq_nextEvent_def split: list.splits)

lemma eq_nextEvent_ready:
  "eq_inv q \<Longrightarrow> eq_nextEvent q = Some e \<Longrightarrow> x \<in> set (eq_committed q) \<Longrightarrow>
     ev_readyTime e \<le> ev_readyTime x"
  by (drule (2) eq_nextEvent_earliest) (auto simp: event_key_def less_eq_prod_def less_imp_le)

section \<open>The timed event queue\<close>

record 'a timed_entry =
  te_readyTime :: epoch
  te_sequence :: u64
  te_value :: 'a

definition entry_key :: "'a timed_entry \<Rightarrow> epoch \<times> u64" where
  "entry_key e = (te_readyTime e, te_sequence e)"

definition kNotificationKind :: u32 where
  "kNotificationKind = 0x45565131"

record 'a timed_queue = sim_object +
  tq_capacity :: nat
  tq_committed :: "'a timed_entry list"
  tq_scheduleProposals :: "'a timed_entry list"
  tq_popProposalCount :: nat
  tq_nextSequence :: u64
  tq_highWatermark :: nat
  tq_totalPushes :: u64
  tq_totalPops :: u64
  tq_lastUpdate :: epoch
  tq_system :: "ptr option"

definition newTimedQueue ::
  "string \<Rightarrow> object_id \<Rightarrow> ptr option \<Rightarrow> nat \<Rightarrow> ptr option \<Rightarrow> 'a timed_queue" where
  "newTimedQueue nm i parent capacity sink =
     \<lparr>so_kind = KEventQueue, so_name = nm, so_id = i, so_path = '''', so_parent = parent,
      so_observationSink = sink, so_runtimeFailureCode = '''',
      tq_capacity = capacity, tq_committed = [], tq_scheduleProposals = [],
      tq_popProposalCount = 0, tq_nextSequence = 0, tq_highWatermark = 0, tq_totalPushes = 0,
      tq_totalPops = 0, tq_lastUpdate = epoch0, tq_system = None\<rparr>"

definition recordFailure ::
  "'s sim_api \<Rightarrow> string \<Rightarrow> ('a, 'z) timed_queue_scheme \<Rightarrow> 's \<Rightarrow> ('a, 'z) timed_queue_scheme \<times> 's" where
  "recordFailure api code q s =
     (setRuntimeFailureCode code q, snd (registered api (tq_system q) (so_id q) s))"

text \<open>The delay is an \<open>int64_t\<close>.\<close>

definition timed_trySchedule ::
  "'s sim_api \<Rightarrow> 'a \<Rightarrow> epoch \<Rightarrow> int \<Rightarrow> ('a, 'z) timed_queue_scheme \<Rightarrow> 's
   \<Rightarrow> bool \<times> ('a, 'z) timed_queue_scheme \<times> 's" where
  "timed_trySchedule api v epoch delay q s =
     (if delay < 0 then (False, recordFailure api ''negative_event_delay'' q s)
      else let unsignedDelay = word_of_int delay :: u64 in
        if ep_time epoch > - 1 - unsignedDelay then (False, recordFailure api ''tick_overflow'' q s)
        else if length (tq_committed q) + length (tq_scheduleProposals q) \<ge> tq_capacity q
        then (False, q, s)
        else if tq_nextSequence q = - 1
        then (False, recordFailure api ''event_sequence_overflow'' q s)
        else case registered api (tq_system q) (so_id q) s of
          (False, s') \<Rightarrow> (False, q, s')
        | (True, s') \<Rightarrow>
            (True,
             q\<lparr>tq_scheduleProposals := tq_scheduleProposals q @
                  [\<lparr>te_readyTime = Epoch (ep_time epoch + unsignedDelay)
                                         (if delay = 0 then ep_delta epoch else 0),
                    te_sequence = tq_nextSequence q, te_value = v\<rparr>],
               tq_nextSequence := tq_nextSequence q + 1\<rparr>, s'))"

definition timed_tryRecv ::
  "'s sim_api \<Rightarrow> epoch \<Rightarrow> ('a::zero, 'z) timed_queue_scheme \<Rightarrow> 's
   \<Rightarrow> ('a \<times> bool) \<times> ('a, 'z) timed_queue_scheme \<times> 's" where
  "timed_tryRecv api epoch q s =
     (if tq_popProposalCount q \<ge> length (tq_committed q) \<or>
         te_readyTime (tq_committed q ! tq_popProposalCount q) > epoch
      then ((0, False), q, s)
      else case registered api (tq_system q) (so_id q) s of
        (False, s') \<Rightarrow> ((0, False), q, s')
      | (True, s') \<Rightarrow> ((te_value (tq_committed q ! tq_popProposalCount q), True),
                      q\<lparr>tq_popProposalCount := tq_popProposalCount q + 1\<rparr>, s'))"

definition timed_hasPendingCommit :: "('a, 'z) timed_queue_scheme \<Rightarrow> bool" where
  "timed_hasPendingCommit q \<longleftrightarrow> tq_popProposalCount q \<noteq> 0 \<or> tq_scheduleProposals q \<noteq> [] \<or>
     so_runtimeFailureCode q \<noteq> ''''"

text \<open>The commit loop over the schedule proposals; it stops at the first refused notification.\<close>

fun timed_commit_loop ::
  "'s sim_api \<Rightarrow> 'a timed_entry list \<Rightarrow> ('a, 'z) timed_queue_scheme \<Rightarrow> 's
   \<Rightarrow> ('a, 'z) timed_queue_scheme \<times> 's" where
  "timed_commit_loop api [] q s = (q, s)"
| "timed_commit_loop api (e # es) q s =
     (let q1 = q\<lparr>tq_committed := ms_insert entry_key e (tq_committed q),
                 tq_totalPushes := tq_totalPushes q + 1\<rparr>
      in case tq_system q1 of
           None \<Rightarrow> timed_commit_loop api es q1 s
         | Some _ \<Rightarrow>
            (case api_scheduleEvent api \<lparr>ev_readyTime = te_readyTime e, ev_targetId = so_id q1,
                    ev_eventKind = kNotificationKind, ev_payload = te_sequence e, ev_sequence = 0\<rparr> s of
               (False, s') \<Rightarrow> (setRuntimeFailureCode ''event_notification_failed'' q1, s')
             | (True, s') \<Rightarrow> timed_commit_loop api es q1 s'))"

definition timed_doXfer ::
  "'s sim_api \<Rightarrow> epoch \<Rightarrow> ('a, 'z) timed_queue_scheme \<Rightarrow> 's \<Rightarrow> ('a, 'z) timed_queue_scheme \<times> 's" where
  "timed_doXfer api epoch q s =
     (let changed = timed_hasPendingCommit q;
          popped = min (tq_popProposalCount q) (length (tq_committed q));
          q1 = q\<lparr>tq_committed := drop popped (tq_committed q),
                 tq_totalPops := tq_totalPops q + of_nat popped, tq_popProposalCount := 0\<rparr>;
          (q2, s') = timed_commit_loop api (tq_scheduleProposals q1) q1 s;
          q3 = q2\<lparr>tq_scheduleProposals := [],
                  tq_highWatermark := max (tq_highWatermark q2) (length (tq_committed q2))\<rparr>
      in (if changed then q3\<lparr>tq_lastUpdate := epoch\<rparr> else q3, s'))"

definition timed_deliverEvent ::
  "u32 \<Rightarrow> u64 \<Rightarrow> epoch \<Rightarrow> ('a, 'z) timed_queue_scheme \<Rightarrow> bool" where
  "timed_deliverEvent kind sequence epoch q =
     (if kind \<noteq> kNotificationKind then False
      else case find (\<lambda>e. te_sequence e = sequence) (tq_committed q) of
        None \<Rightarrow> False | Some e \<Rightarrow> te_readyTime e = epoch)"

definition timed_runtimeState :: "('a, 'z) timed_queue_scheme \<Rightarrow> runtime_object_state" where
  "timed_runtimeState q =
     (let pending = timed_hasPendingCommit q;
          quiescent = (tq_committed q = [] \<and> \<not> pending);
          base = base_runtimeState pending False
      in base\<lparr>ros_queueOccupancy := length (tq_committed q),
              ros_pendingOffers := length (tq_scheduleProposals q),
              ros_quiescent := quiescent,
              ros_reason := (if \<not> quiescent
                 then (if pending then ''pending_commit'' else ''events_not_empty'')
                 else ros_reason base)\<rparr>)"

definition timed_collectStatistics :: "('a, 'z) timed_queue_scheme \<Rightarrow> stat_snapshot list" where
  "timed_collectStatistics q =
     [plain_snapshot ''event_queue_occupancy'' (so_path q) Gauge (of_nat (length (tq_committed q))) (tq_lastUpdate q),
      plain_snapshot ''event_queue_occupancy_peak'' (so_path q) Gauge (of_nat (tq_highWatermark q)) (tq_lastUpdate q),
      plain_snapshot ''accepted_events'' (so_path q) Counter (tq_totalPushes q) (tq_lastUpdate q),
      plain_snapshot ''completed_events'' (so_path q) Counter (tq_totalPops q) (tq_lastUpdate q)]"

definition timed_bindSystem :: "ptr option \<Rightarrow> ('a, 'z) timed_queue_scheme \<Rightarrow> ('a, 'z) timed_queue_scheme" where
  "timed_bindSystem system q = q\<lparr>tq_system := system\<rparr>"

definition timed_reset :: "('a, 'z) timed_queue_scheme \<Rightarrow> ('a, 'z) timed_queue_scheme" where
  "timed_reset q = clearRuntimeFailureCode
     (q\<lparr>tq_committed := [], tq_scheduleProposals := [], tq_popProposalCount := 0,
        tq_nextSequence := 0, tq_highWatermark := 0, tq_totalPushes := 0, tq_totalPops := 0,
        tq_lastUpdate := epoch0\<rparr>)"

section \<open>The invariant of the timed queue\<close>

definition timed_inv :: "('a, 'z) timed_queue_scheme \<Rightarrow> bool" where
  "timed_inv q \<longleftrightarrow>
     sorted_by entry_key (tq_committed q) \<and>
     distinct (map te_sequence (tq_committed q @ tq_scheduleProposals q)) \<and>
     (\<forall>e \<in> set (tq_committed q @ tq_scheduleProposals q). te_sequence e < tq_nextSequence q) \<and>
     tq_popProposalCount q \<le> length (tq_committed q) \<and>
     length (tq_committed q) + length (tq_scheduleProposals q) \<le> tq_capacity q \<and>
     tq_totalPushes q = tq_totalPops q + of_nat (length (tq_committed q))"

lemma timed_inv_new: "timed_inv (newTimedQueue nm i p cap sink)"
  by (simp add: timed_inv_def newTimedQueue_def)

lemma timed_inv_reset: "timed_inv (timed_reset q)"
  by (simp add: timed_inv_def timed_reset_def clearRuntimeFailureCode_def)

lemma timed_inv_failure [simp]: "timed_inv (setRuntimeFailureCode c q) = timed_inv q"
  by (simp add: timed_inv_def setRuntimeFailureCode_def)

lemma timed_inv_bind: "timed_inv (timed_bindSystem sys q) = timed_inv q"
  by (simp add: timed_inv_def timed_bindSystem_def)

lemma timed_inv_schedule:
  "timed_inv q \<Longrightarrow> timed_inv (fst (snd (timed_trySchedule api v e d q s)))"
  by (auto simp: timed_trySchedule_def timed_inv_def recordFailure_def Let_def
        setRuntimeFailureCode_def word_less_inc intro: word_less_Suc
        split: prod.splits bool.splits)

lemma timed_inv_recv: "timed_inv q \<Longrightarrow> timed_inv (fst (snd (timed_tryRecv api e q s)))"
  by (auto simp: timed_tryRecv_def timed_inv_def split: prod.splits bool.splits)

text \<open>
  The commit loop inserts a prefix of the proposals (all of them unless a notification is
  refused) and leaves every other field alone.
\<close>

definition notifies :: "'s sim_api \<Rightarrow> ('a, 'z) timed_queue_scheme \<Rightarrow> bool" where
  "notifies api q \<longleftrightarrow> (\<forall>e s. fst (api_scheduleEvent api e s)) \<or> tq_system q = None"

lemma timed_commit_loop_prefix:
  "\<exists>k \<le> length es. \<exists>c.
     fst (timed_commit_loop api es q s) =
       q\<lparr>so_runtimeFailureCode := c,
         tq_committed := fold (ms_insert entry_key) (take k es) (tq_committed q),
         tq_totalPushes := tq_totalPushes q + of_nat k\<rparr> \<and>
     (notifies api q \<longrightarrow>
        k = length es \<and> c = so_runtimeFailureCode q)"
proof (induction es arbitrary: q s)
  case Nil
  show ?case by (rule exI [of _ 0], simp) (rule exI [of _ "so_runtimeFailureCode q"], simp)
next
  case (Cons e es)
  define q1 where "q1 = q\<lparr>tq_committed := ms_insert entry_key e (tq_committed q),
                 tq_totalPushes := tq_totalPushes q + 1\<rparr>"
  have step: "?case" if run: "timed_commit_loop api (e # es) q s = timed_commit_loop api es q1 s'" for s'
  proof -
    from Cons.IH [of q1 s'] obtain k c where k: "k \<le> length es"
      and r: "fst (timed_commit_loop api es q1 s') =
         q1\<lparr>so_runtimeFailureCode := c,
         tq_committed := fold (ms_insert entry_key) (take k es) (tq_committed q1),
         tq_totalPushes := tq_totalPushes q1 + of_nat k\<rparr>"
      and all: "notifies api q1 \<longrightarrow>
        k = length es \<and> c = so_runtimeFailureCode q1" by blast
    have "fst (timed_commit_loop api (e # es) q s) = q\<lparr>so_runtimeFailureCode := c,
         tq_committed := fold (ms_insert entry_key) (take (Suc k) (e # es)) (tq_committed q),
         tq_totalPushes := tq_totalPushes q + of_nat (Suc k)\<rparr>"
      unfolding run r by (simp add: q1_def)
    moreover have "notifies api q \<longrightarrow> Suc k = length (e # es) \<and> c = so_runtimeFailureCode q"
      using all by (simp add: q1_def notifies_def)
    ultimately show ?thesis using k by (intro exI [of _ "Suc k"] conjI exI [of _ c]) simp_all
  qed
  show ?case
  proof (cases "tq_system q")
    case None
    then show ?thesis by (intro step [of s]) (simp add: q1_def Let_def)
  next
    case (Some p)
    obtain ok s' where call: "api_scheduleEvent api \<lparr>ev_readyTime = te_readyTime e, ev_targetId = so_id q,
        ev_eventKind = kNotificationKind, ev_payload = te_sequence e, ev_sequence = 0\<rparr> s = (ok, s')"
      by fastforce
    show ?thesis
    proof (cases ok)
      case True
      then show ?thesis using Some call by (intro step [of s']) (simp add: q1_def Let_def)
    next
      case False
      have "fst (timed_commit_loop api (e # es) q s) = q\<lparr>so_runtimeFailureCode := ''event_notification_failed'',
          tq_committed := fold (ms_insert entry_key) (take 1 (e # es)) (tq_committed q),
          tq_totalPushes := tq_totalPushes q + of_nat 1\<rparr>"
        using Some call False by (simp add: Let_def setRuntimeFailureCode_def)
      moreover have "\<not> notifies api q"
        using call False Some unfolding notifies_def by (metis fst_conv option.distinct(1))
      ultimately show ?thesis by (intro exI [of _ 1] conjI exI) auto
    qed
  qed
qed

lemma timed_doXfer_shape:
  assumes "timed_inv q"
  obtains k c u where "k \<le> length (tq_scheduleProposals q)"
    and "fst (timed_doXfer api epoch q s) =
      q\<lparr>so_runtimeFailureCode := c,
        tq_committed := fold (ms_insert entry_key) (take k (tq_scheduleProposals q))
                          (drop (tq_popProposalCount q) (tq_committed q)),
        tq_scheduleProposals := [], tq_popProposalCount := 0,
        tq_highWatermark := max (tq_highWatermark q)
          (length (tq_committed q) - tq_popProposalCount q + k),
        tq_totalPushes := tq_totalPushes q + of_nat k,
        tq_totalPops := tq_totalPops q + of_nat (tq_popProposalCount q),
        tq_lastUpdate := u\<rparr>"
    and "notifies api q \<longrightarrow>
           k = length (tq_scheduleProposals q) \<and> c = so_runtimeFailureCode q"
proof -
  have pops: "min (tq_popProposalCount q) (length (tq_committed q)) = tq_popProposalCount q"
    using assms by (simp add: timed_inv_def)
  define q1 where "q1 = q\<lparr>tq_committed := drop (tq_popProposalCount q) (tq_committed q),
      tq_totalPops := tq_totalPops q + of_nat (tq_popProposalCount q), tq_popProposalCount := 0\<rparr>"
  obtain q2 s' where run: "timed_commit_loop api (tq_scheduleProposals q) q1 s = (q2, s')" by fastforce
  from timed_commit_loop_prefix [of "tq_scheduleProposals q" api q1 s]
  obtain k c where k: "k \<le> length (tq_scheduleProposals q)"
    and q2: "q2 = q1\<lparr>so_runtimeFailureCode := c,
         tq_committed := fold (ms_insert entry_key) (take k (tq_scheduleProposals q)) (tq_committed q1),
         tq_totalPushes := tq_totalPushes q1 + of_nat k\<rparr>"
    and all: "notifies api q1 \<longrightarrow>
        k = length (tq_scheduleProposals q) \<and> c = so_runtimeFailureCode q1"
    unfolding run fst_conv by metis
  note run' = run [unfolded q1_def]
  show thesis
  proof (rule that [where k = k and c = c and u = "if timed_hasPendingCommit q then epoch else tq_lastUpdate q"])
    show "notifies api q \<longrightarrow>
           k = length (tq_scheduleProposals q) \<and> c = so_runtimeFailureCode q"
      using all by (simp add: q1_def notifies_def)
  next
    show "fst (timed_doXfer api epoch q s) =
      q\<lparr>so_runtimeFailureCode := c,
        tq_committed := fold (ms_insert entry_key) (take k (tq_scheduleProposals q))
                          (drop (tq_popProposalCount q) (tq_committed q)),
        tq_scheduleProposals := [], tq_popProposalCount := 0,
        tq_highWatermark := max (tq_highWatermark q)
          (length (tq_committed q) - tq_popProposalCount q + k),
        tq_totalPushes := tq_totalPushes q + of_nat k,
        tq_totalPops := tq_totalPops q + of_nat (tq_popProposalCount q),
        tq_lastUpdate := (if timed_hasPendingCommit q then epoch else tq_lastUpdate q)\<rparr>"
      using k by (simp add: timed_doXfer_def Let_def pops run' q2)
        (simp add: q1_def add.commute min_absorb2)
  qed (rule k)
qed

lemma timed_inv_xfer:
  assumes "timed_inv q"
  shows "timed_inv (fst (timed_doXfer api epoch q s))"
proof -
  let ?n = "tq_popProposalCount q" and ?C = "tq_committed q" and ?P = "tq_scheduleProposals q"
  from timed_doXfer_shape [OF assms, of api epoch s]
  obtain k c u where k: "k \<le> length ?P"
    and r: "fst (timed_doXfer api epoch q s) =
      q\<lparr>so_runtimeFailureCode := c,
        tq_committed := fold (ms_insert entry_key) (take k ?P) (drop ?n ?C),
        tq_scheduleProposals := [], tq_popProposalCount := 0,
        tq_highWatermark := max (tq_highWatermark q) (length ?C - ?n + k),
        tq_totalPushes := tq_totalPushes q + of_nat k,
        tq_totalPops := tq_totalPops q + of_nat ?n, tq_lastUpdate := u\<rparr>"
    by metis
  have "mset (map te_sequence (fold (ms_insert entry_key) (take k ?P) (drop ?n ?C))) =
        mset (map te_sequence (drop ?n ?C @ take k ?P))"
    by (simp add: mset_fold_ms_insert)
  moreover have "distinct (map te_sequence (drop ?n ?C @ take k ?P))"
    using assms unfolding timed_inv_def
    by (auto simp: distinct_map_drop distinct_map_take dest!: in_set_dropD in_set_takeD)
  ultimately have d: "distinct (map te_sequence (fold (ms_insert entry_key) (take k ?P) (drop ?n ?C)))"
    using mset_eq_imp_distinct_iff by blast
  have "sorted_by entry_key (drop ?n ?C)"
    using assms by (simp add: timed_inv_def drop_map [symmetric] sorted_wrt_drop)
  moreover have "?n \<le> length ?C" and "tq_totalPushes q = tq_totalPops q + of_nat (length ?C)"
    using assms by (simp_all add: timed_inv_def)
  ultimately show ?thesis
    using assms d k unfolding r timed_inv_def
    by (auto simp: sorted_fold_ms_insert of_nat_diff dest!: in_set_dropD in_set_takeD)
qed

lemmas timed_inv_ops [gf_inv] =
  timed_inv_new timed_inv_reset timed_inv_schedule timed_inv_recv timed_inv_xfer

section \<open>Runs of the timed queue\<close>

text \<open>
  One call on the queue; the run collects the values it accepted and the values it handed out.
\<close>

datatype 'a timed_call = TSchedule 'a epoch int | TRecv epoch | TXfer epoch

fun timed_apply ::
  "'s sim_api \<Rightarrow> ('a::zero) timed_call \<Rightarrow> ('a list \<times> 'a list \<times> 'a timed_queue \<times> 's)
   \<Rightarrow> ('a list \<times> 'a list \<times> 'a timed_queue \<times> 's)" where
  "timed_apply api (TSchedule v e d) (acc, out, q, s) =
     (case timed_trySchedule api v e d q s of
        (ok, q', s') \<Rightarrow> (if ok then acc @ [v] else acc, out, q', s'))"
| "timed_apply api (TRecv e) (acc, out, q, s) =
     (case timed_tryRecv api e q s of
        ((v, ok), q', s') \<Rightarrow> (acc, if ok then out @ [v] else out, q', s'))"
| "timed_apply api (TXfer e) (acc, out, q, s) = (acc, out, timed_doXfer api e q s)"

text \<open>The values the queue still owes: unclaimed committed entries and schedule proposals.\<close>

definition owed :: "('a, 'z) timed_queue_scheme \<Rightarrow> 'a multiset" where
  "owed q = mset (map te_value (drop (tq_popProposalCount q) (tq_committed q))) +
            mset (map te_value (tq_scheduleProposals q))"

lemma owed_schedule:
  assumes "timed_inv q"
  shows "owed (fst (snd (timed_trySchedule api v e d q s))) =
      (if fst (timed_trySchedule api v e d q s) then add_mset v (owed q) else owed q)"
  by (auto simp: owed_def timed_trySchedule_def recordFailure_def Let_def setRuntimeFailureCode_def
      split: prod.splits bool.splits)

lemma owed_recv:
  "timed_tryRecv api e q s = ((v, ok), q', s') \<Longrightarrow>
     owed q = (if ok then add_mset v (owed q') else owed q')"
  by (auto simp: owed_def timed_tryRecv_def Cons_nth_drop_Suc [symmetric]
      split: if_splits prod.splits bool.splits)

lemma owed_xfer:
  assumes "timed_inv q"
  shows "owed (fst (timed_doXfer api e q s)) \<subseteq># owed q"
    and "notifies api q \<Longrightarrow> owed (fst (timed_doXfer api e q s)) = owed q"
proof -
  let ?n = "tq_popProposalCount q" and ?C = "tq_committed q" and ?P = "tq_scheduleProposals q"
  from timed_doXfer_shape [OF assms, of api e s]
  obtain k c u where r: "fst (timed_doXfer api e q s) =
      q\<lparr>so_runtimeFailureCode := c,
        tq_committed := fold (ms_insert entry_key) (take k ?P) (drop ?n ?C),
        tq_scheduleProposals := [], tq_popProposalCount := 0,
        tq_highWatermark := max (tq_highWatermark q) (length ?C - ?n + k),
        tq_totalPushes := tq_totalPushes q + of_nat k,
        tq_totalPops := tq_totalPops q + of_nat ?n, tq_lastUpdate := u\<rparr>"
    and all: "notifies api q \<longrightarrow> k = length ?P \<and> c = so_runtimeFailureCode q"
    by metis
  have o: "owed (fst (timed_doXfer api e q s)) =
      mset (map te_value (drop ?n ?C)) + mset (map te_value (take k ?P))"
    unfolding r by (simp add: owed_def mset_fold_ms_insert)
  have "mset (map te_value ?P) =
      mset (map te_value (take k ?P)) + mset (map te_value (drop k ?P))"
    by (metis append_take_drop_id map_append mset_append)
  then show "owed (fst (timed_doXfer api e q s)) \<subseteq># owed q"
    unfolding o by (simp add: owed_def)
  show "notifies api q \<Longrightarrow> owed (fst (timed_doXfer api e q s)) = owed q"
    unfolding o using all by (simp add: owed_def)
qed

lemma timed_system_proposals [simp]:
  "tq_system (fst (snd (timed_trySchedule api v e d q s))) = tq_system q"
  "tq_system (fst (snd (timed_tryRecv api e q s))) = tq_system q"
  by (auto simp: timed_trySchedule_def timed_tryRecv_def recordFailure_def Let_def
      setRuntimeFailureCode_def split: prod.splits bool.splits)

lemma timed_system_xfer:
  assumes "timed_inv q"
  shows "tq_system (fst (timed_doXfer api e q s)) = tq_system q"
proof -
  show ?thesis by (rule timed_doXfer_shape [OF assms, of api e s]) simp
qed

text \<open>One call keeps the invariant and the account of the values.\<close>

definition timed_account ::
  "'s sim_api \<Rightarrow> ptr option \<Rightarrow> ('a::zero) list \<times> 'a list \<times> 'a timed_queue \<times> 's \<Rightarrow> bool" where
  "timed_account api sys = (\<lambda>(acc, out, q, s). timed_inv q \<and> tq_system q = sys \<and>
     mset out + owed q \<subseteq># mset acc \<and> (notifies api q \<longrightarrow> mset out + owed q = mset acc))"

lemma timed_account_apply:
  assumes "timed_account api sys st"
  shows "timed_account api sys (timed_apply api c st)"
proof -
  obtain acc out q s where st: "st = (acc, out, q, s)" by (metis prod_cases4)
  have inv: "timed_inv q" and sys: "tq_system q = sys"
    and le: "mset out + owed q \<subseteq># mset acc"
    and eq: "notifies api q \<longrightarrow> mset out + owed q = mset acc"
    using assms by (simp_all add: timed_account_def st)
  show ?thesis
  proof (cases c)
    case (TSchedule v e d)
    obtain ok q' s' where r: "timed_trySchedule api v e d q s = (ok, q', s')" by (metis prod_cases3)
    with owed_schedule [OF inv, of api v e d s] timed_inv_schedule [OF inv, of api v e d s]
      timed_system_proposals(1) [of api v e d q s]
    show ?thesis using le eq sys
      by (auto simp: timed_account_def st TSchedule notifies_def)
  next
    case (TRecv e)
    obtain v ok q' s' where r: "timed_tryRecv api e q s = ((v, ok), q', s')" by (metis prod.collapse)
    with owed_recv [OF r] timed_inv_recv [OF inv, of api e s]
      timed_system_proposals(2) [of api e q s]
    show ?thesis using le eq sys
      by (auto simp: timed_account_def st TRecv notifies_def split: if_splits)
  next
    case (TXfer e)
    obtain q' s' where r: "timed_doXfer api e q s = (q', s')" by fastforce
    have "mset out + owed q' \<subseteq># mset acc"
      using owed_xfer(1) [OF inv, of api e s] le r by (simp add: subset_mset.add_mono order.trans
        subset_mset.order_trans [of "mset out + owed q'" "mset out + owed q"])
    moreover have "notifies api q' \<longrightarrow> mset out + owed q' = mset acc"
      using owed_xfer(2) [OF inv, of api e s] eq r timed_system_xfer [OF inv, of api e s]
      by (simp add: notifies_def)
    ultimately show ?thesis
      using timed_inv_xfer [OF inv, of api e s] timed_system_xfer [OF inv, of api e s] sys r
      by (simp add: timed_account_def st TXfer)
  qed
qed

lemma timed_account_run:
  "timed_account api sys st \<Longrightarrow> timed_account api sys (fold (timed_apply api) calls st)"
  by (induction calls arbitrary: st) (simp_all del: split_paired_All add: timed_account_apply)

section \<open>Properties\<close>

text \<open>
  C22: a delayed queue hands out every value it accepted at most once, whatever the system answers:
  over any sequence of schedule, receive and Xfer calls the values handed out together with the
  values still owed are contained in the values accepted, and are exactly those when the system
  accepts the queue's notifications. Order, unique sequence numbers, capacity and the push and
  pop counters are invariant throughout.
\<close>

theorem timed_queue_exactly_once:
  assumes "q0 = timed_bindSystem sys (newTimedQueue nm i parent cap sink)"
    and "fold (timed_apply api) calls ([], [], q0, s0) = (accepted, received, q, s)"
  shows "timed_inv q \<and> mset received + owed q \<subseteq># mset accepted \<and>
    (notifies api q0 \<longrightarrow> mset received + owed q = mset accepted)"
proof -
  have "timed_inv q0"
    unfolding assms(1) timed_inv_bind by (rule timed_inv_new)
  then have "timed_account api sys ([], [], q0, s0)"
    by (simp add: assms(1) timed_account_def owed_def newTimedQueue_def timed_bindSystem_def)
  from timed_account_run [OF this, of calls] assms(2)
  have "timed_account api sys (accepted, received, q, s)" by simp
  moreover have "tq_system q0 = sys"
    by (simp add: assms(1) timed_bindSystem_def)
  ultimately show ?thesis
    by (auto simp: timed_account_def notifies_def)
qed

definition sample_timed :: "nat timed_queue" where
  "sample_timed = timed_bindSystem None (newTimedQueue ''dq'' 3 None 2 None)"

definition sample_timed_calls :: "nat timed_call list" where
  "sample_timed_calls = [TSchedule 7 (Epoch 1 0) 4, TSchedule 8 (Epoch 1 0) 2, TXfer (Epoch 1 0),
     TRecv (Epoch 2 0), TRecv (Epoch 3 0), TXfer (Epoch 3 0)]"

lemma sample_timed_run:
  "fold (timed_apply permissive_api) sample_timed_calls ([], [], sample_timed, ()) =
    ([7, 8], [8], snd (snd (fold (timed_apply permissive_api) sample_timed_calls ([], [], sample_timed, ()))))"
  by (simp add: sample_timed_calls_def sample_timed_def newTimedQueue_def timed_bindSystem_def
      timed_trySchedule_def timed_tryRecv_def timed_doXfer_def timed_hasPendingCommit_def Let_def
      registered_def epoch_order ms_insert_def entry_key_def less_eq_prod_def)

theorem timed_queue_exactly_once_witness:
  "\<exists>q. fold (timed_apply permissive_api) sample_timed_calls ([], [], sample_timed, ()) =
       ([7, 8], [8], q, ()) \<and> {#8#} + owed q = {#7, 8#}"
proof -
  define q where "q = fst (snd (snd (fold (timed_apply permissive_api) sample_timed_calls
    ([], [], sample_timed, ()))))"
  have run: "fold (timed_apply permissive_api) sample_timed_calls ([], [], sample_timed, ()) =
      ([7, 8], [8], q, ())"
    using sample_timed_run unfolding q_def by (metis prod.collapse old.unit.exhaust)
  with timed_queue_exactly_once [OF sample_timed_def run]
  have "{#8#} + owed q = {#7, 8#}"
    by (simp add: notifies_def permissive_api_def)
  with run show ?thesis by blast
qed

text \<open>
  A receive never hands out a value before its ready epoch, and hands out the earliest one:
  the value is that of the first unclaimed committed entry, whose ready epoch has come and which
  precedes every other unclaimed entry in (ready epoch, sequence) order. A refused receive
  changes nothing in the queue.
\<close>

theorem timed_recv_earliest_ready:
  assumes "timed_inv q" and "timed_tryRecv api epoch q s = ((v, ok), q', s')"
  shows "if ok then \<exists>e rest. drop (tq_popProposalCount q) (tq_committed q) = e # rest \<and>
             v = te_value e \<and> te_readyTime e \<le> epoch \<and> (\<forall>x \<in> set rest. entry_key e < entry_key x)
         else q' = q"
proof (cases ok)
  case False
  then show ?thesis
    using assms(2) by (auto simp: timed_tryRecv_def split: if_splits prod.splits bool.splits)
next
  case True
  let ?n = "tq_popProposalCount q" and ?C = "tq_committed q"
  from assms(2) True have n: "?n < length ?C" and e: "te_readyTime (?C ! ?n) \<le> epoch"
    and v: "v = te_value (?C ! ?n)"
    by (auto simp: timed_tryRecv_def not_less split: if_splits prod.splits bool.splits)
  have "sorted_by entry_key (drop ?n ?C)" and "distinct (map te_sequence (drop ?n ?C))"
    using assms(1) by (auto simp: timed_inv_def drop_map [symmetric] sorted_wrt_drop)
  then have "\<forall>x \<in> set (drop (Suc ?n) ?C). entry_key (?C ! ?n) < entry_key x"
    unfolding Cons_nth_drop_Suc [OF n, symmetric]
    by (auto simp: entry_key_def less_le)
  with True n e v show ?thesis
    by (simp add: Cons_nth_drop_Suc [symmetric])
qed

definition sample_timed_ready :: "nat timed_queue" where
  "sample_timed_ready = sample_timed\<lparr>tq_nextSequence := 2, tq_totalPushes := 2, tq_committed :=
     [\<lparr>te_readyTime = Epoch 3 0, te_sequence = 1, te_value = 8\<rparr>,
      \<lparr>te_readyTime = Epoch 5 0, te_sequence = 0, te_value = 7\<rparr>]\<rparr>"

lemmas sample_timed_defs = sample_timed_ready_def sample_timed_def newTimedQueue_def timed_bindSystem_def

lemma sample_timed_ready_inv: "timed_inv sample_timed_ready"
  by (simp add: timed_inv_def sample_timed_defs entry_key_def less_eq_prod_def epoch_order)

theorem timed_recv_earliest_ready_witness:
  "\<exists>e rest. tq_committed sample_timed_ready = e # rest \<and> te_value e = 8 \<and>
     te_readyTime e \<le> Epoch 3 0 \<and> (\<forall>x \<in> set rest. entry_key e < entry_key x)"
proof -
  have "timed_tryRecv permissive_api (Epoch 3 0) sample_timed_ready () =
      ((8, True), sample_timed_ready\<lparr>tq_popProposalCount := 1\<rparr>, ())"
    by (simp add: timed_tryRecv_def sample_timed_defs registered_def epoch_order)
  from timed_recv_earliest_ready [OF sample_timed_ready_inv this]
  show ?thesis by (auto simp: sample_timed_defs)
qed

text \<open>
  C23: an accepted schedule is exact: with a nonnegative 64-bit delay the new entry is ready exactly
  \<open>delay\<close> ticks later, computed without wrap-around, in delta 0 (in the current delta for delay 0),
  and never before the current epoch. A negative delay or a tick overflow is refused with the
  corresponding failure code, and the refused call proposes nothing.
\<close>

theorem timed_schedule_exact_delay:
  assumes "delay < 2 ^ 63" and "timed_trySchedule api v epoch delay q s = (ok, q', s')"
  shows "if ok then 0 \<le> delay \<and> (\<exists>e. tq_scheduleProposals q' = tq_scheduleProposals q @ [e] \<and>
             te_value e = v \<and> te_sequence e = tq_nextSequence q \<and>
             int (unat (ep_time (te_readyTime e))) = int (unat (ep_time epoch)) + delay \<and>
             ep_delta (te_readyTime e) = (if delay = 0 then ep_delta epoch else 0) \<and>
             epoch \<le> te_readyTime e)
         else tq_scheduleProposals q' = tq_scheduleProposals q \<and>
           (delay < 0 \<longrightarrow> so_runtimeFailureCode q' = ''negative_event_delay'') \<and>
           (delay \<ge> 0 \<and> int (unat (ep_time epoch)) + delay \<ge> 2 ^ 64 \<longrightarrow>
              so_runtimeFailureCode q' = ''tick_overflow'')"
proof (cases "delay < 0")
  case True
  then show ?thesis using assms(2)
    by (auto simp: timed_trySchedule_def recordFailure_def setRuntimeFailureCode_def)
next
  case False
  let ?d = "word_of_int delay :: u64"
  have d: "int (unat ?d) = delay"
    using False assms(1) by (simp add: uint_word_of_int)
  have guard: "ep_time epoch > - 1 - ?d \<longleftrightarrow> int (unat (ep_time epoch)) + delay \<ge> 2 ^ 64"
  proof -
    have "unat (- 1 - ?d) = 2 ^ 64 - 1 - unat ?d"
      using unat_max_minus [of ?d] by simp
    moreover have "unat ?d < 2 ^ 64"
      using unsigned_less [of ?d, where ?'a = nat] by simp
    moreover have "x > 2 ^ 64 - 1 - y \<longleftrightarrow> int x + delay \<ge> 2 ^ 64"
      if "int y = delay" "y < 2 ^ 64" for x y
      using that by simp linarith
    ultimately show ?thesis
      unfolding word_less_nat_alt using d by metis
  qed
  show ?thesis
  proof (cases ok)
    case True
    then have nowrap: "\<not> ep_time epoch > - 1 - ?d"
      and q': "tq_scheduleProposals q' = tq_scheduleProposals q @
        [\<lparr>te_readyTime = Epoch (ep_time epoch + ?d) (if delay = 0 then ep_delta epoch else 0),
          te_sequence = tq_nextSequence q, te_value = v\<rparr>]"
      using assms(2) False
      by (auto simp: timed_trySchedule_def Let_def split: if_splits prod.splits bool.splits)
    from nowrap have "unat (?d + ep_time epoch) = unat ?d + unat (ep_time epoch)"
      by (intro word_add_no_wrap) (simp add: not_less)
    then have sum: "unat (ep_time epoch + ?d) = unat (ep_time epoch) + unat ?d"
      by (simp add: add.commute)
    then have "epoch \<le> Epoch (ep_time epoch + ?d) (if delay = 0 then ep_delta epoch else 0)"
      using d False by (cases epoch) (auto simp: epoch_order word_less_nat_alt unat_eq_zero)
    moreover have "int (unat (ep_time epoch + ?d)) = int (unat (ep_time epoch)) + delay"
      unfolding sum using d by simp
    ultimately show ?thesis using q' True False by simp
  next
    case fail: False
    then have "tq_scheduleProposals q' = tq_scheduleProposals q"
      and "ep_time epoch > - 1 - ?d \<Longrightarrow> so_runtimeFailureCode q' = ''tick_overflow''"
      using assms(2) False
      by (auto simp: timed_trySchedule_def Let_def recordFailure_def setRuntimeFailureCode_def
          split: if_splits prod.splits bool.splits)
    with fail False guard show ?thesis by simp
  qed
qed

theorem timed_schedule_exact_delay_witness:
  "\<exists>e. tq_scheduleProposals (fst (snd (timed_trySchedule permissive_api 9 (Epoch 10 4) 6 sample_timed ()))) = [e] \<and>
     int (unat (ep_time (te_readyTime e))) = 16 \<and> ep_delta (te_readyTime e) = 0"
proof -
  obtain q' where q': "timed_trySchedule permissive_api 9 (Epoch 10 4) 6 sample_timed () = (True, q', ())"
    by (simp add: timed_trySchedule_def Let_def sample_timed_defs registered_def)
  from timed_schedule_exact_delay [OF _ q'] show ?thesis
    unfolding q' by (auto simp: sample_timed_defs)
qed

text \<open>
  A notification is delivered to a timed queue exactly when it has the queue's notification
  kind and names a committed entry that is ready at that very epoch; no other committed entry
  carries the same sequence number.
\<close>

theorem timed_deliver_iff:
  assumes "timed_inv q"
  shows "timed_deliverEvent kind sequence epoch q \<longleftrightarrow>
    kind = kNotificationKind \<and>
    (\<exists>!e. e \<in> set (tq_committed q) \<and> te_sequence e = sequence) \<and>
    (\<exists>e \<in> set (tq_committed q). te_sequence e = sequence \<and> te_readyTime e = epoch)"
proof -
  have d: "distinct (map te_sequence (tq_committed q))"
    using assms by (simp add: timed_inv_def)
  have uniq: "x = y" if "x \<in> set (tq_committed q)" "y \<in> set (tq_committed q)"
    "te_sequence x = te_sequence y" for x y
    using d that by (meson distinct_map inj_onD)
  show ?thesis
  proof (cases "find (\<lambda>e. te_sequence e = sequence) (tq_committed q)")
    case None
    then have "\<forall>e \<in> set (tq_committed q). te_sequence e \<noteq> sequence"
      by (simp add: find_None_iff)
    with None show ?thesis by (auto simp: timed_deliverEvent_def)
  next
    case (Some e)
    then have "e \<in> set (tq_committed q)" "te_sequence e = sequence"
      by (auto simp: find_Some_iff)
    with Some uniq show ?thesis by (auto simp: timed_deliverEvent_def)
  qed
qed

theorem timed_deliver_iff_witness:
  "timed_deliverEvent kNotificationKind 0 (Epoch 5 0) sample_timed_ready \<and>
   \<not> timed_deliverEvent kNotificationKind 0 (Epoch 3 0) sample_timed_ready"
  using timed_deliver_iff [OF sample_timed_ready_inv, of kNotificationKind 0]
  by (auto simp: sample_timed_defs)

end
