(* ===== verification/Sim_System.thy ===== *)
theory Sim_System
  imports Dispatch Event_Queue
begin

text \<open>
  The scheduler \<open>SimSystem\<close> of \<open>lib/gfsim/system.cpp\<close>: configuration, the object registry,
  work and event scheduling, one epoch step with its Work, arbitration, validation and commit
  phases, and the run loop.

  The runtime objects live in a store of an arbitrary type \<open>'h\<close>; \<open>object_ops\<close> is the virtual
  function table the scheduler dispatches through, each entry taking the address of the object.
  The member functions that may call back into the system (\<open>doWork\<close>, \<open>doArbitrate\<close>,
  \<open>doXfer\<close>) act on the pair of system and store; the others act on the store alone. What
  objects may do to the system is the interface \<open>system_api\<close>, an instance of \<open>sim_api\<close>.
\<close>

section \<open>State\<close>

text \<open>The module tree under \<open>root_\<close>; \<open>walk\<close> visits a module before its children.\<close>

datatype hierarchy = HModule ptr "hierarchy list" | HLeaf ptr

fun walk :: "hierarchy \<Rightarrow> ptr list" where
  "walk (HLeaf p) = [p]"
| "walk (HModule p children) = p # concat (map walk children)"

record sim_system = sim_object +
  sy_self :: ptr
  sy_root :: hierarchy
  sy_epoch :: epoch
  sy_terminated :: bool
  sy_result :: termination_result
  sy_maxTicks :: tick
  sy_maxEvents :: u64
  sy_maxTraceRecords :: u64
  sy_objects :: "(object_id \<times> ptr) list"
  sy_scheduledWork :: "(epoch \<times> object_id list) list"
  sy_eventQueue :: event_queue
  sy_dispatch :: "dispatch_row list"
  sy_activation :: activation_plan
  sy_committedEventCount :: u64
  sy_nextEventSequence :: u64
  sy_executingEpoch :: bool
  sy_activeProposalOwner :: "object_id option"
  sy_commitParticipants :: "object_id list"
  sy_noProgress :: no_progress_report
  sy_traceOwnerCount :: nat
  sy_traceEof :: bool
  sy_preflightValidated :: bool
  sy_lastCommitTick :: "(object_id \<times> tick) list"
  sy_eventQueueLastCommitTick :: "tick option"
  sy_timeDomains :: "(string \<times> time_domain_runtime) list"
  sy_maxDomainCycles :: "(string \<times> u64) list"
  sy_domainCycles :: "(string \<times> u64) list"
  sy_observations :: observation_recorder
  sy_deadlockWindow :: "u64 option"
  sy_lastProgressTick :: tick

type_synonym 'h world = "sim_system \<times> 'h"

record 'h object_ops =
  ob_id :: "ptr \<Rightarrow> 'h \<Rightarrow> object_id"
  ob_kind :: "ptr \<Rightarrow> 'h \<Rightarrow> object_kind"
  ob_path :: "ptr \<Rightarrow> 'h \<Rightarrow> string"
  ob_isModule :: "ptr \<Rightarrow> 'h \<Rightarrow> bool"
  ob_runtimeFailureCode :: "ptr \<Rightarrow> 'h \<Rightarrow> string"
  ob_doWork :: "ptr \<Rightarrow> epoch \<Rightarrow> 'h world \<Rightarrow> 'h world"
  ob_doArbitrate :: "ptr \<Rightarrow> epoch \<Rightarrow> 'h world \<Rightarrow> 'h world"
  ob_doXfer :: "ptr \<Rightarrow> epoch \<Rightarrow> 'h world \<Rightarrow> 'h world"
  ob_hasPendingCommit :: "ptr \<Rightarrow> 'h \<Rightarrow> bool"
  ob_validatePendingCommit :: "ptr \<Rightarrow> 'h \<Rightarrow> bool"
  ob_activateFrom :: "ptr \<Rightarrow> object_id \<Rightarrow> 'h \<Rightarrow> bool \<times> 'h"
  ob_deliverEvent :: "ptr \<Rightarrow> u32 \<Rightarrow> u64 \<Rightarrow> epoch \<Rightarrow> 'h \<Rightarrow> bool \<times> 'h"
  ob_runtimeState :: "ptr \<Rightarrow> epoch \<Rightarrow> 'h \<Rightarrow> runtime_object_state"
  ob_collectStatistics :: "ptr \<Rightarrow> 'h \<Rightarrow> stat_snapshot list"
  ob_requestTraceEnd :: "ptr \<Rightarrow> 'h \<Rightarrow> bool \<times> 'h"
  ob_reset :: "ptr \<Rightarrow> 'h \<Rightarrow> 'h"
  ob_validate :: "ptr \<Rightarrow> 'h \<Rightarrow> bool"

text \<open>The constructor; \<open>self\<close> is the address of the system and \<open>rootp\<close> that of its root module.\<close>

definition newSystem :: "string \<Rightarrow> ptr \<Rightarrow> ptr \<Rightarrow> sim_system" where
  "newSystem nm self rootp =
     \<lparr>so_kind = KSystem, so_name = nm, so_id = kSystemObjectId, so_path = ''/'' @ nm,
      so_parent = None, so_observationSink = None, so_runtimeFailureCode = '''',
      sy_self = self, sy_root = HModule rootp [], sy_epoch = epoch0, sy_terminated = False,
      sy_result = empty_termination_result, sy_maxTicks = - 1, sy_maxEvents = - 1,
      sy_maxTraceRecords = - 1, sy_objects = [(kSystemObjectId, self)], sy_scheduledWork = [],
      sy_eventQueue = newEventQueue 1024, sy_dispatch = [], sy_activation = empty_plan,
      sy_committedEventCount = 0, sy_nextEventSequence = 0, sy_executingEpoch = False,
      sy_activeProposalOwner = None, sy_commitParticipants = [],
      sy_noProgress = empty_no_progress_report, sy_traceOwnerCount = 0, sy_traceEof = True,
      sy_preflightValidated = False, sy_lastCommitTick = [], sy_eventQueueLastCommitTick = None,
      sy_timeDomains = [], sy_maxDomainCycles = [], sy_domainCycles = [],
      sy_observations = empty_recorder, sy_deadlockWindow = None, sy_lastProgressTick = 0\<rparr>"

section \<open>Failure and the calls objects make\<close>

definition sys_fail :: "string \<Rightarrow> string \<Rightarrow> sim_system \<Rightarrow> bool \<times> sim_system" where
  "sys_fail code message s =
     (False, s\<lparr>sy_terminated := True, sy_executingEpoch := False,
        sy_result := (sy_result s)\<lparr>tr_classification := Failed, tr_finalEpoch := sy_epoch s,
          tr_committedEventCount := sy_committedEventCount s, tr_domainCycles := sy_domainCycles s,
          tr_diagnosticCode := code, tr_message := Some message\<rparr>\<rparr>)"

definition sys_lookup :: "object_id \<Rightarrow> sim_system \<Rightarrow> ptr option" where
  "sys_lookup i s =
     (case dispatch_lookup (sy_dispatch s) i of
        Some row \<Rightarrow> row_object row
      | None \<Rightarrow> map_of (sy_objects s) i)"

definition registerCommitParticipant :: "object_id \<Rightarrow> sim_system \<Rightarrow> bool \<times> sim_system" where
  "registerCommitParticipant i s =
     (if sy_terminated s \<or> \<not> sy_executingEpoch s \<or> sy_activeProposalOwner s = None then (False, s)
      else if sys_lookup i s = None
      then sys_fail ''unknown_commit_participant''
             ''commit participant is absent from the static dispatch table'' s
      else (True, s\<lparr>sy_commitParticipants := set_insert i (sy_commitParticipants s)\<rparr>))"

definition proposeObservation :: "event_proposal \<Rightarrow> sim_system \<Rightarrow> bool \<times> sim_system" where
  "proposeObservation proposal s =
     (if sy_terminated s \<or> \<not> sy_executingEpoch s then (False, s)
      else case sy_activeProposalOwner s of
        None \<Rightarrow> (False, s)
      | Some ownr \<Rightarrow>
          if op_ownerId proposal \<noteq> ownr \<or> sys_lookup (op_ownerId proposal) s = None
          then sys_fail ''invalid_observation_owner''
                 ''observation owner must be the active runtime object'' s
          else case recorder_propose proposal (sy_observations s) of
            (ok, rec) \<Rightarrow>
              let s' = s\<lparr>sy_observations := rec\<rparr> in
              if ok then (True, s')
              else sys_fail ''invalid_observation_proposal'' (or_lastError rec) s')"

definition scheduleWork :: "object_id \<Rightarrow> epoch \<Rightarrow> sim_system \<Rightarrow> bool \<times> sim_system" where
  "scheduleWork i epoch s =
     (if sy_terminated s then (False, s)
      else if ep_delta epoch \<ge> kMaxDeltasPerTick
      then sys_fail ''max_deltas_exceeded'' ''scheduled work exceeds the causal delta limit'' s
      else if epoch < sy_epoch s
      then sys_fail ''work_before_current_epoch''
             ''work cannot be scheduled before the committed epoch'' s
      else if sys_lookup i s = None
      then sys_fail ''unknown_work_target''
             ''work target is absent from the static dispatch table'' s
      else if sy_executingEpoch s \<and> epoch = sy_epoch s \<and>
              ep_delta (sy_epoch s) + 1 \<ge> kMaxDeltasPerTick
      then sys_fail ''max_deltas_exceeded'' ''causal continuation exceeds the delta limit'' s
      else let e = (if sy_executingEpoch s \<and> epoch = sy_epoch s then nextDelta (sy_epoch s) else epoch);
               ids = (case map_of (sy_scheduledWork s) e of None \<Rightarrow> [] | Some ids \<Rightarrow> ids)
           in (True, s\<lparr>sy_scheduledWork := map_put e (set_insert i ids) (sy_scheduledWork s)\<rparr>))"

definition scheduleEvent :: "event \<Rightarrow> sim_system \<Rightarrow> bool \<times> sim_system" where
  "scheduleEvent event s =
     (if sy_terminated s then (False, s)
      else if ep_delta (ev_readyTime event) \<ge> kMaxDeltasPerTick
      then sys_fail ''max_deltas_exceeded'' ''scheduled event exceeds the causal delta limit'' s
      else if ev_readyTime event < sy_epoch s
      then sys_fail ''event_before_current_epoch''
             ''events cannot be scheduled before the committed epoch'' s
      else if sys_lookup (ev_targetId event) s = None
      then sys_fail ''unknown_event_target''
             ''event target is absent from the static dispatch table'' s
      else if sy_nextEventSequence s = - 1
      then sys_fail ''event_sequence_overflow'' ''the global event sequence counter overflowed'' s
      else
        let e = event\<lparr>ev_sequence := sy_nextEventSequence s\<rparr>;
            s1 = s\<lparr>sy_nextEventSequence := sy_nextEventSequence s + 1\<rparr>
        in case eq_proposeSchedule e (sy_eventQueue s1) of
             (True, q) \<Rightarrow> (True, s1\<lparr>sy_eventQueue := q\<rparr>)
           | (False, q) \<Rightarrow> sys_fail ''event_queue_capacity_exceeded''
                 ''the global event queue capacity was exceeded'' (s1\<lparr>sy_eventQueue := q\<rparr>))"

definition system_api :: "sim_system sim_api" where
  "system_api = \<lparr>api_registerCommitParticipant = registerCommitParticipant,
     api_scheduleEvent = scheduleEvent, api_proposeObservation = proposeObservation,
     api_currentEpoch = sy_epoch\<rparr>"

definition sys_nextEvent :: "sim_system \<Rightarrow> event option" where
  "sys_nextEvent s = eq_nextEvent (sy_eventQueue s)"

definition sys_observations :: "sim_system \<Rightarrow> committed_event list" where
  "sys_observations s = or_committed (sy_observations s)"

section \<open>Configuration\<close>

definition registerObject :: "'h object_ops \<Rightarrow> ptr option \<Rightarrow> 'h \<Rightarrow> sim_system \<Rightarrow> sim_system" where
  "registerObject ops obj h s =
     (case obj of
        None \<Rightarrow> snd (sys_fail ''invalid_object_registration''
                  ''runtime object registration is null, invalid, or duplicate'' s)
      | Some p \<Rightarrow>
          let i = ob_id ops p h in
          if i = kInvalidObjectId \<or> map_of (sy_objects s) i \<noteq> None
          then snd (sys_fail ''invalid_object_registration''
                 ''runtime object registration is null, invalid, or duplicate'' s)
          else s\<lparr>sy_objects := map_put i p (sy_objects s), sy_preflightValidated := False\<rparr>)"

text \<open>The \<open>validate\<close> thunk of a row: the object's identity and its own \<open>validate\<close>.\<close>

definition row_check :: "'h object_ops \<Rightarrow> 'h \<Rightarrow> ptr \<Rightarrow> object_id \<Rightarrow> object_kind \<Rightarrow> bool" where
  "row_check ops h p i k \<longleftrightarrow> \<not> (ob_id ops p h \<noteq> i \<or> ob_kind ops p h \<noteq> k) \<and> ob_validate ops p h"

definition setDispatchTable ::
  "'h object_ops \<Rightarrow> dispatch_row list \<Rightarrow> 'h \<Rightarrow> sim_system \<Rightarrow> bool \<times> sim_system" where
  "setDispatchTable ops rows h s =
     (if \<not> dispatch_validate (row_check ops h) rows
      then sys_fail ''invalid_dispatch_table''
             ''dispatch rows must be complete and densely indexed'' s
      else (True, s\<lparr>sy_dispatch := rows, sy_activation := empty_plan, sy_preflightValidated := False\<rparr>))"

definition setActivationPlan ::
  "u32 list \<Rightarrow> object_id list \<Rightarrow> sim_system \<Rightarrow> bool \<times> sim_system" where
  "setActivationPlan offsets targets s =
     (let candidate = \<lparr>ap_offsets = offsets, ap_targets = targets\<rparr> in
      if \<not> plan_validate candidate (length (sy_dispatch s))
      then sys_fail ''invalid_activation_plan''
             ''activation offsets and targets must be canonical and dense'' s
      else (True, s\<lparr>sy_activation := candidate\<rparr>))"

definition setEventQueueCapacity :: "nat \<Rightarrow> sim_system \<Rightarrow> bool \<times> sim_system" where
  "setEventQueueCapacity capacity s =
     (if sy_terminated s \<or> capacity = 0
      then sys_fail ''invalid_event_queue_capacity''
             ''the internal event queue capacity is invalid'' s
      else case eq_setCapacity capacity (sy_eventQueue s) of
        (True, q) \<Rightarrow> (True, s\<lparr>sy_eventQueue := q\<rparr>)
      | (False, q) \<Rightarrow> sys_fail ''invalid_event_queue_capacity''
             ''the internal event queue capacity is invalid'' (s\<lparr>sy_eventQueue := q\<rparr>))"

text \<open>The candidate map of \<open>setTimeDomains\<close>, or nothing when a domain is refused.\<close>

fun time_domain_map ::
  "time_domain_runtime list \<Rightarrow> string \<Rightarrow> (string \<times> time_domain_runtime) list
   \<Rightarrow> (string \<times> time_domain_runtime) list option" where
  "time_domain_map [] previous candidate = Some candidate"
| "time_domain_map (d # ds) previous candidate =
     (if td_name d = '''' \<or> td_period d = 0 \<or> td_tickScale d = 0 \<or>
         (previous \<noteq> '''' \<and> previous \<ge> td_name d) \<or> map_of candidate (td_name d) \<noteq> None
      then None
      else time_domain_map ds (td_name d) (map_put (td_name d) d candidate))"

definition setTimeDomains :: "time_domain_runtime list \<Rightarrow> sim_system \<Rightarrow> bool \<times> sim_system" where
  "setTimeDomains domains s =
     (if sy_terminated s then (False, s)
      else case time_domain_map domains '''' [] of
        None \<Rightarrow> sys_fail ''invalid_time_domains''
                  ''time domains must be sorted, unique, and positive'' s
      | Some candidate \<Rightarrow> (True, s\<lparr>sy_timeDomains := candidate,
            sy_domainCycles := fold (\<lambda>(nm, d) m. map_emplace nm 0 m) candidate []\<rparr>))"

definition setDeadlockWindow :: "u64 option \<Rightarrow> sim_system \<Rightarrow> bool \<times> sim_system" where
  "setDeadlockWindow window s =
     (if sy_terminated s then (False, s)
      else if window = Some 0
      then sys_fail ''invalid_runtime_limits'' ''the deadlock window must be positive'' s
      else (True, s\<lparr>sy_deadlockWindow := window, sy_lastProgressTick := ep_time (sy_epoch s)\<rparr>))"

definition setMaxDomainCycles :: "(string \<times> u64) list \<Rightarrow> sim_system \<Rightarrow> bool \<times> sim_system" where
  "setMaxDomainCycles limits s =
     (if sy_terminated s then (False, s)
      else if list_ex (\<lambda>(nm, maximum). maximum = 0 \<or> map_of (sy_timeDomains s) nm = None) limits
      then sys_fail ''invalid_runtime_limits''
             ''domain limits must name configured time domains'' s
      else (True, s\<lparr>sy_maxDomainCycles := limits\<rparr>))"

definition setRuntimeLimits :: "runtime_limits \<Rightarrow> sim_system \<Rightarrow> bool \<times> sim_system" where
  "setRuntimeLimits limits s =
     (if sy_terminated s then (False, s)
      else if rl_maxTicks limits = Some 0
      then sys_fail ''invalid_runtime_limits'' ''runtime limits must be positive'' s
      else and_then (setDeadlockWindow (rl_deadlockWindow limits) s) (\<lambda>s1.
           and_then (setMaxDomainCycles (rl_maxDomainCycles limits) s1) (\<lambda>s2.
             (True, s2\<lparr>sy_maxTicks := (case rl_maxTicks limits of None \<Rightarrow> - 1 | Some t \<Rightarrow> t)\<rparr>))))"

definition setMaxTicks :: "tick \<Rightarrow> sim_system \<Rightarrow> sim_system" where
  "setMaxTicks m s = s\<lparr>sy_maxTicks := m\<rparr>"

definition setMaxEvents :: "u64 \<Rightarrow> sim_system \<Rightarrow> sim_system" where
  "setMaxEvents m s = s\<lparr>sy_maxEvents := m\<rparr>"

definition setMaxTraceRecords :: "u64 \<Rightarrow> sim_system \<Rightarrow> sim_system" where
  "setMaxTraceRecords m s = s\<lparr>sy_maxTraceRecords := m\<rparr>"

section \<open>Inspection\<close>

definition runtimeObjects :: "'h object_ops \<Rightarrow> 'h world \<Rightarrow> ptr list" where
  "runtimeObjects ops w =
     (let (s, h) = w;
          m0 = filter (\<lambda>(i, p). i \<noteq> kSystemObjectId) (sy_objects s);
          m1 = fold (\<lambda>p m. if ob_kind ops p h \<noteq> KModule then map_put (ob_id ops p h) p m else m)
                 (walk (sy_root s)) m0;
          m2 = fold (\<lambda>index m. case row_object (sy_dispatch s ! index) of
                        Some p \<Rightarrow> map_put (of_nat index) p m | None \<Rightarrow> m)
                 [0..<length (sy_dispatch s)] m1
      in map snd m2)"

text \<open>The local state of \<open>validateRuntimeIdentities\<close>: the identities seen and the conflict.\<close>

record identity_check =
  ic_ids :: "(object_id \<times> ptr) list"
  ic_paths :: "(string \<times> ptr) list"
  ic_conflict :: string

definition identity_paths :: "'h object_ops \<Rightarrow> 'h \<Rightarrow> ptr \<Rightarrow> identity_check \<Rightarrow> identity_check" where
  "identity_paths ops h p c =
     (let path = ob_path ops p h in
      if path = '''' then c
      else case map_of (ic_paths c) path of
        None \<Rightarrow> c\<lparr>ic_paths := map_put path p (ic_paths c)\<rparr>
      | Some q \<Rightarrow> if q \<noteq> p then c\<lparr>ic_conflict := ''canonical object path '' @ path @
                       '' names more than one runtime object''\<rparr> else c)"

definition identity_record ::
  "'h object_ops \<Rightarrow> ptr \<Rightarrow> 'h \<Rightarrow> ptr \<Rightarrow> identity_check \<Rightarrow> identity_check" where
  "identity_record ops self h p c =
     (if ic_conflict c \<noteq> '''' \<or> p = self then c
      else if ob_id ops p h = kInvalidObjectId \<and> \<not> ob_isModule ops p h
      then c\<lparr>ic_conflict := ''runtime object has the invalid object ID''\<rparr>
      else if ob_id ops p h \<noteq> kInvalidObjectId
      then (case map_of (ic_ids c) (ob_id ops p h) of
              None \<Rightarrow> identity_paths ops h p (c\<lparr>ic_ids := map_put (ob_id ops p h) p (ic_ids c)\<rparr>)
            | Some q \<Rightarrow>
                if q \<noteq> p then c\<lparr>ic_conflict := ''stable object ID '' @ decimal (unat (ob_id ops p h)) @
                                 '' names more than one runtime object''\<rparr>
                else identity_paths ops h p c)
      else identity_paths ops h p c)"

definition identity_pointers :: "sim_system \<Rightarrow> ptr list" where
  "identity_pointers s = map snd (sy_objects s) @ walk (sy_root s) @
     concat (map (\<lambda>row. case row_object row of Some p \<Rightarrow> [p] | None \<Rightarrow> []) (sy_dispatch s))"

definition validateRuntimeIdentities :: "'h object_ops \<Rightarrow> 'h world \<Rightarrow> bool \<times> 'h world" where
  "validateRuntimeIdentities ops w =
     (let (s, h) = w;
          c = fold (identity_record ops (sy_self s) h) (identity_pointers s)
                \<lparr>ic_ids = [], ic_paths = [], ic_conflict = ''''\<rparr>
      in if ic_conflict c \<noteq> ''''
         then (case sys_fail ''duplicate_object_identity'' (ic_conflict c) s of (b, s') \<Rightarrow> (b, s', h))
         else (True, s\<lparr>sy_preflightValidated := True\<rparr>, h))"

definition summarize_object ::
  "'h object_ops \<Rightarrow> 'h \<Rightarrow> ptr \<Rightarrow> sim_system \<Rightarrow> sim_system" where
  "summarize_object ops h p s =
     (let state = ob_runtimeState ops p (sy_epoch s) h;
          s1 = (if ros_traceOwner state
                then s\<lparr>sy_traceOwnerCount := sy_traceOwnerCount s + 1,
                       sy_traceEof := sy_traceEof s \<and> ros_traceEof state,
                       sy_noProgress := (sy_noProgress s)
                         \<lparr>np_tracePosition := ros_tracePosition state,
                          np_lastCommittedSequenceId := ros_traceLastCommittedSequenceId state\<rparr>\<rparr>
                else s);
          np = sy_noProgress s1;
          np1 = np\<lparr>np_queueOccupancy := np_queueOccupancy np + ros_queueOccupancy state,
                   np_pendingOffers := np_pendingOffers np + ros_pendingOffers state,
                   np_activeReservations := np_activeReservations np + ros_activeReservations state\<rparr>;
          np2 = (if ros_quiescent state then np1
                 else np1\<lparr>np_blockedObjects := np_blockedObjects np1 @
                   [\<lparr>bo_id = ob_id ops p h, bo_path = ob_path ops p h, bo_reason = ros_reason state,
                     bo_subscriptions = ros_subscriptions state,
                     bo_dependencyChain = ros_dependencyChain state,
                     bo_correlationChain = ros_correlationChain state,
                     bo_queueOccupancy = ros_queueOccupancy state,
                     bo_pendingOffers = ros_pendingOffers state,
                     bo_activeReservations = ros_activeReservations state,
                     bo_protocolState = ros_protocolState state\<rparr>]\<rparr>)
      in s1\<lparr>sy_noProgress := np2\<rparr>)"

definition refreshRuntimeSummary :: "'h object_ops \<Rightarrow> 'h world \<Rightarrow> 'h world" where
  "refreshRuntimeSummary ops w =
     (let (s, h) = w;
          s0 = s\<lparr>sy_noProgress := empty_no_progress_report\<lparr>np_nextEvent := eq_nextEvent (sy_eventQueue s)\<rparr>,
                 sy_traceOwnerCount := 0, sy_traceEof := True\<rparr>;
          s1 = fold (summarize_object ops h) (runtimeObjects ops w) s0;
          s2 = s1\<lparr>sy_result := (sy_result s1)
                 \<lparr>tr_tracePosition := np_tracePosition (sy_noProgress s1),
                  tr_traceLastCommittedSequenceId := np_lastCommittedSequenceId (sy_noProgress s1)\<rparr>\<rparr>;
          s3 = (if np_blockedObjects (sy_noProgress s2) \<noteq> []
                then s2\<lparr>sy_noProgress := (sy_noProgress s2)\<lparr>np_summary :=
                  ''unfinished runtime state has no scheduled wake or future event''\<rparr>\<rparr>
                else s2)
      in (s3, h))"

text \<open>
  The block that ends a run at a declared cap: classification \<open>Incomplete\<close>, the cap and the
  diagnostic code.
\<close>

definition stop_incomplete :: "u64 \<Rightarrow> string \<Rightarrow> sim_system \<Rightarrow> sim_system" where
  "stop_incomplete cap code s =
     s\<lparr>sy_terminated := True,
       sy_result := (sy_result s)\<lparr>tr_classification := Incomplete, tr_finalEpoch := sy_epoch s,
         tr_committedEventCount := sy_committedEventCount s, tr_domainCycles := sy_domainCycles s,
         tr_terminationCap := Some cap, tr_diagnosticCode := code\<rparr>\<rparr>"

definition stopAtTraceCap :: "'h object_ops \<Rightarrow> 'h world \<Rightarrow> bool \<times> 'h world" where
  "stopAtTraceCap ops w =
     (let (s, h) = refreshRuntimeSummary ops w in
      if sy_traceOwnerCount s > 1
      then (True, snd (sys_fail ''multiple_trace_owners''
             ''the runtime must have exactly one committed trace cursor owner'' s), h)
      else if sy_traceOwnerCount s = 0 \<or> sy_traceEof s \<or>
              tr_tracePosition (sy_result s) < sy_maxTraceRecords s
      then (False, s, h)
      else (True, stop_incomplete (sy_maxTraceRecords s) ''max_trace_records_reached''
              (s\<lparr>sy_executingEpoch := False\<rparr>), h))"

definition noProgressReport :: "sim_system \<Rightarrow> no_progress_report" where
  "noProgressReport s = sy_noProgress s"

definition sys_statistics :: "'h object_ops \<Rightarrow> 'h world \<Rightarrow> stat_snapshot list" where
  "sys_statistics ops w =
     sort_key (\<lambda>x. (ss_objectPath x, ss_name x))
       (concat (map (\<lambda>p. ob_collectStatistics ops p (snd w)) (runtimeObjects ops w)))"

section \<open>One step\<close>

text \<open>The cycle accounting at the first delta of a tick.\<close>

fun domain_loop :: "(string \<times> time_domain_runtime) list \<Rightarrow> sim_system \<Rightarrow> bool \<times> sim_system" where
  "domain_loop [] s = (True, s)"
| "domain_loop ((nm, domain) # ds) s =
     (if ep_time (sy_epoch s) < td_phase domain \<or>
         (ep_time (sy_epoch s) - td_phase domain) mod td_period domain \<noteq> 0
      then domain_loop ds s
      else
        let cycles = (case map_of (sy_domainCycles s) nm of None \<Rightarrow> 0 | Some c \<Rightarrow> c);
            s1 = s\<lparr>sy_domainCycles := map_put nm cycles (sy_domainCycles s)\<rparr>
        in case map_of (sy_maxDomainCycles s1) nm of
             Some maximum \<Rightarrow>
               if cycles \<ge> maximum
               then (False, stop_incomplete maximum ''max_domain_cycles_reached''
                       (s1\<lparr>sy_executingEpoch := False\<rparr>))
               else domain_loop ds (s1\<lparr>sy_domainCycles := map_put nm (cycles + 1) (sy_domainCycles s1)\<rparr>)
           | None \<Rightarrow> domain_loop ds (s1\<lparr>sy_domainCycles := map_put nm (cycles + 1) (sy_domainCycles s1)\<rparr>))"

definition stopAtEventCap :: "sim_system \<Rightarrow> bool \<times> sim_system" where
  "stopAtEventCap s =
     (if sy_committedEventCount s < sy_maxEvents s then (False, s)
      else (True, stop_incomplete (sy_maxEvents s) ''max_events_reached''
              (s\<lparr>sy_executingEpoch := False\<rparr>)))"

text \<open>The declared caps that a step checks before it executes the epoch.\<close>

definition step_limits :: "sim_system \<Rightarrow> bool \<times> sim_system" where
  "step_limits s =
     (if ep_time (sy_epoch s) \<ge> sy_maxTicks s
      then (False, stop_incomplete (sy_maxTicks s) ''max_ticks_reached'' s)
      else and_then (if ep_delta (sy_epoch s) = 0 then domain_loop (sy_timeDomains s) s else (True, s))
             (\<lambda>s1. case stopAtEventCap s1 of (stopped, s2) \<Rightarrow> (\<not> stopped, s2)))"

definition step_preflight :: "'h object_ops \<Rightarrow> 'h world \<Rightarrow> bool \<times> 'h world" where
  "step_preflight ops w =
     (if sy_terminated (fst w) then (False, w)
      else and_then (if sy_preflightValidated (fst w) then (True, w) else validateRuntimeIdentities ops w) (\<lambda>w1.
        case stopAtTraceCap ops w1 of
          (stopped, s, h) \<Rightarrow>
            if stopped then (False, s, h)
            else (case step_limits s of (ok, s1) \<Rightarrow> (ok, s1, h))))"

text \<open>Work for every target of an activation source that accepts the activation.\<close>

fun activate_loop ::
  "'h object_ops \<Rightarrow> object_id \<Rightarrow> epoch \<Rightarrow> object_id list \<Rightarrow> 'h world \<Rightarrow> bool \<times> 'h world" where
  "activate_loop ops source epoch [] w = (True, w)"
| "activate_loop ops source epoch (target # targets) (s, h) =
     (let (skip, h1) = (case sys_lookup target s of
              None \<Rightarrow> (False, h)
            | Some p \<Rightarrow> (case ob_activateFrom ops p source h of (ok, h') \<Rightarrow> (\<not> ok, h')))
      in if skip then activate_loop ops source epoch targets (s, h1)
         else case scheduleWork target epoch s of
             (False, s1) \<Rightarrow> (False, s1, h1)
           | (True, s1) \<Rightarrow> activate_loop ops source epoch targets (s1, h1))"

definition deliverReadyEvent :: "'h object_ops \<Rightarrow> event \<Rightarrow> 'h world \<Rightarrow> bool \<times> 'h world" where
  "deliverReadyEvent ops event w =
     (let (s, h) = w in
      case sys_lookup (ev_targetId event) s of
        None \<Rightarrow> (False, snd (sys_fail ''invalid_event_notification''
                   ''an event notification did not match committed state'' s), h)
      | Some p \<Rightarrow>
          (case ob_deliverEvent ops p (ev_eventKind event) (ev_payload event) (ev_readyTime event) h of
             (False, h1) \<Rightarrow> (False, snd (sys_fail ''invalid_event_notification''
                   ''an event notification did not match committed state'' s), h1)
           | (True, h1) \<Rightarrow>
               if ob_kind ops p h1 \<noteq> KEventQueue
               then (case scheduleWork (ev_targetId event) (sy_epoch s) s of (ok, s1) \<Rightarrow> (ok, s1, h1))
               else activate_loop ops (ev_targetId event) (sy_epoch s)
                      (targetsFor (sy_activation s) (ev_targetId event)) (s, h1)))"

lemma scheduleWork_eventQueue [simp]: "sy_eventQueue (snd (scheduleWork i e s)) = sy_eventQueue s"
  by (simp add: scheduleWork_def sys_fail_def Let_def)

lemma activate_loop_eventQueue:
  "sy_eventQueue (fst (snd (activate_loop ops source e targets w))) = sy_eventQueue (fst w)"
proof (induction ops source e targets w rule: activate_loop.induct)
  case (2 ops source e target targets s h)
  obtain skip h1 where sk: "(case sys_lookup target s of None \<Rightarrow> (False, h)
      | Some p \<Rightarrow> (case ob_activateFrom ops p source h of (ok, h') \<Rightarrow> (\<not> ok, h'))) = (skip, h1)"
    by fastforce
  obtain ok s1 where sw: "scheduleWork target e s = (ok, s1)" by fastforce
  with scheduleWork_eventQueue [of target e s] have "sy_eventQueue s1 = sy_eventQueue s" by simp
  with 2 sk sw show ?case by (cases skip; cases ok) (auto simp: Let_def)
qed simp

lemma deliverReadyEvent_eventQueue:
  "sy_eventQueue (fst (snd (deliverReadyEvent ops ev w))) = sy_eventQueue (fst w)"
proof -
  obtain s h where w: "w = (s, h)" by fastforce
  show ?thesis
  proof (cases "sys_lookup (ev_targetId ev) s")
    case (Some p)
    obtain ok h1 where d: "ob_deliverEvent ops p (ev_eventKind ev) (ev_payload ev) (ev_readyTime ev) h = (ok, h1)"
      by fastforce
    show ?thesis
      by (cases ok) (simp_all add: deliverReadyEvent_def w Some d sys_fail_def case_prod_beta
          activate_loop_eventQueue)
  qed (simp add: deliverReadyEvent_def w sys_fail_def)
qed

text \<open>
  The loop that delivers the events ready at the current epoch. It ends because every iteration
  removes one committed event and delivery adds none.
\<close>

function deliver_loop :: "'h object_ops \<Rightarrow> 'h world \<Rightarrow> bool \<times> 'h world" where
  "deliver_loop ops (s, h) =
     (case eq_nextEvent (sy_eventQueue s) of
        None \<Rightarrow> (True, s, h)
      | Some event \<Rightarrow>
          if ev_readyTime event < sy_epoch s
          then (False, snd (sys_fail ''event_before_current_epoch''
                  ''the event queue contains a stale event'' s), h)
          else if ev_readyTime event \<noteq> sy_epoch s then (True, s, h)
          else case stopAtEventCap s of
            (True, s1) \<Rightarrow> (False, s1, h)
          | (False, s1) \<Rightarrow>
              and_then (deliverReadyEvent ops event
                  (s1\<lparr>sy_eventQueue := snd (eq_popNext (sy_eventQueue s1))\<rparr>, h)) (\<lambda>(s2, h2).
                deliver_loop ops (s2\<lparr>sy_committedEventCount := sy_committedEventCount s2 + 1,
                                     sy_lastProgressTick := ep_time (sy_epoch s2)\<rparr>, h2)))"
  by pat_completeness auto
termination
proof (relation "measure (\<lambda>(ops, s, h). length (eq_committed (sy_eventQueue s)))", goal_cases)
  case (2 ops s h event stopped s1 w2 s2 h2)
  have s1: "s1 = s"
    using 2 by (auto simp: stopAtEventCap_def split: if_splits)
  have "sy_eventQueue s2 = snd (eq_popNext (sy_eventQueue s))"
    using 2 deliverReadyEvent_eventQueue [of ops event
        "(s\<lparr>sy_eventQueue := snd (eq_popNext (sy_eventQueue s))\<rparr>, h)"]
    by (auto simp: s1)
  moreover obtain e es where "eq_committed (sy_eventQueue s) = e # es"
    using 2 by (auto simp: eq_nextEvent_def split: list.splits)
  ultimately show ?case by (simp add: eq_popNext_def)
qed simp

declare deliver_loop.simps [simp del]

text \<open>
  A pass over the scheduled objects with one member function, each as the active proposal owner;
  a call that terminated the system ends the pass. A dispatch row and the registry name the same
  member function of the same object, so both branches of the source are \<open>sys_lookup\<close>.
\<close>

fun phase_loop ::
  "(ptr \<Rightarrow> epoch \<Rightarrow> 'h world \<Rightarrow> 'h world) \<Rightarrow> object_id list \<Rightarrow> 'h world \<Rightarrow> bool \<times> 'h world" where
  "phase_loop call [] w = (True, w)"
| "phase_loop call (i # ids) (s, h) =
     (let s1 = s\<lparr>sy_activeProposalOwner := Some i\<rparr>;
          (s2, h2) = (case sys_lookup i s1 of None \<Rightarrow> (s1, h) | Some p \<Rightarrow> call p (sy_epoch s1) (s1, h));
          s3 = s2\<lparr>sy_activeProposalOwner := None\<rparr>
      in if sy_terminated s3 then (False, s3, h2) else phase_loop call ids (s3, h2))"

definition take_current_work :: "sim_system \<Rightarrow> object_id list \<times> sim_system" where
  "take_current_work s =
     (case map_of (sy_scheduledWork s) (sy_epoch s) of
        None \<Rightarrow> ([], s)
      | Some ids \<Rightarrow> (ids, s\<lparr>sy_scheduledWork := map_del (sy_epoch s) (sy_scheduledWork s)\<rparr>))"

fun validate_loop :: "'h object_ops \<Rightarrow> object_id list \<Rightarrow> 'h world \<Rightarrow> bool \<times> 'h world" where
  "validate_loop ops [] w = (True, w)"
| "validate_loop ops (i # ids) (s, h) =
     (case sys_lookup i s of
        None \<Rightarrow> validate_loop ops ids (s, h)
      | Some p \<Rightarrow>
          if \<not> ob_validatePendingCommit ops p h
          then (False, snd (sys_fail (if ob_runtimeFailureCode ops p h = '''' then ''invalid_pending_commit''
                                      else ob_runtimeFailureCode ops p h)
                  ''runtime object rejected pending state before Xfer'' s), h)
          else validate_loop ops ids (s, h))"

text \<open>The Xfer thunk that \<open>makeDispatchRow\<close> generates.\<close>

definition xfer_thunk ::
  "'h object_ops \<Rightarrow> ptr \<Rightarrow> epoch \<Rightarrow> xfer_phase \<Rightarrow> 'h world \<Rightarrow> bool \<times> 'h world" where
  "xfer_thunk ops p epoch phase w =
     (case phase of
        Arbitrate \<Rightarrow> (False, ob_doArbitrate ops p epoch w)
      | Probe \<Rightarrow> (ob_hasPendingCommit ops p (snd w), w)
      | Commit \<Rightarrow> (ob_hasPendingCommit ops p (snd w), ob_doXfer ops p epoch w))"

definition will_commit :: "'h object_ops \<Rightarrow> object_id \<Rightarrow> 'h world \<Rightarrow> bool" where
  "will_commit ops i w =
     (case dispatch_lookup (sy_dispatch (fst w)) i of
        Some row \<Rightarrow> (case row_object row of
            None \<Rightarrow> False | Some p \<Rightarrow> fst (xfer_thunk ops p (sy_epoch (fst w)) Probe w))
      | None \<Rightarrow> (case sys_lookup i (fst w) of None \<Rightarrow> False | Some p \<Rightarrow> ob_hasPendingCommit ops p (snd w)))"

definition do_commit :: "'h object_ops \<Rightarrow> object_id \<Rightarrow> bool \<Rightarrow> 'h world \<Rightarrow> bool \<times> 'h world" where
  "do_commit ops i willCommit w =
     (case dispatch_lookup (sy_dispatch (fst w)) i of
        Some row \<Rightarrow> (case row_object row of
            None \<Rightarrow> (False, w) | Some p \<Rightarrow> xfer_thunk ops p (sy_epoch (fst w)) Commit w)
      | None \<Rightarrow> (case sys_lookup i (fst w) of
            None \<Rightarrow> (False, w)
          | Some p \<Rightarrow> (willCommit, ob_doXfer ops p (sy_epoch (fst w)) w)))"

text \<open>An object that may commit more than once in a tick.\<close>

definition commits_repeatedly :: "'h object_ops \<Rightarrow> ptr option \<Rightarrow> 'h \<Rightarrow> bool" where
  "commits_repeatedly ops obj h =
     (case obj of None \<Rightarrow> False
      | Some p \<Rightarrow> ob_kind ops p h = KEventQueue \<or> ob_kind ops p h = KProcess)"

definition commit_object ::
  "'h object_ops \<Rightarrow> object_id \<Rightarrow> object_id list \<Rightarrow> 'h world \<Rightarrow> bool \<times> object_id list \<times> 'h world" where
  "commit_object ops i sources w =
     (let (s, h) = w; obj = sys_lookup i s; willCommit = will_commit ops i w in
      if willCommit \<and> map_of (sy_lastCommitTick s) i = Some (ep_time (sy_epoch s)) \<and>
         \<not> commits_repeatedly ops obj h
      then (False, sources, snd (sys_fail ''multiple_stateful_commits''
              ''a stateful object cannot commit twice in one tick'' s), h)
      else
        let (committed, s1, h1) = do_commit ops i willCommit w in
        if committed \<noteq> willCommit
        then (False, sources, snd (sys_fail ''xfer_probe_mismatch''
                ''Xfer pending state changed between probe and commit'' s1), h1)
        else
          let isEventQueue = (case obj of None \<Rightarrow> False | Some p \<Rightarrow> ob_kind ops p h1 = KEventQueue);
              sources' = (if committed \<and> \<not> isEventQueue then sources @ [i] else sources);
              s2 = (if committed
                    then s1\<lparr>sy_lastCommitTick := map_put i (ep_time (sy_epoch s1)) (sy_lastCommitTick s1),
                            sy_lastProgressTick := ep_time (sy_epoch s1)\<rparr>
                    else s1)
          in if sy_terminated s2 then (False, sources', s2, h1)
             else
               let code = (case obj of None \<Rightarrow> '''' | Some p \<Rightarrow> ob_runtimeFailureCode ops p h1) in
               if code \<noteq> ''''
               then (False, sources', snd (sys_fail code ''runtime object reported a committed failure'' s2), h1)
               else if committed
               then (case commitOwner i (sy_epoch s2) (sy_observations s2) of
                       (True, rec) \<Rightarrow> (True, sources', s2\<lparr>sy_observations := rec\<rparr>, h1)
                     | (False, rec) \<Rightarrow> (False, sources',
                         snd (sys_fail ''invalid_observation_commit'' (or_lastError rec)
                           (s2\<lparr>sy_observations := rec\<rparr>)), h1))
               else (True, sources', s2\<lparr>sy_observations := rejectOwner i (sy_observations s2)\<rparr>, h1))"

fun commit_loop ::
  "'h object_ops \<Rightarrow> object_id list \<Rightarrow> object_id list \<Rightarrow> 'h world \<Rightarrow> bool \<times> object_id list \<times> 'h world" where
  "commit_loop ops [] sources w = (True, sources, w)"
| "commit_loop ops (i # ids) sources w =
     and_then (commit_object ops i sources w) (\<lambda>(sources', w'). commit_loop ops ids sources' w')"

definition commit_events :: "sim_system \<Rightarrow> sim_system" where
  "commit_events s =
     (let s1 = (if eq_hasPendingCommit (sy_eventQueue s)
                then s\<lparr>sy_eventQueueLastCommitTick := Some (ep_time (sy_epoch s)),
                       sy_lastProgressTick := ep_time (sy_epoch s)\<rparr>
                else s)
      in s1\<lparr>sy_eventQueue := eq_doXfer (sy_eventQueue s1)\<rparr>)"

text \<open>
  Work, arbitration, validation and commit of one epoch; the result carries the committed
  activation sources.
\<close>

definition step_execute :: "'h object_ops \<Rightarrow> 'h world \<Rightarrow> bool \<times> object_id list \<times> 'h world" where
  "step_execute ops w =
     (let (s, h) = w;
          (currentWork, s1) = take_current_work s;
          s2 = s1\<lparr>sy_executingEpoch := True, sy_commitParticipants := []\<rparr>
      in case phase_loop (ob_doWork ops) currentWork (s2, h) of
           (False, w1) \<Rightarrow> (False, [], w1)
         | (True, w1) \<Rightarrow>
             let xferObjects = fold set_insert (sy_commitParticipants (fst w1)) currentWork in
             case phase_loop (ob_doArbitrate ops) xferObjects w1 of
               (False, w2) \<Rightarrow> (False, [], w2)
             | (True, w2) \<Rightarrow>
                 (case validate_loop ops xferObjects w2 of
                    (False, w3) \<Rightarrow> (False, [], w3)
                  | (True, w3) \<Rightarrow> and_then (commit_loop ops xferObjects [] w3) (\<lambda>(sources, s4, h4).
                      (True, sources, commit_events s4, h4))))"

fun trace_end_loop :: "'h object_ops \<Rightarrow> ptr list \<Rightarrow> 'h \<Rightarrow> object_id list \<times> 'h" where
  "trace_end_loop ops [] h = ([], h)"
| "trace_end_loop ops (p # ps) h =
     (case ob_requestTraceEnd ops p h of
        (ok, h1) \<Rightarrow> (case trace_end_loop ops ps h1 of
          (ids, h2) \<Rightarrow> (if ok then ob_id ops p h1 # ids else ids, h2)))"

definition stop_at_max_ticks :: "sim_system \<Rightarrow> sim_system" where
  "stop_at_max_ticks s =
     stop_incomplete (sy_maxTicks s) ''max_ticks_reached'' (s\<lparr>sy_epoch := Epoch (sy_maxTicks s) 0\<rparr>)"

definition step_trace_end :: "'h object_ops \<Rightarrow> 'h world \<Rightarrow> bool \<times> object_id list \<times> 'h world" where
  "step_trace_end ops w =
     (let (s, h) = refreshRuntimeSummary ops w in
      if sy_traceOwnerCount s = 1 \<and> sy_traceEof s
      then let (ids, h1) = trace_end_loop ops (runtimeObjects ops (s, h)) h in
        if ids = [] then (True, ids, s, h1)
        else if ep_time (sy_epoch s) = - 1
        then (False, ids, snd (sys_fail ''tick_overflow''
                ''trace-end process termination exceeds tick range'' s), h1)
        else if ep_time (sy_epoch s) + 1 \<ge> sy_maxTicks s
        then (False, ids, stop_at_max_ticks s, h1)
        else (True, ids, s, h1)
      else (True, [], s, h))"

fun activate_sources ::
  "'h object_ops \<Rightarrow> epoch \<Rightarrow> object_id list \<Rightarrow> 'h world \<Rightarrow> bool \<times> 'h world" where
  "activate_sources ops epoch [] w = (True, w)"
| "activate_sources ops epoch (source # sources) w =
     and_then (activate_loop ops source epoch (targetsFor (sy_activation (fst w)) source) w)
       (activate_sources ops epoch sources)"

fun schedule_all :: "epoch \<Rightarrow> object_id list \<Rightarrow> sim_system \<Rightarrow> bool \<times> sim_system" where
  "schedule_all epoch [] s = (True, s)"
| "schedule_all epoch (i # ids) s = and_then (scheduleWork i epoch s) (schedule_all epoch ids)"

definition step_activate ::
  "'h object_ops \<Rightarrow> object_id list \<Rightarrow> object_id list \<Rightarrow> 'h world \<Rightarrow> bool \<times> 'h world" where
  "step_activate ops sources traceEnd w =
     (let s = fst w; t = ep_time (sy_epoch s) in
      and_then (if sources \<noteq> [] \<and> \<not> plan_empty (sy_activation s)
                then (if t = - 1
                      then (False, snd (sys_fail ''tick_overflow''
                              ''activation would overflow simulation time'' s), snd w)
                      else activate_sources ops (Epoch (t + 1) 0) sources w)
                else (True, w)) (\<lambda>(s1, h1).
        case (if traceEnd \<noteq> [] then schedule_all (Epoch (ep_time (sy_epoch s1) + 1) 0) traceEnd s1
              else (True, s1)) of (ok, s2) \<Rightarrow> (ok, s2, h1)))"

definition end_epoch :: "sim_system \<Rightarrow> sim_system" where
  "end_epoch s = s\<lparr>sy_executingEpoch := False, sy_activeProposalOwner := None, sy_commitParticipants := []\<rparr>"

text \<open>The next epoch with work or an event, and whether an event determined it.\<close>

definition next_epoch :: "sim_system \<Rightarrow> (epoch \<times> bool) option" where
  "next_epoch s =
     (let work = (case sy_scheduledWork s of [] \<Rightarrow> None | (e, ids) # _ \<Rightarrow> Some e) in
      case eq_nextEvent (sy_eventQueue s) of
        None \<Rightarrow> map_option (\<lambda>e. (e, False)) work
      | Some event \<Rightarrow>
          (case work of
             None \<Rightarrow> Some (ev_readyTime event, True)
           | Some e \<Rightarrow> if ev_readyTime event \<le> e then Some (ev_readyTime event, True) else Some (e, False)))"

definition complete :: "sim_system \<Rightarrow> sim_system" where
  "complete s =
     s\<lparr>sy_terminated := True,
       sy_result := (sy_result s)\<lparr>tr_classification := Completed, tr_finalEpoch := sy_epoch s,
         tr_committedEventCount := sy_committedEventCount s, tr_domainCycles := sy_domainCycles s\<rparr>\<rparr>"

text \<open>No further work: trace cap, deadlock window, no progress, or completion.\<close>

definition step_idle :: "'h object_ops \<Rightarrow> 'h world \<Rightarrow> bool \<times> 'h world" where
  "step_idle ops w =
     (case stopAtTraceCap ops w of
        (True, w1) \<Rightarrow> (False, w1)
      | (False, s, h) \<Rightarrow>
          if np_blockedObjects (sy_noProgress s) \<noteq> []
          then (case sy_deadlockWindow s of
              Some window \<Rightarrow>
                if sy_lastProgressTick s > - 1 - window
                then (False, snd (sys_fail ''tick_overflow'' ''deadlock window exceeds tick range'' s), h)
                else let deadline = sy_lastProgressTick s + window in
                  if deadline \<ge> sy_maxTicks s then (False, stop_at_max_ticks s, h)
                  else (False, snd (sys_fail ''deadlock_window_reached'' (np_summary (sy_noProgress s))
                          (s\<lparr>sy_epoch := Epoch deadline 0\<rparr>)), h)
            | None \<Rightarrow> (False, snd (sys_fail ''no_progress'' (np_summary (sy_noProgress s)) s), h))
          else (False, complete s, h))"

definition step_advance :: "'h object_ops \<Rightarrow> 'h world \<Rightarrow> bool \<times> 'h world" where
  "step_advance ops w =
     (let (s, h) = w in
      case next_epoch s of
        None \<Rightarrow> step_idle ops w
      | Some (nextEpoch, isEvent) \<Rightarrow>
          if nextEpoch \<le> sy_epoch s
          then (False, snd (sys_fail ''non_monotonic_epoch''
                  ''scheduler failed to advance beyond the committed epoch'' s), h)
          else case (if isEvent then None else sy_deadlockWindow s) of
            Some window \<Rightarrow>
              if sy_lastProgressTick s > - 1 - window
              then (False, snd (sys_fail ''tick_overflow'' ''deadlock window exceeds tick range'' s), h)
              else let deadline = sy_lastProgressTick s + window in
                if ep_time nextEpoch \<ge> deadline
                then (False, snd (sys_fail ''deadlock_window_reached''
                        ''scheduled work made no declared progress within the deadlock window''
                        (s\<lparr>sy_epoch := Epoch deadline 0\<rparr>)), h)
                else if ep_time nextEpoch \<ge> sy_maxTicks s then (False, stop_at_max_ticks s, h)
                else (True, s\<lparr>sy_epoch := nextEpoch\<rparr>, h)
          | None \<Rightarrow>
              if ep_time nextEpoch \<ge> sy_maxTicks s then (False, stop_at_max_ticks s, h)
              else (True, s\<lparr>sy_epoch := nextEpoch\<rparr>, h))"

definition step :: "'h object_ops \<Rightarrow> 'h world \<Rightarrow> bool \<times> 'h world" where
  "step ops w =
     and_then (step_preflight ops w) (\<lambda>w1.
     and_then (deliver_loop ops w1) (\<lambda>w2.
     case step_execute ops w2 of (ok3, sources, w3) \<Rightarrow>
       and_then (ok3, w3) (\<lambda>w3.
       case step_trace_end ops w3 of (ok4, traceEnd, w4) \<Rightarrow>
         and_then (ok4, w4) (\<lambda>w4.
         and_then (step_activate ops sources traceEnd w4) (\<lambda>w5.
         and_then (deliver_loop ops w5) (\<lambda>(s6, h6).
           step_advance ops (end_epoch s6, h6)))))))"

section \<open>Running and resetting\<close>

partial_function (option) run_loop :: "'h object_ops \<Rightarrow> 'h world \<Rightarrow> 'h world option" where
  "run_loop ops w =
     (if sy_terminated (fst w) then Some w
      else if fst (step ops w) then run_loop ops (snd (step ops w)) else Some (snd (step ops w)))"

definition start_object :: "'h object_ops \<Rightarrow> 'h \<Rightarrow> ptr \<Rightarrow> sim_system \<Rightarrow> sim_system" where
  "start_object ops h p s =
     (if ob_kind ops p h = KProcess \<or> ob_kind ops p h = KTraceSource
      then snd (scheduleWork (ob_id ops p h) (sy_epoch s) s) else s)"

definition run_start :: "'h object_ops \<Rightarrow> 'h world \<Rightarrow> 'h world" where
  "run_start ops w =
     (let s0 = (fst w)\<lparr>sy_epoch := epoch0\<rparr>
      in (fold (start_object ops (snd w)) (runtimeObjects ops (s0, snd w)) s0, snd w))"

definition run_finish :: "'h object_ops \<Rightarrow> 'h world \<Rightarrow> termination_result \<times> 'h world" where
  "run_finish ops w =
     (let s = fst w;
          s1 = s\<lparr>sy_result := (sy_result s)\<lparr>tr_finalEpoch := sy_epoch s,
            tr_committedEventCount := sy_committedEventCount s, tr_domainCycles := sy_domainCycles s\<rparr>\<rparr>;
          w1 = refreshRuntimeSummary ops (s1, snd w)
      in (sy_result (fst w1), w1))"

definition run :: "'h object_ops \<Rightarrow> 'h world \<Rightarrow> (termination_result \<times> 'h world) option" where
  "run ops w = map_option (run_finish ops) (run_loop ops (run_start ops w))"

definition sys_reset :: "'h object_ops \<Rightarrow> 'h world \<Rightarrow> 'h world" where
  "sys_reset ops w =
     (let (s, h) = w;
          s1 = s\<lparr>sy_epoch := epoch0, sy_terminated := False, sy_result := empty_termination_result,
            sy_scheduledWork := [], sy_eventQueue := eq_reset (sy_eventQueue s),
            sy_committedEventCount := 0, sy_nextEventSequence := 0, sy_executingEpoch := False,
            sy_activeProposalOwner := None, sy_noProgress := empty_no_progress_report,
            sy_observations := recorder_reset (sy_observations s), sy_traceOwnerCount := 0,
            sy_traceEof := True, sy_preflightValidated := False, sy_lastCommitTick := [],
            sy_eventQueueLastCommitTick := None, sy_lastProgressTick := 0,
            sy_domainCycles := fold (\<lambda>(nm, d) m. map_emplace nm 0 m) (sy_timeDomains s) []\<rparr>;
          h1 = (if sy_dispatch s1 \<noteq> []
                then fold (\<lambda>row h. case row_object row of None \<Rightarrow> h | Some p \<Rightarrow> ob_reset ops p h) (sy_dispatch s1) h
                else fold (\<lambda>p h. if ob_kind ops p h \<noteq> KModule then ob_reset ops p h else h)
                       (runtimeObjects ops (s1, h)) h)
      in (s1, h1))"

end
