(* ===== verification/Sim_Scheduler.thy ===== *)
theory Sim_Scheduler
  imports Sim_System
begin

text \<open>
  The invariant of the scheduler and what one step does to it. The system as its objects see it
  is the interpretation \<open>sched\<close> of \<open>sim_runtime\<close>: \<open>sys_evolves\<close> relates two system states when
  calls of \<open>system_api\<close> lead from one to the other. The locale \<open>runtime_objects\<close> is the contract
  of the objects: their Work, arbitration and Xfer functions change the system only in that way.
  Under it a step either moves strictly forward in (time, delta) order and keeps the invariant,
  or terminates the system; hence the run loop returns.
\<close>

section \<open>The system as objects see it\<close>

inductive api_step :: "sim_system \<Rightarrow> sim_system \<Rightarrow> bool" where
  api_register: "api_step s (snd (registerCommitParticipant i s))"
| api_event: "api_step s (snd (scheduleEvent e s))"
| api_observe: "api_step s (snd (proposeObservation p s))"

inductive_cases api_stepE: "api_step s t"

definition sys_evolves :: "sim_system \<Rightarrow> sim_system \<Rightarrow> bool" where
  "sys_evolves = api_step\<^sup>*\<^sup>*"

text \<open>The part of the system that no object can reach.\<close>

definition fixed_part where
  "fixed_part s =
     ((sy_epoch s, sy_dispatch s, sy_objects s, sy_activation s, sy_root s, sy_self s),
      (sy_scheduledWork s, sy_maxTicks s, sy_maxEvents s, sy_timeDomains s, sy_maxDomainCycles s,
       sy_domainCycles s), sy_lastCommitTick s, sy_committedEventCount s, sy_activeProposalOwner s,
      sy_deadlockWindow s, sy_lastProgressTick s, sy_preflightValidated s,
      eq_committed (sy_eventQueue s), eq_capacity (sy_eventQueue s))"

lemma api_step_fixed: "api_step s t \<Longrightarrow> fixed_part t = fixed_part s"
proof (induction rule: api_step.induct)
  case (api_register s i)
  show ?case by (simp add: fixed_part_def registerCommitParticipant_def sys_fail_def)
next
  case (api_event s e)
  show ?case
    by (simp add: fixed_part_def scheduleEvent_def sys_fail_def eq_proposeSchedule_def Let_def
        split: prod.split bool.split)
next
  case (api_observe s p)
  show ?case
    by (simp add: fixed_part_def proposeObservation_def sys_fail_def Let_def
        split: option.split prod.split)
qed

lemma evolves_fixed: "sys_evolves s t \<Longrightarrow> fixed_part t = fixed_part s"
  unfolding sys_evolves_def by (induction rule: rtranclp_induct) (auto dest: api_step_fixed)

lemma fixed_part_simps:
  assumes "fixed_part t = fixed_part s"
  shows "sy_epoch t = sy_epoch s" "sy_dispatch t = sy_dispatch s" "sy_objects t = sy_objects s"
    "sy_activation t = sy_activation s" "sy_root t = sy_root s" "sy_self t = sy_self s"
    "sy_scheduledWork t = sy_scheduledWork s" "sy_maxTicks t = sy_maxTicks s"
    "sy_maxEvents t = sy_maxEvents s" "sy_timeDomains t = sy_timeDomains s"
    "sy_maxDomainCycles t = sy_maxDomainCycles s" "sy_domainCycles t = sy_domainCycles s"
    "sy_lastCommitTick t = sy_lastCommitTick s" "sy_committedEventCount t = sy_committedEventCount s"
    "sy_activeProposalOwner t = sy_activeProposalOwner s" "sy_deadlockWindow t = sy_deadlockWindow s"
    "sy_lastProgressTick t = sy_lastProgressTick s" "sy_preflightValidated t = sy_preflightValidated s"
    "eq_committed (sy_eventQueue t) = eq_committed (sy_eventQueue s)"
    "eq_capacity (sy_eventQueue t) = eq_capacity (sy_eventQueue s)"
  using assms by (simp_all add: fixed_part_def)

lemmas evolves_simps = fixed_part_simps [OF evolves_fixed]

text \<open>A terminated system answers every call with refusal and does not change.\<close>

lemma api_step_terminated: "api_step s t \<Longrightarrow> sy_terminated s \<Longrightarrow> t = s"
  by (induction rule: api_step.induct)
     (simp_all add: registerCommitParticipant_def scheduleEvent_def proposeObservation_def)

lemma api_step_executing:
  "api_step s t \<Longrightarrow> \<not> sy_terminated t \<Longrightarrow> \<not> sy_terminated s \<and> sy_executingEpoch t = sy_executingEpoch s"
  by (induction rule: api_step.induct)
     (auto simp: registerCommitParticipant_def scheduleEvent_def proposeObservation_def sys_fail_def
        Let_def split: if_splits option.splits prod.splits bool.splits)

lemma evolves_executing:
  "sys_evolves s t \<Longrightarrow> \<not> sy_terminated t \<Longrightarrow> \<not> sy_terminated s \<and> sy_executingEpoch t = sy_executingEpoch s"
  unfolding sys_evolves_def
  by (induction rule: rtranclp_induct) (auto dest: api_step_executing)

interpretation sched: sim_runtime system_api sys_evolves
proof unfold_locales
  fix s t u :: sim_system and i e p
  show "sys_evolves s s" by (simp add: sys_evolves_def)
  show "sys_evolves s t \<Longrightarrow> sys_evolves t u \<Longrightarrow> sys_evolves s u"
    by (simp add: sys_evolves_def)
  show "sys_evolves s (snd (api_registerCommitParticipant system_api i s))"
    by (auto simp: sys_evolves_def system_api_def intro: api_step.intros)
  show "sys_evolves s (snd (api_scheduleEvent system_api e s))"
    by (auto simp: sys_evolves_def system_api_def intro: api_step.intros)
  show "sys_evolves s (snd (api_proposeObservation system_api p s))"
    by (auto simp: sys_evolves_def system_api_def intro: api_step.intros)
  show "sys_evolves s t \<Longrightarrow> api_currentEpoch system_api t = api_currentEpoch system_api s"
    by (simp add: system_api_def evolves_simps)
qed

section \<open>The scheduler invariant\<close>

text \<open>
  Everything scheduled lies at or after the current epoch and below the delta limit, the event
  queue is in order, and event sequence numbers are unique.
\<close>

definition due :: "epoch \<Rightarrow> epoch \<Rightarrow> bool" where
  "due now e \<longleftrightarrow> now \<le> e \<and> ep_delta e < kMaxDeltasPerTick"

definition queued_events :: "sim_system \<Rightarrow> event list" where
  "queued_events s = eq_committed (sy_eventQueue s) @ eq_pushProposals (sy_eventQueue s)"

definition sched_inv :: "sim_system \<Rightarrow> bool" where
  "sched_inv s \<longleftrightarrow> ep_delta (sy_epoch s) < kMaxDeltasPerTick \<and>
     ordered (sy_scheduledWork s) \<and>
     (\<forall>(e, ids) \<in> set (sy_scheduledWork s). due (sy_epoch s) e \<and> ids \<noteq> [] \<and> increasing ids) \<and>
     eq_inv (sy_eventQueue s) \<and>
     (\<forall>ev \<in> set (queued_events s). due (sy_epoch s) (ev_readyTime ev) \<and>
        ev_sequence ev < sy_nextEventSequence s) \<and>
     distinct (map ev_sequence (queued_events s))"

text \<open>All scheduled work, respectively all committed events, lie strictly in the future.\<close>

definition work_after :: "sim_system \<Rightarrow> bool" where
  "work_after s \<longleftrightarrow> (\<forall>(e, ids) \<in> set (sy_scheduledWork s). sy_epoch s < e)"

definition events_after :: "sim_system \<Rightarrow> bool" where
  "events_after s \<longleftrightarrow> (\<forall>ev \<in> set (eq_committed (sy_eventQueue s)). sy_epoch s < ev_readyTime ev)"

text \<open>The fields the invariant reads.\<close>

definition sched_core where
  "sched_core s = (sy_epoch s, sy_scheduledWork s, sy_eventQueue s, sy_nextEventSequence s)"

lemma sched_core_cong:
  assumes "sched_core t = sched_core s"
  shows "sched_inv t = sched_inv s" "work_after t = work_after s" "events_after t = events_after s"
    "sy_epoch t = sy_epoch s"
  using assms by (simp_all add: sched_core_def sched_inv_def work_after_def events_after_def queued_events_def)

lemma sched_core_fail [simp]: "sched_core (snd (sys_fail c m s)) = sched_core s"
  by (simp add: sched_core_def sys_fail_def)

lemma sched_core_stop [simp]: "sched_core (stop_incomplete c m s) = sched_core s"
  by (simp add: sched_core_def stop_incomplete_def)

lemma sched_core_flags [simp]:
  "sched_core (s\<lparr>sy_executingEpoch := b\<rparr>) = sched_core s"
  "sched_core (s\<lparr>sy_activeProposalOwner := a\<rparr>) = sched_core s"
  "sched_core (s\<lparr>sy_commitParticipants := c\<rparr>) = sched_core s"
  "sched_core (s\<lparr>sy_observations := r\<rparr>) = sched_core s"
  "sched_core (s\<lparr>sy_lastProgressTick := t\<rparr>) = sched_core s"
  "sched_core (s\<lparr>sy_lastCommitTick := m\<rparr>) = sched_core s"
  "sched_core (s\<lparr>sy_committedEventCount := n\<rparr>) = sched_core s"
  "sched_core (s\<lparr>sy_domainCycles := d\<rparr>) = sched_core s"
  "sched_core (s\<lparr>sy_noProgress := p\<rparr>) = sched_core s"
  "sched_core (s\<lparr>sy_traceOwnerCount := k\<rparr>) = sched_core s"
  "sched_core (s\<lparr>sy_traceEof := b\<rparr>) = sched_core s"
  "sched_core (s\<lparr>sy_result := x\<rparr>) = sched_core s"
  "sched_core (s\<lparr>sy_preflightValidated := b\<rparr>) = sched_core s"
  "sched_core (s\<lparr>sy_eventQueueLastCommitTick := y\<rparr>) = sched_core s"
  by (simp_all add: sched_core_def)

lemma nextDelta_due:
  assumes "ep_delta e + 1 < kMaxDeltasPerTick" "ep_delta e < kMaxDeltasPerTick"
  shows "e < nextDelta e" "ep_delta (nextDelta e) < kMaxDeltasPerTick"
proof -
  have "ep_delta e \<noteq> - 1"
    using assms(2) by (auto simp: kMaxDeltasPerTick_def)
  then show "e < nextDelta e"
    by (cases e) (simp add: nextDelta_def epoch_order word_less_inc)
  show "ep_delta (nextDelta e) < kMaxDeltasPerTick"
    using assms(1) by (simp add: nextDelta_def)
qed

section \<open>Scheduling calls\<close>

lemma sys_fail_terminated [simp]:
  "sy_terminated (snd (sys_fail c m s))" "\<not> fst (sys_fail c m s)"
  by (simp_all add: sys_fail_def)

lemma stop_incomplete_terminated [simp]: "sy_terminated (stop_incomplete c m s)"
  by (simp add: stop_incomplete_def)

lemma scheduleWork_cases:
  obtains (refused) "\<not> fst (scheduleWork i e s)" "sched_core (snd (scheduleWork i e s)) = sched_core s"
      "sy_terminated (snd (scheduleWork i e s))"
  | (accepted) e' ids where "fst (scheduleWork i e s)" "\<not> sy_terminated s"
      "snd (scheduleWork i e s) = s\<lparr>sy_scheduledWork := map_put e' (set_insert i ids) (sy_scheduledWork s)\<rparr>"
      "ids = (case map_of (sy_scheduledWork s) e' of None \<Rightarrow> [] | Some ids \<Rightarrow> ids)"
      "sy_epoch s \<le> e" "ep_delta e < kMaxDeltasPerTick" "sys_lookup i s \<noteq> None"
      "e' = (if sy_executingEpoch s \<and> e = sy_epoch s then nextDelta e else e)"
      "sy_executingEpoch s \<Longrightarrow> e = sy_epoch s \<Longrightarrow> ep_delta e + 1 < kMaxDeltasPerTick"
proof (cases "fst (scheduleWork i e s)")
  case False
  then have "sched_core (snd (scheduleWork i e s)) = sched_core s" "sy_terminated (snd (scheduleWork i e s))"
    by (auto simp: scheduleWork_def Let_def split: if_splits)
  with False show thesis by (intro refused)
next
  case True
  have g: "\<not> sy_terminated s" "\<not> ep_delta e \<ge> kMaxDeltasPerTick" "\<not> e < sy_epoch s"
    "sys_lookup i s \<noteq> None"
    "\<not> (sy_executingEpoch s \<and> e = sy_epoch s \<and> ep_delta (sy_epoch s) + 1 \<ge> kMaxDeltasPerTick)"
    using True by (auto simp: scheduleWork_def split: if_splits)
  define e' where "e' = (if sy_executingEpoch s \<and> e = sy_epoch s then nextDelta e else e)"
  have e': "(if sy_executingEpoch s \<and> e = sy_epoch s then nextDelta (sy_epoch s) else e) = e'"
    by (simp add: e'_def)
  have "snd (scheduleWork i e s) = s\<lparr>sy_scheduledWork := map_put e' (set_insert i
      (case map_of (sy_scheduledWork s) e' of None \<Rightarrow> [] | Some ids \<Rightarrow> ids)) (sy_scheduledWork s)\<rparr>"
    unfolding scheduleWork_def Let_def e' by (simp only: g if_False snd_conv)
  then show thesis
    by (rule accepted [OF True g(1) _ refl _ _ g(4) e'_def]) (use g in auto)
qed

lemma shifted_epoch:
  assumes "sched_inv s" "sy_epoch s \<le> e" "ep_delta e < kMaxDeltasPerTick"
    and "e' = (if sy_executingEpoch s \<and> e = sy_epoch s then nextDelta e else e)"
    and "sy_executingEpoch s \<Longrightarrow> e = sy_epoch s \<Longrightarrow> ep_delta e + 1 < kMaxDeltasPerTick"
  shows "due (sy_epoch s) e'" and "sy_executingEpoch s \<or> sy_epoch s < e \<Longrightarrow> sy_epoch s < e'"
proof -
  have "sy_epoch s < e' \<and> ep_delta e' < kMaxDeltasPerTick" if "sy_executingEpoch s" "e = sy_epoch s"
    using assms(3-5) that nextDelta_due [of e] by simp
  moreover have "e' = e" if "\<not> (sy_executingEpoch s \<and> e = sy_epoch s)"
    using assms(4) that by simp
  ultimately show "due (sy_epoch s) e'" and "sy_executingEpoch s \<or> sy_epoch s < e \<Longrightarrow> sy_epoch s < e'"
    using assms(2,3) unfolding due_def by (metis less_le)+
qed

lemma map_put_entries:
  "\<forall>x \<in> set m. P x \<Longrightarrow> P (k, v) \<Longrightarrow> \<forall>x \<in> set (map_put k v m). P x"
  using set_map_put_subset [of k v m] by blast

lemma scheduled_ids:
  assumes "sched_inv s"
  shows "increasing (case map_of (sy_scheduledWork s) e of None \<Rightarrow> [] | Some ids \<Rightarrow> ids)"
  using assms unfolding sched_inv_def by (auto split: option.split dest!: map_of_SomeD)

lemma sched_inv_scheduleWork:
  assumes "sched_inv s"
  shows "sched_inv (snd (scheduleWork i e s))"
proof (cases rule: scheduleWork_cases [of i e s])
  case refused
  from sched_core_cong(1) [OF refused(2)] assms show ?thesis by simp
next
  case (accepted e' ids)
  have "due (sy_epoch s) e'"
    by (rule shifted_epoch(1) [OF assms accepted(5,6,8,9)])
  moreover have "increasing ids"
    unfolding accepted(4) by (rule scheduled_ids [OF assms])
  ultimately show ?thesis
    using assms map_put_entries [of "sy_scheduledWork s"
        "\<lambda>(e, ids). due (sy_epoch s) e \<and> ids \<noteq> [] \<and> increasing ids" e' "set_insert i ids"]
    unfolding accepted(3) sched_inv_def queued_events_def by simp
qed

lemma work_after_scheduleWork:
  assumes "sched_inv s" "work_after s" "sy_executingEpoch s \<or> sy_epoch s < e"
  shows "work_after (snd (scheduleWork i e s))"
proof (cases rule: scheduleWork_cases [of i e s])
  case refused
  from sched_core_cong(2) [OF refused(2)] assms show ?thesis by simp
next
  case (accepted e' ids)
  have "sy_epoch s < e'"
    by (rule shifted_epoch(2) [OF assms(1) accepted(5,6,8,9) assms(3)])
  then show ?thesis
    using assms(2) map_put_entries [of "sy_scheduledWork s" "\<lambda>(e, ids). sy_epoch s < e" e' "set_insert i ids"]
    unfolding accepted(3) work_after_def by simp
qed

lemma scheduleWork_frame:
  "sy_epoch (snd (scheduleWork i e s)) = sy_epoch s"
  "fst (scheduleWork i e s) \<Longrightarrow> sy_executingEpoch (snd (scheduleWork i e s)) = sy_executingEpoch s"
  "fst (scheduleWork i e s) \<Longrightarrow> \<not> sy_terminated (snd (scheduleWork i e s))"
  "\<not> fst (scheduleWork i e s) \<Longrightarrow> sy_terminated (snd (scheduleWork i e s))"
  "events_after (snd (scheduleWork i e s)) = events_after s"
  by (auto simp: scheduleWork_def Let_def sys_fail_def events_after_def split: if_splits)

lemma sched_inv_scheduleEvent:
  assumes "sched_inv s"
  shows "sched_inv (snd (scheduleEvent ev s))"
proof -
  have bump: "sched_inv (s\<lparr>sy_nextEventSequence := sy_nextEventSequence s + 1\<rparr>)"
    if "sy_nextEventSequence s \<noteq> - 1"
    using assms that unfolding sched_inv_def queued_events_def by (auto intro: word_less_Suc)
  show ?thesis
  proof (cases "fst (scheduleEvent ev s)")
    case False
    then have "sched_core (snd (scheduleEvent ev s)) = sched_core s \<or>
        (sy_nextEventSequence s \<noteq> - 1 \<and> sched_core (snd (scheduleEvent ev s)) =
          sched_core (s\<lparr>sy_nextEventSequence := sy_nextEventSequence s + 1\<rparr>))"
      unfolding scheduleEvent_def Let_def eq_proposeSchedule_def by (simp split: if_splits)
    then show ?thesis
    proof
      assume "sched_core (snd (scheduleEvent ev s)) = sched_core s"
      from sched_core_cong(1) [OF this] assms show ?thesis by simp
    next
      assume "sy_nextEventSequence s \<noteq> - 1 \<and> sched_core (snd (scheduleEvent ev s)) =
          sched_core (s\<lparr>sy_nextEventSequence := sy_nextEventSequence s + 1\<rparr>)"
      then show ?thesis using sched_core_cong(1) bump by blast
    qed
  next
    case True
    let ?e = "ev\<lparr>ev_sequence := sy_nextEventSequence s\<rparr>"
    let ?q = "(sy_eventQueue s)\<lparr>eq_pushProposals := ms_insert event_key ?e (eq_pushProposals (sy_eventQueue s))\<rparr>"
    have g: "\<not> sy_terminated s" "\<not> ep_delta (ev_readyTime ev) \<ge> kMaxDeltasPerTick"
      "\<not> ev_readyTime ev < sy_epoch s" "sys_lookup (ev_targetId ev) s \<noteq> None" "sy_nextEventSequence s \<noteq> - 1"
      "\<not> length (eq_committed (sy_eventQueue s)) + length (eq_pushProposals (sy_eventQueue s)) \<ge>
         eq_capacity (sy_eventQueue s)"
      using True by (auto simp: scheduleEvent_def Let_def eq_proposeSchedule_def split: if_splits)
    have ok: "due (sy_epoch s) (ev_readyTime ev)" "sy_nextEventSequence s \<noteq> - 1"
      "snd (eq_proposeSchedule ?e (sy_eventQueue s)) = ?q"
      "snd (scheduleEvent ev s) = s\<lparr>sy_nextEventSequence := sy_nextEventSequence s + 1, sy_eventQueue := ?q\<rparr>"
      using g by (auto simp: scheduleEvent_def Let_def eq_proposeSchedule_def due_def)
    have "eq_inv ?q"
      using eq_inv_schedule [of "sy_eventQueue s" ?e] assms ok(3) by (simp add: sched_inv_def)
    moreover have "mset (map ev_sequence (eq_committed ?q @ eq_pushProposals ?q)) =
        mset (map ev_sequence (?e # queued_events s))"
      by (simp add: queued_events_def)
    then have "distinct (map ev_sequence (eq_committed ?q @ eq_pushProposals ?q)) =
        distinct (map ev_sequence (?e # queued_events s))"
      by (rule mset_eq_imp_distinct_iff)
    then have "distinct (map ev_sequence (eq_committed ?q @ eq_pushProposals ?q))"
      using assms by (auto simp: sched_inv_def)
    moreover have "\<forall>x \<in> set (eq_committed ?q @ eq_pushProposals ?q). due (sy_epoch s) (ev_readyTime x) \<and>
        ev_sequence x < sy_nextEventSequence s + 1"
      using bump [OF ok(2)] ok(1,2) by (auto simp: sched_inv_def queued_events_def word_less_inc)
    ultimately show ?thesis
      using assms unfolding ok(4) sched_inv_def queued_events_def by simp
  qed
qed

lemma sched_inv_api: "api_step s t \<Longrightarrow> sched_inv s \<Longrightarrow> sched_inv t"
proof (induction rule: api_step.induct)
  case (api_register s i)
  have "sched_core (snd (registerCommitParticipant i s)) = sched_core s"
    by (simp add: registerCommitParticipant_def)
  from sched_core_cong(1) [OF this] api_register show ?case by simp
next
  case (api_event s e)
  then show ?case by (rule sched_inv_scheduleEvent)
next
  case (api_observe s p)
  have "sched_core (snd (proposeObservation p s)) = sched_core s"
    by (simp add: proposeObservation_def Let_def split: option.split prod.split)
  from sched_core_cong(1) [OF this] api_observe show ?case by simp
qed

lemma sched_inv_evolves: "sys_evolves s t \<Longrightarrow> sched_inv s \<Longrightarrow> sched_inv t"
  unfolding sys_evolves_def by (induction rule: rtranclp_induct) (auto dest: sched_inv_api)

lemma evolves_after:
  assumes "sys_evolves s t"
  shows "work_after t = work_after s" "events_after t = events_after s"
  using evolves_simps [OF assms] by (simp_all add: work_after_def events_after_def)

section \<open>Outcomes of the phases\<close>

text \<open>
  A phase that continues stays at its epoch, keeps the invariant and does not terminate the
  system; a phase that stops the step has terminated the system.
\<close>

definition steady :: "sim_system \<Rightarrow> sim_system \<Rightarrow> bool" where
  "steady s t \<longleftrightarrow> sy_epoch t = sy_epoch s \<and> sy_maxTicks t = sy_maxTicks s \<and> sched_inv t \<and>
     \<not> sy_terminated t \<and> sy_executingEpoch t = sy_executingEpoch s"

definition outcome :: "sim_system \<Rightarrow> bool \<times> 'h world \<Rightarrow> bool" where
  "outcome s r \<longleftrightarrow> (if fst r then steady s (fst (snd r)) else sy_terminated (fst (snd r)))"

lemma steady_refl: "sched_inv s \<Longrightarrow> \<not> sy_terminated s \<Longrightarrow> steady s s"
  by (simp add: steady_def)

lemma steady_trans: "steady s t \<Longrightarrow> steady t u \<Longrightarrow> steady s u"
  by (simp add: steady_def)

lemma outcome_and_then:
  assumes "outcome s r" and "\<And>w. r = (True, w) \<Longrightarrow> steady s (fst w) \<Longrightarrow> outcome (fst w) (f w)"
  shows "outcome s (and_then r f)"
proof (cases "fst r")
  case True
  obtain w where r: "r = (True, w)" using True by (metis prod.collapse)
  with assms(1) have st: "steady s (fst w)" by (simp add: outcome_def)
  with assms(2) [OF r st] show ?thesis by (auto simp: r outcome_def intro: steady_trans)
qed (use assms(1) in \<open>simp add: and_then_def\<close>)

lemma steady_core:
  assumes "steady s t" "sched_core u = sched_core t" "sy_maxTicks u = sy_maxTicks t"
    "sy_terminated u = sy_terminated t" "sy_executingEpoch u = sy_executingEpoch t"
  shows "steady s u"
  using assms sched_core_cong(1,4) [OF assms(2)] by (simp add: steady_def)

subsection \<open>Inspection changes nothing that is scheduled\<close>

definition run_flags where
  "run_flags s = (sched_core s, sy_maxTicks s, sy_terminated s, sy_executingEpoch s,
     sy_deadlockWindow s, sy_lastProgressTick s, sy_maxEvents s, sy_committedEventCount s)"

lemma steady_flags: "steady s t \<Longrightarrow> run_flags u = run_flags t \<Longrightarrow> steady s u"
  by (rule steady_core [of s t]) (simp_all add: run_flags_def)

lemma summarize_flags: "run_flags (summarize_object ops h p s) = run_flags s"
  by (simp add: summarize_object_def run_flags_def Let_def)

lemma refresh_flags: "run_flags (fst (refreshRuntimeSummary ops w)) = run_flags (fst w)"
proof -
  have "run_flags (fold (summarize_object ops h) ps s) = run_flags s" for ps h s
    by (induction ps arbitrary: s) (simp_all add: summarize_flags)
  then show ?thesis
    by (simp add: refreshRuntimeSummary_def Let_def case_prod_beta run_flags_def)
qed

lemma refresh_store [simp]: "snd (refreshRuntimeSummary ops w) = snd w"
  by (simp add: refreshRuntimeSummary_def Let_def case_prod_beta)

lemma validateRuntimeIdentities_outcome:
  "sched_inv (fst w) \<Longrightarrow> \<not> sy_terminated (fst w) \<Longrightarrow> outcome (fst w) (validateRuntimeIdentities ops w)"
  by (auto simp: validateRuntimeIdentities_def outcome_def Let_def case_prod_beta
      intro: steady_core [OF steady_refl])

lemma stopAtTraceCap_cases:
  assumes "sched_inv (fst w)" "\<not> sy_terminated (fst w)"
  shows "if fst (stopAtTraceCap ops w) then sy_terminated (fst (snd (stopAtTraceCap ops w)))
         else run_flags (fst (snd (stopAtTraceCap ops w))) = run_flags (fst w) \<and>
           snd (stopAtTraceCap ops w) = refreshRuntimeSummary ops w"
  using refresh_flags [of ops w] assms
  by (auto simp: stopAtTraceCap_def Let_def case_prod_beta prod_eq_iff)

lemma domain_loop_steady:
  "steady s t \<Longrightarrow> if fst (domain_loop ds t) then steady s (snd (domain_loop ds t))
     else sy_terminated (snd (domain_loop ds t))"
proof (induction ds arbitrary: t)
  case (Cons x ds)
  obtain nm d where x: "x = (nm, d)" by fastforce
  have c: "steady s (t\<lparr>sy_domainCycles := m\<rparr>)" for m
    by (rule steady_core [OF Cons.prems]) simp_all
  show ?case
    using Cons.IH [OF Cons.prems] Cons.IH [OF c]
    by (simp add: x Let_def split: option.split)
qed simp

lemma stopAtEventCap_steady:
  "steady s t \<Longrightarrow> if fst (stopAtEventCap t) then sy_terminated (snd (stopAtEventCap t))
     else snd (stopAtEventCap t) = t"
  by (simp add: stopAtEventCap_def)

lemma step_limits_steady:
  assumes "steady s t"
  shows "if fst (step_limits t) then steady s (snd (step_limits t)) else sy_terminated (snd (step_limits t))"
proof -
  let ?r = "if ep_delta (sy_epoch t) = 0 then domain_loop (sy_timeDomains t) t else (True, t)"
  obtain ok u where r: "?r = (ok, u)" by fastforce
  have "if ok then steady s u else sy_terminated u"
    using domain_loop_steady [OF assms, of "sy_timeDomains t"] r assms by (auto split: if_splits)
  with stopAtEventCap_steady [of s u] show ?thesis
    unfolding step_limits_def r by (cases ok) (auto simp: case_prod_beta)
qed

lemma step_preflight_outcome:
  assumes "sched_inv (fst w)"
  shows "outcome (fst w) (step_preflight ops w)"
proof (cases "sy_terminated (fst w)")
  case True
  then show ?thesis by (simp add: step_preflight_def outcome_def)
next
  case live: False
  let ?v = "if sy_preflightValidated (fst w) then (True, w) else validateRuntimeIdentities ops w"
  let ?f = "\<lambda>w1. case stopAtTraceCap ops w1 of (stopped, s, h) \<Rightarrow>
            if stopped then (False, s, h) else (case step_limits s of (ok, s1) \<Rightarrow> (ok, s1, h))"
  have v: "outcome (fst w) ?v"
    using validateRuntimeIdentities_outcome [OF assms live] steady_refl [OF assms live]
    by (simp add: outcome_def)
  have "outcome (fst w1) (?f w1)" if "steady (fst w) (fst w1)" for w1
  proof -
    have inv: "sched_inv (fst w1)" "\<not> sy_terminated (fst w1)"
      using that by (simp_all add: steady_def)
    obtain stop s h where cap: "stopAtTraceCap ops w1 = (stop, s, h)" by (metis prod_cases3)
    have "stop \<Longrightarrow> sy_terminated s" and "\<not> stop \<Longrightarrow> steady (fst w1) s"
      using stopAtTraceCap_cases [OF inv, of ops] cap steady_flags [OF steady_refl [OF inv]] by auto
    with step_limits_steady [of "fst w1" s] show ?thesis
      unfolding cap by (cases stop) (simp_all add: outcome_def case_prod_beta)
  qed
  with outcome_and_then [OF v, of ?f] live show ?thesis
    by (simp add: step_preflight_def)
qed

subsection \<open>Activation and delivery\<close>

text \<open>Scheduling work for epoch \<open>e\<close> keeps future work in the future.\<close>

definition forward :: "epoch \<Rightarrow> sim_system \<Rightarrow> sim_system \<Rightarrow> bool" where
  "forward e s t \<longleftrightarrow> steady s t \<and> sy_eventQueue t = sy_eventQueue s \<and>
     sy_activation t = sy_activation s \<and>
     ((sy_executingEpoch s \<or> sy_epoch s < e) \<and> work_after s \<longrightarrow> work_after t)"

lemma forward_refl: "sched_inv s \<Longrightarrow> \<not> sy_terminated s \<Longrightarrow> forward e s s"
  by (simp add: forward_def steady_refl)

lemma forward_trans: "forward e s t \<Longrightarrow> forward e t u \<Longrightarrow> forward e s u"
  by (auto simp: forward_def steady_def)

lemma scheduleWork_forward:
  assumes "sched_inv s" "fst (scheduleWork i e s)"
  shows "forward e s (snd (scheduleWork i e s))"
proof -
  have "sy_maxTicks (snd (scheduleWork i e s)) = sy_maxTicks s"
    "sy_activation (snd (scheduleWork i e s)) = sy_activation s"
    by (simp_all add: scheduleWork_def sys_fail_def Let_def)
  with assms show ?thesis
    by (simp add: forward_def steady_def sched_inv_scheduleWork scheduleWork_frame work_after_scheduleWork)
qed

lemma schedule_all_forward:
  assumes "sched_inv s" "\<not> sy_terminated s"
  shows "if fst (schedule_all e ids s) then forward e s (snd (schedule_all e ids s))
         else sy_terminated (snd (schedule_all e ids s))"
  using assms
proof (induction ids arbitrary: s)
  case (Cons i ids)
  obtain ok s1 where r: "scheduleWork i e s = (ok, s1)" by fastforce
  show ?case
  proof (cases ok)
    case True
    then have f: "forward e s s1"
      using scheduleWork_forward [OF Cons.prems(1), of i e] r by simp
    then have "sched_inv s1" "\<not> sy_terminated s1" by (simp_all add: forward_def steady_def)
    from Cons.IH [OF this] forward_trans [OF f] show ?thesis by (auto simp: r True split: if_splits)
  next
    case False
    with scheduleWork_frame(4) [of i e s] show ?thesis by (simp add: r)
  qed
qed (simp add: forward_refl)

lemma activate_loop_forward:
  assumes "sched_inv (fst w)" "\<not> sy_terminated (fst w)"
  shows "if fst (activate_loop ops source e targets w)
         then forward e (fst w) (fst (snd (activate_loop ops source e targets w)))
         else sy_terminated (fst (snd (activate_loop ops source e targets w)))"
  using assms
proof (induction targets arbitrary: w)
  case (Cons i targets)
  obtain s h where w: "w = (s, h)" by fastforce
  obtain skip h1 where sk: "(case sys_lookup i s of None \<Rightarrow> (False, h)
      | Some p \<Rightarrow> (case ob_activateFrom ops p source h of (ok, h') \<Rightarrow> (\<not> ok, h'))) = (skip, h1)"
    by fastforce
  obtain ok s1 where r: "scheduleWork i e s = (ok, s1)" by fastforce
  show ?case
  proof (cases "skip \<or> \<not> ok")
    case True
    then show ?thesis
      using Cons.IH [of "(s, h1)"] Cons.prems scheduleWork_frame(4) [of i e s]
      by (cases skip) (auto simp: w sk r Let_def split: if_splits)
  next
    case False
    then have f: "forward e s s1"
      using scheduleWork_forward [of s i e] Cons.prems r by (simp add: w)
    then have "sched_inv s1" "\<not> sy_terminated s1" by (simp_all add: forward_def steady_def)
    with Cons.IH [of "(s1, h1)"] forward_trans [OF f] False show ?thesis
      by (auto simp: w sk r Let_def split: if_splits)
  qed
qed (simp add: forward_refl)

lemma activate_sources_forward:
  assumes "sched_inv (fst w)" "\<not> sy_terminated (fst w)"
  shows "if fst (activate_sources ops e sources w)
         then forward e (fst w) (fst (snd (activate_sources ops e sources w)))
         else sy_terminated (fst (snd (activate_sources ops e sources w)))"
  using assms
proof (induction sources arbitrary: w)
  case (Cons i sources)
  obtain ok w1 where r: "activate_loop ops i e (targetsFor (sy_activation (fst w)) i) w = (ok, w1)"
    by (metis surj_pair)
  from activate_loop_forward [OF Cons.prems, of ops i e "targetsFor (sy_activation (fst w)) i"]
  have f: "if ok then forward e (fst w) (fst w1) else sy_terminated (fst w1)"
    by (cases ok) (simp_all add: r)
  then show ?case
  proof (cases ok)
    case True
    with f have "forward e (fst w) (fst w1)" by simp
    moreover from this have "sched_inv (fst w1)" "\<not> sy_terminated (fst w1)"
      by (simp_all add: forward_def steady_def)
    ultimately show ?thesis
      using Cons.IH [of w1] forward_trans True by (auto simp: r split: if_splits)
  qed (simp add: r)
qed (simp add: forward_refl)

lemma deliverReadyEvent_forward:
  assumes "sched_inv (fst w)" "\<not> sy_terminated (fst w)"
  shows "if fst (deliverReadyEvent ops ev w)
         then forward (sy_epoch (fst w)) (fst w) (fst (snd (deliverReadyEvent ops ev w)))
         else sy_terminated (fst (snd (deliverReadyEvent ops ev w)))"
proof -
  obtain s h where w: "w = (s, h)" by fastforce
  show ?thesis
  proof (cases "sys_lookup (ev_targetId ev) s")
    case (Some p)
    obtain ok h1 where d: "ob_deliverEvent ops p (ev_eventKind ev) (ev_payload ev) (ev_readyTime ev) h = (ok, h1)"
      by fastforce
    show ?thesis
      using activate_loop_forward [of "(s, h1)" ops "ev_targetId ev" "sy_epoch s"
          "targetsFor (sy_activation s) (ev_targetId ev)"] assms
        scheduleWork_forward [of s "ev_targetId ev" "sy_epoch s"] scheduleWork_frame(4) [of "ev_targetId ev" "sy_epoch s" s]
      by (cases ok) (auto simp: deliverReadyEvent_def w Some d case_prod_beta split: if_splits)
  qed (simp add: deliverReadyEvent_def w)
qed

lemma sched_inv_pop:
  assumes "sched_inv s"
  shows "sched_inv (s\<lparr>sy_eventQueue := snd (eq_popNext (sy_eventQueue s))\<rparr>)"
  using assms eq_inv_pop [of "sy_eventQueue s"]
  by (auto simp: sched_inv_def queued_events_def eq_popNext_def split: list.splits)

text \<open>
  The delivery loop stays at its epoch, and when it continues no event that is ready now is left.
\<close>

definition delivered :: "sim_system \<Rightarrow> bool \<times> 'h world \<Rightarrow> bool" where
  "delivered s r \<longleftrightarrow> outcome s r \<and>
     (fst r \<longrightarrow> events_after (fst (snd r)) \<and>
        (sy_executingEpoch s \<and> work_after s \<longrightarrow> work_after (fst (snd r))))"

lemma delivered_steady:
  assumes "steady s t" "sy_executingEpoch s \<and> work_after s \<longrightarrow> work_after t" "delivered t r"
  shows "delivered s r"
  using assms steady_trans [OF assms(1)]
  by (auto simp: delivered_def outcome_def steady_def split: if_splits)

lemma deliver_loop_delivered:
  assumes "sched_inv (fst w)" "\<not> sy_terminated (fst w)"
  shows "delivered (fst w) (deliver_loop ops w)"
  using assms
proof (induction "length (eq_committed (sy_eventQueue (fst w)))" arbitrary: w rule: less_induct)
  case less
  obtain s h where w: "w = (s, h)" by fastforce
  have inv: "sched_inv s" and live: "\<not> sy_terminated s"
    using less.prems by (simp_all add: w)
  show ?case
  proof (cases "eq_nextEvent (sy_eventQueue s)")
    case None
    then have "eq_committed (sy_eventQueue s) = []"
      by (simp add: eq_nextEvent_def split: list.splits)
    with None inv live show ?thesis
      by (simp add: w deliver_loop.simps delivered_def outcome_def steady_refl events_after_def)
  next
    case (Some ev)
    then obtain es where q: "eq_committed (sy_eventQueue s) = ev # es"
      by (auto simp: eq_nextEvent_def split: list.splits)
    consider (other) "ev_readyTime ev \<noteq> sy_epoch s"
      | (capped) "ev_readyTime ev = sy_epoch s" "fst (stopAtEventCap s)"
      | (ready) "ev_readyTime ev = sy_epoch s" "\<not> fst (stopAtEventCap s)" by blast
    then show ?thesis
    proof cases
      case other
      have "events_after s" if "sy_epoch s < ev_readyTime ev"
        using that eq_nextEvent_ready [of "sy_eventQueue s" ev] Some inv
        by (auto simp: events_after_def sched_inv_def intro: less_le_trans)
      with other Some inv live show ?thesis
        by (auto simp: w deliver_loop.simps delivered_def outcome_def steady_refl not_less_iff_gr_or_eq)
    next
      case capped
      then obtain s1 where cap: "stopAtEventCap s = (True, s1)" by (metis prod.collapse)
      with stopAtEventCap_steady [OF steady_refl [OF inv live]] have "sy_terminated s1" by simp
      then show ?thesis by (simp add: w deliver_loop.simps Some capped cap delivered_def outcome_def)
    next
      case ready
      then have cap: "stopAtEventCap s = (False, s)"
        by (auto simp: stopAtEventCap_def split: if_splits)
      let ?s = "s\<lparr>sy_eventQueue := snd (eq_popNext (sy_eventQueue s))\<rparr>"
      obtain ok s2 h2 where d: "deliverReadyEvent ops ev (?s, h) = (ok, s2, h2)" by (metis prod_cases3)
      let ?t = "s2\<lparr>sy_committedEventCount := sy_committedEventCount s2 + 1,
                   sy_lastProgressTick := ep_time (sy_epoch s2)\<rparr>"
      have run: "deliver_loop ops w = (if ok then deliver_loop ops (?t, h2) else (False, s2, h2))"
        unfolding w by (subst deliver_loop.simps) (simp add: Some ready cap d)
      have f: "if ok then forward (sy_epoch s) ?s s2 else sy_terminated s2"
        using deliverReadyEvent_forward [of "(?s, h)" ops ev] sched_inv_pop [OF inv] live d
        by (cases ok) simp_all
      show ?thesis
      proof (cases ok)
        case False
        with f show ?thesis unfolding run by (simp add: delivered_def outcome_def)
      next
        case True
        with f have st: "steady s s2" and wa: "sy_executingEpoch s \<and> work_after s \<longrightarrow> work_after s2"
          and q2: "sy_eventQueue s2 = snd (eq_popNext (sy_eventQueue s))"
          by (auto simp: forward_def steady_def work_after_def)
        have t: "steady s ?t"
          by (rule steady_core [OF st]) simp_all
        have "sched_inv ?t" "\<not> sy_terminated ?t"
          using t unfolding steady_def by blast+
        then have "delivered ?t (deliver_loop ops (?t, h2))"
          using less.hyps [of "(?t, h2)"] by (simp add: w q q2 eq_popNext_def)
        with t wa have "delivered s (deliver_loop ops (?t, h2))"
          by (intro delivered_steady [OF t]) (simp_all add: work_after_def)
        then show ?thesis unfolding run by (simp add: w True)
      qed
    qed
  qed
qed

subsection \<open>Executing an epoch\<close>

text \<open>The current epoch's work is taken out, so all remaining work lies in the future.\<close>

lemma take_current_work_inv:
  assumes "sched_inv s" "take_current_work s = (ids, t)"
  shows "sched_inv t" "work_after t" "increasing ids" "sy_epoch t = sy_epoch s"
    "sy_maxTicks t = sy_maxTicks s" "sy_terminated t = sy_terminated s"
proof -
  have "t = s\<lparr>sy_scheduledWork := map_del (sy_epoch s) (sy_scheduledWork s)\<rparr>"
  proof (cases "map_of (sy_scheduledWork s) (sy_epoch s)")
    case None
    then have "map_del (sy_epoch s) (sy_scheduledWork s) = sy_scheduledWork s"
      by (force simp: map_del_def map_of_eq_None_iff filter_id_conv)
    with None assms(2) show ?thesis by (simp add: take_current_work_def)
  qed (use assms(2) in \<open>simp add: take_current_work_def\<close>)
  with assms(1) show "sched_inv t" "work_after t" "sy_epoch t = sy_epoch s"
    "sy_maxTicks t = sy_maxTicks s" "sy_terminated t = sy_terminated s"
    by (auto simp: sched_inv_def work_after_def queued_events_def due_def)
  show "increasing ids"
    using scheduled_ids [OF assms(1), of "sy_epoch s"] assms(2)
    by (auto simp: take_current_work_def split: option.splits)
qed

text \<open>\<open>active s\<close>: a system in the middle of executing an epoch.\<close>

definition active :: "sim_system \<Rightarrow> bool" where
  "active s \<longleftrightarrow> sched_inv s \<and> work_after s \<and> sy_executingEpoch s \<and> \<not> sy_terminated s"

definition phase_outcome :: "sim_system \<Rightarrow> bool \<times> 'h world \<Rightarrow> bool" where
  "phase_outcome s r \<longleftrightarrow> (if fst r then active (fst (snd r)) \<and> sy_epoch (fst (snd r)) = sy_epoch s \<and>
       sy_maxTicks (fst (snd r)) = sy_maxTicks s
     else sy_terminated (fst (snd r)))"

lemma active_core:
  assumes "active s" "sched_core t = sched_core s" "sy_executingEpoch t" "\<not> sy_terminated t"
  shows "active t"
  using assms sched_core_cong(1,2) [OF assms(2)] by (simp add: active_def)

lemma validate_loop_outcome:
  "active (fst w) \<Longrightarrow> phase_outcome (fst w) (validate_loop ops ids w)"
proof (induction ids arbitrary: w)
  case (Cons i ids)
  obtain s h where w: "w = (s, h)" by fastforce
  from Cons show ?case by (simp add: w phase_outcome_def split: option.split)
qed (simp add: phase_outcome_def)

lemma active_evolves:
  assumes "active s" "sys_evolves s t"
  shows "sy_epoch t = sy_epoch s" "sy_maxTicks t = sy_maxTicks s" "\<not> sy_terminated t \<Longrightarrow> active t"
  using assms evolves_simps [OF assms(2)] evolves_executing [OF assms(2)]
    sched_inv_evolves [OF assms(2)] evolves_after [OF assms(2)]
  by (simp_all add: active_def)

lemma active_commit_events: "active s \<Longrightarrow> active (commit_events s) \<and> sy_epoch (commit_events s) = sy_epoch s \<and>
    sy_maxTicks (commit_events s) = sy_maxTicks s"
proof -
  assume act: "active s"
  let ?q = "eq_doXfer (sy_eventQueue s)"
  have fields: "sy_eventQueue (commit_events s) = ?q" "sy_epoch (commit_events s) = sy_epoch s"
    "sy_scheduledWork (commit_events s) = sy_scheduledWork s" "sy_maxTicks (commit_events s) = sy_maxTicks s"
    "sy_nextEventSequence (commit_events s) = sy_nextEventSequence s"
    "sy_executingEpoch (commit_events s) = sy_executingEpoch s"
    "sy_terminated (commit_events s) = sy_terminated s"
    by (simp_all add: commit_events_def Let_def)
  have m: "mset (eq_committed ?q @ eq_pushProposals ?q) = mset (queued_events s)"
    by (simp add: eq_doXfer_def mset_fold_ms_insert queued_events_def)
  then have "mset (map ev_sequence (eq_committed ?q @ eq_pushProposals ?q)) = mset (map ev_sequence (queued_events s))"
    by (metis mset_map)
  then have d: "distinct (map ev_sequence (eq_committed ?q @ eq_pushProposals ?q)) =
      distinct (map ev_sequence (queued_events s))"
    by (rule mset_eq_imp_distinct_iff)
  have "set (eq_committed ?q @ eq_pushProposals ?q) = set (queued_events s)"
    using m by (rule mset_eq_setD)
  with act d eq_inv_xfer [of "sy_eventQueue s"] show ?thesis
    unfolding active_def sched_inv_def work_after_def queued_events_def [of "commit_events s"] fields
    by simp
qed

subsection \<open>Ending an epoch\<close>

definition settled :: "sim_system \<Rightarrow> bool" where
  "settled s \<longleftrightarrow> eq_pushProposals (sy_eventQueue s) = []"

lemma settled_commit_events: "settled (commit_events s)"
  by (simp add: settled_def commit_events_def eq_doXfer_def Let_def)

lemma deliver_loop_settled:
  "eq_pushProposals (sy_eventQueue (fst (snd (deliver_loop ops w)))) =
     eq_pushProposals (sy_eventQueue (fst w))"
proof (induction "length (eq_committed (sy_eventQueue (fst w)))" arbitrary: w rule: less_induct)
  case less
  obtain s h where w: "w = (s, h)" by fastforce
  show ?case
  proof (cases "eq_nextEvent (sy_eventQueue s)")
    case None
    then show ?thesis by (simp add: w deliver_loop.simps)
  next
    case (Some ev)
    then obtain es where q: "eq_committed (sy_eventQueue s) = ev # es"
      by (auto simp: eq_nextEvent_def split: list.splits)
    obtain stop s1 where cap: "stopAtEventCap s = (stop, s1)" by fastforce
    have q1: "sy_eventQueue s1 = sy_eventQueue s" "\<not> stop \<Longrightarrow> s1 = s"
      using cap by (auto simp: stopAtEventCap_def stop_incomplete_def split: if_splits)
    let ?s = "s\<lparr>sy_eventQueue := snd (eq_popNext (sy_eventQueue s))\<rparr>"
    obtain ok s2 h2 where d: "deliverReadyEvent ops ev (?s, h) = (ok, s2, h2)" by (metis prod_cases3)
    with deliverReadyEvent_eventQueue [of ops ev "(?s, h)"]
    have q2: "sy_eventQueue s2 = snd (eq_popNext (sy_eventQueue s))" by simp
    let ?t = "s2\<lparr>sy_committedEventCount := sy_committedEventCount s2 + 1,
                 sy_lastProgressTick := ep_time (sy_epoch s2)\<rparr>"
    have "eq_pushProposals (sy_eventQueue (fst (snd (deliver_loop ops (?t, h2))))) =
        eq_pushProposals (sy_eventQueue ?t)"
      using less.hyps [of "(?t, h2)"] by (simp add: w q q2 eq_popNext_def)
    moreover have "sy_eventQueue (snd (sys_fail c m s)) = sy_eventQueue s" for c m
      by (simp add: sys_fail_def)
    ultimately show ?thesis
      unfolding w using q1 q2 d
      by (subst deliver_loop.simps) (cases stop; cases ok; simp add: Some cap q eq_popNext_def)
  qed
qed

lemma step_trace_end_outcome:
  assumes "active (fst w)" "settled (fst w)"
  shows "phase_outcome (fst w) (fst (step_trace_end ops w), snd (snd (step_trace_end ops w)))"
    and "fst (step_trace_end ops w) \<Longrightarrow> settled (fst (snd (snd (step_trace_end ops w))))"
proof -
  obtain s h where r: "refreshRuntimeSummary ops w = (s, h)" by fastforce
  with refresh_flags [of ops w] have fl: "run_flags s = run_flags (fst w)" by simp
  then have core: "sched_core s = sched_core (fst w)" and "sy_maxTicks s = sy_maxTicks (fst w)"
    and "active s" and "settled s"
    using assms active_core [of "fst w" s]
    by (simp_all add: run_flags_def active_def settled_def sched_core_def)
  moreover note sched_core_cong(4) [OF core]
  ultimately show "phase_outcome (fst w) (fst (step_trace_end ops w), snd (snd (step_trace_end ops w)))"
    and "fst (step_trace_end ops w) \<Longrightarrow> settled (fst (snd (snd (step_trace_end ops w))))"
    by (auto simp: step_trace_end_def r Let_def phase_outcome_def stop_at_max_ticks_def
        split: prod.splits if_splits)
qed

lemma forward_active:
  "active s \<Longrightarrow> forward e s t \<Longrightarrow> active t \<and> sy_epoch t = sy_epoch s \<and> sy_maxTicks t = sy_maxTicks s \<and>
     (settled s \<longrightarrow> settled t)"
  by (auto simp: active_def forward_def steady_def settled_def)

lemma step_activate_outcome:
  assumes "active (fst w)" "settled (fst w)"
  shows "phase_outcome (fst w) (step_activate ops sources traceEnd w)"
    and "fst (step_activate ops sources traceEnd w) \<Longrightarrow> settled (fst (snd (step_activate ops sources traceEnd w)))"
proof -
  have live: "sched_inv (fst w)" "\<not> sy_terminated (fst w)"
    using assms(1) by (simp_all add: active_def)
  let ?s = "fst w" let ?t = "ep_time (sy_epoch ?s)"
  let ?r = "if sources \<noteq> [] \<and> \<not> plan_empty (sy_activation ?s)
            then (if ?t = - 1
                  then (False, snd (sys_fail ''tick_overflow''
                          ''activation would overflow simulation time'' ?s), snd w)
                  else activate_sources ops (Epoch (?t + 1) 0) sources w)
            else (True, w)"
  obtain ok s1 h1 where r: "?r = (ok, s1, h1)" by (metis prod_cases3)
  have a1: "if ok then active s1 \<and> sy_epoch s1 = sy_epoch ?s \<and> sy_maxTicks s1 = sy_maxTicks ?s \<and> settled s1
      else sy_terminated s1"
    using r activate_sources_forward [OF live, of ops "Epoch (?t + 1) 0" sources] assms
      forward_active [OF assms(1), of "Epoch (?t + 1) 0" s1]
    by (auto split: if_splits)
  let ?e = "Epoch (ep_time (sy_epoch s1) + 1) 0"
  have step: "step_activate ops sources traceEnd w = (if ok then
      (case (if traceEnd \<noteq> [] then schedule_all ?e traceEnd s1 else (True, s1)) of (ok, s2) \<Rightarrow> (ok, s2, h1))
      else (False, s1, h1))"
    unfolding step_activate_def Let_def r by simp
  have "if fst (schedule_all ?e traceEnd s1) then active (snd (schedule_all ?e traceEnd s1)) \<and>
      sy_epoch (snd (schedule_all ?e traceEnd s1)) = sy_epoch ?s \<and>
      sy_maxTicks (snd (schedule_all ?e traceEnd s1)) = sy_maxTicks ?s \<and> settled (snd (schedule_all ?e traceEnd s1))
      else sy_terminated (snd (schedule_all ?e traceEnd s1))" if ok
    using schedule_all_forward [of s1 ?e traceEnd] a1 that forward_active [of s1 ?e]
    by (auto simp: active_def split: if_splits)
  with a1 show "phase_outcome (fst w) (step_activate ops sources traceEnd w)"
    and "fst (step_activate ops sources traceEnd w) \<Longrightarrow> settled (fst (snd (step_activate ops sources traceEnd w)))"
    unfolding step by (auto simp: phase_outcome_def case_prod_beta split: if_splits)
qed

text \<open>The next epoch lies strictly ahead, and nothing is scheduled before it.\<close>

lemma next_epoch_ahead:
  assumes "sched_inv s" "work_after s" "events_after s" "next_epoch s = Some (e, isEvent)"
  shows "sy_epoch s < e" "ep_delta e < kMaxDeltasPerTick"
    "\<forall>(k, ids) \<in> set (sy_scheduledWork s). e \<le> k"
    "\<forall>ev \<in> set (eq_committed (sy_eventQueue s)). e \<le> ev_readyTime ev"
proof -
  have work: "\<forall>(k, ids) \<in> set (sy_scheduledWork s). k0 \<le> k" if "sy_scheduledWork s = (k0, ids0) # rest" for k0 ids0 rest
    using assms(1) that by (auto simp: sched_inv_def less_imp_le)
  have events: "\<forall>ev \<in> set (eq_committed (sy_eventQueue s)). ev_readyTime x \<le> ev_readyTime ev"
    "x \<in> set (eq_committed (sy_eventQueue s))"
    if "eq_nextEvent (sy_eventQueue s) = Some x" for x
    using eq_nextEvent_ready [of "sy_eventQueue s" x] that assms(1)
    by (auto simp: sched_inv_def eq_nextEvent_def split: list.splits)
  have none: "eq_committed (sy_eventQueue s) = []" if "eq_nextEvent (sy_eventQueue s) = None"
    using that by (auto simp: eq_nextEvent_def split: list.splits)
  have dueE: "ep_delta (ev_readyTime x) < kMaxDeltasPerTick" if "x \<in> set (eq_committed (sy_eventQueue s))" for x
    using assms(1) that by (auto simp: sched_inv_def queued_events_def due_def)
  have le_work: "e \<le> k0" if "sy_scheduledWork s = (k0, ids0) # rest" for k0 ids0 rest
    using assms(4) that by (auto simp: next_epoch_def Let_def split: option.splits if_splits)
  have le_event: "e \<le> ev_readyTime x" if "eq_nextEvent (sy_eventQueue s) = Some x" for x
    using assms(4) that by (auto simp: next_epoch_def Let_def split: list.splits if_splits)
  show "\<forall>(k, ids) \<in> set (sy_scheduledWork s). e \<le> k"
  proof (cases "sy_scheduledWork s")
    case (Cons y rest)
    obtain k0 ids0 where y: "y = (k0, ids0)" by fastforce
    from work [of k0 ids0 rest] le_work [of k0 ids0 rest] Cons y show ?thesis
      by (auto intro: order_trans)
  qed simp
  show "\<forall>ev \<in> set (eq_committed (sy_eventQueue s)). e \<le> ev_readyTime ev"
  proof (cases "eq_nextEvent (sy_eventQueue s)")
    case (Some x)
    from events(1) [OF Some] le_event [OF Some] show ?thesis by (auto intro: order_trans)
  qed (simp add: none)
  show "sy_epoch s < e"
    using assms(2-4) events(2) unfolding next_epoch_def Let_def work_after_def events_after_def
    by (cases "sy_scheduledWork s"; cases "eq_nextEvent (sy_eventQueue s)") (auto split: if_splits)
  show "ep_delta e < kMaxDeltasPerTick"
    using assms(1,4) events(2) dueE unfolding next_epoch_def Let_def sched_inv_def due_def
    by (cases "sy_scheduledWork s"; cases "eq_nextEvent (sy_eventQueue s)") (auto split: if_splits)
qed

definition advanced :: "sim_system \<Rightarrow> bool \<times> 'h world \<Rightarrow> bool" where
  "advanced s r \<longleftrightarrow> (if fst r
     then sched_inv (fst (snd r)) \<and> sy_epoch s < sy_epoch (fst (snd r)) \<and>
       ep_time (sy_epoch (fst (snd r))) < sy_maxTicks s \<and> sy_maxTicks (fst (snd r)) = sy_maxTicks s \<and>
       \<not> sy_terminated (fst (snd r))
     else sy_terminated (fst (snd r)))"

lemma step_idle_stops: "\<not> sy_terminated (fst w) \<Longrightarrow> sched_inv (fst w) \<Longrightarrow>
    \<not> fst (step_idle ops w) \<and> sy_terminated (fst (snd (step_idle ops w)))"
  using stopAtTraceCap_cases [of w ops]
  by (auto simp: step_idle_def Let_def complete_def stop_at_max_ticks_def split: prod.splits bool.splits option.splits)

lemma step_advance_advanced:
  assumes "sched_inv (fst w)" "work_after (fst w)" "events_after (fst w)" "settled (fst w)"
    and live: "\<not> sy_terminated (fst w)"
  shows "advanced (fst w) (step_advance ops w)"
proof -
  obtain s h where w: "w = (s, h)" by fastforce
  show ?thesis
  proof (cases "next_epoch s")
    case None
    then show ?thesis
      using step_idle_stops [OF live assms(1), of ops] by (simp add: w step_advance_def advanced_def)
  next
    case (Some x)
    obtain e isEvent where x: "x = (e, isEvent)" by fastforce
    have n: "next_epoch s = Some (e, isEvent)" using Some x by simp
    note ahead = next_epoch_ahead [OF assms(1-3) [unfolded w fst_conv] n]
    have "sched_inv (s\<lparr>sy_epoch := e\<rparr>)"
      using assms(1,4) ahead(2-4) unfolding w sched_inv_def queued_events_def settled_def due_def by auto
    with ahead(1) live show ?thesis
      by (auto simp: w step_advance_def n advanced_def Let_def stop_at_max_ticks_def not_le
          split: option.split)
  qed
qed

section \<open>The contract of the runtime objects\<close>

locale runtime_objects =
  fixes ops :: "'h object_ops"
  assumes work_evolves: "sys_evolves s (fst (ob_doWork ops p e (s, h)))"
    and arbitrate_evolves: "sys_evolves s (fst (ob_doArbitrate ops p e (s, h)))"
    and xfer_evolves: "sys_evolves s (fst (ob_doXfer ops p e (s, h)))"
begin

lemma phase_loop_outcome:
  assumes calls: "\<And>p e s h. sys_evolves s (fst (call p e (s, h)))"
    and "active (fst w)"
  shows "phase_outcome (fst w) (phase_loop call ids w)"
  using assms(2)
proof (induction ids arbitrary: w)
  case (Cons i ids)
  obtain s h where w: "w = (s, h)" by fastforce
  let ?s = "s\<lparr>sy_activeProposalOwner := Some i\<rparr>"
  obtain s2 h2 where c: "(case sys_lookup i ?s of None \<Rightarrow> (?s, h) | Some p \<Rightarrow> call p (sy_epoch ?s) (?s, h)) = (s2, h2)"
    by fastforce
  have act: "active ?s"
    by (rule active_core [of s]) (use Cons.prems in \<open>simp_all add: w active_def\<close>)
  have "sys_evolves ?s s2"
    using calls [of ?s _ "sy_epoch ?s" h] sched.evolves_refl [of ?s] c
    by (cases "sys_lookup i ?s") (auto dest!: arg_cong [of _ _ fst])
  note ev = active_evolves [OF act this]
  show ?case
  proof (cases "sy_terminated s2")
    case True
    with c show ?thesis by (simp add: w Let_def phase_outcome_def)
  next
    case False
    have "active (s2\<lparr>sy_activeProposalOwner := None\<rparr>)"
      by (rule active_core [OF ev(3) [OF False]]) (use False ev(3) [OF False] in \<open>simp_all add: active_def\<close>)
    from Cons.IH [of "(s2\<lparr>sy_activeProposalOwner := None\<rparr>, h2)"] this ev(1,2) False c
    show ?thesis by (simp add: w Let_def phase_outcome_def)
  qed
qed (simp add: phase_outcome_def)

lemma do_commit_evolves: "sys_evolves s (fst (snd (do_commit ops i b (s, h))))"
  by (simp add: do_commit_def xfer_thunk_def sched.evolves_refl xfer_evolves split: option.split)

text \<open>The commit thunk answers what the probe answered.\<close>

lemma do_commit_probe: "fst (do_commit ops i (will_commit ops i w) w) = will_commit ops i w"
  by (simp add: do_commit_def will_commit_def xfer_thunk_def split: option.split)

lemma commit_object_outcome:
  assumes "active (fst w)"
  shows "phase_outcome (fst w) (fst (commit_object ops i sources w), snd (snd (commit_object ops i sources w)))"
proof -
  obtain s h where w: "w = (s, h)" by fastforce
  let ?b = "will_commit ops i (s, h)"
  obtain b s1 h1 where c0: "do_commit ops i ?b (s, h) = (b, s1, h1)" by (metis prod_cases3)
  with do_commit_probe [of i "(s, h)"] have c: "do_commit ops i ?b (s, h) = (?b, s1, h1)" by simp
  define s2 where "s2 = (if ?b then s1\<lparr>sy_lastCommitTick := map_put i (ep_time (sy_epoch s1)) (sy_lastCommitTick s1),
                            sy_lastProgressTick := ep_time (sy_epoch s1)\<rparr> else s1)"
  have "sys_evolves s s1"
    using do_commit_evolves [of s i ?b h] c by simp
  note ev = active_evolves [OF assms [unfolded w fst_conv] this]
  have core2: "sched_core s2 = sched_core s1" and f2: "sy_terminated s2 = sy_terminated s1"
    "sy_executingEpoch s2 = sy_executingEpoch s1" "sy_maxTicks s2 = sy_maxTicks s1" "sy_epoch s2 = sy_epoch s1"
    by (simp_all add: s2_def)
  have act: "active (s2\<lparr>sy_observations := rec\<rparr>)" if "\<not> sy_terminated s2" for rec
    by (rule active_core [OF ev(3)]) (use that ev(3) core2 f2 in \<open>simp_all add: active_def\<close>)
  show ?thesis
    using act ev(1,2) f2
    unfolding w commit_object_def Let_def case_prod_conv fst_conv snd_conv c s2_def [symmetric]
    by (auto simp: phase_outcome_def split: prod.splits bool.splits)
qed

lemma commit_loop_outcome:
  assumes "active (fst w)"
  shows "phase_outcome (fst w) (fst (commit_loop ops ids sources w), snd (snd (commit_loop ops ids sources w)))"
  using assms
proof (induction ids arbitrary: sources w)
  case (Cons i ids)
  obtain ok sources' w' where c: "commit_object ops i sources w = (ok, sources', w')" by (metis prod_cases3)
  from commit_object_outcome [OF Cons.prems, of i sources]
  have o: "phase_outcome (fst w) (ok, w')" by (simp add: c)
  show ?case
  proof (cases ok)
    case True
    with o have "active (fst w')" "sy_epoch (fst w') = sy_epoch (fst w)" "sy_maxTicks (fst w') = sy_maxTicks (fst w)"
      by (simp_all add: phase_outcome_def)
    with Cons.IH [of w' sources'] True show ?thesis
      by (auto simp: c phase_outcome_def split: if_splits)
  qed (use o in \<open>simp add: c\<close>)
qed (simp add: phase_outcome_def)

lemma step_execute_outcome:
  assumes "sched_inv (fst w)" "\<not> sy_terminated (fst w)"
  shows "phase_outcome (fst w) (fst (step_execute ops w), snd (snd (step_execute ops w)))"
proof -
  obtain s h where w: "w = (s, h)" by fastforce
  obtain ids s1 where t: "take_current_work s = (ids, s1)" by fastforce
  note cur = take_current_work_inv [OF assms(1) [unfolded w fst_conv] t]
  let ?s = "s1\<lparr>sy_executingEpoch := True, sy_commitParticipants := []\<rparr>"
  have "sched_core ?s = sched_core s1" by simp
  from sched_core_cong [OF this] cur assms(2) have act: "active ?s"
    by (simp add: active_def w)
  obtain ok1 w1 where p1: "phase_loop (ob_doWork ops) ids (?s, h) = (ok1, w1)" by (metis surj_pair)
  have o1: "phase_outcome ?s (ok1, w1)"
    using phase_loop_outcome [where call = "ob_doWork ops" and w = "(?s, h)" and ids = ids] act p1 work_evolves by simp
  let ?x = "fold set_insert (sy_commitParticipants (fst w1)) ids"
  obtain ok2 w2 where p2: "phase_loop (ob_doArbitrate ops) ?x w1 = (ok2, w2)" by (metis surj_pair)
  obtain ok3 w3 where p3: "validate_loop ops ?x w2 = (ok3, w3)" by (metis surj_pair)
  obtain ok4 src s4 h4 where p4: "commit_loop ops ?x [] w3 = (ok4, src, s4, h4)" by (metis prod_cases4)
  have o2: "phase_outcome (fst w1) (ok2, w2)" if ok1
    using phase_loop_outcome [where call = "ob_doArbitrate ops" and w = w1 and ids = ?x] o1 that p2
      arbitrate_evolves by (simp add: phase_outcome_def)
  have o3: "phase_outcome (fst w2) (ok3, w3)" if ok1 ok2
    using validate_loop_outcome [of w2 ops ?x] o2 that p3 by (simp add: phase_outcome_def)
  have o4: "phase_outcome (fst w3) (ok4, s4, h4)" if ok1 ok2 ok3
    using commit_loop_outcome [of w3 ?x "[]"] o3 that p4 by (simp add: phase_outcome_def)
  have o5: "active s4 \<Longrightarrow> active (commit_events s4) \<and> sy_epoch (commit_events s4) = sy_epoch s4 \<and>
      sy_maxTicks (commit_events s4) = sy_maxTicks s4"
    by (rule active_commit_events)
  show ?thesis
    unfolding w step_execute_def Let_def case_prod_conv t p1
    using o1 o2 o3 o4 o5 p2 p3 p4 cur(4,5)
    by (cases ok1; cases ok2; cases ok3; cases ok4) (simp_all add: phase_outcome_def)
qed

lemma step_execute_settled: "fst (step_execute ops w) \<Longrightarrow> settled (fst (snd (snd (step_execute ops w))))"
  by (auto simp: step_execute_def Let_def settled_commit_events and_then_def split: prod.splits bool.splits if_splits)

text \<open>
  The stages of one step: each stage that stops has terminated the system; when all go through,
  nothing is due at the current epoch any more.
\<close>

lemma step_stages:
  assumes "sched_inv (fst w)"
    and p1: "step_preflight ops w = (ok1, w1)" and p2: "deliver_loop ops w1 = (ok2, w2)"
    and p3: "step_execute ops w2 = (ok3, src, w3)" and p4: "step_trace_end ops w3 = (ok4, tr, w4)"
    and p5: "step_activate ops src tr w4 = (ok5, w5)" and p6: "deliver_loop ops w5 = (ok6, s6, h6)"
  shows "\<not> ok1 \<Longrightarrow> sy_terminated (fst w1)" and "ok1 \<Longrightarrow> \<not> ok2 \<Longrightarrow> sy_terminated (fst w2)"
    and "ok1 \<Longrightarrow> ok2 \<Longrightarrow> \<not> ok3 \<Longrightarrow> sy_terminated (fst w3)"
    and "ok1 \<Longrightarrow> ok2 \<Longrightarrow> ok3 \<Longrightarrow> \<not> ok4 \<Longrightarrow> sy_terminated (fst w4)"
    and "ok1 \<Longrightarrow> ok2 \<Longrightarrow> ok3 \<Longrightarrow> ok4 \<Longrightarrow> \<not> ok5 \<Longrightarrow> sy_terminated (fst w5)"
    and "ok1 \<Longrightarrow> ok2 \<Longrightarrow> ok3 \<Longrightarrow> ok4 \<Longrightarrow> ok5 \<Longrightarrow>
      (if ok6 then sched_inv s6 \<and> work_after s6 \<and> events_after s6 \<and> settled s6 \<and> \<not> sy_terminated s6 \<and>
        sy_epoch s6 = sy_epoch (fst w) \<and> sy_maxTicks s6 = sy_maxTicks (fst w) else sy_terminated s6)"
proof -
  have o1: "if ok1 then steady (fst w) (fst w1) else sy_terminated (fst w1)"
    using step_preflight_outcome [OF assms(1), of ops] p1 by (auto simp: outcome_def split: if_splits)
  have o2: "if ok2 then steady (fst w) (fst w2) else sy_terminated (fst w2)" if ok1
    using deliver_loop_delivered [of w1 ops] o1 that p2 steady_trans [of "fst w" "fst w1" "fst w2"]
    by (auto simp: delivered_def outcome_def steady_def)
  have o3: "phase_outcome (fst w) (ok3, w3)" if ok1 ok2
    using step_execute_outcome [of w2] o2 that p3 by (auto simp: steady_def phase_outcome_def split: if_splits)
  have s3: "settled (fst w3)" if ok3
    using step_execute_settled [of w2] that p3 by simp
  have o4: "phase_outcome (fst w) (ok4, w4) \<and> (ok4 \<longrightarrow> settled (fst w4))" if ok1 ok2 ok3
    using step_trace_end_outcome [of w3 ops] o3 s3 that p4 by (auto simp: phase_outcome_def split: if_splits)
  have o5: "phase_outcome (fst w) (ok5, w5) \<and> (ok5 \<longrightarrow> settled (fst w5))" if ok1 ok2 ok3 ok4
    using step_activate_outcome [of w4 ops src tr] o4 that p5 by (auto simp: phase_outcome_def split: if_splits)
  show "ok1 \<Longrightarrow> ok2 \<Longrightarrow> ok3 \<Longrightarrow> ok4 \<Longrightarrow> ok5 \<Longrightarrow>
      (if ok6 then sched_inv s6 \<and> work_after s6 \<and> events_after s6 \<and> settled s6 \<and> \<not> sy_terminated s6 \<and>
        sy_epoch s6 = sy_epoch (fst w) \<and> sy_maxTicks s6 = sy_maxTicks (fst w) else sy_terminated s6)"
    using deliver_loop_delivered [of w5 ops] deliver_loop_settled [of ops w5] o5 p6
    by (auto simp: delivered_def outcome_def steady_def phase_outcome_def active_def settled_def split: if_splits)
  show "\<not> ok1 \<Longrightarrow> sy_terminated (fst w1)" and "ok1 \<Longrightarrow> \<not> ok2 \<Longrightarrow> sy_terminated (fst w2)"
    and "ok1 \<Longrightarrow> ok2 \<Longrightarrow> \<not> ok3 \<Longrightarrow> sy_terminated (fst w3)"
    and "ok1 \<Longrightarrow> ok2 \<Longrightarrow> ok3 \<Longrightarrow> \<not> ok4 \<Longrightarrow> sy_terminated (fst w4)"
    and "ok1 \<Longrightarrow> ok2 \<Longrightarrow> ok3 \<Longrightarrow> ok4 \<Longrightarrow> \<not> ok5 \<Longrightarrow> sy_terminated (fst w5)"
    using o1 o2 o3 o4 o5 by (simp_all add: phase_outcome_def)
qed

lemma step_eq:
  assumes "step_preflight ops w = (ok1, w1)" and "deliver_loop ops w1 = (ok2, w2)"
    and "step_execute ops w2 = (ok3, src, w3)" and "step_trace_end ops w3 = (ok4, tr, w4)"
    and "step_activate ops src tr w4 = (ok5, w5)" and "deliver_loop ops w5 = (ok6, s6, h6)"
  shows "step ops w = (if \<not> ok1 then (False, w1) else if \<not> ok2 then (False, w2) else
      if \<not> ok3 then (False, w3) else if \<not> ok4 then (False, w4) else if \<not> ok5 then (False, w5) else
      if \<not> ok6 then (False, s6, h6) else step_advance ops (end_epoch s6, h6))"
  unfolding step_def
  by (cases ok1; cases ok2; cases ok3; cases ok4; cases ok5; cases ok6) (simp_all add: assms)

lemma end_epoch_frame:
  "sched_inv (end_epoch s) = sched_inv s" "work_after (end_epoch s) = work_after s"
  "events_after (end_epoch s) = events_after s" "settled (end_epoch s) = settled s"
  "sy_terminated (end_epoch s) = sy_terminated s" "sy_maxTicks (end_epoch s) = sy_maxTicks s"
  "sy_epoch (end_epoch s) = sy_epoch s"
proof -
  have "sched_core (end_epoch s) = sched_core s" by (simp add: end_epoch_def)
  from sched_core_cong [OF this]
  show "sched_inv (end_epoch s) = sched_inv s" "work_after (end_epoch s) = work_after s"
    "events_after (end_epoch s) = events_after s" by simp_all
qed (simp_all add: end_epoch_def settled_def)

text \<open>
  One step: either time moves strictly forward and the invariant holds again, or the system is
  terminated.
\<close>

lemma step_advanced:
  assumes "sched_inv (fst w)"
  shows "advanced (fst w) (step ops w)"
proof -
  obtain ok1 w1 where p1: "step_preflight ops w = (ok1, w1)" by (metis surj_pair)
  obtain ok2 w2 where p2: "deliver_loop ops w1 = (ok2, w2)" by (metis surj_pair)
  obtain ok3 src w3 where p3: "step_execute ops w2 = (ok3, src, w3)" by (metis prod_cases3)
  obtain ok4 tr w4 where p4: "step_trace_end ops w3 = (ok4, tr, w4)" by (metis prod_cases3)
  obtain ok5 w5 where p5: "step_activate ops src tr w4 = (ok5, w5)" by (metis surj_pair)
  obtain ok6 s6 h6 where p6: "deliver_loop ops w5 = (ok6, s6, h6)" by (metis prod_cases3)
  note stages = step_stages [OF assms p1 p2 p3 p4 p5 p6]
  have "advanced (fst w) (step_advance ops (end_epoch s6, h6))" if ok1 ok2 ok3 ok4 ok5 ok6
    using step_advance_advanced [of "(end_epoch s6, h6)" ops] stages(6) that
    by (auto simp: advanced_def end_epoch_frame split: if_splits)
  then show ?thesis
    unfolding step_eq [OF p1 p2 p3 p4 p5 p6] using stages
    by (auto simp: advanced_def split: if_splits)
qed

lemma run_loop_returns:
  assumes "sched_inv (fst w)"
  shows "\<exists>w'. run_loop ops w = Some w' \<and> sy_terminated (fst w')"
  using assms
proof (induction "2 ^ 96 - epoch_rank (sy_epoch (fst w))" arbitrary: w rule: less_induct)
  case less
  have adv: "advanced (fst w) (step ops w)"
    by (rule step_advanced [OF less.prems])
  show ?case
  proof (cases "sy_terminated (fst w) \<or> \<not> fst (step ops w)")
    case True
    then have "run_loop ops w = Some (if sy_terminated (fst w) then w else snd (step ops w))"
      by (subst run_loop.simps) auto
    moreover have "sy_terminated (fst (if sy_terminated (fst w) then w else snd (step ops w)))"
      using True adv by (auto simp: advanced_def)
    ultimately show ?thesis by blast
  next
    case False
    with adv have "sched_inv (fst (snd (step ops w)))" "sy_epoch (fst w) < sy_epoch (fst (snd (step ops w)))"
      by (simp_all add: advanced_def)
    with less.hyps [of "snd (step ops w)"] epoch_rank_bound [of "sy_epoch (fst w)"]
      epoch_rank_less [of "sy_epoch (fst w)" "sy_epoch (fst (snd (step ops w)))"]
    have "\<exists>w'. run_loop ops (snd (step ops w)) = Some w' \<and> sy_terminated (fst w')" by simp
    with False show ?thesis by (subst run_loop.simps) simp
  qed
qed

end

end
