(* ===== verification/Sim_Queue.thy ===== *)
theory Sim_Queue
  imports Sim_Object
begin

text \<open>
  \<open>SimQueue\<close> and \<open>QueueLink\<close> of \<open>include/gfsim/queue.h\<close>: the finite FIFO with private push
  and pop proposals that the Xfer barrier commits, and the link that moves one element per epoch
  between two queues. The queue keeps its capacity and statistics invariant under every
  operation; against the abstract specification of a FIFO channel, every accepted element is
  delivered exactly once and in order.
\<close>

section \<open>State\<close>

record 'a sim_queue = sim_object +
  q_entryCapacity :: nat
  q_byteCapacity :: u64
  q_serializedSize :: nat
  q_committed :: "'a list"
  q_pushProposals :: "'a list"
  q_popProposalCount :: nat
  q_highWatermark :: nat
  q_totalPushes :: u64
  q_totalPops :: u64
  q_lastUpdate :: epoch
  q_system :: "ptr option"

text \<open>
  \<open>q_serializedSize\<close> is the template constant \<open>PacketTraits<T>::serializedSize\<close>.
\<close>

definition newQueue ::
  "string \<Rightarrow> object_id \<Rightarrow> ptr option \<Rightarrow> nat \<Rightarrow> u64 \<Rightarrow> nat \<Rightarrow> ptr option \<Rightarrow> 'a sim_queue" where
  "newQueue nm i parent entryCapacity byteCapacity szof sink =
     \<lparr>so_kind = KQueue, so_name = nm, so_id = i, so_path = '''', so_parent = parent,
      so_observationSink = sink, so_runtimeFailureCode = '''',
      q_entryCapacity = entryCapacity, q_byteCapacity = byteCapacity, q_serializedSize = szof,
      q_committed = [], q_pushProposals = [], q_popProposalCount = 0, q_highWatermark = 0,
      q_totalPushes = 0, q_totalPops = 0, q_lastUpdate = epoch0, q_system = None\<rparr>"

section \<open>Operations\<close>

definition committedSize :: "('a, 'z) sim_queue_scheme \<Rightarrow> nat" where
  "committedSize q = length (q_committed q)"

definition committedBytes :: "('a, 'z) sim_queue_scheme \<Rightarrow> nat" where
  "committedBytes q =
     (if q_serializedSize q = 0 then 0 else (length (q_committed q) * q_serializedSize q) mod 2 ^ 64)"

definition exceedsByteCapacity :: "('a, 'z) sim_queue_scheme \<Rightarrow> nat \<Rightarrow> bool" where
  "exceedsByteCapacity q elementCount =
     (if q_serializedSize q = 0 then False
      else elementCount > unat (q_byteCapacity q) div q_serializedSize q)"

definition isFull :: "('a, 'z) sim_queue_scheme \<Rightarrow> bool" where
  "isFull q \<longleftrightarrow> committedSize q \<ge> q_entryCapacity q \<or> exceedsByteCapacity q (committedSize q + 1)"

definition isEmpty :: "('a, 'z) sim_queue_scheme \<Rightarrow> bool" where
  "isEmpty q \<longleftrightarrow> q_committed q = []"

definition occupied :: "('a, 'z) sim_queue_scheme \<Rightarrow> nat" where
  "occupied q = length (q_pushProposals q) + committedSize q"

definition proposePush ::
  "'s sim_api \<Rightarrow> 'a \<Rightarrow> ('a, 'z) sim_queue_scheme \<Rightarrow> 's \<Rightarrow> bool \<times> ('a, 'z) sim_queue_scheme \<times> 's" where
  "proposePush api element q s =
     (if occupied q \<ge> q_entryCapacity q \<or> exceedsByteCapacity q (occupied q + 1) then (False, q, s)
      else case registered api (q_system q) (so_id q) s of
        (False, s') \<Rightarrow> (False, q, s')
      | (True, s') \<Rightarrow> (True, q\<lparr>q_pushProposals := q_pushProposals q @ [element]\<rparr>, s'))"

definition proposePop ::
  "'s sim_api \<Rightarrow> ('a, 'z) sim_queue_scheme \<Rightarrow> 's \<Rightarrow> 'a option \<times> ('a, 'z) sim_queue_scheme \<times> 's" where
  "proposePop api q s =
     (if q_popProposalCount q \<ge> length (q_committed q) then (None, q, s)
      else case registered api (q_system q) (so_id q) s of
        (False, s') \<Rightarrow> (None, q, s')
      | (True, s') \<Rightarrow> (Some (q_committed q ! q_popProposalCount q),
                      q\<lparr>q_popProposalCount := q_popProposalCount q + 1\<rparr>, s'))"

text \<open>
  \<open>proposeTransferTo\<close> on two distinct queues. The result carries both queues; a caller whose
  two references name the same queue merges the two with \<open>transfer_alias\<close>, which is right
  because the code reads both endpoints before it writes either.
\<close>

definition proposeTransferTo ::
  "'s sim_api \<Rightarrow> ('a, 'z) sim_queue_scheme \<Rightarrow> ('a, 'z) sim_queue_scheme \<Rightarrow> 's
   \<Rightarrow> bool \<times> ('a, 'z) sim_queue_scheme \<times> ('a, 'z) sim_queue_scheme \<times> 's" where
  "proposeTransferTo api source destination s =
     (if q_system source \<noteq> q_system destination
      then (False, setRuntimeFailureCode ''queue_transfer_system_mismatch'' source, destination, s)
      else if q_popProposalCount source \<ge> length (q_committed source)
      then (False, source, destination, s)
      else if occupied destination \<ge> q_entryCapacity destination \<or>
              exceedsByteCapacity destination (occupied destination + 1)
      then (False, source, destination, s)
      else case registered api (q_system source) (so_id source) s of
        (False, s1) \<Rightarrow> (False, source, destination, s1)
      | (True, s1) \<Rightarrow>
         (case registered api (q_system destination) (so_id destination) s1 of
            (False, s2) \<Rightarrow> (False, source, destination, s2)
          | (True, s2) \<Rightarrow>
              (True,
               source\<lparr>q_popProposalCount := q_popProposalCount source + 1\<rparr>,
               destination\<lparr>q_pushProposals := q_pushProposals destination
                              @ [q_committed source ! q_popProposalCount source]\<rparr>,
               s2)))"

definition transfer_alias ::
  "('a, 'z) sim_queue_scheme \<Rightarrow> ('a, 'z) sim_queue_scheme \<Rightarrow> ('a, 'z) sim_queue_scheme" where
  "transfer_alias source destination = source\<lparr>q_pushProposals := q_pushProposals destination\<rparr>"

definition tryTransferTo ::
  "'s sim_api \<Rightarrow> ('a, 'z) sim_queue_scheme \<Rightarrow> ('a, 'z) sim_queue_scheme \<Rightarrow> bool \<Rightarrow> 's
   \<Rightarrow> bool \<times> ('a, 'z) sim_queue_scheme \<times> ('a, 'z) sim_queue_scheme \<times> 's" where
  "tryTransferTo api source destination enable s =
     (if \<not> enable then (False, source, destination, s)
      else proposeTransferTo api source destination s)"

definition tryRecv ::
  "'s sim_api \<Rightarrow> ('a::zero, 'z) sim_queue_scheme \<Rightarrow> 's \<Rightarrow> ('a \<times> bool) \<times> ('a, 'z) sim_queue_scheme \<times> 's" where
  "tryRecv api q s =
     (case proposePop api q s of (v, q', s') \<Rightarrow>
        ((case v of Some x \<Rightarrow> (x, True) | None \<Rightarrow> (0, False)), q', s'))"

definition peek :: "('a, 'z) sim_queue_scheme \<Rightarrow> 'a option" where
  "peek q = (if q_committed q = [] then None else Some (hd (q_committed q)))"

definition tryPeek :: "('a::zero, 'z) sim_queue_scheme \<Rightarrow> 'a \<times> bool" where
  "tryPeek q = (case peek q of Some x \<Rightarrow> (x, True) | None \<Rightarrow> (0, False))"

text \<open>\<open>space\<close> narrows the difference of two \<open>size_t\<close> values to \<open>int32_t\<close>.\<close>

definition space :: "('a, 'z) sim_queue_scheme \<Rightarrow> int" where
  "space q = (if occupied q \<ge> q_entryCapacity q then 0
              else sint (word_of_nat (q_entryCapacity q - occupied q) :: 32 word))"

definition queue_hasPendingCommit :: "('a, 'z) sim_queue_scheme \<Rightarrow> bool" where
  "queue_hasPendingCommit q \<longleftrightarrow> q_pushProposals q \<noteq> [] \<or> q_popProposalCount q \<noteq> 0"

definition queue_observations :: "('a, 'z) sim_queue_scheme \<Rightarrow> event_proposal list" where
  "queue_observations q =
     replicate (length (q_pushProposals q)) (observation ''transaction'' ''accepted'' Instant) @
     replicate (q_popProposalCount q) (observation ''transaction'' ''completed'' Instant) @
     (if q_pushProposals q \<noteq> [] \<or> q_popProposalCount q \<noteq> 0
      then [(observation ''queue'' ''occupancy'' CounterPhase)
              \<lparr>op_arguments := [(''occupancy'', OUInt (of_nat (length (q_committed q))
                 + of_nat (length (q_pushProposals q)) - of_nat (q_popProposalCount q)))]\<rparr>]
      else [])"

definition queue_doArbitrate ::
  "'s sim_api \<Rightarrow> ('a, 'z) sim_queue_scheme \<Rightarrow> 's \<Rightarrow> ('a, 'z) sim_queue_scheme \<times> 's" where
  "queue_doArbitrate api q s = emitObservations api (queue_observations q) q s"

fun pop_loop :: "nat \<Rightarrow> 'a list \<Rightarrow> u64 \<Rightarrow> 'a list \<times> u64" where
  "pop_loop 0 xs pops = (xs, pops)"
| "pop_loop (Suc n) [] pops = ([], pops)"
| "pop_loop (Suc n) (x # xs) pops = pop_loop n xs (pops + 1)"

definition queue_doXfer :: "epoch \<Rightarrow> ('a, 'z) sim_queue_scheme \<Rightarrow> ('a, 'z) sim_queue_scheme" where
  "queue_doXfer epoch q =
     (let changed = queue_hasPendingCommit q;
          pushed = q_committed q @ q_pushProposals q;
          (kept, pops) = pop_loop (q_popProposalCount q) pushed (q_totalPops q);
          q1 = q\<lparr>q_committed := kept, q_pushProposals := [], q_popProposalCount := 0,
                 q_totalPushes := q_totalPushes q + of_nat (length (q_pushProposals q)),
                 q_totalPops := pops\<rparr>;
          q2 = (if committedSize q1 > q_highWatermark q1
                then q1\<lparr>q_highWatermark := committedSize q1\<rparr> else q1)
      in if changed then q2\<lparr>q_lastUpdate := epoch\<rparr> else q2)"

definition queue_runtimeState :: "('a, 'z) sim_queue_scheme \<Rightarrow> runtime_object_state" where
  "queue_runtimeState q =
     (let pending = queue_hasPendingCommit q;
          quiescent = (q_committed q = [] \<and> \<not> pending);
          base = base_runtimeState pending False
      in base\<lparr>ros_queueOccupancy := committedSize q,
              ros_pendingOffers := length (q_pushProposals q),
              ros_quiescent := quiescent,
              ros_reason := (if \<not> quiescent
                 then (if pending then ''pending_commit'' else ''queue_not_empty'')
                 else ros_reason base)\<rparr>)"

definition queue_collectStatistics :: "('a, 'z) sim_queue_scheme \<Rightarrow> stat_snapshot list" where
  "queue_collectStatistics q =
     [plain_snapshot ''queue_occupancy'' (so_path q) Gauge (of_nat (committedSize q)) (q_lastUpdate q),
      plain_snapshot ''queue_occupancy_peak'' (so_path q) Gauge (of_nat (q_highWatermark q)) (q_lastUpdate q),
      plain_snapshot ''accepted_transactions'' (so_path q) Counter (q_totalPushes q) (q_lastUpdate q),
      plain_snapshot ''completed_transactions'' (so_path q) Counter (q_totalPops q) (q_lastUpdate q)]"

definition queue_bindSystem :: "ptr option \<Rightarrow> ('a, 'z) sim_queue_scheme \<Rightarrow> ('a, 'z) sim_queue_scheme" where
  "queue_bindSystem system q = q\<lparr>q_system := system\<rparr>"

definition queue_reset :: "('a, 'z) sim_queue_scheme \<Rightarrow> ('a, 'z) sim_queue_scheme" where
  "queue_reset q = clearRuntimeFailureCode
     (q\<lparr>q_committed := [], q_pushProposals := [], q_popProposalCount := 0, q_highWatermark := 0,
        q_totalPushes := 0, q_totalPops := 0, q_lastUpdate := epoch0\<rparr>)"

section \<open>The links between queues\<close>

record queue_link = sim_object +
  ql_source :: ptr
  ql_destination :: ptr
  ql_system :: "ptr option"
  ql_lastWorkEpoch :: "epoch option"
  ql_pendingTransfer :: bool
  ql_transferred :: u64
  ql_stalledEmpty :: u64
  ql_stalledFull :: u64
  ql_lastUpdate :: epoch

definition newQueueLink ::
  "string \<Rightarrow> object_id \<Rightarrow> ptr option \<Rightarrow> ptr \<Rightarrow> ptr \<Rightarrow> queue_link" where
  "newQueueLink nm i parent source destination =
     \<lparr>so_kind = KLink, so_name = nm, so_id = i, so_path = '''', so_parent = parent,
      so_observationSink = None, so_runtimeFailureCode = '''',
      ql_source = source, ql_destination = destination, ql_system = None,
      ql_lastWorkEpoch = None, ql_pendingTransfer = False, ql_transferred = 0,
      ql_stalledEmpty = 0, ql_stalledFull = 0, ql_lastUpdate = epoch0\<rparr>"

text \<open>The link at work, given the two queues its references name.\<close>

definition link_doWork ::
  "'s sim_api \<Rightarrow> epoch \<Rightarrow> 'z queue_link_scheme \<Rightarrow> 'a sim_queue \<Rightarrow> 'a sim_queue \<Rightarrow> 's
   \<Rightarrow> 'z queue_link_scheme \<times> 'a sim_queue \<times> 'a sim_queue \<times> 's" where
  "link_doWork api epoch l source destination s =
     (if ql_lastWorkEpoch l = Some epoch then (l, source, destination, s)
      else let l1 = l\<lparr>ql_lastWorkEpoch := Some epoch\<rparr> in
        if isEmpty source
        then (l1\<lparr>ql_stalledEmpty := ql_stalledEmpty l1 + 1\<rparr>, source, destination, s)
        else if isFull destination
        then (l1\<lparr>ql_stalledFull := ql_stalledFull l1 + 1\<rparr>, source, destination, s)
        else case registered api (ql_system l1) (so_id l1) s of
          (False, s1) \<Rightarrow>
            (setRuntimeFailureCode ''queue_link_commit_registration_failed'' l1, source, destination, s1)
        | (True, s1) \<Rightarrow>
           (case proposeTransferTo api source destination s1 of
              (False, source', destination', s2) \<Rightarrow>
                (setRuntimeFailureCode ''queue_link_atomic_proposal_failed'' l1, source', destination', s2)
            | (True, source', destination', s2) \<Rightarrow>
                (l1\<lparr>ql_pendingTransfer := True\<rparr>, source', destination', s2)))"

definition link_doXfer :: "epoch \<Rightarrow> 'z queue_link_scheme \<Rightarrow> 'z queue_link_scheme" where
  "link_doXfer epoch l =
     (if \<not> ql_pendingTransfer l then l
      else l\<lparr>ql_pendingTransfer := False, ql_transferred := ql_transferred l + 1,
             ql_lastUpdate := epoch\<rparr>)"

definition link_hasPendingCommit :: "'z queue_link_scheme \<Rightarrow> bool" where
  "link_hasPendingCommit l \<longleftrightarrow> ql_pendingTransfer l"

definition link_isRunnable :: "'a sim_queue \<Rightarrow> 'a sim_queue \<Rightarrow> bool" where
  "link_isRunnable source destination \<longleftrightarrow> \<not> isEmpty source \<and> \<not> isFull destination"

definition link_bindSystem :: "ptr option \<Rightarrow> 'z queue_link_scheme \<Rightarrow> 'z queue_link_scheme" where
  "link_bindSystem system l = l\<lparr>ql_system := system\<rparr>"

definition link_collectStatistics :: "'z queue_link_scheme \<Rightarrow> stat_snapshot list" where
  "link_collectStatistics l =
     [plain_snapshot ''transferred'' (so_path l) Counter (ql_transferred l) (ql_lastUpdate l),
      plain_snapshot ''stalled_empty'' (so_path l) Counter (ql_stalledEmpty l) (ql_lastUpdate l),
      plain_snapshot ''stalled_full'' (so_path l) Counter (ql_stalledFull l) (ql_lastUpdate l)]"

definition link_reset :: "'z queue_link_scheme \<Rightarrow> 'z queue_link_scheme" where
  "link_reset l = clearRuntimeFailureCode
     (l\<lparr>ql_pendingTransfer := False, ql_lastWorkEpoch := None, ql_transferred := 0,
        ql_stalledEmpty := 0, ql_stalledFull := 0, ql_lastUpdate := epoch0\<rparr>)"

section \<open>The queue invariant\<close>

definition queue_inv :: "('a, 'z) sim_queue_scheme \<Rightarrow> bool" where
  "queue_inv q \<longleftrightarrow>
     q_popProposalCount q \<le> length (q_committed q) \<and>
     occupied q \<le> q_entryCapacity q \<and> \<not> exceedsByteCapacity q (occupied q) \<and>
     length (q_committed q) \<le> q_highWatermark q \<and> q_highWatermark q \<le> q_entryCapacity q \<and>
     q_totalPushes q = q_totalPops q + of_nat (length (q_committed q))"

lemmas queue_defs = occupied_def committedSize_def exceedsByteCapacity_def

lemma pop_loop_eq:
  "pop_loop n xs p = (drop n xs, p + of_nat (min n (length xs)))"
  by (induction n xs p rule: pop_loop.induct) auto

lemma queue_doXfer_fields:
  assumes "q_popProposalCount q \<le> length (q_committed q)"
  shows "q_committed (queue_doXfer e q) = drop (q_popProposalCount q) (q_committed q) @ q_pushProposals q"
    and "q_pushProposals (queue_doXfer e q) = []"
    and "q_popProposalCount (queue_doXfer e q) = 0"
    and "q_totalPushes (queue_doXfer e q) = q_totalPushes q + of_nat (length (q_pushProposals q))"
    and "q_totalPops (queue_doXfer e q) = q_totalPops q + of_nat (q_popProposalCount q)"
    and "q_highWatermark (queue_doXfer e q) =
          max (q_highWatermark q) (length (q_committed q) - q_popProposalCount q + length (q_pushProposals q))"
  using assms by (simp_all add: queue_doXfer_def pop_loop_eq Let_def committedSize_def)

lemma queue_doXfer_frame [simp]:
  "q_entryCapacity (queue_doXfer e q) = q_entryCapacity q"
  "q_byteCapacity (queue_doXfer e q) = q_byteCapacity q"
  "q_serializedSize (queue_doXfer e q) = q_serializedSize q"
  "q_system (queue_doXfer e q) = q_system q"
  "so_id (queue_doXfer e q) = so_id q" "so_kind (queue_doXfer e q) = so_kind q"
  "so_runtimeFailureCode (queue_doXfer e q) = so_runtimeFailureCode q"
  by (simp_all add: queue_doXfer_def pop_loop_eq Let_def)

lemma queue_inv_new: "queue_inv (newQueue nm i p cap bytes sz sink)"
  by (simp add: queue_inv_def newQueue_def queue_defs)

lemma queue_inv_reset: "queue_inv (queue_reset q)"
  by (simp add: queue_inv_def queue_reset_def clearRuntimeFailureCode_def queue_defs)

lemma queue_inv_failure: "queue_inv (setRuntimeFailureCode c q) = queue_inv q"
  by (simp add: queue_inv_def setRuntimeFailureCode_def queue_defs)

lemma queue_inv_bind: "queue_inv (queue_bindSystem sys q) = queue_inv q"
  by (simp add: queue_inv_def queue_bindSystem_def queue_defs)

lemma queue_inv_push_field:
  "queue_inv q \<Longrightarrow> \<not> (occupied q \<ge> q_entryCapacity q \<or> exceedsByteCapacity q (occupied q + 1)) \<Longrightarrow>
   queue_inv (q\<lparr>q_pushProposals := q_pushProposals q @ [x]\<rparr>)"
  by (auto simp: queue_inv_def queue_defs split: if_splits)

lemma queue_inv_pop_field:
  "queue_inv q \<Longrightarrow> q_popProposalCount q < length (q_committed q) \<Longrightarrow>
   queue_inv (q\<lparr>q_popProposalCount := q_popProposalCount q + 1\<rparr>)"
  by (auto simp: queue_inv_def queue_defs split: if_splits)

lemma queue_inv_push: "queue_inv q \<Longrightarrow> queue_inv (fst (snd (proposePush api x q s)))"
  using queue_inv_push_field [of q x]
  by (simp add: proposePush_def split: prod.split bool.split)

lemma queue_inv_pop: "queue_inv q \<Longrightarrow> queue_inv (fst (snd (proposePop api q s)))"
  using queue_inv_pop_field [of q]
  by (simp add: proposePop_def split: prod.split bool.split)

lemma queue_inv_transfer:
  assumes "queue_inv a" and "queue_inv b" and "proposeTransferTo api a b s = (ok, a', b', s')"
  shows "queue_inv a' \<and> queue_inv b'"
proof -
  have "queue_inv (a\<lparr>q_popProposalCount := q_popProposalCount a + 1\<rparr>)"
    if "\<not> q_popProposalCount a \<ge> length (q_committed a)"
    using queue_inv_pop_field [OF assms(1)] that by simp
  moreover have "queue_inv (b\<lparr>q_pushProposals := q_pushProposals b @ [x]\<rparr>)"
    if "\<not> (occupied b \<ge> q_entryCapacity b \<or> exceedsByteCapacity b (occupied b + 1))" for x
    using queue_inv_push_field [OF assms(2) that] .
  ultimately show ?thesis
    using assms
    by (auto simp: proposeTransferTo_def queue_inv_failure
        split: if_splits prod.splits bool.splits)
qed

lemma queue_inv_emit: "queue_inv (fst (emitObservations api ps q s)) = queue_inv q"
  using emitObservations_object [of api ps q s] by (auto simp: queue_inv_failure)

lemma queue_inv_arbitrate: "queue_inv q \<Longrightarrow> queue_inv (fst (queue_doArbitrate api q s))"
  by (simp add: queue_doArbitrate_def queue_inv_emit)

lemma queue_inv_xfer: "queue_inv q \<Longrightarrow> queue_inv (queue_doXfer e q)"
proof -
  assume inv: "queue_inv q"
  then have le: "q_popProposalCount q \<le> length (q_committed q)"
    by (simp add: queue_inv_def)
  have "occupied (queue_doXfer e q) \<le> occupied q"
    using le by (simp add: queue_defs queue_doXfer_fields [OF le])
  moreover have "q_totalPushes (queue_doXfer e q) =
      q_totalPops (queue_doXfer e q) + of_nat (length (q_committed (queue_doXfer e q)))"
    using inv le by (simp add: queue_inv_def queue_doXfer_fields [OF le])
  ultimately show ?thesis
    using inv le by (auto simp: queue_inv_def queue_doXfer_fields [OF le] queue_defs split: if_splits)
qed

lemmas queue_inv_ops [gf_inv] =
  queue_inv_new queue_inv_reset queue_inv_push queue_inv_pop queue_inv_arbitrate queue_inv_xfer

lemma queue_inv_bytes:
  assumes "queue_inv q"
  shows "committedBytes q \<le> unat (q_byteCapacity q)"
proof (cases "q_serializedSize q = 0")
  case False
  let ?z = "q_serializedSize q"
  from assms False have "length (q_committed q) \<le> unat (q_byteCapacity q) div ?z"
    by (simp add: queue_inv_def queue_defs)
  then have "length (q_committed q) * ?z \<le> unat (q_byteCapacity q)"
    by (metis div_times_less_eq_dividend mult_le_mono1 order_trans)
  with unsigned_less [of "q_byteCapacity q", where ?'a = nat] False show ?thesis by (simp add: committedBytes_def)
qed (simp add: committedBytes_def)

section \<open>A FIFO channel\<close>

text \<open>
  The abstract specification: a channel has a visible content, a number of elements taken from
  its front since the last barrier and a list of elements waiting for the next barrier. A run of
  calls records what the channel accepted and what it delivered.
\<close>

datatype 'a channel_call = ChPush 'a | ChPop | ChBarrier epoch

fun channel_run ::
  "('a \<Rightarrow> 'q \<Rightarrow> bool \<times> 'q) \<Rightarrow> ('q \<Rightarrow> 'a option \<times> 'q) \<Rightarrow> (epoch \<Rightarrow> 'q \<Rightarrow> 'q)
   \<Rightarrow> 'a channel_call list \<Rightarrow> 'q \<Rightarrow> 'a list \<times> 'a list \<times> 'q" where
  "channel_run push pop barrier [] q = ([], [], q)"
| "channel_run push pop barrier (ChPush x # cs) q =
     (case push x q of (ok, q') \<Rightarrow> case channel_run push pop barrier cs q' of
        (acc, del, q'') \<Rightarrow> (if ok then x # acc else acc, del, q''))"
| "channel_run push pop barrier (ChPop # cs) q =
     (case pop q of (v, q') \<Rightarrow> case channel_run push pop barrier cs q' of
        (acc, del, q'') \<Rightarrow> (acc, case v of None \<Rightarrow> del | Some x \<Rightarrow> x # del, q''))"
| "channel_run push pop barrier (ChBarrier e # cs) q = channel_run push pop barrier cs (barrier e q)"

locale fifo_channel =
  fixes push :: "'a \<Rightarrow> 'q \<Rightarrow> bool \<times> 'q"
    and pop :: "'q \<Rightarrow> 'a option \<times> 'q"
    and barrier :: "epoch \<Rightarrow> 'q \<Rightarrow> 'q"
    and content :: "'q \<Rightarrow> 'a list"
    and taken :: "'q \<Rightarrow> nat"
    and waiting :: "'q \<Rightarrow> 'a list"
    and inv :: "'q \<Rightarrow> bool"
  assumes push_inv: "inv q \<Longrightarrow> push x q = (ok, q') \<Longrightarrow> inv q'"
    and push_effect: "inv q \<Longrightarrow> push x q = (ok, q') \<Longrightarrow>
      content q' = content q \<and> taken q' = taken q \<and>
      waiting q' = (if ok then waiting q @ [x] else waiting q)"
    and pop_inv: "inv q \<Longrightarrow> pop q = (v, q') \<Longrightarrow> inv q'"
    and pop_effect: "inv q \<Longrightarrow> pop q = (v, q') \<Longrightarrow>
      content q' = content q \<and> waiting q' = waiting q \<and>
      (case v of None \<Rightarrow> taken q' = taken q
       | Some x \<Rightarrow> taken q < length (content q) \<and> x = content q ! taken q \<and> taken q' = Suc (taken q))"
    and barrier_inv: "inv q \<Longrightarrow> inv (barrier e q)"
    and barrier_effect: "inv q \<Longrightarrow>
      content (barrier e q) = drop (taken q) (content q) @ waiting q \<and>
      taken (barrier e q) = 0 \<and> waiting (barrier e q) = []"
begin

definition backlog :: "'q \<Rightarrow> 'a list" where
  "backlog q = drop (taken q) (content q) @ waiting q"

lemma backlog_push: "inv q \<Longrightarrow> push x q = (ok, q') \<Longrightarrow>
    backlog q' = (if ok then backlog q @ [x] else backlog q)"
  using push_effect [of q x ok q'] by (simp add: backlog_def)

lemma backlog_pop: "inv q \<Longrightarrow> pop q = (v, q') \<Longrightarrow>
    backlog q = (case v of None \<Rightarrow> backlog q' | Some x \<Rightarrow> x # backlog q')"
  using pop_effect [of q v q']
  by (auto simp: backlog_def Cons_nth_drop_Suc [symmetric] split: option.splits)

lemma backlog_barrier: "inv q \<Longrightarrow> backlog (barrier e q) = backlog q"
  using barrier_effect [of q e] by (simp add: backlog_def)

lemma run_delivers_in_order:
  assumes "inv q" and "channel_run push pop barrier cs q = (acc, del, q')"
  shows "backlog q @ acc = del @ backlog q' \<and> inv q'"
  using assms
proof (induction cs arbitrary: q acc del q')
  case (Cons c cs)
  show ?case
  proof (cases c)
    case (ChPush x)
    obtain ok q1 where p: "push x q = (ok, q1)" by fastforce
    obtain acc1 del1 q2 where r: "channel_run push pop barrier cs q1 = (acc1, del1, q2)"
      by (metis prod_cases3)
    from Cons.IH [OF push_inv [OF Cons.prems(1) p] r] backlog_push [OF Cons.prems(1) p]
      Cons.prems(2) ChPush p r
    show ?thesis by (auto split: if_splits)
  next
    case ChPop
    obtain v q1 where p: "pop q = (v, q1)" by fastforce
    obtain acc1 del1 q2 where r: "channel_run push pop barrier cs q1 = (acc1, del1, q2)"
      by (metis prod_cases3)
    from Cons.IH [OF pop_inv [OF Cons.prems(1) p] r] backlog_pop [OF Cons.prems(1) p]
      Cons.prems(2) ChPop p r
    show ?thesis by (auto split: option.splits)
  next
    case (ChBarrier e)
    with Cons.IH [OF barrier_inv [OF Cons.prems(1)], of e acc del q'] Cons.prems
      backlog_barrier [OF Cons.prems(1), of e]
    show ?thesis by simp
  qed
qed simp

end

text \<open>
  A simulation queue together with the system it registers with is such a channel, whatever the
  system answers.
\<close>

definition chan_push :: "'s sim_api \<Rightarrow> 'a \<Rightarrow> 'a sim_queue \<times> 's \<Rightarrow> bool \<times> 'a sim_queue \<times> 's" where
  "chan_push api x qs = proposePush api x (fst qs) (snd qs)"

definition chan_pop :: "'s sim_api \<Rightarrow> 'a sim_queue \<times> 's \<Rightarrow> 'a option \<times> 'a sim_queue \<times> 's" where
  "chan_pop api qs = proposePop api (fst qs) (snd qs)"

definition chan_xfer :: "epoch \<Rightarrow> 'a sim_queue \<times> 's \<Rightarrow> 'a sim_queue \<times> 's" where
  "chan_xfer e qs = (queue_doXfer e (fst qs), snd qs)"

interpretation queue_channel: fifo_channel "chan_push api" "chan_pop api" chan_xfer
  "\<lambda>qs. q_committed (fst qs)" "\<lambda>qs. q_popProposalCount (fst qs)" "\<lambda>qs. q_pushProposals (fst qs)"
  "\<lambda>qs. queue_inv (fst qs)"
  for api :: "'s sim_api"
proof unfold_locales
  fix q q' :: "'a sim_queue \<times> 's" and x ok v e
  assume inv: "queue_inv (fst q)"
  show "queue_inv (fst q')" if "chan_push api x q = (ok, q')"
    using queue_inv_push [OF inv, of api x "snd q"] that by (simp add: chan_push_def)
  show "q_committed (fst q') = q_committed (fst q) \<and>
        q_popProposalCount (fst q') = q_popProposalCount (fst q) \<and>
        q_pushProposals (fst q') =
          (if ok then q_pushProposals (fst q) @ [x] else q_pushProposals (fst q))"
    if "chan_push api x q = (ok, q')"
    using that by (auto simp: chan_push_def proposePush_def split: if_splits prod.splits bool.splits)
  show "queue_inv (fst q')" if "chan_pop api q = (v, q')"
    using queue_inv_pop [OF inv, of api "snd q"] that by (simp add: chan_pop_def)
  show "q_committed (fst q') = q_committed (fst q) \<and> q_pushProposals (fst q') = q_pushProposals (fst q) \<and>
        (case v of None \<Rightarrow> q_popProposalCount (fst q') = q_popProposalCount (fst q)
         | Some x \<Rightarrow> q_popProposalCount (fst q) < length (q_committed (fst q)) \<and>
             x = q_committed (fst q) ! q_popProposalCount (fst q) \<and>
             q_popProposalCount (fst q') = Suc (q_popProposalCount (fst q)))"
    if "chan_pop api q = (v, q')"
    using that by (auto simp: chan_pop_def proposePop_def split: if_splits prod.splits bool.splits)
  show "queue_inv (fst (chan_xfer e q))"
    using queue_inv_xfer [OF inv] by (simp add: chan_xfer_def)
  show "q_committed (fst (chan_xfer e q)) =
          drop (q_popProposalCount (fst q)) (q_committed (fst q)) @ q_pushProposals (fst q) \<and>
        q_popProposalCount (fst (chan_xfer e q)) = 0 \<and> q_pushProposals (fst (chan_xfer e q)) = []"
    using inv queue_doXfer_fields [of "fst q" e] by (simp add: chan_xfer_def queue_inv_def)
qed

section \<open>Atomic transfers\<close>

lemma proposeTransferTo_cases:
  assumes "proposeTransferTo api a b s = (ok, a', b', s')"
  shows "if ok then q_popProposalCount a < length (q_committed a) \<and>
           \<not> (occupied b \<ge> q_entryCapacity b \<or> exceedsByteCapacity b (occupied b + 1)) \<and>
           a' = a\<lparr>q_popProposalCount := q_popProposalCount a + 1\<rparr> \<and>
           b' = b\<lparr>q_pushProposals := q_pushProposals b @ [q_committed a ! q_popProposalCount a]\<rparr>
         else b' = b \<and> (a' = a \<or> a' = setRuntimeFailureCode ''queue_transfer_system_mismatch'' a)"
  using assms
  by (auto simp: proposeTransferTo_def split: if_splits prod.splits bool.splits)

text \<open>Every value the two queues will hold once the barrier has committed them both.\<close>

definition after_barrier :: "'a sim_queue \<Rightarrow> 'a list" where
  "after_barrier q = drop (q_popProposalCount q) (q_committed q) @ q_pushProposals q"

lemma transfer_conserves:
  assumes "proposeTransferTo api a b s = (ok, a', b', s')"
  shows "mset (after_barrier a') + mset (after_barrier b') = mset (after_barrier a) + mset (after_barrier b)"
proof (cases ok)
  case True
  let ?n = "q_popProposalCount a" and ?xs = "q_committed a"
  from proposeTransferTo_cases [OF assms] True have n: "?n < length ?xs"
    and a': "a' = a\<lparr>q_popProposalCount := ?n + 1\<rparr>"
    and b': "b' = b\<lparr>q_pushProposals := q_pushProposals b @ [?xs ! ?n]\<rparr>" by auto
  from n have "drop ?n ?xs = ?xs ! ?n # drop (Suc ?n) ?xs"
    by (simp add: Cons_nth_drop_Suc)
  with a' b' show ?thesis by (simp add: after_barrier_def)
next
  case False
  with proposeTransferTo_cases [OF assms] show ?thesis
    by (auto simp: after_barrier_def setRuntimeFailureCode_def)
qed

section \<open>Free space\<close>

fun push_all :: "'s sim_api \<Rightarrow> 'a list \<Rightarrow> 'a sim_queue \<Rightarrow> 's \<Rightarrow> bool" where
  "push_all api [] q s = True"
| "push_all api (x # xs) q s =
     (case proposePush api x q s of (ok, q', s') \<Rightarrow> ok \<and> push_all api xs q' s')"

lemma space_eq:
  assumes "q_entryCapacity q < 2 ^ 31"
  shows "space q = int (q_entryCapacity q - occupied q)"
proof -
  have "signed_take_bit 31 (int (q_entryCapacity q - occupied q)) = int (q_entryCapacity q - occupied q)"
    using assms by (intro signed_take_bit_int_eq_self) auto
  then show ?thesis by (simp add: space_def signed_of_nat del: of_nat_diff)
qed

definition bytes_never_bind :: "('a, 'z) sim_queue_scheme \<Rightarrow> bool" where
  "bytes_never_bind q \<longleftrightarrow>
     q_serializedSize q = 0 \<or> q_entryCapacity q \<le> unat (q_byteCapacity q) div q_serializedSize q"

lemma push_all_space:
  assumes "q_system q = None" and "bytes_never_bind q"
  shows "push_all api xs q s \<longleftrightarrow> length xs \<le> q_entryCapacity q - occupied q"
  using assms
proof (induction xs arbitrary: q)
  case (Cons x xs)
  let ?q = "q\<lparr>q_pushProposals := q_pushProposals q @ [x]\<rparr>"
  show ?case
  proof (cases "occupied q < q_entryCapacity q")
    case True
    with Cons.prems have "proposePush api x q s = (True, ?q, s)"
      by (auto simp: proposePush_def registered_def bytes_never_bind_def exceedsByteCapacity_def)
    moreover have "push_all api xs ?q s \<longleftrightarrow> length xs \<le> q_entryCapacity ?q - occupied ?q"
      using Cons.prems by (intro Cons.IH) (simp_all add: bytes_never_bind_def)
    moreover have "occupied ?q = Suc (occupied q)" by (simp add: queue_defs)
    ultimately show ?thesis using True by auto
  qed (simp add: proposePush_def)
qed simp

lemma link_doWork_repeat:
  "ql_lastWorkEpoch l = Some e \<Longrightarrow> link_doWork api e l a b s = (l, a, b, s)"
  by (simp add: link_doWork_def)

lemma link_doWork_stamps:
  "link_doWork api e l a b s = (l', a', b', s') \<Longrightarrow> ql_lastWorkEpoch l' = Some e"
  by (auto simp: link_doWork_def Let_def setRuntimeFailureCode_def
      split: if_splits prod.splits bool.splits)

text \<open>
  The situation the compiler establishes for a link: both queues belong to the link's system and
  nobody else has proposed a pop at the source or a push at the destination.
\<close>

definition link_sole_proposer ::
  "'z queue_link_scheme \<Rightarrow> 'a sim_queue \<Rightarrow> 'a sim_queue \<Rightarrow> bool" where
  "link_sole_proposer l a b \<longleftrightarrow>
     q_system a = q_system b \<and> q_popProposalCount a = 0 \<and> q_pushProposals b = []"

lemma link_sole_proposer_transfers:
  assumes "link_sole_proposer l a b" and "ql_lastWorkEpoch l \<noteq> Some e"
    and "\<And>i s. fst (api_registerCommitParticipant api i s)"
    and "link_doWork api e l a b s = (l', a', b', s')"
  shows "so_runtimeFailureCode l' = so_runtimeFailureCode l \<and>
         (if isEmpty a \<or> isFull b then a' = a \<and> b' = b \<and> ql_pendingTransfer l' = ql_pendingTransfer l
          else ql_pendingTransfer l' \<and> q_popProposalCount a' = 1 \<and> q_pushProposals b' = [hd (q_committed a)])"
proof -
  have reg: "\<exists>t'. registered api sys i t = (True, t')" for sys i t
    using assms(3) [of i t] by (auto simp: registered_def prod_eq_iff split: option.split)
  have room: "\<not> isFull b \<Longrightarrow> \<not> (occupied b \<ge> q_entryCapacity b \<or> exceedsByteCapacity b (occupied b + 1))"
    using assms(1) by (simp add: link_sole_proposer_def isFull_def queue_defs)
  have transfer: "\<exists>t'. proposeTransferTo api a b t =
      (True, a\<lparr>q_popProposalCount := 1\<rparr>, b\<lparr>q_pushProposals := [hd (q_committed a)]\<rparr>, t')"
    if "\<not> isEmpty a" "\<not> isFull b" for t
  proof -
    obtain t1 where "registered api (q_system a) (so_id a) t = (True, t1)" using reg by blast
    moreover obtain t2 where "registered api (q_system b) (so_id b) t1 = (True, t2)" using reg by blast
    ultimately show ?thesis
      using assms(1) that room [OF that(2)]
      by (simp add: proposeTransferTo_def link_sole_proposer_def isEmpty_def hd_conv_nth)
  qed
  obtain t1 where t1: "registered api (ql_system l) (so_id l) s = (True, t1)" using reg by blast
  show ?thesis
  proof (cases "isEmpty a \<or> isFull b")
    case True
    with assms(2,4) show ?thesis by (auto simp: link_doWork_def Let_def split: if_splits)
  next
    case False
    with transfer obtain t2 where "proposeTransferTo api a b t1 =
      (True, a\<lparr>q_popProposalCount := 1\<rparr>, b\<lparr>q_pushProposals := [hd (q_committed a)]\<rparr>, t2)" by blast
    with False assms(2,4) t1 show ?thesis by (auto simp: link_doWork_def Let_def)
  qed
qed

section \<open>Properties\<close>

text \<open>C8: From a new queue and through any sequence of push, pop and Xfer calls, whatever the
  system it is bound to answers, the elements accepted so far are the elements delivered so far
  followed by those still in the queue, in order: every accepted element is delivered exactly
  once, first in first out.\<close>

theorem queue_fifo_exactly_once:
  "case channel_run (chan_push api) (chan_pop api) chan_xfer cs
          (queue_bindSystem sys (newQueue nm i p cap bytes sz sink), s) of
     (accepted, delivered, q, s') \<Rightarrow> accepted = delivered @ after_barrier q"
proof -
  let ?q0 = "queue_bindSystem sys (newQueue nm i p cap bytes sz sink)"
  obtain acc del q s' where run:
    "channel_run (chan_push api) (chan_pop api) chan_xfer cs (?q0, s) = (acc, del, q, s')"
    by (metis prod_cases4)
  have "queue_inv (fst (?q0, s))" by (simp add: queue_inv_bind queue_inv_new)
  from queue_channel.run_delivers_in_order [OF this run] run show ?thesis
    by (simp add: queue_channel.backlog_def after_barrier_def queue_bindSystem_def newQueue_def)
qed

text \<open>C9: Through any sequence of calls the occupancy (committed plus proposed pushes) stays within
  the entry capacity, the committed bytes within the byte capacity, pending pops never exceed the
  committed elements, the peak statistic lies between occupancy and capacity, and accepted
  transactions equal completed transactions plus occupancy modulo the 64-bit counters.\<close>

theorem queue_capacity_and_statistics:
  "case channel_run (chan_push api) (chan_pop api) chan_xfer cs
          (queue_bindSystem sys (newQueue nm i p cap bytes sz sink), s) of
     (accepted, delivered, q, s') \<Rightarrow>
        length (q_committed q) + length (q_pushProposals q) \<le> q_entryCapacity q \<and>
        q_popProposalCount q \<le> length (q_committed q) \<and>
        committedBytes q \<le> unat (q_byteCapacity q) \<and>
        length (q_committed q) \<le> q_highWatermark q \<and> q_highWatermark q \<le> q_entryCapacity q \<and>
        q_totalPushes q = q_totalPops q + of_nat (length (q_committed q))"
proof -
  let ?q0 = "queue_bindSystem sys (newQueue nm i p cap bytes sz sink)"
  obtain acc del q s' where run:
    "channel_run (chan_push api) (chan_pop api) chan_xfer cs (?q0, s) = (acc, del, q, s')"
    by (metis prod_cases4)
  have "queue_inv (fst (?q0, s))" by (simp add: queue_inv_bind queue_inv_new)
  from queue_channel.run_delivers_in_order [OF this run] have "queue_inv q" by simp
  with queue_inv_bytes [of q] run show ?thesis
    by (simp add: queue_inv_def queue_defs add.commute)
qed

text \<open>A transfer between two queues is all or nothing: it either takes the next committed element
  of the source and appends it to the destination's proposals, within the destination's capacity,
  or leaves both queues' contents as they were; in both cases the elements the two queues hold
  after the barrier are together the same multiset, and both invariants are kept.\<close>

theorem transfer_all_or_nothing:
  assumes "proposeTransferTo api a b s = (ok, a', b', s')" and "queue_inv a" and "queue_inv b"
  shows "(if ok
          then after_barrier a = hd (after_barrier a) # after_barrier a' \<and>
               after_barrier b' = after_barrier b @ [hd (after_barrier a)]
          else after_barrier a' = after_barrier a \<and> after_barrier b' = after_barrier b) \<and>
         queue_inv a' \<and> queue_inv b'"
proof -
  have "hd (after_barrier a) = q_committed a ! q_popProposalCount a \<and>
        after_barrier a = hd (after_barrier a) # after_barrier a'"
    if ok
    using proposeTransferTo_cases [OF assms(1)] that
    by (auto simp: after_barrier_def hd_append hd_drop_conv_nth Cons_nth_drop_Suc)
  moreover have "after_barrier b' = after_barrier b @ [q_committed a ! q_popProposalCount a]" if ok
    using proposeTransferTo_cases [OF assms(1)] assms(3) that
    by (auto simp: after_barrier_def queue_inv_def)
  moreover have "after_barrier a' = after_barrier a \<and> after_barrier b' = after_barrier b" if "\<not> ok"
    using proposeTransferTo_cases [OF assms(1)] that
    by (auto simp: after_barrier_def setRuntimeFailureCode_def)
  ultimately show ?thesis
    using queue_inv_transfer [OF assms(2,3,1)] by auto
qed

definition sample_source :: "u64 sim_queue" where
  "sample_source = (newQueue ''a'' 0 None 4 64 8 None)
     \<lparr>q_committed := [7, 9], q_highWatermark := 2, q_totalPushes := 2\<rparr>"

definition sample_destination :: "u64 sim_queue" where
  "sample_destination = (newQueue ''b'' 1 None 2 64 8 None)
     \<lparr>q_committed := [5], q_highWatermark := 1, q_totalPushes := 1\<rparr>"

lemmas sample_defs = permissive_api_def sample_source_def sample_destination_def newQueue_def

theorem transfer_all_or_nothing_witness:
  "\<exists>a' b'. proposeTransferTo permissive_api sample_source sample_destination () = (True, a', b', ()) \<and>
     after_barrier a' = [9] \<and> after_barrier b' = [5, 7] \<and> queue_inv a' \<and> queue_inv b'"
proof -
  have inv: "queue_inv sample_source" "queue_inv sample_destination"
    by (simp_all add: queue_inv_def queue_defs sample_defs)
  obtain a' b' where t: "proposeTransferTo permissive_api sample_source sample_destination () = (True, a', b', ())"
    by (simp add: proposeTransferTo_def queue_defs sample_defs registered_def)
  have "after_barrier sample_source = [7, 9]" "after_barrier sample_destination = [5]"
    by (simp_all add: after_barrier_def sample_defs)
  with transfer_all_or_nothing [OF t inv] t show ?thesis by auto
qed

text \<open>A link whose compiler-established conditions hold (both queues in one system, no other pop
  proposer at the source, no other push proposer at the destination) and whose registrations are
  accepted never reports a failure at a fresh epoch: it stalls without touching the queues exactly
  when the source is empty or the destination full, and otherwise proposes the transfer of the
  source's head.\<close>

theorem queue_link_work:
  assumes "link_sole_proposer l a b" and "ql_lastWorkEpoch l \<noteq> Some e"
    and "\<And>i s. fst (api_registerCommitParticipant api i s)"
    and "link_doWork api e l a b s = (l', a', b', s')"
  shows "so_runtimeFailureCode l' = so_runtimeFailureCode l \<and> ql_lastWorkEpoch l' = Some e \<and>
         (if isEmpty a \<or> isFull b then a' = a \<and> b' = b \<and> ql_pendingTransfer l' = ql_pendingTransfer l
          else ql_pendingTransfer l' \<and> q_popProposalCount a' = 1 \<and>
               q_pushProposals b' = [hd (q_committed a)]) \<and>
         link_doWork api e l' a' b' s' = (l', a', b', s')"
  using link_sole_proposer_transfers [OF assms] link_doWork_stamps [OF assms(4)]
    link_doWork_repeat [of l' e api a' b' s'] by auto

theorem queue_link_work_witness:
  "\<exists>l' a' b'. link_doWork permissive_api (Epoch 3 0) (newQueueLink ''l'' 2 None 0 1)
       sample_source sample_destination () = (l', a', b', ()) \<and>
     ql_pendingTransfer l' \<and> q_pushProposals b' = [7]"
proof -
  let ?l = "newQueueLink ''l'' 2 None 0 1"
  obtain l' a' b' where w:
    "link_doWork permissive_api (Epoch 3 0) ?l sample_source sample_destination () = (l', a', b', ())"
    by (metis prod_cases4 old.unit.exhaust)
  have sole: "link_sole_proposer ?l sample_source sample_destination"
    by (simp add: link_sole_proposer_def sample_defs)
  have fresh: "ql_lastWorkEpoch ?l \<noteq> Some (Epoch 3 0)" by (simp add: newQueueLink_def)
  have reg: "fst (api_registerCommitParticipant permissive_api i s)" for i s
    by (simp add: permissive_api_def)
  have "\<not> isEmpty sample_source" "\<not> isFull sample_destination" "hd (q_committed sample_source) = 7"
    by (simp_all add: isEmpty_def isFull_def queue_defs sample_defs)
  with queue_link_work [OF sole fresh reg w] w show ?thesis by auto
qed

text \<open>Where the byte capacity can never bind and the entry capacity fits in 31 bits, \<open>space\<close> is
  exactly the number of pushes the queue accepts in this epoch.\<close>

theorem space_counts_pushes:
  assumes "q_system q = None" and "bytes_never_bind q" and "q_entryCapacity q < 2 ^ 31"
  shows "push_all api xs q s \<longleftrightarrow> int (length xs) \<le> space q"
  using push_all_space [OF assms(1,2), of api xs s] by (simp add: space_eq [OF assms(3)])

theorem space_counts_pushes_witness:
  "push_all permissive_api [1, 2, 3 :: u64] (newQueue ''q'' 0 None 3 64 8 None) () \<and>
   \<not> push_all permissive_api [1, 2, 3, 4 :: u64] (newQueue ''q'' 0 None 3 64 8 None) ()"
proof -
  let ?q = "newQueue ''q'' 0 None 3 64 8 None :: u64 sim_queue"
  have h: "q_system ?q = None" "bytes_never_bind ?q" "q_entryCapacity ?q < 2 ^ 31"
    by (simp_all add: newQueue_def bytes_never_bind_def)
  have "space ?q = 3" by (simp add: space_eq newQueue_def queue_defs)
  with space_counts_pushes [OF h, of permissive_api "[1, 2, 3]" "()"]
    space_counts_pushes [OF h, of permissive_api "[1, 2, 3, 4]" "()"]
  show ?thesis by simp
qed

text \<open>C35: \<open>space\<close> ignores the byte capacity: there is a queue satisfying its invariant that reports free
  entry slots while its very next push is refused because the bytes are used up, although the
  runtime contract says that \<open>space\<close> is 0 when a byte capacity binds first.\<close>

theorem space_ignores_byte_capacity:
  "\<exists>q :: u64 sim_queue. queue_inv q \<and> space q = 3 \<and> fst (proposePush permissive_api 1 q ()) = False"
proof -
  let ?q = "(newQueue ''q'' 0 None 4 8 8 None)
     \<lparr>q_committed := [5 :: u64], q_highWatermark := 1, q_totalPushes := 1\<rparr>"
  have "queue_inv ?q \<and> space ?q = 3 \<and> fst (proposePush permissive_api 1 ?q ()) = False"
    by (simp add: queue_inv_def queue_defs newQueue_def space_def proposePush_def)
  then show ?thesis by blast
qed

end
