(* ===== verification/State_Array.thy ===== *)
theory State_Array
  imports Sim_Object
begin

text \<open>
  \<open>StateArray\<close> of \<open>include/gfsim/queue.h\<close>: indexed state behind explicit read and write
  ports. Reads see the committed snapshot, writes are proposals. The invariant ties the
  bookkeeping vectors (port addresses, used ports, proposal slots) to the proposals, from which
  the two guarantees of the component follow: two accepted writes of an epoch never share a port
  or an entry, and the Xfer barrier installs exactly the accepted writes or, after any port
  violation, none of them.
\<close>

record 'a state_array = sim_object +
  sa_committed :: "'a list"
  sa_readPortAddress :: "nat option list"
  sa_writePortUsed :: "bool list"
  sa_proposals :: "(nat \<times> 'a) list"
  sa_proposalSlotByEntry :: "int list"
  sa_touchedReadPorts :: "nat list"
  sa_touchedWritePorts :: "nat list"
  sa_registeredEpoch :: "epoch option"
  sa_committedWrites :: u64
  sa_lastUpdate :: epoch
  sa_system :: "ptr option"

definition newStateArray ::
  "string \<Rightarrow> object_id \<Rightarrow> ptr option \<Rightarrow> nat \<Rightarrow> nat \<Rightarrow> nat \<Rightarrow> ('a::zero) state_array" where
  "newStateArray nm i parent entries readPorts writePorts =
     \<lparr>so_kind = KMemory, so_name = nm, so_id = i, so_path = '''', so_parent = parent,
      so_observationSink = None, so_runtimeFailureCode = '''',
      sa_committed = replicate entries 0, sa_readPortAddress = replicate readPorts None,
      sa_writePortUsed = replicate writePorts False, sa_proposals = [],
      sa_proposalSlotByEntry = replicate entries (- 1), sa_touchedReadPorts = [],
      sa_touchedWritePorts = [], sa_registeredEpoch = None, sa_committedWrites = 0,
      sa_lastUpdate = epoch0, sa_system = None\<rparr>"

section \<open>Operations\<close>

definition ensureRegistered ::
  "'s sim_api \<Rightarrow> ('a, 'z) state_array_scheme \<Rightarrow> 's \<Rightarrow> bool \<times> ('a, 'z) state_array_scheme \<times> 's" where
  "ensureRegistered api a s =
     (case sa_system a of None \<Rightarrow> (True, a, s)
      | Some _ \<Rightarrow>
         (let epoch = api_currentEpoch api s in
          if sa_registeredEpoch a = Some epoch then (True, a, s)
          else case api_registerCommitParticipant api (so_id a) s of
            (False, s') \<Rightarrow> (False, a, s')
          | (True, s') \<Rightarrow> (True, a\<lparr>sa_registeredEpoch := Some epoch\<rparr>, s')))"

definition array_read ::
  "'s sim_api \<Rightarrow> int \<Rightarrow> int \<Rightarrow> ('a::zero, 'z) state_array_scheme \<Rightarrow> 's
   \<Rightarrow> 'a \<times> ('a, 'z) state_array_scheme \<times> 's" where
  "array_read api index port a0 s0 =
     (case ensureRegistered api a0 s0 of
        (False, a, s) \<Rightarrow> (0, setRuntimeFailureCode ''state_array_participant_registration_failed'' a, s)
      | (True, a, s) \<Rightarrow>
          if index < 0 \<or> nat index \<ge> length (sa_committed a)
          then (0, setRuntimeFailureCode ''state_array_index_out_of_bounds'' a, s)
          else if port < 0 \<or> nat port \<ge> length (sa_readPortAddress a)
          then (0, setRuntimeFailureCode ''state_array_read_port_out_of_bounds'' a, s)
          else if sa_readPortAddress a ! nat port \<noteq> None \<and>
                  sa_readPortAddress a ! nat port \<noteq> Some (nat index)
          then (0, setRuntimeFailureCode ''state_array_read_port_reused'' a, s)
          else (sa_committed a ! nat index,
                a\<lparr>sa_touchedReadPorts := (if sa_readPortAddress a ! nat port = None
                     then sa_touchedReadPorts a @ [nat port] else sa_touchedReadPorts a),
                  sa_readPortAddress := (sa_readPortAddress a)[nat port := Some (nat index)]\<rparr>, s))"

definition array_proposeWrite ::
  "'s sim_api \<Rightarrow> int \<Rightarrow> 'a \<Rightarrow> bool \<Rightarrow> int \<Rightarrow> ('a, 'z) state_array_scheme \<Rightarrow> 's
   \<Rightarrow> ('a, 'z) state_array_scheme \<times> 's" where
  "array_proposeWrite api index v enable port a0 s0 =
     (if \<not> enable then (a0, s0)
      else case ensureRegistered api a0 s0 of
        (False, a, s) \<Rightarrow> (setRuntimeFailureCode ''state_array_participant_registration_failed'' a, s)
      | (True, a, s) \<Rightarrow>
          if index < 0 \<or> nat index \<ge> length (sa_committed a)
          then (setRuntimeFailureCode ''state_array_index_out_of_bounds'' a, s)
          else if port < 0 \<or> nat port \<ge> length (sa_writePortUsed a)
          then (setRuntimeFailureCode ''state_array_write_port_out_of_bounds'' a, s)
          else if sa_writePortUsed a ! nat port
          then (setRuntimeFailureCode ''state_array_write_port_reused'' a, s)
          else if sa_proposalSlotByEntry a ! nat index \<ge> 0
          then (setRuntimeFailureCode ''state_array_write_conflict'' a, s)
          else (a\<lparr>sa_writePortUsed := (sa_writePortUsed a)[nat port := True],
                  sa_touchedWritePorts := sa_touchedWritePorts a @ [nat port],
                  sa_proposalSlotByEntry := (sa_proposalSlotByEntry a)
                     [nat index := sint (word_of_nat (length (sa_proposals a)) :: 32 word)],
                  sa_proposals := sa_proposals a @ [(nat index, v)]\<rparr>, s))"

definition array_hasPendingCommit :: "('a, 'z) state_array_scheme \<Rightarrow> bool" where
  "array_hasPendingCommit a \<longleftrightarrow> sa_proposals a \<noteq> []"

definition array_doXfer :: "epoch \<Rightarrow> ('a, 'z) state_array_scheme \<Rightarrow> ('a, 'z) state_array_scheme" where
  "array_doXfer epoch a =
     (let a1 = (if so_runtimeFailureCode a = ''''
                then a\<lparr>sa_committedWrites := sa_committedWrites a + of_nat (length (sa_proposals a)),
                       sa_committed := fold (\<lambda>p xs. xs[fst p := snd p]) (sa_proposals a) (sa_committed a)\<rparr>
                else a);
          a2 = (if sa_proposals a1 \<noteq> [] then a1\<lparr>sa_lastUpdate := epoch\<rparr> else a1)
      in a2\<lparr>sa_proposalSlotByEntry :=
                fold (\<lambda>p xs. xs[fst p := - 1]) (sa_proposals a2) (sa_proposalSlotByEntry a2),
             sa_proposals := [],
             sa_readPortAddress :=
                fold (\<lambda>p xs. xs[p := None]) (sa_touchedReadPorts a2) (sa_readPortAddress a2),
             sa_writePortUsed :=
                fold (\<lambda>p xs. xs[p := False]) (sa_touchedWritePorts a2) (sa_writePortUsed a2),
             sa_touchedReadPorts := [], sa_touchedWritePorts := [], sa_registeredEpoch := None\<rparr>)"

definition array_runtimeState :: "('a, 'z) state_array_scheme \<Rightarrow> runtime_object_state" where
  "array_runtimeState a =
     (let base = base_runtimeState (array_hasPendingCommit a) False;
          quiescent = (sa_proposals a = [])
      in base\<lparr>ros_pendingOffers := length (sa_proposals a), ros_quiescent := quiescent,
              ros_reason := (if \<not> quiescent then ''pending_commit'' else ros_reason base)\<rparr>)"

definition array_collectStatistics :: "('a, 'z) state_array_scheme \<Rightarrow> stat_snapshot list" where
  "array_collectStatistics a =
     [plain_snapshot ''state_array_entries'' (so_path a) Gauge (of_nat (length (sa_committed a))) (sa_lastUpdate a),
      plain_snapshot ''state_array_committed_writes'' (so_path a) Counter (sa_committedWrites a) (sa_lastUpdate a)]"

definition array_bindSystem :: "ptr option \<Rightarrow> ('a, 'z) state_array_scheme \<Rightarrow> ('a, 'z) state_array_scheme" where
  "array_bindSystem system a = a\<lparr>sa_system := system\<rparr>"

definition array_reset :: "('a::zero, 'z) state_array_scheme \<Rightarrow> ('a, 'z) state_array_scheme" where
  "array_reset a = clearRuntimeFailureCode
     (a\<lparr>sa_committed := replicate (length (sa_committed a)) 0, sa_proposals := [],
        sa_readPortAddress := replicate (length (sa_readPortAddress a)) None,
        sa_writePortUsed := replicate (length (sa_writePortUsed a)) False,
        sa_proposalSlotByEntry := replicate (length (sa_proposalSlotByEntry a)) (- 1),
        sa_touchedReadPorts := [], sa_touchedWritePorts := [], sa_registeredEpoch := None,
        sa_committedWrites := 0, sa_lastUpdate := epoch0\<rparr>)"

section \<open>Invariant\<close>

definition array_inv :: "('a, 'z) state_array_scheme \<Rightarrow> bool" where
  "array_inv a \<longleftrightarrow>
     length (sa_proposalSlotByEntry a) = length (sa_committed a) \<and>
     length (sa_writePortUsed a) < 2 ^ 31 \<and>
     distinct (map fst (sa_proposals a)) \<and>
     (\<forall>i \<in> fst ` set (sa_proposals a). i < length (sa_committed a)) \<and>
     (\<forall>i < length (sa_committed a).
        sa_proposalSlotByEntry a ! i \<ge> 0 \<longleftrightarrow> i \<in> fst ` set (sa_proposals a)) \<and>
     (\<forall>i < length (sa_committed a).
        sa_proposalSlotByEntry a ! i < 0 \<longrightarrow> sa_proposalSlotByEntry a ! i = - 1) \<and>
     (\<forall>p < length (sa_readPortAddress a).
        sa_readPortAddress a ! p \<noteq> None \<longrightarrow> p \<in> set (sa_touchedReadPorts a)) \<and>
     distinct (sa_touchedWritePorts a) \<and>
     length (sa_touchedWritePorts a) = length (sa_proposals a) \<and>
     (\<forall>p \<in> set (sa_touchedWritePorts a). p < length (sa_writePortUsed a)) \<and>
     (\<forall>p < length (sa_writePortUsed a).
        sa_writePortUsed a ! p \<longleftrightarrow> p \<in> set (sa_touchedWritePorts a))"

lemma array_inv_parts:
  assumes "array_inv a"
  shows "length (sa_proposalSlotByEntry a) = length (sa_committed a)"
    and "distinct (map fst (sa_proposals a))"
    and "\<forall>i \<in> fst ` set (sa_proposals a). i < length (sa_committed a)"
    and "\<forall>p < length (sa_writePortUsed a). sa_writePortUsed a ! p \<longleftrightarrow> p \<in> set (sa_touchedWritePorts a)"
    and "distinct (sa_touchedWritePorts a)"
    and "length (sa_touchedWritePorts a) = length (sa_proposals a)"
  using assms unfolding array_inv_def by blast+

lemma array_inv_proposals_bound:
  assumes "array_inv a"
  shows "length (sa_proposals a) < 2 ^ 31"
proof -
  have "set (sa_touchedWritePorts a) \<subseteq> {..<length (sa_writePortUsed a)}"
    using assms by (auto simp: array_inv_def)
  from card_mono [OF _ this] have "card (set (sa_touchedWritePorts a)) \<le> length (sa_writePortUsed a)"
    by simp
  then have "length (sa_touchedWritePorts a) \<le> length (sa_writePortUsed a)"
    using assms by (simp add: array_inv_def distinct_card)
  with assms show ?thesis by (simp add: array_inv_def)
qed

lemma slot_nonneg:
  assumes "n < 2 ^ 31"
  shows "sint (word_of_nat n :: 32 word) \<ge> 0"
proof -
  have "signed_take_bit 31 (int n) = int n"
    using assms by (intro signed_take_bit_int_eq_self) auto
  then show ?thesis by (simp add: signed_of_nat)
qed

lemma array_inv_new: "w < 2 ^ 31 \<Longrightarrow> array_inv (newStateArray nm i p n r w)"
  by (simp add: array_inv_def newStateArray_def)

lemma array_inv_failure: "array_inv (setRuntimeFailureCode c a) = array_inv a"
  by (simp add: array_inv_def setRuntimeFailureCode_def)

lemma array_inv_registered: "array_inv (a\<lparr>sa_registeredEpoch := r\<rparr>) = array_inv a"
  by (simp add: array_inv_def)

lemma ensureRegistered_array:
  assumes "ensureRegistered api a s = (ok, a', s')"
  shows "a' = a \<or> (\<exists>e. a' = a\<lparr>sa_registeredEpoch := Some e\<rparr>)"
  using assms by (auto simp: ensureRegistered_def Let_def split: option.splits if_splits prod.splits bool.splits)

lemma ensureRegistered_inv:
  "ensureRegistered api a s = (ok, a', s') \<Longrightarrow> array_inv a' = array_inv a"
  using ensureRegistered_array [of api a s ok a' s'] by (auto simp: array_inv_registered)

lemma array_inv_read_field:
  assumes "array_inv a" and "p < length (sa_readPortAddress a)"
  shows "array_inv (a\<lparr>sa_touchedReadPorts := (if sa_readPortAddress a ! p = None
                     then sa_touchedReadPorts a @ [p] else sa_touchedReadPorts a),
                  sa_readPortAddress := (sa_readPortAddress a)[p := Some i]\<rparr>)"
  using assms by (auto simp: array_inv_def nth_list_update)

lemma array_inv_write_field:
  assumes inv: "array_inv a" and i: "i < length (sa_committed a)" and p: "p < length (sa_writePortUsed a)"
    and free: "\<not> sa_writePortUsed a ! p" "\<not> sa_proposalSlotByEntry a ! i \<ge> 0"
  shows "array_inv (a\<lparr>sa_writePortUsed := (sa_writePortUsed a)[p := True],
                  sa_touchedWritePorts := sa_touchedWritePorts a @ [p],
                  sa_proposalSlotByEntry := (sa_proposalSlotByEntry a)
                     [i := sint (word_of_nat (length (sa_proposals a)) :: 32 word)],
                  sa_proposals := sa_proposals a @ [(i, v)]\<rparr>)"
proof -
  from slot_nonneg [OF array_inv_proposals_bound [OF inv]]
  have slot: "sint (word_of_nat (length (sa_proposals a)) :: 32 word) \<ge> 0" .
  from inv free p have "p \<notin> set (sa_touchedWritePorts a)" by (simp add: array_inv_def)
  moreover from inv free i have "i \<notin> fst ` set (sa_proposals a)" by (simp add: array_inv_def)
  ultimately show ?thesis
    using inv i p slot unfolding array_inv_def by (auto simp: nth_list_update)
qed

lemma array_inv_read:
  assumes "array_inv a"
  shows "array_inv (fst (snd (array_read api index port a s)))"
proof -
  obtain ok a1 s1 where e: "ensureRegistered api a s = (ok, a1, s1)" by (metis prod_cases3)
  with assms have inv: "array_inv a1" by (simp add: ensureRegistered_inv)
  show ?thesis
    using e inv array_inv_read_field [OF inv, of "nat port" "nat index"]
    by (cases ok) (auto simp: array_read_def array_inv_failure split: if_splits)
qed

lemma array_inv_write:
  assumes "array_inv a"
  shows "array_inv (fst (array_proposeWrite api index v enable port a s))"
proof -
  obtain ok a1 s1 where e: "ensureRegistered api a s = (ok, a1, s1)" by (metis prod_cases3)
  with assms have inv: "array_inv a1" by (simp add: ensureRegistered_inv)
  show ?thesis
    using assms e inv array_inv_write_field [OF inv, of "nat index" "nat port" v]
    by (cases ok) (auto simp: array_proposeWrite_def array_inv_failure split: if_splits)
qed

lemma nth_fold_const_update:
  "i < length xs \<Longrightarrow> fold (\<lambda>p xs. xs[f p := c]) ps xs ! i = (if i \<in> f ` set ps then c else xs ! i)"
  by (induction ps arbitrary: xs) (auto simp: nth_list_update)

lemma length_fold_update [simp]: "length (fold (\<lambda>p xs. xs[f p := g p]) ps xs) = length xs"
  by (induction ps arbitrary: xs) auto

lemma nth_fold_update:
  assumes "i < length xs" and "distinct (map fst ps)"
  shows "fold (\<lambda>p xs. xs[fst p := snd p]) ps xs ! i =
         (case map_of ps i of Some v \<Rightarrow> v | None \<Rightarrow> xs ! i)"
  using assms
proof (induction ps arbitrary: xs)
  case (Cons p ps)
  then show ?case
    by (cases p) (auto simp: nth_list_update map_of_eq_None_iff [symmetric] split: option.splits)
qed simp

lemma array_doXfer_clears:
  assumes "array_inv a"
  shows "sa_proposals (array_doXfer e a) = []"
    and "i < length (sa_committed a) \<Longrightarrow> sa_proposalSlotByEntry (array_doXfer e a) ! i = - 1"
    and "p < length (sa_readPortAddress a) \<Longrightarrow> sa_readPortAddress (array_doXfer e a) ! p = None"
    and "p < length (sa_writePortUsed a) \<Longrightarrow> \<not> sa_writePortUsed (array_doXfer e a) ! p"
proof -
  show "sa_proposals (array_doXfer e a) = []" by (simp add: array_doXfer_def Let_def)
  show "sa_proposalSlotByEntry (array_doXfer e a) ! i = - 1" if "i < length (sa_committed a)"
    using assms that
    by (auto simp: array_doXfer_def Let_def nth_fold_const_update array_inv_def)
  show "sa_readPortAddress (array_doXfer e a) ! p = None" if "p < length (sa_readPortAddress a)"
    using assms that nth_fold_const_update [of p "sa_readPortAddress a" "\<lambda>x. x" None "sa_touchedReadPorts a"]
    by (auto simp: array_doXfer_def Let_def array_inv_def)
  show "\<not> sa_writePortUsed (array_doXfer e a) ! p" if "p < length (sa_writePortUsed a)"
    using assms that nth_fold_const_update [of p "sa_writePortUsed a" "\<lambda>x. x" False "sa_touchedWritePorts a"]
    by (auto simp: array_doXfer_def Let_def array_inv_def)
qed

lemma array_doXfer_lengths [simp]:
  "length (sa_committed (array_doXfer e a)) = length (sa_committed a)"
  "length (sa_proposalSlotByEntry (array_doXfer e a)) = length (sa_proposalSlotByEntry a)"
  "length (sa_readPortAddress (array_doXfer e a)) = length (sa_readPortAddress a)"
  "length (sa_writePortUsed (array_doXfer e a)) = length (sa_writePortUsed a)"
  "sa_touchedReadPorts (array_doXfer e a) = []"
  "sa_touchedWritePorts (array_doXfer e a) = []"
  using length_fold_update [where f = "\<lambda>x. x" and g = "\<lambda>_. None"]
    length_fold_update [where f = "\<lambda>x. x" and g = "\<lambda>_. False"]
    length_fold_update [where f = fst and g = "\<lambda>_. - 1 :: int"]
    length_fold_update [where f = fst and g = snd]
  by (simp_all add: array_doXfer_def Let_def)

lemma array_inv_xfer: "array_inv a \<Longrightarrow> array_inv (array_doXfer e a)"
  unfolding array_inv_def [of "array_doXfer e a"]
  using array_doXfer_clears [of a] by (auto simp: array_inv_def)

lemma array_inv_reset: "array_inv a \<Longrightarrow> array_inv (array_reset a)"
  by (simp add: array_inv_def array_reset_def clearRuntimeFailureCode_def)

lemmas array_inv_ops [gf_inv] =
  array_inv_new array_inv_read array_inv_write array_inv_xfer array_inv_reset

section \<open>Runs\<close>

datatype 'a array_call = CallRead int int | CallWrite int 'a bool int | CallXfer epoch | CallArrayReset

fun array_apply ::
  "'s sim_api \<Rightarrow> ('a::zero) array_call \<Rightarrow> 'a state_array \<times> 's \<Rightarrow> 'a state_array \<times> 's" where
  "array_apply api (CallRead index port) (a, s) = snd (array_read api index port a s)"
| "array_apply api (CallWrite index v enable port) (a, s) = array_proposeWrite api index v enable port a s"
| "array_apply api (CallXfer e) (a, s) = (array_doXfer e a, s)"
| "array_apply api CallArrayReset (a, s) = (array_reset a, s)"

lemma array_inv_run: "array_inv (fst as) \<Longrightarrow> array_inv (fst (fold (array_apply api) cs as))"
proof (induction cs arbitrary: as)
  case (Cons c cs)
  obtain a s where as: "as = (a, s)" by fastforce
  from Cons.prems as have "array_inv (fst (array_apply api c as))"
    by (cases c) (simp_all add: array_inv_ops)
  with Cons.IH show ?case by simp
qed simp

section \<open>Properties\<close>

text \<open>Through any sequence of reads, writes, Xfers and resets on a new array with fewer than
  \<open>2^31\<close> write ports, the writes pending in an epoch go to pairwise distinct entries inside the
  array, through pairwise distinct ports, one port per write.\<close>

theorem state_array_write_ports:
  assumes "writePorts < 2 ^ 31"
  shows "case fold (array_apply api) cs
            (array_bindSystem sys (newStateArray nm i p entries readPorts writePorts), s) of
           (a, s') \<Rightarrow> distinct (map fst (sa_proposals a)) \<and>
             (\<forall>q \<in> set (sa_proposals a). fst q < length (sa_committed a)) \<and>
             distinct (sa_touchedWritePorts a) \<and>
             length (sa_touchedWritePorts a) = length (sa_proposals a)"
proof -
  let ?a = "array_bindSystem sys (newStateArray nm i p entries readPorts writePorts)"
  have "array_inv ?a"
    using array_inv_new [OF assms, of nm i p entries readPorts]
    by (simp add: array_inv_def array_bindSystem_def)
  moreover obtain a s' where r: "fold (array_apply api) cs (?a, s) = (a, s')" by fastforce
  ultimately have "array_inv a" using array_inv_run [of "(?a, s)" api cs] by simp
  from array_inv_parts [OF this] show ?thesis by (simp add: r)
qed

theorem state_array_write_ports_witness:
  "case fold (array_apply permissive_api)
      [CallWrite 1 (5 :: u64) True 0, CallWrite 1 6 True 1, CallWrite 2 7 True 1]
      (array_bindSystem None (newStateArray ''m'' 0 None 4 1 2), ()) of
     (a, s') \<Rightarrow> distinct (map fst (sa_proposals a)) \<and> sa_proposals a = [(1, 5), (2, 7)]"
proof -
  let ?cs = "[CallWrite 1 (5 :: u64) True 0, CallWrite 1 6 True 1, CallWrite 2 7 True 1]"
  let ?a = "array_bindSystem None (newStateArray ''m'' 0 None 4 1 2)"
  have h: "(2 :: nat) < 2 ^ 31" by simp
  have "sa_proposals (fst (fold (array_apply permissive_api) ?cs (?a, ()))) = [(1, 5), (2, 7)]"
    by (simp add: array_proposeWrite_def ensureRegistered_def array_bindSystem_def newStateArray_def
        setRuntimeFailureCode_def)
  with state_array_write_ports [OF h, of permissive_api ?cs None "''m''" 0 None 4 1 "()"]
  show ?thesis by (auto split: prod.splits)
qed

text \<open>At the Xfer barrier an array whose epoch had no violation holds, at every entry, the value
  written to it or else its old value; after a violation it holds exactly the old values. In both
  cases the array keeps its size, every port is free again and no write stays pending.\<close>

theorem state_array_xfer_installs:
  assumes "array_inv a" and "i < length (sa_committed a)"
  shows "sa_committed (array_doXfer e a) ! i =
           (if so_runtimeFailureCode a = ''''
            then (case map_of (sa_proposals a) i of Some v \<Rightarrow> v | None \<Rightarrow> sa_committed a ! i)
            else sa_committed a ! i) \<and>
         sa_proposals (array_doXfer e a) = [] \<and>
         list_all (\<lambda>u. \<not> u) (sa_writePortUsed (array_doXfer e a)) \<and>
         list_all (\<lambda>r. r = None) (sa_readPortAddress (array_doXfer e a)) \<and>
         array_inv (array_doXfer e a)"
proof -
  have "sa_committed (array_doXfer e a) ! i =
      (if so_runtimeFailureCode a = ''''
       then (case map_of (sa_proposals a) i of Some v \<Rightarrow> v | None \<Rightarrow> sa_committed a ! i)
       else sa_committed a ! i)"
    using nth_fold_update [OF assms(2) array_inv_parts(2) [OF assms(1)]]
    by (simp add: array_doXfer_def Let_def)
  with array_doXfer_clears [OF assms(1)] array_inv_xfer [OF assms(1), of e] show ?thesis
    by (simp add: list_all_length)
qed

theorem state_array_xfer_installs_witness:
  "sa_committed (array_doXfer (Epoch 1 0)
     (fst (array_proposeWrite permissive_api 2 (9 :: u64) True 0 (newStateArray ''m'' 0 None 4 1 1) ()))) ! 2 = 9"
proof -
  let ?a = "newStateArray ''m'' 0 None 4 1 1 :: u64 state_array"
  let ?w = "fst (array_proposeWrite permissive_api 2 9 True 0 ?a ())"
  have inv: "array_inv ?w"
    by (rule array_inv_write, rule array_inv_new) simp
  have w: "2 < length (sa_committed ?w)" "so_runtimeFailureCode ?w = ''''" "map_of (sa_proposals ?w) 2 = Some 9"
    by (simp_all add: array_proposeWrite_def ensureRegistered_def newStateArray_def)
  from state_array_xfer_installs [OF inv w(1), of "Epoch 1 0"] w show ?thesis by simp
qed

text \<open>A read that reports no violation returns the committed value of its entry, whatever writes
  are pending, and leaves committed values and pending writes alone; a repeated read of the same
  entry through the same port is answered again, while another entry through the port is refused.\<close>

theorem state_array_read_snapshot:
  assumes "sa_system a = None" and "0 \<le> index" and "nat index < length (sa_committed a)"
    and "0 \<le> port" and "nat port < length (sa_readPortAddress a)"
    and "sa_readPortAddress a ! nat port = None \<or> sa_readPortAddress a ! nat port = Some (nat index)"
  shows "\<exists>a'. array_read api index port a s = (sa_committed a ! nat index, a', s) \<and>
           sa_committed a' = sa_committed a \<and> sa_proposals a' = sa_proposals a \<and>
           array_read api index port a' s = (sa_committed a ! nat index, a', s) \<and>
           (\<forall>other. 0 \<le> other \<and> nat other < length (sa_committed a) \<and> other \<noteq> index \<longrightarrow>
              array_read api other port a' s =
                (0, setRuntimeFailureCode ''state_array_read_port_reused'' a', s))"
  using assms
  by (auto simp: array_read_def ensureRegistered_def nat_eq_iff2 list_update_overwrite)

theorem state_array_read_snapshot_witness:
  "\<exists>a'. array_read permissive_api 1 0
      (fst (array_proposeWrite permissive_api 1 (9 :: u64) True 0 (newStateArray ''m'' 0 None 4 1 1) ())) ()
      = (0, a', ()) \<and> sa_proposals a' = [(1, 9)]"
proof -
  let ?w = "fst (array_proposeWrite permissive_api 1 (9 :: u64) True 0 (newStateArray ''m'' 0 None 4 1 1) ())"
  have w: "?w = (newStateArray ''m'' 0 None 4 1 1)\<lparr>sa_writePortUsed := [True], sa_touchedWritePorts := [0],
      sa_proposalSlotByEntry := [- 1, 0, - 1, - 1], sa_proposals := [(1, 9)]\<rparr>"
    by (simp add: array_proposeWrite_def ensureRegistered_def newStateArray_def numeral_eq_Suc)
  have "sa_system ?w = None" "(0 :: int) \<le> 1" "nat 1 < length (sa_committed ?w)" "(0 :: int) \<le> 0"
    "nat 0 < length (sa_readPortAddress ?w)"
    "sa_readPortAddress ?w ! nat 0 = None \<or> sa_readPortAddress ?w ! nat 0 = Some (nat 1)"
    unfolding w by (simp_all add: newStateArray_def)
  from state_array_read_snapshot [OF this, of permissive_api "()"] show ?thesis
    unfolding w by (auto simp: newStateArray_def)
qed

end
