(* ===== verification/Resource.thy ===== *)
theory Resource
  imports Sim_Object
begin

text \<open>
  The shared resource of \<open>include/gfsim/resource.h\<close>: owners propose reservations, releases and
  cancellations; arbitration accepts reservation proposals greedily in a total priority order
  against the committed free capacity; the Xfer barrier installs the outcome. The lemmas show
  that the capacity is never exceeded, that the class's own \<open>validate\<close> always succeeds, that
  the three counters account for the capacity in use, and that arbitration does not depend on
  the order of the proposals.
\<close>

section \<open>State\<close>

record reservation =
  rv_ownerId :: object_id
  rv_amount :: u32
  rv_issueTime :: epoch
  rv_readyTime :: epoch
  rv_transactionId :: u64
  rv_rootTransactionId :: u64
  rv_priority :: u32
  rv_portIndex :: u32
  rv_instanceIndex :: u32

record release_proposal =
  rp_ownerId :: object_id
  rp_amount :: u32

record resource = sim_object +
  rs_totalCapacity :: u32
  rs_activeCapacity :: u32
  rs_highWatermark :: u32
  rs_totalReservations :: u64
  rs_totalReleases :: u64
  rs_totalCancellations :: u64
  rs_proposals :: "reservation list"
  rs_acceptedProposals :: "reservation list"
  rs_rejectedTransactions :: "u64 list"
  rs_proposedRejectedTransactions :: "u64 list"
  rs_releaseProposals :: "release_proposal list"
  rs_cancellationProposals :: "u64 list"
  rs_reservations :: "(u64 \<times> reservation) list"
  rs_lastUpdate :: epoch

definition newResource ::
  "string \<Rightarrow> object_id \<Rightarrow> ptr option \<Rightarrow> u32 \<Rightarrow> ptr option \<Rightarrow> resource" where
  "newResource nm i parent totalCapacity sink =
     \<lparr>so_kind = KResource, so_name = nm, so_id = i, so_path = '''', so_parent = parent,
      so_observationSink = sink, so_runtimeFailureCode = '''',
      rs_totalCapacity = totalCapacity, rs_activeCapacity = 0, rs_highWatermark = 0,
      rs_totalReservations = 0, rs_totalReleases = 0, rs_totalCancellations = 0,
      rs_proposals = [], rs_acceptedProposals = [], rs_rejectedTransactions = [],
      rs_proposedRejectedTransactions = [], rs_releaseProposals = [],
      rs_cancellationProposals = [], rs_reservations = [], rs_lastUpdate = epoch0\<rparr>"

section \<open>Queries\<close>

definition availableCapacity :: "'z resource_scheme \<Rightarrow> u32" where
  "availableCapacity r = rs_totalCapacity r - rs_activeCapacity r"

definition canReserve :: "u32 \<Rightarrow> 'z resource_scheme \<Rightarrow> bool" where
  "canReserve amount r \<longleftrightarrow> amount \<noteq> 0 \<and> availableCapacity r \<ge> amount"

definition hasReservation :: "u64 \<Rightarrow> 'z resource_scheme \<Rightarrow> bool" where
  "hasReservation tid r \<longleftrightarrow> map_of (rs_reservations r) tid \<noteq> None"

definition findReservation :: "u64 \<Rightarrow> 'z resource_scheme \<Rightarrow> reservation option" where
  "findReservation tid r = map_of (rs_reservations r) tid"

definition isCancellationPending :: "u64 \<Rightarrow> 'z resource_scheme \<Rightarrow> bool" where
  "isCancellationPending tid r \<longleftrightarrow> tid \<in> set (rs_cancellationProposals r)"

text \<open>\<open>reservationLess\<close> compares this tuple.\<close>

definition reservation_key ::
  "reservation \<Rightarrow> u32 \<times> u32 \<times> u32 \<times> object_id \<times> u64 \<times> u64" where
  "reservation_key x = (rv_priority x, rv_portIndex x, rv_instanceIndex x, rv_ownerId x,
     rv_rootTransactionId x, rv_transactionId x)"

definition readyReservations :: "epoch \<Rightarrow> 'z resource_scheme \<Rightarrow> reservation list" where
  "readyReservations epoch r = sort_key reservation_key
     (filter (\<lambda>x. rv_readyTime x = epoch) (map snd (rs_reservations r)))"

definition presentationTime :: "epoch \<Rightarrow> u64 option" where
  "presentationTime e =
     (if ep_time e > (- 1 - ucast (ep_delta e)) div ucast kMaxDeltasPerTick then None
      else Some (ep_time e * ucast kMaxDeltasPerTick + ucast (ep_delta e)))"

section \<open>Proposals\<close>

definition proposeReserve :: "reservation \<Rightarrow> 'z resource_scheme \<Rightarrow> bool \<times> 'z resource_scheme" where
  "proposeReserve request r =
     (if rv_ownerId request = kInvalidObjectId \<or> rv_amount request = 0 \<or>
         rv_amount request > rs_totalCapacity r \<or>
         rv_readyTime request < rv_issueTime request \<or>
         hasReservation (rv_transactionId request) r \<or>
         list_ex (\<lambda>p. rv_transactionId p = rv_transactionId request) (rs_proposals r)
      then (False, r)
      else (True, r\<lparr>rs_proposals := rs_proposals r @ [request]\<rparr>))"

definition proposeReserve_full ::
  "object_id \<Rightarrow> u32 \<Rightarrow> epoch \<Rightarrow> u64 \<Rightarrow> epoch \<Rightarrow> u64 \<Rightarrow> 'z resource_scheme
   \<Rightarrow> bool \<times> 'z resource_scheme" where
  "proposeReserve_full ownr amount issueTime tid readyTime root r =
     proposeReserve \<lparr>rv_ownerId = ownr, rv_amount = amount, rv_issueTime = issueTime,
       rv_readyTime = readyTime, rv_transactionId = tid, rv_rootTransactionId = root,
       rv_priority = 0, rv_portIndex = 0, rv_instanceIndex = 0\<rparr> r"

definition proposeReserve_now ::
  "object_id \<Rightarrow> u32 \<Rightarrow> epoch \<Rightarrow> u64 \<Rightarrow> 'z resource_scheme \<Rightarrow> bool \<times> 'z resource_scheme" where
  "proposeReserve_now ownr amount issueTime tid r =
     proposeReserve_full ownr amount issueTime tid issueTime tid r"

definition releasable :: "object_id \<Rightarrow> 'z resource_scheme \<Rightarrow> u32" where
  "releasable ownr r =
     fold (\<lambda>p acc. if rp_ownerId p = ownr
                   then (if rp_amount p > acc then 0 else acc - rp_amount p) else acc)
       (rs_releaseProposals r)
       (fold (\<lambda>(tid, x) acc. if rv_ownerId x = ownr \<and> \<not> isCancellationPending tid r
                             then acc + rv_amount x else acc)
          (rs_reservations r) 0)"

definition proposeRelease :: "object_id \<Rightarrow> u32 \<Rightarrow> 'z resource_scheme \<Rightarrow> bool \<times> 'z resource_scheme" where
  "proposeRelease ownr amount r =
     (if amount = 0 then (False, r)
      else if amount > releasable ownr r then (False, r)
      else (True, r\<lparr>rs_releaseProposals := rs_releaseProposals r @
                     [\<lparr>rp_ownerId = ownr, rp_amount = amount\<rparr>]\<rparr>))"

definition proposeCancel :: "object_id \<Rightarrow> u64 \<Rightarrow> 'z resource_scheme \<Rightarrow> bool \<times> 'z resource_scheme" where
  "proposeCancel ownr tid r =
     (case findReservation tid r of
        None \<Rightarrow> (False, r)
      | Some x \<Rightarrow>
          if rv_ownerId x \<noteq> ownr \<or> isCancellationPending tid r then (False, r)
          else (True, r\<lparr>rs_cancellationProposals := rs_cancellationProposals r @ [tid]\<rparr>))"

section \<open>Arbitration\<close>

text \<open>The accepted proposals, and the transactions rejected, of a pass over sorted proposals.\<close>

fun arbitrate_loop :: "reservation list \<Rightarrow> u32 \<Rightarrow> reservation list \<times> u64 list" where
  "arbitrate_loop [] remaining = ([], [])"
| "arbitrate_loop (p # ps) remaining =
     (if rv_amount p \<le> remaining
      then (case arbitrate_loop ps (remaining - rv_amount p) of (acc, rej) \<Rightarrow> (p # acc, rej))
      else (case arbitrate_loop ps remaining of (acc, rej) \<Rightarrow> (acc, rv_transactionId p # rej)))"

definition reservation_arguments :: "reservation \<Rightarrow> observation_argument list" where
  "reservation_arguments x =
     [(''amount'', OUInt (ucast (rv_amount x))), (''child_owner_id'', OUInt (ucast (rv_ownerId x))),
      (''transaction_id'', OUInt (rv_transactionId x))]"

fun emit_accepted ::
  "'s sim_api \<Rightarrow> reservation list \<Rightarrow> 'z resource_scheme \<Rightarrow> 's \<Rightarrow> 'z resource_scheme \<times> 's" where
  "emit_accepted api [] r s = (r, s)"
| "emit_accepted api (x # xs) r s =
     (case (presentationTime (rv_issueTime x), presentationTime (rv_readyTime x)) of
        (Some start, Some finish) \<Rightarrow>
          (case emitObservation api
                  ((observation ''resource'' ''reservation'' Complete)
                     \<lparr>op_rootSequenceId := Some (rv_rootTransactionId x),
                      op_duration := Some (finish - start),
                      op_arguments := reservation_arguments x\<rparr>) r s of
             (r', s') \<Rightarrow> emit_accepted api xs r' s')
      | _ \<Rightarrow> emit_accepted api xs (setRuntimeFailureCode ''observation_time_overflow'' r) s)"

definition stall_observations :: "'z resource_scheme \<Rightarrow> event_proposal list" where
  "stall_observations r =
     map (\<lambda>x. (observation ''stall'' ''capacity'' Instant)
            \<lparr>op_rootSequenceId := Some (rv_rootTransactionId x),
             op_arguments := reservation_arguments x\<rparr>)
       (filter (\<lambda>x. rv_transactionId x \<in> set (rs_proposedRejectedTransactions r)) (rs_proposals r))"

definition resource_decide :: "'z resource_scheme \<Rightarrow> 'z resource_scheme" where
  "resource_decide r =
     (let sorted_proposals = sort_key reservation_key (rs_proposals r);
          (acc, rej) = arbitrate_loop sorted_proposals (availableCapacity r)
      in r\<lparr>rs_proposals := sorted_proposals, rs_acceptedProposals := acc,
           rs_proposedRejectedTransactions := rej\<rparr>)"

definition resource_doArbitrate ::
  "'s sim_api \<Rightarrow> 'z resource_scheme \<Rightarrow> 's \<Rightarrow> 'z resource_scheme \<times> 's" where
  "resource_doArbitrate api r s =
     (let r1 = resource_decide r;
          (r2, s2) = emit_accepted api (rs_acceptedProposals r1) r1 s
      in emitObservations api (stall_observations r2) r2 s2)"

section \<open>Commit\<close>

definition resource_hasPendingCommit :: "'z resource_scheme \<Rightarrow> bool" where
  "resource_hasPendingCommit r \<longleftrightarrow> rs_acceptedProposals r \<noteq> [] \<or> rs_releaseProposals r \<noteq> [] \<or>
     rs_cancellationProposals r \<noteq> [] \<or> rs_proposedRejectedTransactions r \<noteq> []"

definition install_reservation :: "reservation \<Rightarrow> 'z resource_scheme \<Rightarrow> 'z resource_scheme" where
  "install_reservation x r =
     r\<lparr>rs_reservations := map_emplace (rv_transactionId x) x (rs_reservations r),
       rs_activeCapacity := rs_activeCapacity r + rv_amount x,
       rs_totalReservations := rs_totalReservations r + ucast (rv_amount x)\<rparr>"

definition apply_cancellation :: "u64 \<Rightarrow> 'z resource_scheme \<Rightarrow> 'z resource_scheme" where
  "apply_cancellation tid r =
     (case map_of (rs_reservations r) tid of
        None \<Rightarrow> r
      | Some x \<Rightarrow> r\<lparr>rs_activeCapacity := rs_activeCapacity r - rv_amount x,
                    rs_totalCancellations := rs_totalCancellations r + ucast (rv_amount x),
                    rs_reservations := map_del tid (rs_reservations r)\<rparr>)"

text \<open>The loop over the owner's reservations; it also returns the reservations it emptied.\<close>

fun release_loop ::
  "(u64 \<times> reservation) list \<Rightarrow> u32 \<Rightarrow> 'z resource_scheme \<Rightarrow> 'z resource_scheme \<times> u64 list" where
  "release_loop [] remaining r = (r, [])"
| "release_loop ((tid, x) # xs) remaining r =
     (let released = min remaining (rv_amount x);
          x' = x\<lparr>rv_amount := rv_amount x - released\<rparr>;
          r' = r\<lparr>rs_reservations := map_put tid x' (rs_reservations r),
                 rs_activeCapacity := rs_activeCapacity r - released,
                 rs_totalReleases := rs_totalReleases r + ucast released\<rparr>;
          emptied = (if rv_amount x' = 0 then [rv_transactionId x'] else [])
      in if remaining - released = 0 then (r', emptied)
         else case release_loop xs (remaining - released) r' of (r'', later) \<Rightarrow> (r'', emptied @ later))"

definition owned_by :: "object_id \<Rightarrow> 'z resource_scheme \<Rightarrow> (u64 \<times> reservation) list" where
  "owned_by ownr r = sort_key (\<lambda>e. reservation_key (snd e))
     (filter (\<lambda>e. rv_ownerId (snd e) = ownr) (rs_reservations r))"

definition applyRelease :: "release_proposal \<Rightarrow> 'z resource_scheme \<Rightarrow> 'z resource_scheme" where
  "applyRelease release r =
     (case release_loop (owned_by (rp_ownerId release) r) (rp_amount release) r of
        (r', emptied) \<Rightarrow> r'\<lparr>rs_reservations := fold map_del emptied (rs_reservations r')\<rparr>)"

definition resource_doXfer :: "epoch \<Rightarrow> 'z resource_scheme \<Rightarrow> 'z resource_scheme" where
  "resource_doXfer epoch r =
     (let changed = resource_hasPendingCommit r;
          r1 = fold install_reservation (rs_acceptedProposals r) r;
          r2 = fold apply_cancellation (rs_cancellationProposals r1) r1;
          r3 = fold applyRelease (rs_releaseProposals r2) r2;
          r4 = r3\<lparr>rs_rejectedTransactions := rs_proposedRejectedTransactions r3,
                  rs_proposals := [], rs_acceptedProposals := [], rs_releaseProposals := [],
                  rs_cancellationProposals := [], rs_proposedRejectedTransactions := [],
                  rs_highWatermark := max (rs_highWatermark r3) (rs_activeCapacity r3)\<rparr>
      in if changed then r4\<lparr>rs_lastUpdate := epoch\<rparr> else r4)"

definition resource_runtimeState :: "'z resource_scheme \<Rightarrow> runtime_object_state" where
  "resource_runtimeState r =
     (let base = base_runtimeState (resource_hasPendingCommit r) False;
          offers = length (rs_proposals r) + length (rs_acceptedProposals r) +
            length (rs_releaseProposals r) + length (rs_cancellationProposals r) +
            length (rs_proposedRejectedTransactions r);
          quiescent = (rs_reservations r = [] \<and> offers = 0)
      in base\<lparr>ros_activeReservations := unat (rs_activeCapacity r), ros_pendingOffers := offers,
              ros_quiescent := quiescent,
              ros_reason := (if \<not> quiescent
                 then (if offers \<noteq> 0 then ''resource_pending_proposal'' else ''resource_reservation_live'')
                 else ros_reason base)\<rparr>)"

definition resource_collectStatistics :: "'z resource_scheme \<Rightarrow> stat_snapshot list" where
  "resource_collectStatistics r =
     [plain_snapshot ''active_reservations'' (so_path r) Gauge (ucast (rs_activeCapacity r)) (rs_lastUpdate r),
      plain_snapshot ''reservation_peak'' (so_path r) Gauge (ucast (rs_highWatermark r)) (rs_lastUpdate r),
      plain_snapshot ''total_reservations'' (so_path r) Counter (rs_totalReservations r) (rs_lastUpdate r),
      plain_snapshot ''total_releases'' (so_path r) Counter (rs_totalReleases r) (rs_lastUpdate r),
      plain_snapshot ''total_cancellations'' (so_path r) Counter (rs_totalCancellations r) (rs_lastUpdate r)]"

definition resource_validate :: "'z resource_scheme \<Rightarrow> bool" where
  "resource_validate r \<longleftrightarrow>
     list_all (\<lambda>(tid, x). tid = rv_transactionId x \<and> rv_ownerId x \<noteq> kInvalidObjectId \<and>
                 rv_amount x \<noteq> 0 \<and> \<not> rv_readyTime x < rv_issueTime x) (rs_reservations r) \<and>
     (let capacity = fold (\<lambda>(tid, x) acc. acc + ucast (rv_amount x)) (rs_reservations r) (0 :: u64)
      in capacity = ucast (rs_activeCapacity r) \<and> capacity \<le> ucast (rs_totalCapacity r))"

definition resource_reset :: "'z resource_scheme \<Rightarrow> 'z resource_scheme" where
  "resource_reset r = clearRuntimeFailureCode
     (r\<lparr>rs_activeCapacity := 0, rs_proposals := [], rs_acceptedProposals := [],
        rs_rejectedTransactions := [], rs_proposedRejectedTransactions := [],
        rs_releaseProposals := [], rs_cancellationProposals := [], rs_reservations := [],
        rs_highWatermark := 0, rs_totalReservations := 0, rs_totalReleases := 0,
        rs_totalCancellations := 0, rs_lastUpdate := epoch0\<rparr>)"

section \<open>The invariant\<close>

definition reserved :: "(u64 \<times> reservation) list \<Rightarrow> nat" where
  "reserved m = sum_list (map (\<lambda>e. unat (rv_amount (snd e))) m)"

definition requested :: "reservation list \<Rightarrow> nat" where
  "requested ps = sum_list (map (\<lambda>p. unat (rv_amount p)) ps)"

definition request_ok :: "reservation \<Rightarrow> bool" where
  "request_ok x \<longleftrightarrow> rv_ownerId x \<noteq> kInvalidObjectId \<and> rv_amount x \<noteq> 0 \<and>
     \<not> rv_readyTime x < rv_issueTime x"

text \<open>
  The books: entries keyed by their transaction, the active capacity is the sum of the amounts
  and within the capacity, and reservations granted = active + released + cancelled.
  \<open>drained\<close> are the transactions whose amount is 0, which happens only inside a release.
\<close>

definition drained :: "'z resource_scheme \<Rightarrow> u64 set" where
  "drained r = {tid. \<exists>x. map_of (rs_reservations r) tid = Some x \<and> rv_amount x = 0}"

definition books :: "'z resource_scheme \<Rightarrow> bool" where
  "books r \<longleftrightarrow> ordered (rs_reservations r) \<and>
     (\<forall>(tid, x) \<in> set (rs_reservations r). tid = rv_transactionId x \<and>
        rv_ownerId x \<noteq> kInvalidObjectId \<and> \<not> rv_readyTime x < rv_issueTime x) \<and>
     reserved (rs_reservations r) = unat (rs_activeCapacity r) \<and>
     unat (rs_activeCapacity r) \<le> unat (rs_totalCapacity r) \<and>
     rs_totalReservations r =
       ucast (rs_activeCapacity r) + rs_totalReleases r + rs_totalCancellations r"

definition requests_inv :: "'z resource_scheme \<Rightarrow> bool" where
  "requests_inv r \<longleftrightarrow> list_all request_ok (rs_proposals r) \<and>
     distinct (map rv_transactionId (rs_proposals r)) \<and>
     set (rs_acceptedProposals r) \<subseteq> set (rs_proposals r) \<and>
     distinct (map rv_transactionId (rs_acceptedProposals r)) \<and>
     (\<forall>p \<in> set (rs_proposals r). map_of (rs_reservations r) (rv_transactionId p) = None) \<and>
     unat (rs_activeCapacity r) + requested (rs_acceptedProposals r) \<le> unat (rs_totalCapacity r)"

definition resource_inv :: "'z resource_scheme \<Rightarrow> bool" where
  "resource_inv r \<longleftrightarrow> books r \<and> drained r = {} \<and> requests_inv r"

lemma reserved_simps [simp]: "reserved [] = 0" "reserved (e # m) = unat (rv_amount (snd e)) + reserved m"
  by (simp_all add: reserved_def)

lemma requested_simps [simp]: "requested [] = 0" "requested (p # ps) = unat (rv_amount p) + requested ps"
  by (simp_all add: requested_def)

lemma reserved_mset: "mset m = mset m' \<Longrightarrow> reserved m = reserved m'"
  unfolding reserved_def by (simp only: sum_mset_sum_list [symmetric] mset_map)

lemma reserved_put_new:
  "ordered m \<Longrightarrow> map_of m k = None \<Longrightarrow> reserved (map_put k x m) = unat (rv_amount x) + reserved m"
  using reserved_mset [of "map_put k x m" "(k, x) # m"] by (simp add: mset_map_put_new)

lemma reserved_put_old:
  "ordered m \<Longrightarrow> map_of m k = Some y \<Longrightarrow>
     unat (rv_amount y) + reserved (map_put k x m) = unat (rv_amount x) + reserved m"
  using reserved_mset [of "(k, y) # map_put k x m" "(k, x) # m"] by (simp add: mset_map_put_old)

lemma reserved_del:
  "ordered m \<Longrightarrow> map_of m k = Some y \<Longrightarrow> unat (rv_amount y) + reserved (map_del k m) = reserved m"
  using reserved_mset [of "(k, y) # map_del k m" m] mset_map_del [of m k y]
  by (simp add: increasing_distinct)

lemma reserved_filter_drained:
  "\<forall>e \<in> set m. \<not> P e \<longrightarrow> rv_amount (snd e) = 0 \<Longrightarrow> reserved (filter P m) = reserved m"
  by (induction m) auto

lemma unat_add_within:
  "unat (a :: u32) + unat b \<le> unat (c :: u32) \<Longrightarrow> unat (a + b) = unat a + unat b"
  using unsigned_less [of c, where ?'a = nat] by (simp add: unat_add_lem [symmetric])

subsection \<open>Installing, cancelling\<close>

lemma books_install:
  assumes "books r" "request_ok x" "map_of (rs_reservations r) (rv_transactionId x) = None"
    and "unat (rs_activeCapacity r) + unat (rv_amount x) \<le> unat (rs_totalCapacity r)"
  shows "books (install_reservation x r)"
proof -
  have "unat (rs_activeCapacity r) + unat (rv_amount x) < 2 ^ 32"
    using assms(4) unsigned_less [of "rs_totalCapacity r", where ?'a = nat] by simp
  then have "(ucast (rs_activeCapacity r + rv_amount x) :: u64) =
      ucast (rs_activeCapacity r) + ucast (rv_amount x)"
    by (intro ucast_add_no_wrap) simp_all
  moreover have "set (map_put (rv_transactionId x) x (rs_reservations r)) =
      insert (rv_transactionId x, x) (set (rs_reservations r))"
    using mset_map_put_new [OF _ assms(3), of x] assms(1) unfolding books_def
    by (metis set_mset_add_mset_insert set_mset_mset)
  ultimately show ?thesis
    using assms unfolding books_def install_reservation_def map_emplace_def request_ok_def
    by (simp add: reserved_put_new unat_add_within add_ac)
qed

lemma books_cancel:
  assumes "books r"
  shows "books (apply_cancellation tid r)"
proof (cases "map_of (rs_reservations r) tid")
  case (Some x)
  have sum: "unat (rv_amount x) + reserved (map_del tid (rs_reservations r)) = unat (rs_activeCapacity r)"
    using assms reserved_del [OF _ Some] by (simp add: books_def)
  then have le: "rv_amount x \<le> rs_activeCapacity r"
    by (simp add: word_le_nat_alt)
  then have "(ucast (rs_activeCapacity r - rv_amount x) :: u64) =
      ucast (rs_activeCapacity r) - ucast (rv_amount x)"
    by (intro ucast_diff_no_wrap) simp_all
  with assms sum le show ?thesis
    by (auto simp: books_def apply_cancellation_def Some unat_sub)
qed (use assms in \<open>simp add: apply_cancellation_def\<close>)

lemma drained_install:
  "books r \<Longrightarrow> request_ok x \<Longrightarrow> drained (install_reservation x r) \<subseteq> drained r"
  by (auto simp: drained_def install_reservation_def map_emplace_def map_of_map_put books_def
      request_ok_def split: option.splits if_splits)

lemma drained_cancel: "drained (apply_cancellation tid r) \<subseteq> drained r"
  by (auto simp: drained_def apply_cancellation_def map_of_map_del split: option.splits if_splits)

subsection \<open>Releasing\<close>

text \<open>One reservation gives up \<open>d\<close> of its amount.\<close>

definition give_up :: "u64 \<Rightarrow> reservation \<Rightarrow> u32 \<Rightarrow> 'z resource_scheme \<Rightarrow> 'z resource_scheme" where
  "give_up tid x d r =
     r\<lparr>rs_reservations := map_put tid (x\<lparr>rv_amount := rv_amount x - d\<rparr>) (rs_reservations r),
       rs_activeCapacity := rs_activeCapacity r - d,
       rs_totalReleases := rs_totalReleases r + ucast d\<rparr>"

lemma release_loop_Cons:
  "release_loop ((tid, x) # xs) remaining r =
     (let d = min remaining (rv_amount x);
          emptied = (if rv_amount x - d = 0 then [rv_transactionId x] else [])
      in if remaining - d = 0 then (give_up tid x d r, emptied)
         else case release_loop xs (remaining - d) (give_up tid x d r) of
                (r'', later) \<Rightarrow> (r'', emptied @ later))"
  by (simp add: give_up_def Let_def)

lemma give_up_amount:
  assumes "books r" "map_of (rs_reservations r) tid = Some x" "d \<le> rv_amount x"
  shows "d \<le> rs_activeCapacity r"
    and "unat (rs_activeCapacity (give_up tid x d r)) = unat (rs_activeCapacity r) - unat d"
proof -
  have "unat (rv_amount x) + reserved (map_del tid (rs_reservations r)) = unat (rs_activeCapacity r)"
    using assms(1) reserved_del [OF _ assms(2)] by (simp add: books_def)
  with assms(3) show "d \<le> rs_activeCapacity r"
    by (simp add: word_le_nat_alt)
  then show "unat (rs_activeCapacity (give_up tid x d r)) = unat (rs_activeCapacity r) - unat d"
    by (simp add: give_up_def unat_sub)
qed

lemma books_give_up:
  assumes "books r" "map_of (rs_reservations r) tid = Some x" "d \<le> rv_amount x"
  shows "books (give_up tid x d r)"
proof -
  let ?x = "x\<lparr>rv_amount := rv_amount x - d\<rparr>"
  note le = give_up_amount(1) [OF assms]
  have o: "ordered (rs_reservations r)" and x: "(tid, x) \<in> set (rs_reservations r)"
    using assms(1,2) by (simp_all add: books_def map_of_SomeD)
  have "(ucast (rs_activeCapacity r - d) :: u64) = ucast (rs_activeCapacity r) - ucast d"
    using le by (intro ucast_diff_no_wrap) simp_all
  moreover have "reserved (map_put tid ?x (rs_reservations r)) = unat (rs_activeCapacity r - d)"
    using reserved_put_old [OF o assms(2), of ?x] assms(1,3) le
    by (simp add: books_def unat_sub word_le_nat_alt)
  moreover have "\<forall>(k, y) \<in> set (map_put tid ?x (rs_reservations r)). k = rv_transactionId y \<and>
        rv_ownerId y \<noteq> kInvalidObjectId \<and> \<not> rv_readyTime y < rv_issueTime y"
    using set_map_put_subset [of tid ?x "rs_reservations r"] x assms(1)
    unfolding books_def by fastforce
  ultimately show ?thesis
    using assms(1) le unfolding books_def give_up_def
    by (simp add: unat_sub word_le_nat_alt algebra_simps) linarith
qed

lemma give_up_lookup:
  "ordered (rs_reservations r) \<Longrightarrow> map_of (rs_reservations (give_up tid x d r)) =
     (map_of (rs_reservations r))(tid \<mapsto> x\<lparr>rv_amount := rv_amount x - d\<rparr>)"
  by (simp add: give_up_def map_of_map_put)

text \<open>
  The release loop over distinct live reservations keeps the books, reports exactly the
  reservations it drained, and frees the smaller of the requested amount and what they hold.
\<close>

lemma release_loop_ok:
  assumes "books r" and "distinct (map fst xs)"
    and "\<forall>(tid, x) \<in> set xs. map_of (rs_reservations r) tid = Some x \<and> rv_amount x \<noteq> 0"
    and "release_loop xs n r = (r', emptied)"
  shows "books r' \<and> drained r' = drained r \<union> set emptied \<and>
    unat (rs_activeCapacity r') = unat (rs_activeCapacity r) - min (unat n) (reserved xs) \<and>
    (\<forall>tid. tid \<notin> fst ` set xs \<longrightarrow> map_of (rs_reservations r') tid = map_of (rs_reservations r) tid)"
  using assms
proof (induction xs arbitrary: n r r' emptied)
  case (Cons e xs)
  obtain tid x where e: "e = (tid, x)" by fastforce
  define d where "d = min n (rv_amount x)"
  define r1 where "r1 = give_up tid x d r"
  define em where "em = (if rv_amount x - d = 0 then [rv_transactionId x] else [])"
  have x: "map_of (rs_reservations r) tid = Some x" "rv_amount x \<noteq> 0" and d: "d \<le> rv_amount x"
    using Cons.prems(3) by (auto simp: e d_def)
  have o: "ordered (rs_reservations r)" and t: "rv_transactionId x = tid"
    using Cons.prems(1) map_of_SomeD [OF x(1)] by (auto simp: books_def)
  have b1: "books r1"
    unfolding r1_def by (rule books_give_up [OF Cons.prems(1) x(1) d])
  have act: "unat (rs_activeCapacity r1) = unat (rs_activeCapacity r) - unat d"
    unfolding r1_def by (rule give_up_amount(2) [OF Cons.prems(1) x(1) d])
  have look: "map_of (rs_reservations r1) = (map_of (rs_reservations r))(tid \<mapsto> x\<lparr>rv_amount := rv_amount x - d\<rparr>)"
    unfolding r1_def by (rule give_up_lookup [OF o])
  have dr: "drained r1 = drained r \<union> set em"
    using x t by (auto simp: drained_def look em_def split: if_splits)
  have ud: "unat d = min (unat n) (unat (rv_amount x))"
    by (simp add: d_def min_def word_le_nat_alt)
  have run: "(if n - d = 0 then (r1, em) else case release_loop xs (n - d) r1 of
      (r'', later) \<Rightarrow> (r'', em @ later)) = (r', emptied)"
    using Cons.prems(4) unfolding e release_loop_Cons Let_def d_def [symmetric] r1_def [symmetric]
      em_def [symmetric] .
  show ?case
  proof (cases "n - d = 0")
    case True
    then have "unat d = unat n" and r': "r' = r1" "emptied = em" using run by simp_all
    then have "unat n \<le> unat (rv_amount x)" using ud by simp
    then have "unat (rs_activeCapacity r') = unat (rs_activeCapacity r) - min (unat n) (reserved (e # xs))"
      unfolding r' act by (simp add: e \<open>unat d = unat n\<close>)
    with b1 dr look show ?thesis unfolding r' by (simp add: e)
  next
    case False
    obtain later where rest: "release_loop xs (n - d) r1 = (r', later)" and em: "emptied = em @ later"
      using run False by (auto split: prod.splits)
    have un: "unat (n - d) = unat n - unat d"
      by (simp add: d_def unat_sub)
    have live: "\<forall>(k, y) \<in> set xs. map_of (rs_reservations r1) k = Some y \<and> rv_amount y \<noteq> 0"
      using Cons.prems(2,3) by (force simp: e look)
    from Cons.IH [OF b1 _ live rest] Cons.prems(2)
    have b: "books r'" and dr': "drained r' = drained r1 \<union> set later"
      and act': "unat (rs_activeCapacity r') = unat (rs_activeCapacity r1) - min (unat (n - d)) (reserved xs)"
      and look': "\<forall>k. k \<notin> fst ` set xs \<longrightarrow> map_of (rs_reservations r') k = map_of (rs_reservations r1) k"
      by simp_all
    have "unat d = unat (rv_amount x)"
      using False by (auto simp: d_def min_def split: if_splits)
    then have "unat (rs_activeCapacity r') = unat (rs_activeCapacity r) - min (unat n) (reserved (e # xs))"
      unfolding act' act un using ud by (simp add: e)
    moreover have "drained r' = drained r \<union> set emptied"
      unfolding dr' dr em by auto
    moreover have "\<forall>k. k \<notin> fst ` set (e # xs) \<longrightarrow> map_of (rs_reservations r') k = map_of (rs_reservations r) k"
      using look' by (simp add: e look)
    ultimately show ?thesis using b by simp
  qed
qed auto

lemma owned_by_live:
  assumes "books r" "drained r = {}"
  shows "distinct (map fst (owned_by own r))"
    and "\<forall>(tid, x) \<in> set (owned_by own r). map_of (rs_reservations r) tid = Some x \<and> rv_amount x \<noteq> 0"
    and "\<And>tid x. map_of (rs_reservations r) tid = Some x \<Longrightarrow>
           tid \<in> fst ` set (owned_by own r) \<longleftrightarrow> rv_ownerId x = own"
proof -
  have o: "ordered (rs_reservations r)"
    using assms(1) by (simp add: books_def)
  have "distinct (map fst (filter (\<lambda>e. rv_ownerId (snd e) = own) (rs_reservations r)))"
    using o by (intro increasing_distinct) simp
  moreover have "mset (map fst (owned_by own r)) =
      mset (map fst (filter (\<lambda>e. rv_ownerId (snd e) = own) (rs_reservations r)))"
    unfolding owned_by_def by (simp only: mset_map mset_sort)
  ultimately show "distinct (map fst (owned_by own r))"
    by (metis mset_eq_imp_distinct_iff)
  show "\<forall>(tid, x) \<in> set (owned_by own r). map_of (rs_reservations r) tid = Some x \<and> rv_amount x \<noteq> 0"
    using assms(2) by (auto simp: owned_by_def drained_def map_of_in_ordered [OF o])
  show "tid \<in> fst ` set (owned_by own r) \<longleftrightarrow> rv_ownerId x = own"
    if "map_of (rs_reservations r) tid = Some x" for tid x
  proof -
    have "tid \<in> fst ` set (owned_by own r) \<longleftrightarrow>
        (\<exists>y. (tid, y) \<in> set (rs_reservations r) \<and> rv_ownerId y = own)"
      by (auto simp: owned_by_def image_iff)
    then show ?thesis using that by (simp add: map_of_in_ordered [OF o])
  qed
qed

lemma reserved_owned: "reserved (owned_by own r) =
    reserved (filter (\<lambda>e. rv_ownerId (snd e) = own) (rs_reservations r))"
  by (rule reserved_mset) (simp add: owned_by_def)

lemma map_of_filter_keys:
  "map_of (filter (\<lambda>e. fst e \<notin> K) m) k = (if k \<in> K then None else map_of m k)"
  by (induction m) auto

lemma applyRelease_ok:
  assumes "books r" "drained r = {}"
  shows "books (applyRelease p r) \<and> drained (applyRelease p r) = {} \<and>
    unat (rs_activeCapacity (applyRelease p r)) = unat (rs_activeCapacity r) -
      min (unat (rp_amount p)) (reserved (owned_by (rp_ownerId p) r)) \<and>
    (\<forall>tid x. map_of (rs_reservations r) tid = Some x \<and> rv_ownerId x \<noteq> rp_ownerId p \<longrightarrow>
       map_of (rs_reservations (applyRelease p r)) tid = Some x)"
proof -
  obtain r' em where run: "release_loop (owned_by (rp_ownerId p) r) (rp_amount p) r = (r', em)"
    by fastforce
  note live = owned_by_live [OF assms, where own = "rp_ownerId p"]
  from release_loop_ok [OF assms(1) live(1,2) run] assms(2)
  have b: "books r'" and dr: "drained r' = set em"
    and act: "unat (rs_activeCapacity r') = unat (rs_activeCapacity r) -
      min (unat (rp_amount p)) (reserved (owned_by (rp_ownerId p) r))"
    and other: "\<And>tid. tid \<notin> fst ` set (owned_by (rp_ownerId p) r) \<Longrightarrow>
      map_of (rs_reservations r') tid = map_of (rs_reservations r) tid"
    by simp_all
  let ?m = "filter (\<lambda>e. fst e \<notin> set em) (rs_reservations r')"
  have res: "applyRelease p r = r'\<lparr>rs_reservations := ?m\<rparr>"
    by (simp add: applyRelease_def run fold_map_del)
  have o: "ordered (rs_reservations r')"
    using b by (simp add: books_def)
  have look: "map_of ?m tid = (if tid \<in> set em then None else map_of (rs_reservations r') tid)" for tid
    by (rule map_of_filter_keys)
  have "reserved ?m = reserved (rs_reservations r')"
    using dr by (intro reserved_filter_drained) (auto simp: drained_def map_of_in_ordered [OF o] dest!: equalityD2)
  with b have "books (applyRelease p r)"
    by (auto simp: res books_def)
  moreover have "drained (applyRelease p r) = {}"
    using dr unfolding res drained_def by (auto simp: look split: if_splits)
  moreover have "map_of (rs_reservations (applyRelease p r)) tid = Some x"
    if "map_of (rs_reservations r) tid = Some x" "rv_ownerId x \<noteq> rp_ownerId p" for tid x
  proof -
    from other [of tid] live(3) [OF that(1)] that have m: "map_of (rs_reservations r') tid = Some x" by simp
    moreover have "rv_amount x \<noteq> 0"
      using assms(2) that(1) by (auto simp: drained_def)
    ultimately have "tid \<notin> drained r'"
      by (simp add: drained_def)
    then have "tid \<notin> set em" by (simp add: dr)
    with m show ?thesis by (simp add: res look)
  qed
  ultimately show ?thesis
    using act by (simp add: res)
qed

lemma fold_applyRelease_ok:
  "books r \<Longrightarrow> drained r = {} \<Longrightarrow> books (fold applyRelease ps r) \<and> drained (fold applyRelease ps r) = {}"
  by (induction ps arbitrary: r) (simp_all add: applyRelease_ok)

lemma fold_cancel_ok:
  "books r \<Longrightarrow> drained r = {} \<Longrightarrow>
     books (fold apply_cancellation ts r) \<and> drained (fold apply_cancellation ts r) = {}"
proof (induction ts arbitrary: r)
  case (Cons t ts)
  have "drained (apply_cancellation t r) = {}"
    using drained_cancel [of t r] Cons.prems(2) by simp
  with Cons show ?case by (simp add: books_cancel)
qed simp

lemma fold_install_ok:
  assumes "books r" "drained r = {}" "list_all request_ok ps"
    and "distinct (map rv_transactionId ps)"
    and "\<forall>p \<in> set ps. map_of (rs_reservations r) (rv_transactionId p) = None"
    and "unat (rs_activeCapacity r) + requested ps \<le> unat (rs_totalCapacity r)"
  shows "books (fold install_reservation ps r) \<and> drained (fold install_reservation ps r) = {}"
  using assms
proof (induction ps arbitrary: r)
  case (Cons p ps)
  let ?r = "install_reservation p r"
  have b: "books ?r"
    using Cons.prems by (intro books_install) auto
  have "drained ?r = {}"
    using drained_install [of r p] Cons.prems by auto
  moreover have "map_of (rs_reservations ?r) (rv_transactionId q) = None" if "q \<in> set ps" for q
  proof -
    have "rv_transactionId q \<noteq> rv_transactionId p"
      using Cons.prems(4) that by (metis distinct.simps(2) image_eqI list.set_map list.simps(9))
    then show ?thesis
      using that Cons.prems(1,5)
      by (simp add: install_reservation_def map_emplace_def map_of_map_put books_def)
  qed
  moreover have "unat (rs_activeCapacity ?r) = unat (rs_activeCapacity r) + unat (rv_amount p)"
    using Cons.prems(6) by (simp add: install_reservation_def)
      (rule unat_add_within [of _ _ "rs_totalCapacity r"], simp)
  ultimately show ?case
    using Cons.IH [OF b] Cons.prems by (simp add: install_reservation_def)
qed simp

subsection \<open>Every call keeps the invariant\<close>

lemma resource_inv_new: "resource_inv (newResource nm i p cap sink)"
  by (simp add: resource_inv_def books_def drained_def requests_inv_def newResource_def)

lemma resource_inv_reset: "resource_inv (resource_reset r)"
  by (simp add: resource_inv_def books_def drained_def requests_inv_def resource_reset_def
      clearRuntimeFailureCode_def)

lemma resource_inv_failure [simp]: "resource_inv (setRuntimeFailureCode c r) = resource_inv r"
  by (simp add: resource_inv_def books_def drained_def requests_inv_def setRuntimeFailureCode_def)

lemma resource_inv_reserve: "resource_inv r \<Longrightarrow> resource_inv (snd (proposeReserve x r))"
  by (auto simp: resource_inv_def books_def drained_def requests_inv_def proposeReserve_def
      request_ok_def hasReservation_def list_ex_iff)

lemma resource_inv_release: "resource_inv r \<Longrightarrow> resource_inv (snd (proposeRelease own n r))"
  by (simp add: resource_inv_def books_def drained_def requests_inv_def proposeRelease_def)

lemma resource_inv_cancel: "resource_inv r \<Longrightarrow> resource_inv (snd (proposeCancel own tid r))"
  by (simp add: resource_inv_def books_def drained_def requests_inv_def proposeCancel_def
      split: option.split)

lemma arbitrate_loop_sound:
  "arbitrate_loop ps n = (acc, rej) \<Longrightarrow>
     set acc \<subseteq> set ps \<and> requested acc \<le> unat n \<and>
     (distinct (map rv_transactionId ps) \<longrightarrow> distinct (map rv_transactionId acc)) \<and>
     (\<forall>p \<in> set ps. p \<in> set acc \<or> rv_transactionId p \<in> set rej) \<and>
     set rej \<subseteq> rv_transactionId ` set ps \<and>
     (distinct (map rv_transactionId ps) \<longrightarrow> rv_transactionId ` set acc \<inter> set rej = {})"
proof (induction ps arbitrary: n acc rej)
  case (Cons p ps)
  show ?case
  proof (cases "rv_amount p \<le> n")
    case True
    obtain acc' rej' where r: "arbitrate_loop ps (n - rv_amount p) = (acc', rej')" by fastforce
    have a: "acc = p # acc'" and j: "rej = rej'"
      using Cons.prems True r by simp_all
    have "unat (n - rv_amount p) = unat n - unat (rv_amount p)" "unat (rv_amount p) \<le> unat n"
      using True by (simp_all add: unat_sub word_le_nat_alt)
    with Cons.IH [OF r] show ?thesis unfolding a j by auto
  next
    case False
    obtain acc' rej' where r: "arbitrate_loop ps n = (acc', rej')" by fastforce
    have "acc = acc'" and "rej = rv_transactionId p # rej'"
      using Cons.prems False r by simp_all
    with Cons.IH [OF r] show ?thesis by auto
  qed
qed simp

lemma resource_inv_decide: "resource_inv r \<Longrightarrow> resource_inv (resource_decide r)"
proof -
  assume inv: "resource_inv r"
  let ?ps = "sort_key reservation_key (rs_proposals r)"
  obtain acc rej where run: "arbitrate_loop ?ps (availableCapacity r) = (acc, rej)" by fastforce
  have "mset (map rv_transactionId ?ps) = mset (map rv_transactionId (rs_proposals r))"
    by (simp only: mset_map mset_sort)
  then have d: "distinct (map rv_transactionId ?ps)"
    using inv unfolding resource_inv_def requests_inv_def by (metis mset_eq_imp_distinct_iff)
  have "unat (availableCapacity r) = unat (rs_totalCapacity r) - unat (rs_activeCapacity r)"
    using inv by (simp add: availableCapacity_def resource_inv_def books_def unat_sub word_le_nat_alt)
  with arbitrate_loop_sound [OF run] d inv show ?thesis
    unfolding resource_decide_def Let_def run
    by (auto simp: resource_inv_def books_def drained_def requests_inv_def list_all_iff)
qed

text \<open>Emitting touches the resource only through its failure code.\<close>

lemma emitObservation_more [simp]:
  "sim_object.more (fst (emitObservation api p ob s)) = sim_object.more ob"
  using emitObservation_object [of api p ob s] by auto

lemma emit_accepted_more [simp]:
  "sim_object.more (fst (emit_accepted api xs r s)) = sim_object.more r"
proof (induction xs arbitrary: r s)
  case (Cons x xs)
  have "sim_object.more (fst (case emitObservation api p r s of (r', s') \<Rightarrow> emit_accepted api xs r' s')) =
      sim_object.more r" for p
    using emitObservation_more [of api p r s]
    by (cases "emitObservation api p r s") (simp add: Cons.IH)
  then show ?case by (simp add: Cons.IH split: option.split)
qed simp

lemma resource_fields_more:
  assumes "sim_object.more r = sim_object.more (r' :: 'z resource_scheme)"
  shows "rs_proposals r = rs_proposals r'" "rs_acceptedProposals r = rs_acceptedProposals r'"
    "rs_proposedRejectedTransactions r = rs_proposedRejectedTransactions r'"
    "resource_inv r = resource_inv r'"
  using assms by (cases r; cases r'; simp add: resource_inv_def books_def drained_def requests_inv_def)+

lemma resource_doArbitrate_more:
  "sim_object.more (fst (resource_doArbitrate api r s)) = sim_object.more (resource_decide r)"
proof -
  obtain r2 s2 where e: "emit_accepted api (rs_acceptedProposals (resource_decide r)) (resource_decide r) s = (r2, s2)"
    by fastforce
  with emit_accepted_more [of api "rs_acceptedProposals (resource_decide r)" "resource_decide r" s]
  have "sim_object.more r2 = sim_object.more (resource_decide r)" by simp
  then show ?thesis by (simp add: resource_doArbitrate_def Let_def e)
qed

lemma resource_inv_arbitrate: "resource_inv r \<Longrightarrow> resource_inv (fst (resource_doArbitrate api r s))"
  unfolding resource_fields_more(4) [OF resource_doArbitrate_more [of api r s]]
  by (rule resource_inv_decide)

lemma resource_inv_xfer: "resource_inv r \<Longrightarrow> resource_inv (resource_doXfer epoch r)"
proof -
  assume inv: "resource_inv r"
  have ok: "list_all request_ok (rs_acceptedProposals r)"
    using inv by (auto simp: resource_inv_def requests_inv_def list_all_iff)
  define r1 where "r1 = fold install_reservation (rs_acceptedProposals r) r"
  define r2 where "r2 = fold apply_cancellation (rs_cancellationProposals r1) r1"
  define r3 where "r3 = fold applyRelease (rs_releaseProposals r2) r2"
  have "books r1 \<and> drained r1 = {}"
    unfolding r1_def using inv ok
    by (intro fold_install_ok) (auto simp: resource_inv_def requests_inv_def)
  then have "books r3 \<and> drained r3 = {}"
    unfolding r3_def r2_def by (simp add: fold_cancel_ok fold_applyRelease_ok)
  then have "resource_inv (r3\<lparr>rs_rejectedTransactions := t, rs_proposals := [], rs_acceptedProposals := [],
      rs_releaseProposals := [], rs_cancellationProposals := [], rs_proposedRejectedTransactions := [],
      rs_highWatermark := w\<rparr>)" for t w
    by (simp add: resource_inv_def books_def drained_def requests_inv_def)
  moreover have "resource_inv (x\<lparr>rs_lastUpdate := e\<rparr>) = resource_inv x" for x :: "'a resource_scheme" and e
    by (simp add: resource_inv_def books_def drained_def requests_inv_def)
  ultimately show ?thesis
    unfolding resource_doXfer_def Let_def r1_def [symmetric] r2_def [symmetric] r3_def [symmetric]
    by simp
qed

lemmas resource_inv_ops [gf_inv] = resource_inv_new resource_inv_reset resource_inv_reserve
  resource_inv_release resource_inv_cancel resource_inv_arbitrate resource_inv_xfer

section \<open>Runs\<close>

datatype resource_call = CallReserve reservation | CallRelease object_id u32
  | CallCancel object_id u64 | CallArbitrate | CallResourceXfer epoch | CallResourceReset

fun resource_apply :: "'s sim_api \<Rightarrow> resource_call \<Rightarrow> resource \<times> 's \<Rightarrow> resource \<times> 's" where
  "resource_apply api (CallReserve x) (r, s) = (snd (proposeReserve x r), s)"
| "resource_apply api (CallRelease own n) (r, s) = (snd (proposeRelease own n r), s)"
| "resource_apply api (CallCancel own tid) (r, s) = (snd (proposeCancel own tid r), s)"
| "resource_apply api CallArbitrate (r, s) = resource_doArbitrate api r s"
| "resource_apply api (CallResourceXfer e) (r, s) = (resource_doXfer e r, s)"
| "resource_apply api CallResourceReset (r, s) = (resource_reset r, s)"

lemma resource_inv_run:
  "resource_inv (fst st) \<Longrightarrow> resource_inv (fst (fold (resource_apply api) calls st))"
proof (induction calls arbitrary: st)
  case (Cons c calls)
  obtain r s where st: "st = (r, s)" by fastforce
  have "resource_inv (fst (resource_apply api c st))"
    using Cons.prems by (cases c) (simp_all add: st resource_inv_ops)
  from Cons.IH [OF this] show ?case by simp
qed simp

lemma release_loop_total: "rs_totalCapacity (fst (release_loop xs n r)) = rs_totalCapacity r"
proof (induction xs arbitrary: n r)
  case (Cons e xs)
  have give: "rs_totalCapacity (give_up t x d y) = rs_totalCapacity y" for t x d and y :: "'a resource_scheme"
    by (simp add: give_up_def)
  show ?case
    by (cases e) (simp add: release_loop_Cons Let_def give Cons.IH case_prod_beta del: release_loop.simps)
qed simp

lemma total_fold:
  assumes "\<And>x r. rs_totalCapacity (g x r) = rs_totalCapacity r"
  shows "rs_totalCapacity (fold g xs r) = rs_totalCapacity r"
  by (induction xs arbitrary: r) (simp_all add: assms)

lemma resource_total_ops [simp]:
  "rs_totalCapacity (snd (proposeReserve x r)) = rs_totalCapacity r"
  "rs_totalCapacity (snd (proposeRelease own n r)) = rs_totalCapacity r"
  "rs_totalCapacity (snd (proposeCancel own tid r)) = rs_totalCapacity r"
  "rs_totalCapacity (resource_reset r) = rs_totalCapacity r"
  by (simp_all add: proposeReserve_def proposeRelease_def proposeCancel_def resource_reset_def
      clearRuntimeFailureCode_def split: option.split)

lemma resource_total_arbitrate [simp]:
  "rs_totalCapacity (fst (resource_doArbitrate api r s)) = rs_totalCapacity r"
proof -
  have "rs_totalCapacity (fst (resource_doArbitrate api r s)) = rs_totalCapacity (resource_decide r)"
    using resource_doArbitrate_more [of api r s]
    by (cases "fst (resource_doArbitrate api r s)"; cases "resource_decide r") simp
  then show ?thesis by (simp add: resource_decide_def Let_def split: prod.split)
qed

lemma resource_total_xfer [simp]: "rs_totalCapacity (resource_doXfer e r) = rs_totalCapacity r"
proof -
  have "rs_totalCapacity (applyRelease p x) = rs_totalCapacity x" for p and x :: "'a resource_scheme"
    using release_loop_total [of "owned_by (rp_ownerId p) x" "rp_amount p" x]
    by (simp add: applyRelease_def case_prod_beta)
  moreover have "rs_totalCapacity (apply_cancellation t x) = rs_totalCapacity x" for t and x :: "'a resource_scheme"
    by (simp add: apply_cancellation_def split: option.split)
  moreover have "rs_totalCapacity (install_reservation p x) = rs_totalCapacity x" for p and x :: "'a resource_scheme"
    by (simp add: install_reservation_def)
  ultimately show ?thesis
    by (simp add: resource_doXfer_def Let_def total_fold)
qed

lemma resource_total_run:
  "rs_totalCapacity (fst (fold (resource_apply api) calls st)) = rs_totalCapacity (fst st)"
proof (induction calls arbitrary: st)
  case (Cons c calls)
  obtain r s where st: "st = (r, s)" by fastforce
  show ?case by (cases c) (simp_all add: st Cons.IH)
qed simp

lemma ucast_le_iff: "(ucast (a :: u32) :: u64) \<le> ucast (b :: u32) \<longleftrightarrow> unat a \<le> unat b"
  using unsigned_less [of a, where ?'a = nat] unsigned_less [of b, where ?'a = nat]
  by (simp add: word_le_nat_alt unsigned_ucast_eq take_bit_nat_eq_self)

lemma capacity_fold:
  "fold (\<lambda>(tid, x) acc. acc + ucast (rv_amount x)) m (a :: u64) = a + of_nat (reserved m)"
  by (induction m arbitrary: a) (auto simp: split_def)

lemma resource_inv_validate: "resource_inv r \<Longrightarrow> resource_validate r"
proof -
  assume inv: "resource_inv r"
  have o: "ordered (rs_reservations r)"
    using inv by (simp add: resource_inv_def books_def)
  have "list_all (\<lambda>(tid, x). tid = rv_transactionId x \<and> rv_ownerId x \<noteq> kInvalidObjectId \<and>
                 rv_amount x \<noteq> 0 \<and> \<not> rv_readyTime x < rv_issueTime x) (rs_reservations r)"
    using inv unfolding resource_inv_def books_def drained_def list_all_iff
    by (auto simp: map_of_in_ordered [OF o])
  moreover have "of_nat (reserved (rs_reservations r)) = (ucast (rs_activeCapacity r) :: u64)"
    using inv by (simp add: resource_inv_def books_def)
  moreover have "(ucast (rs_activeCapacity r) :: u64) \<le> ucast (rs_totalCapacity r)"
    using inv by (simp add: resource_inv_def books_def ucast_le_iff)
  ultimately show ?thesis
    by (simp add: resource_validate_def capacity_fold)
qed

section \<open>Properties\<close>

text \<open>
  C10: a resource is never oversubscribed. After any sequence of reserve, release, cancel,
  arbitrate, Xfer and reset calls, under any answers of the observation sink, the resource's own
  \<open>validate\<close> accepts: every reservation is keyed by its transaction, owned, nonempty and ready no
  earlier than issued, the active capacity is the sum of the reservations, and it is within the
  declared capacity; and the capacity ever granted equals what is active, released or cancelled.
\<close>

theorem resource_never_oversubscribed:
  "let r = fst (fold (resource_apply api) calls (newResource nm i parent capacity sink, s)) in
     resource_validate r \<and> rs_totalCapacity r = capacity \<and>
     reserved (rs_reservations r) \<le> unat capacity \<and>
     rs_totalReservations r = ucast (rs_activeCapacity r) + rs_totalReleases r + rs_totalCancellations r"
proof -
  let ?r = "fst (fold (resource_apply api) calls (newResource nm i parent capacity sink, s))"
  have inv: "resource_inv ?r"
    by (rule resource_inv_run) (simp add: resource_inv_new)
  have "rs_totalCapacity ?r = capacity"
    by (simp add: resource_total_run newResource_def)
  with inv resource_inv_validate [OF inv] show ?thesis
    by (simp add: resource_inv_def books_def Let_def)
qed

text \<open>Arbitration over proposals in strictly increasing key order.\<close>

lemma arbitrate_loop_greedy:
  assumes "increasing (map reservation_key ps)" and "arbitrate_loop ps n = (acc, rej)"
    and "p \<in> set ps"
  shows "p \<in> set acc \<longleftrightarrow>
    unat (rv_amount p) + requested (filter (\<lambda>q. reservation_key q < reservation_key p) acc) \<le> unat n"
  using assms
proof (induction ps arbitrary: n acc rej)
  case (Cons h ps)
  obtain m acc' rej' where m: "m = (if rv_amount h \<le> n then n - rv_amount h else n)"
    and r: "arbitrate_loop ps m = (acc', rej')" by fastforce
  have acc: "acc = (if rv_amount h \<le> n then h # acc' else acc')"
    using Cons.prems(2) r by (auto simp: m split: if_splits)
  have sub: "set acc' \<subseteq> set ps"
    using arbitrate_loop_sound [OF r] by simp
  have below: "\<forall>q \<in> set ps. reservation_key h < reservation_key q"
    using Cons.prems(1) by simp
  show ?case
  proof (cases "p = h")
    case True
    have "filter (\<lambda>q. reservation_key q < reservation_key h) acc' = []"
      using below sub by (fastforce simp: filter_empty_conv)
    moreover have "h \<notin> set acc'" using below sub by fastforce
    ultimately show ?thesis
      by (simp add: True acc word_le_nat_alt)
  next
    case False
    with Cons.prems(3) below have p: "p \<in> set ps" "reservation_key h < reservation_key p" by auto
    have "unat (n - rv_amount h) = unat n - unat (rv_amount h)" "unat (rv_amount h) \<le> unat n"
      if "rv_amount h \<le> n"
      using that by (simp_all add: unat_sub word_le_nat_alt)
    with Cons.IH [OF _ r p(1)] Cons.prems(1) p False show ?thesis
      by (auto simp: acc m)
  qed
qed simp

lemma reservation_key_transaction:
  "reservation_key x = reservation_key y \<Longrightarrow> rv_transactionId x = rv_transactionId y"
  by (simp add: reservation_key_def)

lemma proposals_keys_distinct:
  assumes "resource_inv r"
  shows "distinct (map reservation_key (rs_proposals r))"
proof -
  have "distinct (map rv_transactionId (rs_proposals r))"
    using assms by (simp add: resource_inv_def requests_inv_def)
  then show ?thesis
    by (induction "rs_proposals r") (auto simp: distinct_map inj_on_def dest: reservation_key_transaction)
qed

text \<open>
  C11: arbitration is deterministic and greedy. Its outcome depends only on which reservations were
  proposed, not on the order they were proposed in; and a proposal is accepted exactly when its
  amount fits beside the accepted proposals that precede it in the priority order; every other
  proposal is recorded as rejected.
\<close>

theorem arbitration_deterministic_greedy:
  assumes "resource_inv r" and "mset ps = mset (rs_proposals r)"
  shows "resource_decide (r\<lparr>rs_proposals := ps\<rparr>) = resource_decide r \<and>
    (\<forall>p \<in> set ps.
       (p \<in> set (rs_acceptedProposals (resource_decide r)) \<longleftrightarrow>
          unat (rv_amount p) + requested (filter (\<lambda>q. reservation_key q < reservation_key p)
            (rs_acceptedProposals (resource_decide r))) \<le> unat (availableCapacity r)) \<and>
       (p \<in> set (rs_acceptedProposals (resource_decide r)) \<longleftrightarrow>
          rv_transactionId p \<notin> set (rs_proposedRejectedTransactions (resource_decide r))))"
proof -
  let ?ps = "sort_key reservation_key (rs_proposals r)"
  obtain acc rej where run: "arbitrate_loop ?ps (availableCapacity r) = (acc, rej)" by fastforce
  have dec: "rs_acceptedProposals (resource_decide r) = acc"
    "rs_proposedRejectedTransactions (resource_decide r) = rej"
    by (simp_all add: resource_decide_def run)
  note d = proposals_keys_distinct [OF assms(1)]
  have same: "sort_key reservation_key ps = ?ps"
    by (rule sort_key_unique) (simp_all add: assms(2) d)
  have "mset (map reservation_key ?ps) = mset (map reservation_key (rs_proposals r))"
    "mset (map rv_transactionId ?ps) = mset (map rv_transactionId (rs_proposals r))"
    by (simp_all only: mset_map mset_sort)
  then have "distinct (map reservation_key ?ps)" and t: "distinct (map rv_transactionId ?ps)"
    using d assms(1) unfolding resource_inv_def requests_inv_def by (metis mset_eq_imp_distinct_iff)+
  then have inc: "increasing (map reservation_key ?ps)"
    by (simp add: strict_sorted_iff)
  have set: "set ?ps = set ps"
    using assms(2) by (metis mset_eq_setD set_sort)
  have set': "set ps = set (rs_proposals r)"
    using assms(2) by (metis mset_eq_setD)
  show ?thesis
  proof (intro conjI ballI)
    show "resource_decide (r\<lparr>rs_proposals := ps\<rparr>) = resource_decide r"
      by (simp add: resource_decide_def same availableCapacity_def)
  next
    fix p assume "p \<in> set ps"
    with arbitrate_loop_greedy [OF inc run, of p] show "p \<in> set (rs_acceptedProposals (resource_decide r)) \<longleftrightarrow>
          unat (rv_amount p) + requested (filter (\<lambda>q. reservation_key q < reservation_key p)
            (rs_acceptedProposals (resource_decide r))) \<le> unat (availableCapacity r)"
      by (simp add: dec set')
  next
    fix p assume "p \<in> set ps"
    with arbitrate_loop_sound [OF run] t set
    show "p \<in> set (rs_acceptedProposals (resource_decide r)) \<longleftrightarrow>
          rv_transactionId p \<notin> set (rs_proposedRejectedTransactions (resource_decide r))"
      by (auto simp: dec)
  qed
qed

definition sample_request :: "u32 \<Rightarrow> u64 \<Rightarrow> u32 \<Rightarrow> reservation" where
  "sample_request amount tid priority =
     \<lparr>rv_ownerId = 4, rv_amount = amount, rv_issueTime = Epoch 1 0, rv_readyTime = Epoch 2 0,
      rv_transactionId = tid, rv_rootTransactionId = tid, rv_priority = priority, rv_portIndex = 0,
      rv_instanceIndex = 0\<rparr>"

definition sample_resource :: resource where
  "sample_resource = (newResource ''bank'' 2 None 10 None)
     \<lparr>rs_proposals := [sample_request 6 1 5, sample_request 7 2 1, sample_request 3 3 9]\<rparr>"

lemmas sample_resource_defs = sample_resource_def sample_request_def newResource_def

lemma sample_resource_inv: "resource_inv sample_resource"
  by (simp add: resource_inv_def books_def drained_def requests_inv_def request_ok_def
      sample_resource_defs kInvalidObjectId_def epoch_order)

text \<open>A later proposal of a smaller amount overtakes an earlier one that does not fit.\<close>

theorem arbitration_deterministic_greedy_witness:
  "rs_acceptedProposals (resource_decide (sample_resource
      \<lparr>rs_proposals := [sample_request 3 3 9, sample_request 6 1 5, sample_request 7 2 1]\<rparr>)) =
     [sample_request 7 2 1, sample_request 3 3 9]"
proof -
  have "resource_decide (sample_resource
      \<lparr>rs_proposals := [sample_request 3 3 9, sample_request 6 1 5, sample_request 7 2 1]\<rparr>) =
      resource_decide sample_resource"
    using arbitration_deterministic_greedy [OF sample_resource_inv,
        of "[sample_request 3 3 9, sample_request 6 1 5, sample_request 7 2 1]"]
    by (simp add: sample_resource_defs add_mset_commute)
  then show ?thesis
    by (simp add: resource_decide_def sample_resource_defs reservation_key_def availableCapacity_def
        word_le_nat_alt)
qed

text \<open>
  Releases are owner-scoped and exact. Applying a committed release frees the smaller of the
  released amount and what its owner holds, leaves every reservation of another owner exactly as
  it was, and keeps the books of the resource.
\<close>

theorem release_owner_scoped:
  assumes "resource_inv r"
  shows "books (applyRelease p r) \<and>
    unat (rs_activeCapacity (applyRelease p r)) = unat (rs_activeCapacity r) -
      min (unat (rp_amount p))
          (reserved (filter (\<lambda>e. rv_ownerId (snd e) = rp_ownerId p) (rs_reservations r))) \<and>
    (\<forall>tid x. findReservation tid r = Some x \<and> rv_ownerId x \<noteq> rp_ownerId p \<longrightarrow>
       findReservation tid (applyRelease p r) = Some x)"
  using applyRelease_ok [of r p] assms
  unfolding resource_inv_def findReservation_def reserved_owned by simp

definition sample_held :: resource where
  "sample_held = (newResource ''bank'' 2 None 10 None)
     \<lparr>rs_reservations := [(1, sample_request 4 1 5), (2, (sample_request 3 2 1)\<lparr>rv_ownerId := 9\<rparr>)],
      rs_activeCapacity := 7, rs_totalReservations := 7\<rparr>"

lemma sample_held_inv: "resource_inv sample_held"
  by (simp add: resource_inv_def books_def drained_def requests_inv_def request_ok_def
      sample_held_def sample_resource_defs kInvalidObjectId_def epoch_order)

theorem release_owner_scoped_witness:
  "unat (rs_activeCapacity (applyRelease \<lparr>rp_ownerId = 4, rp_amount = 3\<rparr> sample_held)) = 4 \<and>
   findReservation 2 (applyRelease \<lparr>rp_ownerId = 4, rp_amount = 3\<rparr> sample_held) =
     Some ((sample_request 3 2 1)\<lparr>rv_ownerId := 9\<rparr>)"
  using release_owner_scoped [OF sample_held_inv, of "\<lparr>rp_ownerId = 4, rp_amount = 3\<rparr>"]
  by (simp add: sample_held_def sample_resource_defs findReservation_def)

end
