(* ===== verification/Statistic.thy ===== *)
theory Statistic
  imports Sim_Object
begin

text \<open>
  The statistic of \<open>include/gfsim/statistics.h\<close>: a counter, gauge or histogram whose updates
  are proposals until Xfer. The abstract specification of a statistic is the list of values it
  accepted; the refinement lemmas show that the counters, the extrema and the buckets are exactly
  those of that list, with no wrap-around.
\<close>

section \<open>State and operations\<close>

record statistic = sim_object +
  st_kind :: statistic_kind
  st_value :: u64
  st_count :: u64
  st_sum :: u64
  st_minimum :: "u64 option"
  st_maximum :: "u64 option"
  st_bounds :: "u64 list"
  st_bucketCounts :: "u64 list"
  st_lastUpdate :: epoch
  st_pending :: bool
  st_proposedValue :: u64
  st_proposedCount :: u64
  st_proposedSum :: u64
  st_proposedMinimum :: "u64 option"
  st_proposedMaximum :: "u64 option"
  st_proposedBucketCounts :: "u64 list"
  st_valid :: bool

definition newStatistic ::
  "string \<Rightarrow> object_id \<Rightarrow> ptr option \<Rightarrow> statistic_kind \<Rightarrow> statistic" where
  "newStatistic nm i parent kind =
     \<lparr>so_kind = KStatistic, so_name = nm, so_id = i, so_path = '''', so_parent = parent,
      so_observationSink = None, so_runtimeFailureCode = '''',
      st_kind = kind, st_value = 0, st_count = 0, st_sum = 0, st_minimum = None,
      st_maximum = None, st_bounds = [], st_bucketCounts = [], st_lastUpdate = epoch0,
      st_pending = False, st_proposedValue = 0, st_proposedCount = 0, st_proposedSum = 0,
      st_proposedMinimum = None, st_proposedMaximum = None, st_proposedBucketCounts = [],
      st_valid = (kind \<noteq> Histogram)\<rparr>"

text \<open>\<open>std::adjacent_find(bounds, greater_equal) == end\<close>\<close>

fun no_adjacent_ge :: "u64 list \<Rightarrow> bool" where
  "no_adjacent_ge (a # b # bs) = (\<not> a \<ge> b \<and> no_adjacent_ge (b # bs))"
| "no_adjacent_ge _ = True"

definition newHistogram ::
  "string \<Rightarrow> object_id \<Rightarrow> ptr option \<Rightarrow> u64 list \<Rightarrow> statistic" where
  "newHistogram nm i parent bounds =
     (newStatistic nm i parent Histogram)
       \<lparr>st_bounds := bounds, st_bucketCounts := replicate (length bounds + 1) 0,
        st_proposedBucketCounts := replicate (length bounds + 1) 0,
        st_valid := no_adjacent_ge bounds\<rparr>"

definition maxValue :: u64 where
  "maxValue = - 1"

definition proposeAdd :: "u64 \<Rightarrow> 'z statistic_scheme \<Rightarrow> bool \<times> 'z statistic_scheme" where
  "proposeAdd amount st =
     (if \<not> st_valid st \<or> st_kind st \<noteq> Counter \<or> amount > maxValue - st_proposedValue st \<or>
         st_proposedValue st + amount > maxValue - st_value st
      then (False, st)
      else (True, st\<lparr>st_proposedValue := st_proposedValue st + amount, st_pending := True\<rparr>))"

definition proposeSet :: "u64 \<Rightarrow> 'z statistic_scheme \<Rightarrow> bool \<times> 'z statistic_scheme" where
  "proposeSet v st =
     (if \<not> st_valid st \<or> st_kind st \<noteq> Gauge \<or> st_pending st then (False, st)
      else (True, st\<lparr>st_proposedValue := v, st_pending := True\<rparr>))"

definition proposeObserve :: "u64 \<Rightarrow> 'z statistic_scheme \<Rightarrow> bool \<times> 'z statistic_scheme" where
  "proposeObserve v st =
     (if \<not> st_valid st \<or> st_kind st \<noteq> Histogram \<or> st_proposedCount st \<ge> maxValue - st_count st \<or>
         v > maxValue - st_proposedSum st \<or> st_proposedSum st + v > maxValue - st_sum st
      then (False, st)
      else let bucket = lower_bound (st_bounds st) v in
        if st_proposedBucketCounts st ! bucket \<ge> maxValue - st_bucketCounts st ! bucket
        then (False, st)
        else (True, st\<lparr>st_proposedBucketCounts :=
                (st_proposedBucketCounts st)[bucket := st_proposedBucketCounts st ! bucket + 1],
              st_proposedCount := st_proposedCount st + 1,
              st_proposedSum := st_proposedSum st + v,
              st_proposedMinimum := (case st_proposedMinimum st of
                 None \<Rightarrow> Some v | Some m \<Rightarrow> if v < m then Some v else Some m),
              st_proposedMaximum := (case st_proposedMaximum st of
                 None \<Rightarrow> Some v | Some m \<Rightarrow> if v > m then Some v else Some m),
              st_pending := True\<rparr>))"

definition clearProposals :: "'z statistic_scheme \<Rightarrow> 'z statistic_scheme" where
  "clearProposals st = st\<lparr>st_proposedValue := 0, st_proposedCount := 0, st_proposedSum := 0,
     st_proposedMinimum := None, st_proposedMaximum := None,
     st_proposedBucketCounts := map (\<lambda>_. 0) (st_proposedBucketCounts st), st_pending := False\<rparr>"

definition statistic_doXfer :: "epoch \<Rightarrow> 'z statistic_scheme \<Rightarrow> 'z statistic_scheme" where
  "statistic_doXfer epoch st =
     (if \<not> st_pending st then st
      else clearProposals
        ((case st_kind st of
            Counter \<Rightarrow> st\<lparr>st_value := st_value st + st_proposedValue st\<rparr>
          | Gauge \<Rightarrow> st\<lparr>st_value := st_proposedValue st\<rparr>
          | Histogram \<Rightarrow> st\<lparr>st_count := st_count st + st_proposedCount st,
              st_sum := st_sum st + st_proposedSum st,
              st_minimum := (case (st_proposedMinimum st, st_minimum st) of
                 (Some p, Some m) \<Rightarrow> if p < m then Some p else Some m
               | (Some p, None) \<Rightarrow> Some p
               | (None, m) \<Rightarrow> m),
              st_maximum := (case (st_proposedMaximum st, st_maximum st) of
                 (Some p, Some m) \<Rightarrow> if p > m then Some p else Some m
               | (Some p, None) \<Rightarrow> Some p
               | (None, m) \<Rightarrow> m),
              st_bucketCounts := map (\<lambda>i. st_bucketCounts st ! i + st_proposedBucketCounts st ! i)
                 [0..<length (st_bucketCounts st)]\<rparr>)
           \<lparr>st_lastUpdate := epoch\<rparr>))"

definition statistic_hasPendingCommit :: "'z statistic_scheme \<Rightarrow> bool" where
  "statistic_hasPendingCommit st = st_pending st"

definition statistic_validate :: "'z statistic_scheme \<Rightarrow> bool" where
  "statistic_validate st = st_valid st"

text \<open>
  \<open>bucketCounts_.back()\<close> has no value on an empty vector: a histogram built by the kind
  constructor has no buckets, and its snapshot is undefined.
\<close>

definition snapshot :: "'z statistic_scheme \<Rightarrow> stat_snapshot option" where
  "snapshot st =
     (let base = \<lparr>ss_name = so_name st, ss_objectPath = so_path st, ss_kind = st_kind st,
        ss_value = (if st_kind st = Histogram then st_count st else st_value st),
        ss_count = st_count st, ss_sum = st_sum st,
        ss_minimum = (case st_minimum st of None \<Rightarrow> 0 | Some m \<Rightarrow> m),
        ss_maximum = (case st_maximum st of None \<Rightarrow> 0 | Some m \<Rightarrow> m),
        ss_buckets = [], ss_lastUpdate = st_lastUpdate st\<rparr>
      in if st_kind st = Histogram
         then (if st_bucketCounts st = [] then None
               else Some (base\<lparr>ss_buckets :=
                 map (\<lambda>i. \<lparr>hb_upperBound = st_bounds st ! i, hb_count = st_bucketCounts st ! i\<rparr>)
                   [0..<length (st_bounds st)] @
                 [\<lparr>hb_upperBound = maxValue, hb_count = last (st_bucketCounts st)\<rparr>]\<rparr>))
         else Some base)"

definition statistic_collectStatistics :: "'z statistic_scheme \<Rightarrow> stat_snapshot list option" where
  "statistic_collectStatistics st = map_option (\<lambda>s. [s]) (snapshot st)"

definition statistic_reset :: "'z statistic_scheme \<Rightarrow> 'z statistic_scheme" where
  "statistic_reset st = clearProposals
     (st\<lparr>st_value := 0, st_count := 0, st_sum := 0, st_minimum := None, st_maximum := None,
         st_bucketCounts := map (\<lambda>_. 0) (st_bucketCounts st), st_lastUpdate := epoch0\<rparr>)"

section \<open>The abstract statistic: the accepted values\<close>

definition total_of :: "u64 list \<Rightarrow> nat" where
  "total_of vs = sum_list (map unat vs)"

definition least_of :: "u64 list \<Rightarrow> u64 option" where
  "least_of vs = (if vs = [] then None else Some (Min (set vs)))"

definition greatest_of :: "u64 list \<Rightarrow> u64 option" where
  "greatest_of vs = (if vs = [] then None else Some (Max (set vs)))"

text \<open>Bucket \<open>i\<close> holds the values above bound \<open>i - 1\<close> and at most bound \<open>i\<close>.\<close>

definition tally :: "u64 list \<Rightarrow> u64 list \<Rightarrow> nat list" where
  "tally bounds vs = map (\<lambda>i. length (filter (\<lambda>v. lower_bound bounds v = i) vs)) [0..<Suc (length bounds)]"

definition fits :: "nat \<Rightarrow> bool" where
  "fits n \<longleftrightarrow> n < 2 ^ 64"

definition counter_rep :: "'z statistic_scheme \<Rightarrow> u64 list \<Rightarrow> u64 list \<Rightarrow> bool" where
  "counter_rep st cs ps \<longleftrightarrow> unat (st_value st) = total_of cs \<and>
     unat (st_proposedValue st) = total_of ps \<and> fits (total_of cs + total_of ps)"

definition gauge_rep :: "'z statistic_scheme \<Rightarrow> u64 list \<Rightarrow> u64 list \<Rightarrow> bool" where
  "gauge_rep st cs ps \<longleftrightarrow> st_value st = (if cs = [] then 0 else last cs) \<and>
     (ps = [] \<or> ps = [st_proposedValue st])"

definition histogram_rep :: "'z statistic_scheme \<Rightarrow> u64 list \<Rightarrow> u64 list \<Rightarrow> bool" where
  "histogram_rep st cs ps \<longleftrightarrow>
     unat (st_count st) = length cs \<and> unat (st_proposedCount st) = length ps \<and>
     fits (length cs + length ps) \<and>
     unat (st_sum st) = total_of cs \<and> unat (st_proposedSum st) = total_of ps \<and>
     fits (total_of cs + total_of ps) \<and>
     st_minimum st = least_of cs \<and> st_proposedMinimum st = least_of ps \<and>
     st_maximum st = greatest_of cs \<and> st_proposedMaximum st = greatest_of ps \<and>
     map unat (st_bucketCounts st) = tally (st_bounds st) cs \<and>
     map unat (st_proposedBucketCounts st) = tally (st_bounds st) ps"

definition statistic_rep :: "'z statistic_scheme \<Rightarrow> u64 list \<Rightarrow> u64 list \<Rightarrow> bool" where
  "statistic_rep st cs ps \<longleftrightarrow> st_valid st \<and> (st_pending st \<longleftrightarrow> ps \<noteq> []) \<and>
     (case st_kind st of Counter \<Rightarrow> counter_rep st cs ps | Gauge \<Rightarrow> gauge_rep st cs ps
      | Histogram \<Rightarrow> histogram_rep st cs ps)"

lemma total_of_simps [simp]:
  "total_of [] = 0" "total_of (v # vs) = unat v + total_of vs" "total_of (vs @ ws) = total_of vs + total_of ws"
  by (simp_all add: total_of_def)

lemma least_of_append: "least_of (vs @ ws) =
    (case (least_of ws, least_of vs) of (Some p, Some m) \<Rightarrow> if p < m then Some p else Some m
       | (Some p, None) \<Rightarrow> Some p | (None, m) \<Rightarrow> m)"
proof -
  have "vs \<noteq> [] \<Longrightarrow> ws \<noteq> [] \<Longrightarrow> Min (set vs \<union> set ws) = min (Min (set ws)) (Min (set vs))"
    by (simp add: Min_Un min.commute)
  then show ?thesis
    by (cases "vs = []"; cases "ws = []")
       (auto simp: least_of_def min_def simp del: Min_gr_iff Min_ge_iff Min_less_iff Min_le_iff)
qed

lemma greatest_of_append: "greatest_of (vs @ ws) =
    (case (greatest_of ws, greatest_of vs) of (Some p, Some m) \<Rightarrow> if p > m then Some p else Some m
       | (Some p, None) \<Rightarrow> Some p | (None, m) \<Rightarrow> m)"
proof -
  have "vs \<noteq> [] \<Longrightarrow> ws \<noteq> [] \<Longrightarrow> Max (set vs \<union> set ws) = max (Max (set vs)) (Max (set ws))"
    by (simp add: Max_Un)
  then show ?thesis
    by (cases "vs = []"; cases "ws = []")
       (auto simp: greatest_of_def max_def simp del: Max_gr_iff Max_ge_iff Max_less_iff Max_le_iff)
qed

lemma least_of_snoc: "least_of (vs @ [v]) =
    (case least_of vs of None \<Rightarrow> Some v | Some m \<Rightarrow> if v < m then Some v else Some m)"
  unfolding least_of_append by (simp add: least_of_def split: option.split)

lemma greatest_of_snoc: "greatest_of (vs @ [v]) =
    (case greatest_of vs of None \<Rightarrow> Some v | Some m \<Rightarrow> if v > m then Some v else Some m)"
  unfolding greatest_of_append by (simp add: greatest_of_def split: option.split)

lemma length_tally [simp]: "length (tally bounds vs) = Suc (length bounds)"
  by (simp add: tally_def)

lemma tally_nth: "i \<le> length bounds \<Longrightarrow>
    tally bounds vs ! i = length (filter (\<lambda>v. lower_bound bounds v = i) vs)"
  by (simp add: tally_def del: upt_Suc)

lemma tally_le: "i \<le> length bounds \<Longrightarrow> tally bounds vs ! i \<le> length vs"
  by (simp add: tally_nth)

lemma tally_append: "i \<le> length bounds \<Longrightarrow>
    tally bounds (vs @ ws) ! i = tally bounds vs ! i + tally bounds ws ! i"
  by (simp add: tally_nth)

lemma tally_snoc: "tally bounds (vs @ [v]) =
    (tally bounds vs)[lower_bound bounds v := Suc (tally bounds vs ! lower_bound bounds v)]"
  by (rule nth_equalityI)
     (auto simp: tally_nth nth_list_update lower_bound_le le_less_Suc_eq)

lemma tally_Nil: "tally bounds [] = replicate (Suc (length bounds)) 0"
  by (simp add: tally_def map_replicate_const del: upt_Suc)

lemma sum_tally: "sum_list (tally bounds vs) = length vs"
proof (induction vs rule: rev_induct)
  case Nil
  show ?case by (simp add: tally_Nil)
next
  case (snoc v vs)
  have "lower_bound bounds v < length (tally bounds vs)"
    by (simp add: lower_bound_le le_imp_less_Suc)
  then have "sum_list ((tally bounds vs)[lower_bound bounds v := Suc (tally bounds vs ! lower_bound bounds v)]) =
      Suc (sum_list (tally bounds vs))"
    by (simp add: sum_list_update elem_le_sum_list)
  then show ?case by (simp add: tally_snoc snoc)
qed

lemma unat_maxValue: "unat (maxValue - a) = 2 ^ 64 - 1 - unat a"
  unfolding maxValue_def using unat_max_minus [of a] by simp

lemma fits_add: "fits (unat (a :: u64) + unat b) \<Longrightarrow> unat (a + b) = unat a + unat b"
  by (simp add: fits_def unat_add_lem [symmetric])

lemma guard_fits:
  "\<not> v > maxValue - a \<longleftrightarrow> fits (unat a + unat v)"
proof -
  have "unat (maxValue - a) = 2 ^ 64 - 1 - unat a" and "unat a < 2 ^ 64"
    using unsigned_less [of a, where ?'a = nat] by (simp_all add: unat_maxValue)
  then show ?thesis unfolding word_less_nat_alt fits_def by auto
qed

section \<open>The operations refine appending to the list\<close>

lemma strict_guard_fits: "\<not> a \<ge> maxValue - (b :: u64) \<Longrightarrow> fits (Suc (unat b + unat a))"
proof -
  assume "\<not> a \<ge> maxValue - b"
  then have "unat a < 2 ^ 64 - 1 - unat b"
    by (simp add: not_le word_less_nat_alt unat_maxValue)
  then show ?thesis by (simp add: fits_def)
qed

lemma unat_Suc_fits: "fits (Suc (unat b + unat a)) \<Longrightarrow> unat (a + 1 :: u64) = Suc (unat a)"
  using fits_add [of a 1] by (simp add: fits_def)

lemma observe_refines:
  assumes "statistic_rep st cs ps" and "proposeObserve v st = (True, st')"
  shows "statistic_rep st' cs (ps @ [v])"
proof -
  let ?b = "lower_bound (st_bounds st) v"
  let ?P = "st_proposedBucketCounts st" and ?B = "st_bucketCounts st"
  have kind: "st_kind st = Histogram" and valid: "st_valid st"
    and g1: "\<not> st_proposedCount st \<ge> maxValue - st_count st"
    and g2: "\<not> v > maxValue - st_proposedSum st"
    and g3: "\<not> st_proposedSum st + v > maxValue - st_sum st"
    and g4: "\<not> ?P ! ?b \<ge> maxValue - ?B ! ?b"
    and st': "st' = st\<lparr>st_proposedBucketCounts := ?P[?b := ?P ! ?b + 1],
              st_proposedCount := st_proposedCount st + 1,
              st_proposedSum := st_proposedSum st + v,
              st_proposedMinimum := (case st_proposedMinimum st of
                 None \<Rightarrow> Some v | Some m \<Rightarrow> if v < m then Some v else Some m),
              st_proposedMaximum := (case st_proposedMaximum st of
                 None \<Rightarrow> Some v | Some m \<Rightarrow> if v > m then Some v else Some m),
              st_pending := True\<rparr>"
    using assms(2) by (simp_all add: proposeObserve_def Let_def split: if_splits)
  have rep: "histogram_rep st cs ps"
    using assms(1) kind by (simp add: statistic_rep_def)
  have "unat (st_proposedSum st + v) = unat (st_proposedSum st) + unat v"
    using g2 by (simp only: guard_fits fits_add)
  moreover have "fits (unat (st_sum st) + unat (st_proposedSum st + v))"
    using g3 by (simp only: guard_fits)
  moreover note count = strict_guard_fits [OF g1]
  moreover note unat_Suc_fits [OF count]
  moreover have "map unat (?P[?b := ?P ! ?b + 1]) = tally (st_bounds st) (ps @ [v])"
  proof -
    have "length ?P = Suc (length (st_bounds st))"
      using rep by (metis histogram_rep_def length_map length_tally)
    then have b: "?b < length ?P"
      by (simp add: lower_bound_le le_imp_less_Suc)
    have "tally (st_bounds st) ps = map unat ?P"
      using rep by (simp add: histogram_rep_def)
    then show ?thesis
      using unat_Suc_fits [OF strict_guard_fits [OF g4]] b by (simp add: tally_snoc map_update)
  qed
  ultimately have "histogram_rep st' cs (ps @ [v])"
    using rep unfolding histogram_rep_def st' by (simp add: least_of_snoc greatest_of_snoc)
  then show ?thesis
    using kind valid by (simp add: statistic_rep_def st')
qed

lemma add_refines:
  assumes "statistic_rep st cs ps" and "proposeAdd n st = (True, st')"
  shows "statistic_rep st' cs (ps @ [n])"
proof -
  have kind: "st_kind st = Counter" and g1: "\<not> n > maxValue - st_proposedValue st"
    and g2: "\<not> st_proposedValue st + n > maxValue - st_value st"
    and st': "st' = st\<lparr>st_proposedValue := st_proposedValue st + n, st_pending := True\<rparr>"
    using assms(2) by (simp_all add: proposeAdd_def split: if_splits)
  have "unat (st_proposedValue st + n) = unat (st_proposedValue st) + unat n"
    using g1 by (simp only: guard_fits fits_add)
  moreover have "fits (unat (st_value st) + unat (st_proposedValue st + n))"
    using g2 by (simp only: guard_fits)
  ultimately show ?thesis
    using assms(1) kind by (simp add: statistic_rep_def counter_rep_def st')
qed

lemma set_refines:
  assumes "statistic_rep st cs ps" and "proposeSet v st = (True, st')"
  shows "statistic_rep st' cs (ps @ [v])"
  using assms by (auto simp: proposeSet_def statistic_rep_def gauge_rep_def split: if_splits)

lemma refused_unchanged:
  "proposeObserve v st = (False, st') \<Longrightarrow> st' = st"
  "proposeAdd v st = (False, st') \<Longrightarrow> st' = st"
  "proposeSet v st = (False, st') \<Longrightarrow> st' = st"
  by (auto simp: proposeObserve_def proposeAdd_def proposeSet_def Let_def split: if_splits)

lemma histogram_xfer:
  assumes "histogram_rep st cs ps" "st_kind st = Histogram" "st_pending st" "st_valid st"
  shows "statistic_rep (statistic_doXfer e st) (cs @ ps) []"
proof -
  let ?P = "st_proposedBucketCounts st" and ?B = "st_bucketCounts st" and ?n = "Suc (length (st_bounds st))"
  have tB: "map unat ?B = tally (st_bounds st) cs" and tP: "map unat ?P = tally (st_bounds st) ps"
    and fl: "fits (length cs + length ps)"
    using assms(1) by (simp_all add: histogram_rep_def)
  have len: "length ?B = ?n" "length ?P = ?n"
    using tB tP by (metis length_map length_tally)+
  have "unat (?B ! i + ?P ! i) = tally (st_bounds st) (cs @ ps) ! i" if "i < ?n" for i
  proof -
    have "unat (?B ! i) = tally (st_bounds st) cs ! i" "unat (?P ! i) = tally (st_bounds st) ps ! i"
      using that tB tP len by (metis nth_map)+
    moreover have "tally (st_bounds st) cs ! i + tally (st_bounds st) ps ! i \<le> length cs + length ps"
      using that by (intro add_mono tally_le) simp_all
    ultimately show ?thesis
      using that fl by (simp add: tally_append fits_add fits_def)
  qed
  then have buckets: "map unat (map (\<lambda>i. ?B ! i + ?P ! i) [0..<length ?B]) = tally (st_bounds st) (cs @ ps)"
    by (intro nth_equalityI) (simp_all add: len del: upt_Suc)
  moreover have "map unat (map (\<lambda>_. 0) ?P) = tally (st_bounds st) []"
    by (simp add: tally_Nil map_replicate_const len)
  ultimately show ?thesis
    using assms
    by (simp add: statistic_doXfer_def clearProposals_def statistic_rep_def histogram_rep_def fits_add
        least_of_append greatest_of_append least_of_def [of "[]"] greatest_of_def [of "[]"] fits_def
        del: map_map)
qed

lemma xfer_refines:
  assumes "statistic_rep st cs ps"
  shows "statistic_rep (statistic_doXfer e st) (cs @ ps) []"
proof (cases "st_pending st")
  case False
  then have "ps = []" using assms by (simp add: statistic_rep_def)
  with False show ?thesis using assms by (simp add: statistic_doXfer_def)
next
  case True
  show ?thesis
  proof (cases "st_kind st")
    case Histogram
    with assms True show ?thesis by (intro histogram_xfer) (simp_all add: statistic_rep_def)
  qed (use assms True in \<open>auto simp: statistic_doXfer_def clearProposals_def statistic_rep_def
         counter_rep_def gauge_rep_def fits_add\<close>)
qed

lemma new_refines: "kind \<noteq> Histogram \<Longrightarrow> statistic_rep (newStatistic nm i parent kind) [] []"
  by (cases kind) (simp_all add: newStatistic_def statistic_rep_def counter_rep_def gauge_rep_def fits_def)

lemma newHistogram_refines:
  "no_adjacent_ge bounds \<Longrightarrow> statistic_rep (newHistogram nm i parent bounds) [] []"
  by (simp add: newHistogram_def newStatistic_def statistic_rep_def histogram_rep_def fits_def
      tally_Nil least_of_def greatest_of_def)

lemma reset_refines:
  assumes "statistic_rep st cs ps"
  shows "statistic_rep (statistic_reset st) [] []"
proof (cases "st_kind st")
  case Histogram
  then have "map unat (st_bucketCounts st) = tally (st_bounds st) cs"
    "map unat (st_proposedBucketCounts st) = tally (st_bounds st) ps"
    using assms by (simp_all add: statistic_rep_def histogram_rep_def)
  then have "length (st_bucketCounts st) = Suc (length (st_bounds st))"
    "length (st_proposedBucketCounts st) = Suc (length (st_bounds st))"
    by (metis length_map length_tally)+
  with Histogram assms show ?thesis
    by (simp add: statistic_rep_def histogram_rep_def statistic_reset_def clearProposals_def
        fits_def tally_Nil map_replicate_const least_of_def greatest_of_def)
qed (use assms in \<open>simp_all add: statistic_rep_def counter_rep_def gauge_rep_def statistic_reset_def
      clearProposals_def fits_def\<close>)

text \<open>A run of calls, with the values accepted and committed, and accepted and pending.\<close>

datatype statistic_call = SAdd u64 | SSet u64 | SObserve u64 | SXfer epoch | SReset

fun statistic_apply ::
  "statistic_call \<Rightarrow> u64 list \<times> u64 list \<times> statistic \<Rightarrow> u64 list \<times> u64 list \<times> statistic" where
  "statistic_apply (SAdd n) (cs, ps, st) =
     (case proposeAdd n st of (ok, st') \<Rightarrow> (cs, if ok then ps @ [n] else ps, st'))"
| "statistic_apply (SSet n) (cs, ps, st) =
     (case proposeSet n st of (ok, st') \<Rightarrow> (cs, if ok then ps @ [n] else ps, st'))"
| "statistic_apply (SObserve n) (cs, ps, st) =
     (case proposeObserve n st of (ok, st') \<Rightarrow> (cs, if ok then ps @ [n] else ps, st'))"
| "statistic_apply (SXfer e) (cs, ps, st) = (cs @ ps, [], statistic_doXfer e st)"
| "statistic_apply SReset (cs, ps, st) = ([], [], statistic_reset st)"

lemma statistic_run_rep:
  assumes "statistic_rep st cs ps" and "fold statistic_apply calls (cs, ps, st) = (cs', ps', st')"
  shows "statistic_rep st' cs' ps'"
  using assms
proof (induction calls arbitrary: cs ps st)
  case (Cons c calls)
  obtain cs1 ps1 st1 where step: "statistic_apply c (cs, ps, st) = (cs1, ps1, st1)"
    by (metis prod_cases3)
  have "statistic_rep st1 cs1 ps1"
  proof (cases c)
    case (SAdd n)
    then show ?thesis using step Cons.prems(1)
      by (cases "proposeAdd n st") (auto split: if_splits dest: refused_unchanged add_refines)
  next
    case (SSet n)
    then show ?thesis using step Cons.prems(1)
      by (cases "proposeSet n st") (auto split: if_splits dest: refused_unchanged set_refines)
  next
    case (SObserve n)
    then show ?thesis using step Cons.prems(1)
      by (cases "proposeObserve n st") (auto split: if_splits dest: refused_unchanged observe_refines)
  next
    case (SXfer e)
    then show ?thesis using step xfer_refines [OF Cons.prems(1)] by auto
  next
    case SReset
    then show ?thesis using step reset_refines [OF Cons.prems(1)] by auto
  qed
  with Cons.IH Cons.prems(2) step show ?case by simp
qed simp

lemma lower_bound_eq_iff:
  assumes "i < length bs"
  shows "lower_bound bs v = i \<longleftrightarrow> v \<le> bs ! i \<and> (\<forall>j < i. bs ! j < v)"
proof
  assume "lower_bound bs v = i"
  with assms show "v \<le> bs ! i \<and> (\<forall>j < i. bs ! j < v)"
    using lower_bound_below lower_bound_at by blast
next
  assume "v \<le> bs ! i \<and> (\<forall>j < i. bs ! j < v)"
  then have "takeWhile (\<lambda>b. b < v) bs = take i bs"
    by (intro takeWhile_eq_take_P_nth) auto
  with assms show "lower_bound bs v = i" by (simp add: lower_bound_def)
qed

section \<open>Properties\<close>

text \<open>
  C37: a statistic is exactly the accumulation of the values it accepted. Over any sequence of
  add, set, observe, Xfer and reset calls a histogram with strictly increasing bounds holds the
  exact number, sum, minimum and maximum of the committed values and one bucket count per bound,
  a counter holds their exact sum and a gauge the last of them; no counter ever wraps, and
  proposals become visible only at Xfer.
\<close>

theorem statistic_refines_accepted_values:
  assumes "st0 = (case kind of Histogram \<Rightarrow> newHistogram nm i parent bounds
                   | _ \<Rightarrow> newStatistic nm i parent kind)"
    and "no_adjacent_ge bounds"
    and "fold statistic_apply calls ([], [], st0) = (committed, pending, st)"
  shows "statistic_rep st committed pending"
proof (rule statistic_run_rep [OF _ assms(3)])
  show "statistic_rep st0 [] []"
    unfolding assms(1) using assms(2) new_refines newHistogram_refines
    by (cases kind) simp_all
qed

definition sample_histogram :: statistic where
  "sample_histogram = newHistogram ''latency'' 5 None [10, 20]"

lemma sample_histogram_run:
  "fold statistic_apply [SObserve 10, SObserve 25, SXfer (Epoch 1 0), SObserve 3]
     ([], [], sample_histogram) =
   ([10, 25], [3], snd (snd (fold statistic_apply
      [SObserve 10, SObserve 25, SXfer (Epoch 1 0), SObserve 3] ([], [], sample_histogram))))"
  by code_simp

theorem statistic_refines_accepted_values_witness:
  "\<exists>st. fold statistic_apply [SObserve 10, SObserve 25, SXfer (Epoch 1 0), SObserve 3]
     ([], [], sample_histogram) = ([10, 25], [3], st) \<and> statistic_rep st [10, 25] [3]"
proof -
  have "no_adjacent_ge [10, 20 :: u64]" by simp
  moreover have "sample_histogram = (case Histogram of Histogram \<Rightarrow> newHistogram ''latency'' 5 None [10, 20]
      | _ \<Rightarrow> newStatistic ''latency'' 5 None Histogram)"
    by (simp add: sample_histogram_def)
  ultimately show ?thesis
    using statistic_refines_accepted_values [OF _ _ sample_histogram_run] sample_histogram_run
    by blast
qed

text \<open>
  A histogram snapshot partitions the committed values: it has one bucket per bound and an
  overflow bucket, the counts add up to the number of committed values, and each bucket counts
  exactly the values above the previous bound and up to its own.
\<close>

theorem histogram_snapshot_partition:
  assumes "statistic_rep st committed pending" and "st_kind st = Histogram"
  shows "\<exists>s. snapshot st = Some s \<and> length (ss_buckets s) = length (st_bounds st) + 1 \<and>
    sum_list (map (\<lambda>b. unat (hb_count b)) (ss_buckets s)) = length committed \<and>
    (\<forall>i < length (st_bounds st). hb_upperBound (ss_buckets s ! i) = st_bounds st ! i \<and>
       unat (hb_count (ss_buckets s ! i)) =
         length (filter (\<lambda>v. v \<le> st_bounds st ! i \<and> (\<forall>j < i. st_bounds st ! j < v)) committed))"
proof -
  let ?B = "st_bucketCounts st" and ?bs = "st_bounds st"
  have t: "map unat ?B = tally ?bs committed"
    using assms by (simp add: statistic_rep_def histogram_rep_def)
  then have len: "length ?B = Suc (length ?bs)"
    by (metis length_map length_tally)
  then have ne: "?B \<noteq> []" by auto
  define buckets where "buckets = map (\<lambda>i. \<lparr>hb_upperBound = ?bs ! i, hb_count = ?B ! i\<rparr>) [0..<length ?bs] @
      [\<lparr>hb_upperBound = maxValue, hb_count = last ?B\<rparr>]"
  obtain s where s: "snapshot st = Some s" "ss_buckets s = buckets"
    using assms(2) ne by (simp add: snapshot_def buckets_def)
  have "map hb_count buckets = ?B"
    using len by (intro nth_equalityI)
      (auto simp: buckets_def nth_append less_Suc_eq last_conv_nth [OF ne])
  then have "map (\<lambda>b. unat (hb_count b)) buckets = tally ?bs committed"
    unfolding t [symmetric] by (metis map_map comp_apply map_cong)
  then have "sum_list (map (\<lambda>b. unat (hb_count b)) buckets) = length committed"
    by (simp only: sum_tally)
  moreover have "unat (hb_count (buckets ! i)) =
      length (filter (\<lambda>v. v \<le> ?bs ! i \<and> (\<forall>j < i. ?bs ! j < v)) committed)" if "i < length ?bs" for i
  proof -
    have "unat (hb_count (buckets ! i)) = tally ?bs committed ! i"
      using that len by (simp add: buckets_def nth_append t [symmetric])
    then show ?thesis
      using that by (simp add: tally_nth lower_bound_eq_iff)
  qed
  ultimately show ?thesis
    using s by (auto simp: buckets_def nth_append)
qed

theorem histogram_snapshot_partition_witness:
  "\<exists>s. snapshot sample_histogram = Some s \<and> length (ss_buckets s) = 3 \<and>
     sum_list (map (\<lambda>b. unat (hb_count b)) (ss_buckets s)) = 0"
proof -
  have "statistic_rep sample_histogram [] []"
    unfolding sample_histogram_def by (rule newHistogram_refines) simp
  moreover have "st_kind sample_histogram = Histogram" "length (st_bounds sample_histogram) = 2"
    by (simp_all add: sample_histogram_def newHistogram_def newStatistic_def)
  ultimately show ?thesis
    using histogram_snapshot_partition [of sample_histogram "[]" "[]"] by auto
qed


end
