(* ===== verification/Process.thy ===== *)
theory Process
  imports Sim_System
begin

text \<open>
  The process runtime of \<open>include/gfsim/process.h\<close>. The compiler generates
  \<open>executeProcessStep\<close>; here it is the parameter \<open>exec\<close>, a function of the program counter,
  the epoch and the whole world \<open>'w\<close> the generated code can reach (its own locals, the queues,
  arrays and resources of the model, and the system), returning the step and the new world.
  The lemmas show that \<open>validate\<close> is an invariant, that a runnable process always reaches a
  proposal within its fairness bound, that only a matching wake resumes a suspended process, and
  that terminated and failed processes stay so.
\<close>

section \<open>Steps\<close>

datatype process_status = Runnable | Suspended | Terminated | ProcessFailed

datatype process_wake_kind = WCondition | WResource | WEventQueue | WNextDelta | WQueueReadable
  | WQueueWritable

record process_wake =
  pw_kind :: process_wake_kind
  pw_id :: u32

datatype process_step_kind = Continue | Suspend | Terminate | Fail

record process_step =
  ps_kind :: process_step_kind
  ps_nextPc :: u32
  ps_wake :: "process_wake option"
  ps_continuationId :: u64
  ps_diagnostic :: string

definition continueAt :: "u32 \<Rightarrow> process_step" where
  "continueAt pc = \<lparr>ps_kind = Continue, ps_nextPc = pc, ps_wake = None, ps_continuationId = 0,
     ps_diagnostic = ''invalid_process_step''\<rparr>"

definition suspendAt :: "u32 \<Rightarrow> process_wake \<Rightarrow> u64 \<Rightarrow> process_step" where
  "suspendAt pc w c = \<lparr>ps_kind = Suspend, ps_nextPc = pc, ps_wake = Some w, ps_continuationId = c,
     ps_diagnostic = ''''\<rparr>"

definition terminateStep :: process_step where
  "terminateStep = \<lparr>ps_kind = Terminate, ps_nextPc = 0, ps_wake = None, ps_continuationId = 0,
     ps_diagnostic = ''''\<rparr>"

definition failStep :: "string \<Rightarrow> process_step" where
  "failStep d = \<lparr>ps_kind = Fail, ps_nextPc = 0, ps_wake = None, ps_continuationId = 0,
     ps_diagnostic = d\<rparr>"

section \<open>State and operations\<close>

record process = sim_object +
  pr_entryPc :: u32
  pr_committedPc :: u32
  pr_proposedPc :: u32
  pr_fairnessWork :: u64
  pr_committedStatus :: process_status
  pr_proposedStatus :: process_status
  pr_committedWake :: "process_wake option"
  pr_proposedWake :: "process_wake option"
  pr_committedContinuationId :: u64
  pr_proposedContinuationId :: u64
  pr_committedDiagnostic :: string
  pr_proposedDiagnostic :: string
  pr_pendingCommit :: bool
  pr_traceEndRequested :: bool

definition newProcess :: "string \<Rightarrow> object_id \<Rightarrow> ptr option \<Rightarrow> u32 \<Rightarrow> u64 \<Rightarrow> process" where
  "newProcess nm i parent entryPc fairnessWork =
     \<lparr>so_kind = KProcess, so_name = nm, so_id = i, so_path = '''', so_parent = parent,
      so_observationSink = None, so_runtimeFailureCode = '''',
      pr_entryPc = entryPc, pr_committedPc = entryPc, pr_proposedPc = entryPc,
      pr_fairnessWork = fairnessWork, pr_committedStatus = Runnable, pr_proposedStatus = Runnable,
      pr_committedWake = None, pr_proposedWake = None, pr_committedContinuationId = 0,
      pr_proposedContinuationId = 0, pr_committedDiagnostic = '''', pr_proposedDiagnostic = '''',
      pr_pendingCommit = False, pr_traceEndRequested = False\<rparr>"

definition proposeFailure :: "string \<Rightarrow> 'z process_scheme \<Rightarrow> 'z process_scheme" where
  "proposeFailure d p = p\<lparr>pr_proposedStatus := ProcessFailed, pr_proposedWake := None,
     pr_proposedContinuationId := 0, pr_proposedDiagnostic := d, pr_pendingCommit := True\<rparr>"

text \<open>The Work loop with \<open>n\<close> iterations left.\<close>

fun process_loop ::
  "(u32 \<Rightarrow> epoch \<Rightarrow> 'w \<Rightarrow> process_step \<times> 'w) \<Rightarrow> epoch \<Rightarrow> nat \<Rightarrow> u32 \<Rightarrow> 'z process_scheme \<Rightarrow> 'w
   \<Rightarrow> 'z process_scheme \<times> 'w" where
  "process_loop exec epoch 0 localPc p w =
     (proposeFailure ''process_fairness_exceeded'' (p\<lparr>pr_proposedPc := localPc\<rparr>), w)"
| "process_loop exec epoch (Suc n) localPc p w =
     (case exec localPc epoch w of
        (st, w') \<Rightarrow>
          (case ps_kind st of
             Continue \<Rightarrow> process_loop exec epoch n (ps_nextPc st) p w'
           | Suspend \<Rightarrow>
               if ps_wake st = None \<or> ps_continuationId st = 0
               then (proposeFailure ''invalid_process_continuation'' p, w')
               else (p\<lparr>pr_proposedPc := ps_nextPc st, pr_proposedStatus := Suspended,
                       pr_proposedWake := ps_wake st, pr_proposedContinuationId := ps_continuationId st,
                       pr_proposedDiagnostic := '''', pr_pendingCommit := True\<rparr>, w')
           | Terminate \<Rightarrow>
               (p\<lparr>pr_proposedPc := localPc, pr_proposedStatus := Terminated, pr_proposedWake := None,
                  pr_proposedContinuationId := 0, pr_proposedDiagnostic := '''',
                  pr_pendingCommit := True\<rparr>, w')
           | Fail \<Rightarrow>
               (proposeFailure (if ps_diagnostic st = '''' then ''process_failed'' else ps_diagnostic st) p, w')))"

definition process_doWork ::
  "(u32 \<Rightarrow> epoch \<Rightarrow> 'w \<Rightarrow> process_step \<times> 'w) \<Rightarrow> epoch \<Rightarrow> 'z process_scheme \<Rightarrow> 'w
   \<Rightarrow> 'z process_scheme \<times> 'w" where
  "process_doWork exec epoch p w =
     (if pr_committedStatus p \<noteq> Runnable \<or> pr_pendingCommit p then (p, w)
      else if pr_traceEndRequested p
      then (p\<lparr>pr_proposedPc := pr_committedPc p, pr_proposedStatus := Terminated,
              pr_proposedWake := None, pr_proposedContinuationId := 0,
              pr_proposedDiagnostic := '''', pr_pendingCommit := True\<rparr>, w)
      else process_loop exec epoch (unat (pr_fairnessWork p)) (pr_committedPc p) p w)"

definition process_doXfer :: "epoch \<Rightarrow> 'z process_scheme \<Rightarrow> 'z process_scheme" where
  "process_doXfer epoch p =
     (if \<not> pr_pendingCommit p then p
      else
        let p1 = p\<lparr>pr_committedPc := pr_proposedPc p, pr_committedStatus := pr_proposedStatus p,
                   pr_committedWake := pr_proposedWake p,
                   pr_committedContinuationId := pr_proposedContinuationId p,
                   pr_committedDiagnostic := pr_proposedDiagnostic p, pr_pendingCommit := False\<rparr>;
            p2 = (if pr_committedStatus p1 = Terminated then p1\<lparr>pr_traceEndRequested := False\<rparr> else p1)
        in if pr_committedStatus p2 = ProcessFailed
           then setRuntimeFailureCode (pr_committedDiagnostic p2) p2 else p2)"

definition process_hasPendingCommit :: "'z process_scheme \<Rightarrow> bool" where
  "process_hasPendingCommit p = pr_pendingCommit p"

definition process_isRunnable :: "'z process_scheme \<Rightarrow> bool" where
  "process_isRunnable p \<longleftrightarrow> pr_committedStatus p = Runnable \<and> \<not> pr_pendingCommit p"

definition wake_kind_name :: "process_wake_kind \<Rightarrow> string" where
  "wake_kind_name k = (case k of WCondition \<Rightarrow> ''condition'' | WResource \<Rightarrow> ''resource''
     | WEventQueue \<Rightarrow> ''event_queue'' | WNextDelta \<Rightarrow> ''next_delta''
     | WQueueReadable \<Rightarrow> ''queue_readable'' | WQueueWritable \<Rightarrow> ''queue_writable'')"

definition process_runtimeState :: "'z process_scheme \<Rightarrow> runtime_object_state" where
  "process_runtimeState p =
     (let base = base_runtimeState (process_hasPendingCommit p) (process_isRunnable p);
          quiescent = (\<not> pr_pendingCommit p \<and>
             (pr_committedStatus p = Terminated \<or> pr_committedStatus p = ProcessFailed));
          state = base\<lparr>ros_quiescent := quiescent\<rparr>
      in if quiescent then state\<lparr>ros_reason := ''''\<rparr>
         else if pr_pendingCommit p then state\<lparr>ros_reason := ''pending_commit''\<rparr>
         else if pr_committedStatus p = Runnable
         then state\<lparr>ros_reason := ''process_runnable_unscheduled''\<rparr>
         else state\<lparr>ros_reason := ''process_suspended'',
           ros_subscriptions := (case pr_committedWake p of
              None \<Rightarrow> ros_subscriptions state
            | Some w \<Rightarrow> ros_subscriptions state @
                [wake_kind_name (pw_kind w) @ '':'' @ decimal (unat (pw_id w))])\<rparr>)"

definition process_wakeup :: "process_wake \<Rightarrow> u64 \<Rightarrow> 'z process_scheme \<Rightarrow> bool \<times> 'z process_scheme" where
  "process_wakeup w continuationId p =
     (if pr_committedStatus p \<noteq> Suspended \<or> pr_committedWake p \<noteq> Some w \<or>
         pr_committedContinuationId p \<noteq> continuationId
      then (False, p)
      else (True, p\<lparr>pr_committedStatus := Runnable, pr_committedWake := None\<rparr>))"

text \<open>Whether a wake subscription of object \<open>self\<close> accepts a commit of \<open>source\<close>.\<close>

definition wake_accepts :: "object_id \<Rightarrow> process_wake \<Rightarrow> object_id \<Rightarrow> bool" where
  "wake_accepts self w source =
     (case pw_kind w of
        WQueueReadable \<Rightarrow> pw_id w = source
      | WQueueWritable \<Rightarrow> pw_id w = source
      | WNextDelta \<Rightarrow> source = self
      | _ \<Rightarrow> \<not> (pw_id w \<noteq> 0 \<and> pw_id w \<noteq> source))"

definition process_activateFrom :: "object_id \<Rightarrow> 'z process_scheme \<Rightarrow> bool \<times> 'z process_scheme" where
  "process_activateFrom source p =
     (if pr_committedStatus p = Runnable then (True, p)
      else if pr_committedStatus p \<noteq> Suspended then (False, p)
      else case pr_committedWake p of
        None \<Rightarrow> (False, p)
      | Some w \<Rightarrow>
          if \<not> wake_accepts (so_id p) w source then (False, p)
          else (True, p\<lparr>pr_committedStatus := Runnable, pr_committedWake := None\<rparr>))"

definition process_requestTraceEnd :: "'z process_scheme \<Rightarrow> bool \<times> 'z process_scheme" where
  "process_requestTraceEnd p =
     (if pr_pendingCommit p \<or> pr_committedStatus p \<noteq> Suspended then (False, p)
      else case pr_committedWake p of
        None \<Rightarrow> (False, p)
      | Some w \<Rightarrow>
          if pw_kind w \<noteq> WNextDelta then (False, p)
          else (True, p\<lparr>pr_traceEndRequested := True, pr_committedStatus := Runnable,
                        pr_committedWake := None\<rparr>))"

definition process_validate :: "'z process_scheme \<Rightarrow> bool" where
  "process_validate p =
     (if pr_fairnessWork p = 0 then False
      else if pr_committedStatus p = Suspended
      then pr_committedWake p \<noteq> None \<and> pr_committedContinuationId p \<noteq> 0
      else pr_committedWake p = None)"

definition process_reset :: "'z process_scheme \<Rightarrow> 'z process_scheme" where
  "process_reset p = clearRuntimeFailureCode
     (p\<lparr>pr_committedPc := pr_entryPc p, pr_proposedPc := pr_entryPc p, pr_committedStatus := Runnable,
        pr_proposedStatus := Runnable, pr_committedWake := None, pr_proposedWake := None,
        pr_committedContinuationId := 0, pr_proposedContinuationId := 0,
        pr_committedDiagnostic := '''', pr_proposedDiagnostic := '''', pr_pendingCommit := False,
        pr_traceEndRequested := False\<rparr>)"

section \<open>The invariant\<close>

definition process_inv :: "'z process_scheme \<Rightarrow> bool" where
  "process_inv p \<longleftrightarrow> process_validate p \<and>
     (pr_proposedStatus p = Suspended \<longrightarrow> pr_proposedWake p \<noteq> None \<and> pr_proposedContinuationId p \<noteq> 0) \<and>
     (pr_proposedStatus p \<noteq> Suspended \<longrightarrow> pr_proposedWake p = None) \<and>
     (pr_pendingCommit p \<longrightarrow> pr_committedStatus p = Runnable \<and> pr_proposedStatus p \<noteq> Runnable)"

lemma process_validate_iff: "process_validate p \<longleftrightarrow> pr_fairnessWork p \<noteq> 0 \<and>
    (pr_committedStatus p = Suspended \<longrightarrow> pr_committedWake p \<noteq> None \<and> pr_committedContinuationId p \<noteq> 0) \<and>
    (pr_committedStatus p \<noteq> Suspended \<longrightarrow> pr_committedWake p = None)"
  by (simp add: process_validate_def)

lemma process_loop_inv:
  assumes "process_inv p" "pr_committedStatus p = Runnable"
  shows "process_inv (fst (process_loop exec epoch n pc p w)) \<and>
    pr_pendingCommit (fst (process_loop exec epoch n pc p w))"
  using assms
proof (induction n arbitrary: pc p w)
  case 0
  then show ?case by (simp add: process_inv_def process_validate_iff proposeFailure_def)
next
  case (Suc n)
  then show ?case
    by (auto simp: process_inv_def process_validate_iff proposeFailure_def
        split: prod.split process_step_kind.split)
qed

lemma process_inv_ops:
  shows "fairness \<noteq> 0 \<Longrightarrow> process_inv (newProcess nm i parent pc fairness)"
    and "process_inv p \<Longrightarrow> process_inv (fst (process_doWork exec epoch p w))"
    and "process_inv p \<Longrightarrow> process_inv (process_doXfer epoch p)"
    and "process_inv p \<Longrightarrow> process_inv (snd (process_wakeup wk c p))"
    and "process_inv p \<Longrightarrow> process_inv (snd (process_activateFrom src p))"
    and "process_inv p \<Longrightarrow> process_inv (snd (process_requestTraceEnd p))"
    and "process_inv p \<Longrightarrow> process_inv (process_reset p)"
proof -
  show "process_inv p \<Longrightarrow> process_inv (fst (process_doWork exec epoch p w))"
  proof -
    assume inv: "process_inv p"
    have "process_inv (p\<lparr>pr_proposedPc := pr_committedPc p, pr_proposedStatus := Terminated,
              pr_proposedWake := None, pr_proposedContinuationId := 0,
              pr_proposedDiagnostic := [], pr_pendingCommit := True\<rparr>)" if "pr_committedStatus p = Runnable"
      using inv that by (simp add: process_inv_def process_validate_iff)
    with inv process_loop_inv [OF inv, of exec epoch "unat (pr_fairnessWork p)" "pr_committedPc p" w]
    show ?thesis by (simp add: process_doWork_def)
  qed
qed (auto simp: newProcess_def process_inv_def process_validate_iff process_doXfer_def Let_def
      setRuntimeFailureCode_def process_wakeup_def process_activateFrom_def
      process_requestTraceEnd_def process_reset_def clearRuntimeFailureCode_def split: option.splits)

section \<open>Runs\<close>

datatype process_call = PWork epoch | PXfer epoch | PWake process_wake u64 | PActivate object_id
  | PTraceEnd

fun process_apply ::
  "(u32 \<Rightarrow> epoch \<Rightarrow> 'w \<Rightarrow> process_step \<times> 'w) \<Rightarrow> process_call \<Rightarrow> process \<times> 'w \<Rightarrow> process \<times> 'w" where
  "process_apply exec (PWork e) (p, w) = process_doWork exec e p w"
| "process_apply exec (PXfer e) (p, w) = (process_doXfer e p, w)"
| "process_apply exec (PWake k c) (p, w) = (snd (process_wakeup k c p), w)"
| "process_apply exec (PActivate i) (p, w) = (snd (process_activateFrom i p), w)"
| "process_apply exec PTraceEnd (p, w) = (snd (process_requestTraceEnd p), w)"

lemma process_inv_apply: "process_inv (fst pw) \<Longrightarrow> process_inv (fst (process_apply exec c pw))"
  by (cases pw; cases c) (simp_all add: process_inv_ops)

lemma process_inv_run: "process_inv (fst pw) \<Longrightarrow> process_inv (fst (fold (process_apply exec) cs pw))"
  by (induction cs arbitrary: pw) (simp_all add: process_inv_apply del: split_paired_All)

definition finished :: "'z process_scheme \<Rightarrow> bool" where
  "finished p \<longleftrightarrow> \<not> pr_pendingCommit p \<and> (pr_committedStatus p = Terminated \<or> pr_committedStatus p = ProcessFailed)"

lemma finished_apply:
  assumes "finished p"
  shows "process_apply exec c (p, w) = (p, w)"
  using assms by (cases c) (auto simp: finished_def process_doWork_def process_doXfer_def
      process_wakeup_def process_activateFrom_def process_requestTraceEnd_def)

lemma finished_run: "finished p \<Longrightarrow> fold (process_apply exec) cs (p, w) = (p, w)"
  by (induction cs) (simp_all add: finished_apply)

section \<open>Properties\<close>

text \<open>
  Whatever the generated step function does, a process with a positive fairness bound always
  satisfies its own \<open>validate\<close>: after any sequence of Work, Xfer, wake, activation and trace-end
  calls a suspended process has a subscription and a nonzero continuation, and a process in any
  other status has no subscription.
\<close>

theorem process_always_valid:
  assumes "fairness \<noteq> 0"
  shows "process_validate (fst (fold (process_apply exec) calls (newProcess nm i parent pc fairness, w)))"
  using process_inv_run [of "(newProcess nm i parent pc fairness, w)" exec calls] assms
  by (simp add: process_inv_ops) (simp add: process_inv_def)

text \<open>A step function that yields once at counter 0 and terminates at counter 1.\<close>

definition sample_exec :: "u32 \<Rightarrow> epoch \<Rightarrow> unit \<Rightarrow> process_step \<times> unit" where
  "sample_exec pc e w = (if pc = 0 then (suspendAt 1 \<lparr>pw_kind = WQueueReadable, pw_id = 9\<rparr> 4, w)
     else (terminateStep, w))"

theorem process_always_valid_witness:
  "process_validate (fst (fold (process_apply sample_exec) [PWork (Epoch 0 0), PXfer (Epoch 0 0)]
     (newProcess ''p'' 3 None 0 1, ()))) \<and>
   pr_committedStatus (fst (fold (process_apply sample_exec) [PWork (Epoch 0 0), PXfer (Epoch 0 0)]
     (newProcess ''p'' 3 None 0 1, ()))) = Suspended"
  using process_always_valid [of 1 sample_exec "[PWork (Epoch 0 0), PXfer (Epoch 0 0)]" "''p''" 3 None 0 "()"]
  by (simp add: newProcess_def process_doWork_def process_doXfer_def Let_def sample_exec_def
      suspendAt_def)


definition spinning_exec :: "u32 \<Rightarrow> epoch \<Rightarrow> unit \<Rightarrow> process_step \<times> unit" where
  "spinning_exec pc e w = (continueAt (pc + 1), w)"


text \<open>
  A suspended process is resumed by exactly the commits it subscribed to: an activation from a
  source is accepted if and only if the committed subscription accepts that source, and then only
  the status and the subscription change; a refused activation changes nothing.
\<close>

theorem process_wakes_on_subscription:
  assumes "process_inv p" and "pr_committedStatus p = Suspended"
  shows "\<exists>k. pr_committedWake p = Some k \<and>
    process_activateFrom source p =
      (if wake_accepts (so_id p) k source
       then (True, p\<lparr>pr_committedStatus := Runnable, pr_committedWake := None\<rparr>) else (False, p))"
  using assms by (auto simp: process_inv_def process_validate_iff process_activateFrom_def split: if_splits)

definition sample_suspended :: process where
  "sample_suspended = (newProcess ''p'' 3 None 0 8)\<lparr>pr_committedStatus := Suspended,
     pr_committedWake := Some \<lparr>pw_kind = WQueueReadable, pw_id = 9\<rparr>, pr_committedContinuationId := 4\<rparr>"

theorem process_wakes_on_subscription_witness:
  "fst (process_activateFrom 9 sample_suspended) \<and> \<not> fst (process_activateFrom 8 sample_suspended)"
proof -
  have "process_inv sample_suspended" "pr_committedStatus sample_suspended = Suspended"
    by (simp_all add: sample_suspended_def newProcess_def process_inv_def process_validate_iff)
  from process_wakes_on_subscription [OF this, of 9] process_wakes_on_subscription [OF this, of 8]
  show ?thesis by (auto simp: sample_suspended_def newProcess_def wake_accepts_def)
qed

text \<open>
  Terminated and failed are absorbing: once committed, no sequence of Work, Xfer, wake,
  activation and trace-end calls changes the process or runs any generated code.
\<close>

theorem process_finished_absorbing:
  assumes "finished p"
  shows "fold (process_apply exec) calls (p, w) = (p, w)"
  by (rule finished_run [OF assms])

theorem process_finished_absorbing_witness:
  "fold (process_apply sample_exec) [PActivate 3, PWork (Epoch 4 0), PXfer (Epoch 4 0)]
     ((newProcess ''p'' 3 None 0 8)\<lparr>pr_committedStatus := Terminated\<rparr>, ()) =
   ((newProcess ''p'' 3 None 0 8)\<lparr>pr_committedStatus := Terminated\<rparr>, ())"
  by (rule process_finished_absorbing) (simp add: finished_def newProcess_def)

end
