(* ===== verification/Leaf_Components.thy ===== *)
theory Leaf_Components
  imports Sim_Object
begin

text \<open>
  The baseline components of \<open>include/gfsim/components.h\<close> that hold a single stage of data:
  \<open>Compute\<close>, \<open>Sink\<close>, \<open>Link\<close> and \<open>Memory\<close>. Each has private proposals that only its
  \<open>doXfer\<close> makes visible. \<open>Compute\<close> takes its functional policy as a parameter, as the
  template does. Stated here: a result is visible only after the commit that follows its
  proposal, every received value is kept exactly once and in order, and a memory installs at one
  commit exactly the last write proposed to each address.
\<close>

section \<open>Compute\<close>

record ('i, 'o) compute = sim_object +
  co_output :: 'o
  co_outputProposal :: 'o
  co_inputProposal :: 'i
  co_hasInput :: bool
  co_hasOutput :: bool
  co_totalComputations :: u64
  co_lastUpdate :: epoch

definition newCompute :: "string \<Rightarrow> object_id \<Rightarrow> ptr option \<Rightarrow> ptr option \<Rightarrow> ('i::zero, 'o::zero) compute" where
  "newCompute nm i parent sink =
     \<lparr>so_kind = KCompute, so_name = nm, so_id = i, so_path = [], so_parent = parent,
      so_observationSink = sink, so_runtimeFailureCode = [],
      co_output = 0, co_outputProposal = 0, co_inputProposal = 0, co_hasInput = False,
      co_hasOutput = False, co_totalComputations = 0, co_lastUpdate = epoch0\<rparr>"

definition setInput :: "'i \<Rightarrow> ('i, 'o, 'z) compute_scheme \<Rightarrow> ('i, 'o, 'z) compute_scheme" where
  "setInput v c = c\<lparr>co_inputProposal := v, co_hasInput := True\<rparr>"

definition compute_doWork ::
  "'s sim_api \<Rightarrow> ('i \<Rightarrow> 'o) \<Rightarrow> ('i, 'o, 'z) compute_scheme \<Rightarrow> 's \<Rightarrow> ('i, 'o, 'z) compute_scheme \<times> 's" where
  "compute_doWork api policy c s =
     (if co_hasInput c
      then emitObservation api
             ((observation ''transaction'' ''completed'' Complete)\<lparr>op_duration := Some 0\<rparr>)
             (c\<lparr>co_outputProposal := policy (co_inputProposal c), co_hasOutput := True\<rparr>) s
      else (c, s))"

definition compute_doXfer :: "epoch \<Rightarrow> ('i, 'o, 'z) compute_scheme \<Rightarrow> ('i, 'o, 'z) compute_scheme" where
  "compute_doXfer epoch c =
     (let c1 = (if co_hasOutput c
                then c\<lparr>co_output := co_outputProposal c, co_hasOutput := False,
                       co_totalComputations := co_totalComputations c + 1, co_lastUpdate := epoch\<rparr>
                else c)
      in c1\<lparr>co_hasInput := False\<rparr>)"

definition compute_hasPendingCommit :: "('i, 'o, 'z) compute_scheme \<Rightarrow> bool" where
  "compute_hasPendingCommit c = co_hasOutput c"

definition compute_isRunnable :: "('i, 'o, 'z) compute_scheme \<Rightarrow> bool" where
  "compute_isRunnable c = co_hasInput c"

definition compute_collectStatistics :: "('i, 'o, 'z) compute_scheme \<Rightarrow> stat_snapshot list" where
  "compute_collectStatistics c =
     [plain_snapshot ''completed_transactions'' (so_path c) Counter (co_totalComputations c) (co_lastUpdate c)]"

definition compute_reset :: "('i::zero, 'o::zero, 'z) compute_scheme \<Rightarrow> ('i, 'o, 'z) compute_scheme" where
  "compute_reset c = clearRuntimeFailureCode
     (c\<lparr>co_output := 0, co_outputProposal := 0, co_inputProposal := 0, co_hasInput := False,
        co_hasOutput := False, co_totalComputations := 0, co_lastUpdate := epoch0\<rparr>)"

section \<open>Sink\<close>

record 'a sink = sim_object +
  sk_received :: "'a list"
  sk_receivedProposals :: "'a list"
  sk_totalReceived :: u64
  sk_lastUpdate :: epoch

definition newSink :: "string \<Rightarrow> object_id \<Rightarrow> ptr option \<Rightarrow> ptr option \<Rightarrow> 'a sink" where
  "newSink nm i parent obs =
     \<lparr>so_kind = KSink, so_name = nm, so_id = i, so_path = [], so_parent = parent,
      so_observationSink = obs, so_runtimeFailureCode = [],
      sk_received = [], sk_receivedProposals = [], sk_totalReceived = 0, sk_lastUpdate = epoch0\<rparr>"

definition sink_receive :: "'a \<Rightarrow> ('a, 'z) sink_scheme \<Rightarrow> ('a, 'z) sink_scheme" where
  "sink_receive v k = k\<lparr>sk_receivedProposals := sk_receivedProposals k @ [v]\<rparr>"

definition sink_doArbitrate ::
  "'s sim_api \<Rightarrow> ('a, 'z) sink_scheme \<Rightarrow> 's \<Rightarrow> ('a, 'z) sink_scheme \<times> 's" where
  "sink_doArbitrate api k s = emitObservations api
     (replicate (length (sk_receivedProposals k)) (observation ''transaction'' ''accepted'' Instant)) k s"

definition sink_doXfer :: "epoch \<Rightarrow> ('a, 'z) sink_scheme \<Rightarrow> ('a, 'z) sink_scheme" where
  "sink_doXfer epoch k =
     (let changed = (sk_receivedProposals k \<noteq> []);
          k1 = fold (\<lambda>v k. k\<lparr>sk_received := sk_received k @ [v],
                     sk_totalReceived := sk_totalReceived k + 1\<rparr>) (sk_receivedProposals k) k;
          k2 = k1\<lparr>sk_receivedProposals := []\<rparr>
      in if changed then k2\<lparr>sk_lastUpdate := epoch\<rparr> else k2)"

definition sink_hasPendingCommit :: "('a, 'z) sink_scheme \<Rightarrow> bool" where
  "sink_hasPendingCommit k \<longleftrightarrow> sk_receivedProposals k \<noteq> []"

definition sink_collectStatistics :: "('a, 'z) sink_scheme \<Rightarrow> stat_snapshot list" where
  "sink_collectStatistics k =
     [plain_snapshot ''accepted_transactions'' (so_path k) Counter (sk_totalReceived k) (sk_lastUpdate k)]"

definition sink_reset :: "('a, 'z) sink_scheme \<Rightarrow> ('a, 'z) sink_scheme" where
  "sink_reset k = clearRuntimeFailureCode
     (k\<lparr>sk_received := [], sk_receivedProposals := [], sk_totalReceived := 0, sk_lastUpdate := epoch0\<rparr>)"

section \<open>Link\<close>

record 'a link = sim_object +
  lk_forwarded :: 'a
  lk_forwardedProposal :: 'a
  lk_hasProposal :: bool
  lk_hasForwarded :: bool
  lk_totalTransfers :: u64
  lk_lastUpdate :: epoch

definition newLink :: "string \<Rightarrow> object_id \<Rightarrow> ptr option \<Rightarrow> ptr option \<Rightarrow> 'a::zero link" where
  "newLink nm i parent obs =
     \<lparr>so_kind = KLink, so_name = nm, so_id = i, so_path = [], so_parent = parent,
      so_observationSink = obs, so_runtimeFailureCode = [],
      lk_forwarded = 0, lk_forwardedProposal = 0, lk_hasProposal = False, lk_hasForwarded = False,
      lk_totalTransfers = 0, lk_lastUpdate = epoch0\<rparr>"

definition link_forward :: "'a \<Rightarrow> ('a, 'z) link_scheme \<Rightarrow> ('a, 'z) link_scheme" where
  "link_forward v l = l\<lparr>lk_forwardedProposal := v, lk_hasProposal := True\<rparr>"

definition wire_doArbitrate ::
  "'s sim_api \<Rightarrow> ('a, 'z) link_scheme \<Rightarrow> 's \<Rightarrow> ('a, 'z) link_scheme \<times> 's" where
  "wire_doArbitrate api l s =
     (if lk_hasProposal l
      then emitObservation api (observation ''transaction'' ''completed'' Instant) l s else (l, s))"

definition wire_doXfer :: "epoch \<Rightarrow> ('a, 'z) link_scheme \<Rightarrow> ('a, 'z) link_scheme" where
  "wire_doXfer epoch l =
     (if lk_hasProposal l
      then l\<lparr>lk_forwarded := lk_forwardedProposal l, lk_hasForwarded := True, lk_hasProposal := False,
             lk_totalTransfers := lk_totalTransfers l + 1, lk_lastUpdate := epoch\<rparr>
      else l)"

definition wire_hasPendingCommit :: "('a, 'z) link_scheme \<Rightarrow> bool" where
  "wire_hasPendingCommit l = lk_hasProposal l"

definition wire_isRunnable :: "('a, 'z) link_scheme \<Rightarrow> bool" where
  "wire_isRunnable l = lk_hasProposal l"

definition wire_collectStatistics :: "('a, 'z) link_scheme \<Rightarrow> stat_snapshot list" where
  "wire_collectStatistics l =
     [plain_snapshot ''completed_transactions'' (so_path l) Counter (lk_totalTransfers l) (lk_lastUpdate l)]"

definition wire_reset :: "('a::zero, 'z) link_scheme \<Rightarrow> ('a, 'z) link_scheme" where
  "wire_reset l = clearRuntimeFailureCode
     (l\<lparr>lk_forwarded := 0, lk_forwardedProposal := 0, lk_hasProposal := False,
        lk_hasForwarded := False, lk_totalTransfers := 0, lk_lastUpdate := epoch0\<rparr>)"

section \<open>Memory\<close>

record 'a memory = sim_object +
  me_storage :: "'a list"
  me_writeProposals :: "(nat \<times> 'a) list"
  me_totalWrites :: u64
  me_lastUpdate :: epoch

definition newMemory :: "string \<Rightarrow> object_id \<Rightarrow> ptr option \<Rightarrow> nat \<Rightarrow> ptr option \<Rightarrow> 'a::zero memory" where
  "newMemory nm i parent capacity obs =
     \<lparr>so_kind = KMemory, so_name = nm, so_id = i, so_path = [], so_parent = parent,
      so_observationSink = obs, so_runtimeFailureCode = [],
      me_storage = replicate capacity 0, me_writeProposals = [], me_totalWrites = 0,
      me_lastUpdate = epoch0\<rparr>"

definition memory_capacity :: "('a, 'z) memory_scheme \<Rightarrow> nat" where
  "memory_capacity m = length (me_storage m)"

definition memory_proposeWrite ::
  "nat \<Rightarrow> 'a \<Rightarrow> ('a, 'z) memory_scheme \<Rightarrow> bool \<times> ('a, 'z) memory_scheme" where
  "memory_proposeWrite addr v m =
     (if addr \<ge> length (me_storage m) then (False, m)
      else (True, m\<lparr>me_writeProposals := map_put addr v (me_writeProposals m)\<rparr>))"

definition memory_read :: "nat \<Rightarrow> ('a::zero, 'z) memory_scheme \<Rightarrow> 'a" where
  "memory_read addr m = (if addr \<ge> length (me_storage m) then 0 else me_storage m ! addr)"

definition memory_doArbitrate ::
  "'s sim_api \<Rightarrow> ('a, 'z) memory_scheme \<Rightarrow> 's \<Rightarrow> ('a, 'z) memory_scheme \<times> 's" where
  "memory_doArbitrate api m s = emitObservations api
     (map (\<lambda>p. (observation ''memory'' ''write'' Instant)
        \<lparr>op_arguments := [(''address'', OUInt (of_nat (fst p)))]\<rparr>) (me_writeProposals m)) m s"

definition memory_doXfer :: "epoch \<Rightarrow> ('a, 'z) memory_scheme \<Rightarrow> ('a, 'z) memory_scheme" where
  "memory_doXfer epoch m =
     (let committedWrites = length (me_writeProposals m);
          m1 = m\<lparr>me_storage := fold (\<lambda>(addr, v) st. st[addr := v]) (me_writeProposals m) (me_storage m),
                 me_writeProposals := [],
                 me_totalWrites := me_totalWrites m + of_nat committedWrites\<rparr>
      in if committedWrites \<noteq> 0 then m1\<lparr>me_lastUpdate := epoch\<rparr> else m1)"

definition memory_hasPendingCommit :: "('a, 'z) memory_scheme \<Rightarrow> bool" where
  "memory_hasPendingCommit m \<longleftrightarrow> me_writeProposals m \<noteq> []"

definition memory_collectStatistics :: "('a, 'z) memory_scheme \<Rightarrow> stat_snapshot list" where
  "memory_collectStatistics m =
     [plain_snapshot ''accepted_transactions'' (so_path m) Counter (me_totalWrites m) (me_lastUpdate m)]"

definition memory_reset :: "('a::zero, 'z) memory_scheme \<Rightarrow> ('a, 'z) memory_scheme" where
  "memory_reset m = clearRuntimeFailureCode
     (m\<lparr>me_storage := map (\<lambda>_. 0) (me_storage m), me_writeProposals := [], me_totalWrites := 0,
        me_lastUpdate := epoch0\<rparr>)"

section \<open>One stage of data\<close>

text \<open>
  Work computes the policy of the last input, and only the commit publishes it; a commit with no
  computed output publishes nothing and drops the input.
\<close>

lemma compute_stage:
  assumes "compute_doWork api policy (setInput v c) s = (c', s')"
  shows "co_output c' = co_output c" and "compute_hasPendingCommit c'"
    and "co_output (compute_doXfer e c') = policy v"
    and "co_totalComputations (compute_doXfer e c') = co_totalComputations c + 1"
    and "\<not> compute_hasPendingCommit (compute_doXfer e c') \<and> \<not> compute_isRunnable (compute_doXfer e c')"
  using assms
  by (auto simp: compute_doWork_def setInput_def emitObservation_def setRuntimeFailureCode_def
      compute_doXfer_def compute_hasPendingCommit_def compute_isRunnable_def Let_def
      split: option.splits prod.splits bool.splits)

lemma compute_no_output:
  "\<not> co_hasOutput c \<Longrightarrow> co_output (compute_doXfer e c) = co_output c \<and>
     co_totalComputations (compute_doXfer e c) = co_totalComputations c \<and>
     \<not> compute_isRunnable (compute_doXfer e c)"
  by (simp add: compute_doXfer_def compute_isRunnable_def)

lemma link_stage:
  shows "lk_forwarded (link_forward v l) = lk_forwarded l"
    and "lk_forwarded (wire_doXfer e (link_forward v l)) = v"
    and "lk_hasForwarded (wire_doXfer e (link_forward v l))"
    and "\<not> wire_hasPendingCommit (wire_doXfer e l)"
    and "\<not> wire_hasPendingCommit l \<Longrightarrow> wire_doXfer e l = l"
  by (simp_all add: link_forward_def wire_doXfer_def wire_hasPendingCommit_def)

section \<open>The sink\<close>

datatype 'a sink_call = SReceive 'a | SArbitrate | SXfer epoch

fun sink_apply :: "'s sim_api \<Rightarrow> 'a sink_call \<Rightarrow> 'a sink \<times> 's \<Rightarrow> 'a sink \<times> 's" where
  "sink_apply api (SReceive v) (k, s) = (sink_receive v k, s)"
| "sink_apply api SArbitrate (k, s) = sink_doArbitrate api k s"
| "sink_apply api (SXfer e) (k, s) = (sink_doXfer e k, s)"

fun sink_values :: "'a sink_call list \<Rightarrow> 'a list" where
  "sink_values [] = []"
| "sink_values (SReceive v # cs) = v # sink_values cs"
| "sink_values (SArbitrate # cs) = sink_values cs"
| "sink_values (SXfer e # cs) = sink_values cs"

lemma sink_fold:
  "fold (\<lambda>v k. k\<lparr>sk_received := sk_received k @ [v], sk_totalReceived := sk_totalReceived k + 1\<rparr>) vs k =
     k\<lparr>sk_received := sk_received k @ vs, sk_totalReceived := sk_totalReceived k + of_nat (length vs)\<rparr>"
  by (induction vs arbitrary: k) (simp_all add: ac_simps)

lemma sink_xfer_fields:
  "sk_received (sink_doXfer e k) = sk_received k @ sk_receivedProposals k"
  "sk_receivedProposals (sink_doXfer e k) = []"
  "sk_totalReceived (sink_doXfer e k) = sk_totalReceived k + of_nat (length (sk_receivedProposals k))"
  by (simp_all add: sink_doXfer_def sink_fold Let_def)

definition sink_holds :: "'a list \<Rightarrow> 'a sink \<Rightarrow> bool" where
  "sink_holds vs k \<longleftrightarrow> sk_received k @ sk_receivedProposals k = vs \<and>
     sk_totalReceived k = of_nat (length (sk_received k))"

lemma sink_holds_emit: "sink_holds vs (fst (emitObservations api ps k s)) = sink_holds vs k"
  using emitObservations_object [of api ps k s]
  by (auto simp: sink_holds_def setRuntimeFailureCode_def)

lemma sink_holds_apply:
  "sink_holds vs (fst ks) \<Longrightarrow> sink_holds (vs @ sink_values [c]) (fst (sink_apply api c ks))"
proof (cases ks)
  case (Pair k s)
  assume "sink_holds vs (fst ks)"
  moreover have "sink_holds vs (fst (sink_doArbitrate api k s)) = sink_holds vs k"
    by (simp add: sink_holds_emit sink_doArbitrate_def)
  ultimately show ?thesis
    using Pair by (cases c) (auto simp: sink_receive_def sink_xfer_fields sink_holds_def)
qed

lemma sink_values_Cons: "sink_values (c # cs) = sink_values [c] @ sink_values cs"
  by (cases c) simp_all

lemma sink_holds_run:
  "sink_holds vs (fst ks) \<Longrightarrow> sink_holds (vs @ sink_values cs) (fst (fold (sink_apply api) cs ks))"
proof (induction cs arbitrary: ks vs)
  case (Cons c cs)
  from Cons.IH [OF sink_holds_apply [OF Cons.prems, of c api]] show ?case
    by (simp only: fold_Cons comp_apply append_assoc sink_values_Cons [symmetric])
qed simp

text \<open>
  A sink loses, duplicates and reorders nothing. After any sequence of receives, arbitrations
  and commits the committed values followed by the pending ones are exactly the received values
  in order, and the statistic counts the committed ones; a commit leaves nothing pending.
\<close>

theorem sink_keeps_every_value:
  "let k = fst (fold (sink_apply api) calls (newSink nm i parent obs, s)) in
     sk_received k @ sk_receivedProposals k = sink_values calls \<and>
     sk_totalReceived k = of_nat (length (sk_received k)) \<and>
     \<not> sink_hasPendingCommit (sink_doXfer e k)"
proof -
  have "sink_holds [] (fst (newSink nm i parent obs :: 'a sink, s))"
    by (simp add: sink_holds_def newSink_def)
  from sink_holds_run [OF this, of calls api] show ?thesis
    by (simp add: sink_holds_def Let_def sink_hasPendingCommit_def sink_xfer_fields)
qed

section \<open>The memory\<close>

definition memory_inv :: "('a, 'z) memory_scheme \<Rightarrow> bool" where
  "memory_inv m \<longleftrightarrow> ordered (me_writeProposals m) \<and>
     (\<forall>p \<in> set (me_writeProposals m). fst p < length (me_storage m))"

fun propose_writes :: "(nat \<times> 'a) list \<Rightarrow> ('a, 'z) memory_scheme \<Rightarrow> ('a, 'z) memory_scheme" where
  "propose_writes [] m = m"
| "propose_writes ((a, v) # ws) m = propose_writes ws (snd (memory_proposeWrite a v m))"

lemma memory_inv_propose: "memory_inv m \<Longrightarrow> memory_inv (snd (memory_proposeWrite a v m))"
  using set_map_put_subset [of a v "me_writeProposals m"]
  by (auto simp: memory_inv_def memory_proposeWrite_def)

lemma propose_writes_frame:
  "me_storage (propose_writes ws m) = me_storage m \<and> me_totalWrites (propose_writes ws m) = me_totalWrites m"
  by (induction ws m rule: propose_writes.induct) (simp_all add: memory_proposeWrite_def)

lemma propose_writes_lookup:
  "memory_inv m \<Longrightarrow> memory_inv (propose_writes ws m) \<and>
     map_of (me_writeProposals (propose_writes ws m)) =
       map_of (me_writeProposals m) ++ map_of (rev (filter (\<lambda>w. fst w < length (me_storage m)) ws))"
proof (induction ws m rule: propose_writes.induct)
  case (2 a v ws m)
  have inv: "memory_inv (snd (memory_proposeWrite a v m))"
    using 2(2) by (rule memory_inv_propose)
  have "map_of (me_writeProposals (snd (memory_proposeWrite a v m))) =
      map_of (me_writeProposals m) ++ map_of (if a < length (me_storage m) then [(a, v)] else [])"
    using 2(2) by (simp add: memory_proposeWrite_def map_of_map_put memory_inv_def)
  moreover have "length (me_storage (snd (memory_proposeWrite a v m))) = length (me_storage m)"
    by (simp add: memory_proposeWrite_def)
  ultimately show ?case
    using 2(1) [OF inv] by simp
qed simp

lemma fold_update_nth:
  "distinct (map fst ps) \<Longrightarrow> i < length xs \<Longrightarrow>
     fold (\<lambda>(a, v) st. st[a := v]) ps xs ! i = (case map_of ps i of Some v \<Rightarrow> v | None \<Rightarrow> xs ! i)"
proof (induction ps arbitrary: xs)
  case (Cons p ps)
  then have "fold (\<lambda>(a, v) st. st[a := v]) (p # ps) xs ! i =
      (case map_of ps i of Some v \<Rightarrow> v | None \<Rightarrow> xs[fst p := snd p] ! i)"
    by (cases p) (simp del: nth_list_update split: option.split)
  moreover have "map_of ps i = None" if "fst p = i"
    using Cons.prems that by (simp add: map_of_eq_None_iff)
  ultimately show ?case
    using Cons.prems by (cases p) (auto split: option.split)
qed simp

lemma fold_update_length: "length (fold (\<lambda>(a, v) st. st[a := v]) ps xs) = length xs"
  by (induction ps arbitrary: xs) (auto split: prod.split)

lemma memory_xfer_read:
  assumes "memory_inv m"
  shows "memory_read a (memory_doXfer e m) =
    (case map_of (me_writeProposals m) a of Some v \<Rightarrow> v | None \<Rightarrow> memory_read a m)"
proof (cases "a < length (me_storage m)")
  case True
  with assms show ?thesis
    by (simp add: memory_inv_def memory_read_def memory_doXfer_def Let_def fold_update_length
        fold_update_nth increasing_distinct split: option.split)
next
  case False
  have "map_of (me_writeProposals m) a = None"
    using assms False by (force simp: memory_inv_def map_of_eq_None_iff)
  with False show ?thesis
    by (simp add: memory_read_def memory_doXfer_def Let_def fold_update_length)
qed

text \<open>
  A memory commits atomically and the last write wins. For any list of proposed writes, reads
  before the commit still see the old contents; after it an address reads the last in-range value
  proposed for it, any other address its old value; an address out of range is refused and reads
  as the default; and the write statistic counts each written address once.
\<close>

theorem memory_commits_last_writes:
  assumes "memory_inv m" and "\<not> memory_hasPendingCommit m"
  shows "memory_read a (propose_writes ws m) = memory_read a m \<and>
    memory_read a (memory_doXfer e (propose_writes ws m)) =
      (case map_of (rev ws) a of
         Some v \<Rightarrow> if a < memory_capacity m then v else 0
       | None \<Rightarrow> memory_read a m) \<and>
    (fst (memory_proposeWrite a v m) \<longleftrightarrow> a < memory_capacity m) \<and>
    me_totalWrites (memory_doXfer e (propose_writes ws m)) =
      me_totalWrites m + of_nat (card {a \<in> fst ` set ws. a < memory_capacity m})"
proof -
  let ?n = "length (me_storage m)" and ?m = "propose_writes ws m"
  note frame = propose_writes_frame [of ws m]
  have inv: "memory_inv ?m"
    and look: "map_of (me_writeProposals ?m) = map_of (rev (filter (\<lambda>w. fst w < ?n) ws))"
    using propose_writes_lookup [OF assms(1), of ws] assms(2)
    by (simp_all add: memory_hasPendingCommit_def)
  have flt: "map_of (filter (\<lambda>w. fst w < ?n) us) a = (if a < ?n then map_of us a else None)" for us :: "(nat \<times> 'a) list"
    by (induction us) auto
  have read: "memory_read a (memory_doXfer e ?m) =
      (case map_of (rev ws) a of Some v \<Rightarrow> if a < memory_capacity m then v else 0 | None \<Rightarrow> memory_read a m)"
    using memory_xfer_read [OF inv, of a e] frame flt [of "rev ws"]
    by (auto simp: look rev_filter [symmetric] memory_read_def memory_capacity_def split: option.split)
  have "fst ` set (me_writeProposals ?m) = dom (map_of (me_writeProposals ?m))"
    by (simp add: dom_map_of_conv_image_fst)
  also have "\<dots> = {a \<in> fst ` set ws. a < ?n}"
    unfolding look dom_map_of_conv_image_fst by auto
  finally have keys: "fst ` set (me_writeProposals ?m) = {a \<in> fst ` set ws. a < ?n}" .
  have "length (me_writeProposals ?m) = card (fst ` set (me_writeProposals ?m))"
    using inv distinct_card [of "map fst (me_writeProposals ?m)"]
    by (simp add: memory_inv_def increasing_distinct)
  with keys have "length (me_writeProposals ?m) = card {a \<in> fst ` set ws. a < ?n}" by simp
  then show ?thesis
    using read frame
    by (simp add: memory_read_def memory_proposeWrite_def memory_capacity_def not_le memory_doXfer_def Let_def)
qed

theorem memory_commits_last_writes_witness:
  "memory_read 1 (memory_doXfer epoch0 (propose_writes [(1, 5), (1, 7), (9, 3)]
     (newMemory ''m'' 2 None 4 None :: u64 memory))) = 7"
  using memory_commits_last_writes [of "newMemory ''m'' 2 None 4 None :: u64 memory" 1 "[(1, 5), (1, 7), (9, 3)]" epoch0 0]
  by (simp add: memory_inv_def newMemory_def memory_hasPendingCommit_def memory_capacity_def)

end
