(* ===== verification/Protocols.thy ===== *)
theory Protocols
  imports Sim_Object
begin

text \<open>
  The transaction components of \<open>include/gfsim/components.h\<close>: the finite \<open>Scheduler\<close> that
  admits by stable keys, the \<open>ReadyValid\<close> handshake, the correlated \<open>RequestResponse\<close> channel
  and the credit-based \<open>ProtocolState\<close> machine. Each component's own \<open>validate\<close> is shown to be
  an invariant of every call sequence, together with the conservation law its users rely on:
  scheduled entries are popped or resident, offers are transferred exactly once and in order,
  every accepted request gets at most one response, and credits are never lost.
\<close>

section \<open>Scheduler\<close>

record 'a sched_entry =
  se_value :: 'a
  se_priority :: u32
  se_issueEpoch :: epoch
  se_portIndex :: u32
  se_instanceIndex :: u32
  se_ownerId :: object_id
  se_transactionId :: u64

definition stableKey :: "'a sched_entry \<Rightarrow> u32 \<times> epoch \<times> u32 \<times> u32 \<times> object_id \<times> u64" where
  "stableKey e = (se_priority e, se_issueEpoch e, se_portIndex e, se_instanceIndex e, se_ownerId e,
     se_transactionId e)"

definition sched_identity :: "'a sched_entry \<Rightarrow> object_id \<times> u64" where
  "sched_identity e = (se_ownerId e, se_transactionId e)"

record 'a scheduler = sim_object +
  sc_capacity :: nat
  sc_proposals :: "'a sched_entry list"
  sc_accepted :: "'a sched_entry list"
  sc_rejected :: "'a sched_entry list"
  sc_committed :: "'a sched_entry list"
  sc_rejectedTransactions :: "u64 list"
  sc_popProposalCount :: nat
  sc_highWatermark :: nat
  sc_totalScheduled :: u64
  sc_totalPops :: u64
  sc_lastUpdate :: epoch

definition newScheduler :: "string \<Rightarrow> object_id \<Rightarrow> ptr option \<Rightarrow> nat \<Rightarrow> ptr option \<Rightarrow> 'a scheduler" where
  "newScheduler nm i parent capacity obs =
     \<lparr>so_kind = KScheduler, so_name = nm, so_id = i, so_path = [], so_parent = parent,
      so_observationSink = obs, so_runtimeFailureCode = [],
      sc_capacity = capacity, sc_proposals = [], sc_accepted = [], sc_rejected = [],
      sc_committed = [], sc_rejectedTransactions = [], sc_popProposalCount = 0,
      sc_highWatermark = 0, sc_totalScheduled = 0, sc_totalPops = 0, sc_lastUpdate = epoch0\<rparr>"

definition containsIdentity :: "object_id \<Rightarrow> u64 \<Rightarrow> ('a, 'z) scheduler_scheme \<Rightarrow> bool" where
  "containsIdentity ownr tid c =
     (let hit = list_ex (\<lambda>e. se_ownerId e = ownr \<and> se_transactionId e = tid)
      in hit (sc_proposals c) \<or> hit (sc_accepted c) \<or> hit (sc_committed c))"

definition sched_proposeSchedule ::
  "'a \<Rightarrow> u32 \<Rightarrow> u32 \<Rightarrow> u32 \<Rightarrow> object_id \<Rightarrow> u64 \<Rightarrow> ('a, 'z) scheduler_scheme
   \<Rightarrow> bool \<times> ('a, 'z) scheduler_scheme" where
  "sched_proposeSchedule v priority port inst ownr tid c =
     (if ownr = kInvalidObjectId \<or> containsIdentity ownr tid c then (False, c)
      else (True, c\<lparr>sc_proposals := sc_proposals c @
              [\<lparr>se_value = v, se_priority = priority, se_issueEpoch = epoch0, se_portIndex = port,
                se_instanceIndex = inst, se_ownerId = ownr, se_transactionId = tid\<rparr>]\<rparr>))"

definition sched_proposePop :: "('a, 'z) scheduler_scheme \<Rightarrow> 'a option \<times> ('a, 'z) scheduler_scheme" where
  "sched_proposePop c =
     (if sc_popProposalCount c \<ge> length (sc_committed c) then (None, c)
      else (Some (se_value (sc_committed c ! sc_popProposalCount c)),
            c\<lparr>sc_popProposalCount := sc_popProposalCount c + 1\<rparr>))"

definition sched_peek :: "('a, 'z) scheduler_scheme \<Rightarrow> 'a option" where
  "sched_peek c = (if sc_committed c = [] then None else Some (se_value (hd (sc_committed c))))"

definition sched_observe :: "'a sched_entry \<Rightarrow> string \<Rightarrow> string \<Rightarrow> event_proposal" where
  "sched_observe e category nm = (observation category nm Instant)
     \<lparr>op_rootSequenceId := Some (se_transactionId e),
      op_arguments := [(''child_owner_id'', OUInt (ucast (se_ownerId e))),
        (''transaction_id'', OUInt (se_transactionId e))]\<rparr>"

definition sched_observations :: "('a, 'z) scheduler_scheme \<Rightarrow> event_proposal list" where
  "sched_observations c =
     map (\<lambda>e. sched_observe e ''transaction'' ''accepted'') (sc_accepted c) @
     map (\<lambda>e. sched_observe e ''stall'' ''capacity'') (sc_rejected c) @
     (if sc_accepted c \<noteq> [] \<or> sc_rejected c \<noteq> [] \<or> sc_popProposalCount c \<noteq> 0
      then [(observation ''queue'' ''occupancy'' CounterPhase)\<lparr>op_arguments := [(''occupancy'',
              OUInt (of_nat (length (sc_committed c) - min (sc_popProposalCount c) (length (sc_committed c))
                + length (sc_accepted c))))]\<rparr>]
      else [])"

text \<open>The selection of \<open>doArbitrate\<close>, before the observations.\<close>

definition sched_select :: "epoch \<Rightarrow> ('a, 'z) scheduler_scheme \<Rightarrow> ('a, 'z) scheduler_scheme" where
  "sched_select epoch c =
     (let proposals = sort_key stableKey (map (\<lambda>e. e\<lparr>se_issueEpoch := epoch\<rparr>) (sc_proposals c));
          occ = length (sc_committed c) + length (sc_accepted c);
          available = (if sc_capacity c > occ then sc_capacity c - occ else 0);
          n = min available (length proposals)
      in c\<lparr>sc_accepted := sc_accepted c @ take n proposals,
           sc_rejected := sc_rejected c @ drop n proposals, sc_proposals := []\<rparr>)"

definition sched_doArbitrate ::
  "'s sim_api \<Rightarrow> epoch \<Rightarrow> ('a, 'z) scheduler_scheme \<Rightarrow> 's \<Rightarrow> ('a, 'z) scheduler_scheme \<times> 's" where
  "sched_doArbitrate api epoch c s =
     (let c1 = sched_select epoch c in emitObservations api (sched_observations c1) c1 s)"

definition sched_hasPendingCommit :: "('a, 'z) scheduler_scheme \<Rightarrow> bool" where
  "sched_hasPendingCommit c \<longleftrightarrow> sc_proposals c \<noteq> [] \<or> sc_accepted c \<noteq> [] \<or> sc_rejected c \<noteq> [] \<or>
     sc_popProposalCount c \<noteq> 0"

definition sched_doXfer :: "epoch \<Rightarrow> ('a, 'z) scheduler_scheme \<Rightarrow> ('a, 'z) scheduler_scheme" where
  "sched_doXfer epoch c =
     (let changed = sched_hasPendingCommit c;
          popped = min (sc_popProposalCount c) (length (sc_committed c));
          committed = sort_key stableKey (drop popped (sc_committed c) @ sc_accepted c);
          c1 = c\<lparr>sc_totalPops := sc_totalPops c + of_nat popped, sc_popProposalCount := 0,
                 sc_totalScheduled := sc_totalScheduled c + of_nat (length (sc_accepted c)),
                 sc_committed := committed, sc_accepted := [],
                 sc_rejectedTransactions := sc_rejectedTransactions c @ map se_transactionId (sc_rejected c),
                 sc_rejected := [],
                 sc_highWatermark := max (sc_highWatermark c) (length committed)\<rparr>
      in if changed then c1\<lparr>sc_lastUpdate := epoch\<rparr> else c1)"

definition sched_isRunnable :: "('a, 'z) scheduler_scheme \<Rightarrow> bool" where
  "sched_isRunnable c \<longleftrightarrow> sc_proposals c \<noteq> []"

definition sched_runtimeState :: "('a, 'z) scheduler_scheme \<Rightarrow> runtime_object_state" where
  "sched_runtimeState c =
     (let pending = sched_hasPendingCommit c;
          base = base_runtimeState pending (sched_isRunnable c);
          quiescent = (sc_committed c = [] \<and> \<not> pending)
      in base\<lparr>ros_queueOccupancy := length (sc_committed c),
              ros_pendingOffers := length (sc_proposals c) + length (sc_accepted c) + length (sc_rejected c),
              ros_quiescent := quiescent,
              ros_reason := (if \<not> quiescent
                 then (if pending then ''scheduler_pending_proposal'' else ''scheduler_not_empty'')
                 else ros_reason base)\<rparr>)"

definition sched_collectStatistics :: "('a, 'z) scheduler_scheme \<Rightarrow> stat_snapshot list" where
  "sched_collectStatistics c =
     [plain_snapshot ''queue_occupancy'' (so_path c) Gauge (of_nat (length (sc_committed c))) (sc_lastUpdate c),
      plain_snapshot ''queue_occupancy_peak'' (so_path c) Gauge (of_nat (sc_highWatermark c)) (sc_lastUpdate c),
      plain_snapshot ''accepted_transactions'' (so_path c) Counter (sc_totalScheduled c) (sc_lastUpdate c),
      plain_snapshot ''completed_transactions'' (so_path c) Counter (sc_totalPops c) (sc_lastUpdate c)]"

fun no_shared_identity :: "'a sched_entry list \<Rightarrow> bool" where
  "no_shared_identity [] = True"
| "no_shared_identity (e # es) \<longleftrightarrow>
     list_all (\<lambda>r. \<not> (se_ownerId e = se_ownerId r \<and> se_transactionId e = se_transactionId r)) es \<and>
     no_shared_identity es"

definition sched_validate :: "('a, 'z) scheduler_scheme \<Rightarrow> bool" where
  "sched_validate c \<longleftrightarrow> length (sc_committed c) \<le> sc_capacity c \<and> no_shared_identity (sc_committed c)"

definition sched_reset :: "('a, 'z) scheduler_scheme \<Rightarrow> ('a, 'z) scheduler_scheme" where
  "sched_reset c = clearRuntimeFailureCode
     (c\<lparr>sc_proposals := [], sc_accepted := [], sc_rejected := [], sc_committed := [],
        sc_rejectedTransactions := [], sc_popProposalCount := 0, sc_highWatermark := 0,
        sc_totalScheduled := 0, sc_totalPops := 0, sc_lastUpdate := epoch0\<rparr>)"

section \<open>ReadyValid\<close>

record 'a ready_valid = sim_object +
  rv_ready :: bool
  rv_offer :: "'a option"
  rv_offerProposal :: "'a option"
  rv_readyProposal :: "bool option"
  rv_lastTransferred :: 'a
  rv_transferCount :: u64
  rv_lastUpdate :: epoch

definition newReadyValid :: "string \<Rightarrow> object_id \<Rightarrow> ptr option \<Rightarrow> ptr option \<Rightarrow> 'a::zero ready_valid" where
  "newReadyValid nm i parent obs =
     \<lparr>so_kind = KLink, so_name = nm, so_id = i, so_path = [], so_parent = parent,
      so_observationSink = obs, so_runtimeFailureCode = [],
      rv_ready = False, rv_offer = None, rv_offerProposal = None, rv_readyProposal = None,
      rv_lastTransferred = 0, rv_transferCount = 0, rv_lastUpdate = epoch0\<rparr>"

definition rv_proposeOffer :: "'a \<Rightarrow> ('a, 'z) ready_valid_scheme \<Rightarrow> bool \<times> ('a, 'z) ready_valid_scheme" where
  "rv_proposeOffer v c =
     (if rv_offer c \<noteq> None \<or> rv_offerProposal c \<noteq> None then (False, c)
      else (True, c\<lparr>rv_offerProposal := Some v\<rparr>))"

definition rv_proposeReady :: "bool \<Rightarrow> ('a, 'z) ready_valid_scheme \<Rightarrow> ('a, 'z) ready_valid_scheme" where
  "rv_proposeReady b c = c\<lparr>rv_readyProposal := Some b\<rparr>"

definition rv_doArbitrate ::
  "'s sim_api \<Rightarrow> ('a, 'z) ready_valid_scheme \<Rightarrow> 's \<Rightarrow> ('a, 'z) ready_valid_scheme \<times> 's" where
  "rv_doArbitrate api c s =
     (let nextReady = (case rv_readyProposal c of Some b \<Rightarrow> b | None \<Rightarrow> rv_ready c);
          nextOffer = (rv_offer c \<noteq> None \<or> rv_offerProposal c \<noteq> None)
      in if nextOffer \<and> nextReady
         then emitObservation api (observation ''transaction'' ''completed'' Instant) c s
         else if rv_offerProposal c \<noteq> None \<and> \<not> nextReady
         then emitObservation api ((observation ''stall'' ''backpressure'' Instant)
                \<lparr>op_arguments := [(''pending_offers'', OUInt 1)]\<rparr>) c s
         else (c, s))"

definition rv_hasPendingCommit :: "('a, 'z) ready_valid_scheme \<Rightarrow> bool" where
  "rv_hasPendingCommit c \<longleftrightarrow> rv_offerProposal c \<noteq> None \<or> rv_readyProposal c \<noteq> None"

definition rv_doXfer :: "epoch \<Rightarrow> ('a, 'z) ready_valid_scheme \<Rightarrow> ('a, 'z) ready_valid_scheme" where
  "rv_doXfer epoch c =
     (let changed = (rv_hasPendingCommit c \<or> (rv_offer c \<noteq> None \<and> rv_ready c));
          c1 = (case rv_readyProposal c of Some b \<Rightarrow> c\<lparr>rv_ready := b\<rparr> | None \<Rightarrow> c);
          c2 = (if rv_offerProposal c1 \<noteq> None then c1\<lparr>rv_offer := rv_offerProposal c1\<rparr> else c1);
          c3 = c2\<lparr>rv_readyProposal := None, rv_offerProposal := None\<rparr>;
          c4 = (case rv_offer c3 of
                  Some v \<Rightarrow> if rv_ready c3
                    then c3\<lparr>rv_lastTransferred := v, rv_offer := None,
                            rv_transferCount := rv_transferCount c3 + 1\<rparr>
                    else c3
                | None \<Rightarrow> c3)
      in if changed then c4\<lparr>rv_lastUpdate := epoch\<rparr> else c4)"

definition rv_isRunnable :: "('a, 'z) ready_valid_scheme \<Rightarrow> bool" where
  "rv_isRunnable c = rv_hasPendingCommit c"

definition rv_runtimeState :: "('a, 'z) ready_valid_scheme \<Rightarrow> runtime_object_state" where
  "rv_runtimeState c =
     (let base = base_runtimeState (rv_hasPendingCommit c) (rv_isRunnable c);
          quiescent = (rv_offer c = None \<and> \<not> rv_hasPendingCommit c)
      in base\<lparr>ros_pendingOffers := of_bool (rv_offer c \<noteq> None) + of_bool (rv_offerProposal c \<noteq> None),
              ros_protocolState := (if rv_ready c then ''ready'' else ''backpressure''),
              ros_quiescent := quiescent,
              ros_reason := (if \<not> quiescent
                 then (if rv_offer c \<noteq> None then ''ready_valid_offer_blocked''
                       else ''ready_valid_pending_proposal'')
                 else ros_reason base)\<rparr>)"

definition rv_collectStatistics :: "('a, 'z) ready_valid_scheme \<Rightarrow> stat_snapshot list" where
  "rv_collectStatistics c =
     [plain_snapshot ''completed_transactions'' (so_path c) Counter (rv_transferCount c) (rv_lastUpdate c)]"

definition rv_validate :: "('a, 'z) ready_valid_scheme \<Rightarrow> bool" where
  "rv_validate c \<longleftrightarrow> \<not> (rv_offer c \<noteq> None \<and> rv_ready c)"

definition rv_reset :: "('a::zero, 'z) ready_valid_scheme \<Rightarrow> ('a, 'z) ready_valid_scheme" where
  "rv_reset c = clearRuntimeFailureCode
     (c\<lparr>rv_ready := False, rv_offer := None, rv_offerProposal := None, rv_readyProposal := None,
        rv_lastTransferred := 0, rv_transferCount := 0, rv_lastUpdate := epoch0\<rparr>)"

section \<open>RequestResponse\<close>

text \<open>An envelope is its payload and its correlation ID.\<close>

type_synonym 'p envelope = "'p \<times> u64"

record ('q, 'r) request_response = sim_object +
  rr_maxInFlight :: nat
  rr_totalCompleted :: u64
  rr_requestProposals :: "'q envelope list"
  rr_committedRequests :: "'q envelope list"
  rr_responseProposals :: "'r envelope list"
  rr_committedResponses :: "'r envelope list"
  rr_active :: "u64 list"
  rr_deliveredRequests :: "u64 list"
  rr_requestPopCount :: nat
  rr_responsePopCount :: nat
  rr_lastUpdate :: epoch

definition newRequestResponse ::
  "string \<Rightarrow> object_id \<Rightarrow> ptr option \<Rightarrow> nat \<Rightarrow> ptr option \<Rightarrow> ('q, 'r) request_response" where
  "newRequestResponse nm i parent maxInFlight obs =
     \<lparr>so_kind = KLink, so_name = nm, so_id = i, so_path = [], so_parent = parent,
      so_observationSink = obs, so_runtimeFailureCode = [],
      rr_maxInFlight = maxInFlight, rr_totalCompleted = 0, rr_requestProposals = [],
      rr_committedRequests = [], rr_responseProposals = [], rr_committedResponses = [],
      rr_active = [], rr_deliveredRequests = [], rr_requestPopCount = 0, rr_responsePopCount = 0,
      rr_lastUpdate = epoch0\<rparr>"

definition containsCorrelation :: "u64 \<Rightarrow> ('q, 'r, 'z) request_response_scheme \<Rightarrow> bool" where
  "containsCorrelation cid c \<longleftrightarrow> cid \<in> set (rr_active c) \<or>
     list_ex (\<lambda>e. snd e = cid) (rr_requestProposals c) \<or>
     list_ex (\<lambda>e. snd e = cid) (rr_committedResponses c)"

definition rr_proposeRequest ::
  "'q \<Rightarrow> u64 \<Rightarrow> ('q, 'r, 'z) request_response_scheme \<Rightarrow> bool \<times> ('q, 'r, 'z) request_response_scheme" where
  "rr_proposeRequest request cid c =
     (if length (rr_active c) + length (rr_requestProposals c) \<ge> rr_maxInFlight c \<or>
         containsCorrelation cid c
      then (False, c)
      else (True, c\<lparr>rr_requestProposals := rr_requestProposals c @ [(request, cid)]\<rparr>))"

definition rr_peekRequest :: "('q, 'r, 'z) request_response_scheme \<Rightarrow> 'q envelope option" where
  "rr_peekRequest c = (if rr_committedRequests c = [] then None else Some (hd (rr_committedRequests c)))"

definition rr_proposePopRequest ::
  "('q, 'r, 'z) request_response_scheme \<Rightarrow> 'q envelope option \<times> ('q, 'r, 'z) request_response_scheme" where
  "rr_proposePopRequest c =
     (if rr_requestPopCount c \<ge> length (rr_committedRequests c) then (None, c)
      else (Some (rr_committedRequests c ! rr_requestPopCount c),
            c\<lparr>rr_requestPopCount := rr_requestPopCount c + 1\<rparr>))"

definition rr_proposeResponse ::
  "'r \<Rightarrow> u64 \<Rightarrow> ('q, 'r, 'z) request_response_scheme \<Rightarrow> bool \<times> ('q, 'r, 'z) request_response_scheme" where
  "rr_proposeResponse response cid c =
     (if cid \<notin> set (rr_active c) \<or> cid \<notin> set (rr_deliveredRequests c) \<or>
         list_ex (\<lambda>e. snd e = cid) (rr_responseProposals c)
      then (False, c)
      else (True, c\<lparr>rr_responseProposals := rr_responseProposals c @ [(response, cid)]\<rparr>))"

definition rr_peekResponse :: "('q, 'r, 'z) request_response_scheme \<Rightarrow> 'r envelope option" where
  "rr_peekResponse c = (if rr_committedResponses c = [] then None else Some (hd (rr_committedResponses c)))"

definition rr_proposePopResponse ::
  "('q, 'r, 'z) request_response_scheme \<Rightarrow> 'r envelope option \<times> ('q, 'r, 'z) request_response_scheme" where
  "rr_proposePopResponse c =
     (if rr_responsePopCount c \<ge> length (rr_committedResponses c) then (None, c)
      else (Some (rr_committedResponses c ! rr_responsePopCount c),
            c\<lparr>rr_responsePopCount := rr_responsePopCount c + 1\<rparr>))"

definition rr_observe :: "string \<Rightarrow> u64 \<Rightarrow> event_proposal" where
  "rr_observe nm cid = (observation ''transaction'' nm Instant)
     \<lparr>op_rootSequenceId := Some cid, op_arguments := [(''correlation_id'', OUInt cid)]\<rparr>"

definition rr_doArbitrate ::
  "'s sim_api \<Rightarrow> ('q, 'r, 'z) request_response_scheme \<Rightarrow> 's
   \<Rightarrow> ('q, 'r, 'z) request_response_scheme \<times> 's" where
  "rr_doArbitrate api c s = emitObservations api
     (map (rr_observe ''accepted'' \<circ> snd) (rr_requestProposals c) @
      map (rr_observe ''request'' \<circ> snd) (take (rr_requestPopCount c) (rr_committedRequests c)) @
      map (rr_observe ''completed'' \<circ> snd) (rr_responseProposals c) @
      map (rr_observe ''response'' \<circ> snd) (take (rr_responsePopCount c) (rr_committedResponses c))) c s"

definition rr_hasPendingCommit :: "('q, 'r, 'z) request_response_scheme \<Rightarrow> bool" where
  "rr_hasPendingCommit c \<longleftrightarrow> rr_requestProposals c \<noteq> [] \<or> rr_responseProposals c \<noteq> [] \<or>
     rr_requestPopCount c \<noteq> 0 \<or> rr_responsePopCount c \<noteq> 0"

definition rr_doXfer ::
  "epoch \<Rightarrow> ('q, 'r, 'z) request_response_scheme \<Rightarrow> ('q, 'r, 'z) request_response_scheme" where
  "rr_doXfer epoch c =
     (let changed = rr_hasPendingCommit c;
          requestPops = min (rr_requestPopCount c) (length (rr_committedRequests c));
          c1 = c\<lparr>rr_deliveredRequests := fold (\<lambda>e d. set_insert (snd e) d)
                    (take requestPops (rr_committedRequests c)) (rr_deliveredRequests c),
                 rr_committedRequests := drop requestPops (rr_committedRequests c),
                 rr_requestPopCount := 0\<rparr>;
          responsePops = min (rr_responsePopCount c1) (length (rr_committedResponses c1));
          c2 = c1\<lparr>rr_committedResponses := drop responsePops (rr_committedResponses c1),
                  rr_responsePopCount := 0\<rparr>;
          c3 = fold (\<lambda>e c. c\<lparr>rr_active := set_insert (snd e) (rr_active c),
                             rr_committedRequests := rr_committedRequests c @ [e]\<rparr>)
                 (rr_requestProposals c2) c2;
          c4 = c3\<lparr>rr_requestProposals := []\<rparr>;
          c5 = fold (\<lambda>e c. c\<lparr>rr_active := set_erase (snd e) (rr_active c),
                             rr_deliveredRequests := set_erase (snd e) (rr_deliveredRequests c),
                             rr_committedResponses := rr_committedResponses c @ [e],
                             rr_totalCompleted := rr_totalCompleted c + 1\<rparr>)
                 (rr_responseProposals c4) c4;
          c6 = c5\<lparr>rr_responseProposals := []\<rparr>
      in if changed then c6\<lparr>rr_lastUpdate := epoch\<rparr> else c6)"

definition rr_runtimeState :: "('q, 'r, 'z) request_response_scheme \<Rightarrow> runtime_object_state" where
  "rr_runtimeState c =
     (let pending = rr_hasPendingCommit c;
          offers = length (rr_requestProposals c) + length (rr_responseProposals c)
            + length (rr_committedRequests c) + length (rr_committedResponses c);
          base = base_runtimeState pending False;
          quiescent = (rr_active c = [] \<and> offers = 0 \<and> \<not> pending)
      in base\<lparr>ros_pendingOffers := offers, ros_correlationChain := rr_active c,
              ros_protocolState := (if rr_active c = [] then ''idle'' else ''in_flight''),
              ros_quiescent := quiescent,
              ros_reason := (if \<not> quiescent then ''request_response_blocked'' else ros_reason base)\<rparr>)"

definition rr_collectStatistics :: "('q, 'r, 'z) request_response_scheme \<Rightarrow> stat_snapshot list" where
  "rr_collectStatistics c =
     [plain_snapshot ''completed_transactions'' (so_path c) Counter (rr_totalCompleted c) (rr_lastUpdate c),
      plain_snapshot ''active_correlations'' (so_path c) Gauge (of_nat (length (rr_active c))) (rr_lastUpdate c)]"

definition rr_validate :: "('q, 'r, 'z) request_response_scheme \<Rightarrow> bool" where
  "rr_validate c \<longleftrightarrow>
     \<not> (length (rr_active c) > rr_maxInFlight c \<or>
        length (rr_active c) + length (rr_requestProposals c) > rr_maxInFlight c) \<and>
     list_all (\<lambda>cid. cid \<in> set (rr_active c)) (rr_deliveredRequests c) \<and>
     list_all (\<lambda>e. snd e \<in> set (rr_active c)) (rr_committedRequests c) \<and>
     list_all (\<lambda>e. snd e \<in> set (rr_active c) \<and> snd e \<in> set (rr_deliveredRequests c))
       (rr_responseProposals c)"

definition rr_reset :: "('q, 'r, 'z) request_response_scheme \<Rightarrow> ('q, 'r, 'z) request_response_scheme" where
  "rr_reset c = clearRuntimeFailureCode
     (c\<lparr>rr_requestProposals := [], rr_responseProposals := [], rr_committedRequests := [],
        rr_committedResponses := [], rr_active := [], rr_deliveredRequests := [],
        rr_requestPopCount := 0, rr_responsePopCount := 0, rr_totalCompleted := 0,
        rr_lastUpdate := epoch0\<rparr>)"

section \<open>ProtocolState\<close>

datatype protocol_phase = Idle | Request | Response | Transfer | Backpressure

record protocol_state =
  pt_phase :: protocol_phase
  pt_resumePhase :: protocol_phase
  pt_maxCredits :: nat
  pt_credits :: nat
  pt_inFlight :: nat

definition newProtocolState :: "nat \<Rightarrow> protocol_state" where
  "newProtocolState n = \<lparr>pt_phase = Idle, pt_resumePhase = Idle, pt_maxCredits = n, pt_credits = n,
     pt_inFlight = 0\<rparr>"

definition canSend :: "protocol_state \<Rightarrow> bool" where
  "canSend p \<longleftrightarrow> pt_phase p \<noteq> Backpressure \<and> pt_credits p > 0 \<and> pt_inFlight p < pt_maxCredits p"

definition canReceive :: "protocol_state \<Rightarrow> bool" where
  "canReceive p \<longleftrightarrow> pt_inFlight p > 0"

definition startRequest :: "protocol_state \<Rightarrow> bool \<times> protocol_state" where
  "startRequest p =
     (if \<not> canSend p then (False, p)
      else (True, p\<lparr>pt_credits := pt_credits p - 1, pt_inFlight := pt_inFlight p + 1, pt_phase := Request\<rparr>))"

definition beginResponse :: "protocol_state \<Rightarrow> bool \<times> protocol_state" where
  "beginResponse p =
     (if pt_phase p = Backpressure \<or> pt_inFlight p = 0 then (False, p)
      else (True, p\<lparr>pt_phase := Response\<rparr>))"

definition completeResponse :: "protocol_state \<Rightarrow> bool \<times> protocol_state" where
  "completeResponse p =
     (if pt_phase p \<noteq> Response \<or> pt_inFlight p = 0 then (False, p)
      else let p1 = p\<lparr>pt_inFlight := pt_inFlight p - 1, pt_credits := pt_credits p + 1\<rparr>
           in (True, p1\<lparr>pt_phase := (if pt_inFlight p1 > 0 then Transfer else Idle)\<rparr>))"

definition setBackpressure :: "bool \<Rightarrow> protocol_state \<Rightarrow> bool \<times> protocol_state" where
  "setBackpressure enabled p =
     (if enabled
      then (if pt_phase p = Backpressure then (False, p)
            else (True, p\<lparr>pt_resumePhase := pt_phase p, pt_phase := Backpressure\<rparr>))
      else if pt_phase p \<noteq> Backpressure then (False, p)
      else (True, p\<lparr>pt_phase := pt_resumePhase p\<rparr>))"

definition protocol_validate :: "protocol_state \<Rightarrow> bool" where
  "protocol_validate p =
     (if pt_credits p > pt_maxCredits p \<or> pt_inFlight p > pt_maxCredits p \<or>
         pt_credits p + pt_inFlight p \<noteq> pt_maxCredits p then False
      else if pt_phase p = Idle then pt_inFlight p = 0
      else if pt_phase p = Backpressure then pt_resumePhase p = Idle \<or> pt_inFlight p > 0
      else pt_inFlight p > 0)"

definition protocol_reset :: "protocol_state \<Rightarrow> protocol_state" where
  "protocol_reset p = p\<lparr>pt_phase := Idle, pt_resumePhase := Idle, pt_credits := pt_maxCredits p,
     pt_inFlight := 0\<rparr>"

section \<open>The scheduler invariant\<close>

definition scheduler_inv :: "('a, 'z) scheduler_scheme \<Rightarrow> bool" where
  "scheduler_inv c \<longleftrightarrow>
     distinct (map sched_identity (sc_proposals c @ sc_accepted c @ sc_committed c)) \<and>
     sc_popProposalCount c \<le> length (sc_committed c) \<and>
     length (sc_committed c) + length (sc_accepted c) \<le> sc_capacity c \<and>
     sorted_by stableKey (sc_committed c) \<and>
     length (sc_committed c) \<le> sc_highWatermark c \<and> sc_highWatermark c \<le> sc_capacity c \<and>
     sc_totalScheduled c = sc_totalPops c + of_nat (length (sc_committed c))"

lemma no_shared_identity_distinct: "no_shared_identity es \<longleftrightarrow> distinct (map sched_identity es)"
  by (induction es) (auto simp: sched_identity_def list_all_iff)

lemma scheduler_inv_valid: "scheduler_inv c \<Longrightarrow> sched_validate c"
  by (auto simp: scheduler_inv_def sched_validate_def no_shared_identity_distinct)

lemma containsIdentity_iff:
  "containsIdentity ownr tid c \<longleftrightarrow>
     (ownr, tid) \<in> sched_identity ` set (sc_proposals c @ sc_accepted c @ sc_committed c)"
  by (auto simp: containsIdentity_def list_ex_iff sched_identity_def Let_def image_iff)

lemma scheduler_inv_propose: "scheduler_inv c \<Longrightarrow> scheduler_inv (snd (sched_proposeSchedule v p po ix ow tid c))"
  unfolding sched_proposeSchedule_def containsIdentity_iff
  by (auto simp: scheduler_inv_def sched_identity_def)

lemma scheduler_inv_pop: "scheduler_inv c \<Longrightarrow> scheduler_inv (snd (sched_proposePop c))"
  by (auto simp: scheduler_inv_def sched_proposePop_def)

lemma identity_issue [simp]: "sched_identity (e\<lparr>se_issueEpoch := t\<rparr>) = sched_identity e"
  by (simp add: sched_identity_def)

lemma identity_sorted_issue:
  "mset (map sched_identity (sort_key stableKey (map (\<lambda>e. e\<lparr>se_issueEpoch := t\<rparr>) ps))) =
   mset (map sched_identity ps)"
  by (simp add: multiset.map_comp comp_def)

text \<open>Rearrangements that keep the identities distinct.\<close>

lemma distinct_map_cong_mset: "mset xs = mset ys \<Longrightarrow> distinct (map f xs) = distinct (map f ys)"
  by (rule mset_eq_imp_distinct_iff) simp

lemma distinct_map_take_middle:
  "distinct (map f (xs @ ys @ zs)) \<Longrightarrow> distinct (map f (ys @ take n xs @ zs))"
proof -
  assume "distinct (map f (xs @ ys @ zs))"
  then have "distinct (map f ((take n xs @ drop n xs) @ ys @ zs))"
    by simp
  then have "distinct (map f (drop n xs @ ys @ take n xs @ zs))"
    unfolding map_append distinct_append set_append by blast
  then show ?thesis by simp
qed

lemma distinct_map_drop_last:
  "distinct (map f (ps @ xs @ ys)) \<Longrightarrow> distinct (map f (ps @ drop n ys @ xs))"
proof -
  assume "distinct (map f (ps @ xs @ ys))"
  then have "distinct (map f (ps @ xs @ take n ys @ drop n ys))"
    by simp
  then have "distinct (map f (take n ys @ ps @ drop n ys @ xs))"
    unfolding map_append distinct_append set_append by blast
  then show ?thesis by simp
qed

lemma sched_select_eq:
  fixes c :: "('a, 'z) scheduler_scheme"
  defines "ps \<equiv> \<lambda>t. sort_key stableKey (map (\<lambda>e. e\<lparr>se_issueEpoch := t\<rparr>) (sc_proposals c))"
    and "n \<equiv> min (sc_capacity c - (length (sc_committed c) + length (sc_accepted c)))
       (length (sc_proposals c))"
  shows "sched_select t c = c\<lparr>sc_accepted := sc_accepted c @ take n (ps t),
     sc_rejected := sc_rejected c @ drop n (ps t), sc_proposals := []\<rparr>"
  unfolding sched_select_def ps_def n_def by (simp add: Let_def)

lemma scheduler_inv_select:
  assumes "scheduler_inv c"
  shows "scheduler_inv (sched_select t c)"
proof -
  define ps where "ps = sort_key stableKey (map (\<lambda>e. e\<lparr>se_issueEpoch := t\<rparr>) (sc_proposals c))"
  define n where "n = min (sc_capacity c - (length (sc_committed c) + length (sc_accepted c)))
    (length (sc_proposals c))"
  have "mset (map sched_identity (ps @ sc_accepted c @ sc_committed c)) =
      mset (map sched_identity (sc_proposals c @ sc_accepted c @ sc_committed c))"
    unfolding ps_def by (simp only: map_append mset_append identity_sorted_issue)
  then have "distinct (map sched_identity (ps @ sc_accepted c @ sc_committed c))"
    using assms mset_eq_imp_distinct_iff unfolding scheduler_inv_def by blast
  from distinct_map_take_middle [OF this, of n]
  have "distinct (map sched_identity (sc_accepted c @ take n ps @ sc_committed c))" .
  moreover have "length (take n ps) \<le> sc_capacity c - (length (sc_committed c) + length (sc_accepted c))"
    by (simp add: n_def)
  ultimately show ?thesis
    using assms unfolding sched_select_eq ps_def [symmetric] n_def [symmetric]
    by (auto simp: scheduler_inv_def)
qed

lemma scheduler_inv_failure: "scheduler_inv (setRuntimeFailureCode x c) = scheduler_inv c"
  by (simp add: scheduler_inv_def setRuntimeFailureCode_def)

lemma scheduler_inv_arbitrate: "scheduler_inv c \<Longrightarrow> scheduler_inv (fst (sched_doArbitrate api t c s))"
  using scheduler_inv_select [of c t]
    emitObservations_object [of api "sched_observations (sched_select t c)" "sched_select t c" s]
  by (auto simp: sched_doArbitrate_def Let_def scheduler_inv_failure)

lemma scheduler_inv_xfer:
  assumes "scheduler_inv c"
  shows "scheduler_inv (sched_doXfer t c)"
proof -
  let ?n = "sc_popProposalCount c"
  let ?es = "drop ?n (sc_committed c) @ sc_accepted c"
  have n: "min ?n (length (sc_committed c)) = ?n"
    using assms by (simp add: scheduler_inv_def)
  have "distinct (map sched_identity (sc_proposals c @ ?es))"
    using assms unfolding scheduler_inv_def by (blast intro: distinct_map_drop_last)
  then have "distinct (map sched_identity (sc_proposals c @ sort_key stableKey ?es))"
    by (rule distinct_map_cong_mset [THEN iffD1, rotated]) simp
  moreover have "sc_totalScheduled c + of_nat (length (sc_accepted c)) =
      sc_totalPops c + of_nat ?n + of_nat (length ?es)"
    using assms by (auto simp: scheduler_inv_def of_nat_diff)
  ultimately show ?thesis
    using assms by (auto simp: scheduler_inv_def sched_doXfer_def Let_def n)
qed

datatype 'a sched_call = ScSchedule 'a u32 u32 u32 object_id u64 | ScPop | ScArbitrate epoch
  | ScXfer epoch | ScReset

fun sched_apply :: "'s sim_api \<Rightarrow> 'a sched_call \<Rightarrow> 'a scheduler \<times> 's \<Rightarrow> 'a scheduler \<times> 's" where
  "sched_apply api (ScSchedule v p po ix ow tid) (c, s) = (snd (sched_proposeSchedule v p po ix ow tid c), s)"
| "sched_apply api ScPop (c, s) = (snd (sched_proposePop c), s)"
| "sched_apply api (ScArbitrate t) (c, s) = sched_doArbitrate api t c s"
| "sched_apply api (ScXfer t) (c, s) = (sched_doXfer t c, s)"
| "sched_apply api ScReset (c, s) = (sched_reset c, s)"

definition sched_fresh :: "'a scheduler \<times> 's \<Rightarrow> bool" where
  "sched_fresh cs \<longleftrightarrow> (\<exists>nm i parent cap obs. fst cs = newScheduler nm i parent cap obs)"

lemma scheduler_inv_new: "scheduler_inv (newScheduler nm i parent cap obs)"
  by (simp add: scheduler_inv_def newScheduler_def)

lemma scheduler_inv_reset: "scheduler_inv (sched_reset c)"
  by (simp add: scheduler_inv_def sched_reset_def clearRuntimeFailureCode_def)

interpretation scheduler: component_contract sched_fresh "sched_apply api" "\<lambda>cs. scheduler_inv (fst cs)"
    "\<lambda>cs. sched_validate (fst cs)" for api :: "'s sim_api"
proof
  fix call :: "'a sched_call" and cs :: "'a scheduler \<times> 's"
  assume "scheduler_inv (fst cs)"
  then show "scheduler_inv (fst (sched_apply api call cs))"
    by (cases cs; cases call)
      (simp_all add: scheduler_inv_propose scheduler_inv_pop scheduler_inv_arbitrate scheduler_inv_xfer scheduler_inv_reset)
qed (auto simp: sched_fresh_def scheduler_inv_new scheduler_inv_valid)

text \<open>
  A scheduler stays valid under every call sequence: it never holds more entries than its
  capacity, no two entries share an owner and transaction, the resident entries are in stable-key
  order, the high watermark is between the occupancy and the capacity, and every entry ever
  scheduled is either popped or resident.
\<close>

theorem scheduler_always_valid:
  "let c = fst (fold (sched_apply api) calls (newScheduler nm i parent cap obs, s)) in
     sched_validate c \<and> sorted_by stableKey (sc_committed c) \<and>
     length (sc_committed c) + length (sc_accepted c) \<le> sc_capacity c \<and>
     length (sc_committed c) \<le> sc_highWatermark c \<and> sc_highWatermark c \<le> sc_capacity c \<and>
     sc_totalScheduled c = sc_totalPops c + of_nat (length (sc_committed c))"
proof -
  have "sched_fresh (newScheduler nm i parent cap obs :: 'a scheduler, s)"
    unfolding sched_fresh_def by (metis fst_conv)
  from scheduler.run_inv [OF this, of api calls] show ?thesis
    by (simp add: scheduler_inv_valid Let_def) (simp add: scheduler_inv_def)
qed

text \<open>
  C36: admission is by stable key and never by insertion order. Two schedulers that differ only in
  the order in which their proposals arrived accept the same entries and reject the same entries
  in the same order; the accepted ones are the entries with the smallest keys that fit.
\<close>

theorem scheduler_ignores_insertion_order:
  assumes "scheduler_inv c" and "mset ps = mset (sc_proposals c)"
  shows "sched_select t (c\<lparr>sc_proposals := ps\<rparr>) = sched_select t c \<and>
    (let fresh = drop (length (sc_accepted c)) (sc_accepted (sched_select t c));
         turned = drop (length (sc_rejected c)) (sc_rejected (sched_select t c)) in
     sorted_by stableKey fresh \<and> (\<forall>a \<in> set fresh. \<forall>r \<in> set turned. stableKey a < stableKey r) \<and>
     length fresh = min (sc_capacity c - (length (sc_committed c) + length (sc_accepted c)))
       (length (sc_proposals c)))"
proof -
  let ?issue = "\<lambda>e. e\<lparr>se_issueEpoch := t\<rparr>"
  define qs where "qs = sort_key stableKey (map ?issue (sc_proposals c))"
  define n where "n = min (sc_capacity c - (length (sc_committed c) + length (sc_accepted c)))
    (length (sc_proposals c))"
  have "distinct (map sched_identity (map ?issue (sc_proposals c)))"
    using assms(1) by (simp add: scheduler_inv_def comp_def)
  then have keys: "distinct (map stableKey (map ?issue (sc_proposals c)))"
    by (rule distinct_map_coarser) (simp add: stableKey_def sched_identity_def)
  have "sort_key stableKey (map ?issue ps) = qs"
    unfolding qs_def by (rule sort_key_unique) (use keys assms(2) in simp_all)
  moreover have "length ps = length (sc_proposals c)"
    using assms(2) by (rule mset_eq_length)
  ultimately have same: "sched_select t (c\<lparr>sc_proposals := ps\<rparr>) = sched_select t c"
    unfolding sched_select_eq by (simp add: qs_def)
  have "distinct (map stableKey qs)"
    using keys distinct_map_cong_mset [of qs "map ?issue (sc_proposals c)" stableKey]
    by (simp add: qs_def)
  then have "increasing (map stableKey qs)"
    by (simp add: strict_sorted_iff qs_def)
  then have "increasing (map stableKey (take n qs) @ map stableKey (drop n qs))"
    by (simp only: map_append [symmetric] append_take_drop_id)
  then have "sorted_by stableKey (take n qs)"
    and "\<forall>a \<in> set (take n qs). \<forall>r \<in> set (drop n qs). stableKey a < stableKey r"
    by (simp_all add: sorted_wrt_append strict_sorted_iff)
  moreover have "length (take n qs) = n"
    by (simp add: n_def qs_def)
  ultimately show ?thesis
    using same unfolding sched_select_eq qs_def [symmetric] n_def [symmetric] by simp
qed

definition sample_scheduler :: "u64 scheduler" where
  "sample_scheduler = snd (sched_proposeSchedule 8 2 0 0 4 1 (snd (sched_proposeSchedule 7 5 0 0 3 1
     (newScheduler ''s'' 9 None 1 None))))"

theorem scheduler_ignores_insertion_order_witness:
  "sched_select epoch0 (sample_scheduler\<lparr>sc_proposals := rev (sc_proposals sample_scheduler)\<rparr>) =
     sched_select epoch0 sample_scheduler \<and>
   length (sc_accepted (sched_select epoch0 sample_scheduler)) = 1"
proof -
  have "scheduler_inv sample_scheduler"
    unfolding sample_scheduler_def by (intro scheduler_inv_propose scheduler_inv_new)
  moreover have "mset (rev (sc_proposals sample_scheduler)) = mset (sc_proposals sample_scheduler)"
    by simp
  ultimately show ?thesis
    using scheduler_ignores_insertion_order [of sample_scheduler "rev (sc_proposals sample_scheduler)" epoch0]
    by (simp add: Let_def sample_scheduler_def newScheduler_def sched_proposeSchedule_def
        containsIdentity_def kInvalidObjectId_def)
qed

section \<open>The handshake\<close>

definition rv_nextReady :: "('a, 'z) ready_valid_scheme \<Rightarrow> bool" where
  "rv_nextReady c = (case rv_readyProposal c of Some b \<Rightarrow> b | None \<Rightarrow> rv_ready c)"

definition rv_nextOffer :: "('a, 'z) ready_valid_scheme \<Rightarrow> 'a option" where
  "rv_nextOffer c = (case rv_offerProposal c of Some v \<Rightarrow> Some v | None \<Rightarrow> rv_offer c)"

lemma rv_doXfer_fields:
  "rv_ready (rv_doXfer e c) = rv_nextReady c"
  "rv_offer (rv_doXfer e c) = (if rv_nextReady c then None else rv_nextOffer c)"
  "rv_transferCount (rv_doXfer e c) = rv_transferCount c + of_bool (rv_nextReady c \<and> rv_nextOffer c \<noteq> None)"
  "rv_nextReady c \<Longrightarrow> rv_nextOffer c = Some v \<Longrightarrow> rv_lastTransferred (rv_doXfer e c) = v"
  by (cases "rv_readyProposal c"; cases "rv_offerProposal c"; cases "rv_offer c";
      simp add: rv_doXfer_def rv_nextReady_def rv_nextOffer_def Let_def)+

lemma rv_doXfer_clears [simp]: "rv_offerProposal (rv_doXfer e c) = None" "rv_readyProposal (rv_doXfer e c) = None"
  by (simp_all add: rv_doXfer_def Let_def split: option.split)

text \<open>
  A run of the handshake, with the two ends recorded: the offers the component accepted and the
  values it reported as transferred.
\<close>

datatype 'a rv_call = RvOffer 'a | RvReady bool | RvArbitrate | RvXfer epoch

record ('a, 's) rv_run =
  run_component :: "'a ready_valid"
  run_system :: 's
  run_offered :: "'a list"
  run_transferred :: "'a list"

fun rv_apply :: "'s sim_api \<Rightarrow> 'a rv_call \<Rightarrow> ('a, 's) rv_run \<Rightarrow> ('a, 's) rv_run" where
  "rv_apply api (RvOffer v) r =
     (case rv_proposeOffer v (run_component r) of (ok, c) \<Rightarrow>
        r\<lparr>run_component := c, run_offered := run_offered r @ (if ok then [v] else [])\<rparr>)"
| "rv_apply api (RvReady b) r = r\<lparr>run_component := rv_proposeReady b (run_component r)\<rparr>"
| "rv_apply api RvArbitrate r =
     (case rv_doArbitrate api (run_component r) (run_system r) of (c, s) \<Rightarrow>
        r\<lparr>run_component := c, run_system := s\<rparr>)"
| "rv_apply api (RvXfer e) r =
     (let c = rv_doXfer e (run_component r) in
      r\<lparr>run_component := c, run_transferred := run_transferred r @
         (if rv_transferCount c \<noteq> rv_transferCount (run_component r) then [rv_lastTransferred c] else [])\<rparr>)"

fun option_list :: "'a option \<Rightarrow> 'a list" where
  "option_list None = []"
| "option_list (Some v) = [v]"

definition rv_inv :: "('a, 's) rv_run \<Rightarrow> bool" where
  "rv_inv r \<longleftrightarrow> (let c = run_component r in
     rv_validate c \<and> \<not> (rv_offer c \<noteq> None \<and> rv_offerProposal c \<noteq> None) \<and>
     run_offered r = run_transferred r @ option_list (rv_offer c) @ option_list (rv_offerProposal c) \<and>
     rv_transferCount c = of_nat (length (run_transferred r)))"

definition rv_fresh :: "('a::zero, 's) rv_run \<Rightarrow> bool" where
  "rv_fresh r \<longleftrightarrow> run_offered r = [] \<and> run_transferred r = [] \<and>
     (\<exists>nm i parent obs. run_component r = newReadyValid nm i parent obs)"

lemma rv_inv_arbitrate:
  "rv_inv (r\<lparr>run_component := fst (rv_doArbitrate api (run_component r) s), run_system := s'\<rparr>) = rv_inv r"
proof -
  let ?c = "run_component r"
  have "fst (rv_doArbitrate api ?c s) = ?c \<or>
      fst (rv_doArbitrate api ?c s) = setRuntimeFailureCode ''observation_proposal_failed'' ?c"
    using emitObservation_object [of api _ ?c s] by (simp add: rv_doArbitrate_def Let_def)
  then show ?thesis
    by (auto simp: rv_inv_def rv_validate_def setRuntimeFailureCode_def Let_def)
qed

lemma rv_inv_xfer: "rv_inv r \<Longrightarrow> rv_inv (rv_apply api (RvXfer e) r)"
  using rv_doXfer_fields [where e = e and c = "run_component r"]
  by (cases "rv_nextReady (run_component r)"; cases "rv_offerProposal (run_component r)";
      cases "rv_offer (run_component r)")
    (auto simp: rv_inv_def rv_validate_def Let_def rv_nextOffer_def)

interpretation ready_valid: component_contract rv_fresh "rv_apply api" rv_inv
    "\<lambda>r. rv_validate (run_component r)" for api :: "'s sim_api"
proof
  fix call :: "'a rv_call" and r :: "('a, 's) rv_run"
  assume inv: "rv_inv r"
  show "rv_inv (rv_apply api call r)"
  proof (cases call)
    case (RvXfer e)
    with rv_inv_xfer [OF inv, of api e] show ?thesis by simp
  next
    case RvArbitrate
    with inv rv_inv_arbitrate [where r = r and api = api and s = "run_system r"] show ?thesis
      by (simp split: prod.split) (metis fst_conv)
  qed (use inv in \<open>auto simp: rv_inv_def rv_validate_def rv_proposeOffer_def rv_proposeReady_def Let_def\<close>)
qed (auto simp: rv_fresh_def rv_inv_def newReadyValid_def rv_validate_def Let_def)

text \<open>
  The handshake transfers every accepted offer exactly once and in order. After any sequence
  of offers, ready changes, arbitrations and commits, the accepted offers are the transferred ones
  followed by the one still waiting; the component is valid (no offer waits while the receiver is
  ready), at most one offer is outstanding, and the count is the number of transfers.
\<close>

theorem ready_valid_exactly_once:
  "let r = fold (rv_apply api) calls \<lparr>run_component = newReadyValid nm i parent obs, run_system = s,
             run_offered = [], run_transferred = []\<rparr>;
       c = run_component r in
     run_offered r = run_transferred r @ option_list (rv_offer c) @ option_list (rv_offerProposal c) \<and>
     \<not> (rv_offer c \<noteq> None \<and> rv_offerProposal c \<noteq> None) \<and> rv_validate c \<and>
     rv_transferCount c = of_nat (length (run_transferred r))"
proof -
  let ?r = "\<lparr>run_component = newReadyValid nm i parent obs :: 'a ready_valid, run_system = s,
             run_offered = [], run_transferred = []\<rparr>"
  have "rv_fresh ?r" unfolding rv_fresh_def by auto
  from ready_valid.run_inv [OF this, of api calls] show ?thesis
    by (simp add: rv_inv_def Let_def)
qed

section \<open>The credit protocol\<close>

inductive protocol_step :: "protocol_state \<Rightarrow> protocol_state \<Rightarrow> bool" where
  request: "startRequest p = (True, p') \<Longrightarrow> protocol_step p p'"
| respond: "beginResponse p = (True, p') \<Longrightarrow> protocol_step p p'"
| finish: "completeResponse p = (True, p') \<Longrightarrow> protocol_step p p'"
| pressure: "setBackpressure b p = (True, p') \<Longrightarrow> protocol_step p p'"
| restart: "protocol_step p (protocol_reset p)"

inductive protocol_reachable :: "nat \<Rightarrow> protocol_state \<Rightarrow> bool" for n where
  start: "protocol_reachable n (newProtocolState n)"
| step: "protocol_reachable n p \<Longrightarrow> protocol_step p p' \<Longrightarrow> protocol_reachable n p'"

inductive_cases protocol_stepE: "protocol_step p p'"

lemmas protocol_ops = startRequest_def beginResponse_def completeResponse_def setBackpressure_def
  protocol_reset_def canSend_def Let_def

definition protocol_inv :: "nat \<Rightarrow> protocol_state \<Rightarrow> bool" where
  "protocol_inv n p \<longleftrightarrow> pt_maxCredits p = n \<and> pt_credits p + pt_inFlight p = n \<and>
     (pt_phase p = Backpressure \<longrightarrow> pt_resumePhase p \<noteq> Backpressure) \<and>
     ((if pt_phase p = Backpressure then pt_resumePhase p else pt_phase p) = Idle \<longleftrightarrow> pt_inFlight p = 0)"

lemma protocol_step_inv: "protocol_step p p' \<Longrightarrow> protocol_inv n p \<Longrightarrow> protocol_inv n p'"
  by (erule protocol_stepE) (auto simp: protocol_ops protocol_inv_def split: if_splits)

lemma protocol_reachable_inv: "protocol_reachable n p \<Longrightarrow> protocol_inv n p"
proof (induction rule: protocol_reachable.induct)
  case start
  then show ?case by (simp add: protocol_inv_def newProtocolState_def)
next
  case (step p p')
  then show ?case by (blast intro: protocol_step_inv)
qed

text \<open>
  Credits are never lost or created. In every state the protocol machine can reach, the
  credits and the requests in flight add up to the configured maximum, \<open>validate\<close> holds, a
  request can be sent exactly when there is no backpressure and fewer than the maximum are in
  flight, and lifting backpressure restores exactly the phase that it interrupted.
\<close>

theorem protocol_credits_conserved:
  assumes "protocol_reachable n p"
  shows "pt_credits p + pt_inFlight p = n \<and> protocol_validate p \<and>
    (fst (startRequest p) \<longleftrightarrow> pt_phase p \<noteq> Backpressure \<and> pt_inFlight p < n) \<and>
    (pt_phase p \<noteq> Backpressure \<longrightarrow>
       (let q = snd (setBackpressure True p) in
        \<not> fst (startRequest q) \<and> pt_phase (snd (setBackpressure False q)) = pt_phase p))"
  using protocol_reachable_inv [OF assms]
  by (auto simp: protocol_inv_def protocol_validate_def protocol_ops split: if_splits)

theorem protocol_credits_conserved_witness:
  "pt_credits (snd (startRequest (newProtocolState 2))) + pt_inFlight (snd (startRequest (newProtocolState 2))) = 2 \<and>
   fst (startRequest (snd (startRequest (newProtocolState 2))))"
proof -
  have "protocol_step (newProtocolState 2) (snd (startRequest (newProtocolState 2)))"
    by (rule protocol_step.request) (simp add: newProtocolState_def protocol_ops)
  then have "protocol_reachable 2 (snd (startRequest (newProtocolState 2)))"
    by (rule protocol_reachable.step [OF protocol_reachable.start])
  from protocol_credits_conserved [OF this] show ?thesis
    by (simp add: newProtocolState_def protocol_ops)
qed

section \<open>The correlated channel\<close>

abbreviation ids_of :: "'p envelope list \<Rightarrow> u64 list" where
  "ids_of es \<equiv> map snd es"

text \<open>
  The invariant is about correlation IDs only: \<open>act\<close>ive, \<open>del\<close>ivered, and the IDs of the
  request proposals, resident requests, response proposals and resident responses.
\<close>

definition ids_ok ::
  "u64 list \<Rightarrow> u64 list \<Rightarrow> u64 list \<Rightarrow> u64 list \<Rightarrow> u64 list \<Rightarrow> u64 list \<Rightarrow> bool" where
  "ids_ok act del rqp rqs rsp rss \<longleftrightarrow>
     increasing act \<and> increasing del \<and> distinct rqp \<and> distinct rqs \<and> distinct rsp \<and> distinct rss \<and>
     set rqp \<inter> set act = {} \<and> set rss \<inter> (set act \<union> set rqp) = {} \<and>
     set act = set del \<union> set rqs \<and> set del \<inter> set rqs = {} \<and> set rsp \<subseteq> set del"

definition rr_inv :: "('q, 'r, 'z) request_response_scheme \<Rightarrow> bool" where
  "rr_inv c \<longleftrightarrow>
     ids_ok (rr_active c) (rr_deliveredRequests c) (ids_of (rr_requestProposals c))
       (ids_of (rr_committedRequests c)) (ids_of (rr_responseProposals c)) (ids_of (rr_committedResponses c)) \<and>
     rr_requestPopCount c \<le> length (rr_committedRequests c) \<and>
     rr_responsePopCount c \<le> length (rr_committedResponses c) \<and>
     length (rr_active c) + length (rr_requestProposals c) \<le> rr_maxInFlight c"

lemma ids_ok_request:
  "ids_ok act del rqp rqs rsp rss \<Longrightarrow> cid \<notin> set act \<Longrightarrow> cid \<notin> set rqp \<Longrightarrow> cid \<notin> set rss \<Longrightarrow>
   ids_ok act del (rqp @ [cid]) rqs rsp rss"
  unfolding ids_ok_def by auto

lemma ids_ok_response:
  "ids_ok act del rqp rqs rsp rss \<Longrightarrow> cid \<in> set del \<Longrightarrow> cid \<notin> set rsp \<Longrightarrow>
   ids_ok act del rqp rqs (rsp @ [cid]) rss"
  unfolding ids_ok_def by auto

lemma ids_ok_xfer:
  assumes "ids_ok act del rqp rqs rsp rss"
  shows "ids_ok (fold set_erase rsp (fold set_insert rqp act))
      (fold set_erase rsp (fold set_insert (take n rqs) del)) [] (drop n rqs @ rqp) [] (drop m rss @ rsp)"
    and "length (fold set_erase rsp (fold set_insert rqp act)) + length rsp = length act + length rqp"
proof -
  have parts: "set rqs = set (take n rqs) \<union> set (drop n rqs)" "set (drop m rss) \<subseteq> set rss"
    by (metis append_take_drop_id set_append) (rule set_drop_subset)
  have split: "distinct rqs \<Longrightarrow> set (take n rqs) \<inter> set (drop n rqs) = {}"
    using distinct_append [of "take n rqs" "drop n rqs"] by simp
  show "ids_ok (fold set_erase rsp (fold set_insert rqp act))
      (fold set_erase rsp (fold set_insert (take n rqs) del)) [] (drop n rqs @ rqp) [] (drop m rss @ rsp)"
    using assms parts split unfolding ids_ok_def by (elim conjE) (auto simp: distinct_drop)
  have inc: "increasing (fold set_erase rsp (fold set_insert rqp act))"
    and sub: "set rsp \<subseteq> set act" and dis: "set rqp \<inter> set act = {}" "distinct rqp" "distinct act" "distinct rsp"
    using assms unfolding ids_ok_def by (auto simp: increasing_distinct)
  have "length (fold set_erase rsp (fold set_insert rqp act)) = card (set rqp \<union> set act - set rsp)"
    using increasing_length [OF inc] by simp
  also have "\<dots> = card (set rqp \<union> set act) - card (set rsp)"
    using sub by (intro card_Diff_subset) auto
  also have "card (set rqp \<union> set act) = length rqp + length act"
    using dis by (simp add: card_Un_disjoint distinct_card)
  moreover have "card (set rsp) = length rsp" "length rsp \<le> length act"
    using dis sub card_mono [OF _ sub] by (simp_all add: distinct_card)
  ultimately show "length (fold set_erase rsp (fold set_insert rqp act)) + length rsp = length act + length rqp"
    by simp
qed

lemma ids_ok_mset:
  assumes "ids_ok act del rqp rqs rsp rss"
  shows "mset (fold set_erase rsp (fold set_insert rqp act) @ rsp) = mset (rqp @ act)"
proof -
  have "increasing (fold set_erase rsp (fold set_insert rqp act))" "set rsp \<subseteq> set act"
    "set rqp \<inter> set act = {}" "distinct rqp" "distinct act" "distinct rsp"
    using assms unfolding ids_ok_def by (auto simp: increasing_distinct)
  then show ?thesis
    by (intro set_eq_iff_mset_eq_distinct [THEN iffD1]) (auto simp: increasing_distinct)
qed

lemma list_ex_ids: "list_ex (\<lambda>e. snd e = cid) es \<longleftrightarrow> cid \<in> set (ids_of es)"
  by (induction es) auto

lemma list_all_ids: "list_all (\<lambda>e. P (snd e)) es \<longleftrightarrow> (\<forall>cid \<in> set (ids_of es). P cid)"
  by (simp add: list_all_iff)

lemma rr_inv_valid: "rr_inv c \<Longrightarrow> rr_validate c"
  unfolding rr_validate_def list_all_ids [of "\<lambda>cid. cid \<in> set (rr_active c)"]
    list_all_ids [of "\<lambda>cid. cid \<in> set (rr_active c) \<and> cid \<in> set (rr_deliveredRequests c)"]
    list_all_iff [of _ "rr_deliveredRequests c"] rr_inv_def ids_ok_def
  by (elim conjE, intro conjI) (linarith, simp, blast, blast)

lemma rr_inv_request: "rr_inv c \<Longrightarrow> rr_inv (snd (rr_proposeRequest q cid c))"
  unfolding rr_proposeRequest_def containsCorrelation_def list_ex_ids rr_inv_def
  by (simp add: ids_ok_request del: set_map)

lemma rr_inv_response: "rr_inv c \<Longrightarrow> rr_inv (snd (rr_proposeResponse q cid c))"
  unfolding rr_proposeResponse_def list_ex_ids rr_inv_def
  by (simp add: ids_ok_response del: set_map)

lemma rr_inv_pops:
  "rr_inv c \<Longrightarrow> rr_inv (snd (rr_proposePopRequest c))"
  "rr_inv c \<Longrightarrow> rr_inv (snd (rr_proposePopResponse c))"
  unfolding rr_proposePopRequest_def rr_proposePopResponse_def rr_inv_def by auto

lemma rr_inv_failure: "rr_inv (setRuntimeFailureCode x c) = rr_inv c"
  by (simp add: rr_inv_def setRuntimeFailureCode_def)

lemma rr_inv_arbitrate: "rr_inv (fst (rr_doArbitrate api c s)) = rr_inv c"
  using emitObservations_object [of api _ c s]
  unfolding rr_doArbitrate_def by (metis (no_types, lifting) rr_inv_failure)


lemma rr_deliver_fold: "fold (\<lambda>e d. set_insert (snd e) d) es d = fold set_insert (ids_of es) d"
  by (induction es arbitrary: d) simp_all

lemma rr_commit_fold:
  "fold (\<lambda>e c. c\<lparr>rr_active := set_insert (snd e) (rr_active c),
       rr_committedRequests := rr_committedRequests c @ [e]\<rparr>) es c =
     c\<lparr>rr_active := fold set_insert (ids_of es) (rr_active c),
       rr_committedRequests := rr_committedRequests c @ es\<rparr>"
  by (induction es arbitrary: c) simp_all

lemma rr_complete_fold:
  "fold (\<lambda>e c. c\<lparr>rr_active := set_erase (snd e) (rr_active c),
       rr_deliveredRequests := set_erase (snd e) (rr_deliveredRequests c),
       rr_committedResponses := rr_committedResponses c @ [e],
       rr_totalCompleted := rr_totalCompleted c + 1\<rparr>) es c =
     c\<lparr>rr_active := fold set_erase (ids_of es) (rr_active c),
       rr_deliveredRequests := fold set_erase (ids_of es) (rr_deliveredRequests c),
       rr_committedResponses := rr_committedResponses c @ es,
       rr_totalCompleted := rr_totalCompleted c + of_nat (length es)\<rparr>"
  by (induction es arbitrary: c) (simp_all add: ac_simps)

lemma rr_doXfer_fields:
  assumes "rr_inv c"
  shows "rr_active (rr_doXfer e c) =
      fold set_erase (ids_of (rr_responseProposals c)) (fold set_insert (ids_of (rr_requestProposals c)) (rr_active c))"
    and "rr_deliveredRequests (rr_doXfer e c) = fold set_erase (ids_of (rr_responseProposals c))
      (fold set_insert (ids_of (take (rr_requestPopCount c) (rr_committedRequests c))) (rr_deliveredRequests c))"
    and "rr_committedRequests (rr_doXfer e c) =
      drop (rr_requestPopCount c) (rr_committedRequests c) @ rr_requestProposals c"
    and "rr_committedResponses (rr_doXfer e c) =
      drop (rr_responsePopCount c) (rr_committedResponses c) @ rr_responseProposals c"
    and "rr_requestProposals (rr_doXfer e c) = []" "rr_responseProposals (rr_doXfer e c) = []"
    and "rr_requestPopCount (rr_doXfer e c) = 0" "rr_responsePopCount (rr_doXfer e c) = 0"
    and "rr_maxInFlight (rr_doXfer e c) = rr_maxInFlight c"
    and "rr_totalCompleted (rr_doXfer e c) = rr_totalCompleted c + of_nat (length (rr_responseProposals c))"
proof -
  have "min (rr_requestPopCount c) (length (rr_committedRequests c)) = rr_requestPopCount c"
    "min (rr_responsePopCount c) (length (rr_committedResponses c)) = rr_responsePopCount c"
    using assms by (simp_all add: rr_inv_def)
  then show "rr_active (rr_doXfer e c) =
      fold set_erase (ids_of (rr_responseProposals c)) (fold set_insert (ids_of (rr_requestProposals c)) (rr_active c))"
    and "rr_deliveredRequests (rr_doXfer e c) = fold set_erase (ids_of (rr_responseProposals c))
      (fold set_insert (ids_of (take (rr_requestPopCount c) (rr_committedRequests c))) (rr_deliveredRequests c))"
    and "rr_committedRequests (rr_doXfer e c) =
      drop (rr_requestPopCount c) (rr_committedRequests c) @ rr_requestProposals c"
    and "rr_committedResponses (rr_doXfer e c) =
      drop (rr_responsePopCount c) (rr_committedResponses c) @ rr_responseProposals c"
    and "rr_requestProposals (rr_doXfer e c) = []" "rr_responseProposals (rr_doXfer e c) = []"
    and "rr_requestPopCount (rr_doXfer e c) = 0" "rr_responsePopCount (rr_doXfer e c) = 0"
    and "rr_maxInFlight (rr_doXfer e c) = rr_maxInFlight c"
    and "rr_totalCompleted (rr_doXfer e c) = rr_totalCompleted c + of_nat (length (rr_responseProposals c))"
    by (simp_all add: rr_doXfer_def Let_def rr_commit_fold rr_complete_fold rr_deliver_fold)
qed


lemma rr_inv_xfer:
  assumes "rr_inv c"
  shows "rr_inv (rr_doXfer e c)"
proof -
  have ok: "ids_ok (rr_active c) (rr_deliveredRequests c) (ids_of (rr_requestProposals c))
      (ids_of (rr_committedRequests c)) (ids_of (rr_responseProposals c)) (ids_of (rr_committedResponses c))"
    using assms by (simp add: rr_inv_def)
  show ?thesis
    using assms ids_ok_xfer(1) [OF ok, of "rr_requestPopCount c" "rr_responsePopCount c"]
      ids_ok_xfer(2) [OF ok] rr_doXfer_fields [OF assms, of e]
    by (simp add: rr_inv_def drop_map take_map)
qed

lemma rr_inv_new: "rr_inv (newRequestResponse nm i parent n obs)"
  by (simp add: rr_inv_def newRequestResponse_def ids_ok_def)

text \<open>A run of the channel, recording what each end saw.\<close>

datatype ('q, 'r) rr_call = RrRequest 'q u64 | RrTake | RrRespond 'r u64 | RrCollect | RrArbitrate
  | RrXfer epoch

record ('q, 'r, 's) rr_run =
  rq_component :: "('q, 'r) request_response"
  rq_system :: 's
  rq_accepted :: "u64 list"
  rq_served :: "u64 list"
  rq_answered :: "u64 list"

fun rr_apply :: "'s sim_api \<Rightarrow> ('q, 'r) rr_call \<Rightarrow> ('q, 'r, 's) rr_run \<Rightarrow> ('q, 'r, 's) rr_run" where
  "rr_apply api (RrRequest q cid) r =
     (case rr_proposeRequest q cid (rq_component r) of (ok, c) \<Rightarrow>
        r\<lparr>rq_component := c, rq_accepted := rq_accepted r @ (if ok then [cid] else [])\<rparr>)"
| "rr_apply api RrTake r =
     (case rr_proposePopRequest (rq_component r) of (v, c) \<Rightarrow>
        r\<lparr>rq_component := c, rq_served := rq_served r @ option_list (map_option snd v)\<rparr>)"
| "rr_apply api (RrRespond v cid) r =
     r\<lparr>rq_component := snd (rr_proposeResponse v cid (rq_component r))\<rparr>"
| "rr_apply api RrCollect r =
     (case rr_proposePopResponse (rq_component r) of (v, c) \<Rightarrow>
        r\<lparr>rq_component := c, rq_answered := rq_answered r @ option_list (map_option snd v)\<rparr>)"
| "rr_apply api RrArbitrate r =
     (case rr_doArbitrate api (rq_component r) (rq_system r) of (c, s) \<Rightarrow>
        r\<lparr>rq_component := c, rq_system := s\<rparr>)"
| "rr_apply api (RrXfer e) r = r\<lparr>rq_component := rr_doXfer e (rq_component r)\<rparr>"

definition rr_waiting :: "('q, 'r, 'z) request_response_scheme \<Rightarrow> u64 list" where
  "rr_waiting c = drop (rr_responsePopCount c) (ids_of (rr_committedResponses c))"

definition rr_queued :: "('q, 'r, 'z) request_response_scheme \<Rightarrow> u64 list" where
  "rr_queued c = drop (rr_requestPopCount c) (ids_of (rr_committedRequests c)) @ ids_of (rr_requestProposals c)"

definition rr_ledger :: "('q, 'r, 's) rr_run \<Rightarrow> bool" where
  "rr_ledger r \<longleftrightarrow> (let c = rq_component r in
     rq_accepted r = rq_served r @ rr_queued c \<and>
     mset (rq_accepted r) = mset (ids_of (rr_requestProposals c)) + mset (rr_active c)
       + mset (rr_waiting c) + mset (rq_answered r) \<and>
     rr_totalCompleted c = of_nat (length (rq_answered r) + length (rr_waiting c)))"

definition rr_run_inv :: "('q, 'r, 's) rr_run \<Rightarrow> bool" where
  "rr_run_inv r \<longleftrightarrow> rr_inv (rq_component r) \<and> rr_ledger r"

lemma rr_ledger_xfer:
  assumes inv: "rr_inv (rq_component r)" and "rr_ledger r"
  shows "rr_ledger (r\<lparr>rq_component := rr_doXfer e (rq_component r)\<rparr>)"
proof -
  let ?c = "rq_component r"
  let ?rsp = "ids_of (rr_responseProposals ?c)" and ?rqp = "ids_of (rr_requestProposals ?c)"
  have "mset (fold set_erase ?rsp (fold set_insert ?rqp (rr_active ?c)) @ ?rsp) = mset (?rqp @ rr_active ?c)"
    using inv ids_ok_mset unfolding rr_inv_def by blast
  moreover have "mset (rq_accepted r) = mset ?rqp + mset (rr_active ?c) + mset (rr_waiting ?c) + mset (rq_answered r)"
    using assms(2) unfolding rr_ledger_def Let_def by (elim conjE)
  ultimately have "mset (rq_accepted r) = mset (rr_active (rr_doXfer e ?c)) + mset (rr_waiting (rr_doXfer e ?c))
      + mset (rq_answered r)"
    using rr_doXfer_fields(1,4,8) [OF inv, of e] by (simp add: rr_waiting_def drop_map ac_simps del: mset_map)
  moreover have "rq_accepted r = rq_served r @ rr_queued (rr_doXfer e ?c)"
    using assms(2) rr_doXfer_fields(3,5,7) [OF inv, of e] by (simp add: rr_ledger_def rr_queued_def drop_map Let_def)
  moreover have "rr_totalCompleted (rr_doXfer e ?c) = of_nat (length (rq_answered r) + length (rr_waiting (rr_doXfer e ?c)))"
    using assms(2) rr_doXfer_fields(4,8,10) [OF inv, of e] by (simp add: rr_ledger_def rr_waiting_def Let_def ac_simps)
  ultimately show ?thesis
    using rr_doXfer_fields(5) [OF inv, of e] by (simp add: rr_ledger_def Let_def)
qed

lemma rr_ledger_pop_request:
  assumes "rr_proposePopRequest (rq_component r) = (v, c)" and "rr_ledger r"
  shows "rr_ledger (r\<lparr>rq_component := c, rq_served := rq_served r @ option_list (map_option snd v)\<rparr>)"
  using assms
  by (auto simp: rr_proposePopRequest_def rr_ledger_def rr_queued_def rr_waiting_def Let_def
      Cons_nth_drop_Suc [symmetric] split: if_splits)

lemma rr_ledger_pop_response:
  assumes "rr_proposePopResponse (rq_component r) = (v, c)" and "rr_ledger r"
  shows "rr_ledger (r\<lparr>rq_component := c, rq_answered := rq_answered r @ option_list (map_option snd v)\<rparr>)"
proof (cases "rr_responsePopCount (rq_component r) < length (rr_committedResponses (rq_component r))")
  case True
  let ?c = "rq_component r"
  from True have "rr_waiting ?c = snd (rr_committedResponses ?c ! rr_responsePopCount ?c) #
      drop (Suc (rr_responsePopCount ?c)) (ids_of (rr_committedResponses ?c))"
    unfolding rr_waiting_def by (simp add: Cons_nth_drop_Suc [symmetric])
  with assms True show ?thesis
    by (auto simp: rr_proposePopResponse_def rr_ledger_def rr_queued_def rr_waiting_def Let_def ac_simps)
next
  case False
  with assms show ?thesis by (auto simp: rr_proposePopResponse_def)
qed

lemma rr_ledger_rest:
  "rr_ledger r \<Longrightarrow> rr_proposeRequest q cid (rq_component r) = (ok, c) \<Longrightarrow>
     rr_ledger (r\<lparr>rq_component := c, rq_accepted := rq_accepted r @ (if ok then [cid] else [])\<rparr>)"
  "rr_ledger r \<Longrightarrow> rr_ledger (r\<lparr>rq_component := snd (rr_proposeResponse v cid (rq_component r))\<rparr>)"
  by (auto simp: rr_ledger_def rr_queued_def rr_waiting_def rr_proposeRequest_def rr_proposeResponse_def
      Let_def split: if_splits)

lemma rr_ledger_arbitrate:
  "rr_ledger r \<Longrightarrow> rr_ledger (r\<lparr>rq_component := fst (rr_doArbitrate api (rq_component r) s), rq_system := s'\<rparr>)"
proof -
  let ?c = "rq_component r"
  have "fst (rr_doArbitrate api ?c s) = ?c \<or>
      fst (rr_doArbitrate api ?c s) = setRuntimeFailureCode ''observation_proposal_failed'' ?c"
    unfolding rr_doArbitrate_def by (rule emitObservations_object)
  then show "rr_ledger r \<Longrightarrow> ?thesis"
    by (auto simp: rr_ledger_def rr_queued_def rr_waiting_def setRuntimeFailureCode_def Let_def)
qed

lemma rr_run_inv_apply: "rr_run_inv r \<Longrightarrow> rr_run_inv (rr_apply api call r)"
proof (induction api call r rule: rr_apply.induct)
  case (1 api q cid r)
  then show ?case
    using rr_inv_request [of "rq_component r" q cid] rr_ledger_rest(1) [of r q cid]
    by (auto simp: rr_run_inv_def split: prod.split)
next
  case (2 api r)
  then show ?case
    using rr_inv_pops(1) [of "rq_component r"] by (auto simp: rr_run_inv_def rr_ledger_pop_request split: prod.split)
next
  case (4 api r)
  then show ?case
    using rr_inv_pops(2) [of "rq_component r"] by (auto simp: rr_run_inv_def rr_ledger_pop_response split: prod.split)
next
  case (5 api r)
  then show ?case
    using rr_inv_arbitrate [of api "rq_component r" "rq_system r"]
      rr_ledger_arbitrate [where r = r and api = api and s = "rq_system r"]
    by (simp add: rr_run_inv_def split: prod.split) (metis fst_conv)
qed (auto simp: rr_run_inv_def rr_ledger_rest rr_ledger_xfer rr_inv_xfer rr_inv_response)


definition rr_fresh :: "('q, 'r, 's) rr_run \<Rightarrow> bool" where
  "rr_fresh r \<longleftrightarrow> rq_accepted r = [] \<and> rq_served r = [] \<and> rq_answered r = [] \<and>
     (\<exists>nm i parent n obs. rq_component r = newRequestResponse nm i parent n obs)"

lemma rr_fresh_inv: "rr_fresh r \<Longrightarrow> rr_run_inv r"
  by (auto simp: rr_fresh_def rr_run_inv_def rr_inv_new)
    (simp add: rr_ledger_def rr_queued_def rr_waiting_def newRequestResponse_def Let_def)

interpretation request_response: component_contract rr_fresh "rr_apply api" rr_run_inv
    "\<lambda>r. rr_validate (rq_component r)" for api :: "'s sim_api"
  by unfold_locales (simp_all add: rr_fresh_inv rr_run_inv_apply, simp add: rr_run_inv_def rr_inv_valid)

text \<open>
  C24: every accepted request is answered at most once and none is lost. After any sequence of
  requests, takes, responses, collections, arbitrations and commits, the channel is valid, the
  requests reach the server in the order they were accepted, and the accepted correlation IDs are,
  counted with multiplicity, exactly those still proposed, in flight, waiting to be collected, or
  already collected; the completion count is the number of responses committed.
\<close>

theorem request_response_exactly_once:
  "let r = fold (rr_apply api) calls \<lparr>rq_component = newRequestResponse nm i parent n obs,
             rq_system = s, rq_accepted = [], rq_served = [], rq_answered = []\<rparr>;
       c = rq_component r in
     rr_validate c \<and> rq_accepted r = rq_served r @ rr_queued c \<and>
     mset (rq_accepted r) = mset (ids_of (rr_requestProposals c)) + mset (rr_active c)
       + mset (rr_waiting c) + mset (rq_answered r) \<and>
     rr_totalCompleted c = of_nat (length (rq_answered r) + length (rr_waiting c))"
proof -
  let ?r = "\<lparr>rq_component = newRequestResponse nm i parent n obs :: ('q, 'r) request_response,
             rq_system = s, rq_accepted = [], rq_served = [], rq_answered = []\<rparr>"
  have "rr_fresh ?r" unfolding rr_fresh_def rr_run.simps by blast
  from request_response.run_inv [OF this, of api calls] show ?thesis
    unfolding Let_def rr_run_inv_def rr_ledger_def by (blast intro: rr_inv_valid)
qed

end
