(* ===== verification/Trace_Source.thy ===== *)
theory Trace_Source
  imports Sim_Object
begin

text \<open>
  The trace document of \<open>include/gfsim/trace.h\<close> and the component \<open>TraceSource\<close> that owns the
  cursor into it. The decoder that turns a record into a transaction is a template parameter in
  the source and an argument here. The lemmas show that \<open>validate\<close> is an invariant for documents
  whose sequence IDs are distinct, that the records are offered and accepted exactly once and in
  document order, and that no record is offered before its issue time or before all its
  dependencies were marked complete, each of which was issued before.
\<close>

section \<open>Trace documents\<close>

text \<open>
  \<open>PtoValue\<close>. A \<open>double\<close> is carried in the type \<open>'d\<close>: the runtime stores and compares it but
  never computes with it.
\<close>

datatype 'd pto_value = PNull | PBool bool | PInt "64 word" | PUInt u64 | PDouble 'd
  | PString string | PArray "'d pto_value list" | PObject "(string \<times> 'd pto_value) list"

datatype pto_operand_kind = Immediate | Buffer | Tile | Address | Symbol | RecordResult

record 'd pto_operand =
  po_kind :: pto_operand_kind
  po_type :: string
  po_immediate :: "'d pto_value option"
  po_id :: string
  po_addressSpace :: string
  po_address :: u64
  po_sequenceId :: u64
  po_resultIndex :: u64

record pto_source_location =
  sl_file :: string
  sl_line :: u64
  sl_column :: u64

record 'd pto_record =
  pr_sequenceId :: u64
  pr_opcode :: string
  pr_operands :: "'d pto_operand list"
  pr_dependencies :: "u64 list"
  pr_attributes :: "(string \<times> 'd pto_value) list"
  pr_issueTime :: "u64 option"
  pr_source :: "pto_source_location option"

record pto_metadata =
  pm_producer :: string
  pm_ptoIdentity :: string
  pm_sourceProgram :: string
  pm_addressSpaces :: "string list"
  pm_dataLayout :: string
  pm_recordCount :: "u64 option"
  pm_contentHash :: string

definition empty_metadata :: pto_metadata where
  "empty_metadata = \<lparr>pm_producer = [], pm_ptoIdentity = [], pm_sourceProgram = [],
     pm_addressSpaces = [], pm_dataLayout = [], pm_recordCount = None, pm_contentHash = []\<rparr>"

record 'd pto_document =
  pd_metadata :: pto_metadata
  pd_records :: "'d pto_record list"

definition empty_document :: "'d pto_document" where
  "empty_document = \<lparr>pd_metadata = empty_metadata, pd_records = []\<rparr>"

section \<open>The cursor\<close>

record trace_position =
  tp_nextRecordIndex :: nat
  tp_lastCommittedSequenceId :: "u64 option"
  tp_endOfTrace :: bool

record ('t, 'd) trace_source = sim_object +
  ts_document :: "'d pto_document"
  ts_position :: trace_position
  ts_committedOffer :: "'t option"
  ts_offerProposal :: "'t option"
  ts_committedSequenceId :: "u64 option"
  ts_proposedSequenceId :: "u64 option"
  ts_acceptProposal :: bool
  ts_issueWakeScheduled :: bool
  ts_documentLoaded :: bool
  ts_issuedSequences :: "u64 list"
  ts_completedSequences :: "u64 list"
  ts_system :: "ptr option"
  ts_lastUpdate :: epoch

definition kIssueEventKind :: u32 where
  "kIssueEventKind = 0x54524345"

text \<open>The constructor without a document, and the one with a document.\<close>

definition newTraceSource ::
  "string \<Rightarrow> object_id \<Rightarrow> ptr option \<Rightarrow> ptr option \<Rightarrow> ptr option \<Rightarrow> ('t, 'd) trace_source" where
  "newTraceSource nm i parent system obs =
     \<lparr>so_kind = KTraceSource, so_name = nm, so_id = i, so_path = [], so_parent = parent,
      so_observationSink = obs, so_runtimeFailureCode = [], ts_document = empty_document,
      ts_position = \<lparr>tp_nextRecordIndex = 0, tp_lastCommittedSequenceId = None, tp_endOfTrace = True\<rparr>,
      ts_committedOffer = None, ts_offerProposal = None, ts_committedSequenceId = None,
      ts_proposedSequenceId = None, ts_acceptProposal = False, ts_issueWakeScheduled = False,
      ts_documentLoaded = False, ts_issuedSequences = [], ts_completedSequences = [],
      ts_system = system, ts_lastUpdate = epoch0\<rparr>"

definition newTraceSourceWith ::
  "string \<Rightarrow> object_id \<Rightarrow> ptr option \<Rightarrow> 'd pto_document \<Rightarrow> ptr option \<Rightarrow> ptr option \<Rightarrow> ('t, 'd) trace_source" where
  "newTraceSourceWith nm i parent document system obs =
     (newTraceSource nm i parent system obs)
       \<lparr>ts_document := document, ts_documentLoaded := True,
        ts_position := \<lparr>tp_nextRecordIndex = 0, tp_lastCommittedSequenceId = None,
          tp_endOfTrace = (pd_records document = [])\<rparr>\<rparr>"

definition loadDocument ::
  "'d pto_document \<Rightarrow> ('t, 'd, 'z) trace_source_scheme \<Rightarrow> bool \<times> ('t, 'd, 'z) trace_source_scheme" where
  "loadDocument document c =
     (if ts_documentLoaded c \<or> ts_committedOffer c \<noteq> None \<or> ts_offerProposal c \<noteq> None \<or>
         ts_acceptProposal c \<or> tp_nextRecordIndex (ts_position c) \<noteq> 0 \<or>
         ts_issuedSequences c \<noteq> [] \<or> ts_completedSequences c \<noteq> []
      then (False, c)
      else (True, c\<lparr>ts_document := document, ts_documentLoaded := True,
              ts_position := (ts_position c)\<lparr>tp_endOfTrace := (pd_records document = [])\<rparr>\<rparr>))"

definition peekOffer :: "('t, 'd, 'z) trace_source_scheme \<Rightarrow> 't option" where
  "peekOffer c = ts_committedOffer c"

definition proposeAccept :: "('t, 'd, 'z) trace_source_scheme \<Rightarrow> bool \<times> ('t, 'd, 'z) trace_source_scheme" where
  "proposeAccept c =
     (if ts_committedOffer c = None \<or> ts_acceptProposal c then (False, c)
      else (True, c\<lparr>ts_acceptProposal := True\<rparr>))"

definition markDependencyComplete ::
  "u64 \<Rightarrow> ('t, 'd, 'z) trace_source_scheme \<Rightarrow> bool \<times> ('t, 'd, 'z) trace_source_scheme" where
  "markDependencyComplete sequenceId c =
     (if sequenceId \<notin> set (ts_issuedSequences c) then (False, c)
      else (True, c\<lparr>ts_completedSequences := set_insert sequenceId (ts_completedSequences c)\<rparr>))"

text \<open>The early return that \<open>doWork\<close> and \<open>isRunnable\<close> share.\<close>

definition trace_idle :: "('t, 'd, 'z) trace_source_scheme \<Rightarrow> bool" where
  "trace_idle c \<longleftrightarrow> tp_endOfTrace (ts_position c) \<or> ts_committedOffer c \<noteq> None \<or>
     ts_offerProposal c \<noteq> None \<or> ts_acceptProposal c \<or>
     tp_nextRecordIndex (ts_position c) \<ge> length (pd_records (ts_document c))"

definition current_record :: "('t, 'd, 'z) trace_source_scheme \<Rightarrow> 'd pto_record" where
  "current_record c = pd_records (ts_document c) ! tp_nextRecordIndex (ts_position c)"

definition issue_pending :: "epoch \<Rightarrow> 'd pto_record \<Rightarrow> bool" where
  "issue_pending epoch r = (case pr_issueTime r of None \<Rightarrow> False | Some t \<Rightarrow> ep_time epoch < t)"

definition blocked_on :: "('t, 'd, 'z) trace_source_scheme \<Rightarrow> 'd pto_record \<Rightarrow> u64 list" where
  "blocked_on c r = filter (\<lambda>d. d \<notin> set (ts_completedSequences c)) (pr_dependencies r)"

definition issue_event :: "object_id \<Rightarrow> 'd pto_record \<Rightarrow> event" where
  "issue_event i r = \<lparr>ev_readyTime = Epoch (case pr_issueTime r of None \<Rightarrow> 0 | Some t \<Rightarrow> t) 0,
     ev_targetId = i, ev_eventKind = kIssueEventKind, ev_payload = pr_sequenceId r, ev_sequence = 0\<rparr>"

definition trace_doWork ::
  "'s sim_api \<Rightarrow> ('d pto_record \<Rightarrow> 't option) \<Rightarrow> epoch \<Rightarrow> ('t, 'd, 'z) trace_source_scheme \<Rightarrow> 's
   \<Rightarrow> ('t, 'd, 'z) trace_source_scheme \<times> 's" where
  "trace_doWork api decoder epoch c s =
     (if trace_idle c then (c, s)
      else let r = current_record c in
        if issue_pending epoch r
        then (if ts_system c \<noteq> None \<and> \<not> ts_issueWakeScheduled c
              then (case api_scheduleEvent api (issue_event (so_id c) r) s of
                      (False, s1) \<Rightarrow> (setRuntimeFailureCode ''trace_issue_wake_failed'' c, s1)
                    | (True, s1) \<Rightarrow> (c\<lparr>ts_issueWakeScheduled := True\<rparr>, s1))
              else (c, s))
        else let c1 = c\<lparr>ts_issueWakeScheduled := False\<rparr> in
          if blocked_on c1 r \<noteq> [] then (c1, s)
          else case decoder r of
            None \<Rightarrow> (setRuntimeFailureCode ''trace_decode_failed'' c1, s)
          | Some t \<Rightarrow> (c1\<lparr>ts_offerProposal := Some t, ts_proposedSequenceId := Some (pr_sequenceId r)\<rparr>, s))"

definition trace_bindSystem ::
  "ptr option \<Rightarrow> ('t, 'd, 'z) trace_source_scheme \<Rightarrow> ('t, 'd, 'z) trace_source_scheme" where
  "trace_bindSystem system c = c\<lparr>ts_system := system\<rparr>"

definition trace_observe :: "string \<Rightarrow> u64 \<Rightarrow> nat \<Rightarrow> event_proposal" where
  "trace_observe nm sequenceId pos = (observation ''transaction'' nm Instant)
     \<lparr>op_rootSequenceId := Some sequenceId, op_arguments := [(''trace_position'', OUInt (of_nat pos))]\<rparr>"

definition trace_doArbitrate ::
  "'s sim_api \<Rightarrow> ('t, 'd, 'z) trace_source_scheme \<Rightarrow> 's \<Rightarrow> ('t, 'd, 'z) trace_source_scheme \<times> 's" where
  "trace_doArbitrate api c s = emitObservations api
     ((case ts_committedSequenceId c of
         Some q \<Rightarrow> if ts_acceptProposal c
           then [trace_observe ''accepted'' q (tp_nextRecordIndex (ts_position c) + 1)] else []
       | None \<Rightarrow> []) @
      (case ts_proposedSequenceId c of
         Some q \<Rightarrow> if ts_offerProposal c \<noteq> None
           then [trace_observe ''offered'' q (tp_nextRecordIndex (ts_position c))] else []
       | None \<Rightarrow> [])) c s"

text \<open>
  The commit. With an accept proposal the source dereferences \<open>committedSequenceId_\<close>, which the
  invariant shows to be present.
\<close>

definition trace_doXfer :: "epoch \<Rightarrow> ('t, 'd, 'z) trace_source_scheme \<Rightarrow> ('t, 'd, 'z) trace_source_scheme" where
  "trace_doXfer epoch c =
     (let c1 = (if ts_acceptProposal c
                then let n = tp_nextRecordIndex (ts_position c) + 1 in
                  c\<lparr>ts_issuedSequences := set_insert (the (ts_committedSequenceId c)) (ts_issuedSequences c),
                    ts_position := \<lparr>tp_nextRecordIndex = n,
                      tp_lastCommittedSequenceId = ts_committedSequenceId c,
                      tp_endOfTrace = (n = length (pd_records (ts_document c)))\<rparr>,
                    ts_committedOffer := None, ts_committedSequenceId := None,
                    ts_acceptProposal := False, ts_lastUpdate := epoch\<rparr>
                else c)
      in if ts_offerProposal c1 \<noteq> None
         then c1\<lparr>ts_committedOffer := ts_offerProposal c1,
                 ts_committedSequenceId := ts_proposedSequenceId c1,
                 ts_offerProposal := None, ts_proposedSequenceId := None\<rparr>
         else c1)"

definition trace_hasPendingCommit :: "('t, 'd, 'z) trace_source_scheme \<Rightarrow> bool" where
  "trace_hasPendingCommit c \<longleftrightarrow> ts_offerProposal c \<noteq> None \<or> ts_acceptProposal c"

definition trace_isRunnable :: "epoch \<Rightarrow> ('t, 'd, 'z) trace_source_scheme \<Rightarrow> bool" where
  "trace_isRunnable epoch c \<longleftrightarrow> \<not> trace_idle c \<and> \<not> issue_pending epoch (current_record c) \<and>
     blocked_on c (current_record c) = []"

definition trace_runtimeState :: "epoch \<Rightarrow> ('t, 'd, 'z) trace_source_scheme \<Rightarrow> runtime_object_state" where
  "trace_runtimeState epoch c =
     (let pending = trace_hasPendingCommit c;
          base = base_runtimeState pending (trace_isRunnable epoch c);
          quiescent = (tp_endOfTrace (ts_position c) \<and> \<not> pending \<and> ts_committedOffer c = None);
          state = base\<lparr>ros_traceOwner := True,
            ros_tracePosition := of_nat (tp_nextRecordIndex (ts_position c)),
            ros_traceLastCommittedSequenceId := tp_lastCommittedSequenceId (ts_position c),
            ros_traceEof := tp_endOfTrace (ts_position c),
            ros_pendingOffers := of_bool (ts_committedOffer c \<noteq> None \<or> ts_offerProposal c \<noteq> None),
            ros_quiescent := quiescent\<rparr>
      in if quiescent then state\<lparr>ros_reason := []\<rparr>
         else if ts_committedOffer c \<noteq> None then state\<lparr>ros_reason := ''trace_offer_blocked''\<rparr>
         else if pending then state\<lparr>ros_reason := ''pending_commit''\<rparr>
         else if tp_nextRecordIndex (ts_position c) < length (pd_records (ts_document c))
         then let chain = blocked_on c (current_record c) in
           state\<lparr>ros_dependencyChain := chain, ros_reason :=
             (if chain \<noteq> [] then ''trace_dependency_blocked''
              else if issue_pending epoch (current_record c) then ''trace_issue_time_pending''
              else ''trace_runnable_unscheduled'')\<rparr>
         else state)"

definition trace_collectStatistics :: "('t, 'd, 'z) trace_source_scheme \<Rightarrow> stat_snapshot list" where
  "trace_collectStatistics c =
     [plain_snapshot ''accepted_transactions'' (so_path c) Counter
        (of_nat (tp_nextRecordIndex (ts_position c))) (ts_lastUpdate c),
      plain_snapshot ''trace_position'' (so_path c) Gauge
        (of_nat (tp_nextRecordIndex (ts_position c))) (ts_lastUpdate c)]"

definition trace_validate :: "('t, 'd, 'z) trace_source_scheme \<Rightarrow> bool" where
  "trace_validate c \<longleftrightarrow>
     \<not> (ts_committedOffer c \<noteq> None \<and> ts_offerProposal c \<noteq> None) \<and>
     (ts_committedOffer c \<noteq> None) = (ts_committedSequenceId c \<noteq> None) \<and>
     (ts_offerProposal c \<noteq> None) = (ts_proposedSequenceId c \<noteq> None) \<and>
     (\<not> ts_acceptProposal c \<or> ts_committedOffer c \<noteq> None) \<and>
     tp_nextRecordIndex (ts_position c) \<le> length (pd_records (ts_document c)) \<and>
     tp_endOfTrace (ts_position c) =
       (tp_nextRecordIndex (ts_position c) = length (pd_records (ts_document c))) \<and>
     length (ts_issuedSequences c) = tp_nextRecordIndex (ts_position c) \<and>
     (tp_lastCommittedSequenceId (ts_position c) \<noteq> None) = (tp_nextRecordIndex (ts_position c) \<noteq> 0)"

definition trace_reset :: "('t, 'd, 'z) trace_source_scheme \<Rightarrow> ('t, 'd, 'z) trace_source_scheme" where
  "trace_reset c = clearRuntimeFailureCode
     (c\<lparr>ts_position := \<lparr>tp_nextRecordIndex = 0, tp_lastCommittedSequenceId = None,
          tp_endOfTrace = (pd_records (ts_document c) = [])\<rparr>,
        ts_committedOffer := None, ts_offerProposal := None, ts_committedSequenceId := None,
        ts_proposedSequenceId := None, ts_acceptProposal := False, ts_issueWakeScheduled := False,
        ts_issuedSequences := [], ts_completedSequences := [], ts_lastUpdate := epoch0\<rparr>)"

section \<open>The invariant\<close>

definition distinct_sequences :: "'d pto_document \<Rightarrow> bool" where
  "distinct_sequences d \<longleftrightarrow> distinct (map pr_sequenceId (pd_records d))"

definition record_at :: "('t, 'd, 'z) trace_source_scheme \<Rightarrow> nat \<Rightarrow> 'd pto_record" where
  "record_at c k = pd_records (ts_document c) ! k"

abbreviation cursor :: "('t, 'd, 'z) trace_source_scheme \<Rightarrow> nat" where
  "cursor c \<equiv> tp_nextRecordIndex (ts_position c)"

text \<open>An outstanding offer is the decoded record at the cursor, all of whose dependencies are complete.\<close>

definition offer_ok ::
  "('d pto_record \<Rightarrow> 't option) \<Rightarrow> ('t, 'd, 'z) trace_source_scheme \<Rightarrow> 't option \<Rightarrow> u64 option \<Rightarrow> bool" where
  "offer_ok decoder c offer sq \<longleftrightarrow> (offer = None \<and> sq = None) \<or>
     (cursor c < length (pd_records (ts_document c)) \<and> offer \<noteq> None \<and>
      offer = decoder (current_record c) \<and> sq = Some (pr_sequenceId (current_record c)) \<and>
      blocked_on c (current_record c) = [])"

text \<open>Cursor, issued and completed sequences agree.\<close>

definition trace_books :: "('t, 'd, 'z) trace_source_scheme \<Rightarrow> bool" where
  "trace_books c \<longleftrightarrow>
     distinct_sequences (ts_document c) \<and> cursor c \<le> length (pd_records (ts_document c)) \<and>
     tp_endOfTrace (ts_position c) = (cursor c = length (pd_records (ts_document c))) \<and>
     tp_lastCommittedSequenceId (ts_position c) =
       (if cursor c = 0 then None else Some (pr_sequenceId (record_at c (cursor c - 1)))) \<and>
     increasing (ts_issuedSequences c) \<and>
     set (ts_issuedSequences c) = pr_sequenceId ` set (take (cursor c) (pd_records (ts_document c))) \<and>
     set (ts_completedSequences c) \<subseteq> set (ts_issuedSequences c)"

definition trace_inv :: "('d pto_record \<Rightarrow> 't option) \<Rightarrow> ('t, 'd, 'z) trace_source_scheme \<Rightarrow> bool" where
  "trace_inv decoder c \<longleftrightarrow> trace_books c \<and>
     offer_ok decoder c (ts_committedOffer c) (ts_committedSequenceId c) \<and>
     offer_ok decoder c (ts_offerProposal c) (ts_proposedSequenceId c) \<and>
     \<not> (ts_committedOffer c \<noteq> None \<and> ts_offerProposal c \<noteq> None) \<and>
     (ts_acceptProposal c \<longrightarrow> ts_committedOffer c \<noteq> None)"

lemma trace_books_frame:
  assumes "ts_document c' = ts_document c" "ts_position c' = ts_position c"
    "ts_issuedSequences c' = ts_issuedSequences c" "ts_completedSequences c' = ts_completedSequences c"
  shows "trace_books c' = trace_books c" and "offer_ok decoder c' = offer_ok decoder c"
    and "blocked_on c' = blocked_on c" and "current_record c' = current_record c"
  using assms
  by (auto simp: trace_books_def offer_ok_def record_at_def current_record_def blocked_on_def fun_eq_iff)

lemma trace_inv_valid:
  assumes "trace_inv decoder c"
  shows "trace_validate c"
proof -
  let ?rs = "take (cursor c) (pd_records (ts_document c))"
  have books: "trace_books c" using assms by (simp add: trace_inv_def)
  then have inc: "increasing (ts_issuedSequences c)"
    and issued: "set (ts_issuedSequences c) = set (map pr_sequenceId ?rs)"
    and le: "cursor c \<le> length (pd_records (ts_document c))"
    and dist: "distinct (map pr_sequenceId (pd_records (ts_document c)))"
    and eof: "tp_endOfTrace (ts_position c) = (cursor c = length (pd_records (ts_document c)))"
    and last: "(tp_lastCommittedSequenceId (ts_position c) \<noteq> None) = (cursor c \<noteq> 0)"
    by (simp_all add: trace_books_def distinct_sequences_def)
  have "length (ts_issuedSequences c) = card (set (map pr_sequenceId ?rs))"
    using increasing_length [OF inc] issued by simp
  also have "\<dots> = length (map pr_sequenceId ?rs)"
    using distinct_map_take [OF dist] by (rule distinct_card)
  finally have "length (ts_issuedSequences c) = cursor c" using le by simp
  with le eof last show ?thesis
    using assms unfolding trace_inv_def trace_validate_def offer_ok_def
    by (elim conjE) (intro conjI; (assumption | auto))
qed

lemma trace_inv_new:
  "distinct_sequences d \<Longrightarrow> trace_inv decoder (newTraceSourceWith nm i parent d system obs)"
  by (auto simp: newTraceSourceWith_def newTraceSource_def trace_inv_def trace_books_def offer_ok_def)

lemma trace_inv_failure:
  "trace_inv decoder (setRuntimeFailureCode x c) = trace_inv decoder c"
  using trace_books_frame [of "setRuntimeFailureCode x c" c]
  by (simp add: trace_inv_def setRuntimeFailureCode_def)

lemma trace_inv_wake:
  "trace_inv decoder (c\<lparr>ts_issueWakeScheduled := b\<rparr>) = trace_inv decoder c"
  using trace_books_frame [of "c\<lparr>ts_issueWakeScheduled := b\<rparr>" c] by (simp add: trace_inv_def)

lemma trace_inv_offer:
  assumes "trace_inv decoder c" "\<not> trace_idle c" "decoder (current_record c) = Some t"
    "blocked_on c (current_record c) = []"
  shows "trace_inv decoder (c\<lparr>ts_issueWakeScheduled := b, ts_offerProposal := Some t,
     ts_proposedSequenceId := Some (pr_sequenceId (current_record c))\<rparr>)"
proof -
  let ?c = "c\<lparr>ts_issueWakeScheduled := b, ts_offerProposal := Some t,
     ts_proposedSequenceId := Some (pr_sequenceId (current_record c))\<rparr>"
  have "trace_books ?c = trace_books c" "offer_ok decoder ?c = offer_ok decoder c"
    by (rule trace_books_frame; simp)+
  moreover have "offer_ok decoder c (Some t) (Some (pr_sequenceId (current_record c)))"
    using assms by (simp add: offer_ok_def trace_idle_def)
  ultimately show ?thesis
    using assms(1,2) by (simp add: trace_inv_def trace_idle_def)
qed

lemma trace_inv_work:
  assumes "trace_inv decoder c"
  shows "trace_inv decoder (fst (trace_doWork api decoder epoch c s))"
proof (cases "trace_idle c \<or> issue_pending epoch (current_record c)")
  case True
  then show ?thesis
    using assms
    by (auto simp: trace_doWork_def Let_def trace_inv_failure trace_inv_wake split: prod.split bool.split)
next
  case False
  let ?r = "current_record c"
  show ?thesis
  proof (cases "blocked_on c ?r = [] \<and> decoder ?r \<noteq> None")
    case True
    then obtain t where "decoder ?r = Some t" by blast
    with True False assms trace_inv_offer [OF assms, of t False] show ?thesis
      by (simp add: trace_doWork_def Let_def blocked_on_def)
  next
    case blocked: False
    with False assms show ?thesis
      by (auto simp: trace_doWork_def Let_def blocked_on_def trace_inv_failure trace_inv_wake)
  qed
qed

lemma trace_inv_accept: "trace_inv decoder c \<Longrightarrow> trace_inv decoder (snd (proposeAccept c))"
  using trace_books_frame [of "c\<lparr>ts_acceptProposal := True\<rparr>" c]
  by (auto simp: proposeAccept_def trace_inv_def)

lemma trace_inv_complete: "trace_inv decoder c \<Longrightarrow> trace_inv decoder (snd (markDependencyComplete q c))"
proof (cases "q \<in> set (ts_issuedSequences c)")
  case True
  let ?c = "c\<lparr>ts_completedSequences := set_insert q (ts_completedSequences c)\<rparr>"
  assume inv: "trace_inv decoder c"
  have "trace_books ?c"
    using inv True by (auto simp: trace_inv_def trace_books_def record_at_def)
  moreover have "blocked_on c r = [] \<Longrightarrow> blocked_on ?c r = []" for r
    by (auto simp: blocked_on_def filter_empty_conv)
  then have "offer_ok decoder c x y \<Longrightarrow> offer_ok decoder ?c x y" for x y
    by (auto simp: offer_ok_def current_record_def)
  ultimately show ?thesis
    using inv True by (simp add: markDependencyComplete_def trace_inv_def)
qed (simp add: markDependencyComplete_def)

lemma trace_inv_reset: "trace_inv decoder c \<Longrightarrow> trace_inv decoder (trace_reset c)"
  by (auto simp: trace_reset_def clearRuntimeFailureCode_def trace_inv_def trace_books_def offer_ok_def)

text \<open>The two halves of the commit.\<close>

definition trace_accept_half :: "epoch \<Rightarrow> ('t, 'd, 'z) trace_source_scheme \<Rightarrow> ('t, 'd, 'z) trace_source_scheme" where
  "trace_accept_half epoch c = c\<lparr>ts_issuedSequences := set_insert (the (ts_committedSequenceId c)) (ts_issuedSequences c),
     ts_position := \<lparr>tp_nextRecordIndex = cursor c + 1, tp_lastCommittedSequenceId = ts_committedSequenceId c,
       tp_endOfTrace = (cursor c + 1 = length (pd_records (ts_document c)))\<rparr>,
     ts_committedOffer := None, ts_committedSequenceId := None, ts_acceptProposal := False,
     ts_lastUpdate := epoch\<rparr>"

definition trace_offer_half :: "('t, 'd, 'z) trace_source_scheme \<Rightarrow> ('t, 'd, 'z) trace_source_scheme" where
  "trace_offer_half c = c\<lparr>ts_committedOffer := ts_offerProposal c, ts_committedSequenceId := ts_proposedSequenceId c,
     ts_offerProposal := None, ts_proposedSequenceId := None\<rparr>"

lemma trace_doXfer_halves:
  assumes "trace_inv decoder c"
  shows "trace_doXfer e c = (if ts_acceptProposal c then trace_accept_half e c
     else if ts_offerProposal c \<noteq> None then trace_offer_half c else c)"
proof -
  have "ts_acceptProposal c \<Longrightarrow> ts_offerProposal c = None"
    using assms by (auto simp: trace_inv_def)
  then show ?thesis
    by (simp add: trace_doXfer_def trace_accept_half_def trace_offer_half_def Let_def)
qed

lemma trace_books_accept_half:
  assumes "trace_books c" and lt: "cursor c < length (pd_records (ts_document c))"
    and sq: "ts_committedSequenceId c = Some (pr_sequenceId (current_record c))"
  shows "trace_books (trace_accept_half e c)"
proof -
  have "take (Suc (cursor c)) (pd_records (ts_document c)) =
      take (cursor c) (pd_records (ts_document c)) @ [current_record c]"
    using lt by (simp add: take_Suc_conv_app_nth current_record_def)
  with assms show ?thesis
    by (auto simp: trace_books_def trace_accept_half_def record_at_def current_record_def)
qed

lemma trace_inv_accept_half:
  assumes "trace_inv decoder c" "ts_acceptProposal c"
  shows "trace_inv decoder (trace_accept_half e c)"
proof -
  have "cursor c < length (pd_records (ts_document c))"
    and "ts_committedSequenceId c = Some (pr_sequenceId (current_record c))"
    and "ts_offerProposal c = None" "ts_proposedSequenceId c = None" "trace_books c"
    using assms by (auto simp: trace_inv_def offer_ok_def)
  then show ?thesis
    using trace_books_accept_half [of c e] by (simp add: trace_inv_def offer_ok_def) (simp add: trace_accept_half_def)
qed

lemma trace_inv_xfer: "trace_inv decoder c \<Longrightarrow> trace_inv decoder (trace_doXfer e c)"
proof -
  assume inv: "trace_inv decoder c"
  have "trace_inv decoder (trace_offer_half c)" if "ts_offerProposal c \<noteq> None" "\<not> ts_acceptProposal c"
  proof -
    have "trace_books (trace_offer_half c) = trace_books c"
      "offer_ok decoder (trace_offer_half c) = offer_ok decoder c"
      by (rule trace_books_frame; simp add: trace_offer_half_def)+
    with inv that show ?thesis
      by (simp add: trace_inv_def) (simp add: trace_offer_half_def offer_ok_def)
  qed
  with inv trace_inv_accept_half [OF inv] show ?thesis
    unfolding trace_doXfer_halves [OF inv] by auto
qed


section \<open>Runs\<close>

datatype trace_call = TsWork epoch | TsArbitrate | TsXfer epoch | TsAccept | TsComplete u64

record ('t, 'd, 's) trace_run =
  tr_component :: "('t, 'd) trace_source"
  tr_system :: 's
  tr_accepted :: "'t list"

fun trace_apply ::
  "'s sim_api \<Rightarrow> ('d pto_record \<Rightarrow> 't option) \<Rightarrow> trace_call \<Rightarrow> ('t, 'd, 's) trace_run \<Rightarrow> ('t, 'd, 's) trace_run" where
  "trace_apply api decoder (TsWork e) r =
     (case trace_doWork api decoder e (tr_component r) (tr_system r) of (c, s) \<Rightarrow>
        r\<lparr>tr_component := c, tr_system := s\<rparr>)"
| "trace_apply api decoder TsArbitrate r =
     (case trace_doArbitrate api (tr_component r) (tr_system r) of (c, s) \<Rightarrow>
        r\<lparr>tr_component := c, tr_system := s\<rparr>)"
| "trace_apply api decoder (TsXfer e) r =
     r\<lparr>tr_component := trace_doXfer e (tr_component r),
       tr_accepted := tr_accepted r @
         (if ts_acceptProposal (tr_component r)
          then (case ts_committedOffer (tr_component r) of None \<Rightarrow> [] | Some t \<Rightarrow> [t]) else [])\<rparr>"
| "trace_apply api decoder TsAccept r = r\<lparr>tr_component := snd (proposeAccept (tr_component r))\<rparr>"
| "trace_apply api decoder (TsComplete q) r = r\<lparr>tr_component := snd (markDependencyComplete q (tr_component r))\<rparr>"

text \<open>The accepted transactions are the decoded records before the cursor, all of them unblocked.\<close>

definition trace_ledger ::
  "('d pto_record \<Rightarrow> 't option) \<Rightarrow> 'd pto_document \<Rightarrow> ('t, 'd, 's) trace_run \<Rightarrow> bool" where
  "trace_ledger decoder d r \<longleftrightarrow> (let c = tr_component r in
     ts_document c = d \<and> map Some (tr_accepted r) = map decoder (take (cursor c) (pd_records d)) \<and>
     (\<forall>k < cursor c. set (pr_dependencies (pd_records d ! k)) \<subseteq> set (ts_completedSequences c)))"

definition trace_run_inv ::
  "('d pto_record \<Rightarrow> 't option) \<Rightarrow> 'd pto_document \<Rightarrow> ('t, 'd, 's) trace_run \<Rightarrow> bool" where
  "trace_run_inv decoder d r \<longleftrightarrow> trace_inv decoder (tr_component r) \<and> trace_ledger decoder d r"

lemma trace_ledger_frame:
  assumes "trace_ledger decoder d r" "ts_document c = ts_document (tr_component r)"
    "ts_position c = ts_position (tr_component r)"
    "set (ts_completedSequences (tr_component r)) \<subseteq> set (ts_completedSequences c)"
  shows "trace_ledger decoder d (r\<lparr>tr_component := c, tr_system := s\<rparr>)"
    and "trace_ledger decoder d (r\<lparr>tr_component := c\<rparr>)"
  using assms unfolding trace_ledger_def Let_def by auto

lemma trace_work_frame:
  assumes "trace_doWork api decoder e c s = (c', s')"
  shows "ts_document c' = ts_document c" "ts_position c' = ts_position c"
    "ts_completedSequences c' = ts_completedSequences c"
  using assms
  by (auto simp: trace_doWork_def Let_def setRuntimeFailureCode_def
      split: if_splits prod.splits bool.splits option.splits)

lemma trace_arbitrate_object:
  "fst (trace_doArbitrate api c s) = c \<or>
   fst (trace_doArbitrate api c s) = setRuntimeFailureCode ''observation_proposal_failed'' c"
  unfolding trace_doArbitrate_def by (rule emitObservations_object)

lemma trace_ledger_xfer:
  assumes inv: "trace_inv decoder (tr_component r)" and "trace_ledger decoder d r"
  shows "trace_ledger decoder d (trace_apply api decoder (TsXfer e) r)"
proof (cases "ts_acceptProposal (tr_component r)")
  case True
  let ?c = "tr_component r"
  obtain t where t: "ts_committedOffer ?c = Some t" "decoder (current_record ?c) = Some t"
    and lt: "cursor ?c < length (pd_records (ts_document ?c))"
    and ready: "blocked_on ?c (current_record ?c) = []"
    using inv True by (auto simp: trace_inv_def offer_ok_def)
  have "take (Suc (cursor ?c)) (pd_records (ts_document ?c)) =
      take (cursor ?c) (pd_records (ts_document ?c)) @ [current_record ?c]"
    using lt by (simp add: take_Suc_conv_app_nth current_record_def)
  moreover have "set (pr_dependencies (current_record ?c)) \<subseteq> set (ts_completedSequences ?c)"
    using ready by (auto simp: blocked_on_def filter_empty_conv)
  ultimately show ?thesis
    using assms(2) True t
    by (auto simp: trace_ledger_def Let_def trace_doXfer_halves [OF inv] trace_accept_half_def current_record_def
        less_Suc_eq)
next
  case False
  then show ?thesis
    using trace_ledger_frame(2) [OF assms(2), of "trace_doXfer e (tr_component r)"]
    by (simp add: trace_doXfer_halves [OF inv] trace_offer_half_def split: if_splits)
qed

lemma trace_run_inv_apply:
  assumes "trace_run_inv decoder d r"
  shows "trace_run_inv decoder d (trace_apply api decoder call r)"
proof -
  let ?c = "tr_component r"
  have inv: "trace_inv decoder ?c" and led: "trace_ledger decoder d r"
    using assms by (simp_all add: trace_run_inv_def)
  show ?thesis
  proof (cases call)
    case (TsWork e)
    obtain c s where w: "trace_doWork api decoder e ?c (tr_system r) = (c, s)" by fastforce
    with TsWork trace_inv_work [OF inv, of api e "tr_system r"] trace_work_frame [OF w]
      trace_ledger_frame(1) [OF led, of c s]
    show ?thesis by (simp add: trace_run_inv_def)
  next
    case TsArbitrate
    obtain c s where a: "trace_doArbitrate api ?c (tr_system r) = (c, s)" by fastforce
    with trace_arbitrate_object [of api ?c "tr_system r"]
    have "trace_inv decoder c" "ts_document c = ts_document ?c" "ts_position c = ts_position ?c"
      "ts_completedSequences c = ts_completedSequences ?c"
      using inv by (auto simp: trace_inv_failure) (auto simp: setRuntimeFailureCode_def)
    with TsArbitrate a trace_ledger_frame(1) [OF led, of c s] show ?thesis
      by (simp add: trace_run_inv_def)
  next
    case (TsXfer e)
    with inv led show ?thesis
      using trace_ledger_xfer [OF inv led] by (simp add: trace_run_inv_def trace_inv_xfer)
  next
    case TsAccept
    with inv trace_ledger_frame(2) [OF led, of "snd (proposeAccept ?c)"] show ?thesis
      by (simp add: trace_run_inv_def trace_inv_accept) (simp add: proposeAccept_def)
  next
    case (TsComplete q)
    with inv trace_ledger_frame(2) [OF led, of "snd (markDependencyComplete q ?c)"] show ?thesis
      by (simp add: trace_run_inv_def trace_inv_complete) (simp add: markDependencyComplete_def subset_insertI)
  qed
qed

definition trace_fresh :: "'d pto_document \<Rightarrow> ('t, 'd, 's) trace_run \<Rightarrow> bool" where
  "trace_fresh d r \<longleftrightarrow> distinct_sequences d \<and> tr_accepted r = [] \<and>
     (\<exists>nm i parent system obs. tr_component r = newTraceSourceWith nm i parent d system obs)"

lemma trace_fresh_inv: "trace_fresh d r \<Longrightarrow> trace_run_inv decoder d r"
  by (auto simp: trace_fresh_def trace_run_inv_def trace_inv_new)
    (simp add: trace_ledger_def newTraceSourceWith_def newTraceSource_def)

interpretation trace_source: component_contract "trace_fresh d" "trace_apply api decoder"
    "trace_run_inv decoder d" "\<lambda>r. trace_validate (tr_component r)"
  for d :: "'d pto_document" and api :: "'s sim_api" and decoder :: "'d pto_record \<Rightarrow> 't option"
  by unfold_locales
    (simp_all add: trace_fresh_inv trace_run_inv_apply, auto simp: trace_run_inv_def intro: trace_inv_valid)

section \<open>Properties\<close>

text \<open>
  C25: a trace source hands out the records of its document exactly once, in document order, and
  never before their dependencies. For a document with distinct sequence IDs, after any sequence
  of Work, arbitration, Xfer, accept and completion calls, the source is valid, the transactions
  accepted so far are exactly the decoded records before the cursor, every dependency of those
  records has been marked complete, and only issued sequences can be complete.
\<close>

theorem trace_in_order_exactly_once:
  fixes decoder :: "'d pto_record \<Rightarrow> 't option" and api :: "'s sim_api"
  assumes "distinct_sequences d"
  shows "let r = fold (trace_apply api decoder) calls
             \<lparr>tr_component = newTraceSourceWith nm i parent d system obs, tr_system = s, tr_accepted = []\<rparr>;
           c = tr_component r in
     trace_validate c \<and>
     map Some (tr_accepted r) = map decoder (take (tp_nextRecordIndex (ts_position c)) (pd_records d)) \<and>
     (\<forall>k < tp_nextRecordIndex (ts_position c).
        set (pr_dependencies (pd_records d ! k)) \<subseteq> set (ts_completedSequences c)) \<and>
     set (ts_completedSequences c) \<subseteq>
       pr_sequenceId ` set (take (tp_nextRecordIndex (ts_position c)) (pd_records d))"
proof -
  let ?r = "\<lparr>tr_component = newTraceSourceWith nm i parent d system obs, tr_system = s, tr_accepted = []\<rparr>
     :: ('t, 'd, 's) trace_run"
  have "trace_fresh d ?r"
    using assms unfolding trace_fresh_def trace_run.simps by blast
  from trace_source.run_inv [OF this, of decoder api calls] show ?thesis
    unfolding Let_def trace_run_inv_def trace_ledger_def
    by (intro conjI) (blast intro: trace_inv_valid, blast, blast, auto simp: trace_inv_def trace_books_def)
qed

text \<open>
  Work offers a record exactly when the source is runnable. One Work call leaves an offer
  proposal if and only if there was one already, or the source is runnable at that epoch (it has a
  record left and no offer outstanding, the record's issue time has come and its dependencies are
  complete) and the record decodes; a record whose issue time lies ahead schedules one wake at
  exactly that time.
\<close>

theorem trace_work_offers_iff_runnable:
  "(ts_offerProposal (fst (trace_doWork api decoder e c s)) \<noteq> None \<longleftrightarrow>
     ts_offerProposal c \<noteq> None \<or> (trace_isRunnable e c \<and> decoder (current_record c) \<noteq> None)) \<and>
   (\<not> trace_idle c \<and> issue_pending e (current_record c) \<and> ts_system c \<noteq> None \<and> \<not> ts_issueWakeScheduled c \<longrightarrow>
     snd (trace_doWork api decoder e c s) = snd (api_scheduleEvent api (issue_event (so_id c) (current_record c)) s) \<and>
     ep_time e < ep_time (ev_readyTime (issue_event (so_id c) (current_record c))))"
  by (auto simp: trace_doWork_def trace_isRunnable_def Let_def blocked_on_def issue_event_def issue_pending_def
      trace_idle_def setRuntimeFailureCode_def split: prod.splits bool.splits option.splits)


text \<open>A document of two records, the second of which depends on the first.\<close>

definition sample_record :: "u64 \<Rightarrow> u64 list \<Rightarrow> unit pto_record" where
  "sample_record q ds = \<lparr>pr_sequenceId = q, pr_opcode = ''load'', pr_operands = [], pr_dependencies = ds,
     pr_attributes = [], pr_issueTime = None, pr_source = None\<rparr>"

definition sample_document :: "unit pto_document" where
  "sample_document = \<lparr>pd_metadata = empty_metadata, pd_records = [sample_record 3 [], sample_record 5 [3]]\<rparr>"

theorem trace_in_order_exactly_once_witness:
  "tr_accepted (fold (trace_apply permissive_api (\<lambda>r. Some (pr_sequenceId r)))
     [TsWork epoch0, TsXfer epoch0, TsAccept, TsXfer epoch0, TsWork epoch0, TsXfer epoch0]
     \<lparr>tr_component = newTraceSourceWith ''t'' 4 None sample_document None None, tr_system = (), tr_accepted = []\<rparr>) = [3]"
proof -
  have "distinct_sequences sample_document"
    by (simp add: distinct_sequences_def sample_document_def sample_record_def)
  from trace_in_order_exactly_once [OF this, of permissive_api "\<lambda>r. Some (pr_sequenceId r)"
      "[TsWork epoch0, TsXfer epoch0, TsAccept, TsXfer epoch0, TsWork epoch0, TsXfer epoch0]" "''t''" 4 None None None "()"]
  show ?thesis
    by (simp add: Let_def trace_doWork_def trace_doXfer_def proposeAccept_def trace_idle_def current_record_def
        issue_pending_def blocked_on_def newTraceSourceWith_def newTraceSource_def sample_document_def sample_record_def)
qed

theorem trace_work_offers_iff_runnable_witness:
  "ts_offerProposal (fst (trace_doWork permissive_api (\<lambda>r. Some (pr_sequenceId r)) epoch0
     (newTraceSourceWith ''t'' 4 None sample_document None None) ())) \<noteq> None"
  using trace_work_offers_iff_runnable [of permissive_api "\<lambda>r. Some (pr_sequenceId r)" epoch0
      "newTraceSourceWith ''t'' 4 None sample_document None None" "()"]
  by (simp add: trace_isRunnable_def trace_idle_def current_record_def issue_pending_def blocked_on_def
      newTraceSourceWith_def newTraceSource_def sample_document_def sample_record_def)

end
