(* ===== verification/Gfsim_Objects.thy ===== *)
theory Gfsim_Objects
  imports Sim_Scheduler Sim_Queue State_Array Resource Statistic Process Leaf_Components Protocols
    Trace_Source
begin

text \<open>
  The runtime library as one closed system: a store of component objects and the virtual function
  table \<open>gfsim_ops\<close> that the scheduler dispatches through, with every entry the member function
  of the class, or the base-class default where the class does not override it.

  Compiler-generated code enters as the parameter record \<open>model\<close>. A generated process step is a
  \<open>program\<close>: the finite tree of runtime calls that the process generator
  (\<open>lib/CodeGen/ProcessGenerator.cpp\<close>, \<open>InvokePlan\<close>) can emit, ending with the step and the
  new values of the process's variables. The interpretation \<open>gfsim\<close> of the contract
  \<open>runtime_objects\<close> shows that these objects, whatever the generated code does, reach the
  scheduler only through its interface; so all scheduler results hold of them.
\<close>

section \<open>Objects and store\<close>

datatype ('l, 'a, 'd) obj =
    OModule sim_object
  | OQueue "'a sim_queue"
  | OQueueLink queue_link
  | OTimedQueue "'a timed_queue"
  | OStateArray "'a state_array"
  | OResource resource
  | OStatistic statistic
  | OProcess process 'l 'l
  | OCompute "('a, 'a) compute"
  | OSink "'a sink"
  | OLink "'a link"
  | OMemory "'a memory"
  | OScheduler "'a scheduler"
  | OReadyValid "'a ready_valid"
  | ORequestResponse "('a, 'a) request_response"
  | OTraceSource "('a, 'd) trace_source"

type_synonym ('l, 'a, 'd) store = "ptr \<Rightarrow> ('l, 'a, 'd) obj"

fun obj_base :: "('l, 'a, 'd) obj \<Rightarrow> sim_object" where
  "obj_base (OModule b) = b"
| "obj_base (OQueue q) = sim_object.truncate q"
| "obj_base (OQueueLink q) = sim_object.truncate q"
| "obj_base (OTimedQueue q) = sim_object.truncate q"
| "obj_base (OStateArray q) = sim_object.truncate q"
| "obj_base (OResource q) = sim_object.truncate q"
| "obj_base (OStatistic q) = sim_object.truncate q"
| "obj_base (OProcess q cl pl) = sim_object.truncate q"
| "obj_base (OCompute q) = sim_object.truncate q"
| "obj_base (OSink q) = sim_object.truncate q"
| "obj_base (OLink q) = sim_object.truncate q"
| "obj_base (OMemory q) = sim_object.truncate q"
| "obj_base (OScheduler q) = sim_object.truncate q"
| "obj_base (OReadyValid q) = sim_object.truncate q"
| "obj_base (ORequestResponse q) = sim_object.truncate q"
| "obj_base (OTraceSource q) = sim_object.truncate q"

section \<open>Generated code\<close>

text \<open>
  A generated process keeps its live variables twice: the committed values and the values
  proposed by its last step, which its \<open>doXfer\<close> commits. Both are in the object \<open>OProcess\<close>,
  in that order; a step reads both and ends with new proposed values.

  The runtime calls of generated steps. The references are statically typed in the source; a call
  on an object of another class cannot be emitted, and answers the default here. Calls of pure
  helper functions are part of the continuations; \<open>runtime_assert\<close> aborts the whole program, and
  \<open>invoke\<close> on a host-bound object runs code outside the library: neither is a \<open>program\<close>.
\<close>

datatype ('l, 'a) program =
    Finish process_step 'l
  | StateRead ptr int int "'a \<Rightarrow> ('l, 'a) program"
  | StateWrite ptr int 'a bool int "('l, 'a) program"
  | QueueSend ptr 'a "bool \<Rightarrow> ('l, 'a) program"
  | QueueRecv ptr "'a \<times> bool \<Rightarrow> ('l, 'a) program"
  | QueueTransfer ptr ptr bool "bool \<Rightarrow> ('l, 'a) program"
  | QueuePeek ptr "'a \<times> bool \<Rightarrow> ('l, 'a) program"
  | QueueSpace ptr "int \<Rightarrow> ('l, 'a) program"
  | EventSchedule ptr 'a int "bool \<Rightarrow> ('l, 'a) program"
  | EventRecv ptr "'a \<times> bool \<Rightarrow> ('l, 'a) program"

record ('l, 'a, 'd) model =
  md_code :: "ptr \<Rightarrow> u32 \<Rightarrow> epoch \<Rightarrow> 'l \<Rightarrow> 'l \<Rightarrow> ('l, 'a) program"
  md_policy :: "ptr \<Rightarrow> 'a \<Rightarrow> 'a"
  md_decoder :: "ptr \<Rightarrow> 'd pto_record \<Rightarrow> 'a option"

definition transfer_objects ::
  "ptr \<Rightarrow> ptr \<Rightarrow> 'a sim_queue \<Rightarrow> 'a sim_queue \<Rightarrow> ('l, 'a, 'd) store \<Rightarrow> ('l, 'a, 'd) store" where
  "transfer_objects p r source destination h =
     (if p = r then h(p := OQueue (transfer_alias source destination))
      else h(p := OQueue source, r := OQueue destination))"

primrec run_program ::
  "epoch \<Rightarrow> ('l, 'a::zero) program \<Rightarrow> ('l, 'a, 'd) store world \<Rightarrow> (process_step \<times> 'l) \<times> ('l, 'a, 'd) store world" where
  "run_program e (Finish st l) w = ((st, l), w)"
| "run_program e (StateRead p index port k) w =
     (case snd w p of
        OStateArray a \<Rightarrow> (case array_read system_api index port a (fst w) of
          (v, a', s') \<Rightarrow> run_program e (k v) (s', (snd w)(p := OStateArray a')))
      | _ \<Rightarrow> run_program e (k 0) w)"
| "run_program e (StateWrite p index v enable port k) w =
     (case snd w p of
        OStateArray a \<Rightarrow> (case array_proposeWrite system_api index v enable port a (fst w) of
          (a', s') \<Rightarrow> run_program e k (s', (snd w)(p := OStateArray a')))
      | _ \<Rightarrow> run_program e k w)"
| "run_program e (QueueSend p v k) w =
     (case snd w p of
        OQueue q \<Rightarrow> (case proposePush system_api v q (fst w) of
          (ok, q', s') \<Rightarrow> run_program e (k ok) (s', (snd w)(p := OQueue q')))
      | _ \<Rightarrow> run_program e (k False) w)"
| "run_program e (QueueRecv p k) w =
     (case snd w p of
        OQueue q \<Rightarrow> (case tryRecv system_api q (fst w) of
          (v, q', s') \<Rightarrow> run_program e (k v) (s', (snd w)(p := OQueue q')))
      | _ \<Rightarrow> run_program e (k (0, False)) w)"
| "run_program e (QueueTransfer p r enable k) w =
     (case (snd w p, snd w r) of
        (OQueue a, OQueue b) \<Rightarrow> (case tryTransferTo system_api a b enable (fst w) of
          (ok, a', b', s') \<Rightarrow> run_program e (k ok) (s', transfer_objects p r a' b' (snd w)))
      | _ \<Rightarrow> run_program e (k False) w)"
| "run_program e (QueuePeek p k) w =
     run_program e (k (case snd w p of OQueue q \<Rightarrow> tryPeek q | _ \<Rightarrow> (0, False))) w"
| "run_program e (QueueSpace p k) w =
     run_program e (k (case snd w p of OQueue q \<Rightarrow> space q | _ \<Rightarrow> 0)) w"
| "run_program e (EventSchedule p v delay k) w =
     (case snd w p of
        OTimedQueue q \<Rightarrow> (case timed_trySchedule system_api v e delay q (fst w) of
          (ok, q', s') \<Rightarrow> run_program e (k ok) (s', (snd w)(p := OTimedQueue q')))
      | _ \<Rightarrow> run_program e (k False) w)"
| "run_program e (EventRecv p k) w =
     (case snd w p of
        OTimedQueue q \<Rightarrow> (case timed_tryRecv system_api e q (fst w) of
          (v, q', s') \<Rightarrow> run_program e (k v) (s', (snd w)(p := OTimedQueue q')))
      | _ \<Rightarrow> run_program e (k (0, False)) w)"

definition executeProcessStep ::
  "('l, 'a::zero, 'd) model \<Rightarrow> ptr \<Rightarrow> 'l \<Rightarrow> u32 \<Rightarrow> epoch \<Rightarrow> 'l \<times> ('l, 'a, 'd) store world
   \<Rightarrow> process_step \<times> 'l \<times> ('l, 'a, 'd) store world" where
  "executeProcessStep m p committed pc e lw =
     (case run_program e (md_code m p pc e committed (fst lw)) (snd lw) of ((st, l), w) \<Rightarrow> (st, l, w))"

section \<open>The virtual functions\<close>

definition obj_doWork ::
  "('l, 'a::zero, 'd) model \<Rightarrow> ptr \<Rightarrow> epoch \<Rightarrow> ('l, 'a, 'd) store world \<Rightarrow> ('l, 'a, 'd) store world" where
  "obj_doWork m p e w =
     (case snd w p of
        OProcess pr cl pl \<Rightarrow> (case process_doWork (executeProcessStep m p cl) e pr (pl, w) of
          (pr', pl', s', h') \<Rightarrow> (s', h'(p := OProcess pr' cl pl')))
      | OQueueLink l \<Rightarrow>
          (case (snd w (ql_source l), snd w (ql_destination l)) of
             (OQueue a, OQueue b) \<Rightarrow> (case link_doWork system_api e l a b (fst w) of
               (l', a', b', s') \<Rightarrow>
                 (s', (transfer_objects (ql_source l) (ql_destination l) a' b' (snd w))(p := OQueueLink l')))
           | _ \<Rightarrow> w)
      | OCompute c \<Rightarrow> (case compute_doWork system_api (md_policy m p) c (fst w) of
          (c', s') \<Rightarrow> (s', (snd w)(p := OCompute c')))
      | OTraceSource c \<Rightarrow> (case trace_doWork system_api (md_decoder m p) e c (fst w) of
          (c', s') \<Rightarrow> (s', (snd w)(p := OTraceSource c')))
      | _ \<Rightarrow> w)"

definition obj_doArbitrate ::
  "ptr \<Rightarrow> epoch \<Rightarrow> ('l, 'a, 'd) store world \<Rightarrow> ('l, 'a, 'd) store world" where
  "obj_doArbitrate p e w =
     (let put = (\<lambda>r. (snd r, (snd w)(p := fst r))) in
      case snd w p of
        OQueue c \<Rightarrow> put (map_prod OQueue id (queue_doArbitrate system_api c (fst w)))
      | OResource c \<Rightarrow> put (map_prod OResource id (resource_doArbitrate system_api c (fst w)))
      | OSink c \<Rightarrow> put (map_prod OSink id (sink_doArbitrate system_api c (fst w)))
      | OLink c \<Rightarrow> put (map_prod OLink id (wire_doArbitrate system_api c (fst w)))
      | OMemory c \<Rightarrow> put (map_prod OMemory id (memory_doArbitrate system_api c (fst w)))
      | OScheduler c \<Rightarrow> put (map_prod OScheduler id (sched_doArbitrate system_api e c (fst w)))
      | OReadyValid c \<Rightarrow> put (map_prod OReadyValid id (rv_doArbitrate system_api c (fst w)))
      | ORequestResponse c \<Rightarrow> put (map_prod ORequestResponse id (rr_doArbitrate system_api c (fst w)))
      | OTraceSource c \<Rightarrow> put (map_prod OTraceSource id (trace_doArbitrate system_api c (fst w)))
      | _ \<Rightarrow> w)"

definition obj_doXfer ::
  "ptr \<Rightarrow> epoch \<Rightarrow> ('l, 'a, 'd) store world \<Rightarrow> ('l, 'a, 'd) store world" where
  "obj_doXfer p e w =
     (case snd w p of
        OTimedQueue c \<Rightarrow> (case timed_doXfer system_api e c (fst w) of
          (c', s') \<Rightarrow> (s', (snd w)(p := OTimedQueue c')))
      | ob \<Rightarrow> (fst w, (snd w)(p := (case ob of
          OModule b \<Rightarrow> OModule b
        | OQueue c \<Rightarrow> OQueue (queue_doXfer e c)
        | OQueueLink c \<Rightarrow> OQueueLink (link_doXfer e c)
        | OTimedQueue c \<Rightarrow> OTimedQueue c
        | OStateArray c \<Rightarrow> OStateArray (array_doXfer e c)
        | OResource c \<Rightarrow> OResource (resource_doXfer e c)
        | OStatistic c \<Rightarrow> OStatistic (statistic_doXfer e c)
        | OProcess c cl pl \<Rightarrow> OProcess (process_doXfer e c) pl pl
        | OCompute c \<Rightarrow> OCompute (compute_doXfer e c)
        | OSink c \<Rightarrow> OSink (sink_doXfer e c)
        | OLink c \<Rightarrow> OLink (wire_doXfer e c)
        | OMemory c \<Rightarrow> OMemory (memory_doXfer e c)
        | OScheduler c \<Rightarrow> OScheduler (sched_doXfer e c)
        | OReadyValid c \<Rightarrow> OReadyValid (rv_doXfer e c)
        | ORequestResponse c \<Rightarrow> ORequestResponse (rr_doXfer e c)
        | OTraceSource c \<Rightarrow> OTraceSource (trace_doXfer e c)))))"

definition obj_hasPendingCommit :: "('l, 'a, 'd) obj \<Rightarrow> bool" where
  "obj_hasPendingCommit ob =
     (case ob of
        OModule b \<Rightarrow> False
      | OQueue c \<Rightarrow> queue_hasPendingCommit c
      | OQueueLink c \<Rightarrow> link_hasPendingCommit c
      | OTimedQueue c \<Rightarrow> timed_hasPendingCommit c
      | OStateArray c \<Rightarrow> array_hasPendingCommit c
      | OResource c \<Rightarrow> resource_hasPendingCommit c
      | OStatistic c \<Rightarrow> statistic_hasPendingCommit c
      | OProcess c cl pl \<Rightarrow> process_hasPendingCommit c
      | OCompute c \<Rightarrow> compute_hasPendingCommit c
      | OSink c \<Rightarrow> sink_hasPendingCommit c
      | OLink c \<Rightarrow> wire_hasPendingCommit c
      | OMemory c \<Rightarrow> memory_hasPendingCommit c
      | OScheduler c \<Rightarrow> sched_hasPendingCommit c
      | OReadyValid c \<Rightarrow> rv_hasPendingCommit c
      | ORequestResponse c \<Rightarrow> rr_hasPendingCommit c
      | OTraceSource c \<Rightarrow> trace_hasPendingCommit c)"

definition obj_activateFrom ::
  "ptr \<Rightarrow> object_id \<Rightarrow> ('l, 'a, 'd) store \<Rightarrow> bool \<times> ('l, 'a, 'd) store" where
  "obj_activateFrom p source h =
     (case h p of
        OProcess c cl pl \<Rightarrow> (case process_activateFrom source c of (ok, c') \<Rightarrow> (ok, h(p := OProcess c' cl pl)))
      | _ \<Rightarrow> (True, h))"

definition obj_deliverEvent ::
  "ptr \<Rightarrow> u32 \<Rightarrow> u64 \<Rightarrow> epoch \<Rightarrow> ('l, 'a, 'd) store \<Rightarrow> bool \<times> ('l, 'a, 'd) store" where
  "obj_deliverEvent p kind payload e h =
     (case h p of OTimedQueue c \<Rightarrow> (timed_deliverEvent kind payload e c, h) | _ \<Rightarrow> (True, h))"

definition obj_runtimeState :: "ptr \<Rightarrow> epoch \<Rightarrow> ('l, 'a, 'd) store \<Rightarrow> runtime_object_state" where
  "obj_runtimeState p e h =
     (case h p of
        OModule b \<Rightarrow> base_runtimeState False False
      | OQueue c \<Rightarrow> queue_runtimeState c
      | OQueueLink c \<Rightarrow> base_runtimeState (link_hasPendingCommit c)
          (case (h (ql_source c), h (ql_destination c)) of
             (OQueue a, OQueue b) \<Rightarrow> link_isRunnable a b | _ \<Rightarrow> False)
      | OTimedQueue c \<Rightarrow> timed_runtimeState c
      | OStateArray c \<Rightarrow> array_runtimeState c
      | OResource c \<Rightarrow> resource_runtimeState c
      | OStatistic c \<Rightarrow> base_runtimeState (statistic_hasPendingCommit c) False
      | OProcess c cl pl \<Rightarrow> process_runtimeState c
      | OCompute c \<Rightarrow> base_runtimeState (compute_hasPendingCommit c) (compute_isRunnable c)
      | OSink c \<Rightarrow> base_runtimeState (sink_hasPendingCommit c) False
      | OLink c \<Rightarrow> base_runtimeState (wire_hasPendingCommit c) (wire_isRunnable c)
      | OMemory c \<Rightarrow> base_runtimeState (memory_hasPendingCommit c) False
      | OScheduler c \<Rightarrow> sched_runtimeState c
      | OReadyValid c \<Rightarrow> rv_runtimeState c
      | ORequestResponse c \<Rightarrow> rr_runtimeState c
      | OTraceSource c \<Rightarrow> trace_runtimeState e c)"

text \<open>
  A statistic whose snapshot is undefined contributes nothing here; \<open>validate\<close> rejects such an
  object before a run.
\<close>

definition obj_collectStatistics :: "('l, 'a, 'd) obj \<Rightarrow> stat_snapshot list" where
  "obj_collectStatistics ob =
     (case ob of
        OModule b \<Rightarrow> []
      | OQueue c \<Rightarrow> queue_collectStatistics c
      | OQueueLink c \<Rightarrow> link_collectStatistics c
      | OTimedQueue c \<Rightarrow> timed_collectStatistics c
      | OStateArray c \<Rightarrow> array_collectStatistics c
      | OResource c \<Rightarrow> resource_collectStatistics c
      | OStatistic c \<Rightarrow> (case statistic_collectStatistics c of None \<Rightarrow> [] | Some ss \<Rightarrow> ss)
      | OProcess c cl pl \<Rightarrow> []
      | OCompute c \<Rightarrow> compute_collectStatistics c
      | OSink c \<Rightarrow> sink_collectStatistics c
      | OLink c \<Rightarrow> wire_collectStatistics c
      | OMemory c \<Rightarrow> memory_collectStatistics c
      | OScheduler c \<Rightarrow> sched_collectStatistics c
      | OReadyValid c \<Rightarrow> rv_collectStatistics c
      | ORequestResponse c \<Rightarrow> rr_collectStatistics c
      | OTraceSource c \<Rightarrow> trace_collectStatistics c)"

definition obj_requestTraceEnd :: "ptr \<Rightarrow> ('l, 'a, 'd) store \<Rightarrow> bool \<times> ('l, 'a, 'd) store" where
  "obj_requestTraceEnd p h =
     (case h p of
        OProcess c cl pl \<Rightarrow> (case process_requestTraceEnd c of (ok, c') \<Rightarrow> (ok, h(p := OProcess c' cl pl)))
      | _ \<Rightarrow> (False, h))"

definition obj_reset ::
  "ptr \<Rightarrow> ('l::zero, 'a::zero, 'd) store \<Rightarrow> ('l, 'a, 'd) store" where
  "obj_reset p h = h(p :=
     (case h p of
        OModule b \<Rightarrow> OModule b
      | OQueue c \<Rightarrow> OQueue (queue_reset c)
      | OQueueLink c \<Rightarrow> OQueueLink (link_reset c)
      | OTimedQueue c \<Rightarrow> OTimedQueue (timed_reset c)
      | OStateArray c \<Rightarrow> OStateArray (array_reset c)
      | OResource c \<Rightarrow> OResource (resource_reset c)
      | OStatistic c \<Rightarrow> OStatistic (statistic_reset c)
      | OProcess c cl pl \<Rightarrow> OProcess (process_reset c) 0 0
      | OCompute c \<Rightarrow> OCompute (compute_reset c)
      | OSink c \<Rightarrow> OSink (sink_reset c)
      | OLink c \<Rightarrow> OLink (wire_reset c)
      | OMemory c \<Rightarrow> OMemory (memory_reset c)
      | OScheduler c \<Rightarrow> OScheduler (sched_reset c)
      | OReadyValid c \<Rightarrow> OReadyValid (rv_reset c)
      | ORequestResponse c \<Rightarrow> ORequestResponse (rr_reset c)
      | OTraceSource c \<Rightarrow> OTraceSource (trace_reset c)))"

text \<open>Classes without a \<open>validate\<close> member validate by identity alone.\<close>

definition obj_validate :: "('l, 'a, 'd) obj \<Rightarrow> bool" where
  "obj_validate ob =
     (case ob of
        OResource c \<Rightarrow> resource_validate c
      | OStatistic c \<Rightarrow> statistic_validate c
      | OProcess c cl pl \<Rightarrow> process_validate c
      | OScheduler c \<Rightarrow> sched_validate c
      | OReadyValid c \<Rightarrow> rv_validate c
      | ORequestResponse c \<Rightarrow> rr_validate c
      | OTraceSource c \<Rightarrow> trace_validate c
      | _ \<Rightarrow> True)"

definition gfsim_ops :: "('l::zero, 'a::zero, 'd) model \<Rightarrow> ('l, 'a, 'd) store object_ops" where
  "gfsim_ops m =
     \<lparr>ob_id = (\<lambda>p h. so_id (obj_base (h p))),
      ob_kind = (\<lambda>p h. so_kind (obj_base (h p))),
      ob_path = (\<lambda>p h. so_path (obj_base (h p))),
      ob_isModule = (\<lambda>p h. case h p of OModule b \<Rightarrow> True | _ \<Rightarrow> False),
      ob_runtimeFailureCode = (\<lambda>p h. so_runtimeFailureCode (obj_base (h p))),
      ob_doWork = obj_doWork m,
      ob_doArbitrate = obj_doArbitrate,
      ob_doXfer = obj_doXfer,
      ob_hasPendingCommit = (\<lambda>p h. obj_hasPendingCommit (h p)),
      ob_validatePendingCommit = (\<lambda>p h. base_validatePendingCommit (obj_base (h p))),
      ob_activateFrom = obj_activateFrom,
      ob_deliverEvent = obj_deliverEvent,
      ob_runtimeState = obj_runtimeState,
      ob_collectStatistics = (\<lambda>p h. obj_collectStatistics (h p)),
      ob_requestTraceEnd = obj_requestTraceEnd,
      ob_reset = obj_reset,
      ob_validate = (\<lambda>p h. obj_validate (h p))\<rparr>"

section \<open>The objects keep the contract of the scheduler\<close>

text \<open>Every member function that takes the system changes it only by calls of its interface.\<close>

lemma queue_evolves:
  shows "sys_evolves s (snd (snd (proposePush system_api v q s)))"
    and "sys_evolves s (snd (snd (proposePop system_api q s)))"
    and "sys_evolves s (snd (queue_doArbitrate system_api q s))"
  using sched.evolves_registered [of s "q_system q" "so_id q"] sched.evolves_refl [of s]
    sched.evolves_emits [of s "queue_observations q" q]
  by (auto simp: proposePush_def proposePop_def queue_doArbitrate_def split: prod.splits bool.splits)

lemma tryRecv_evolves: "sys_evolves s (snd (snd (tryRecv system_api q s)))"
  using queue_evolves(2) [of s q] by (auto simp: tryRecv_def split: prod.split)

lemma transfer_evolves: "sys_evolves s (snd (snd (snd (proposeTransferTo system_api a b s))))"
proof -
  obtain ok1 s1 where r1: "registered system_api (q_system a) (so_id a) s = (ok1, s1)" by fastforce
  obtain ok2 s2 where r2: "registered system_api (q_system b) (so_id b) s1 = (ok2, s2)" by fastforce
  have "sys_evolves s s1" "sys_evolves s1 s2"
    using sched.evolves_registered [of s "q_system a" "so_id a"]
      sched.evolves_registered [of s1 "q_system b" "so_id b"] r1 r2 by simp_all
  moreover have "registered system_api (q_system b) (so_id a) s = (ok1, s1)" if "q_system a = q_system b"
    using r1 that by simp
  ultimately show ?thesis
    using sched.evolves_refl [of s] sched.evolves_trans [of s s1 s2]
    by (cases "q_system a = q_system b"; cases ok1; cases ok2) (simp_all add: proposeTransferTo_def r2)
qed

lemma tryTransfer_evolves: "sys_evolves s (snd (snd (snd (tryTransferTo system_api a b en s))))"
  by (simp add: tryTransferTo_def transfer_evolves sched.evolves_refl)

lemma link_evolves: "sys_evolves s (snd (snd (snd (link_doWork system_api e l a b s))))"
proof -
  obtain ok1 s1 where r1: "registered system_api (ql_system l) (so_id l) s = (ok1, s1)" by fastforce
  obtain ok a' b' s2 where t: "proposeTransferTo system_api a b s1 = (ok, a', b', s2)" by (metis prod_cases4)
  have "sys_evolves s s1" "sys_evolves s1 s2"
    using sched.evolves_registered [of s "ql_system l" "so_id l"] transfer_evolves [of s1 a b] r1 t by simp_all
  then show ?thesis
    using sched.evolves_refl [of s] sched.evolves_trans [of s s1 s2]
    by (cases ok1; cases ok) (auto simp: link_doWork_def r1 t Let_def)
qed

lemma ensureRegistered_evolves: "sys_evolves s (snd (snd (ensureRegistered system_api a s)))"
  using sched.evolves_register [of s "so_id a"] sched.evolves_refl [of s]
  by (auto simp: ensureRegistered_def Let_def split: option.splits prod.splits bool.splits)

lemma array_evolves:
  shows "sys_evolves s (snd (snd (array_read system_api i p a s)))"
    and "sys_evolves s (snd (array_proposeWrite system_api i v en p a s))"
proof -
  obtain ok a' s' where e: "ensureRegistered system_api a s = (ok, a', s')" by (metis prod_cases3)
  have "sys_evolves s s'" using ensureRegistered_evolves [of s a] e by simp
  then show "sys_evolves s (snd (snd (array_read system_api i p a s)))"
    and "sys_evolves s (snd (array_proposeWrite system_api i v en p a s))"
    using sched.evolves_refl [of s] by (cases ok; simp add: array_read_def array_proposeWrite_def e)+
qed

lemma timed_evolves:
  shows "sys_evolves s (snd (snd (timed_trySchedule system_api v e d q s)))"
    and "sys_evolves s (snd (snd (timed_tryRecv system_api e q s)))"
  using sched.evolves_registered [of s "tq_system q" "so_id q"] sched.evolves_refl [of s]
  by (auto simp: timed_trySchedule_def timed_tryRecv_def recordFailure_def Let_def split: prod.splits bool.splits)

lemma timed_commit_evolves: "sys_evolves s (snd (timed_commit_loop system_api es q s))"
proof (induction es arbitrary: q s)
  case (Cons e es)
  let ?q = "q\<lparr>tq_committed := ms_insert entry_key e (tq_committed q), tq_totalPushes := tq_totalPushes q + 1\<rparr>"
  let ?ev = "\<lparr>ev_readyTime = te_readyTime e, ev_targetId = so_id q, ev_eventKind = kNotificationKind,
     ev_payload = te_sequence e, ev_sequence = 0\<rparr>"
  obtain ok s' where sch: "api_scheduleEvent system_api ?ev s = (ok, s')" by fastforce
  have "sys_evolves s s'" using sched.evolves_schedule [of s ?ev] sch by simp
  with Cons.IH [of s' ?q] have "sys_evolves s (snd (timed_commit_loop system_api es ?q s'))"
    by (blast intro: sched.evolves_trans)
  with Cons.IH [of s ?q] sch \<open>sys_evolves s s'\<close> show ?case
    by (cases ok) (simp_all add: Let_def split: option.split)
qed (simp add: sched.evolves_refl)

lemma timed_xfer_evolves: "sys_evolves s (snd (timed_doXfer system_api e q s))"
proof -
  let ?n = "min (tq_popProposalCount q) (length (tq_committed q))"
  let ?q = "q\<lparr>tq_committed := drop ?n (tq_committed q), tq_totalPops := tq_totalPops q + of_nat ?n,
     tq_popProposalCount := 0\<rparr>"
  obtain q2 s2 where "timed_commit_loop system_api (tq_scheduleProposals ?q) ?q s = (q2, s2)" by fastforce
  with timed_commit_evolves [of s "tq_scheduleProposals ?q" ?q] show ?thesis
    by (simp add: timed_doXfer_def Let_def)
qed

lemma emit_accepted_evolves: "sys_evolves s (snd (emit_accepted system_api xs r s))"
proof (induction xs arbitrary: r s)
  case (Cons x xs)
  show ?case
  proof (cases "presentationTime (rv_issueTime x)"; cases "presentationTime (rv_readyTime x)")
    fix a b
    assume t: "presentationTime (rv_issueTime x) = Some a" "presentationTime (rv_readyTime x) = Some b"
    let ?p = "(observation ''resource'' ''reservation'' Complete)\<lparr>op_rootSequenceId := Some (rv_rootTransactionId x),
       op_duration := Some (b - a), op_arguments := reservation_arguments x\<rparr>"
    obtain r' s' where em: "emitObservation system_api ?p r s = (r', s')" by fastforce
    with sched.evolves_emit [of s ?p r] have "sys_evolves s s'" by simp
    with Cons.IH [of s' r'] t em show ?thesis by (auto intro: sched.evolves_trans)
  qed (use Cons.IH in simp_all)
qed (simp add: sched.evolves_refl)

lemma resource_evolves: "sys_evolves s (snd (resource_doArbitrate system_api r s))"
proof -
  obtain r2 s2 where em: "emit_accepted system_api (rs_acceptedProposals (resource_decide r)) (resource_decide r) s = (r2, s2)"
    by fastforce
  with emit_accepted_evolves [of s "rs_acceptedProposals (resource_decide r)" "resource_decide r"]
  have "sys_evolves s s2" by simp
  then show ?thesis
    using sched.evolves_emits [of s2 "stall_observations r2" r2] em
    by (auto simp: resource_doArbitrate_def Let_def intro: sched.evolves_trans)
qed

lemma leaf_evolves:
  shows "sys_evolves s (snd (compute_doWork system_api f c s))"
    and "sys_evolves s (snd (sink_doArbitrate system_api k s))"
    and "sys_evolves s (snd (wire_doArbitrate system_api l s))"
    and "sys_evolves s (snd (memory_doArbitrate system_api mem s))"
    and "sys_evolves s (snd (sched_doArbitrate system_api e sc s))"
    and "sys_evolves s (snd (rv_doArbitrate system_api rv s))"
    and "sys_evolves s (snd (rr_doArbitrate system_api rr s))"
    and "sys_evolves s (snd (trace_doArbitrate system_api ts s))"
  by (simp_all add: compute_doWork_def sink_doArbitrate_def wire_doArbitrate_def memory_doArbitrate_def
      sched_doArbitrate_def rv_doArbitrate_def rr_doArbitrate_def trace_doArbitrate_def Let_def
      sched.evolves_emits sched.evolves_emit sched.evolves_refl)

lemma trace_work_evolves: "sys_evolves s (snd (trace_doWork system_api dec e c s))"
  using sched.evolves_schedule [of s "issue_event (so_id c) (current_record c)"] sched.evolves_refl [of s]
  by (auto simp: trace_doWork_def Let_def split: prod.splits bool.splits option.splits)

text \<open>Generated code, then the three phases.\<close>

lemma run_program_evolves:
  fixes w :: "('l, 'a::zero, 'd) store world"
  shows "sys_evolves (fst w) (fst (snd (run_program e prog w)))"
proof (induction prog arbitrary: w)
  case (Finish st l)
  show ?case by (simp add: sched.evolves_refl)
next
  case (StateRead p i port k)
  show ?case
  proof (cases "snd w p")
    case (OStateArray q)
    obtain v q' s' where c: "array_read system_api i port q (fst w) = (v, q', s')" by (metis prod_cases3)
    with array_evolves(1) [of "fst w" i port q] have "sys_evolves (fst w) s'" by simp
    moreover have "sys_evolves s' (fst (snd (run_program e (k v) (s', h))))" for h :: "('l, 'a, 'd) store"
      using StateRead [of "k v" "(s', h)"] by simp
    ultimately show ?thesis
      by (simp add: OStateArray c) (rule sched.evolves_trans)
  qed (use StateRead in simp_all)
next
  case (StateWrite p i v en port k)
  show ?case
  proof (cases "snd w p")
    case (OStateArray q)
    obtain q' s' where c: "array_proposeWrite system_api i v en port q (fst w) = (q', s')" by (metis surj_pair)
    with array_evolves(2) [of "fst w" i v en port q] have "sys_evolves (fst w) s'" by simp
    moreover have "sys_evolves s' (fst (snd (run_program e k (s', h))))" for h :: "('l, 'a, 'd) store"
      using StateWrite [of "(s', h)"] by simp
    ultimately show ?thesis
      by (simp add: OStateArray c) (rule sched.evolves_trans)
  qed (use StateWrite in simp_all)
next
  case (QueueSend p v k)
  show ?case
  proof (cases "snd w p")
    case (OQueue q)
    obtain ok q' s' where c: "proposePush system_api v q (fst w) = (ok, q', s')" by (metis prod_cases3)
    with queue_evolves(1) [of "fst w" v q] have "sys_evolves (fst w) s'" by simp
    moreover have "sys_evolves s' (fst (snd (run_program e (k ok) (s', h))))" for h :: "('l, 'a, 'd) store"
      using QueueSend [of "k ok" "(s', h)"] by simp
    ultimately show ?thesis
      by (simp add: OQueue c) (rule sched.evolves_trans)
  qed (use QueueSend in simp_all)
next
  case (QueueRecv p k)
  show ?case
  proof (cases "snd w p")
    case (OQueue q)
    obtain v q' s' where c: "tryRecv system_api q (fst w) = (v, q', s')" by (metis prod_cases3)
    with tryRecv_evolves [of "fst w" q] have "sys_evolves (fst w) s'" by simp
    moreover have "sys_evolves s' (fst (snd (run_program e (k v) (s', h))))" for h :: "('l, 'a, 'd) store"
      using QueueRecv [of "k v" "(s', h)"] by simp
    ultimately show ?thesis
      by (simp add: OQueue c) (rule sched.evolves_trans)
  qed (use QueueRecv in simp_all)
next
  case (EventSchedule p v d k)
  show ?case
  proof (cases "snd w p")
    case (OTimedQueue q)
    obtain ok q' s' where c: "timed_trySchedule system_api v e d q (fst w) = (ok, q', s')" by (metis prod_cases3)
    with timed_evolves(1) [of "fst w" v e d q] have "sys_evolves (fst w) s'" by simp
    moreover have "sys_evolves s' (fst (snd (run_program e (k ok) (s', h))))" for h :: "('l, 'a, 'd) store"
      using EventSchedule [of "k ok" "(s', h)"] by simp
    ultimately show ?thesis
      by (simp add: OTimedQueue c) (rule sched.evolves_trans)
  qed (use EventSchedule in simp_all)
next
  case (EventRecv p k)
  show ?case
  proof (cases "snd w p")
    case (OTimedQueue q)
    obtain v q' s' where c: "timed_tryRecv system_api e q (fst w) = (v, q', s')" by (metis prod_cases3)
    with timed_evolves(2) [of "fst w" e q] have "sys_evolves (fst w) s'" by simp
    moreover have "sys_evolves s' (fst (snd (run_program e (k v) (s', h))))" for h :: "('l, 'a, 'd) store"
      using EventRecv [of "k v" "(s', h)"] by simp
    ultimately show ?thesis
      by (simp add: OTimedQueue c) (rule sched.evolves_trans)
  qed (use EventRecv in simp_all)
next
  case (QueueTransfer p r en k)
  show ?case
  proof (cases "\<exists>a b. snd w p = OQueue a \<and> snd w r = OQueue b")
    case True
    then obtain a b where ab: "snd w p = OQueue a" "snd w r = OQueue b" by blast
    obtain ok a' b' s' where c: "tryTransferTo system_api a b en (fst w) = (ok, a', b', s')" by (metis prod_cases4)
    with tryTransfer_evolves [of "fst w" a b en] have "sys_evolves (fst w) s'" by simp
    moreover have "sys_evolves s' (fst (snd (run_program e (k ok) (s', h))))" for h :: "('l, 'a, 'd) store"
      using QueueTransfer [of "k ok" "(s', h)"] by simp
    ultimately show ?thesis
      by (simp add: ab c) (rule sched.evolves_trans)
  next
    case False
    then show ?thesis
      using QueueTransfer by (cases "snd w p"; cases "snd w r") simp_all
  qed
qed simp_all

lemma process_loop_evolves:
  "sys_evolves (fst (snd lw)) (fst (snd (snd (process_loop (executeProcessStep m p cl) e n pc pr lw))))"
proof (induction n arbitrary: pc lw)
  case (Suc n)
  obtain st l w where x: "executeProcessStep m p cl pc e lw = (st, l, w)" by (metis prod_cases3)
  have "sys_evolves (fst (snd lw)) (fst w)"
    using run_program_evolves [of "snd lw" e "md_code m p pc e cl (fst lw)"] x
    by (auto simp: executeProcessStep_def split: prod.splits)
  with Suc.IH [of "(l, w)" "ps_nextPc st"] x show ?case
    by (auto intro: sched.evolves_trans split: process_step_kind.split)
qed (simp add: sched.evolves_refl)

lemma obj_doWork_evolves: "sys_evolves (fst w) (fst (obj_doWork m p e w))"
proof (cases "snd w p")
  case (OProcess pr cl pl)
  obtain pr' pl' w' where x: "process_doWork (executeProcessStep m p cl) e pr (pl, w) = (pr', pl', w')"
    by (metis prod_cases3)
  have "sys_evolves (fst w) (fst w')"
    using x process_loop_evolves [of "(pl, w)" m p cl e "unat (pr_fairnessWork pr)" "pr_committedPc pr" pr]
    by (auto simp: process_doWork_def sched.evolves_refl split: if_splits)
  then show ?thesis by (cases w') (simp add: obj_doWork_def OProcess x)
next
  case (OQueueLink l)
  show ?thesis
  proof (cases "\<exists>a b. snd w (ql_source l) = OQueue a \<and> snd w (ql_destination l) = OQueue b")
    case True
    then obtain a b where ab: "snd w (ql_source l) = OQueue a" "snd w (ql_destination l) = OQueue b" by blast
    obtain l' a' b' s' where x: "link_doWork system_api e l a b (fst w) = (l', a', b', s')" by (metis prod_cases4)
    with link_evolves [of "fst w" e l a b] show ?thesis by (simp add: obj_doWork_def OQueueLink ab)
  next
    case False
    then show ?thesis
      by (cases "snd w (ql_source l)"; cases "snd w (ql_destination l)")
        (simp_all add: obj_doWork_def OQueueLink sched.evolves_refl)
  qed
next
  case (OCompute c)
  then show ?thesis
    using leaf_evolves(1) [of "fst w" "md_policy m p" c] by (simp add: obj_doWork_def split: prod.split) (metis snd_conv)
next
  case (OTraceSource c)
  then show ?thesis
    using trace_work_evolves [of "fst w" "md_decoder m p" e c] by (simp add: obj_doWork_def split: prod.split) (metis snd_conv)
qed (simp_all add: obj_doWork_def sched.evolves_refl)

lemma obj_doArbitrate_evolves: "sys_evolves (fst w) (fst (obj_doArbitrate p e w))"
  by (cases "snd w p") (simp_all add: obj_doArbitrate_def Let_def queue_evolves resource_evolves leaf_evolves
      sched.evolves_refl)

lemma obj_doXfer_evolves: "sys_evolves (fst w) (fst (obj_doXfer p e w))"
proof (cases "snd w p")
  case (OTimedQueue q)
  obtain q' s' where x: "timed_doXfer system_api e q (fst w) = (q', s')" by (metis surj_pair)
  with timed_xfer_evolves [of "fst w" e q] show ?thesis by (simp add: obj_doXfer_def OTimedQueue)
qed (simp_all add: obj_doXfer_def sched.evolves_refl)

interpretation gfsim: runtime_objects "gfsim_ops m" for m :: "('l::zero, 'a::zero, 'd) model"
proof unfold_locales
  fix s :: sim_system and p e and h :: "('l, 'a, 'd) store"
  show "sys_evolves s (fst (ob_doWork (gfsim_ops m) p e (s, h)))"
    using obj_doWork_evolves [of "(s, h)" m p e] by (simp add: gfsim_ops_def)
  show "sys_evolves s (fst (ob_doArbitrate (gfsim_ops m) p e (s, h)))"
    using obj_doArbitrate_evolves [of "(s, h)" p e] by (simp add: gfsim_ops_def)
  show "sys_evolves s (fst (ob_doXfer (gfsim_ops m) p e (s, h)))"
    using obj_doXfer_evolves [of "(s, h)" p e] by (simp add: gfsim_ops_def)
qed

end
