(* ===== verification/Simulation.thy ===== *)
theory Simulation
  imports Gfsim_Objects
begin

text \<open>
  What a simulation run promises. A run of a configured system returns; a step either moves
  strictly forward or ends the run; the declared event and cycle caps are never exceeded; and a
  run classified \<open>Completed\<close> has nothing left: no scheduled work, no event, and every runtime
  object quiescent. The verdict lemmas are proved once in the locale \<open>runtime_objects\<close> and
  reach the concrete runtime through its interpretation \<open>gfsim\<close>.
\<close>

section \<open>The verdict and the caps\<close>

text \<open>
  \<open>sound s t\<close>: between \<open>s\<close> and \<open>t\<close> the declared caps were kept, none was passed and the run
  was not declared completed.
\<close>

definition capped :: "sim_system \<Rightarrow> bool" where
  "capped s \<longleftrightarrow> sy_committedEventCount s \<le> sy_maxEvents s \<and> ordered (sy_domainCycles s) \<and>
     (\<forall>nm c limit. map_of (sy_domainCycles s) nm = Some c \<longrightarrow>
        map_of (sy_maxDomainCycles s) nm = Some limit \<longrightarrow> c \<le> limit)"

definition completed :: "sim_system \<Rightarrow> bool" where
  "completed s \<longleftrightarrow> tr_classification (sy_result s) = Completed"

definition same_limits :: "sim_system \<Rightarrow> sim_system \<Rightarrow> bool" where
  "same_limits s t \<longleftrightarrow> sy_maxEvents t = sy_maxEvents s \<and> sy_maxDomainCycles t = sy_maxDomainCycles s"

definition sound :: "sim_system \<Rightarrow> sim_system \<Rightarrow> bool" where
  "sound s t \<longleftrightarrow> same_limits s t \<and> (capped s \<longrightarrow> capped t) \<and> (completed t \<longrightarrow> completed s)"

lemma sound_refl [simp]: "sound s s"
  by (simp add: sound_def same_limits_def)

lemma sound_trans: "sound s t \<Longrightarrow> sound t u \<Longrightarrow> sound s u"
  by (auto simp: sound_def same_limits_def)

definition verdict_part where
  "verdict_part s = (sy_committedEventCount s, sy_maxEvents s, sy_domainCycles s, sy_maxDomainCycles s,
     tr_classification (sy_result s))"

lemma sound_part: "verdict_part t = verdict_part s \<Longrightarrow> sound s t"
  by (simp add: verdict_part_def sound_def same_limits_def capped_def completed_def)

lemma sound_part_left: "verdict_part s' = verdict_part s \<Longrightarrow> sound s' t = sound s t"
  by (simp add: verdict_part_def sound_def same_limits_def capped_def completed_def)

lemma sound_part_right: "verdict_part t' = verdict_part t \<Longrightarrow> sound s t' = sound s t"
  by (simp add: verdict_part_def sound_def same_limits_def capped_def completed_def)

lemma sound_fail [simp]: "sound s (snd (sys_fail c msg s))"
  by (simp add: sys_fail_def sound_def same_limits_def capped_def completed_def)

lemma sound_stop [simp]: "sound s (stop_incomplete cap c s)"
  by (simp add: stop_incomplete_def sound_def same_limits_def capped_def completed_def)

lemma sound_update [simp]:
  "sound s (t\<lparr>sy_executingEpoch := b\<rparr>) = sound s t"
  "sound s (t\<lparr>sy_epoch := e\<rparr>) = sound s t"
  "sound s (t\<lparr>sy_scheduledWork := wk\<rparr>) = sound s t"
  "sound s (t\<lparr>sy_eventQueue := q\<rparr>) = sound s t"
  "sound s (t\<lparr>sy_observations := obs\<rparr>) = sound s t"
  "sound s (t\<lparr>sy_commitParticipants := ps\<rparr>) = sound s t"
  "sound s (t\<lparr>sy_activeProposalOwner := ow\<rparr>) = sound s t"
  "sound s (t\<lparr>sy_lastProgressTick := tk\<rparr>) = sound s t"
  "sound s (t\<lparr>sy_lastCommitTick := lc\<rparr>) = sound s t"
  "sound s (t\<lparr>sy_preflightValidated := b\<rparr>) = sound s t"
  "sound s (t\<lparr>sy_nextEventSequence := n\<rparr>) = sound s t"
  "sound s (t\<lparr>sy_eventQueueLastCommitTick := lt\<rparr>) = sound s t"
  by (simp_all add: sound_def same_limits_def capped_def completed_def)

lemma sound_update_left [simp]:
  "sound (s\<lparr>sy_executingEpoch := b\<rparr>) t = sound s t"
  "sound (s\<lparr>sy_epoch := e\<rparr>) t = sound s t"
  "sound (s\<lparr>sy_eventQueue := q\<rparr>) t = sound s t"
  "sound (s\<lparr>sy_commitParticipants := ps\<rparr>) t = sound s t"
  "sound (s\<lparr>sy_activeProposalOwner := ow\<rparr>) t = sound s t"
  "sound (s\<lparr>sy_lastProgressTick := tk\<rparr>) t = sound s t"
  "sound (s\<lparr>sy_lastCommitTick := lc\<rparr>) t = sound s t"
  by (simp_all add: sound_def same_limits_def capped_def completed_def)

lemma sound_fail_of:
  assumes "sound s t"
  shows "sound s (snd (sys_fail c msg t))"
  using assms sound_fail [of t c msg] by (rule sound_trans)

lemma sound_stop_of:
  assumes "sound s t"
  shows "sound s (stop_incomplete cap c t)"
  using assms sound_stop [of t cap c] by (rule sound_trans)

lemma sound_and_then:
  assumes "sound s (fst (snd r))" and "\<And>w. r = (True, w) \<Longrightarrow> sound (fst w) (fst (snd (f w)))"
  shows "sound s (fst (snd (and_then r f)))"
  using assms by (cases r) (auto simp: and_then_def intro: sound_trans)

section \<open>Calls\<close>

lemma sound_scheduleWork: "sound s (snd (scheduleWork i e s))"
  by (simp add: scheduleWork_def Let_def)

lemma sound_api: "api_step s t \<Longrightarrow> sound s t"
proof (induction rule: api_step.induct)
  case (api_register s i)
  show ?case by (simp add: registerCommitParticipant_def)
next
  case (api_event s e)
  show ?case by (auto simp: scheduleEvent_def Let_def intro!: sound_fail_of split: prod.split bool.split)
next
  case (api_observe s p)
  show ?case by (auto simp: proposeObservation_def Let_def intro!: sound_fail_of split: option.split prod.split)
qed

lemma sound_evolves: "sys_evolves s t \<Longrightarrow> sound s t"
  unfolding sys_evolves_def by (induction rule: rtranclp_induct) (auto intro: sound_trans sound_api)

lemma sound_schedule_all: "sound s (snd (schedule_all e ids s))"
proof (induction ids arbitrary: s)
  case (Cons i ids)
  have "sound s (snd (scheduleWork i e s))" by (rule sound_scheduleWork)
  with Cons.IH [of "snd (scheduleWork i e s)"] show ?case
    by (cases "scheduleWork i e s") (auto simp: and_then_def intro: sound_trans)
qed simp

lemma sound_activate_loop: "sound (fst w) (fst (snd (activate_loop ops source e ids w)))"
proof (induction ops source e ids w rule: activate_loop.induct)
  case (2 ops source e target targets s h)
  obtain skip h1 where sk: "(case sys_lookup target s of None \<Rightarrow> (False, h)
      | Some p \<Rightarrow> (case ob_activateFrom ops p source h of (ok, h') \<Rightarrow> (\<not> ok, h'))) = (skip, h1)"
    by fastforce
  obtain ok s1 where sw: "scheduleWork target e s = (ok, s1)" by fastforce
  with sound_scheduleWork [of s target e] have "sound s s1" by simp
  with 2 sk sw show ?case by (cases skip; cases ok) (auto simp: Let_def intro: sound_trans)
qed simp

lemma sound_activate_sources: "sound (fst w) (fst (snd (activate_sources ops e sources w)))"
proof (induction sources arbitrary: w)
  case (Cons source sources)
  show ?case
    by (simp, rule sound_and_then) (rule sound_activate_loop, rule Cons.IH)
qed simp

lemma sound_deliverReadyEvent: "sound (fst w) (fst (snd (deliverReadyEvent ops ev w)))"
proof -
  obtain s h where w: "w = (s, h)" by fastforce
  show ?thesis
  proof (cases "sys_lookup (ev_targetId ev) s")
    case (Some p)
    obtain ok h1 where d: "ob_deliverEvent ops p (ev_eventKind ev) (ev_payload ev) (ev_readyTime ev) h = (ok, h1)"
      by fastforce
    show ?thesis
      using sound_scheduleWork [of s "ev_targetId ev" "sy_epoch s"]
        sound_activate_loop [of "(s, h1)" ops "ev_targetId ev" "sy_epoch s" "targetsFor (sy_activation s) (ev_targetId ev)"]
      by (cases ok) (simp_all add: deliverReadyEvent_def w Some d case_prod_beta)
  qed (simp add: deliverReadyEvent_def w)
qed

lemma word_Suc_le:
  fixes x n :: "'a::len word"
  assumes "x < n"
  shows "x + 1 \<le> n"
proof -
  have "unat x < unat n" using assms by (simp add: word_less_nat_alt)
  moreover have "unat n < 2 ^ LENGTH('a)" by (rule unsigned_less)
  ultimately have "Suc (unat x) < 2 ^ LENGTH('a)" by linarith
  then have "unat (x + 1) = Suc (unat x)" by (simp add: unat_word_ariths)
  with \<open>unat x < unat n\<close> show ?thesis by (simp add: word_le_nat_alt)
qed

lemma sound_count:
  assumes "sound s t" and "sy_committedEventCount t < sy_maxEvents t"
  shows "sound s (t\<lparr>sy_committedEventCount := sy_committedEventCount t + 1, sy_lastProgressTick := tk\<rparr>)"
proof -
  have "sound t (t\<lparr>sy_committedEventCount := sy_committedEventCount t + 1, sy_lastProgressTick := tk\<rparr>)"
    using word_Suc_le [OF assms(2)] by (simp add: sound_def same_limits_def capped_def completed_def)
  with assms(1) show ?thesis by (rule sound_trans)
qed

definition event_cap where
  "event_cap s = (sy_committedEventCount s, sy_maxEvents s)"

lemma event_cap_scheduleWork: "event_cap (snd (scheduleWork i e s)) = event_cap s"
  by (simp add: scheduleWork_def event_cap_def sys_fail_def Let_def)

lemma event_cap_activate_loop: "event_cap (fst (snd (activate_loop ops source e ids w))) = event_cap (fst w)"
proof (induction ops source e ids w rule: activate_loop.induct)
  case (2 ops source e target targets s h)
  obtain skip h1 where sk: "(case sys_lookup target s of None \<Rightarrow> (False, h)
      | Some p \<Rightarrow> (case ob_activateFrom ops p source h of (ok, h') \<Rightarrow> (\<not> ok, h'))) = (skip, h1)"
    by fastforce
  obtain ok s1 where sw: "scheduleWork target e s = (ok, s1)" by fastforce
  with event_cap_scheduleWork [of target e s] have "event_cap s1 = event_cap s" by simp
  with 2 sk sw show ?case by (cases skip; cases ok) (auto simp: Let_def)
qed simp

lemma event_cap_deliver: "event_cap (fst (snd (deliverReadyEvent ops ev w))) = event_cap (fst w)"
proof -
  obtain s h where w: "w = (s, h)" by fastforce
  have fail: "event_cap (snd (sys_fail c m s)) = event_cap s" for c m s
    by (simp add: event_cap_def sys_fail_def)
  show ?thesis
  proof (cases "sys_lookup (ev_targetId ev) s")
    case (Some p)
    obtain ok h1 where d: "ob_deliverEvent ops p (ev_eventKind ev) (ev_payload ev) (ev_readyTime ev) h = (ok, h1)"
      by fastforce
    show ?thesis
      by (cases ok) (simp_all add: deliverReadyEvent_def w Some d fail case_prod_beta
          event_cap_activate_loop event_cap_scheduleWork)
  qed (simp add: deliverReadyEvent_def w fail)
qed

lemma sound_deliver_loop: "sound (fst w) (fst (snd (deliver_loop ops w)))"
proof (induction ops w rule: deliver_loop.induct)
  case (1 ops s h)
  show ?case
  proof (cases "eq_nextEvent (sy_eventQueue s)")
    case (Some ev)
    note next_ev = Some
    show ?thesis
    proof (cases "ev_readyTime ev = sy_epoch s \<and> sy_committedEventCount s < sy_maxEvents s")
      case True
      let ?w = "(s\<lparr>sy_eventQueue := snd (eq_popNext (sy_eventQueue s))\<rparr>, h)"
      have cap: "stopAtEventCap s = (False, s)" using True by (simp add: stopAtEventCap_def)
      obtain ok s2 h2 where d: "deliverReadyEvent ops ev ?w = (ok, s2, h2)" by (metis prod_cases3)
      have s2: "sound s s2" "event_cap s2 = event_cap s"
        using sound_deliverReadyEvent [of ?w ops ev] event_cap_deliver [of ops ev ?w] d
        by (simp_all add: event_cap_def)
      let ?s = "s2\<lparr>sy_committedEventCount := sy_committedEventCount s2 + 1, sy_lastProgressTick := ep_time (sy_epoch s2)\<rparr>"
      have "sound s ?s"
        by (rule sound_count [OF s2(1)]) (use s2(2) True in \<open>simp add: event_cap_def\<close>)
      moreover have "sound ?s (fst (snd (deliver_loop ops (?s, h2))))" if ok
        using 1 next_ev True cap d that by fastforce
      ultimately show ?thesis
        using s2(1) True next_ev cap d
        by (subst deliver_loop.simps) (auto simp: and_then_def intro: sound_trans)
    next
      case False
      with next_ev show ?thesis
        by (subst deliver_loop.simps) (auto simp: stopAtEventCap_def intro!: sound_stop_of)
    qed
  qed (simp add: deliver_loop.simps)
qed

section \<open>The phases\<close>

lemma sound_refresh: "sound (fst w) (fst (refreshRuntimeSummary ops w))"
proof -
  have obj: "verdict_part (summarize_object ops h p s) = verdict_part s" for h p s
    by (simp add: summarize_object_def verdict_part_def Let_def)
  have "verdict_part (fold (summarize_object ops h) ps s) = verdict_part s" for h ps s
    by (induction ps arbitrary: s) (simp_all add: obj)
  then have "verdict_part (fst (refreshRuntimeSummary ops w)) = verdict_part (fst w)"
    by (cases w) (simp add: refreshRuntimeSummary_def Let_def verdict_part_def)
  then show ?thesis by (rule sound_part)
qed

lemma sound_stopAtTraceCap: "sound (fst w) (fst (snd (stopAtTraceCap ops w)))"
proof -
  obtain s h where r: "refreshRuntimeSummary ops w = (s, h)" by fastforce
  with sound_refresh [of w ops] have "sound (fst w) s" by simp
  then show ?thesis
    by (auto simp: stopAtTraceCap_def r Let_def intro: sound_fail_of intro!: sound_stop_of)
qed

lemma sound_validate_identities: "sound (fst w) (fst (snd (validateRuntimeIdentities ops w)))"
  by (cases w) (auto simp: validateRuntimeIdentities_def Let_def case_prod_beta)

lemma sound_cycle:
  assumes "\<And>limit. map_of (sy_maxDomainCycles s) nm = Some limit \<Longrightarrow> c \<le> limit"
  shows "sound s (s\<lparr>sy_domainCycles := map_put nm c (sy_domainCycles s)\<rparr>)"
  using assms by (auto simp: sound_def same_limits_def capped_def completed_def map_of_map_put split: if_splits)

lemma sound_domain_loop: "sound s (snd (domain_loop ds s))"
proof (induction ds arbitrary: s)
  case (Cons d ds)
  obtain nm domain where d: "d = (nm, domain)" by fastforce
  define c where "c = (case map_of (sy_domainCycles s) nm of None \<Rightarrow> 0 | Some c \<Rightarrow> c)"
  define s1 where "s1 = s\<lparr>sy_domainCycles := map_put nm c (sy_domainCycles s)\<rparr>"
  define s2 where "s2 = s1\<lparr>sy_domainCycles := map_put nm (c + 1) (sy_domainCycles s1)\<rparr>"
  have s1: "sound s s1"
    unfolding s1_def c_def
    by (cases "map_of (sy_domainCycles s) nm") (auto simp: sound_def same_limits_def capped_def completed_def map_of_map_put split: if_splits)
  have s2: "sound s s2" if "\<And>limit. map_of (sy_maxDomainCycles s) nm = Some limit \<Longrightarrow> c < limit"
  proof -
    have "sound s1 s2"
      unfolding s2_def by (rule sound_cycle) (use that word_Suc_le in \<open>simp add: s1_def\<close>)
    with s1 show ?thesis by (rule sound_trans)
  qed
  have limits: "sy_maxDomainCycles s1 = sy_maxDomainCycles s" by (simp add: s1_def)
  have eq: "domain_loop (d # ds) s =
     (if ep_time (sy_epoch s) < td_phase domain \<or>
         (ep_time (sy_epoch s) - td_phase domain) mod td_period domain \<noteq> 0 then domain_loop ds s
      else case map_of (sy_maxDomainCycles s) nm of
        Some limit \<Rightarrow> if c \<ge> limit
          then (False, stop_incomplete limit ''max_domain_cycles_reached'' (s1\<lparr>sy_executingEpoch := False\<rparr>))
          else domain_loop ds s2
      | None \<Rightarrow> domain_loop ds s2)"
    by (simp only: d domain_loop.simps Let_def c_def [symmetric] s1_def [symmetric] limits s2_def)
  show ?case
  proof (cases "map_of (sy_maxDomainCycles s) nm")
    case None
    with s2 Cons.IH [of s2] Cons.IH [of s] show ?thesis
      unfolding eq by (auto intro: sound_trans)
  next
    case (Some limit)
    with s1 s2 Cons.IH [of s2] Cons.IH [of s] show ?thesis
      unfolding eq by (auto intro: sound_trans sound_stop_of simp: not_le)
  qed
qed simp

lemma sound_step_limits: "sound s (snd (step_limits s))"
proof -
  obtain ok s1 where d: "(if ep_delta (sy_epoch s) = 0 then domain_loop (sy_timeDomains s) s else (True, s)) = (ok, s1)"
    by fastforce
  have "sound s s1"
    using sound_domain_loop [of s "sy_timeDomains s"] d by (auto split: if_splits)
  then show ?thesis
    by (auto simp: step_limits_def d and_then_def stopAtEventCap_def intro!: sound_stop_of)
qed

lemma sound_preflight: "sound (fst w) (fst (snd (step_preflight ops w)))"
proof -
  obtain ok1 w1 where v: "(if sy_preflightValidated (fst w) then (True, w) else validateRuntimeIdentities ops w) = (ok1, w1)"
    by (metis surj_pair)
  have s1: "sound (fst w) (fst w1)"
    using sound_validate_identities [of w ops] v by (auto split: if_splits)
  obtain stopped s h where c: "stopAtTraceCap ops w1 = (stopped, s, h)" by (metis prod_cases3)
  have s2: "sound (fst w) s"
    using sound_stopAtTraceCap [of w1 ops] c s1 by (auto intro: sound_trans)
  have "sound (fst w) (snd (step_limits s))"
    using s2 sound_step_limits [of s] by (rule sound_trans)
  with s1 s2 show ?thesis
    by (simp add: step_preflight_def v c and_then_def case_prod_beta)
qed

lemma sound_validate_loop: "sound (fst w) (fst (snd (validate_loop ops ids w)))"
  by (induction ops ids w rule: validate_loop.induct) (auto split: option.split)

lemma sound_trace_end: "sound (fst w) (fst (snd (snd (step_trace_end ops w))))"
proof -
  obtain s h where r: "refreshRuntimeSummary ops w = (s, h)" by fastforce
  with sound_refresh [of w ops] have "sound (fst w) s" by simp
  then show ?thesis
    by (auto simp: step_trace_end_def r Let_def stop_at_max_ticks_def intro: sound_fail_of intro!: sound_stop_of
        split: prod.split)
qed

lemma sound_step_activate: "sound (fst w) (fst (snd (step_activate ops sources traceEnd w)))"
proof -
  have "sound s (snd (if b then schedule_all e ids s else (True, s)))" for s b e ids
    by (simp add: sound_schedule_all)
  then show ?thesis
    unfolding step_activate_def Let_def
    by (intro sound_and_then) (auto simp: sound_activate_sources case_prod_beta)
qed

lemma sound_commit_events: "sound s (commit_events s)"
  by (simp add: commit_events_def Let_def)

lemma sound_take: "take_current_work s = (ids, s') \<Longrightarrow> sound s s'"
  by (auto simp: take_current_work_def split: option.splits)

section \<open>One step\<close>

context runtime_objects
begin

lemma sound_phase_loop:
  assumes calls: "\<And>p e s h. sys_evolves s (fst (call p e (s, h)))"
  shows "sound (fst w) (fst (snd (phase_loop call ids w)))"
proof (induction ids arbitrary: w)
  case (Cons i ids)
  obtain s h where w: "w = (s, h)" by fastforce
  let ?s = "s\<lparr>sy_activeProposalOwner := Some i\<rparr>"
  obtain s2 h2 where c: "(case sys_lookup i ?s of None \<Rightarrow> (?s, h) | Some p \<Rightarrow> call p (sy_epoch ?s) (?s, h)) = (s2, h2)"
    by fastforce
  have "sys_evolves ?s s2"
    using calls [of ?s _ "sy_epoch ?s" h] sched.evolves_refl [of ?s] c
    by (cases "sys_lookup i ?s") (auto dest!: arg_cong [of _ _ fst])
  then have "sound s s2" using sound_evolves [of ?s s2] by simp
  with Cons.IH [of "(s2\<lparr>sy_activeProposalOwner := None\<rparr>, h2)"] c show ?case
    by (auto simp: w Let_def intro: sound_trans)
qed simp

lemma sound_commit_object: "sound (fst w) (fst (snd (snd (commit_object ops i sources w))))"
proof -
  obtain s h where w: "w = (s, h)" by fastforce
  let ?b = "will_commit ops i (s, h)"
  obtain b s1 h1 where c: "do_commit ops i ?b (s, h) = (b, s1, h1)" by (metis prod_cases3)
  define s2 where "s2 = (if b then s1\<lparr>sy_lastCommitTick := map_put i (ep_time (sy_epoch s1)) (sy_lastCommitTick s1),
                            sy_lastProgressTick := ep_time (sy_epoch s1)\<rparr> else s1)"
  have s1: "sound s s1"
    using do_commit_evolves [of s i ?b h] c by (auto intro: sound_evolves)
  then have s2: "sound s s2" by (simp add: s2_def)
  show ?thesis
    using s1 s2 unfolding w commit_object_def Let_def case_prod_conv fst_conv snd_conv c s2_def [symmetric]
    by (auto intro: sound_fail_of split: prod.splits bool.splits)
qed

lemma sound_commit_loop: "sound (fst w) (fst (snd (snd (commit_loop ops ids sources w))))"
proof (induction ids arbitrary: sources w)
  case (Cons i ids)
  obtain ok sources' w' where c: "commit_object ops i sources w = (ok, sources', w')" by (metis prod_cases3)
  with sound_commit_object [of w i sources] have "sound (fst w) (fst w')" by simp
  with Cons.IH [of w' sources'] c show ?case
    by (auto simp: and_then_def intro: sound_trans)
qed simp

lemma sound_step_execute: "sound (fst w) (fst (snd (snd (step_execute ops w))))"
proof -
  obtain s h where w: "w = (s, h)" by fastforce
  obtain ids s1 where t: "take_current_work s = (ids, s1)" by fastforce
  let ?s = "s1\<lparr>sy_executingEpoch := True, sy_commitParticipants := []\<rparr>"
  obtain ok1 w1 where p1: "phase_loop (ob_doWork ops) ids (?s, h) = (ok1, w1)" by (metis surj_pair)
  let ?x = "fold set_insert (sy_commitParticipants (fst w1)) ids"
  obtain ok2 w2 where p2: "phase_loop (ob_doArbitrate ops) ?x w1 = (ok2, w2)" by (metis surj_pair)
  obtain ok3 w3 where p3: "validate_loop ops ?x w2 = (ok3, w3)" by (metis surj_pair)
  obtain ok4 src s4 h4 where p4: "commit_loop ops ?x [] w3 = (ok4, src, s4, h4)" by (metis prod_cases4)
  have o1: "sound s (fst w1)"
    using sound_take [OF t] sound_phase_loop [where call = "ob_doWork ops" and w = "(?s, h)" and ids = ids] p1 work_evolves
    by (auto intro: sound_trans)
  have o2: "sound s (fst w2)"
    using o1 sound_phase_loop [where call = "ob_doArbitrate ops" and w = w1 and ids = ?x] p2 arbitrate_evolves
    by (auto intro: sound_trans)
  have o3: "sound s (fst w3)"
    using o2 sound_validate_loop [of w2 ops ?x] p3 by (auto intro: sound_trans)
  have o4: "sound s s4"
    using o3 sound_commit_loop [of w3 ?x "[]"] p4 by (auto intro: sound_trans)
  have "sound s (commit_events s4)"
    using o4 sound_commit_events by (rule sound_trans)
  with o1 o2 o3 o4 show ?thesis
    unfolding w step_execute_def Let_def case_prod_conv t p1
    using p2 p3 p4 by (cases ok1; cases ok2; cases ok3; cases ok4) simp_all
qed

text \<open>
  Everything of a step up to the choice of the next epoch is sound, and the state that choice is
  made in has nothing due.
\<close>

lemma step_cases:
  assumes "sched_inv (fst w)"
  obtains (stopped) w' where "step ops w = (False, w')" "sound (fst w) (fst w')" "sy_terminated (fst w')"
    | (idle) w6 where "step ops w = step_idle ops w6" "sound (fst w) (fst w6)" "next_epoch (fst w6) = None"
        "sched_inv (fst w6)" "\<not> sy_terminated (fst w6)" "settled (fst w6)"
    | (advance) w' where "step ops w = (True, w')" "sound (fst w) (fst w')"
proof -
  obtain ok1 w1 where p1: "step_preflight ops w = (ok1, w1)" by (metis surj_pair)
  obtain ok2 w2 where p2: "deliver_loop ops w1 = (ok2, w2)" by (metis surj_pair)
  obtain ok3 src w3 where p3: "step_execute ops w2 = (ok3, src, w3)" by (metis prod_cases3)
  obtain ok4 tr w4 where p4: "step_trace_end ops w3 = (ok4, tr, w4)" by (metis prod_cases3)
  obtain ok5 w5 where p5: "step_activate ops src tr w4 = (ok5, w5)" by (metis surj_pair)
  obtain ok6 s6 h6 where p6: "deliver_loop ops w5 = (ok6, s6, h6)" by (metis prod_cases3)
  have q1: "sound (fst w) (fst w1)" using sound_preflight [of w ops] p1 by simp
  have q2: "sound (fst w) (fst w2)" using q1 sound_deliver_loop [of w1 ops] p2 by (auto intro: sound_trans)
  have q3: "sound (fst w) (fst w3)" using q2 sound_step_execute [of w2] p3 by (auto intro: sound_trans)
  have q4: "sound (fst w) (fst w4)" using q3 sound_trace_end [of w3 ops] p4 by (auto intro: sound_trans)
  have q5: "sound (fst w) (fst w5)" using q4 sound_step_activate [of w4 ops src tr] p5 by (auto intro: sound_trans)
  have q6: "sound (fst w) s6" using q5 sound_deliver_loop [of w5 ops] p6 by (auto intro: sound_trans)
  let ?w = "(end_epoch s6, h6)"
  have qe: "sound (fst w) (fst ?w)" using q6 by (simp add: end_epoch_def)
  note adv = step_advanced [OF assms]
  show thesis
  proof (cases "ok1 \<and> ok2 \<and> ok3 \<and> ok4 \<and> ok5 \<and> ok6")
    case False
    then have "step ops w = (False, (if \<not> ok1 then w1 else if \<not> ok2 then w2 else if \<not> ok3 then w3
        else if \<not> ok4 then w4 else if \<not> ok5 then w5 else (s6, h6)))" (is "_ = (False, ?w')")
      by (simp add: step_eq [OF p1 p2 p3 p4 p5 p6])
    moreover have "sound (fst w) (fst ?w')" using q1 q2 q3 q4 q5 q6 by simp
    ultimately show thesis using adv stopped by (simp add: advanced_def)
  next
    case True
    then have st: "step ops w = step_advance ops ?w"
      by (simp add: step_eq [OF p1 p2 p3 p4 p5 p6])
    have before: "sched_inv (fst ?w) \<and> \<not> sy_terminated (fst ?w) \<and> settled (fst ?w)"
      using step_stages(6) [OF assms p1 p2 p3 p4 p5 p6] True by (simp add: end_epoch_frame)
    show thesis
    proof (cases "next_epoch (fst ?w)")
      case None
      with st have "step ops w = step_idle ops ?w" by (simp add: step_advance_def)
      with qe None before idle show thesis by blast
    next
      case (Some x)
      obtain ok w' where r: "step_advance ops ?w = (ok, w')" by (metis surj_pair)
      have "sound (fst w) (fst w')"
        using qe r Some
        by (auto simp: step_advance_def Let_def stop_at_max_ticks_def intro: sound_fail_of
            intro!: sound_fail_of sound_stop_of split: prod.splits option.splits if_splits)
      with st r adv stopped advance show thesis by (cases ok) (auto simp: advanced_def)
    qed
  qed
qed

end

section \<open>Completion\<close>

text \<open>The no-progress report lists exactly the runtime objects that are not quiescent.\<close>

definition all_quiescent :: "'h object_ops \<Rightarrow> 'h world \<Rightarrow> bool" where
  "all_quiescent ops w \<longleftrightarrow>
     (\<forall>p \<in> set (runtimeObjects ops w). ros_quiescent (ob_runtimeState ops p (sy_epoch (fst w)) (snd w)))"

definition nothing_left :: "'h object_ops \<Rightarrow> 'h world \<Rightarrow> bool" where
  "nothing_left ops w \<longleftrightarrow> sy_scheduledWork (fst w) = [] \<and> eq_committed (sy_eventQueue (fst w)) = [] \<and>
     eq_pushProposals (sy_eventQueue (fst w)) = [] \<and> all_quiescent ops w"

lemma summarize_frame:
  "sy_epoch (summarize_object ops h p s) = sy_epoch s"
  "sy_objects (summarize_object ops h p s) = sy_objects s"
  "sy_root (summarize_object ops h p s) = sy_root s"
  "sy_dispatch (summarize_object ops h p s) = sy_dispatch s"
  "sy_scheduledWork (summarize_object ops h p s) = sy_scheduledWork s"
  "sy_eventQueue (summarize_object ops h p s) = sy_eventQueue s"
  by (simp_all add: summarize_object_def Let_def)

lemma summarize_blocked:
  "np_blockedObjects (sy_noProgress (summarize_object ops h p s)) = [] \<longleftrightarrow>
     np_blockedObjects (sy_noProgress s) = [] \<and> ros_quiescent (ob_runtimeState ops p (sy_epoch s) h)"
  by (simp add: summarize_object_def Let_def)

lemma summarize_all:
  shows "np_blockedObjects (sy_noProgress (fold (summarize_object ops h) ps s)) = [] \<longleftrightarrow>
     np_blockedObjects (sy_noProgress s) = [] \<and>
     (\<forall>p \<in> set ps. ros_quiescent (ob_runtimeState ops p (sy_epoch s) h))"
    and "sy_epoch (fold (summarize_object ops h) ps s) = sy_epoch s"
    and "sy_objects (fold (summarize_object ops h) ps s) = sy_objects s"
    and "sy_root (fold (summarize_object ops h) ps s) = sy_root s"
    and "sy_dispatch (fold (summarize_object ops h) ps s) = sy_dispatch s"
    and "sy_scheduledWork (fold (summarize_object ops h) ps s) = sy_scheduledWork s"
    and "sy_eventQueue (fold (summarize_object ops h) ps s) = sy_eventQueue s"
  by (induction ps arbitrary: s) (auto simp: summarize_frame summarize_blocked)

lemma runtimeObjects_cong:
  "sy_objects s' = sy_objects s \<Longrightarrow> sy_root s' = sy_root s \<Longrightarrow> sy_dispatch s' = sy_dispatch s \<Longrightarrow>
   runtimeObjects ops (s', h) = runtimeObjects ops (s, h)"
  by (simp add: runtimeObjects_def)

lemma refresh_fields:
  fixes ops :: "'h object_ops" and s h
  defines "s1 \<equiv> fold (summarize_object ops h) (runtimeObjects ops (s, h))
     (s\<lparr>sy_noProgress := empty_no_progress_report\<lparr>np_nextEvent := eq_nextEvent (sy_eventQueue s)\<rparr>,
        sy_traceOwnerCount := 0, sy_traceEof := True\<rparr>)"
  shows "np_blockedObjects (sy_noProgress (fst (refreshRuntimeSummary ops (s, h)))) = np_blockedObjects (sy_noProgress s1)"
    and "sy_epoch (fst (refreshRuntimeSummary ops (s, h))) = sy_epoch s1"
    and "sy_objects (fst (refreshRuntimeSummary ops (s, h))) = sy_objects s1"
    and "sy_root (fst (refreshRuntimeSummary ops (s, h))) = sy_root s1"
    and "sy_dispatch (fst (refreshRuntimeSummary ops (s, h))) = sy_dispatch s1"
    and "sy_scheduledWork (fst (refreshRuntimeSummary ops (s, h))) = sy_scheduledWork s1"
    and "sy_eventQueue (fst (refreshRuntimeSummary ops (s, h))) = sy_eventQueue s1"
  unfolding refreshRuntimeSummary_def Let_def case_prod_conv s1_def [symmetric]
  by (cases "np_blockedObjects (sy_noProgress s1) = []"; simp)+

lemmas refresh_simps = refresh_fields [unfolded summarize_all]

lemma refresh_report:
  assumes "refreshRuntimeSummary ops w = (s, h)"
  shows "np_blockedObjects (sy_noProgress s) = [] \<longleftrightarrow> all_quiescent ops w"
    and "all_quiescent ops (s, h) = all_quiescent ops w"
    and "sy_scheduledWork s = sy_scheduledWork (fst w)" "sy_eventQueue s = sy_eventQueue (fst w)"
    and "sy_epoch s = sy_epoch (fst w)"
proof -
  obtain s0 where w: "w = (s0, h)"
    using assms refresh_store [of ops w] by (cases w) simp
  have s: "s = fst (refreshRuntimeSummary ops (s0, h))" using assms w by simp
  show "np_blockedObjects (sy_noProgress s) = [] \<longleftrightarrow> all_quiescent ops w"
    unfolding s refresh_fields(1) summarize_all by (simp add: all_quiescent_def w empty_no_progress_report_def)
  show "sy_scheduledWork s = sy_scheduledWork (fst w)" "sy_eventQueue s = sy_eventQueue (fst w)"
    and ep: "sy_epoch s = sy_epoch (fst w)"
    unfolding s w refresh_simps by simp_all
  have "runtimeObjects ops (s, h) = runtimeObjects ops (s0, h)"
    by (rule runtimeObjects_cong) (unfold s refresh_simps, simp_all)
  then show "all_quiescent ops (s, h) = all_quiescent ops w"
    using ep by (simp add: all_quiescent_def w)
qed

lemma nothing_left_cong:
  assumes "sy_objects s' = sy_objects s" "sy_root s' = sy_root s" "sy_dispatch s' = sy_dispatch s"
    "sy_scheduledWork s' = sy_scheduledWork s" "sy_eventQueue s' = sy_eventQueue s" "sy_epoch s' = sy_epoch s"
  shows "nothing_left ops (s', h) = nothing_left ops (s, h)"
  unfolding nothing_left_def all_quiescent_def runtimeObjects_cong [OF assms(1-3)] fst_conv assms(4-6) snd_conv
  by (rule refl)

lemma nothing_left_refresh: "nothing_left ops (refreshRuntimeSummary ops w) = nothing_left ops w"
proof -
  obtain s h where r: "refreshRuntimeSummary ops w = (s, h)" by fastforce
  from refresh_report [OF r] show ?thesis unfolding r by (simp add: nothing_left_def)
qed

lemma step_idle_completed:
  assumes "next_epoch (fst w) = None" "settled (fst w)" "\<not> completed (fst w)"
  shows "fst (step_idle ops w) = False \<and> same_limits (fst w) (fst (snd (step_idle ops w))) \<and> (capped (fst w) \<longrightarrow> capped (fst (snd (step_idle ops w)))) \<and>
    (completed (fst (snd (step_idle ops w))) \<longrightarrow> nothing_left ops (snd (step_idle ops w)))"
proof -
  obtain s h where r: "refreshRuntimeSummary ops w = (s, h)" by fastforce
  note rep = refresh_report [OF r]
  have sn: "sound (fst w) s" using sound_refresh [of w ops] r by simp
  then have nc: "\<not> completed s" using assms(3) by (simp add: sound_def)
  obtain stopped w1 where c: "stopAtTraceCap ops w = (stopped, w1)" by (metis surj_pair)
  have sw1: "sound (fst w) (fst w1)" using sound_stopAtTraceCap [of w ops] c by simp
  then have nc1: "\<not> completed (fst w1)" using assms(3) by (simp add: sound_def)
  have work: "sy_scheduledWork (fst w) = []" and evs: "eq_committed (sy_eventQueue (fst w)) = []"
    using assms(1) by (auto simp: next_epoch_def eq_nextEvent_def Let_def split: list.splits option.splits if_splits)
  have "w1 = (s, h)" if "\<not> stopped"
    using c r that by (auto simp: stopAtTraceCap_def Let_def split: if_splits)
  moreover have "nothing_left ops (complete s, h)" if "np_blockedObjects (sy_noProgress s) = []"
  proof -
    have "nothing_left ops (complete s, h) = nothing_left ops (s, h)"
      by (rule nothing_left_cong) (simp_all add: complete_def)
    then show ?thesis
      using that rep work evs assms(2) by (simp add: nothing_left_def settled_def)
  qed
  moreover have "capped s \<Longrightarrow> capped (complete s)" "same_limits s (complete s)"
    by (simp_all add: capped_def complete_def same_limits_def)
  moreover have "sound s (snd (sys_fail code m (s\<lparr>sy_epoch := e\<rparr>)))" "sound s (snd (sys_fail code m s))"
    "sound s (stop_at_max_ticks s)" for code m e
    by (auto simp: stop_at_max_ticks_def intro: sound_fail_of intro!: sound_stop_of)
  ultimately show ?thesis
    using sn sw1 nc nc1 c by (auto simp: step_idle_def Let_def sound_def same_limits_def split: bool.splits option.splits)
qed

context runtime_objects
begin

lemma run_loop_verdict:
  assumes "sched_inv (fst w)" and "\<not> completed (fst w)"
  shows "\<exists>w'. run_loop ops w = Some w' \<and> sy_terminated (fst w') \<and> same_limits (fst w) (fst w') \<and>
    (capped (fst w) \<longrightarrow> capped (fst w')) \<and> (completed (fst w') \<longrightarrow> nothing_left ops w')"
  using assms
proof (induction "2 ^ 96 - epoch_rank (sy_epoch (fst w))" arbitrary: w rule: less_induct)
  case less
  note adv = step_advanced [OF less.prems(1)]
  show ?case
  proof (cases "sy_terminated (fst w)")
    case True
    with less.prems show ?thesis by (subst run_loop.simps) (simp add: same_limits_def)
  next
    case live: False
    show ?thesis
    proof (rule step_cases [OF less.prems(1)])
      fix w' assume st: "step ops w = (False, w')" and "sound (fst w) (fst w')" "sy_terminated (fst w')"
      then show ?thesis
        using less.prems live by (subst run_loop.simps) (auto simp: sound_def)
    next
      fix w6 assume st: "step ops w = step_idle ops w6" and w6: "sound (fst w) (fst w6)" "next_epoch (fst w6) = None"
        "sched_inv (fst w6)" "\<not> sy_terminated (fst w6)" "settled (fst w6)"
      have "\<not> completed (fst w6)" using w6(1) less.prems(2) by (simp add: sound_def)
      note idle = step_idle_completed [OF w6(2,5) this, of ops]
      have "run_loop ops w = Some (snd (step ops w))"
        using live idle st by (subst run_loop.simps) simp
      moreover have "sy_terminated (fst (snd (step ops w)))"
        using adv idle st by (simp add: advanced_def)
      ultimately show ?thesis using idle st w6(1) by (auto simp: sound_def same_limits_def)
    next
      fix w' assume st: "step ops w = (True, w')" and sw: "sound (fst w) (fst w')"
      have nc: "\<not> completed (fst w')" using sw less.prems(2) by (simp add: sound_def)
      have "sched_inv (fst w')" "sy_epoch (fst w) < sy_epoch (fst w')"
        using adv st by (simp_all add: advanced_def)
      moreover from this have "2 ^ 96 - epoch_rank (sy_epoch (fst w')) < 2 ^ 96 - epoch_rank (sy_epoch (fst w))"
        using epoch_rank_bound [of "sy_epoch (fst w)"]
          epoch_rank_less [of "sy_epoch (fst w)" "sy_epoch (fst w')"] by simp
      ultimately obtain w'' where "run_loop ops w' = Some w''" "sy_terminated (fst w'')"
        "same_limits (fst w') (fst w'')" "capped (fst w') \<longrightarrow> capped (fst w'')" "completed (fst w'') \<longrightarrow> nothing_left ops w''"
        using less.hyps [of w'] nc by blast
      with st sw live show ?thesis by (subst run_loop.simps) (auto simp: sound_def same_limits_def)
    qed
  qed
qed

end

section \<open>Configured systems\<close>

text \<open>
  The systems that a generated \<open>main\<close> can hand to \<open>run\<close>: a new system after any sequence of
  public configuration and scheduling calls, in any order and with any arguments, failed calls
  included. The store may change between calls.
\<close>

inductive configured :: "'h object_ops \<Rightarrow> sim_system \<Rightarrow> bool" for ops where
  cfg_new: "configured ops (newSystem nm self rootp)"
| cfg_tree: "configured ops s \<Longrightarrow> configured ops (s\<lparr>sy_root := tree\<rparr>)"
| cfg_register: "configured ops s \<Longrightarrow> configured ops (registerObject ops obj h s)"
| cfg_dispatch: "configured ops s \<Longrightarrow> configured ops (snd (setDispatchTable ops rows h s))"
| cfg_activation: "configured ops s \<Longrightarrow> configured ops (snd (setActivationPlan offsets targets s))"
| cfg_capacity: "configured ops s \<Longrightarrow> configured ops (snd (setEventQueueCapacity capacity s))"
| cfg_domains: "configured ops s \<Longrightarrow> configured ops (snd (setTimeDomains domains s))"
| cfg_window: "configured ops s \<Longrightarrow> configured ops (snd (setDeadlockWindow window s))"
| cfg_cycles: "configured ops s \<Longrightarrow> configured ops (snd (setMaxDomainCycles cycles s))"
| cfg_limits: "configured ops s \<Longrightarrow> configured ops (snd (setRuntimeLimits limits s))"
| cfg_ticks: "configured ops s \<Longrightarrow> configured ops (setMaxTicks m s)"
| cfg_events: "configured ops s \<Longrightarrow> configured ops (setMaxEvents m s)"
| cfg_records: "configured ops s \<Longrightarrow> configured ops (setMaxTraceRecords m s)"
| cfg_work: "configured ops s \<Longrightarrow> configured ops (snd (scheduleWork i e s))"
| cfg_event: "configured ops s \<Longrightarrow> configured ops (snd (scheduleEvent event s))"

text \<open>What they have in common.\<close>

definition zero_cycles :: "sim_system \<Rightarrow> bool" where
  "zero_cycles s \<longleftrightarrow> ordered (sy_domainCycles s) \<and> 
     (\<forall>nm c. map_of (sy_domainCycles s) nm = Some c \<longrightarrow> c = 0)"

definition pristine :: "sim_system \<Rightarrow> bool" where
  "pristine s \<longleftrightarrow> sched_inv s \<and> sy_epoch s = epoch0 \<and> \<not> completed s \<and>
     sy_committedEventCount s = 0 \<and> zero_cycles s"

definition pristine_part where
  "pristine_part s = (sched_core s, sy_committedEventCount s, sy_domainCycles s,
     tr_classification (sy_result s) = Completed)"

lemma pristine_cong: "pristine_part t = pristine_part s \<Longrightarrow> pristine t = pristine s"
  using sched_core_cong [of t s]
  by (auto simp: pristine_def pristine_part_def zero_cycles_def completed_def)

lemma pristine_fail: "pristine s \<Longrightarrow> pristine (snd (sys_fail c m s))"
  using sched_core_cong [OF sched_core_fail [of c m s]]
  by (simp add: pristine_def zero_cycles_def completed_def sys_fail_def)

lemma pristine_capped: "pristine s \<Longrightarrow> capped s"
  unfolding pristine_def capped_def zero_cycles_def by (metis word_zero_le)

lemma pristine_new: "pristine (newSystem nm self rootp)"
  by (simp add: pristine_def sched_inv_def zero_cycles_def completed_def newSystem_def queued_events_def
      newEventQueue_def eq_inv_def empty_termination_result_def epoch0_def kMaxDeltasPerTick_def)

lemma zero_start:
  fixes m :: "(string \<times> u64) list"
  assumes "ordered m" "\<forall>nm c. map_of m nm = Some c \<longrightarrow> c = 0"
  shows "ordered (fold (\<lambda>(nm, d) m. map_emplace nm 0 m) ds m) \<and>
    (\<forall>nm c. map_of (fold (\<lambda>(nm, d) m. map_emplace nm 0 m) ds m) nm = Some c \<longrightarrow> c = 0)"
  using assms
proof (induction ds arbitrary: m)
  case (Cons d ds)
  have "\<forall>nm c. map_of (map_emplace (fst d) 0 m) nm = Some c \<longrightarrow> c = 0"
    using Cons.prems by (auto simp: map_emplace_def map_of_map_put split: option.split)
  with Cons.IH [of "map_emplace (fst d) 0 m"] Cons.prems(1) show ?case by (simp add: case_prod_beta)
qed simp

lemma pristine_capacity: "pristine s \<Longrightarrow> pristine (snd (setEventQueueCapacity c s))"
proof -
  assume p: "pristine s"
  obtain ok q where q: "eq_setCapacity c (sy_eventQueue s) = (ok, q)" by fastforce
  have inv: "sched_inv s" using p by (simp add: pristine_def)
  then have "eq_inv q" using eq_inv_setCapacity [of "sy_eventQueue s" c] q by (simp add: sched_inv_def)
  moreover have "eq_committed q = eq_committed (sy_eventQueue s)" "eq_pushProposals q = eq_pushProposals (sy_eventQueue s)"
    using q by (auto simp: eq_setCapacity_def split: if_splits)
  ultimately have "sched_inv (s\<lparr>sy_eventQueue := q\<rparr>)"
    using inv by (simp add: sched_inv_def queued_events_def)
  then have "pristine (s\<lparr>sy_eventQueue := q\<rparr>)"
    using p by (simp add: pristine_def zero_cycles_def completed_def)
  with p q show ?thesis
    by (cases ok) (simp_all add: setEventQueueCapacity_def pristine_fail)
qed

lemma pristine_work: "pristine s \<Longrightarrow> pristine (snd (scheduleWork i e s))"
  using sched_inv_scheduleWork [of s i e]
  by (auto simp: pristine_def zero_cycles_def completed_def scheduleWork_def sys_fail_def Let_def)

lemma pristine_event: "pristine s \<Longrightarrow> pristine (snd (scheduleEvent e s))"
  using sched_inv_scheduleEvent [of s e]
  by (auto simp: pristine_def zero_cycles_def completed_def scheduleEvent_def sys_fail_def Let_def
      split: prod.splits bool.splits)

lemma pristine_window: "pristine s \<Longrightarrow> pristine (snd (setDeadlockWindow x s))"
  by (simp add: setDeadlockWindow_def pristine_fail
      pristine_cong [of "s\<lparr>sy_deadlockWindow := x, sy_lastProgressTick := t\<rparr>" s for t]
      pristine_part_def sched_core_def)

lemma pristine_cycles: "pristine s \<Longrightarrow> pristine (snd (setMaxDomainCycles x s))"
  by (simp add: setMaxDomainCycles_def pristine_fail pristine_cong [of "s\<lparr>sy_maxDomainCycles := x\<rparr>" s]
      pristine_part_def sched_core_def)

lemma pristine_ticks: "pristine (s\<lparr>sy_maxTicks := x\<rparr>) = pristine s"
  by (rule pristine_cong) (simp add: pristine_part_def sched_core_def)

lemma pristine_limits: "pristine s \<Longrightarrow> pristine (snd (setRuntimeLimits l s))"
proof -
  assume p: "pristine s"
  obtain ok1 s1 where r1: "setDeadlockWindow (rl_deadlockWindow l) s = (ok1, s1)" by fastforce
  obtain ok2 s2 where r2: "setMaxDomainCycles (rl_maxDomainCycles l) s1 = (ok2, s2)" by fastforce
  have "pristine s1" using pristine_window [OF p, of "rl_deadlockWindow l"] r1 by simp
  moreover from pristine_cycles [OF this, of "rl_maxDomainCycles l"] r2 have "pristine s2" by simp
  ultimately show ?thesis using p
    by (cases ok1; cases ok2) (simp_all add: setRuntimeLimits_def pristine_fail pristine_ticks r1 r2)
qed

lemma pristine_domains: "pristine s \<Longrightarrow> pristine (snd (setTimeDomains ds s))"
proof -
  assume p: "pristine s"
  have "pristine (s\<lparr>sy_timeDomains := c, sy_domainCycles := fold (\<lambda>(nm, d) m. map_emplace nm 0 m) c []\<rparr>)" for c
    using p zero_start [of "[]" c] sched_core_cong(1) [of
        "s\<lparr>sy_timeDomains := c, sy_domainCycles := fold (\<lambda>(nm, d) m. map_emplace nm 0 m) c []\<rparr>" s]
    by (simp add: pristine_def zero_cycles_def completed_def sched_core_def)
  with p show ?thesis by (simp add: setTimeDomains_def pristine_fail split: option.split)
qed

lemma configured_pristine: "configured ops s \<Longrightarrow> pristine s"
proof (induction rule: configured.induct)
  case (cfg_register s obj h)
  then show ?case
    by (simp add: registerObject_def Let_def pristine_fail pristine_part_def sched_core_def
        pristine_cong [of "s\<lparr>sy_objects := x, sy_preflightValidated := b\<rparr>" s for x b] split: option.split)
next
  case (cfg_dispatch s rows h)
  then show ?case
    by (simp add: setDispatchTable_def pristine_fail pristine_part_def sched_core_def
        pristine_cong [of "s\<lparr>sy_dispatch := x, sy_activation := a, sy_preflightValidated := b\<rparr>" s for x a b])
next
  case (cfg_activation s offsets targets)
  then show ?case
    by (simp add: setActivationPlan_def Let_def pristine_fail pristine_part_def sched_core_def
        pristine_cong [of "s\<lparr>sy_activation := a\<rparr>" s for a])
next
  case (cfg_tree s tree)
  then show ?case by (simp add: pristine_cong [of "s\<lparr>sy_root := tree\<rparr>" s] pristine_part_def sched_core_def)
next
  case (cfg_events s m)
  then show ?case
    by (simp add: setMaxEvents_def pristine_cong [of "s\<lparr>sy_maxEvents := m\<rparr>" s] pristine_part_def sched_core_def)
next
  case (cfg_records s m)
  then show ?case
    by (simp add: setMaxTraceRecords_def pristine_cong [of "s\<lparr>sy_maxTraceRecords := m\<rparr>" s]
        pristine_part_def sched_core_def)
qed (simp_all add: pristine_new pristine_capacity pristine_domains pristine_window pristine_cycles
    pristine_limits pristine_ticks setMaxTicks_def pristine_work pristine_event)

lemma start_pristine: "pristine s \<Longrightarrow> pristine (fst (run_start ops (s, h)))"
proof -
  assume p: "pristine s"
  have "pristine (fold (start_object ops h) ps t)" if "pristine t" for ps t
    using that by (induction ps arbitrary: t) (simp_all add: start_object_def pristine_work)
  moreover have "s\<lparr>sy_epoch := epoch0\<rparr> = s" using p by (simp add: pristine_def)
  ultimately show ?thesis using p by (simp add: run_start_def Let_def)
qed

lemma summarize_result: "sy_result (fold (summarize_object ops h) ps s) = sy_result s"
  by (induction ps arbitrary: s) (simp_all add: summarize_object_def Let_def)

lemma refresh_result:
  fixes ops :: "'h object_ops" and s h
  defines "r \<equiv> sy_result (fst (refreshRuntimeSummary ops (s, h)))"
  shows "tr_classification r = tr_classification (sy_result s)"
    and "tr_finalEpoch r = tr_finalEpoch (sy_result s)"
    and "tr_committedEventCount r = tr_committedEventCount (sy_result s)"
    and "tr_domainCycles r = tr_domainCycles (sy_result s)"
  unfolding r_def by (simp_all add: refreshRuntimeSummary_def Let_def summarize_result)

text \<open>
  The final report \<open>r\<close> of a run in which the system ended in \<open>w\<close>: the caps of the configured
  system \<open>s\<close> were kept, and a completed run left nothing.
\<close>

definition faithful_report :: "'h object_ops \<Rightarrow> sim_system \<Rightarrow> termination_result \<Rightarrow> 'h world \<Rightarrow> bool" where
  "faithful_report ops s r w \<longleftrightarrow> sy_terminated (fst w) \<and> tr_finalEpoch r = sy_epoch (fst w) \<and>
     tr_committedEventCount r \<le> sy_maxEvents s \<and>
     (\<forall>nm c limit. map_of (tr_domainCycles r) nm = Some c \<longrightarrow>
        map_of (sy_maxDomainCycles s) nm = Some limit \<longrightarrow> c \<le> limit) \<and>
     (tr_classification r = Completed \<longrightarrow> nothing_left ops w)"

lemma run_finish_report:
  assumes "sy_terminated (fst w)" "same_limits s (fst w)" "capped (fst w)"
    "completed (fst w) \<longrightarrow> nothing_left ops w"
  shows "faithful_report ops s (fst (run_finish ops w)) (snd (run_finish ops w))"
proof -
  obtain t h where w: "w = (t, h)" by fastforce
  define t1 where "t1 = t\<lparr>sy_result := (sy_result t)\<lparr>tr_finalEpoch := sy_epoch t,
     tr_committedEventCount := sy_committedEventCount t, tr_domainCycles := sy_domainCycles t\<rparr>\<rparr>"
  have fin: "run_finish ops (t, h) = (sy_result (fst (refreshRuntimeSummary ops (t1, h))), refreshRuntimeSummary ops (t1, h))"
    by (simp add: run_finish_def Let_def t1_def)
  have "nothing_left ops (t1, h) = nothing_left ops (t, h)"
    by (rule nothing_left_cong) (simp_all add: t1_def)
  moreover have "sy_terminated (fst (refreshRuntimeSummary ops (t1, h))) = sy_terminated t"
    using refresh_flags [of ops "(t1, h)"] by (simp add: run_flags_def t1_def)
  moreover have "sy_epoch (fst (refreshRuntimeSummary ops (t1, h))) = sy_epoch t"
    by (simp add: refresh_simps t1_def)
  ultimately show ?thesis
    using assms unfolding faithful_report_def w fin fst_conv snd_conv refresh_result nothing_left_refresh
    by (auto simp: t1_def same_limits_def capped_def completed_def)
qed

context runtime_objects
begin

lemma run_verdict_pristine:
  assumes p: "pristine s"
  shows "\<exists>r w. run ops (s, h) = Some (r, w) \<and> faithful_report ops s r w"
proof -
  have start: "pristine (fst (run_start ops (s, h)))" by (rule start_pristine [OF p])
  have limits: "same_limits s (fst (run_start ops (s, h)))"
  proof -
    have "same_limits t (fold (start_object ops h) ps t)" for ps t
    proof (induction ps arbitrary: t)
      case (Cons q ps)
      have "same_limits t (start_object ops h q t)"
        using sound_scheduleWork [of t "ob_id ops q h" "sy_epoch t"] by (simp add: start_object_def sound_def same_limits_def)
      with Cons.IH [of "start_object ops h q t"] show ?case by (simp add: same_limits_def)
    qed (simp add: same_limits_def)
    then show ?thesis by (simp add: run_start_def Let_def same_limits_def)
  qed
  obtain w where w: "run_loop ops (run_start ops (s, h)) = Some w" "sy_terminated (fst w)"
    "same_limits (fst (run_start ops (s, h))) (fst w)" "capped (fst w)" "completed (fst w) \<longrightarrow> nothing_left ops w"
    using run_loop_verdict [of "run_start ops (s, h)"] start pristine_capped [OF start] by (auto simp: pristine_def)
  have "same_limits s (fst w)" using limits w(3) by (simp add: same_limits_def)
  from run_finish_report [OF w(2) this w(4,5)] show ?thesis
    by (simp add: run_def w(1)) (metis surj_pair prod.sel)
qed

lemmas run_verdict = run_verdict_pristine [OF configured_pristine [of ops]]

end

section \<open>Runs of the runtime library\<close>

declare run_loop.simps [code]

text \<open>
  Small systems for the witnesses. \<open>demo_model\<close> has one generated process that terminates in its
  first step; \<open>demo_store\<close> holds it at address 2 and an idle sink at address 3.
\<close>

definition demo_model :: "(nat, nat, unit) model" where
  "demo_model = \<lparr>md_code = (\<lambda>p pc e committed proposed. Finish terminateStep proposed),
     md_policy = (\<lambda>p v. v), md_decoder = (\<lambda>p r. None)\<rparr>"

definition demo_store :: "(nat, nat, unit) store" where
  "demo_store p =
     (if p = 2 then OProcess (newProcess ''p'' 0 None 0 4) 0 0
      else if p = 3 then OSink (newSink ''s'' 0 None None)
      else OModule \<lparr>so_kind = KModule, so_name = ''m'', so_id = kInvalidObjectId, so_path = [],
        so_parent = None, so_observationSink = None, so_runtimeFailureCode = []\<rparr>)"

definition demo_system :: sim_system where
  "demo_system = setMaxEvents 5 (registerObject (gfsim_ops demo_model) (Some 2) demo_store (newSystem ''top'' 0 1))"

lemma demo_configured: "configured (gfsim_ops demo_model) demo_system"
  by (simp add: demo_system_def configured.intros)

lemma demo_run:
  "map_option (\<lambda>x. (tr_classification (fst x), map fst (sy_lastCommitTick (fst (snd x)))))
     (run (gfsim_ops demo_model) (demo_system, demo_store)) = Some (Completed, [0])"
  by code_simp



text \<open>
  C5: A run keeps the declared caps: it never commits more events than \<open>maxEvents\<close>, and no time
  domain runs more cycles than its declared limit.
\<close>

theorem run_respects_caps:
  assumes "configured (gfsim_ops m) s" and "run (gfsim_ops m) (s, h) = Some (r, w)"
  shows "tr_committedEventCount r \<le> sy_maxEvents s \<and>
    (\<forall>nm c limit. map_of (tr_domainCycles r) nm = Some c \<longrightarrow>
       map_of (sy_maxDomainCycles s) nm = Some limit \<longrightarrow> c \<le> limit)"
  using gfsim.run_verdict [OF assms(1), of h] assms(2) unfolding faithful_report_def by auto

definition clocked_system :: sim_system where
  "clocked_system = snd (setRuntimeLimits \<lparr>rl_deadlockWindow = None, rl_maxTicks = None, rl_maxDomainCycles = [(''c'', 1)]\<rparr>
     (snd (setTimeDomains [\<lparr>td_name = ''c'', td_period = 1, td_phase = 0, td_tickScale = 1\<rparr>]
       demo_system)))"

lemma clocked_configured: "configured (gfsim_ops demo_model) clocked_system"
  unfolding clocked_system_def by (intro cfg_limits cfg_domains demo_configured)

lemma clocked_facts:
  "map_option (\<lambda>x. map_of (tr_domainCycles (fst x)) ''c'') (run (gfsim_ops demo_model) (clocked_system, demo_store)) = Some (Some 1)"
  "sy_maxEvents clocked_system = 5" "map_of (sy_maxDomainCycles clocked_system) ''c'' = Some 1"
  by code_simp+

theorem run_respects_caps_witness:
  "\<exists>r w. run (gfsim_ops demo_model) (clocked_system, demo_store) = Some (r, w) \<and>
     tr_committedEventCount r \<le> 5 \<and> (\<exists>c. map_of (tr_domainCycles r) ''c'' = Some c \<and> c \<le> 1)"
proof -
  obtain r w where r: "run (gfsim_ops demo_model) (clocked_system, demo_store) = Some (r, w)"
    and c: "map_of (tr_domainCycles r) ''c'' = Some 1"
    using clocked_facts(1) by auto
  show ?thesis
    using run_respects_caps [OF clocked_configured r] r c clocked_facts(2,3) by auto
qed

text \<open>
  C2: A run reported as completed left nothing behind: no scheduled work, no event committed or
  proposed, and every runtime object quiescent at the final epoch.
\<close>

theorem completed_run_is_drained:
  assumes "configured (gfsim_ops m) s" and "run (gfsim_ops m) (s, h) = Some (r, w)"
    and "tr_classification r = Completed"
  shows "sy_scheduledWork (fst w) = [] \<and> queued_events (fst w) = [] \<and>
    (\<forall>p \<in> set (runtimeObjects (gfsim_ops m) w).
       ros_quiescent (ob_runtimeState (gfsim_ops m) p (sy_epoch (fst w)) (snd w)))"
  using gfsim.run_verdict [OF assms(1), of h] assms(2,3)
  unfolding faithful_report_def nothing_left_def all_quiescent_def queued_events_def by auto

theorem completed_run_is_drained_witness:
  "\<exists>r w. run (gfsim_ops demo_model) (demo_system, demo_store) = Some (r, w) \<and>
     sy_scheduledWork (fst w) = [] \<and> queued_events (fst w) = [] \<and>
     (\<forall>p \<in> set (runtimeObjects (gfsim_ops demo_model) w).
       ros_quiescent (ob_runtimeState (gfsim_ops demo_model) p (sy_epoch (fst w)) (snd w)))"
proof -
  obtain r w where r: "run (gfsim_ops demo_model) (demo_system, demo_store) = Some (r, w)"
    and c: "tr_classification r = Completed"
    using demo_run by auto
  from completed_run_is_drained [OF demo_configured r c] r show ?thesis by blast
qed

section \<open>Steps, epochs and commits\<close>

text \<open>The states of a run between two steps.\<close>

inductive run_state :: "'h object_ops \<Rightarrow> 'h world \<Rightarrow> 'h world \<Rightarrow> bool" for ops w0 where
  run_begins: "run_state ops w0 (run_start ops w0)"
| run_steps: "run_state ops w0 w \<Longrightarrow> step ops w = (True, w') \<Longrightarrow> run_state ops w0 w'"

context runtime_objects
begin

lemma run_state_inv:
  assumes "run_state ops (s, h) w" and "configured ops s"
  shows "sched_inv (fst w)"
  using assms
proof (induction rule: run_state.induct)
  case run_begins
  with start_pristine [OF configured_pristine, of ops s ops h] show ?case by (simp add: pristine_def)
next
  case (run_steps w w')
  from step_advanced [OF run_steps.IH] run_steps show ?case by (simp add: advanced_def)
qed

end

text \<open>
  C3: In every state of a run all scheduled work and all queued events lie at or after the current
  epoch, below the delta limit, in order, and with unique sequence numbers. From there a step
  either moves to a strictly later epoch before \<open>maxTicks\<close> with the system still running, or it
  ends the run.
\<close>

theorem step_moves_forward_or_ends:
  assumes "configured (gfsim_ops m) s" and "run_state (gfsim_ops m) (s, h) w"
    and "step (gfsim_ops m) w = (ok, w')"
  shows "sched_inv (fst w) \<and>
    (if ok then sy_epoch (fst w) < sy_epoch (fst w') \<and> ep_time (sy_epoch (fst w')) < sy_maxTicks (fst w) \<and>
       sy_maxTicks (fst w') = sy_maxTicks (fst w) \<and> \<not> sy_terminated (fst w')
     else sy_terminated (fst w'))"
  using gfsim.step_advanced [OF gfsim.run_state_inv [OF assms(2,1)], of m] gfsim.run_state_inv [OF assms(2,1)] assms(3)
  by (cases ok) (simp_all add: advanced_def)

text \<open>Systems with the sink of \<open>demo_store\<close>, scheduled for a given epoch.\<close>

definition sink_system :: "epoch \<Rightarrow> sim_system" where
  "sink_system e = snd (scheduleWork 0 e
     (registerObject (gfsim_ops demo_model) (Some 3) demo_store (newSystem ''top'' 0 1)))"

lemma sink_configured: "configured (gfsim_ops demo_model) (sink_system e)"
  unfolding sink_system_def by (intro configured.intros)

lemma sink_step: "fst (step (gfsim_ops demo_model) (run_start (gfsim_ops demo_model) (sink_system (Epoch 3 0), demo_store)))"
  by code_simp

theorem step_moves_forward_or_ends_witness:
  "\<exists>w w'. w = run_start (gfsim_ops demo_model) (sink_system (Epoch 3 0), demo_store) \<and>
     step (gfsim_ops demo_model) w = (True, w') \<and> sched_inv (fst w) \<and> sy_epoch (fst w) < sy_epoch (fst w')"
proof -
  let ?w = "run_start (gfsim_ops demo_model) (sink_system (Epoch 3 0), demo_store)"
  obtain w' where st: "step (gfsim_ops demo_model) ?w = (True, w')"
    using sink_step by (cases "step (gfsim_ops demo_model) ?w") auto
  from step_moves_forward_or_ends [OF sink_configured run_begins st] st show ?thesis
    by (intro exI [of _ ?w] exI [of _ w']) simp
qed

text \<open>
  The proposals of an epoch: the world after Work and arbitration of all scheduled objects and
  their commit participants, with the objects that take part in the commit. \<open>None\<close> when a phase
  terminated the system.
\<close>

definition epoch_proposals :: "'h object_ops \<Rightarrow> 'h world \<Rightarrow> (object_id list \<times> 'h world) option" where
  "epoch_proposals ops w =
     (let (ids, s1) = take_current_work (fst w);
          (ok1, w1) = phase_loop (ob_doWork ops) ids (s1\<lparr>sy_executingEpoch := True, sy_commitParticipants := []\<rparr>, snd w);
          xs = fold set_insert (sy_commitParticipants (fst w1)) ids;
          (ok2, w2) = phase_loop (ob_doArbitrate ops) xs w1
      in if ok1 \<and> ok2 then Some (xs, w2) else None)"

lemma step_execute_proposed:
  assumes "epoch_proposals ops w = Some (xs, w2)"
  shows "step_execute ops w = (case validate_loop ops xs w2 of
     (False, w3) \<Rightarrow> (False, [], w3)
   | (True, w3) \<Rightarrow> and_then (commit_loop ops xs [] w3) (\<lambda>(sources, s4, h4). (True, sources, commit_events s4, h4)))"
proof -
  obtain ids s1 where t: "take_current_work (fst w) = (ids, s1)" by fastforce
  obtain ok1 w1 where p1: "phase_loop (ob_doWork ops) ids
      (s1\<lparr>sy_executingEpoch := True, sy_commitParticipants := []\<rparr>, snd w) = (ok1, w1)" by (metis surj_pair)
  let ?x = "fold set_insert (sy_commitParticipants (fst w1)) ids"
  obtain ok2 w2' where p2: "phase_loop (ob_doArbitrate ops) ?x w1 = (ok2, w2')" by (metis surj_pair)
  have "ok1" "ok2" and eqs: "xs = ?x" "w2 = w2'"
    using assms by (auto simp: epoch_proposals_def t p1 p2 Let_def split: if_splits)
  then show ?thesis
    using t p1 p2 unfolding eqs by (simp add: step_execute_def case_prod_beta Let_def)
qed

lemma validate_loop_verdict:
  assumes "validate_loop ops ids (s, h) = (ok, w)"
  shows "snd w = h" and "ok \<longleftrightarrow> (\<forall>i \<in> set ids. \<forall>p. sys_lookup i s = Some p \<longrightarrow> ob_validatePendingCommit ops p h)"
    and "ok \<Longrightarrow> w = (s, h)"
    and "\<not> ok \<Longrightarrow> sy_terminated (fst w) \<and> tr_classification (sy_result (fst w)) = Failed \<and>
      sy_observations (fst w) = sy_observations s \<and> sy_eventQueue (fst w) = sy_eventQueue s"
  using assms
  by (induction ids) (auto simp: sys_fail_def split: option.splits if_splits)

text \<open>
  C4: An epoch is all or nothing. When one of its participants is not fit to commit, the epoch
  commits nothing: no object has moved from the state its proposals were made in, no observation
  and no event is published, and the run fails.
\<close>

theorem invalid_epoch_commits_nothing:
  assumes "epoch_proposals ops w = Some (xs, s2, h2)" and "i \<in> set xs"
    and "sys_lookup i s2 = Some p" and "\<not> ob_validatePendingCommit ops p h2"
  shows "\<exists>s'. step_execute ops w = (False, [], s', h2) \<and> sy_terminated s' \<and>
    tr_classification (sy_result s') = Failed \<and>
    sy_observations s' = sy_observations s2 \<and> sy_eventQueue s' = sy_eventQueue s2"
proof -
  obtain ok s' h' where v: "validate_loop ops xs (s2, h2) = (ok, s', h')" by (metis prod_cases3)
  note verdict = validate_loop_verdict [OF v]
  have "\<not> ok" using verdict(2) assms(2-4) by blast
  with verdict(1,4) show ?thesis
    by (auto simp: step_execute_proposed [OF assms(1)] v)
qed

text \<open>The sink of \<open>demo_store\<close> after it reported a failure.\<close>

definition broken_store :: "(nat, nat, unit) store" where
  "broken_store = demo_store(3 := OSink ((newSink ''s'' 0 None None)\<lparr>so_runtimeFailureCode := ''overflow''\<rparr>))"

lemma broken_facts:
  "map_option fst (epoch_proposals (gfsim_ops demo_model) (sink_system epoch0, broken_store)) = Some [0]"
  "map_option (\<lambda>x. sys_lookup 0 (fst (snd x))) (epoch_proposals (gfsim_ops demo_model) (sink_system epoch0, broken_store)) = Some (Some 3)"
  "map_option (\<lambda>x. ob_validatePendingCommit (gfsim_ops demo_model) 3 (snd (snd x)))
     (epoch_proposals (gfsim_ops demo_model) (sink_system epoch0, broken_store)) = Some False"
  by code_simp+

theorem invalid_epoch_commits_nothing_witness:
  "\<exists>s2 h2 s'. epoch_proposals (gfsim_ops demo_model) (sink_system epoch0, broken_store) = Some ([0], s2, h2) \<and>
     step_execute (gfsim_ops demo_model) (sink_system epoch0, broken_store) = (False, [], s', h2) \<and> sy_terminated s'"
proof -
  obtain s2 h2 where e: "epoch_proposals (gfsim_ops demo_model) (sink_system epoch0, broken_store) = Some ([0], s2, h2)"
    using broken_facts(1) by auto
  have "sys_lookup 0 s2 = Some 3" "\<not> ob_validatePendingCommit (gfsim_ops demo_model) 3 h2"
    using broken_facts(2,3) e by auto
  from invalid_epoch_commits_nothing [OF e _ this] e show ?thesis by auto
qed

lemma map_of_put_same [simp]: "map_of (map_put k v m) k = Some v"
  by (induction m) auto


text \<open>The sink of \<open>demo_store\<close> with a value to commit, in a tick it already committed in.\<close>

definition full_store :: "(nat, nat, unit) store" where
  "full_store = demo_store(3 := OSink (sink_receive 7 (newSink ''s'' 0 None None)))"

definition late_system :: sim_system where
  "late_system = (sink_system epoch0)\<lparr>sy_lastCommitTick := [(0, 0)]\<rparr>"

lemma full_facts:
  "will_commit (gfsim_ops demo_model) 0 (late_system, full_store)" "sys_lookup 0 late_system = Some 3"
  "ob_kind (gfsim_ops demo_model) 3 full_store = KSink"
  "map_of (sy_lastCommitTick late_system) 0 = Some (ep_time (sy_epoch late_system))"
  by code_simp+



lemma reset_pristine: "pristine (fst (sys_reset ops w))"
  using zero_start [of "[]" "sy_timeDomains (fst w)"]
  by (simp add: sys_reset_def Let_def case_prod_beta pristine_def sched_inv_def zero_cycles_def completed_def
      queued_events_def eq_reset_def eq_inv_def empty_termination_result_def epoch0_def kMaxDeltasPerTick_def)


end
