(* ===== verification/Json_Canonical.thy ===== *)
theory Json_Canonical
  imports Gfsim_Core
begin

text \<open>
  Canonical JSON (\<open>lib/Bindings/Binding.cpp\<close>): the resource preflight of a constructed JSON value
  and its RFC 8785 emission, which trace documents, binding records and manifests are
  fingerprinted with. A JSON value is the LLVM DOM; the members of an object are listed in the
  iteration order of its hash table, which the library does not define. A number is an abstract
  value: its conversion to binary64 and the shortest decimal text of \<open>std::to_chars\<close> are the
  parameter record \<open>number_ops\<close>. Strings are byte sequences.

  The lemmas show that the preflight accepts exactly the values within the declared limits, that
  the size it returns is the length of the emitted text, that emission cannot fail after it, and
  that the emitted text does not depend on the iteration order of any object.
\<close>

unbundle bit_operations_syntax

section \<open>Results and values\<close>

text \<open>\<open>llvm::Expected\<close>: \<open>Inl\<close> carries the error text.\<close>

type_synonym 'a expected = "string + 'a"

definition next_if_ok :: "'a expected \<Rightarrow> ('a \<Rightarrow> 'b expected) \<Rightarrow> 'b expected" where
  "next_if_ok r f = (case r of Inl e \<Rightarrow> Inl e | Inr x \<Rightarrow> f x)"

lemma next_if_ok_simps [simp]:
  "next_if_ok (Inl e) f = Inl e" "next_if_ok (Inr x) f = f x"
  by (simp_all add: next_if_ok_def)

lemma next_if_ok_cong [fundef_cong]:
  "r = r' \<Longrightarrow> (\<And>x. r' = Inr x \<Longrightarrow> f x = g x) \<Longrightarrow> next_if_ok r f = next_if_ok r' g"
  by (cases r') simp_all

lemma next_if_ok_Inr: "next_if_ok r f = Inr y \<longleftrightarrow> (\<exists>x. r = Inr x \<and> f x = Inr y)"
  by (cases r) simp_all

definition jsonError :: "string \<Rightarrow> 'a expected" where
  "jsonError message = Inl (''ACLOWER-BINDING-JSON: '' @ message)"

lemma jsonError_not_Inr [simp]: "jsonError m \<noteq> Inr x" "Inr x \<noteq> jsonError m"
  by (simp_all add: jsonError_def)

lemma next_if_ok_error [simp]: "next_if_ok (jsonError m) f = jsonError m"
  by (simp add: jsonError_def)

lemma next_if_ok_assoc: "next_if_ok (next_if_ok r f) g = next_if_ok r (\<lambda>x. next_if_ok (f x) g)"
  by (cases r) simp_all

datatype 'n json = JNull | JBool bool | JNumber 'n | JString string
  | JArray "'n json list" | JObject "(string \<times> 'n json) list"

record json_limits =
  jl_maxInputBytes :: nat
  jl_maxDepth :: nat
  jl_maxStructuralWork :: nat
  jl_maxStringBytes :: nat
  jl_maxTotalStringBytes :: nat
  jl_maxArrayElements :: nat
  jl_maxObjectMembers :: nat

text \<open>Of a number: \<open>isfinite\<close>, \<open>signbit\<close>, comparison with zero and \<open>std::to_chars\<close>, \<open>None\<close> where it fails.\<close>

record 'n number_ops =
  no_finite :: "'n \<Rightarrow> bool"
  no_signbit :: "'n \<Rightarrow> bool"
  no_zero :: "'n \<Rightarrow> bool"
  no_to_chars :: "'n \<Rightarrow> string option"

section \<open>UTF-16 code units\<close>

abbreviation byte_of :: "char \<Rightarrow> nat" where
  "byte_of c \<equiv> of_char c"

text \<open>The lead byte: the bits it contributes and the length of the sequence.\<close>

definition utf8_lead :: "nat \<Rightarrow> (nat \<times> nat) option" where
  "utf8_lead first =
     (if first < 0x80 then Some (first, 1)
      else if first AND 0xe0 = 0xc0 then Some (first AND 0x1f, 2)
      else if first AND 0xf0 = 0xe0 then Some (first AND 0x0f, 3)
      else if first AND 0xf8 = 0xf0 then Some (first AND 0x07, 4)
      else None)"

fun utf8_tail :: "nat \<Rightarrow> char list \<Rightarrow> nat option" where
  "utf8_tail codePoint [] = Some codePoint"
| "utf8_tail codePoint (c # cs) =
     (if byte_of c AND 0xc0 \<noteq> 0x80 then None
      else utf8_tail (push_bit 6 codePoint OR (byte_of c AND 0x3f)) cs)"

definition scalar_ok :: "nat \<Rightarrow> nat \<Rightarrow> bool" where
  "scalar_ok cnt codePoint \<longleftrightarrow>
     \<not> ((cnt = 2 \<and> codePoint < 0x80) \<or> (cnt = 3 \<and> codePoint < 0x800) \<or>
        (cnt = 4 \<and> codePoint < 0x10000) \<or> codePoint > 0x10ffff \<or>
        (codePoint \<ge> 0xd800 \<and> codePoint \<le> 0xdfff))"

definition code_units :: "nat \<Rightarrow> nat list" where
  "code_units codePoint =
     (if codePoint \<le> 0xffff then [codePoint]
      else let rest = codePoint - 0x10000 in [0xd800 + drop_bit 10 rest, 0xdc00 + (rest AND 0x3ff)])"

lemma utf8_lead_count: "utf8_lead b = Some (bits, cnt) \<Longrightarrow> 1 \<le> cnt \<and> cnt \<le> 4"
  by (auto simp: utf8_lead_def split: if_splits)

function utf16Units :: "string \<Rightarrow> nat list expected" where
  "utf16Units [] = Inr []"
| "utf16Units (c # cs) =
     (case utf8_lead (byte_of c) of
        None \<Rightarrow> jsonError ''invalid UTF-8 lead byte''
      | Some (bits, cnt) \<Rightarrow>
          if cnt > length (c # cs) then jsonError ''truncated UTF-8 sequence''
          else case utf8_tail bits (take (cnt - 1) cs) of
            None \<Rightarrow> jsonError ''invalid UTF-8 continuation byte''
          | Some codePoint \<Rightarrow>
              if \<not> scalar_ok cnt codePoint then jsonError ''invalid Unicode scalar value''
              else next_if_ok (utf16Units (drop (cnt - 1) cs)) (\<lambda>units. Inr (code_units codePoint @ units)))"
  by pat_completeness auto
termination
  by (relation "measure length") auto

declare utf16Units.simps [simp del]

section \<open>Emission\<close>

definition hex_digit :: "nat \<Rightarrow> char" where
  "hex_digit n = ''0123456789abcdef'' ! n"

definition escape_byte :: "char \<Rightarrow> string" where
  "escape_byte c =
     (let b = byte_of c in
      if b = 0x22 then [CHR 0x5c, CHR 0x22]
      else if b = 0x5c then [CHR 0x5c, CHR 0x5c]
      else if b = 0x08 then [CHR 0x5c, CHR ''b'']
      else if b = 0x09 then [CHR 0x5c, CHR ''t'']
      else if b = 0x0a then [CHR 0x5c, CHR ''n'']
      else if b = 0x0c then [CHR 0x5c, CHR ''f'']
      else if b = 0x0d then [CHR 0x5c, CHR ''r'']
      else if b < 0x20 then CHR 0x5c # ''u00'' @ [hex_digit (drop_bit 4 b), hex_digit (b AND 0xf)]
      else [c])"

definition writeEscapedString :: "string \<Rightarrow> string expected" where
  "writeEscapedString s =
     next_if_ok (utf16Units s) (\<lambda>units. Inr (CHR 0x22 # concat (map escape_byte s) @ [CHR 0x22]))"

definition canonicalStringSize :: "string \<Rightarrow> nat expected" where
  "canonicalStringSize s =
     next_if_ok (utf16Units s) (\<lambda>units. Inr (fold (\<lambda>c size.
        let b = byte_of c in
        if b = 0x22 \<or> b = 0x5c \<or> b = 0x08 \<or> b = 0x09 \<or> b = 0x0a \<or> b = 0x0c \<or> b = 0x0d then size + 2
        else if b < 0x20 then size + 6
        else size + 1) s 2))"

text \<open>\<open>StringRef::split\<close> at the first occurrence of a character.\<close>

definition split_at :: "char \<Rightarrow> string \<Rightarrow> string \<times> string" where
  "split_at c s = (takeWhile (\<lambda>x. x \<noteq> c) s, drop 1 (dropWhile (\<lambda>x. x \<noteq> c) s))"

text \<open>\<open>getAsInteger(10, int)\<close>: \<open>None\<close> for a text that is not a number in range.\<close>

definition decimal_int :: "string \<Rightarrow> int option" where
  "decimal_int s =
     (let neg = (s \<noteq> [] \<and> hd s = CHR ''-''); ds = (if neg then tl s else s) in
      if ds = [] \<or> \<not> list_all (\<lambda>c. 48 \<le> byte_of c \<and> byte_of c \<le> 57) ds then None
      else let n = fold (\<lambda>c n. 10 * n + (int (byte_of c) - 48)) ds 0;
               v = (if neg then - n else n)
           in if v < - (2 ^ 31) \<or> v \<ge> 2 ^ 31 then None else Some v)"

definition explicit_exponent :: "string \<Rightarrow> int option" where
  "explicit_exponent exponentText =
     (if exponentText = [] then Some 0
      else
        let exponentNegative = (hd exponentText = CHR ''-'');
            ds1 = (if exponentNegative then tl exponentText else exponentText);
            ds2 = (if ds1 \<noteq> [] \<and> hd ds1 = CHR ''+'' then tl ds1 else ds1)
        in map_option (\<lambda>v. if exponentNegative then - v else v) (decimal_int ds2))"

text \<open>\<open>std::to_string\<close> of a signed number.\<close>

definition decimal_signed :: "int \<Rightarrow> string" where
  "decimal_signed v = (if v < 0 then CHR ''-'' # decimal (nat (- v)) else decimal (nat v))"

definition ecmascript_digits :: "string \<Rightarrow> int \<Rightarrow> string" where
  "ecmascript_digits digits scientificExponent =
     (if 0 \<le> scientificExponent \<and> scientificExponent < 21
      then let integerDigits = nat scientificExponent + 1 in
        if length digits \<le> integerDigits
        then digits @ replicate (integerDigits - length digits) CHR ''0''
        else take integerDigits digits @ [CHR ''.''] @ drop integerDigits digits
      else if -6 \<le> scientificExponent \<and> scientificExponent < 0
      then ''0.'' @ replicate (nat (- scientificExponent - 1)) CHR ''0'' @ digits
      else [hd digits] @ (if length digits > 1 then CHR ''.'' # drop 1 digits else []) @
        [CHR ''e''] @ (if scientificExponent \<ge> 0 then [CHR ''+''] else []) @ decimal_signed scientificExponent)"

definition ecmascriptNumber :: "'n number_ops \<Rightarrow> 'n \<Rightarrow> string expected" where
  "ecmascriptNumber nops value =
     (if \<not> no_finite nops value then jsonError ''non-finite number cannot be canonicalized''
      else if no_zero nops value then
        (if no_signbit nops value then jsonError ''negative zero cannot be canonicalized'' else Inr ''0'')
      else case no_to_chars nops value of
        None \<Rightarrow> jsonError ''binary64 conversion failed''
      | Some shortest \<Rightarrow>
        let negative = (hd shortest = CHR ''-'');
            magnitude = (if negative then tl shortest else shortest);
            (mantissa, exponentText) =
              (let (m, e) = split_at CHR ''e'' magnitude in
               if e = [] then split_at CHR ''E'' magnitude else (m, e))
        in case explicit_exponent exponentText of
             None \<Rightarrow> jsonError ''binary64 exponent conversion failed''
           | Some explicitExponent \<Rightarrow>
               let point = length (takeWhile (\<lambda>c. c \<noteq> CHR ''.'') mantissa);
                   digits = filter (\<lambda>c. c \<noteq> CHR ''.'') mantissa;
                   firstNonZero = length (takeWhile (\<lambda>c. c = CHR ''0'') digits)
               in if firstNonZero = length digits then Inr ''0''
                  else let scientificExponent = explicitExponent + int point - int firstNonZero - 1;
                           kept = drop firstNonZero digits;
                           kept' = hd kept # rev (dropWhile (\<lambda>c. c = CHR ''0'') (rev (tl kept)))
                       in Inr ((if negative then ''-'' else []) @ ecmascript_digits kept' scientificExponent))"

text \<open>
  The members of an object are written in the order of the UTF-16 code units of their names. The
  texts of the members are pure values, so they are computed first and put in order; the first
  error in that order is the one reported. An error among the names is reported before any.
\<close>

fun join_with_commas :: "string list \<Rightarrow> string" where
  "join_with_commas [] = []"
| "join_with_commas [x] = x"
| "join_with_commas (x # y # xs) = x @ CHR '','' # join_with_commas (y # xs)"

fun all_ok :: "'a expected list \<Rightarrow> 'a list expected" where
  "all_ok [] = Inr []"
| "all_ok (r # rs) = next_if_ok r (\<lambda>x. next_if_ok (all_ok rs) (\<lambda>xs. Inr (x # xs)))"

definition write_array :: "string expected list \<Rightarrow> string expected" where
  "write_array rs = next_if_ok (all_ok rs) (\<lambda>texts. Inr ([CHR ''[''] @ join_with_commas texts @ [CHR '']'']))"

definition write_member :: "string \<times> string expected \<Rightarrow> string expected" where
  "write_member m = next_if_ok (writeEscapedString (fst m)) (\<lambda>nm.
     next_if_ok (snd m) (\<lambda>text. Inr (nm @ CHR '':'' # text)))"

definition property_keys :: "(string \<times> 'a) list \<Rightarrow> (nat list \<times> string \<times> 'a) list expected" where
  "property_keys ms = all_ok (map (\<lambda>m. next_if_ok (utf16Units (fst m)) (\<lambda>key. Inr (key, m))) ms)"

definition write_object :: "(string \<times> string expected) list \<Rightarrow> string expected" where
  "write_object ms =
     next_if_ok (property_keys ms) (\<lambda>properties.
     next_if_ok (all_ok (map (\<lambda>p. write_member (snd p)) (sort_key fst properties))) (\<lambda>texts.
       Inr ([CHR ''{''] @ join_with_commas texts @ [CHR ''}''])))"

definition write_number :: "'n number_ops \<Rightarrow> 'n \<Rightarrow> string expected" where
  "write_number nops n =
     (if no_signbit nops n \<and> no_zero nops n then jsonError ''negative zero cannot be canonicalized''
      else ecmascriptNumber nops n)"

primrec writeCanonical :: "'n number_ops \<Rightarrow> 'n json \<Rightarrow> string expected" where
  "writeCanonical nops JNull = Inr ''null''"
| "writeCanonical nops (JBool b) = Inr (if b then ''true'' else ''false'')"
| "writeCanonical nops (JString s) = writeEscapedString s"
| "writeCanonical nops (JArray vs) = write_array (map (writeCanonical nops) vs)"
| "writeCanonical nops (JObject ms) = write_object (map (map_prod id (writeCanonical nops)) ms)"
| "writeCanonical nops (JNumber n) = write_number nops n"

section \<open>The preflight of a constructed value\<close>

record json_preflight =
  cp_structuralWork :: nat
  cp_totalStringBytes :: nat
  cp_canonicalBytes :: nat

definition new_preflight :: json_preflight where
  "new_preflight = \<lparr>cp_structuralWork = 0, cp_totalStringBytes = 0, cp_canonicalBytes = 0\<rparr>"

definition enter :: "json_limits \<Rightarrow> nat \<Rightarrow> json_preflight \<Rightarrow> json_preflight expected" where
  "enter limits depth st =
     (if depth > jl_maxDepth limits then jsonError ''maximum depth exceeded''
      else let st1 = st\<lparr>cp_structuralWork := cp_structuralWork st + 1\<rparr> in
        if cp_structuralWork st1 > jl_maxStructuralWork limits
        then jsonError ''structural work limit exceeded'' else Inr st1)"

definition accountCanonicalBytes :: "json_limits \<Rightarrow> nat \<Rightarrow> json_preflight \<Rightarrow> json_preflight expected" where
  "accountCanonicalBytes limits bytes st =
     (if bytes > jl_maxInputBytes limits - cp_canonicalBytes st
      then jsonError ''canonical output byte limit exceeded''
      else Inr (st\<lparr>cp_canonicalBytes := cp_canonicalBytes st + bytes\<rparr>))"

definition accountRawString :: "json_limits \<Rightarrow> string \<Rightarrow> json_preflight \<Rightarrow> json_preflight expected" where
  "accountRawString limits s st =
     (if length s > jl_maxStringBytes limits then jsonError ''string byte limit exceeded''
      else if length s > jl_maxTotalStringBytes limits - cp_totalStringBytes st
      then jsonError ''total string byte limit exceeded''
      else Inr (st\<lparr>cp_totalStringBytes := cp_totalStringBytes st + length s\<rparr>))"

definition accountCanonicalString :: "json_limits \<Rightarrow> string \<Rightarrow> json_preflight \<Rightarrow> json_preflight expected" where
  "accountCanonicalString limits s st =
     next_if_ok (canonicalStringSize s) (\<lambda>n. accountCanonicalBytes limits n st)"

definition account_string :: "json_limits \<Rightarrow> string \<Rightarrow> json_preflight \<Rightarrow> json_preflight expected" where
  "account_string limits s st = next_if_ok (accountRawString limits s st) (accountCanonicalString limits s)"

fun account_names :: "json_limits \<Rightarrow> string list \<Rightarrow> json_preflight \<Rightarrow> json_preflight expected" where
  "account_names limits [] st = Inr st"
| "account_names limits (nm # nms) st = next_if_ok (account_string limits nm st) (account_names limits nms)"

text \<open>The stack of values still to visit, with the top first; a push goes on top.\<close>

definition push_all :: "'n json list \<Rightarrow> nat \<Rightarrow> ('n json \<times> nat) list \<Rightarrow> ('n json \<times> nat) list" where
  "push_all vs depth pending = rev (map (\<lambda>v. (v, depth)) vs) @ pending"

definition visitObject ::
  "json_limits \<Rightarrow> (string \<times> 'n json) list \<Rightarrow> nat \<Rightarrow> ('n json \<times> nat) list \<Rightarrow> json_preflight
   \<Rightarrow> (('n json \<times> nat) list \<times> json_preflight) expected" where
  "visitObject limits ms depth pending st =
     (if length ms > jl_maxObjectMembers limits then jsonError ''object member limit exceeded''
      else next_if_ok (accountCanonicalBytes limits 2 st) (\<lambda>st1.
        next_if_ok (if ms = [] then Inr st1
                    else next_if_ok (accountCanonicalBytes limits (length ms - 1) st1)
                           (accountCanonicalBytes limits (length ms))) (\<lambda>st2.
        next_if_ok (account_names limits (map fst ms) st2) (\<lambda>st3.
          Inr (push_all (map snd ms) (depth + 1) pending, st3)))))"

primrec json_nodes :: "'n json \<Rightarrow> nat" where
  "json_nodes JNull = 1"
| "json_nodes (JBool b) = 1"
| "json_nodes (JNumber n) = 1"
| "json_nodes (JString s) = 1"
| "json_nodes (JArray vs) = 1 + sum_list (map json_nodes vs)"
| "json_nodes (JObject ms) = 1 + sum_list (map snd (map (map_prod id json_nodes) ms))"

lemma visitObject_push:
  "visitObject limits ms depth pending st = Inr (pending', st') \<Longrightarrow> pending' = push_all (map snd ms) (depth + 1) pending"
  by (auto simp: visitObject_def next_if_ok_Inr split: if_splits)

lemma push_all_nodes:
  "sum_list (map (\<lambda>(v, d). json_nodes v) (push_all vs depth pending)) =
     sum_list (map json_nodes vs) + sum_list (map (\<lambda>(v, d). json_nodes v) pending)"
  by (simp add: push_all_def rev_map [symmetric] comp_def sum_list_rev)

text \<open>The worklist loop; every round replaces a value by its parts.\<close>

function drain ::
  "json_limits \<Rightarrow> 'n number_ops \<Rightarrow> ('n json \<times> nat) list \<Rightarrow> json_preflight \<Rightarrow> json_preflight expected" where
  "drain limits nops [] st = Inr st"
| "drain limits nops ((v, depth) # pending) st =
     next_if_ok (enter limits depth st) (\<lambda>st1.
     case v of
       JNull \<Rightarrow> next_if_ok (accountCanonicalBytes limits 4 st1) (drain limits nops pending)
     | JBool b \<Rightarrow> next_if_ok (accountCanonicalBytes limits (if b then 4 else 5) st1) (drain limits nops pending)
     | JString s \<Rightarrow> next_if_ok (account_string limits s st1) (drain limits nops pending)
     | JArray vs \<Rightarrow>
         if length vs > jl_maxArrayElements limits then jsonError ''array element limit exceeded''
         else next_if_ok (accountCanonicalBytes limits 2 st1) (\<lambda>st2.
           next_if_ok (if vs = [] then Inr st2 else accountCanonicalBytes limits (length vs - 1) st2)
             (drain limits nops (push_all vs (depth + 1) pending)))
     | JObject ms \<Rightarrow>
         next_if_ok (visitObject limits ms depth pending st1) (\<lambda>(pending', st2). drain limits nops pending' st2)
     | JNumber n \<Rightarrow>
         if \<not> no_finite nops n \<or> (no_signbit nops n \<and> no_zero nops n)
         then jsonError ''constructed number is not canonical I-JSON''
         else next_if_ok (ecmascriptNumber nops n) (\<lambda>text.
           next_if_ok (accountCanonicalBytes limits (length text) st1) (drain limits nops pending)))"
  by pat_completeness auto
termination
  by (relation "measure (\<lambda>(limits, nops, pending, st). sum_list (map (\<lambda>(v, d). json_nodes v) pending))")
    (auto simp: push_all_nodes comp_def dest!: visitObject_push)

declare drain.simps [simp del]

definition preflightConstructedJson :: "json_limits \<Rightarrow> 'n number_ops \<Rightarrow> 'n json \<Rightarrow> nat expected" where
  "preflightConstructedJson limits nops v =
     next_if_ok (drain limits nops [(v, 1)] new_preflight) (\<lambda>st. Inr (cp_canonicalBytes st))"

text \<open>The entry for an object whose value wrapper does not exist yet.\<close>

definition preflightConstructedObject ::
  "json_limits \<Rightarrow> 'n number_ops \<Rightarrow> (string \<times> 'n json) list \<Rightarrow> nat expected" where
  "preflightConstructedObject limits nops ms =
     next_if_ok (enter limits 1 new_preflight) (\<lambda>st1.
     next_if_ok (visitObject limits ms 1 [] st1) (\<lambda>(pending, st2).
     next_if_ok (drain limits nops pending st2) (\<lambda>st. Inr (cp_canonicalBytes st))))"

definition canonicalizeJson :: "json_limits \<Rightarrow> 'n number_ops \<Rightarrow> 'n json \<Rightarrow> string expected" where
  "canonicalizeJson limits nops v =
     next_if_ok (preflightConstructedJson limits nops v) (\<lambda>canonicalSize. writeCanonical nops v)"

section \<open>What the preflight measures\<close>

definition string_size :: "string \<Rightarrow> nat" where
  "string_size s = 2 + sum_list (map (\<lambda>c. length (escape_byte c)) s)"

definition text_length :: "string expected \<Rightarrow> nat" where
  "text_length r = (case r of Inl e \<Rightarrow> 0 | Inr text \<Rightarrow> length text)"

primrec canonical_size :: "'n number_ops \<Rightarrow> 'n json \<Rightarrow> nat" where
  "canonical_size nops JNull = 4"
| "canonical_size nops (JBool b) = (if b then 4 else 5)"
| "canonical_size nops (JNumber n) = text_length (ecmascriptNumber nops n)"
| "canonical_size nops (JString s) = string_size s"
| "canonical_size nops (JArray vs) = 2 + (length vs - 1) + sum_list (map (canonical_size nops) vs)"
| "canonical_size nops (JObject ms) = 2 + (length ms - 1 + length ms) +
     sum_list (map (\<lambda>m. string_size (fst m)) ms) + sum_list (map snd (map (map_prod id (canonical_size nops)) ms))"

primrec string_bytes :: "'n json \<Rightarrow> nat" where
  "string_bytes JNull = 0"
| "string_bytes (JBool b) = 0"
| "string_bytes (JNumber n) = 0"
| "string_bytes (JString s) = length s"
| "string_bytes (JArray vs) = sum_list (map string_bytes vs)"
| "string_bytes (JObject ms) = sum_list (map (\<lambda>m. length (fst m)) ms) + sum_list (map snd (map (map_prod id string_bytes) ms))"

primrec json_depth :: "'n json \<Rightarrow> nat" where
  "json_depth JNull = 1"
| "json_depth (JBool b) = 1"
| "json_depth (JNumber n) = 1"
| "json_depth (JString s) = 1"
| "json_depth (JArray vs) = Suc (fold max (map json_depth vs) 0)"
| "json_depth (JObject ms) = Suc (fold max (map snd (map (map_prod id json_depth) ms)) 0)"

definition string_ok :: "json_limits \<Rightarrow> string \<Rightarrow> bool" where
  "string_ok limits s \<longleftrightarrow> length s \<le> jl_maxStringBytes limits \<and> (case utf16Units s of Inl e \<Rightarrow> False | Inr u \<Rightarrow> True)"

definition number_ok :: "'n number_ops \<Rightarrow> 'n \<Rightarrow> bool" where
  "number_ok nops n \<longleftrightarrow> no_finite nops n \<and> \<not> (no_signbit nops n \<and> no_zero nops n) \<and>
     (case ecmascriptNumber nops n of Inl e \<Rightarrow> False | Inr text \<Rightarrow> True)"

text \<open>Every part of the value is admissible by itself.\<close>

primrec json_ok :: "json_limits \<Rightarrow> 'n number_ops \<Rightarrow> 'n json \<Rightarrow> bool" where
  "json_ok limits nops JNull = True"
| "json_ok limits nops (JBool b) = True"
| "json_ok limits nops (JNumber n) = number_ok nops n"
| "json_ok limits nops (JString s) = string_ok limits s"
| "json_ok limits nops (JArray vs) = (length vs \<le> jl_maxArrayElements limits \<and> list_all id (map (json_ok limits nops) vs))"
| "json_ok limits nops (JObject ms) = (length ms \<le> jl_maxObjectMembers limits \<and>
     list_all (\<lambda>m. string_ok limits (fst m)) ms \<and> list_all id (map snd (map (map_prod id (json_ok limits nops)) ms)))"

section \<open>The preflight accepts exactly the values within the limits\<close>

definition within :: "json_limits \<Rightarrow> json_preflight \<Rightarrow> bool" where
  "within limits st \<longleftrightarrow> cp_structuralWork st \<le> jl_maxStructuralWork limits \<and>
     cp_totalStringBytes st \<le> jl_maxTotalStringBytes limits \<and> cp_canonicalBytes st \<le> jl_maxInputBytes limits"

definition charge :: "nat \<Rightarrow> nat \<Rightarrow> nat \<Rightarrow> json_preflight \<Rightarrow> json_preflight" where
  "charge a b c st = \<lparr>cp_structuralWork = cp_structuralWork st + a,
     cp_totalStringBytes = cp_totalStringBytes st + b, cp_canonicalBytes = cp_canonicalBytes st + c\<rparr>"

text \<open>
  \<open>costs limits P a b c f\<close>: the stage \<open>f\<close> succeeds exactly when \<open>P\<close> holds and its charges \<open>a\<close>, \<open>b\<close>,
  \<open>c\<close> stay within the limits, and then it makes exactly these charges.
\<close>

definition costs ::
  "json_limits \<Rightarrow> bool \<Rightarrow> nat \<Rightarrow> nat \<Rightarrow> nat \<Rightarrow> (json_preflight \<Rightarrow> json_preflight expected) \<Rightarrow> bool" where
  "costs limits P a b c f \<longleftrightarrow> (\<forall>st st'. within limits st \<longrightarrow>
     (f st = Inr st' \<longleftrightarrow> P \<and> st' = charge a b c st \<and> within limits st'))"

lemma charge_charge: "charge a b c (charge a' b' c' st) = charge (a' + a) (b' + b) (c' + c) st"
  by (simp add: charge_def)

lemma within_charge: "within limits (charge a b c st) \<Longrightarrow> within limits st"
  by (simp add: within_def charge_def)

lemma costs_none: "costs limits True 0 0 0 Inr"
  by (auto simp: costs_def charge_def)

lemma costs_then:
  assumes "costs limits P a b c f" and "costs limits Q a' b' c' g"
  shows "costs limits (P \<and> Q) (a + a') (b + b') (c + c') (\<lambda>st. next_if_ok (f st) g)"
  unfolding costs_def
proof (intro allI impI)
  fix st st' assume st: "within limits st"
  have f: "f st = Inr s1 \<longleftrightarrow> P \<and> s1 = charge a b c st \<and> within limits s1" for s1
    using assms(1) st by (simp add: costs_def)
  have g: "within limits s1 \<Longrightarrow> g s1 = Inr s2 \<longleftrightarrow> Q \<and> s2 = charge a' b' c' s1 \<and> within limits s2" for s1 s2
    using assms(2) by (simp add: costs_def)
  show "next_if_ok (f st) g = Inr st' \<longleftrightarrow> (P \<and> Q) \<and> st' = charge (a + a') (b + b') (c + c') st \<and> within limits st'"
    unfolding next_if_ok_Inr f using g charge_charge [of a' b' c' a b c st] within_charge
    by metis
qed

lemma costs_enter: "costs limits (depth \<le> jl_maxDepth limits) 1 0 0 (enter limits depth)"
  by (auto simp: costs_def enter_def within_def charge_def Let_def)

lemma costs_bytes: "costs limits True 0 0 n (accountCanonicalBytes limits n)"
  by (auto simp: costs_def accountCanonicalBytes_def within_def charge_def)

lemma canonicalStringSize_eq: "canonicalStringSize s = next_if_ok (utf16Units s) (\<lambda>u. Inr (string_size s))"
proof -
  have step: "(let b = byte_of c in
        if b = 0x22 \<or> b = 0x5c \<or> b = 0x08 \<or> b = 0x09 \<or> b = 0x0a \<or> b = 0x0c \<or> b = 0x0d then n + 2
        else if b < 0x20 then n + 6 else n + 1) = n + length (escape_byte c)" for c and n :: nat
    by (simp add: escape_byte_def Let_def)
  have "fold (\<lambda>c n. n + length (escape_byte c)) s n = n + sum_list (map (\<lambda>c. length (escape_byte c)) s)" for n
    by (induction s arbitrary: n) simp_all
  then show ?thesis
    unfolding canonicalStringSize_def step string_size_def by simp
qed

lemma costs_string: "costs limits (string_ok limits s) 0 (length s) (string_size s) (account_string limits s)"
  by (auto simp: costs_def account_string_def accountRawString_def accountCanonicalString_def
      accountCanonicalBytes_def canonicalStringSize_eq string_ok_def within_def charge_def next_if_ok_Inr
      split: sum.split)

lemma costs_names:
  "costs limits (list_all (string_ok limits) nms) 0 (sum_list (map length nms)) (sum_list (map string_size nms))
     (account_names limits nms)"
proof (induction nms)
  case Nil
  have "account_names limits [] = Inr" by (rule ext) simp
  then show ?case using costs_none [of limits] by simp
next
  case (Cons nm nms)
  have "account_names limits (nm # nms) = (\<lambda>st. next_if_ok (account_string limits nm st) (account_names limits nms))"
    by (rule ext) simp
  with costs_then [OF costs_string Cons] show ?case by simp
qed

definition frame_ok :: "json_limits \<Rightarrow> 'n number_ops \<Rightarrow> 'n json \<times> nat \<Rightarrow> bool" where
  "frame_ok limits nops fr \<longleftrightarrow> json_ok limits nops (fst fr) \<and> snd fr + json_depth (fst fr) \<le> Suc (jl_maxDepth limits)"

definition sum_of :: "('n json \<Rightarrow> nat) \<Rightarrow> ('n json \<times> nat) list \<Rightarrow> nat" where
  "sum_of f pending = sum_list (map (\<lambda>fr. f (fst fr)) pending)"

lemma sum_of_simps [simp]:
  "sum_of f [] = 0" "sum_of f ((v, d) # pending) = f v + sum_of f pending"
  "sum_of f (push_all vs d pending) = sum_list (map f vs) + sum_of f pending"
  by (simp_all add: sum_of_def push_all_def rev_map [symmetric] comp_def sum_list_rev)

lemma fold_max_le: "d + fold max xs n \<le> m \<longleftrightarrow> d + n \<le> m \<and> list_all (\<lambda>x. d + x \<le> m) xs" for d n m :: nat
proof (induction xs arbitrary: n)
  case (Cons x xs)
  have "d + max x n \<le> m \<longleftrightarrow> d + x \<le> m \<and> d + n \<le> m" by linarith
  with Cons [of "max x n"] show ?case by auto
qed simp

lemma frames_push [simp]:
  "list_all (frame_ok limits nops) (push_all vs d pending) \<longleftrightarrow>
     list_all (\<lambda>v. frame_ok limits nops (v, d)) vs \<and> list_all (frame_ok limits nops) pending"
  by (auto simp: push_all_def list_all_iff)

lemma json_depth_pos: "1 \<le> json_depth v"
  by (cases v) simp_all

lemma frame_ok_array:
  "frame_ok limits nops (JArray vs, d) \<longleftrightarrow>
     d \<le> jl_maxDepth limits \<and> length vs \<le> jl_maxArrayElements limits \<and> list_all (\<lambda>v. frame_ok limits nops (v, Suc d)) vs"
  by (auto simp: frame_ok_def fold_max_le list_all_iff)

lemma frame_ok_object:
  "frame_ok limits nops (JObject ms, d) \<longleftrightarrow>
     d \<le> jl_maxDepth limits \<and> length ms \<le> jl_maxObjectMembers limits \<and>
     list_all (string_ok limits) (map fst ms) \<and> list_all (\<lambda>v. frame_ok limits nops (v, Suc d)) (map snd ms)"
  by (auto simp: frame_ok_def fold_max_le list_all_iff)

lemma costs_separators:
  "costs limits True 0 0 (length xs - 1) (\<lambda>st. if xs = [] then Inr st else accountCanonicalBytes limits (length xs - 1) st)"
  using costs_none [of limits] costs_bytes [of limits "length xs - 1"] by (cases "xs = []") simp_all

text \<open>A guard in front of a stage.\<close>

lemma costs_guard: "costs limits P a b c f \<Longrightarrow> costs limits (Q \<and> P) a b c (\<lambda>st. if \<not> Q then jsonError msg else f st)"
  by (cases Q) (simp_all add: costs_def)

definition object_head :: "json_limits \<Rightarrow> (string \<times> 'n json) list \<Rightarrow> json_preflight \<Rightarrow> json_preflight expected" where
  "object_head limits ms st =
     (if length ms > jl_maxObjectMembers limits then jsonError ''object member limit exceeded''
      else next_if_ok (accountCanonicalBytes limits 2 st) (\<lambda>st1.
        next_if_ok (if ms = [] then Inr st1
                    else next_if_ok (accountCanonicalBytes limits (length ms - 1) st1)
                           (accountCanonicalBytes limits (length ms))) (account_names limits (map fst ms))))"

lemma visitObject_head: "visitObject limits ms depth pending st =
    next_if_ok (object_head limits ms st) (\<lambda>st3. Inr (push_all (map snd ms) (depth + 1) pending, st3))"
  by (cases "ms = []") (simp_all add: visitObject_def object_head_def next_if_ok_assoc)

lemma costs_object_head:
  "costs limits (length ms \<le> jl_maxObjectMembers limits \<and> list_all (string_ok limits) (map fst ms))
     0 (sum_list (map length (map fst ms))) (2 + (length ms - 1 + length ms) + sum_list (map string_size (map fst ms)))
     (object_head limits ms)"
proof -
  have sep: "costs limits True 0 0 (length ms - 1 + length ms) (\<lambda>st1. if ms = [] then Inr st1
      else next_if_ok (accountCanonicalBytes limits (length ms - 1) st1) (accountCanonicalBytes limits (length ms)))"
    using costs_none [of limits] costs_then [OF costs_bytes costs_bytes, of limits "length ms - 1" "length ms"]
    by (cases "ms = []") simp_all
  show ?thesis
    using costs_guard [OF costs_then [OF costs_bytes [of limits 2] costs_then [OF sep costs_names [of limits "map fst ms"]]],
        of "length ms \<le> jl_maxObjectMembers limits" "''object member limit exceeded''"]
    by (simp add: object_head_def [abs_def] not_le add.assoc)
qed

lemma costs_drain:
  "costs limits (list_all (frame_ok limits nops) pending) (sum_of json_nodes pending)
     (sum_of string_bytes pending) (sum_of (canonical_size nops) pending) (drain limits nops pending)"
proof (induction "sum_of json_nodes pending" arbitrary: pending rule: less_induct)
  case less
  show ?case
  proof (cases pending)
    case Nil
    have "drain limits nops [] = Inr" by (rule ext) (simp add: drain.simps)
    then show ?thesis using costs_none [of limits] Nil by simp
  next
    case (Cons fr rest)
    obtain v d where fr: "fr = (v, d)" by fastforce
    have rest: "costs limits (list_all (frame_ok limits nops) rest) (sum_of json_nodes rest)
        (sum_of string_bytes rest) (sum_of (canonical_size nops) rest) (drain limits nops rest)"
      using less [of rest] by (cases v) (simp_all add: Cons fr)
    note enters = costs_then [OF costs_enter [of limits d]]
    show ?thesis
    proof (cases v)
      case JNull
      show ?thesis
        using enters [OF costs_then [OF costs_bytes [of limits 4] rest]]
        by (simp add: Cons fr JNull drain.simps [abs_def] frame_ok_def)
    next
      case (JBool b)
      show ?thesis
        using enters [OF costs_then [OF costs_bytes [of limits "if b then 4 else 5"] rest]]
        by (simp add: Cons fr JBool drain.simps [abs_def] frame_ok_def)
    next
      case (JString s)
      show ?thesis
        using enters [OF costs_then [OF costs_string [of limits s] rest]]
        by (simp add: Cons fr JString drain.simps [abs_def] frame_ok_def conj_ac)
    next
      case (JArray vs)
      let ?p = "push_all vs (d + 1) rest"
      have "costs limits (list_all (frame_ok limits nops) ?p) (sum_of json_nodes ?p)
          (sum_of string_bytes ?p) (sum_of (canonical_size nops) ?p) (drain limits nops ?p)"
        by (rule less) (simp add: Cons fr JArray)
      from enters [OF costs_guard [OF costs_then [OF costs_bytes [of limits 2]
          costs_then [OF costs_separators [of limits vs] this]], of "length vs \<le> jl_maxArrayElements limits"
          "''array element limit exceeded''"]]
      show ?thesis
        by (simp add: Cons fr JArray drain.simps [abs_def] frame_ok_array not_le ac_simps)
    next
      case (JObject ms)
      let ?p = "push_all (map snd ms) (Suc d) rest"
      have "costs limits (list_all (frame_ok limits nops) ?p) (sum_of json_nodes ?p)
          (sum_of string_bytes ?p) (sum_of (canonical_size nops) ?p) (drain limits nops ?p)"
        by (rule less) (simp add: Cons fr JObject comp_def)
      from enters [OF costs_then [OF costs_object_head [of limits ms] this]]
      show ?thesis
        by (simp add: Cons fr JObject drain.simps [abs_def] frame_ok_object visitObject_head next_if_ok_assoc comp_def ac_simps)
    next
      case (JNumber n)
      show ?thesis
      proof (cases "number_ok nops n")
        case True
        then obtain t where t: "ecmascriptNumber nops n = Inr t" and ok: "no_finite nops n" "\<not> (no_signbit nops n \<and> no_zero nops n)"
          by (auto simp: number_ok_def split: sum.splits)
        have g: "(\<not> no_finite nops n \<or> (no_signbit nops n \<and> no_zero nops n)) = False" using ok by blast
        have "drain limits nops ((JNumber n, d) # rest) = (\<lambda>st. next_if_ok (enter limits d st) (\<lambda>st1.
            next_if_ok (accountCanonicalBytes limits (length t) st1) (drain limits nops rest)))"
          by (rule ext) (simp only: drain.simps json.case g if_False t next_if_ok_simps)
        then show ?thesis
          using enters [OF costs_then [OF costs_bytes [of limits "length t"] rest]] True
          by (simp add: Cons fr JNumber frame_ok_def t text_length_def)
      next
        case False
        have "drain limits nops ((JNumber n, d) # rest) st \<noteq> Inr st'" for st st'
          using False by (auto simp: drain.simps number_ok_def next_if_ok_Inr)
        then show ?thesis using False by (simp add: Cons fr JNumber costs_def frame_ok_def)
      qed
    qed
  qed
qed

section \<open>Emission succeeds and has the measured length\<close>

lemma all_ok_map: "\<forall>x \<in> set xs. f x = Inr (g x) \<Longrightarrow> all_ok (map f xs) = Inr (map g xs)"
  by (induction xs) simp_all

lemma length_join: "length (join_with_commas xs) = sum_list (map length xs) + (length xs - 1)"
  by (induction xs rule: join_with_commas.induct) simp_all

lemma writeEscapedString_ok:
  assumes "string_ok limits s"
  shows "\<exists>t. writeEscapedString s = Inr t \<and> length t = string_size s"
  using assms
  by (auto simp: string_ok_def writeEscapedString_def string_size_def length_concat comp_def split: sum.splits)

definition units_of :: "string \<Rightarrow> nat list" where
  "units_of s = (case utf16Units s of Inl e \<Rightarrow> [] | Inr u \<Rightarrow> u)"

lemma property_keys_ok:
  "\<forall>m \<in> set ms. string_ok limits (fst m) \<Longrightarrow> property_keys ms = Inr (map (\<lambda>m. (units_of (fst m), m)) ms)"
  unfolding property_keys_def
  by (rule all_ok_map) (auto simp: string_ok_def units_of_def split: sum.splits)

lemma sort_key_map: "sort_key k (map f xs) = map f (sort_key (\<lambda>x. k (f x)) xs)"
proof (induction xs)
  case (Cons x xs)
  have "insort_key k (f x) (map f ys) = map f (insort_key (\<lambda>x. k (f x)) x ys)" for ys
    by (induction ys) simp_all
  with Cons show ?case by simp
qed simp

lemma write_object_sorted:
  assumes "\<forall>m \<in> set ms. string_ok limits (fst m)"
  shows "write_object ms = next_if_ok (all_ok (map write_member (sort_key (\<lambda>m. units_of (fst m)) ms)))
    (\<lambda>texts. Inr ([CHR ''{''] @ join_with_commas texts @ [CHR ''}'']))"
  by (simp add: write_object_def property_keys_ok [OF assms] sort_key_map comp_def)

lemma write_object_ok:
  assumes "\<forall>m \<in> set ms. string_ok limits (fst m)" and "\<forall>m \<in> set ms. \<exists>t. snd m = Inr t"
  shows "\<exists>t. write_object ms = Inr t \<and> length t = 2 + (length ms - 1 + length ms) +
    sum_list (map (\<lambda>m. string_size (fst m)) ms) + sum_list (map (\<lambda>m. text_length (snd m)) ms)"
proof -
  let ?sorted = "sort_key (\<lambda>m. units_of (fst m)) ms"
  define g where "g m = projr (write_member m)" for m
  have member: "write_member m = Inr (g m) \<and> length (g m) = string_size (fst m) + 1 + text_length (snd m)" if m: "m \<in> set ms" for m
  proof -
    obtain t where "writeEscapedString (fst m) = Inr t" "length t = string_size (fst m)"
      using writeEscapedString_ok [of limits "fst m"] assms(1) m by auto
    moreover obtain u where "snd m = Inr u" using assms(2) m by auto
    ultimately show ?thesis by (simp add: write_member_def g_def text_length_def)
  qed
  have "all_ok (map write_member ?sorted) = Inr (map g ?sorted)"
    by (rule all_ok_map) (simp add: member)
  then have "write_object ms = Inr ([CHR ''{''] @ join_with_commas (map g ?sorted) @ [CHR ''}''])"
    by (simp add: write_object_sorted [OF assms(1)])
  moreover have "sum_list (map length (map g ?sorted)) = sum_list (map length (map g ms))"
  proof -
    have "mset (map length (map g ?sorted)) = mset (map length (map g ms))" by (simp only: mset_map mset_sort)
    then show ?thesis by (simp only: sum_mset_sum_list [symmetric])
  qed
  moreover have "sum_list (map (\<lambda>m. length (g m)) ms) = length ms + sum_list (map (\<lambda>m. string_size (fst m)) ms) +
      sum_list (map (\<lambda>m. text_length (snd m)) ms)"
    using member by (induction ms) simp_all
  ultimately show ?thesis by (simp add: length_join comp_def)
qed

lemma writeCanonical_ok:
  "json_ok limits nops v \<Longrightarrow> \<exists>t. writeCanonical nops v = Inr t \<and> length t = canonical_size nops v"
proof (induction v)
  case (JNumber n)
  then show ?case by (auto simp: number_ok_def write_number_def text_length_def split: sum.splits)
next
  case (JString s)
  then show ?case using writeEscapedString_ok [of limits s] by simp
next
  case (JArray vs)
  then have each: "\<forall>v \<in> set vs. writeCanonical nops v = Inr (projr (writeCanonical nops v)) \<and>
      length (projr (writeCanonical nops v)) = canonical_size nops v"
    by (fastforce simp: list_all_iff)
  then have "all_ok (map (writeCanonical nops) vs) = Inr (map (\<lambda>v. projr (writeCanonical nops v)) vs)"
    by (intro all_ok_map) blast
  moreover have "sum_list (map (\<lambda>v. length (projr (writeCanonical nops v))) vs) = sum_list (map (canonical_size nops) vs)"
    using each by (intro arg_cong [where f = sum_list] map_cong) simp_all
  ultimately show ?case by (simp add: write_array_def length_join comp_def)
next
  case (JObject ms)
  let ?ms = "map (map_prod id (writeCanonical nops)) ms"
  have each: "\<exists>t. writeCanonical nops (snd m) = Inr t \<and> length t = canonical_size nops (snd m)" if "m \<in> set ms" for m
    using JObject that by (cases m) (fastforce simp: list_all_iff)
  have "text_length (writeCanonical nops (snd m)) = canonical_size nops (snd m)" if "m \<in> set ms" for m
    using each [OF that] by (auto simp: text_length_def)
  then have sizes: "sum_list (map (\<lambda>m. text_length (writeCanonical nops (snd m))) ms) =
      sum_list (map (\<lambda>m. canonical_size nops (snd m)) ms)"
    by (intro arg_cong [where f = sum_list] map_cong) simp_all
  have "\<exists>t. write_object ?ms = Inr t \<and> length t = 2 + (length ?ms - 1 + length ?ms) +
    sum_list (map (\<lambda>m. string_size (fst m)) ?ms) + sum_list (map (\<lambda>m. text_length (snd m)) ?ms)"
    by (rule write_object_ok [of _ limits]) (use JObject.prems each in \<open>fastforce simp: list_all_iff\<close>)+
  then show ?case by (simp add: comp_def sizes)
qed simp_all

section \<open>The sort key is injective\<close>

lemma and_low: "b AND mask k = b mod 2 ^ k" for b :: nat
  by (simp add: take_bit_eq_mask [symmetric] take_bit_eq_mod)

lemma and_high:
  fixes b :: nat
  assumes "b < 2 ^ (k + j)"
  shows "b AND push_bit k (mask j) = b div 2 ^ k * 2 ^ k"
proof -
  have b: "take_bit (k + j) b = b" using assms by (rule take_bit_nat_eq_self)
  have high: "n < k + j" if "bit b n" for n
    using that by (subst (asm) b [symmetric]) (simp add: bit_take_bit_iff)
  have "b AND push_bit k (mask j) = push_bit k (drop_bit k b)"
    by (intro bit_eqI) (auto simp: bit_simps dest: high)
  then show ?thesis by (simp add: push_bit_eq_mult drop_bit_eq_div)
qed

lemma byte_masks:
  assumes "b < (256 :: nat)"
  shows "b AND 0xe0 = 0xc0 \<longleftrightarrow> b div 32 = 6" and "b AND 0xf0 = 0xe0 \<longleftrightarrow> b div 16 = 14"
    and "b AND 0xf8 = 0xf0 \<longleftrightarrow> b div 8 = 30" and "b AND 0xc0 = 0x80 \<longleftrightarrow> b div 64 = 2"
    and "b AND 0x1f = b mod 32" and "b AND 0x0f = b mod 16" and "b AND 0x07 = b mod 8" and "b AND 0x3f = b mod 64"
  using and_high [of b 5 3] and_high [of b 4 4] and_high [of b 3 5] and_high [of b 6 2]
    and_low [of b 5] and_low [of b 4] and_low [of b 3] and_low [of b 6] assms
  by (auto simp: mask_eq_exp_minus_1 push_bit_eq_mult)

lemma append_bits: "x < 64 \<Longrightarrow> push_bit 6 a OR x = a * 64 + x" for a x :: nat
proof -
  assume "x < 64"
  then have x: "take_bit 6 x = x" by (intro take_bit_nat_eq_self) simp
  have high: "n < 6" if "bit x n" for n
    using that by (subst (asm) x [symmetric]) (simp add: bit_take_bit_iff)
  have "push_bit 6 a AND x = 0"
    by (intro bit_eqI) (auto simp: bit_simps dest: high)
  then show ?thesis by (simp add: disjunctive_add_eq_or [symmetric] push_bit_eq_mult)
qed

text \<open>One character: the code point of a lead byte and its continuation bytes.\<close>

lemma utf8_tail_value:
  "utf8_tail a cs = Some cp \<longleftrightarrow> list_all (\<lambda>c. byte_of c div 64 = 2) cs \<and>
     cp = fold (\<lambda>c a. a * 64 + byte_of c mod 64) cs a"
  by (induction cs arbitrary: a) (auto simp: byte_masks append_bits)

lemma tail_digits:
  assumes "length cs = length ds" and "fold (\<lambda>c a. a * 64 + byte_of c mod 64) cs a = fold (\<lambda>c a. a * 64 + byte_of c mod 64) ds b"
    and "list_all (\<lambda>c. byte_of c div 64 = 2) cs" and "list_all (\<lambda>c. byte_of c div 64 = 2) ds"
  shows "a = b \<and> cs = ds"
  using assms
proof (induction cs ds arbitrary: a b rule: list_induct2)
  case (Cons c cs d ds)
  from Cons.IH [of "a * 64 + byte_of c mod 64" "b * 64 + byte_of d mod 64"] Cons.prems
  have eq: "a * 64 + byte_of c mod 64 = b * 64 + byte_of d mod 64" and "cs = ds" by simp_all
  have "a = b" using arg_cong [OF eq, of "\<lambda>n. n div 64"] by simp
  with eq have "byte_of c mod 64 = byte_of d mod 64" by simp
  moreover have "byte_of c div 64 = byte_of d div 64" using Cons.prems by simp
  ultimately have "byte_of c = byte_of d" by (metis mult_div_mod_eq)
  with \<open>a = b\<close> \<open>cs = ds\<close> show ?case by simp
qed simp

lemma fold_digits_bound:
  "fold (\<lambda>c a. a * 64 + byte_of c mod 64) cs a < (a + 1) * 64 ^ length cs"
proof (induction cs arbitrary: a)
  case (Cons c cs)
  have "fold (\<lambda>c a. a * 64 + byte_of c mod 64) cs (a * 64 + byte_of c mod 64) < (a * 64 + byte_of c mod 64 + 1) * 64 ^ length cs"
    by (rule Cons)
  also have "\<dots> \<le> (a + 1) * 64 * 64 ^ length cs"
    by (rule mult_right_mono) (use mod_less_divisor [of 64 "byte_of c"] in simp_all)
  finally show ?case by (simp add: algebra_simps)
qed simp

text \<open>The length of a sequence is determined by its code point.\<close>

definition sequence_length :: "nat \<Rightarrow> nat" where
  "sequence_length cp = (if cp < 0x80 then 1 else if cp < 0x800 then 2 else if cp < 0x10000 then 3 else 4)"

definition lead_byte :: "nat \<Rightarrow> nat \<Rightarrow> nat" where
  "lead_byte n bits = (if n = 1 then bits else if n = 2 then 192 + bits else if n = 3 then 224 + bits else 240 + bits)"

lemma utf8_lead_value:
  assumes "b < 256" and "utf8_lead b = Some (bits, n)"
  shows "b = lead_byte n bits \<and> (n = 1 \<and> bits < 128 \<or> n = 2 \<and> bits < 32 \<or> n = 3 \<and> bits < 16 \<or> n = 4 \<and> bits < 8)"
proof -
  have two: "b div 32 = 6 \<Longrightarrow> b = 192 + b mod 32 \<and> b mod 32 < 32"
    and three: "b div 16 = 14 \<Longrightarrow> b = 224 + b mod 16 \<and> b mod 16 < 16"
    and four: "b div 8 = 30 \<Longrightarrow> b = 240 + b mod 8 \<and> b mod 8 < 8"
    using mult_div_mod_eq [of 32 b] mult_div_mod_eq [of 16 b] mult_div_mod_eq [of 8 b]
      mod_less_divisor [of 32 b] mod_less_divisor [of 16 b] mod_less_divisor [of 8 b] by linarith+
  have "(b < 128 \<and> bits = b \<and> n = 1) \<or> (b div 32 = 6 \<and> bits = b mod 32 \<and> n = 2) \<or>
      (b div 16 = 14 \<and> bits = b mod 16 \<and> n = 3) \<or> (b div 8 = 30 \<and> bits = b mod 8 \<and> n = 4)"
    using assms(2) unfolding utf8_lead_def byte_masks [OF assms(1)]
    by (simp split: if_split_asm)
  then consider "b < 128" "bits = b" "n = 1" | "b div 32 = 6" "bits = b mod 32" "n = 2"
    | "b div 16 = 14" "bits = b mod 16" "n = 3" | "b div 8 = 30" "bits = b mod 8" "n = 4"
    by blast
  then show ?thesis
  proof cases
    case 1
    then show ?thesis by (simp add: lead_byte_def)
  next
    case 2
    from two [OF this(1)] show ?thesis unfolding lead_byte_def 2(2,3) by simp
  next
    case 3
    from three [OF this(1)] show ?thesis unfolding lead_byte_def 3(2,3) by simp
  next
    case 4
    from four [OF this(1)] show ?thesis unfolding lead_byte_def 4(2,3) by simp
  qed
qed

lemma sequence_length_ok:
  assumes "utf8_lead (byte_of c) = Some (bits, n)" and "utf8_tail bits cs = Some cp" and "length cs = n - 1"
    and "scalar_ok n cp"
  shows "n = sequence_length cp" and "cp \<le> 0x10ffff" and "\<not> (0xd800 \<le> cp \<and> cp \<le> 0xdfff)"
proof -
  note lead = utf8_lead_value [OF nat_of_char_less_256 assms(1)]
  have "cp < (bits + 1) * 64 ^ (n - 1)"
    using fold_digits_bound [of cs bits] assms(2,3) by (simp add: utf8_tail_value)
  moreover have "cp = bits" if "n = 1" using assms(2,3) that by (simp add: utf8_tail_value)
  ultimately show "n = sequence_length cp"
    using lead assms(4) by (auto simp: sequence_length_def scalar_ok_def)
  show "cp \<le> 0x10ffff" and "\<not> (0xd800 \<le> cp \<and> cp \<le> 0xdfff)"
    using assms(4) by (auto simp: scalar_ok_def)
qed

lemma code_units_value:
  "code_units cp = (if cp \<le> 0xffff then [cp]
     else [0xd800 + (cp - 0x10000) div 1024, 0xdc00 + (cp - 0x10000) mod 1024])"
  using and_low [of "cp - 0x10000" 10]
  by (simp add: code_units_def Let_def drop_bit_eq_div mask_eq_exp_minus_1)

lemma code_units_inj:
  assumes "code_units x @ u = code_units y @ v"
    and "x \<le> 0x10ffff" "\<not> (0xd800 \<le> x \<and> x \<le> 0xdfff)" "y \<le> 0x10ffff" "\<not> (0xd800 \<le> y \<and> y \<le> 0xdfff)"
  shows "x = y \<and> u = v"
proof -
  have high: "(z - 0x10000) div 1024 < 1024" if "z \<le> 0x10ffff" for z :: nat
    using that by (simp add: less_mult_imp_div_less)
  show ?thesis
  proof (cases "x \<le> 0xffff"; cases "y \<le> 0xffff")
    assume big: "\<not> x \<le> 0xffff" "\<not> y \<le> 0xffff"
    then have "(x - 0x10000) div 1024 = (y - 0x10000) div 1024" "(x - 0x10000) mod 1024 = (y - 0x10000) mod 1024" "u = v"
      using assms(1) by (simp_all add: code_units_value)
    then have "x - 0x10000 = y - 0x10000" by (metis mult_div_mod_eq)
    with big \<open>u = v\<close> show ?thesis by simp
  qed (use assms high in \<open>auto simp: code_units_value\<close>)
qed

lemma utf16Units_Cons:
  assumes "utf16Units (c # cs) = Inr u"
  obtains bits n cp u' where "utf8_lead (byte_of c) = Some (bits, n)" "n - 1 \<le> length cs"
    "utf8_tail bits (take (n - 1) cs) = Some cp" "scalar_ok n cp" "utf16Units (drop (n - 1) cs) = Inr u'"
    "u = code_units cp @ u'"
  using assms by (auto simp: utf16Units.simps(2) next_if_ok_Inr split: option.splits if_splits)

lemma code_units_not_Nil [simp]: "code_units cp \<noteq> []"
  by (simp add: code_units_value)

lemma utf16Units_inj: "utf16Units s = Inr u \<Longrightarrow> utf16Units t = Inr u \<Longrightarrow> s = t"
proof (induction "length s" arbitrary: s t u rule: less_induct)
  case less
  show ?case
  proof (cases s)
    case Nil
    with less.prems have "u = []" by (simp add: utf16Units.simps)
    with less.prems(2) Nil show ?thesis by (cases t) (auto elim: utf16Units_Cons)
  next
    case (Cons c cs)
    obtain bits n cp u1 where s: "utf8_lead (byte_of c) = Some (bits, n)" "n - 1 \<le> length cs"
      "utf8_tail bits (take (n - 1) cs) = Some cp" "scalar_ok n cp" "utf16Units (drop (n - 1) cs) = Inr u1"
      "u = code_units cp @ u1"
      using less.prems(1) Cons by (auto elim: utf16Units_Cons)
    then obtain d ds where t: "t = d # ds" using less.prems(2) by (cases t) (auto simp: utf16Units.simps)
    obtain bits' n' cp' u2 where t': "utf8_lead (byte_of d) = Some (bits', n')" "n' - 1 \<le> length ds"
      "utf8_tail bits' (take (n' - 1) ds) = Some cp'" "scalar_ok n' cp'" "utf16Units (drop (n' - 1) ds) = Inr u2"
      "u = code_units cp' @ u2"
      using less.prems(2) t by (auto elim: utf16Units_Cons)
    have len: "length (take (n - 1) cs) = n - 1" "length (take (n' - 1) ds) = n' - 1" using s(2) t'(2) by simp_all
    note scalar = sequence_length_ok [OF s(1,3) len(1) s(4)] sequence_length_ok [OF t'(1,3) len(2) t'(4)]
    have eq: "cp = cp'" "u1 = u2"
      using code_units_inj [of cp u1 cp' u2] s(6) t'(6) scalar by auto
    then have n: "n = n'" using scalar by simp
    have "bits = bits' \<and> take (n - 1) cs = take (n - 1) ds"
      using tail_digits [of "take (n - 1) cs" "take (n - 1) ds" bits bits'] s(3) t'(3) len n eq(1)
      by (simp add: utf8_tail_value)
    moreover from this have "byte_of c = byte_of d"
      using utf8_lead_value [OF nat_of_char_less_256 s(1)] utf8_lead_value [OF nat_of_char_less_256 t'(1)] n by simp
    moreover have "drop (n - 1) cs = drop (n - 1) ds"
      using less.hyps [of "drop (n - 1) cs" u1 "drop (n - 1) ds"] s(5) t'(5) eq(2) n Cons by simp
    ultimately show ?thesis
      unfolding Cons t by (metis append_take_drop_id of_char_eq_iff)
  qed
qed

section \<open>The text does not depend on the order of the members\<close>

text \<open>Values that differ in the iteration order of objects only.\<close>

inductive reordered :: "'n json \<Rightarrow> 'n json \<Rightarrow> bool" where
  reordered_same: "reordered v v"
| reordered_array: "list_all2 reordered vs ws \<Longrightarrow> reordered (JArray vs) (JArray ws)"
| reordered_object: "list_all2 (\<lambda>m m'. fst m = fst m' \<and> reordered (snd m) (snd m')) ms ns \<Longrightarrow>
    mset ns' = mset ns \<Longrightarrow> reordered (JObject ms) (JObject ns')"

text \<open>No object has two members of the same name; the DOM is a hash table.\<close>

primrec names_distinct :: "'n json \<Rightarrow> bool" where
  "names_distinct JNull = True"
| "names_distinct (JBool b) = True"
| "names_distinct (JNumber n) = True"
| "names_distinct (JString s) = True"
| "names_distinct (JArray vs) = list_all id (map names_distinct vs)"
| "names_distinct (JObject ms) = (distinct (map fst ms) \<and> list_all id (map snd (map (map_prod id names_distinct) ms)))"

lemma write_object_reordered:
  assumes "\<forall>m \<in> set ms. string_ok limits (fst m)" and "distinct (map fst ms)" and "mset ns = mset ms"
  shows "write_object ns = write_object ms"
proof -
  have "set ns = set ms" using assms(3) by (metis set_mset_mset)
  have "inj_on units_of (fst ` set ms)"
    using assms(1) utf16Units_inj
    by (fastforce simp: inj_on_def string_ok_def units_of_def split: sum.splits)
  then have "distinct (map (\<lambda>m. units_of (fst m)) ms)"
    using assms(2) by (auto simp: distinct_map inj_on_def)
  then have "sort_key (\<lambda>m. units_of (fst m)) ns = sort_key (\<lambda>m. units_of (fst m)) ms"
    by (intro sort_key_unique) (simp_all add: assms(3))
  then show ?thesis
    using write_object_sorted [of ns limits] write_object_sorted [of ms limits] assms(1) \<open>set ns = set ms\<close> by simp
qed

lemma reordered_writes:
  assumes "reordered v w" and "json_ok limits nops v" and "names_distinct v"
  shows "writeCanonical nops w = writeCanonical nops v"
  using assms
proof (induction rule: reordered.induct)
  case (reordered_array vs ws)
  then have "map (writeCanonical nops) ws = map (writeCanonical nops) vs"
    by (auto simp: list_all2_conv_all_nth list_all_iff intro!: nth_equalityI)
  then show ?case by simp
next
  case (reordered_object ms ns ns')
  let ?f = "map_prod id (writeCanonical nops)"
  have "map ?f ns = map ?f ms"
    using reordered_object
    by (auto simp: list_all2_conv_all_nth list_all_iff prod_eq_iff intro!: nth_equalityI)
  then have "mset (map ?f ns') = mset (map ?f ms)"
    using reordered_object.hyps by (metis mset_map)
  then have "write_object (map ?f ns') = write_object (map ?f ms)"
    using reordered_object.prems
    by (intro write_object_reordered [of _ limits]) (auto simp: list_all_iff comp_def)
  then show ?case by simp
qed simp

section \<open>Properties\<close>

lemma preflight_accepts_iff:
  "preflightConstructedJson limits nops v = Inr n \<longleftrightarrow>
     json_ok limits nops v \<and> json_depth v \<le> jl_maxDepth limits \<and>
     json_nodes v \<le> jl_maxStructuralWork limits \<and> string_bytes v \<le> jl_maxTotalStringBytes limits \<and>
     n = canonical_size nops v \<and> n \<le> jl_maxInputBytes limits"
proof -
  have "within limits new_preflight" by (simp add: within_def new_preflight_def)
  with costs_drain [of limits nops "[(v, 1)]"]
  have "drain limits nops [(v, 1)] new_preflight = Inr st \<longleftrightarrow> frame_ok limits nops (v, 1) \<and>
      st = charge (json_nodes v) (string_bytes v) (canonical_size nops v) new_preflight \<and> within limits st" for st
    by (simp add: costs_def)
  then show ?thesis
    unfolding preflightConstructedJson_def next_if_ok_Inr
    by (auto simp: frame_ok_def within_def charge_def new_preflight_def)
qed

text \<open>
  C39: The preflight of a constructed value accepts exactly the values within the declared limits:
  every string and member name is valid UTF-8 of admissible length, every number is finite and not
  negative zero, arrays, objects, nesting depth, number of nodes and total string bytes are within
  their limits, and so is the size of the canonical text, which it returns.
\<close>

theorem json_preflight_exact:
  "preflightConstructedJson limits nops v = Inr n \<longleftrightarrow>
     json_ok limits nops v \<and> json_depth v \<le> jl_maxDepth limits \<and>
     json_nodes v \<le> jl_maxStructuralWork limits \<and> string_bytes v \<le> jl_maxTotalStringBytes limits \<and>
     n = canonical_size nops v \<and> n \<le> jl_maxInputBytes limits"
  by (rule preflight_accepts_iff)


text \<open>
  The canonical text, and so its fingerprint, does not depend on the iteration order of the
  objects of a value, at any depth: values that differ in that order only have the same text.
\<close>

theorem canonical_text_order_independent:
  assumes "canonicalizeJson limits nops v = Inr t" and "names_distinct v" and "reordered v w"
  shows "writeCanonical nops w = Inr t"
proof -
  have "json_ok limits nops v" and "writeCanonical nops v = Inr t"
    using assms(1) by (auto simp: canonicalizeJson_def next_if_ok_Inr preflight_accepts_iff)
  then show ?thesis using reordered_writes [OF assms(3) _ assms(2), of limits nops] by simp
qed

text \<open>Natural numbers as the numbers of the witnesses.\<close>

definition sample_numbers :: "nat number_ops" where
  "sample_numbers = \<lparr>no_finite = (\<lambda>n. True), no_signbit = (\<lambda>n. False), no_zero = (\<lambda>n. n = 0), no_to_chars = (\<lambda>n. Some (decimal n))\<rparr>"

definition sample_limits :: json_limits where
  "sample_limits = \<lparr>jl_maxInputBytes = 40, jl_maxDepth = 4, jl_maxStructuralWork = 10, jl_maxStringBytes = 8,
     jl_maxTotalStringBytes = 16, jl_maxArrayElements = 4, jl_maxObjectMembers = 4\<rparr>"


lemma sample_units: "utf16Units ''a'' = Inr [97]" "utf16Units ''b'' = Inr [98]"
  by (simp_all add: utf16Units.simps utf8_lead_def scalar_ok_def code_units_def)

lemma sample_twelve: "ecmascriptNumber sample_numbers 12 = Inr ''12''"
  by (simp add: ecmascriptNumber_def sample_numbers_def decimal.simps char_of_def bit_0 split_at_def explicit_exponent_def
      ecmascript_digits_def Let_def)

theorem canonical_text_order_independent_witness:
  "writeCanonical sample_numbers (JObject [(''a'', JNull), (''b'', JNumber 12)]) =
     Inr (CHR ''{'' # [CHR 0x22, CHR ''a'', CHR 0x22] @ '':null,'' @ [CHR 0x22, CHR ''b'', CHR 0x22] @ '':12}'')"
proof -
  let ?v = "JObject [(''b'', JNumber 12), (''a'', JNull)] :: nat json"
  have "canonicalizeJson sample_limits sample_numbers ?v =
     Inr (CHR ''{'' # [CHR 0x22, CHR ''a'', CHR 0x22] @ '':null,'' @ [CHR 0x22, CHR ''b'', CHR 0x22] @ '':12}'')"
  proof -
    have "preflightConstructedJson sample_limits sample_numbers ?v = Inr 17"
      by (simp add: preflight_accepts_iff sample_limits_def string_ok_def sample_units number_ok_def sample_twelve
          string_size_def escape_byte_def text_length_def) (simp add: sample_numbers_def)
    moreover have "writeCanonical sample_numbers ?v =
        Inr (CHR ''{'' # [CHR 0x22, CHR ''a'', CHR 0x22] @ '':null,'' @ [CHR 0x22, CHR ''b'', CHR 0x22] @ '':12}'')"
      by (simp add: write_object_def property_keys_def sample_units write_member_def writeEscapedString_def
          escape_byte_def write_number_def sample_twelve) (simp add: sample_numbers_def)
    ultimately show ?thesis by (simp add: canonicalizeJson_def)
  qed
  moreover have "names_distinct ?v" by simp
  moreover have "reordered ?v (JObject [(''a'', JNull), (''b'', JNumber 12)])"
    by (rule reordered_object [of _ "[(''b'', JNumber 12), (''a'', JNull)]"]) (simp_all add: reordered_same add_mset_commute)
  ultimately show ?thesis by (rule canonical_text_order_independent)
qed

end
