(* ===== verification/Json_Scanner.thy ===== *)
theory Json_Scanner
  imports Json_Canonical
begin

text \<open>
  The lexical preflight of JSON text (\<open>IJsonPreflight\<close> of \<open>lib/Bindings/Binding.cpp\<close>), which every
  trace document and binding record passes before it is parsed: a recursive-descent scan that
  enforces the resource limits and rejects what an ordinary parser would lose (duplicate members,
  negative zero, lone surrogates). Two conversions of library code are parameters: parsing one
  quoted string token with LLVM, and converting a number token with \<open>std::from_chars\<close>.

  The scan ends because the nesting depth and the member counts are bounded by the limits; the
  lemmas show that it only moves forward inside its input and keeps the limits.
\<close>

text \<open>
  \<open>lx_string token\<close>: \<open>None\<close> when the token does not parse, \<open>Some None\<close> when it is not a string;
  \<open>lx_number token\<close>: \<open>None\<close> when the token is not a finite binary64 value, else whether it is zero.
\<close>

record lexical_ops =
  lx_string :: "string \<Rightarrow> string option option"
  lx_number :: "string \<Rightarrow> bool option"

record json_scan =
  js_position :: nat
  js_structuralWork :: nat
  js_totalStringBytes :: nat

definition new_scan :: json_scan where
  "new_scan = \<lparr>js_position = 0, js_structuralWork = 0, js_totalStringBytes = 0\<rparr>"

abbreviation at :: "nat \<Rightarrow> json_scan \<Rightarrow> json_scan" where
  "at p st \<equiv> st\<lparr>js_position := p\<rparr>"

definition is_space :: "char \<Rightarrow> bool" where
  "is_space c \<longleftrightarrow> c = CHR '' '' \<or> c = CHR 0x09 \<or> c = CHR 0x0a \<or> c = CHR 0x0d"

definition is_digit :: "char \<Rightarrow> bool" where
  "is_digit c \<longleftrightarrow> 48 \<le> byte_of c \<and> byte_of c \<le> 57"

text \<open>Advance over a run of characters, the \<open>while\<close> loops of the scanner.\<close>

definition skip_while :: "(char \<Rightarrow> bool) \<Rightarrow> string \<Rightarrow> nat \<Rightarrow> nat" where
  "skip_while P input p = p + length (takeWhile P (drop p input))"

abbreviation skipWhitespace :: "string \<Rightarrow> nat \<Rightarrow> nat" where
  "skipWhitespace \<equiv> skip_while is_space"

section \<open>Tokens\<close>

definition spendWork :: "json_limits \<Rightarrow> json_scan \<Rightarrow> json_scan expected" where
  "spendWork limits st =
     (let st1 = st\<lparr>js_structuralWork := js_structuralWork st + 1\<rparr> in
      if js_structuralWork st1 > jl_maxStructuralWork limits then jsonError ''structural work limit exceeded''
      else Inr st1)"

definition scanLiteral :: "string \<Rightarrow> string \<Rightarrow> json_scan \<Rightarrow> json_scan expected" where
  "scanLiteral input literal st =
     (if take (length literal) (drop (js_position st) input) \<noteq> literal
      then jsonError (''invalid literal at byte '' @ decimal (js_position st))
      else Inr (at (js_position st + length literal) st))"

definition hex_value :: "char \<Rightarrow> nat option" where
  "hex_value c =
     (let b = byte_of c in
      if 48 \<le> b \<and> b \<le> 57 then Some (b - 48)
      else if 97 \<le> b \<and> b \<le> 102 then Some (b - 87)
      else if 65 \<le> b \<and> b \<le> 70 then Some (b - 55) else None)"

definition hex4 :: "string \<Rightarrow> nat \<Rightarrow> nat option" where
  "hex4 input p =
     fold (\<lambda>index unit. case unit of None \<Rightarrow> None
        | Some u \<Rightarrow> map_option (\<lambda>d. push_bit 4 u OR d) (hex_value (input ! (p + index)))) [0..<4] (Some 0)"

definition finish_string ::
  "lexical_ops \<Rightarrow> json_limits \<Rightarrow> string \<Rightarrow> nat \<Rightarrow> nat \<Rightarrow> json_scan \<Rightarrow> (string \<times> json_scan) expected" where
  "finish_string lx limits input start p st =
     (case lx_string lx (drop start (take p input)) of
        None \<Rightarrow> jsonError (''invalid Unicode string at byte '' @ decimal start)
      | Some None \<Rightarrow> jsonError ''internal string parse failure''
      | Some (Some s) \<Rightarrow>
          if length s > jl_maxStringBytes limits then jsonError ''string byte limit exceeded''
          else let st1 = (at p st)\<lparr>js_totalStringBytes := js_totalStringBytes st + length s\<rparr> in
            if js_totalStringBytes st1 > jl_maxTotalStringBytes limits
            then jsonError ''total string byte limit exceeded'' else Inr (s, st1))"

text \<open>The body of a string from position \<open>p\<close> on.\<close>

function string_loop ::
  "lexical_ops \<Rightarrow> json_limits \<Rightarrow> string \<Rightarrow> nat \<Rightarrow> nat \<Rightarrow> json_scan \<Rightarrow> (string \<times> json_scan) expected" where
  "string_loop lx limits input start p st =
     (if p \<ge> length input then jsonError ''unterminated string''
      else let byte = byte_of (input ! p) in
      if byte = 0x22 then finish_string lx limits input start (p + 1) st
      else if byte < 0x20 then jsonError (''unescaped control character at byte '' @ decimal p)
      else if byte \<noteq> 0x5c then string_loop lx limits input start (p + 1) st
      else if p + 1 = length input then jsonError ''unterminated escape sequence''
      else let escape = byte_of (input ! (p + 1)) in
      if escape = 0x22 \<or> escape = 0x5c \<or> escape = 0x2f \<or> escape = 0x62 \<or> escape = 0x66 \<or>
         escape = 0x6e \<or> escape = 0x72 \<or> escape = 0x74
      then string_loop lx limits input start (p + 2) st
      else if escape \<noteq> 0x75 \<or> p + 2 + 4 > length input
      then jsonError (''invalid string escape at byte '' @ decimal (p + 1))
      else case hex4 input (p + 2) of
        None \<Rightarrow> jsonError (''invalid Unicode escape at byte '' @ decimal (p + 2))
      | Some codeUnit \<Rightarrow>
          if codeUnit \<ge> 0xdc00 \<and> codeUnit \<le> 0xdfff
          then jsonError ''lone low UTF-16 surrogate is invalid Unicode''
          else if codeUnit < 0xd800 \<or> codeUnit > 0xdbff then string_loop lx limits input start (p + 6) st
          else if p + 6 + 6 > length input \<or> byte_of (input ! (p + 6)) \<noteq> 0x5c \<or> byte_of (input ! (p + 7)) \<noteq> 0x75
          then jsonError ''lone high UTF-16 surrogate is invalid Unicode''
          else case hex4 input (p + 8) of
            None \<Rightarrow> jsonError ''invalid low UTF-16 surrogate escape''
          | Some lowSurrogate \<Rightarrow>
              if lowSurrogate < 0xdc00 \<or> lowSurrogate > 0xdfff
              then jsonError ''high UTF-16 surrogate requires a low surrogate''
              else string_loop lx limits input start (p + 12) st)"
  by pat_completeness auto
termination
  by (relation "measure (\<lambda>(lx, limits, input, start, p, st). length input - p)") auto

declare string_loop.simps [simp del]

definition scanString ::
  "lexical_ops \<Rightarrow> json_limits \<Rightarrow> string \<Rightarrow> json_scan \<Rightarrow> (string \<times> json_scan) expected" where
  "scanString lx limits input st = string_loop lx limits input (js_position st) (js_position st + 1) st"

text \<open>The parts of a number: each takes a position and returns the next, or the error.\<close>

abbreviation digit_at :: "string \<Rightarrow> nat \<Rightarrow> bool" where
  "digit_at input p \<equiv> p < length input \<and> is_digit (input ! p)"

abbreviation skipDigits :: "string \<Rightarrow> nat \<Rightarrow> nat" where
  "skipDigits \<equiv> skip_while is_digit"

definition scan_integer :: "string \<Rightarrow> nat \<Rightarrow> nat expected" where
  "scan_integer input p =
     (if input ! p = CHR ''0''
      then if digit_at input (p + 1) then jsonError ''number has a leading zero'' else Inr (p + 1)
      else if \<not> is_digit (input ! p) then jsonError ''number requires an integer part''
      else Inr (skipDigits input p))"

definition scan_fraction :: "string \<Rightarrow> nat \<Rightarrow> nat expected" where
  "scan_fraction input p =
     (if p < length input \<and> input ! p = CHR ''.''
      then let q = skipDigits input (p + 1) in
        if q = p + 1 then jsonError ''number fraction requires a digit'' else Inr q
      else Inr p)"

definition scan_exponent :: "string \<Rightarrow> nat \<Rightarrow> nat expected" where
  "scan_exponent input p =
     (if p < length input \<and> (input ! p = CHR ''e'' \<or> input ! p = CHR ''E'')
      then let p1 = p + 1;
               p2 = (if p1 < length input \<and> (input ! p1 = CHR ''+'' \<or> input ! p1 = CHR ''-'') then p1 + 1 else p1);
               q = skipDigits input p2
           in if q = p2 then jsonError ''number exponent requires a digit'' else Inr q
      else Inr p)"

definition scanNumber :: "lexical_ops \<Rightarrow> string \<Rightarrow> json_scan \<Rightarrow> json_scan expected" where
  "scanNumber lx input st =
     (let start = js_position st;
          negative = (input ! start = CHR ''-'');
          p = (if negative then start + 1 else start)
      in if negative \<and> p = length input then jsonError ''incomplete number''
      else next_if_ok (scan_integer input p) (\<lambda>p1.
        next_if_ok (scan_fraction input p1) (\<lambda>p2.
        next_if_ok (scan_exponent input p2) (\<lambda>p3.
          case lx_number lx (drop start (take p3 input)) of
            None \<Rightarrow> jsonError ''number is not a finite IEEE-754 binary64 value''
          | Some zero \<Rightarrow>
              if negative \<and> zero then jsonError ''negative zero is forbidden by RFC 8785 errata 7920''
              else Inr (at p3 st)))))"

section \<open>Values\<close>

text \<open>\<open>array_loop\<close> and \<open>object_loop\<close> are the loops of \<open>scanArray\<close> and \<open>scanObject\<close>.\<close>

function (sequential) scanValue :: "lexical_ops \<Rightarrow> json_limits \<Rightarrow> string \<Rightarrow> nat \<Rightarrow> json_scan \<Rightarrow> json_scan expected"
  and array_loop :: "lexical_ops \<Rightarrow> json_limits \<Rightarrow> string \<Rightarrow> nat \<Rightarrow> nat \<Rightarrow> json_scan \<Rightarrow> json_scan expected"
  and object_loop ::
    "lexical_ops \<Rightarrow> json_limits \<Rightarrow> string \<Rightarrow> nat \<Rightarrow> nat \<Rightarrow> string list \<Rightarrow> json_scan \<Rightarrow> json_scan expected" where
  "scanValue lx limits input depth st =
     (if depth > jl_maxDepth limits then jsonError ''maximum depth exceeded''
      else next_if_ok (spendWork limits st) (\<lambda>st1.
        let p = skipWhitespace input (js_position st1); st2 = at p st1 in
        if p = length input then jsonError ''unexpected end of input''
        else let c = input ! p in
        if c = CHR ''n'' then scanLiteral input ''null'' st2
        else if c = CHR ''t'' then scanLiteral input ''true'' st2
        else if c = CHR ''f'' then scanLiteral input ''false'' st2
        else if c = CHR 0x22 then next_if_ok (scanString lx limits input st2) (\<lambda>(s, st3). Inr st3)
        else if c = CHR ''['' then
          (let q = skipWhitespace input (p + 1) in
           if q < length input \<and> input ! q = CHR '']'' then Inr (at (q + 1) st2)
           else array_loop lx limits input depth 0 (at q st2))
        else if c = CHR ''{'' then
          (let q = skipWhitespace input (p + 1) in
           if q < length input \<and> input ! q = CHR ''}'' then Inr (at (q + 1) st2)
           else object_loop lx limits input depth 0 [] (at q st2))
        else if c = CHR ''-'' \<or> is_digit c then scanNumber lx input st2
        else jsonError (''unexpected token at byte '' @ decimal p)))"
| "array_loop lx limits input depth elements st =
     (if elements + 1 > jl_maxArrayElements limits then jsonError ''array element limit exceeded''
      else next_if_ok (scanValue lx limits input (depth + 1) st) (\<lambda>st1.
        let p = skipWhitespace input (js_position st1) in
        if p = length input then jsonError ''unterminated array''
        else if input ! p = CHR '']'' then Inr (at (p + 1) st1)
        else if input ! p \<noteq> CHR '','' then jsonError ''array entries must be comma-separated''
        else array_loop lx limits input depth (elements + 1) (at (skipWhitespace input (p + 1)) st1)))"
| "object_loop lx limits input depth members names st =
     (if members + 1 > jl_maxObjectMembers limits then jsonError ''object member limit exceeded''
      else if js_position st = length input \<or> input ! js_position st \<noteq> CHR 0x22
      then jsonError ''object property name must be a string''
      else next_if_ok (scanString lx limits input st) (\<lambda>(nm, st1).
        if nm \<in> set names then jsonError (''duplicate object property '' @ [CHR 0x27] @ nm @ [CHR 0x27])
        else let p = skipWhitespace input (js_position st1) in
        if p = length input then jsonError (''object property requires '' @ [CHR 0x27, CHR '':'', CHR 0x27])
        else if input ! p \<noteq> CHR '':'' then jsonError (''object property requires '' @ [CHR 0x27, CHR '':'', CHR 0x27])
        else next_if_ok (scanValue lx limits input (depth + 1) (at (p + 1) st1)) (\<lambda>st2.
          let q = skipWhitespace input (js_position st2) in
          if q = length input then jsonError ''unterminated object''
          else if input ! q = CHR ''}'' then Inr (at (q + 1) st2)
          else if input ! q \<noteq> CHR '','' then jsonError ''object entries must be comma-separated''
          else object_loop lx limits input depth (members + 1) (nm # names) (at (skipWhitespace input (q + 1)) st2))))"
  by pat_completeness auto

text \<open>The rank of a call: the depth that is left, then the entries that are left.\<close>

fun scan_rank where
  "scan_rank (Inl (lx, limits, input, depth, st)) =
     ((if depth > jl_maxDepth limits then 0 else 2 * (jl_maxDepth limits - depth) + 2 :: nat), 0 :: nat)"
| "scan_rank (Inr (Inl (lx, limits, input, depth, elements, st))) =
     ((if depth > jl_maxDepth limits then 1 else 2 * (jl_maxDepth limits - depth) + 1), Suc (jl_maxArrayElements limits) - elements)"
| "scan_rank (Inr (Inr (lx, limits, input, depth, members, names, st))) =
     ((if depth > jl_maxDepth limits then 1 else 2 * (jl_maxDepth limits - depth) + 1), Suc (jl_maxObjectMembers limits) - members)"

termination scanValue
  by (relation "inv_image (less_than <*lex*> less_than) scan_rank") (auto simp: not_less)

declare scanValue.simps [simp del] array_loop.simps [simp del] object_loop.simps [simp del]

definition scanDocument :: "lexical_ops \<Rightarrow> json_limits \<Rightarrow> string \<Rightarrow> json_scan expected" where
  "scanDocument lx limits input =
     (if length input > jl_maxInputBytes limits then jsonError ''input byte limit exceeded''
      else next_if_ok (scanValue lx limits input 1 (at (skipWhitespace input 0) new_scan)) (\<lambda>st.
        let p = skipWhitespace input (js_position st) in
        if p \<noteq> length input then jsonError (''trailing input at byte '' @ decimal p) else Inr (at p st)))"

text \<open>\<open>parse\<close> stands for \<open>llvm::json::parse\<close> on the whole text.\<close>

definition parseIJson ::
  "lexical_ops \<Rightarrow> (string \<Rightarrow> 'n json expected) \<Rightarrow> json_limits \<Rightarrow> string \<Rightarrow> 'n json expected" where
  "parseIJson lx parse limits input =
     next_if_ok (scanDocument lx limits input) (\<lambda>st.
       case parse input of Inl e \<Rightarrow> jsonError (''invalid JSON: '' @ e) | Inr v \<Rightarrow> Inr v)"

definition canonicalizeJsonText ::
  "lexical_ops \<Rightarrow> (string \<Rightarrow> 'n json expected) \<Rightarrow> 'n number_ops \<Rightarrow> json_limits \<Rightarrow> string \<Rightarrow> string expected" where
  "canonicalizeJsonText lx parse nops limits input =
     next_if_ok (parseIJson lx parse limits input) (canonicalizeJson limits nops)"

section \<open>Forward progress and limits\<close>

definition scanned :: "json_limits \<Rightarrow> string \<Rightarrow> json_scan \<Rightarrow> json_scan \<Rightarrow> bool" where
  "scanned limits input st st' \<longleftrightarrow> js_position st < js_position st' \<and> js_position st' \<le> length input \<and>
     js_structuralWork st \<le> js_structuralWork st' \<and> js_totalStringBytes st \<le> js_totalStringBytes st' \<and>
     (js_structuralWork st \<le> jl_maxStructuralWork limits \<longrightarrow> js_structuralWork st' \<le> jl_maxStructuralWork limits) \<and>
     (js_totalStringBytes st \<le> jl_maxTotalStringBytes limits \<longrightarrow> js_totalStringBytes st' \<le> jl_maxTotalStringBytes limits)"

lemma scanned_trans: "scanned limits input st st1 \<Longrightarrow> scanned limits input st1 st2 \<Longrightarrow> scanned limits input st st2"
  by (auto simp: scanned_def)

lemma skip_while_bounds: "p \<le> skip_while P input p" "p \<le> length input \<Longrightarrow> skip_while P input p \<le> length input"
proof -
  show "p \<le> skip_while P input p" by (simp add: skip_while_def)
  have "length (takeWhile P (drop p input)) \<le> length (drop p input)" by (rule length_takeWhile_le)
  then show "p \<le> length input \<Longrightarrow> skip_while P input p \<le> length input" by (simp add: skip_while_def)
qed

lemma skip_within: "p \<le> length input \<Longrightarrow> p \<le> skip_while P input p \<and> skip_while P input p \<le> length input"
  using skip_while_bounds by auto

lemma finish_string_scanned:
  assumes "finish_string lx limits input start q st = Inr (s, st')" and "js_position st < q" and "q \<le> length input"
  shows "scanned limits input st st'"
  using assms by (auto simp: finish_string_def scanned_def Let_def split: option.splits if_splits)

lemma string_loop_cases:
  assumes "string_loop lx limits input start p st = Inr r"
  shows "p < length input \<and> (finish_string lx limits input start (p + 1) st = Inr r \<or>
    (\<exists>q > p. string_loop lx limits input start q st = Inr r))"
proof -
  have step: "p < p + 1" "p < p + 2" "p < p + 6" "p < p + 12" by simp_all
  from assms show ?thesis
    by (subst (asm) string_loop.simps)
      (auto simp: Let_def split: if_split_asm option.split_asm intro: step exI [of _ "p + 12"] exI [of _ "p + 6"])
qed

lemma string_loop_scanned:
  assumes "string_loop lx limits input start p st = Inr (s, st')" and "js_position st < p"
  shows "scanned limits input st st'"
  using assms
proof (induction "length input - p" arbitrary: p rule: less_induct)
  case less
  from string_loop_cases [OF less.prems(1)] consider "p < length input" "finish_string lx limits input start (p + 1) st = Inr (s, st')"
    | q where "p < length input" "p < q" "string_loop lx limits input start q st = Inr (s, st')" by blast
  then show ?case
  proof cases
    case 1
    then show ?thesis using less.prems(2) by (intro finish_string_scanned [OF 1(2)]) simp_all
  next
    case 2
    then show ?thesis using less.prems(2) by (intro less.hyps [OF _ 2(3)]) simp_all
  qed
qed

lemma scanString_scanned:
  "scanString lx limits input st = Inr (s, st') \<Longrightarrow> scanned limits input st st'"
  by (simp add: scanString_def string_loop_scanned)

lemma scanLiteral_scanned:
  assumes "scanLiteral input literal st = Inr st'" and "literal \<noteq> []"
  shows "scanned limits input st st'"
proof -
  have t: "take (length literal) (drop (js_position st) input) = literal" and st': "st' = at (js_position st + length literal) st"
    using assms(1) by (simp_all add: scanLiteral_def split: if_splits)
  have "length literal \<le> length (drop (js_position st) input)" using arg_cong [OF t, of length] by simp
  then show ?thesis using assms(2) by (cases literal) (simp_all add: st' scanned_def)
qed

lemma scanNumber_scanned:
  assumes "scanNumber lx input st = Inr st'" and "js_position st < length input"
  shows "scanned limits input st st'"
proof -
  let ?p = "if input ! js_position st = CHR ''-'' then js_position st + 1 else js_position st"
  obtain p1 p2 p3 where p1: "scan_integer input ?p = Inr p1" and p2: "scan_fraction input p1 = Inr p2"
    and p3: "scan_exponent input p2 = Inr p3" and st': "st' = at p3 st" and p: "?p < length input"
    using assms by (auto simp: scanNumber_def Let_def next_if_ok_Inr split: if_splits option.splits)
  have run: "is_digit (input ! q) \<Longrightarrow> q < length input \<Longrightarrow> q < skipDigits input q" for q
    by (simp add: skip_while_def Cons_nth_drop_Suc [symmetric])
  have "?p < p1 \<and> p1 \<le> length input"
    using p1 p run [of ?p] skip_while_bounds(2) [where P = is_digit and input = input and p = ?p]
    by (auto simp: scan_integer_def split: if_split_asm)
  moreover from this have "p1 \<le> p2 \<and> p2 \<le> length input"
    using p2 skip_while_bounds [where P = is_digit and input = input and p = "p1 + 1"] by (auto simp: scan_fraction_def Let_def split: if_split_asm)
  moreover from this have "p2 \<le> p3 \<and> p3 \<le> length input"
    using p3 skip_while_bounds [where P = is_digit and input = input and p = "p2 + 1"] skip_while_bounds [where P = is_digit and input = input and p = "p2 + 2"]
    by (auto simp: scan_exponent_def Let_def split: if_split_asm)
  ultimately show ?thesis by (simp add: scanned_def st' split: if_splits)
qed

lemma spendWork_ok: "spendWork limits st = Inr st1 \<longleftrightarrow> st1 = st\<lparr>js_structuralWork := js_structuralWork st + 1\<rparr> \<and>
    js_structuralWork st + 1 \<le> jl_maxStructuralWork limits"
  by (auto simp: spendWork_def Let_def)

lemma scanned_at: "scanned limits input (at p st) st' \<Longrightarrow> js_position st \<le> p \<Longrightarrow> scanned limits input st st'"
  by (auto simp: scanned_def)

lemma scanned_to: "scanned limits input st st' \<Longrightarrow> js_position st' \<le> p \<Longrightarrow> p \<le> length input \<Longrightarrow> scanned limits input st (at p st')"
  by (auto simp: scanned_def)

text \<open>What an accepting run of each production went through.\<close>

lemma scanValue_accepts:
  assumes "scanValue lx limits input depth st = Inr st'"
  obtains st1 p st2 where "st1 = st\<lparr>js_structuralWork := js_structuralWork st + 1\<rparr>"
    and "js_structuralWork st1 \<le> jl_maxStructuralWork limits" and "p = skipWhitespace input (js_position st)"
    and "p \<noteq> length input" and "st2 = at p st1" and "depth \<le> jl_maxDepth limits"
    and "(\<exists>literal \<in> {''null'', ''true'', ''false''}. scanLiteral input literal st2 = Inr st') \<or>
      (\<exists>s. scanString lx limits input st2 = Inr (s, st')) \<or> scanNumber lx input st2 = Inr st' \<or>
      (\<exists>q. q = skipWhitespace input (p + 1) \<and> q < length input \<and> st' = at (q + 1) st2) \<or>
      (\<exists>q. q = skipWhitespace input (p + 1) \<and>
         (array_loop lx limits input depth 0 (at q st2) = Inr st' \<or> object_loop lx limits input depth 0 [] (at q st2) = Inr st'))"
  using assms
  by (subst (asm) scanValue.simps) (auto simp: Let_def next_if_ok_Inr spendWork_ok split: if_split_asm prod.split_asm)

lemma array_loop_accepts:
  assumes "array_loop lx limits input depth elements st = Inr st'"
  obtains st1 p where "elements < jl_maxArrayElements limits" and "scanValue lx limits input (depth + 1) st = Inr st1"
    and "p = skipWhitespace input (js_position st1)" and "p \<noteq> length input"
    and "st' = at (p + 1) st1 \<or>
      input ! p = CHR '','' \<and> array_loop lx limits input depth (elements + 1) (at (skipWhitespace input (p + 1)) st1) = Inr st'"
  using assms by (subst (asm) array_loop.simps) (auto simp: Let_def next_if_ok_Inr split: if_split_asm)

lemma object_loop_accepts:
  assumes "object_loop lx limits input depth members names st = Inr st'"
  obtains nm st1 p st2 q where "members < jl_maxObjectMembers limits" and "scanString lx limits input st = Inr (nm, st1)"
    and "nm \<notin> set names" and "p = skipWhitespace input (js_position st1)" and "p \<noteq> length input"
    and "scanValue lx limits input (depth + 1) (at (p + 1) st1) = Inr st2"
    and "q = skipWhitespace input (js_position st2)" and "q \<noteq> length input"
    and "st' = at (q + 1) st2 \<or>
      object_loop lx limits input depth (members + 1) (nm # names) (at (skipWhitespace input (q + 1)) st2) = Inr st'"
  using assms by (subst (asm) object_loop.simps) (auto simp: Let_def next_if_ok_Inr split: if_split_asm)

text \<open>Induction along the calls of the three mutually recursive productions.\<close>

fun call_rank where
  "call_rank limits (Inl (depth, st)) =
     ((if depth > jl_maxDepth limits then 0 else 2 * (jl_maxDepth limits - depth) + 2 :: nat), 0 :: nat)"
| "call_rank limits (Inr (Inl (depth, elements, st))) =
     ((if depth > jl_maxDepth limits then 1 else 2 * (jl_maxDepth limits - depth) + 1), Suc (jl_maxArrayElements limits) - elements)"
| "call_rank limits (Inr (Inr (depth, members, names, st))) =
     ((if depth > jl_maxDepth limits then 1 else 2 * (jl_maxDepth limits - depth) + 1), Suc (jl_maxObjectMembers limits) - members)"

lemma scan_call_induct:
  fixes V :: "nat \<Rightarrow> json_scan \<Rightarrow> bool" and A :: "nat \<Rightarrow> nat \<Rightarrow> json_scan \<Rightarrow> bool"
    and B :: "nat \<Rightarrow> nat \<Rightarrow> string list \<Rightarrow> json_scan \<Rightarrow> bool"
  assumes "\<And>depth st. (\<And>st'. depth \<le> jl_maxDepth limits \<Longrightarrow> A depth 0 st') \<Longrightarrow>
      (\<And>st'. depth \<le> jl_maxDepth limits \<Longrightarrow> B depth 0 [] st') \<Longrightarrow> V depth st"
    and "\<And>depth elements st. (\<And>st'. elements < jl_maxArrayElements limits \<Longrightarrow> V (depth + 1) st') \<Longrightarrow>
      (\<And>st'. elements < jl_maxArrayElements limits \<Longrightarrow> A depth (elements + 1) st') \<Longrightarrow> A depth elements st"
    and "\<And>depth members names st. (\<And>st'. members < jl_maxObjectMembers limits \<Longrightarrow> V (depth + 1) st') \<Longrightarrow>
      (\<And>names' st'. members < jl_maxObjectMembers limits \<Longrightarrow> B depth (members + 1) names' st') \<Longrightarrow> B depth members names st"
  shows "V depth st" and "A depth elements st" and "B depth members names st"
  using assms
  apply induction_schema
  apply pat_completeness+
  apply (relation "inv_image (less_than <*lex*> less_than) (call_rank limits)")
  apply (auto simp: not_less)
  done

text \<open>After an entry, the scan goes on behind the separator that follows it.\<close>

lemma next_entry_scanned:
  assumes "scanned limits input st st1" and "p = skipWhitespace input (js_position st1)" and "p \<noteq> length input"
    and "st' = at (p + 1) st1 \<or>
      (\<exists>q \<in> {p + 1, skipWhitespace input (p + 1)}. q \<le> length input \<longrightarrow> scanned limits input (at q st1) st')"
  shows "scanned limits input st st'"
proof -
  have p: "js_position st1 \<le> p" "p < length input"
    using skip_within [of "js_position st1" input is_space] assms(1-3) by (auto simp: scanned_def)
  have q: "p + 1 \<le> q \<and> q \<le> length input" if "q \<in> {p + 1, skipWhitespace input (p + 1)}" for q
    using that skip_within [of "p + 1" input is_space] p by auto
  from assms(4) show ?thesis
  proof
    assume "st' = at (p + 1) st1"
    then show ?thesis using scanned_to [OF assms(1), of "p + 1"] p by simp
  next
    assume "\<exists>q \<in> {p + 1, skipWhitespace input (p + 1)}. q \<le> length input \<longrightarrow> scanned limits input (at q st1) st'"
    then obtain q where "p + 1 \<le> q" and "scanned limits input (at q st1) st'" using q by blast
    then show ?thesis using scanned_at [of limits input q st1 st'] p scanned_trans [OF assms(1)] by simp
  qed
qed

lemma scan_scanned:
  "(\<forall>st'. scanValue lx limits input depth st = Inr st' \<longrightarrow> js_position st \<le> length input \<longrightarrow> scanned limits input st st')"
  "(\<forall>st'. array_loop lx limits input depth elements st = Inr st' \<longrightarrow> js_position st \<le> length input \<longrightarrow> scanned limits input st st')"
  "(\<forall>st'. object_loop lx limits input depth members names st = Inr st' \<longrightarrow> js_position st \<le> length input \<longrightarrow> scanned limits input st st')"
proof (induction depth st and depth elements st and depth members names st rule: scan_call_induct [where limits = limits])
  case (1 depth st)
  show ?case
  proof (intro allI impI)
    fix st' assume run: "scanValue lx limits input depth st = Inr st'" and pos: "js_position st \<le> length input"
    from run show "scanned limits input st st'"
    proof (rule scanValue_accepts)
      fix st1 p st2
      assume st1: "st1 = st\<lparr>js_structuralWork := js_structuralWork st + 1\<rparr>" and work: "js_structuralWork st1 \<le> jl_maxStructuralWork limits"
        and p: "p = skipWhitespace input (js_position st)" "p \<noteq> length input" and st2: "st2 = at p st1"
        and depth: "depth \<le> jl_maxDepth limits"
        and tok: "(\<exists>literal \<in> {''null'', ''true'', ''false''}. scanLiteral input literal st2 = Inr st') \<or>
          (\<exists>s. scanString lx limits input st2 = Inr (s, st')) \<or> scanNumber lx input st2 = Inr st' \<or>
          (\<exists>q. q = skipWhitespace input (p + 1) \<and> q < length input \<and> st' = at (q + 1) st2) \<or>
          (\<exists>q. q = skipWhitespace input (p + 1) \<and>
             (array_loop lx limits input depth 0 (at q st2) = Inr st' \<or> object_loop lx limits input depth 0 [] (at q st2) = Inr st'))"
      have bounds: "js_position st \<le> p" "p < length input"
        using skip_within [OF pos, of is_space] p by auto
      define q where "q = skipWhitespace input (p + 1)"
      have q: "p < q" "q \<le> length input" using skip_within [of "p + 1" input is_space] bounds by (auto simp: q_def)
      have outer: "scanned limits input st2 st' \<Longrightarrow> scanned limits input st st'"
        using bounds(1) work by (auto simp: scanned_def st2 st1)
      have sub: "scanned limits input (at q st2) st' \<Longrightarrow> scanned limits input st2 st'"
        using q by (auto simp: scanned_def st2)
      from tok consider (literal) literal where "literal \<in> {''null'', ''true'', ''false''}" "scanLiteral input literal st2 = Inr st'"
        | (string) s where "scanString lx limits input st2 = Inr (s, st')" | (number) "scanNumber lx input st2 = Inr st'"
        | (empty) "q < length input" "st' = at (q + 1) st2" | (array) "array_loop lx limits input depth 0 (at q st2) = Inr st'"
        | (object) "object_loop lx limits input depth 0 [] (at q st2) = Inr st'"
        unfolding q_def by blast
      then have "scanned limits input st2 st'"
      proof cases
        case literal then show ?thesis by (intro scanLiteral_scanned [OF literal(2)]) auto
      next
        case string then show ?thesis by (rule scanString_scanned)
      next
        case number then show ?thesis by (rule scanNumber_scanned) (simp add: st2 bounds)
      next
        case empty then show ?thesis using q by (simp add: scanned_def st2)
      next
        case array then show ?thesis using 1(1) [OF depth, of "at q st2"] q by (intro sub) simp
      next
        case object then show ?thesis using 1(2) [OF depth, of "at q st2"] q by (intro sub) simp
      qed
      then show ?thesis by (rule outer)
    qed
  qed
next
  case (2 depth elements st)
  show ?case
  proof (intro allI impI)
    fix st' assume run: "array_loop lx limits input depth elements st = Inr st'" and pos: "js_position st \<le> length input"
    from run show "scanned limits input st st'"
    proof (rule array_loop_accepts)
      fix st1 p
      assume room: "elements < jl_maxArrayElements limits" and v: "scanValue lx limits input (depth + 1) st = Inr st1"
        and p: "p = skipWhitespace input (js_position st1)" "p \<noteq> length input"
        and rest: "st' = at (p + 1) st1 \<or>
          input ! p = CHR '','' \<and> array_loop lx limits input depth (elements + 1) (at (skipWhitespace input (p + 1)) st1) = Inr st'"
      have entry: "scanned limits input st st1" using 2(1) [OF room] v pos by blast
      show ?thesis by (rule next_entry_scanned [OF entry p]) (use rest 2(2) [OF room] in auto)
    qed
  qed
next
  case (3 depth members names st)
  show ?case
  proof (intro allI impI)
    fix st' assume run: "object_loop lx limits input depth members names st = Inr st'" and pos: "js_position st \<le> length input"
    from run show "scanned limits input st st'"
    proof (rule object_loop_accepts)
      fix nm st1 p st2 q
      assume room: "members < jl_maxObjectMembers limits" and key: "scanString lx limits input st = Inr (nm, st1)"
        and p: "p = skipWhitespace input (js_position st1)" "p \<noteq> length input"
        and v: "scanValue lx limits input (depth + 1) (at (p + 1) st1) = Inr st2"
        and q: "q = skipWhitespace input (js_position st2)" "q \<noteq> length input"
        and rest: "st' = at (q + 1) st2 \<or>
          object_loop lx limits input depth (members + 1) (nm # names) (at (skipWhitespace input (q + 1)) st2) = Inr st'"
      have name: "scanned limits input st st1" by (rule scanString_scanned [OF key])
      have "scanned limits input st st2"
        by (rule next_entry_scanned [OF name p]) (use v 3(1) [OF room] in auto)
      then show ?thesis by (rule next_entry_scanned [OF _ q]) (use rest 3(2) [OF room] in auto)
    qed
  qed
qed

text \<open>
  A document that the lexical preflight accepts was consumed completely, and the work and the
  string bytes spent on it, counted over all nested values, are within the limits, as is its length.
  The preflight is total: on every input and for
  all limits it ends with such a verdict or with an error.
\<close>

theorem accepted_document_within_limits:
  assumes "scanDocument lx limits input = Inr st"
  shows "js_position st = length input \<and> 0 < length input \<and> length input \<le> jl_maxInputBytes limits \<and>
    js_structuralWork st \<le> jl_maxStructuralWork limits \<and>
    js_totalStringBytes st \<le> jl_maxTotalStringBytes limits"
proof -
  let ?p0 = "skipWhitespace input 0"
  obtain st1 where size: "length input \<le> jl_maxInputBytes limits" and run: "scanValue lx limits input 1 (at ?p0 new_scan) = Inr st1"
    and st: "skipWhitespace input (js_position st1) = length input" "st = at (length input) st1"
    using assms by (auto simp: scanDocument_def Let_def next_if_ok_Inr split: if_splits)
  have "?p0 \<le> length input" using skip_within [of 0 input is_space] by simp
  then have "scanned limits input (at ?p0 new_scan) st1"
    using scan_scanned(1) [THEN spec, THEN mp, OF run] by simp
  then show ?thesis using size st by (auto simp: scanned_def new_scan_def)
qed

text \<open>A lexer for tokens without escapes, for the witnesses.\<close>

definition plain_lexer :: lexical_ops where
  "plain_lexer = \<lparr>lx_string = (\<lambda>token. Some (Some (butlast (tl token)))), lx_number = (\<lambda>token. Some (token = ''0'' \<or> token = ''-0''))\<rparr>"

lemmas scan_evaluation = scanDocument_def sample_limits_def plain_lexer_def new_scan_def scanValue.simps array_loop.simps
  object_loop.simps spendWork_def scanLiteral_def skip_while_def is_space_def Let_def scanString_def string_loop.simps
  finish_string_def nth_Cons' drop_Cons'

theorem accepted_document_within_limits_witness:
  "scanDocument plain_lexer sample_limits (''[true, ['' @ [CHR 0x22] @ ''a'' @ [CHR 0x22] @ '']]'') =
     Inr \<lparr>js_position = 13, js_structuralWork = 4, js_totalStringBytes = 1\<rparr> \<and> (13 :: nat) \<le> jl_maxInputBytes sample_limits"
proof -
  have run: "scanDocument plain_lexer sample_limits (''[true, ['' @ [CHR 0x22] @ ''a'' @ [CHR 0x22] @ '']]'') =
      Inr \<lparr>js_position = 13, js_structuralWork = 4, js_totalStringBytes = 1\<rparr>"
    by (simp add: scan_evaluation)
  from accepted_document_within_limits [OF run] run show ?thesis by simp
qed

end
