(* ===== verification/Trace_Parser.thy ===== *)
theory Trace_Parser
  imports Trace_Source Json_Scanner
begin

text \<open>
  The trace document parser (\<open>lib/gfsim/trace.cpp\<close>): the checks of a parsed JSON document, member by
  member, up to the trace document that a \<open>TraceSource\<close> replays, and the byte stream in front of it.

  A member function of \<open>TraceParser\<close> that answers \<open>bool\<close> and fills an output parameter is a function
  from the parser state to the decoded value, or \<open>None\<close> for \<open>false\<close>, and the new state; what a failing
  call left in its output parameter is never looked at. The LLVM accessors of a JSON number are the
  parameter record \<open>number_access\<close>, the LLVM parser, lexer and number conversions those of
  \<open>Json_Scanner\<close>, and the digest of SHA-256 is a parameter too.
\<close>

section \<open>Limits, diagnostics and parser state\<close>

record trace_limits =
  tl_maxDocumentBytes :: nat
  tl_maxNestingDepth :: nat
  tl_maxStringBytes :: nat
  tl_maxRecordCount :: nat
  tl_maxOperandsPerRecord :: nat
  tl_maxDependenciesPerRecord :: nat
  tl_maxAttributeMembers :: nat
  tl_maxAggregateDecodedBytes :: nat
  tl_maxDiagnostics :: nat

record trace_diagnostic =
  td_code :: string
  td_jsonPointer :: string
  td_sequenceId :: "u64 option"
  td_message :: string

record 'd trace_load_result =
  lr_document :: "'d pto_document option"
  lr_diagnostics :: "trace_diagnostic list"

definition succeeded :: "'d trace_load_result \<Rightarrow> bool" where
  "succeeded r \<longleftrightarrow> lr_document r \<noteq> None \<and> lr_diagnostics r = []"

definition primaryDiagnostic :: "'d trace_load_result \<Rightarrow> string" where
  "primaryDiagnostic r =
     (case lr_diagnostics r of [] \<Rightarrow> []
      | d # _ \<Rightarrow> td_code d @ (if td_jsonPointer d \<noteq> [] then '' at '' @ td_jsonPointer d else []) @
          (case td_sequenceId d of None \<Rightarrow> [] | Some q \<Rightarrow> '' for sequence_id '' @ decimal (unat q)) @
          '': '' @ td_message d)"

record trace_parser =
  tr_diagnostics :: "trace_diagnostic list"
  tr_decodedBytes :: nat
  tr_lastSequenceId :: "u64 option"
  tr_seenSequenceIds :: "u64 list"
  tr_declaredAddressSpaces :: "string list"

definition new_parser :: trace_parser where
  "new_parser = \<lparr>tr_diagnostics = [], tr_decodedBytes = 0, tr_lastSequenceId = None,
     tr_seenSequenceIds = [], tr_declaredAddressSpaces = []\<rparr>"

record ('n, 'd) number_access =
  na_integer :: "'n \<Rightarrow> 64 word option"
  na_uint64 :: "'n \<Rightarrow> u64 option"
  na_number :: "'n \<Rightarrow> 'd option"

type_synonym 'a parsed = "'a option \<times> trace_parser"

text \<open>\<open>if (!f(...)) return false;\<close> followed by the rest of the function.\<close>

definition parse_then :: "'a parsed \<Rightarrow> ('a \<Rightarrow> trace_parser \<Rightarrow> 'b parsed) \<Rightarrow> 'b parsed" where
  "parse_then r f = (case r of (None, st) \<Rightarrow> (None, st) | (Some x, st) \<Rightarrow> f x st)"

lemma parse_then_simps [simp]:
  "parse_then (None, st) f = (None, st)" "parse_then (Some x, st) f = f x st"
  by (simp_all add: parse_then_def)

lemma parse_then_cong [fundef_cong]:
  "r = r' \<Longrightarrow> (\<And>x st. r' = (Some x, st) \<Longrightarrow> f x st = g x st) \<Longrightarrow> parse_then r f = parse_then r' g"
  by (auto simp: parse_then_def split: prod.split option.split)

lemma parse_then_Some: "parse_then r f = (Some y, st') \<longleftrightarrow> (\<exists>x st. r = (Some x, st) \<and> f x st = (Some y, st'))"
  by (auto simp: parse_then_def split: prod.splits option.splits)

section \<open>Helpers\<close>

definition pointerToken :: "string \<Rightarrow> string" where
  "pointerToken token =
     concat (map (\<lambda>c. if c = CHR ''~'' then ''~0'' else if c = CHR ''/'' then ''~1'' else [c]) token)"

definition trace_fail :: "trace_limits \<Rightarrow> string \<Rightarrow> string \<Rightarrow> u64 option \<Rightarrow> string \<Rightarrow> trace_parser \<Rightarrow> 'a parsed" where
  "trace_fail limits code pointer sequenceId message st =
     (None, if length (tr_diagnostics st) < tl_maxDiagnostics limits
        then st\<lparr>tr_diagnostics := tr_diagnostics st @ [\<lparr>td_code = code, td_jsonPointer = pointer,
               td_sequenceId = sequenceId, td_message = message\<rparr>]\<rparr> else st)"

definition spendDecoded :: "trace_limits \<Rightarrow> nat \<Rightarrow> string \<Rightarrow> u64 option \<Rightarrow> trace_parser \<Rightarrow> unit parsed" where
  "spendDecoded limits bytes pointer sequenceId st =
     (if bytes > tl_maxAggregateDecodedBytes limits - min (tr_decodedBytes st) (tl_maxAggregateDecodedBytes limits)
      then trace_fail limits ''ACTRACE-LIMIT'' pointer sequenceId ''aggregate decoded byte limit exceeded'' st
      else (Some (), st\<lparr>tr_decodedBytes := tr_decodedBytes st + bytes\<rparr>))"

definition checkObject ::
  "trace_limits \<Rightarrow> (string \<times> 'n json) list \<Rightarrow> string \<Rightarrow> string list \<Rightarrow> string list \<Rightarrow> u64 option \<Rightarrow> trace_parser \<Rightarrow> unit parsed" where
  "checkObject limits object pointer required allowed sequenceId st =
     (case find (\<lambda>entry. fst entry \<notin> set allowed) object of
        Some entry \<Rightarrow> trace_fail limits ''ACTRACE-SCHEMA'' (pointer @ ''/'' @ pointerToken (fst entry)) sequenceId
          ''unknown object member'' st
      | None \<Rightarrow> (case find (\<lambda>key. map_of object key = None) required of
          Some key \<Rightarrow> trace_fail limits ''ACTRACE-SCHEMA'' (pointer @ ''/'' @ key) sequenceId
            ''required object member is missing'' st
        | None \<Rightarrow> (Some (), st)))"

fun getAsString :: "'n json option \<Rightarrow> string option" where
  "getAsString (Some (JString s)) = Some s"
| "getAsString _ = None"

fun getAsArray :: "'n json option \<Rightarrow> 'n json list option" where
  "getAsArray (Some (JArray vs)) = Some vs"
| "getAsArray _ = None"

fun getAsObject :: "'n json option \<Rightarrow> (string \<times> 'n json) list option" where
  "getAsObject (Some (JObject ms)) = Some ms"
| "getAsObject _ = None"

fun getAsUINT64 :: "('n, 'd) number_access \<Rightarrow> 'n json option \<Rightarrow> u64 option" where
  "getAsUINT64 na (Some (JNumber n)) = na_uint64 na n"
| "getAsUINT64 na _ = None"

definition readString :: "trace_limits \<Rightarrow> 'n json option \<Rightarrow> string \<Rightarrow> u64 option \<Rightarrow> trace_parser \<Rightarrow> string parsed" where
  "readString limits value pointer sequenceId st =
     (case getAsString value of
        None \<Rightarrow> trace_fail limits ''ACTRACE-SCHEMA'' pointer sequenceId ''expected a non-empty string'' st
      | Some s \<Rightarrow>
          if s = [] then trace_fail limits ''ACTRACE-SCHEMA'' pointer sequenceId ''expected a non-empty string'' st
          else parse_then (spendDecoded limits (length s) pointer sequenceId st) (\<lambda>_ st1. (Some s, st1)))"

definition readUInt ::
  "trace_limits \<Rightarrow> ('n, 'd) number_access \<Rightarrow> 'n json option \<Rightarrow> string \<Rightarrow> u64 option \<Rightarrow> trace_parser \<Rightarrow> u64 parsed" where
  "readUInt limits na value pointer sequenceId st =
     (case getAsUINT64 na value of
        None \<Rightarrow> trace_fail limits ''ACTRACE-SCHEMA'' pointer sequenceId ''expected an unsigned 64-bit integer'' st
      | Some n \<Rightarrow> parse_then (spendDecoded limits 8 pointer sequenceId st) (\<lambda>_ st1. (Some n, st1)))"

section \<open>Values\<close>

text \<open>
  \<open>parse_elements\<close> and \<open>parse_members\<close> are the loops over the entries of an array, from index \<open>i\<close> on,
  and of an object; both add to the output built so far.
\<close>

function (sequential) parseValue ::
    "trace_limits \<Rightarrow> ('n, 'd) number_access \<Rightarrow> 'n json \<Rightarrow> string \<Rightarrow> u64 \<Rightarrow> bool \<Rightarrow> trace_parser \<Rightarrow> 'd pto_value parsed"
  and parse_elements ::
    "trace_limits \<Rightarrow> ('n, 'd) number_access \<Rightarrow> 'n json list \<Rightarrow> nat \<Rightarrow> string \<Rightarrow> u64 \<Rightarrow> 'd pto_value list \<Rightarrow> trace_parser \<Rightarrow>
      'd pto_value list parsed"
  and parse_members ::
    "trace_limits \<Rightarrow> ('n, 'd) number_access \<Rightarrow> (string \<times> 'n json) list \<Rightarrow> string \<Rightarrow> u64 \<Rightarrow> (string \<times> 'd pto_value) list \<Rightarrow>
      trace_parser \<Rightarrow> (string \<times> 'd pto_value) list parsed" where
  "parseValue limits na v pointer sequenceId scalarOnly st =
     parse_then (spendDecoded limits 1 pointer (Some sequenceId) st) (\<lambda>_ st1.
       case v of
         JNull \<Rightarrow> (Some PNull, st1)
       | JBool b \<Rightarrow> (Some (PBool b), st1)
       | JNumber n \<Rightarrow>
           (case na_integer na n of Some i \<Rightarrow> (Some (PInt i), st1)
            | None \<Rightarrow> case na_uint64 na n of Some u \<Rightarrow> (Some (PUInt u), st1)
            | None \<Rightarrow> case na_number na n of Some d \<Rightarrow> (Some (PDouble d), st1)
            | None \<Rightarrow> if scalarOnly
                then trace_fail limits ''ACTRACE-SCHEMA'' pointer (Some sequenceId) ''immediate value must be a JSON scalar'' st1
                else trace_fail limits ''ACTRACE-SCHEMA'' pointer (Some sequenceId) ''unsupported JSON value'' st1)
       | JString s \<Rightarrow> parse_then (spendDecoded limits (length s) pointer (Some sequenceId) st1) (\<lambda>_ st2. (Some (PString s), st2))
       | JArray vs \<Rightarrow>
           if scalarOnly
           then trace_fail limits ''ACTRACE-SCHEMA'' pointer (Some sequenceId) ''immediate value must be a JSON scalar'' st1
           else parse_then (parse_elements limits na vs 0 pointer sequenceId [] st1) (\<lambda>out st2. (Some (PArray out), st2))
       | JObject ms \<Rightarrow>
           if scalarOnly
           then trace_fail limits ''ACTRACE-SCHEMA'' pointer (Some sequenceId) ''immediate value must be a JSON scalar'' st1
           else parse_then (parse_members limits na ms pointer sequenceId [] st1) (\<lambda>out st2. (Some (PObject out), st2)))"
| "parse_elements limits na [] i pointer sequenceId out st = (Some out, st)"
| "parse_elements limits na (v # vs) i pointer sequenceId out st =
     parse_then (parseValue limits na v (pointer @ ''/'' @ decimal i) sequenceId False st) (\<lambda>element st1.
       parse_elements limits na vs (i + 1) pointer sequenceId (out @ [element]) st1)"
| "parse_members limits na [] pointer sequenceId out st = (Some out, st)"
| "parse_members limits na ((key, v) # ms) pointer sequenceId out st =
     parse_then (parseValue limits na v (pointer @ ''/'' @ pointerToken key) sequenceId False st) (\<lambda>member st1.
       parse_then (spendDecoded limits (length key) pointer (Some sequenceId) st1) (\<lambda>_ st2.
         parse_members limits na ms pointer sequenceId (map_emplace key member out) st2))"
  by pat_completeness auto

fun value_rank where
  "value_rank (Inl (limits, na, v, pointer, sequenceId, scalarOnly, st)) = 2 * size v"
| "value_rank (Inr (Inl (limits, na, vs, i, pointer, sequenceId, out, st))) = 2 * size_list size vs + 1"
| "value_rank (Inr (Inr (limits, na, ms, pointer, sequenceId, out, st))) = 2 * size_list (\<lambda>m. size (snd m)) ms + 1"

lemma size_members: "size_list (\<lambda>m. size (snd m)) ms \<le> size_list (size_prod (\<lambda>x. 0) size) ms"
  by (induction ms) (auto simp: size_prod_simp)

termination parseValue
  using size_members by (relation "measure value_rank") (auto simp: less_Suc_eq_le)

declare parseValue.simps [simp del]

section \<open>Operands and sources\<close>

definition empty_operand :: "'d pto_operand" where
  "empty_operand = \<lparr>po_kind = Immediate, po_type = [], po_immediate = None, po_id = [], po_addressSpace = [],
     po_address = 0, po_sequenceId = 0, po_resultIndex = 0\<rparr>"

definition parseOperand ::
  "trace_limits \<Rightarrow> ('n, 'd) number_access \<Rightarrow> (string \<times> 'n json) list \<Rightarrow> string \<Rightarrow> u64 \<Rightarrow> trace_parser \<Rightarrow> 'd pto_operand parsed" where
  "parseOperand limits na operand pointer root st =
     parse_then (readString limits (map_of operand ''kind'') (pointer @ ''/kind'') (Some root) st) (\<lambda>kind st1.
       if kind = ''immediate'' then
         parse_then (checkObject limits operand pointer [''kind'', ''type'', ''value''] [''kind'', ''type'', ''value''] (Some root) st1) (\<lambda>_ st2.
         parse_then (readString limits (map_of operand ''type'') (pointer @ ''/type'') (Some root) st2) (\<lambda>type st3.
         parse_then (parseValue limits na (the (map_of operand ''value'')) (pointer @ ''/value'') root True st3) (\<lambda>v st4.
           (Some (empty_operand\<lparr>po_kind := Immediate, po_type := type, po_immediate := Some v\<rparr>), st4))))
       else if kind = ''buffer'' \<or> kind = ''tile'' \<or> kind = ''symbol'' then
         parse_then (checkObject limits operand pointer [''kind'', ''id''] [''kind'', ''id''] (Some root) st1) (\<lambda>_ st2.
         parse_then (readString limits (map_of operand ''id'') (pointer @ ''/id'') (Some root) st2) (\<lambda>ident st3.
           (Some (empty_operand\<lparr>po_kind := if kind = ''buffer'' then Buffer else if kind = ''tile'' then Tile else Symbol,
              po_id := ident\<rparr>), st3)))
       else if kind = ''address'' then
         parse_then (checkObject limits operand pointer [''kind'', ''space'', ''value''] [''kind'', ''space'', ''value''] (Some root) st1) (\<lambda>_ st2.
         parse_then (readString limits (map_of operand ''space'') (pointer @ ''/space'') (Some root) st2) (\<lambda>space st3.
         parse_then (readUInt limits na (map_of operand ''value'') (pointer @ ''/value'') (Some root) st3) (\<lambda>address st4.
           if space \<notin> set (tr_declaredAddressSpaces st4)
           then trace_fail limits ''ACTRACE-ADDRESS'' (pointer @ ''/space'') (Some root) ''address space is absent from trace metadata'' st4
           else (Some (empty_operand\<lparr>po_kind := Address, po_addressSpace := space, po_address := address\<rparr>), st4))))
       else if kind = ''record_result'' then
         parse_then (checkObject limits operand pointer [''kind'', ''sequence_id'', ''result_index'']
           [''kind'', ''sequence_id'', ''result_index''] (Some root) st1) (\<lambda>_ st2.
         parse_then (readUInt limits na (map_of operand ''sequence_id'') (pointer @ ''/sequence_id'') (Some root) st2) (\<lambda>sequenceId st3.
         parse_then (readUInt limits na (map_of operand ''result_index'') (pointer @ ''/result_index'') (Some root) st3) (\<lambda>resultIndex st4.
           if sequenceId \<notin> set (tr_seenSequenceIds st4)
           then trace_fail limits ''ACTRACE-DEPENDENCY'' (pointer @ ''/sequence_id'') (Some root)
             ''record_result must reference an earlier record'' st4
           else (Some (empty_operand\<lparr>po_kind := RecordResult, po_sequenceId := sequenceId, po_resultIndex := resultIndex\<rparr>), st4))))
       else trace_fail limits ''ACTRACE-SCHEMA'' (pointer @ ''/kind'') (Some root) ''unknown operand kind'' st1)"

definition parseSource ::
  "trace_limits \<Rightarrow> ('n, 'd) number_access \<Rightarrow> (string \<times> 'n json) list \<Rightarrow> string \<Rightarrow> u64 \<Rightarrow> trace_parser \<Rightarrow> pto_source_location parsed" where
  "parseSource limits na source pointer sequenceId st =
     parse_then (checkObject limits source pointer [''file'', ''line'', ''column''] [''file'', ''line'', ''column''] (Some sequenceId) st) (\<lambda>_ st1.
     parse_then (readString limits (map_of source ''file'') (pointer @ ''/file'') (Some sequenceId) st1) (\<lambda>file st2.
     parse_then (readUInt limits na (map_of source ''line'') (pointer @ ''/line'') (Some sequenceId) st2) (\<lambda>line st3.
     parse_then (readUInt limits na (map_of source ''column'') (pointer @ ''/column'') (Some sequenceId) st3) (\<lambda>column st4.
       if line = 0 \<or> column = 0
       then trace_fail limits ''ACTRACE-SCHEMA'' pointer (Some sequenceId) ''source line and column must be positive'' st4
       else (Some \<lparr>sl_file = file, sl_line = line, sl_column = column\<rparr>, st4)))))"

section \<open>Records\<close>

abbreviation is_alpha :: "char \<Rightarrow> bool" where
  "is_alpha c \<equiv> (65 \<le> byte_of c \<and> byte_of c \<le> 90) \<or> (97 \<le> byte_of c \<and> byte_of c \<le> 122)"

fun isOpcode :: "string \<Rightarrow> bool" where
  "isOpcode [] \<longleftrightarrow> False"
| "isOpcode (c # cs) \<longleftrightarrow> (is_alpha c \<or> c = CHR ''_'') \<and>
     list_all (\<lambda>c. is_alpha c \<or> is_digit c \<or> c = CHR ''_'' \<or> c = CHR ''.'') cs"

text \<open>The loop over the operands, from index \<open>i\<close> on.\<close>

fun operand_loop ::
  "trace_limits \<Rightarrow> ('n, 'd) number_access \<Rightarrow> 'n json list \<Rightarrow> nat \<Rightarrow> string \<Rightarrow> u64 \<Rightarrow> 'd pto_operand list \<Rightarrow> trace_parser \<Rightarrow>
    'd pto_operand list parsed" where
  "operand_loop limits na [] i pointer root out st = (Some out, st)"
| "operand_loop limits na (v # vs) i pointer root out st =
     (let operandPointer = pointer @ ''/operands/'' @ decimal i in
      case getAsObject (Some v) of
        None \<Rightarrow> trace_fail limits ''ACTRACE-SCHEMA'' operandPointer (Some root) ''operand must be an object'' st
      | Some operand \<Rightarrow> parse_then (parseOperand limits na operand operandPointer root st) (\<lambda>decoded st1.
          operand_loop limits na vs (i + 1) pointer root (out @ [decoded]) st1))"

text \<open>The loop over the dependencies; \<open>unique\<close> is the set of those read so far.\<close>

fun dependency_loop ::
  "trace_limits \<Rightarrow> ('n, 'd) number_access \<Rightarrow> 'n json list \<Rightarrow> nat \<Rightarrow> string \<Rightarrow> u64 \<Rightarrow> u64 list \<Rightarrow> u64 list \<Rightarrow> trace_parser \<Rightarrow>
    u64 list parsed" where
  "dependency_loop limits na [] i pointer root unique out st = (Some out, st)"
| "dependency_loop limits na (v # vs) i pointer root unique out st =
     (let dependencyPointer = pointer @ ''/dependencies/'' @ decimal i in
      parse_then (readUInt limits na (Some v) dependencyPointer (Some root) st) (\<lambda>dependency st1.
        if dependency \<in> set unique
        then trace_fail limits ''ACTRACE-DEPENDENCY'' dependencyPointer (Some root) ''duplicate dependency'' st1
        else if dependency \<notin> set (tr_seenSequenceIds st1)
        then trace_fail limits ''ACTRACE-DEPENDENCY'' dependencyPointer (Some root) ''dependency must reference an earlier record'' st1
        else dependency_loop limits na vs (i + 1) pointer root (set_insert dependency unique) (out @ [dependency]) st1))"

fun attribute_loop ::
  "trace_limits \<Rightarrow> ('n, 'd) number_access \<Rightarrow> (string \<times> 'n json) list \<Rightarrow> string \<Rightarrow> u64 \<Rightarrow> (string \<times> 'd pto_value) list \<Rightarrow>
    trace_parser \<Rightarrow> (string \<times> 'd pto_value) list parsed" where
  "attribute_loop limits na [] pointer root out st = (Some out, st)"
| "attribute_loop limits na ((key, v) # ms) pointer root out st =
     parse_then (parseValue limits na v (pointer @ ''/attributes/'' @ pointerToken key) root False st) (\<lambda>attr st1.
       attribute_loop limits na ms pointer root (map_emplace key attr out) st1)"

text \<open>The parts of \<open>parseRecord\<close> after the opcode: each array, then the attributes, then the optional members.\<close>

definition record_operands ::
  "trace_limits \<Rightarrow> ('n, 'd) number_access \<Rightarrow> (string \<times> 'n json) list \<Rightarrow> string \<Rightarrow> u64 \<Rightarrow> trace_parser \<Rightarrow> 'd pto_operand list parsed" where
  "record_operands limits na r pointer root st =
     (case getAsArray (map_of r ''operands'') of
        None \<Rightarrow> trace_fail limits ''ACTRACE-SCHEMA'' (pointer @ ''/operands'') (Some root) ''operands must be an array'' st
      | Some operands \<Rightarrow>
          if length operands > tl_maxOperandsPerRecord limits
          then trace_fail limits ''ACTRACE-LIMIT'' (pointer @ ''/operands'') (Some root) ''operand count limit exceeded'' st
          else operand_loop limits na operands 0 pointer root [] st)"

definition record_dependencies ::
  "trace_limits \<Rightarrow> ('n, 'd) number_access \<Rightarrow> (string \<times> 'n json) list \<Rightarrow> string \<Rightarrow> u64 \<Rightarrow> trace_parser \<Rightarrow> u64 list parsed" where
  "record_dependencies limits na r pointer root st =
     (case getAsArray (map_of r ''dependencies'') of
        None \<Rightarrow> trace_fail limits ''ACTRACE-SCHEMA'' (pointer @ ''/dependencies'') (Some root) ''dependencies must be an array'' st
      | Some dependencies \<Rightarrow>
          if length dependencies > tl_maxDependenciesPerRecord limits
          then trace_fail limits ''ACTRACE-LIMIT'' (pointer @ ''/dependencies'') (Some root) ''dependency count limit exceeded'' st
          else dependency_loop limits na dependencies 0 pointer root [] [] st)"

definition record_attributes ::
  "trace_limits \<Rightarrow> ('n, 'd) number_access \<Rightarrow> (string \<times> 'n json) list \<Rightarrow> string \<Rightarrow> u64 \<Rightarrow> trace_parser \<Rightarrow> (string \<times> 'd pto_value) list parsed" where
  "record_attributes limits na r pointer root st =
     (case getAsObject (map_of r ''attributes'') of
        None \<Rightarrow> trace_fail limits ''ACTRACE-SCHEMA'' (pointer @ ''/attributes'') (Some root) ''attributes must be an object'' st
      | Some attributes \<Rightarrow>
          if length attributes > tl_maxAttributeMembers limits
          then trace_fail limits ''ACTRACE-LIMIT'' (pointer @ ''/attributes'') (Some root) ''attribute member limit exceeded'' st
          else attribute_loop limits na attributes pointer root [] st)"

definition record_issue_time ::
  "trace_limits \<Rightarrow> ('n, 'd) number_access \<Rightarrow> (string \<times> 'n json) list \<Rightarrow> string \<Rightarrow> u64 \<Rightarrow> trace_parser \<Rightarrow> u64 option parsed" where
  "record_issue_time limits na r pointer root st =
     (case map_of r ''issue_time'' of
        None \<Rightarrow> (Some None, st)
      | Some v \<Rightarrow> parse_then (readUInt limits na (Some v) (pointer @ ''/issue_time'') (Some root) st) (\<lambda>t st1. (Some (Some t), st1)))"

definition record_source ::
  "trace_limits \<Rightarrow> ('n, 'd) number_access \<Rightarrow> (string \<times> 'n json) list \<Rightarrow> string \<Rightarrow> u64 \<Rightarrow> trace_parser \<Rightarrow> pto_source_location option parsed" where
  "record_source limits na r pointer root st =
     (case getAsObject (map_of r ''source'') of
        Some source \<Rightarrow> parse_then (parseSource limits na source (pointer @ ''/source'') root st) (\<lambda>location st1. (Some (Some location), st1))
      | None \<Rightarrow>
          if map_of r ''source'' \<noteq> None
          then trace_fail limits ''ACTRACE-SCHEMA'' (pointer @ ''/source'') (Some root) ''source must be an object'' st
          else (Some None, st))"

definition parseRecord ::
  "trace_limits \<Rightarrow> ('n, 'd) number_access \<Rightarrow> (string \<times> 'n json) list \<Rightarrow> string \<Rightarrow> trace_parser \<Rightarrow> 'd pto_record parsed" where
  "parseRecord limits na r pointer st =
     parse_then (checkObject limits r pointer [''sequence_id'', ''opcode'', ''operands'', ''dependencies'', ''attributes'']
       [''sequence_id'', ''opcode'', ''operands'', ''dependencies'', ''attributes'', ''issue_time'', ''source''] None st) (\<lambda>_ st1.
     parse_then (readUInt limits na (map_of r ''sequence_id'') (pointer @ ''/sequence_id'') None st1) (\<lambda>sequenceId st2.
     if (case tr_lastSequenceId st2 of None \<Rightarrow> False | Some previous \<Rightarrow> sequenceId \<le> previous)
     then trace_fail limits ''ACTRACE-IDENTITY'' (pointer @ ''/sequence_id'') (Some sequenceId)
       ''sequence_id values must be strictly increasing'' st2
     else
     parse_then (readString limits (map_of r ''opcode'') (pointer @ ''/opcode'') (Some sequenceId)
       (st2\<lparr>tr_lastSequenceId := Some sequenceId\<rparr>)) (\<lambda>opcode st3.
     if \<not> isOpcode opcode
     then trace_fail limits ''ACTRACE-SCHEMA'' (pointer @ ''/opcode'') (Some sequenceId) ''opcode has an invalid spelling'' st3
     else
     parse_then (record_operands limits na r pointer sequenceId st3) (\<lambda>operands st4.
     parse_then (record_dependencies limits na r pointer sequenceId st4) (\<lambda>dependencies st5.
     parse_then (record_attributes limits na r pointer sequenceId st5) (\<lambda>attributes st6.
     parse_then (record_issue_time limits na r pointer sequenceId st6) (\<lambda>issueTime st7.
     parse_then (record_source limits na r pointer sequenceId st7) (\<lambda>source st8.
       (Some \<lparr>pr_sequenceId = sequenceId, pr_opcode = opcode, pr_operands = operands, pr_dependencies = dependencies,
           pr_attributes = attributes, pr_issueTime = issueTime, pr_source = source\<rparr>,
        st8\<lparr>tr_seenSequenceIds := set_insert sequenceId (tr_seenSequenceIds st8)\<rparr>)))))))))"

section \<open>Metadata\<close>

definition metadata_string :: "trace_limits \<Rightarrow> (string \<times> 'n json) list \<Rightarrow> string \<Rightarrow> trace_parser \<Rightarrow> string parsed" where
  "metadata_string limits metadata key st =
     (case map_of metadata key of
        None \<Rightarrow> (Some [], st)
      | Some v \<Rightarrow> readString limits (Some v) (''/metadata/'' @ key) None st)"

definition metadata_count ::
  "trace_limits \<Rightarrow> ('n, 'd) number_access \<Rightarrow> (string \<times> 'n json) list \<Rightarrow> trace_parser \<Rightarrow> u64 option parsed" where
  "metadata_count limits na metadata st =
     (case map_of metadata ''record_count'' of
        None \<Rightarrow> (Some None, st)
      | Some v \<Rightarrow> parse_then (readUInt limits na (Some v) ''/metadata/record_count'' None st) (\<lambda>n st1. (Some (Some n), st1)))"

definition is_fingerprint :: "string \<Rightarrow> bool" where
  "is_fingerprint hash \<longleftrightarrow> length hash = 71 \<and> take 7 hash = ''sha256:'' \<and>
     list_all (\<lambda>c. is_digit c \<or> (97 \<le> byte_of c \<and> byte_of c \<le> 102)) (drop 7 hash)"

definition metadata_hash :: "trace_limits \<Rightarrow> (string \<times> 'n json) list \<Rightarrow> trace_parser \<Rightarrow> string parsed" where
  "metadata_hash limits metadata st =
     (case map_of metadata ''content_hash'' of
        None \<Rightarrow> (Some [], st)
      | Some v \<Rightarrow> parse_then (readString limits (Some v) ''/metadata/content_hash'' None st) (\<lambda>hash st1.
          if \<not> is_fingerprint hash
          then trace_fail limits ''ACTRACE-SCHEMA'' ''/metadata/content_hash'' None
            ''content_hash must be a lowercase sha256 fingerprint'' st1
          else (Some hash, st1)))"

fun space_loop ::
  "trace_limits \<Rightarrow> 'n json list \<Rightarrow> nat \<Rightarrow> string list \<Rightarrow> string list \<Rightarrow> trace_parser \<Rightarrow> string list parsed" where
  "space_loop limits [] i unique out st = (Some out, st)"
| "space_loop limits (v # vs) i unique out st =
     (let pointer = ''/metadata/address_spaces/'' @ decimal i in
      parse_then (readString limits (Some v) pointer None st) (\<lambda>space st1.
        if space \<in> set unique
        then trace_fail limits ''ACTRACE-SCHEMA'' pointer None ''address_spaces entries must be unique'' st1
        else space_loop limits vs (i + 1) (set_insert space unique) (out @ [space])
          (st1\<lparr>tr_declaredAddressSpaces := set_insert space (tr_declaredAddressSpaces st1)\<rparr>)))"

definition metadata_spaces :: "trace_limits \<Rightarrow> (string \<times> 'n json) list \<Rightarrow> trace_parser \<Rightarrow> string list parsed" where
  "metadata_spaces limits metadata st =
     (case map_of metadata ''address_spaces'' of
        None \<Rightarrow> (Some [], st)
      | Some v \<Rightarrow> (case getAsArray (Some v) of
          None \<Rightarrow> trace_fail limits ''ACTRACE-SCHEMA'' ''/metadata/address_spaces'' None ''address_spaces must be an array'' st
        | Some spaces \<Rightarrow> space_loop limits spaces 0 [] [] st))"

definition parseMetadata ::
  "trace_limits \<Rightarrow> ('n, 'd) number_access \<Rightarrow> (string \<times> 'n json) list \<Rightarrow> trace_parser \<Rightarrow> pto_metadata parsed" where
  "parseMetadata limits na metadata st =
     parse_then (checkObject limits metadata ''/metadata'' [] [''producer'', ''pto_identity'', ''source_program'',
       ''address_spaces'', ''data_layout'', ''record_count'', ''content_hash''] None st) (\<lambda>_ st1.
     parse_then (metadata_string limits metadata ''producer'' st1) (\<lambda>producer st2.
     parse_then (metadata_string limits metadata ''pto_identity'' st2) (\<lambda>ptoIdentity st3.
     parse_then (metadata_string limits metadata ''source_program'' st3) (\<lambda>sourceProgram st4.
     parse_then (metadata_string limits metadata ''data_layout'' st4) (\<lambda>dataLayout st5.
     parse_then (metadata_count limits na metadata st5) (\<lambda>recordCount st6.
     parse_then (metadata_hash limits metadata st6) (\<lambda>contentHash st7.
     parse_then (metadata_spaces limits metadata st7) (\<lambda>addressSpaces st8.
       (Some \<lparr>pm_producer = producer, pm_ptoIdentity = ptoIdentity, pm_sourceProgram = sourceProgram,
          pm_addressSpaces = addressSpaces, pm_dataLayout = dataLayout, pm_recordCount = recordCount,
          pm_contentHash = contentHash\<rparr>, st8)))))))))"

section \<open>The document\<close>

text \<open>What the parser calls of code outside the repository.\<close>

record ('n, 'd) trace_env =
  te_lexer :: lexical_ops
  te_parse :: "string \<Rightarrow> 'n json expected"
  te_numbers :: "'n number_ops"
  te_access :: "('n, 'd) number_access"
  te_sha256 :: "string \<Rightarrow> string"

text \<open>The hexadecimal fingerprint of canonical bytes; \<open>te_sha256\<close> is the digest.\<close>

definition sha256Fingerprint :: "(string \<Rightarrow> string) \<Rightarrow> string \<Rightarrow> string" where
  "sha256Fingerprint sha256 canonicalBytes =
     ''sha256:'' @ concat (map (\<lambda>c. [hex_digit (byte_of c div 16), hex_digit (byte_of c mod 16)]) (sha256 canonicalBytes))"

definition trace_json_limits :: "trace_limits \<Rightarrow> nat \<Rightarrow> json_limits" where
  "trace_json_limits limits work =
     \<lparr>jl_maxInputBytes = tl_maxDocumentBytes limits, jl_maxDepth = tl_maxNestingDepth limits, jl_maxStructuralWork = work,
      jl_maxStringBytes = tl_maxStringBytes limits, jl_maxTotalStringBytes = tl_maxAggregateDecodedBytes limits,
      jl_maxArrayElements = max (tl_maxRecordCount limits) (max (tl_maxOperandsPerRecord limits) (tl_maxDependenciesPerRecord limits)),
      jl_maxObjectMembers = tl_maxAttributeMembers limits\<rparr>"

text \<open>The limits of \<open>validateContentHash\<close> leave the structural work at its default.\<close>

definition validateContentHash ::
  "trace_limits \<Rightarrow> ('n, 'd) trace_env \<Rightarrow> 'n json list \<Rightarrow> string \<Rightarrow> trace_parser \<Rightarrow> unit parsed" where
  "validateContentHash limits env records declared st =
     (if declared = [] then (Some (), st)
      else case canonicalizeJson (trace_json_limits limits 100000) (te_numbers env) (JArray records) of
        Inl e \<Rightarrow> trace_fail limits ''ACTRACE-LIMIT'' ''/metadata/content_hash'' None e st
      | Inr canonical \<Rightarrow>
          if sha256Fingerprint (te_sha256 env) canonical \<noteq> declared
          then trace_fail limits ''ACTRACE-METADATA'' ''/metadata/content_hash'' None
            ''content_hash does not match canonical records bytes'' st
          else (Some (), st))"

fun record_loop ::
  "trace_limits \<Rightarrow> ('n, 'd) number_access \<Rightarrow> 'n json list \<Rightarrow> nat \<Rightarrow> 'd pto_record list \<Rightarrow> trace_parser \<Rightarrow> 'd pto_record list parsed" where
  "record_loop limits na [] i out st = (Some out, st)"
| "record_loop limits na (v # vs) i out st =
     (let pointer = ''/records/'' @ decimal i in
      case getAsObject (Some v) of
        None \<Rightarrow> trace_fail limits ''ACTRACE-SCHEMA'' pointer None ''record must be an object'' st
      | Some r \<Rightarrow> parse_then (parseRecord limits na r pointer st) (\<lambda>decoded st1.
          record_loop limits na vs (i + 1) (out @ [decoded]) st1))"

definition parseRoot ::
  "trace_limits \<Rightarrow> ('n, 'd) trace_env \<Rightarrow> (string \<times> 'n json) list \<Rightarrow> trace_parser \<Rightarrow> 'd pto_document parsed" where
  "parseRoot limits env root st =
     parse_then (checkObject limits root [] [''schema'', ''version'', ''contract_epoch'', ''metadata'', ''records'']
       [''schema'', ''version'', ''contract_epoch'', ''metadata'', ''records''] None st) (\<lambda>_ st1.
     if getAsString (map_of root ''schema'') \<noteq> Some ''pto-trace''
     then trace_fail limits ''ACTRACE-SCHEMA'' ''/schema'' None ''schema must equal pto-trace'' st1
     else if getAsString (map_of root ''version'') \<noteq> Some ''0.2''
     then trace_fail limits ''ACTRACE-SCHEMA'' ''/version'' None ''version must equal 0.2'' st1
     else if getAsString (map_of root ''contract_epoch'') \<noteq> Some ''0.2''
     then trace_fail limits ''ACTRACE-SCHEMA'' ''/contract_epoch'' None ''contract_epoch must equal 0.2'' st1
     else case getAsObject (map_of root ''metadata'') of
       None \<Rightarrow> trace_fail limits ''ACTRACE-SCHEMA'' ''/metadata'' None ''metadata must be an object'' st1
     | Some metadata \<Rightarrow>
       parse_then (parseMetadata limits (te_access env) metadata st1) (\<lambda>decodedMetadata st2.
       case getAsArray (map_of root ''records'') of
         None \<Rightarrow> trace_fail limits ''ACTRACE-SCHEMA'' ''/records'' None ''records must be an array'' st2
       | Some records \<Rightarrow>
         if length records > tl_maxRecordCount limits
         then trace_fail limits ''ACTRACE-LIMIT'' ''/records'' None ''record count limit exceeded'' st2
         else parse_then (record_loop limits (te_access env) records 0 [] st2) (\<lambda>decodedRecords st3.
           if (case pm_recordCount decodedMetadata of None \<Rightarrow> False | Some n \<Rightarrow> unat n \<noteq> length decodedRecords)
           then trace_fail limits ''ACTRACE-METADATA'' ''/metadata/record_count'' None ''record_count does not match records length'' st3
           else parse_then (validateContentHash limits env records (pm_contentHash decodedMetadata) st3) (\<lambda>_ st4.
             (Some \<lparr>pd_metadata = decodedMetadata, pd_records = decodedRecords\<rparr>, st4)))))"

text \<open>\<open>std::string::find\<close>: whether a text occurs.\<close>

fun occurs :: "string \<Rightarrow> string \<Rightarrow> bool" where
  "occurs pat [] \<longleftrightarrow> pat = []"
| "occurs pat (c # cs) \<longleftrightarrow> take (length pat) (c # cs) = pat \<or> occurs pat cs"

definition load_result :: "'d pto_document parsed \<Rightarrow> 'd trace_load_result" where
  "load_result r = \<lparr>lr_document = fst r, lr_diagnostics = tr_diagnostics (snd r)\<rparr>"

definition parsePtoTrace :: "trace_limits \<Rightarrow> ('n, 'd) trace_env \<Rightarrow> string \<Rightarrow> 'd trace_load_result" where
  "parsePtoTrace limits env input = load_result
     (case parseIJson (te_lexer env) (te_parse env)
        (trace_json_limits limits (max (tl_maxAggregateDecodedBytes limits) 1)) input of
        Inl message \<Rightarrow>
          trace_fail limits (if occurs ''limit exceeded'' message \<or> occurs ''maximum depth'' message
              then ''ACTRACE-LIMIT'' else ''ACTRACE-JSON'') [] None message new_parser
      | Inr v \<Rightarrow> (case getAsObject (Some v) of
          None \<Rightarrow> trace_fail limits ''ACTRACE-SCHEMA'' [] None ''trace document must be an object'' new_parser
        | Some root \<Rightarrow> parseRoot limits env root new_parser))"

section \<open>The byte stream\<close>

record trace_stream =
  st_limits :: trace_limits
  st_buffer :: string
  st_finished :: bool
  st_exceededByteLimit :: bool

definition newTraceStream :: "trace_limits \<Rightarrow> trace_stream" where
  "newTraceStream limits = \<lparr>st_limits = limits, st_buffer = [], st_finished = False, st_exceededByteLimit = False\<rparr>"

definition stream_append :: "string \<Rightarrow> trace_stream \<Rightarrow> bool \<times> trace_stream" where
  "stream_append bytes s =
     (if st_finished s \<or> st_exceededByteLimit s then (False, s)
      else if length (st_buffer s) > tl_maxDocumentBytes (st_limits s) \<or>
              length bytes > tl_maxDocumentBytes (st_limits s) - length (st_buffer s)
      then (False, s\<lparr>st_exceededByteLimit := True\<rparr>)
      else (True, s\<lparr>st_buffer := st_buffer s @ bytes\<rparr>))"

definition stream_finish :: "('n, 'd) trace_env \<Rightarrow> trace_stream \<Rightarrow> 'd trace_load_result \<times> trace_stream" where
  "stream_finish env s =
     (if st_finished s
      then (\<lparr>lr_document = None, lr_diagnostics = [\<lparr>td_code = ''ACTRACE-STREAM'', td_jsonPointer = [],
              td_sequenceId = None, td_message = ''trace stream was already finished''\<rparr>]\<rparr>, s)
      else let s1 = s\<lparr>st_finished := True\<rparr> in
        if st_exceededByteLimit s1
        then (\<lparr>lr_document = None, lr_diagnostics = [\<lparr>td_code = ''ACTRACE-LIMIT'', td_jsonPointer = [],
                td_sequenceId = None, td_message = ''document byte limit exceeded''\<rparr>]\<rparr>, s1)
        else (parsePtoTrace (st_limits s1) env (st_buffer s1), s1))"

section \<open>What a call answers\<close>

text \<open>
  A call either answers a value with a postcondition and leaves the diagnostics alone, or fails and
  leaves one more diagnostic, with a code of the trace parser, if there is room for it.
\<close>

definition trace_codes :: "string set" where
  "trace_codes = {''ACTRACE-JSON'', ''ACTRACE-SCHEMA'', ''ACTRACE-LIMIT'', ''ACTRACE-IDENTITY'', ''ACTRACE-DEPENDENCY'',
     ''ACTRACE-ADDRESS'', ''ACTRACE-METADATA''}"

definition yields :: "trace_limits \<Rightarrow> trace_parser \<Rightarrow> 'a parsed \<Rightarrow> ('a \<Rightarrow> trace_parser \<Rightarrow> bool) \<Rightarrow> bool" where
  "yields limits st r Q \<longleftrightarrow>
     (case r of
        (Some x, st') \<Rightarrow> tr_diagnostics st' = tr_diagnostics st \<and> Q x st'
      | (None, st') \<Rightarrow> \<exists>d. td_code d \<in> trace_codes \<and> tr_diagnostics st' =
          (if length (tr_diagnostics st) < tl_maxDiagnostics limits then tr_diagnostics st @ [d] else tr_diagnostics st))"

lemma yields_return: "yields limits st (Some x, st') Q \<longleftrightarrow> tr_diagnostics st' = tr_diagnostics st \<and> Q x st'"
  by (simp add: yields_def)

lemma trace_fail_yields: "code \<in> trace_codes \<Longrightarrow> yields limits st (trace_fail limits code pointer q message st) Q"
  by (auto simp: yields_def trace_fail_def intro!: exI [of _ "\<lparr>td_code = code, td_jsonPointer = pointer, td_sequenceId = q, td_message = message\<rparr>"])

lemma yields_fail [simp]:
  "yields limits st (trace_fail limits ''ACTRACE-JSON'' pointer q message st) Q"
  "yields limits st (trace_fail limits ''ACTRACE-SCHEMA'' pointer q message st) Q"
  "yields limits st (trace_fail limits ''ACTRACE-LIMIT'' pointer q message st) Q"
  "yields limits st (trace_fail limits ''ACTRACE-IDENTITY'' pointer q message st) Q"
  "yields limits st (trace_fail limits ''ACTRACE-DEPENDENCY'' pointer q message st) Q"
  "yields limits st (trace_fail limits ''ACTRACE-ADDRESS'' pointer q message st) Q"
  "yields limits st (trace_fail limits ''ACTRACE-METADATA'' pointer q message st) Q"
  by (rule trace_fail_yields; simp add: trace_codes_def)+

lemma yields_mono: "yields limits st r P \<Longrightarrow> (\<And>x st'. tr_diagnostics st' = tr_diagnostics st \<Longrightarrow> P x st' \<Longrightarrow> Q x st') \<Longrightarrow> yields limits st r Q"
  by (auto simp: yields_def split: prod.splits option.splits)

lemma yields_cong_start: "tr_diagnostics st = tr_diagnostics st1 \<Longrightarrow> yields limits st r Q \<longleftrightarrow> yields limits st1 r Q"
  by (cases r; cases "fst r") (auto simp: yields_def)

lemma yields_then:
  assumes "yields limits st r P" and "\<And>x st1. r = (Some x, st1) \<Longrightarrow> tr_diagnostics st1 = tr_diagnostics st \<Longrightarrow> P x st1 \<Longrightarrow> yields limits st1 (f x st1) Q"
  shows "yields limits st (parse_then r f) Q"
proof (cases r)
  case (Pair a st1)
  show ?thesis
  proof (cases a)
    case None
    then show ?thesis using assms(1) by (auto simp: Pair yields_def)
  next
    case (Some x)
    have "tr_diagnostics st1 = tr_diagnostics st" "P x st1" using assms(1) by (simp_all add: Pair Some yields_def)
    then show ?thesis using assms(2) [of x st1] by (simp add: Pair Some yields_cong_start [of st st1])
  qed
qed

lemma yields_returnI: "tr_diagnostics st' = tr_diagnostics st \<Longrightarrow> Q x st' \<Longrightarrow> yields limits st (Some x, st') Q"
  by (simp add: yields_return)

lemma yields_if: "(b \<Longrightarrow> yields limits st r Q) \<Longrightarrow> (\<not> b \<Longrightarrow> yields limits st r' Q) \<Longrightarrow> yields limits st (if b then r else r') Q"
  by simp

lemma yields_option: "(x = None \<Longrightarrow> yields limits st r Q) \<Longrightarrow> (\<And>y. x = Some y \<Longrightarrow> yields limits st (f y) Q) \<Longrightarrow>
    yields limits st (case x of None \<Rightarrow> r | Some y \<Rightarrow> f y) Q"
  by (simp split: option.split)

lemmas yields_steps = yields_if yields_fail yields_returnI

text \<open>The sets of the parser are untouched and at least \<open>n\<close> decoded bytes were paid for, within the budget.\<close>

definition pays :: "trace_limits \<Rightarrow> nat \<Rightarrow> trace_parser \<Rightarrow> trace_parser \<Rightarrow> bool" where
  "pays limits n st st' \<longleftrightarrow>
     tr_lastSequenceId st' = tr_lastSequenceId st \<and> tr_seenSequenceIds st' = tr_seenSequenceIds st \<and>
     tr_declaredAddressSpaces st' = tr_declaredAddressSpaces st \<and> tr_decodedBytes st + n \<le> tr_decodedBytes st' \<and>
     (tr_decodedBytes st \<le> tl_maxAggregateDecodedBytes limits \<longrightarrow> tr_decodedBytes st' \<le> tl_maxAggregateDecodedBytes limits)"

lemma pays_refl [simp]: "pays limits 0 st st"
  by (simp add: pays_def)

lemma pays_trans: "pays limits m st st1 \<Longrightarrow> pays limits n st1 st2 \<Longrightarrow> k \<le> m + n \<Longrightarrow> pays limits k st st2"
  by (auto simp: pays_def)

lemma spendDecoded_yields: "yields limits st (spendDecoded limits n pointer q st) (\<lambda>_ st'. pays limits n st st')"
  by (auto simp: spendDecoded_def yields_return pays_def)

lemma checkObject_yields:
  "yields limits st (checkObject limits object pointer required allowed q st)
     (\<lambda>_ st'. st' = st \<and> fst ` set object \<subseteq> set allowed \<and> (\<forall>key \<in> set required. map_of object key \<noteq> None))"
  by (auto simp: checkObject_def yields_return find_None_iff split: option.split)

lemma readString_yields:
  "yields limits st (readString limits v pointer q st) (\<lambda>s st'. s \<noteq> [] \<and> getAsString v = Some s \<and> pays limits (length s) st st')"
  by (auto simp: readString_def yields_return split: option.split intro!: yields_then [OF spendDecoded_yields])

lemma readUInt_yields:
  "yields limits st (readUInt limits na v pointer q st) (\<lambda>n st'. getAsUINT64 na v = Some n \<and> pays limits 8 st st')"
  by (auto simp: readUInt_def yields_return split: option.split intro!: yields_then [OF spendDecoded_yields])

text \<open>The bytes that a decoded value stands for.\<close>

fun value_cost :: "'d pto_value \<Rightarrow> nat" where
  "value_cost (PString s) = 1 + length s"
| "value_cost (PArray vs) = 1 + (\<Sum>v \<leftarrow> vs. value_cost v)"
| "value_cost (PObject ms) = 1 + (\<Sum>(key, v) \<leftarrow> ms. length key + value_cost v)"
| "value_cost _ = 1"

abbreviation members_cost :: "(string \<times> 'd pto_value) list \<Rightarrow> nat" where
  "members_cost ms \<equiv> (\<Sum>(key, v) \<leftarrow> ms. length key + value_cost v)"

abbreviation values_cost :: "'d pto_value list \<Rightarrow> nat" where
  "values_cost vs \<equiv> (\<Sum>v \<leftarrow> vs. value_cost v)"

lemma sum_map_put: "(\<Sum>e \<leftarrow> map_put k v m. f e) \<le> (\<Sum>e \<leftarrow> m. f e) + f (k, v)" for f :: "_ \<Rightarrow> nat"
  by (induction m) auto

lemma sum_map_emplace: "(\<Sum>e \<leftarrow> map_emplace k v m. f e) \<le> (\<Sum>e \<leftarrow> m. f e) + f (k, v)" for f :: "_ \<Rightarrow> nat"
  by (auto simp: map_emplace_def sum_map_put split: option.split)

lemma set_map_emplace: "set (map_emplace k v m) \<subseteq> insert (k, v) (set m)"
  using set_map_put_subset [of k v m] by (auto simp: map_emplace_def split: option.split)

lemma length_map_put: "length (map_put k v m) \<le> length m + 1"
  by (induction m) auto

lemma length_map_emplace: "length (map_emplace k v m) \<le> length m + 1"
  by (use length_map_put [of k v m] in \<open>auto simp: map_emplace_def split: option.split\<close>)

text \<open>Scalars, and values whose objects are ordered maps.\<close>

fun is_scalar :: "'d pto_value \<Rightarrow> bool" where
  "is_scalar (PArray _) \<longleftrightarrow> False"
| "is_scalar (PObject _) \<longleftrightarrow> False"
| "is_scalar _ \<longleftrightarrow> True"

fun value_ok :: "'d pto_value \<Rightarrow> bool" where
  "value_ok (PArray vs) \<longleftrightarrow> (\<forall>v \<in> set vs. value_ok v)"
| "value_ok (PObject ms) \<longleftrightarrow> ordered ms \<and> (\<forall>m \<in> set ms. value_ok (snd m))"
| "value_ok _ \<longleftrightarrow> True"

lemma parseValue_yields:
  "yields limits st (parseValue limits na v pointer q scalarOnly st)
     (\<lambda>x st'. value_ok x \<and> (scalarOnly \<longrightarrow> is_scalar x) \<and> pays limits (value_cost x) st st')"
  "yields limits st (parse_elements limits na vs i pointer q out st)
     (\<lambda>out' st'. \<exists>new. out' = out @ new \<and> length new = length vs \<and> (\<forall>x \<in> set new. value_ok x) \<and> pays limits (values_cost new) st st')"
  "ordered mout \<Longrightarrow> \<forall>m \<in> set mout. value_ok (snd m) \<Longrightarrow>
   yields limits st (parse_members limits na ms pointer q mout st)
     (\<lambda>out' st'. ordered out' \<and> (\<forall>m \<in> set out'. value_ok (snd m)) \<and> (\<exists>n. members_cost out' \<le> members_cost mout + n \<and> pays limits n st st'))"
proof (induction limits na v pointer q scalarOnly st and limits na vs i pointer q out st and limits na ms pointer q mout st
    rule: parseValue_parse_elements_parse_members.induct)
  case (1 limits na v pointer q scalarOnly st)
  have spend: "yields limits st (spendDecoded limits 1 pointer (Some q) st) (\<lambda>_ st1. pays limits 1 st st1)"
    by (rule spendDecoded_yields)
  have more: "pays limits (Suc 0) st st1 \<Longrightarrow> pays limits n st1 st' \<Longrightarrow> k \<le> Suc n \<Longrightarrow> pays limits k st st'" for n k st1 st'
    by (auto intro: pays_trans)
  show ?case
  proof (cases v)
    case (JString s)
    show ?thesis unfolding parseValue.simps
      by (rule yields_then [OF spend])
        (auto simp: JString yields_return intro!: yields_then [OF spendDecoded_yields] intro: more)
  next
    case (JArray vs)
    show ?thesis
    proof (cases scalarOnly)
      case False
      show ?thesis unfolding parseValue.simps
        by (rule yields_then [OF spend]) (auto simp: JArray False yields_return intro!: yields_then [OF 1(1) [OF _ JArray False]] intro: more)
    qed (auto simp: parseValue.simps JArray intro!: yields_then [OF spend [simplified]])
  next
    case (JObject ms)
    show ?thesis
    proof (cases scalarOnly)
      case False
      note members = 1(2) [OF _ JObject False, simplified]
      show ?thesis unfolding parseValue.simps
        by (rule yields_then [OF spend]) (auto simp: JObject False yields_return intro!: yields_then [OF members] intro: more)
    qed (auto simp: parseValue.simps JObject intro!: yields_then [OF spend [simplified]])
  qed (auto simp: parseValue.simps yields_return split: option.split intro!: yields_then [OF spend [simplified]])
next
  case (2 limits na i pointer q out st)
  show ?case by (simp add: yields_return)
next
  case (3 limits na v vs i pointer q out st)
  show ?case
    unfolding parse_elements.simps
  proof (rule yields_then [OF 3(1)])
    fix x st1
    assume r: "parseValue limits na v (pointer @ ''/'' @ decimal i) q False st = (Some x, st1)"
      and x: "value_ok x \<and> (False \<longrightarrow> is_scalar x) \<and> pays limits (value_cost x) st st1"
    show "yields limits st1 (parse_elements limits na vs (i + 1) pointer q (out @ [x]) st1)
      (\<lambda>out' st'. \<exists>new. out' = out @ new \<and> length new = length (v # vs) \<and> (\<forall>x \<in> set new. value_ok x) \<and> pays limits (values_cost new) st st')"
    proof (rule yields_mono [OF 3(2) [OF r]])
      fix out' st'
      assume "\<exists>new. out' = (out @ [x]) @ new \<and> length new = length vs \<and> (\<forall>x \<in> set new. value_ok x) \<and> pays limits (values_cost new) st1 st'"
      then obtain new where "out' = (out @ [x]) @ new" "length new = length vs" "\<forall>x \<in> set new. value_ok x" "pays limits (values_cost new) st1 st'"
        by blast
      then show "\<exists>new. out' = out @ new \<and> length new = length (v # vs) \<and> (\<forall>x \<in> set new. value_ok x) \<and> pays limits (values_cost new) st st'"
        using x by (intro exI [of _ "x # new"]) (auto intro: pays_trans)
    qed
  qed
next
  case (4 limits na pointer q out st)
  then show ?case by (auto simp: yields_return intro: exI [of _ 0])
next
  case (5 limits na key v ms pointer q out st)
  show ?case
    unfolding parse_members.simps
  proof (rule yields_then [OF 5(1)], rule yields_then [OF spendDecoded_yields])
    fix x st1 u st2
    assume r: "parseValue limits na v (pointer @ ''/'' @ pointerToken key) q False st = (Some x, st1)"
      "spendDecoded limits (length key) pointer (Some q) st1 = (Some u, st2)"
      and x: "value_ok x \<and> (False \<longrightarrow> is_scalar x) \<and> pays limits (value_cost x) st st1" and u: "pays limits (length key) st1 st2"
    have keep: "ordered (map_emplace key x out)" "\<forall>m \<in> set (map_emplace key x out). value_ok (snd m)"
      using 5(3,4) x set_map_emplace [of key x out] by auto
    have paid: "pays limits (length key + value_cost x) st st2" using x u by (auto intro: pays_trans)
    have cost: "members_cost (map_emplace key x out) \<le> members_cost out + (length key + value_cost x)"
      using sum_map_emplace [where f = "\<lambda>(key, v). length key + value_cost v" and k = key and v = x and m = out] by simp
    show "yields limits st2 (parse_members limits na ms pointer q (map_emplace key x out) st2)
      (\<lambda>out' st'. ordered out' \<and> (\<forall>m \<in> set out'. value_ok (snd m)) \<and> (\<exists>n. members_cost out' \<le> members_cost out + n \<and> pays limits n st st'))"
    proof (rule yields_mono [OF 5(2) [OF r keep]], elim conjE exE, intro conjI)
      fix out' st' n
      assume "members_cost out' \<le> members_cost (map_emplace key x out) + n" and "pays limits n st2 st'"
      then show "\<exists>n. members_cost out' \<le> members_cost out + n \<and> pays limits n st st'"
        using cost pays_trans [OF paid] by (intro exI [of _ "length key + value_cost x + n"]) auto
    qed
  qed
qed

section \<open>Operands, sources and records\<close>

text \<open>The kind of an operand determines which of its members are meaningful; the others are default.\<close>

definition operand_typed :: "'d pto_operand \<Rightarrow> bool" where
  "operand_typed op \<longleftrightarrow>
     (case po_kind op of
        Immediate \<Rightarrow> (\<exists>type v. type \<noteq> [] \<and> is_scalar v \<and> op = empty_operand\<lparr>po_type := type, po_immediate := Some v\<rparr>)
      | Address \<Rightarrow> (\<exists>space a. space \<noteq> [] \<and> op = empty_operand\<lparr>po_kind := Address, po_addressSpace := space, po_address := a\<rparr>)
      | RecordResult \<Rightarrow> (\<exists>q i. op = empty_operand\<lparr>po_kind := RecordResult, po_sequenceId := q, po_resultIndex := i\<rparr>)
      | kind \<Rightarrow> (\<exists>ident. ident \<noteq> [] \<and> op = empty_operand\<lparr>po_kind := kind, po_id := ident\<rparr>))"

definition operand_refers :: "string set \<Rightarrow> u64 set \<Rightarrow> 'd pto_operand \<Rightarrow> bool" where
  "operand_refers spaces earlier op \<longleftrightarrow>
     (po_kind op = Address \<longrightarrow> po_addressSpace op \<in> spaces) \<and> (po_kind op = RecordResult \<longrightarrow> po_sequenceId op \<in> earlier)"

definition operand_cost :: "'d pto_operand \<Rightarrow> nat" where
  "operand_cost op = length (po_type op) + length (po_id op) + length (po_addressSpace op) +
     (case po_immediate op of None \<Rightarrow> 0 | Some v \<Rightarrow> value_cost v) +
     (if po_kind op = Address then 8 else if po_kind op = RecordResult then 16 else 0)"

lemma read_yields:
  "(\<And>s st1. tr_diagnostics st1 = tr_diagnostics st \<Longrightarrow> s \<noteq> [] \<Longrightarrow> pays limits (length s) st st1 \<Longrightarrow> yields limits st1 (f s st1) Q) \<Longrightarrow>
     yields limits st (parse_then (readString limits v pointer q st) f) Q"
  "(\<And>n st1. tr_diagnostics st1 = tr_diagnostics st \<Longrightarrow> pays limits 8 st st1 \<Longrightarrow> yields limits st1 (g n st1) Q) \<Longrightarrow>
     yields limits st (parse_then (readUInt limits na v pointer q st) g) Q"
  "(\<And>x st1. tr_diagnostics st1 = tr_diagnostics st \<Longrightarrow> value_ok x \<Longrightarrow> scalarOnly \<longrightarrow> is_scalar x \<Longrightarrow> pays limits (value_cost x) st st1 \<Longrightarrow>
       yields limits st1 (h x st1) Q) \<Longrightarrow>
     yields limits st (parse_then (parseValue limits na j pointer root scalarOnly st) h) Q"
  "yields limits st (k () st) Q \<Longrightarrow> yields limits st (parse_then (checkObject limits object pointer required allowed q st) k) Q"
  by (auto intro: yields_then [OF readString_yields] yields_then [OF readUInt_yields] yields_then [OF parseValue_yields(1)]
    yields_then [OF checkObject_yields])

definition operand_read :: "trace_limits \<Rightarrow> trace_parser \<Rightarrow> trace_parser \<Rightarrow> 'd pto_operand \<Rightarrow> bool" where
  "operand_read limits st st' op \<longleftrightarrow> operand_typed op \<and>
     operand_refers (set (tr_declaredAddressSpaces st)) (set (tr_seenSequenceIds st)) op \<and> pays limits (operand_cost op) st st'"

lemma operand_read_shapes:
  "type \<noteq> [] \<Longrightarrow> is_scalar v \<Longrightarrow> pays limits (length type + value_cost v) st st' \<Longrightarrow>
     operand_read limits st st' (empty_operand\<lparr>po_kind := Immediate, po_type := type, po_immediate := Some v\<rparr>)"
  "ident \<noteq> [] \<Longrightarrow> kind \<in> {Buffer, Tile, Symbol} \<Longrightarrow> pays limits (length ident) st st' \<Longrightarrow>
     operand_read limits st st' (empty_operand\<lparr>po_kind := kind, po_id := ident\<rparr>)"
  "space \<in> set (tr_declaredAddressSpaces st) \<Longrightarrow> space \<noteq> [] \<Longrightarrow> pays limits (length space + 8) st st' \<Longrightarrow>
     operand_read limits st st' (empty_operand\<lparr>po_kind := Address, po_addressSpace := space, po_address := a\<rparr>)"
  "q \<in> set (tr_seenSequenceIds st) \<Longrightarrow> pays limits 16 st st' \<Longrightarrow>
     operand_read limits st st' (empty_operand\<lparr>po_kind := RecordResult, po_sequenceId := q, po_resultIndex := i\<rparr>)"
  by (auto simp: operand_read_def operand_typed_def operand_refers_def operand_cost_def empty_operand_def)

lemma parseOperand_yields:
  "yields limits st (parseOperand limits na operand pointer root st) (\<lambda>op st'. operand_read limits st st' op)"
  unfolding parseOperand_def
  by (intro read_yields yields_steps operand_read_shapes) (simp_all add: pays_def)

lemma parseSource_yields:
  "yields limits st (parseSource limits na source pointer root st)
     (\<lambda>loc st'. sl_file loc \<noteq> [] \<and> sl_line loc \<noteq> 0 \<and> sl_column loc \<noteq> 0 \<and> pays limits (length (sl_file loc) + 16) st st')"
  unfolding parseSource_def by (intro read_yields yields_steps) (simp_all add: pays_def)

definition operand_ok :: "string set \<Rightarrow> u64 set \<Rightarrow> 'd pto_operand \<Rightarrow> bool" where
  "operand_ok spaces earlier op \<longleftrightarrow> operand_typed op \<and> operand_refers spaces earlier op"

lemma operand_loop_yields:
  "yields limits st (operand_loop limits na vs i pointer root out st)
     (\<lambda>out' st'. \<exists>new. out' = out @ new \<and> length new = length vs \<and>
        (\<forall>op \<in> set new. operand_ok (set (tr_declaredAddressSpaces st)) (set (tr_seenSequenceIds st)) op) \<and>
        pays limits (\<Sum>op \<leftarrow> new. operand_cost op) st st')"
proof (induction vs arbitrary: i out st)
  case (Cons v vs)
  show ?case
  proof (cases "getAsObject (Some v)")
    case (Some operand)
    show ?thesis
      unfolding operand_loop.simps Let_def Some option.case
    proof (rule yields_then [OF parseOperand_yields], rule yields_mono [OF Cons.IH], elim exE conjE)
      fix op st1 out' st' new
      assume op: "operand_read limits st st1 op" and new: "out' = (out @ [op]) @ new" "length new = length vs"
        "\<forall>x \<in> set new. operand_ok (set (tr_declaredAddressSpaces st1)) (set (tr_seenSequenceIds st1)) x"
        "pays limits (\<Sum>op \<leftarrow> new. operand_cost op) st1 st'"
      then have same: "tr_declaredAddressSpaces st1 = tr_declaredAddressSpaces st" "tr_seenSequenceIds st1 = tr_seenSequenceIds st"
        by (simp_all add: operand_read_def pays_def)
      with op new show "\<exists>new. out' = out @ new \<and> length new = length (v # vs) \<and>
          (\<forall>op \<in> set new. operand_ok (set (tr_declaredAddressSpaces st)) (set (tr_seenSequenceIds st)) op) \<and>
          pays limits (\<Sum>op \<leftarrow> new. operand_cost op) st st'"
        by (intro exI [of _ "op # new"]) (auto simp: operand_read_def operand_ok_def intro: pays_trans)
    qed
  qed simp
qed (simp add: yields_return)

lemma dependency_loop_yields:
  assumes "distinct out" and "set unique = set out" and "set out \<subseteq> set (tr_seenSequenceIds st)"
  shows "yields limits st (dependency_loop limits na vs i pointer root unique out st)
     (\<lambda>out' st'. distinct out' \<and> set out' \<subseteq> set (tr_seenSequenceIds st) \<and> length out' = length out + length vs \<and>
        pays limits (8 * length vs) st st')"
  using assms
proof (induction vs arbitrary: i unique out st)
  case (Cons v vs)
  show ?case
    unfolding dependency_loop.simps Let_def
  proof (intro read_yields yields_if yields_fail)
    fix d st1
    assume paid: "pays limits 8 st st1" and d: "\<not> d \<in> set unique" "\<not> d \<notin> set (tr_seenSequenceIds st1)"
    show "yields limits st1 (dependency_loop limits na vs (i + 1) pointer root (set_insert d unique) (out @ [d]) st1)
      (\<lambda>out' st'. distinct out' \<and> set out' \<subseteq> set (tr_seenSequenceIds st) \<and> length out' = length out + length (v # vs) \<and>
        pays limits (8 * length (v # vs)) st st')"
      by (rule yields_mono [OF Cons.IH]) (use Cons.prems paid d in \<open>auto simp: pays_def\<close>)
  qed
qed (simp add: yields_return)

abbreviation attributes_cost :: "(string \<times> 'd pto_value) list \<Rightarrow> nat" where
  "attributes_cost ms \<equiv> (\<Sum>m \<leftarrow> ms. value_cost (snd m))"

lemma attribute_loop_yields:
  fixes out :: "(string \<times> 'd pto_value) list"
  assumes "ordered out" and "\<forall>m \<in> set out. value_ok (snd m)"
  shows "yields limits st (attribute_loop limits na ms pointer root out st)
     (\<lambda>out' st'. ordered out' \<and> (\<forall>m \<in> set out'. value_ok (snd m)) \<and> length out' \<le> length out + length ms \<and>
        (\<exists>n. attributes_cost out' \<le> attributes_cost out + n \<and> pays limits n st st'))"
  using assms
proof (induction ms arbitrary: out st)
  case (Cons m ms)
  obtain key v where m: "m = (key, v)" by (cases m)
  show ?case
    unfolding m attribute_loop.simps
  proof (intro read_yields)
    fix x :: "'d pto_value" and st1
    assume x: "value_ok x" and paid: "pays limits (value_cost x) st st1"
    have keep: "ordered (map_emplace key x out)" "\<forall>m \<in> set (map_emplace key x out). value_ok (snd m)"
      "length (map_emplace key x out) \<le> length out + 1"
      using Cons.prems x set_map_emplace [of key x out] length_map_emplace [of key x out] by auto
    have cost: "attributes_cost (map_emplace key x out) \<le> attributes_cost out + value_cost x"
      using sum_map_emplace [where f = "\<lambda>m. value_cost (snd m)" and k = key and v = x and m = out] by simp
    show "yields limits st1 (attribute_loop limits na ms pointer root (map_emplace key x out) st1)
      (\<lambda>out' st'. ordered out' \<and> (\<forall>m \<in> set out'. value_ok (snd m)) \<and> length out' \<le> length out + length ((key, v) # ms) \<and>
        (\<exists>n. attributes_cost out' \<le> attributes_cost out + n \<and> pays limits n st st'))"
    proof (rule yields_mono [OF Cons.IH [OF keep(1,2)]], elim conjE exE, intro conjI)
      fix out' st' n
      assume "attributes_cost out' \<le> attributes_cost (map_emplace key x out) + n" and "pays limits n st1 st'"
      then show "\<exists>n. attributes_cost out' \<le> attributes_cost out + n \<and> pays limits n st st'"
        using cost pays_trans [OF paid] by (intro exI [of _ "value_cost x + n"]) auto
    qed (use keep in auto)
  qed
qed (auto simp: yields_return intro: exI [of _ 0])

definition source_ok :: "pto_source_location \<Rightarrow> bool" where
  "source_ok loc \<longleftrightarrow> sl_file loc \<noteq> [] \<and> sl_line loc \<noteq> 0 \<and> sl_column loc \<noteq> 0"

text \<open>A well-formed record, given the declared address spaces and the IDs of the records before it.\<close>

definition record_ok :: "trace_limits \<Rightarrow> string set \<Rightarrow> u64 set \<Rightarrow> 'd pto_record \<Rightarrow> bool" where
  "record_ok limits spaces earlier r \<longleftrightarrow> isOpcode (pr_opcode r) \<and>
     length (pr_operands r) \<le> tl_maxOperandsPerRecord limits \<and> (\<forall>op \<in> set (pr_operands r). operand_ok spaces earlier op) \<and>
     length (pr_dependencies r) \<le> tl_maxDependenciesPerRecord limits \<and> distinct (pr_dependencies r) \<and>
     set (pr_dependencies r) \<subseteq> earlier \<and>
     length (pr_attributes r) \<le> tl_maxAttributeMembers limits \<and> ordered (pr_attributes r) \<and>
     (\<forall>m \<in> set (pr_attributes r). value_ok (snd m)) \<and> (\<forall>loc. pr_source r = Some loc \<longrightarrow> source_ok loc)"

definition record_cost :: "'d pto_record \<Rightarrow> nat" where
  "record_cost r = 8 + length (pr_opcode r) + (\<Sum>op \<leftarrow> pr_operands r. operand_cost op) + 8 * length (pr_dependencies r) +
     attributes_cost (pr_attributes r) + (if pr_issueTime r = None then 0 else 8) +
     (case pr_source r of None \<Rightarrow> 0 | Some loc \<Rightarrow> length (sl_file loc) + 16)"

lemma record_parts_yield:
  "yields limits st (record_operands limits na r pointer root st) (\<lambda>ops st'. length ops \<le> tl_maxOperandsPerRecord limits \<and>
     (\<forall>op \<in> set ops. operand_ok (set (tr_declaredAddressSpaces st)) (set (tr_seenSequenceIds st)) op) \<and>
     pays limits (\<Sum>op \<leftarrow> ops. operand_cost op) st st')"
  "yields limits st (record_dependencies limits na r pointer root st) (\<lambda>ds st'. length ds \<le> tl_maxDependenciesPerRecord limits \<and>
     distinct ds \<and> set ds \<subseteq> set (tr_seenSequenceIds st) \<and> pays limits (8 * length ds) st st')"
  "yields limits st (record_attributes limits na r pointer root st) (\<lambda>ms st'. length ms \<le> tl_maxAttributeMembers limits \<and>
     ordered ms \<and> (\<forall>m \<in> set ms. value_ok (snd m)) \<and> pays limits (attributes_cost ms) st st')"
  "yields limits st (record_issue_time limits na r pointer root st) (\<lambda>t st'. pays limits (if t = None then 0 else 8) st st')"
  "yields limits st (record_source limits na r pointer root st) (\<lambda>loc st'. (\<forall>l. loc = Some l \<longrightarrow> source_ok l) \<and>
     pays limits (case loc of None \<Rightarrow> 0 | Some l \<Rightarrow> length (sl_file l) + 16) st st')"
proof -
  show "yields limits st (record_operands limits na r pointer root st) (\<lambda>ops st'. length ops \<le> tl_maxOperandsPerRecord limits \<and>
     (\<forall>op \<in> set ops. operand_ok (set (tr_declaredAddressSpaces st)) (set (tr_seenSequenceIds st)) op) \<and>
     pays limits (\<Sum>op \<leftarrow> ops. operand_cost op) st st')"
    by (auto simp: record_operands_def split: option.split intro!: yields_mono [OF operand_loop_yields])
  show "yields limits st (record_dependencies limits na r pointer root st) (\<lambda>ds st'. length ds \<le> tl_maxDependenciesPerRecord limits \<and>
     distinct ds \<and> set ds \<subseteq> set (tr_seenSequenceIds st) \<and> pays limits (8 * length ds) st st')"
    by (auto simp: record_dependencies_def split: option.split intro!: yields_mono [OF dependency_loop_yields])
  show "yields limits st (record_attributes limits na r pointer root st) (\<lambda>ms st'. length ms \<le> tl_maxAttributeMembers limits \<and>
     ordered ms \<and> (\<forall>m \<in> set ms. value_ok (snd m)) \<and> pays limits (attributes_cost ms) st st')"
    by (auto simp: record_attributes_def split: option.split intro!: yields_mono [OF attribute_loop_yields] intro: pays_trans [OF pays_refl])
  show "yields limits st (record_issue_time limits na r pointer root st) (\<lambda>t st'. pays limits (if t = None then 0 else 8) st st')"
    by (auto simp: record_issue_time_def yields_return split: option.split intro!: read_yields)
  show "yields limits st (record_source limits na r pointer root st) (\<lambda>loc st'. (\<forall>l. loc = Some l \<longrightarrow> source_ok l) \<and>
     pays limits (case loc of None \<Rightarrow> 0 | Some l \<Rightarrow> length (sl_file l) + 16) st st')"
    by (auto simp: record_source_def yields_return source_ok_def split: option.split intro!: yields_then [OF parseSource_yields])
qed

text \<open>What parsing one record does to the parser.\<close>

definition record_read :: "trace_limits \<Rightarrow> trace_parser \<Rightarrow> trace_parser \<Rightarrow> 'd pto_record \<Rightarrow> bool" where
  "record_read limits st st' r \<longleftrightarrow>
     record_ok limits (set (tr_declaredAddressSpaces st)) (set (tr_seenSequenceIds st)) r \<and>
     (\<forall>p. tr_lastSequenceId st = Some p \<longrightarrow> p < pr_sequenceId r) \<and> tr_lastSequenceId st' = Some (pr_sequenceId r) \<and>
     tr_seenSequenceIds st' = set_insert (pr_sequenceId r) (tr_seenSequenceIds st) \<and>
     tr_declaredAddressSpaces st' = tr_declaredAddressSpaces st \<and>
     tr_decodedBytes st + record_cost r \<le> tr_decodedBytes st' \<and>
     (tr_decodedBytes st \<le> tl_maxAggregateDecodedBytes limits \<longrightarrow> tr_decodedBytes st' \<le> tl_maxAggregateDecodedBytes limits)"

lemma read_opcode_yields:
  assumes "\<And>s st1. tr_diagnostics st1 = tr_diagnostics st \<Longrightarrow> s \<noteq> [] \<Longrightarrow>
      pays limits (length s) (st\<lparr>tr_lastSequenceId := l\<rparr>) st1 \<Longrightarrow> yields limits st1 (f s st1) Q"
  shows "yields limits st (parse_then (readString limits v pointer q (st\<lparr>tr_lastSequenceId := l\<rparr>)) f) Q"
proof -
  have "yields limits (st\<lparr>tr_lastSequenceId := l\<rparr>) (parse_then (readString limits v pointer q (st\<lparr>tr_lastSequenceId := l\<rparr>)) f) Q"
    by (intro read_yields(1) assms) simp_all
  then show ?thesis by (simp add: yields_cong_start [of "st\<lparr>tr_lastSequenceId := l\<rparr>" st])
qed

lemma parseRecord_yields:
  "yields limits st (parseRecord limits na r pointer st) (\<lambda>r' st'. record_read limits st st' r')"
  unfolding parseRecord_def
  apply (intro read_yields read_opcode_yields yields_if yields_fail record_parts_yield [THEN yields_then] yields_returnI)
  by (auto simp: record_read_def record_ok_def record_cost_def pays_def split: option.split_asm)

section \<open>Documents\<close>

text \<open>The records of a document: IDs increase strictly, and each record refers to earlier ones only.\<close>

definition records_ok :: "trace_limits \<Rightarrow> string set \<Rightarrow> 'd pto_record list \<Rightarrow> bool" where
  "records_ok limits spaces rs \<longleftrightarrow> sorted_wrt (<) (map pr_sequenceId rs) \<and>
     (\<forall>i < length rs. record_ok limits spaces (pr_sequenceId ` set (take i rs)) (rs ! i))"

lemma records_ok_Nil [simp]: "records_ok limits spaces []"
  by (simp add: records_ok_def)

lemma records_ok_snoc: "records_ok limits spaces (rs @ [r]) \<longleftrightarrow> records_ok limits spaces rs \<and>
    (\<forall>p \<in> set rs. pr_sequenceId p < pr_sequenceId r) \<and> record_ok limits spaces (pr_sequenceId ` set rs) r"
proof -
  have "(\<forall>i < length (rs @ [r]). record_ok limits spaces (pr_sequenceId ` set (take i (rs @ [r]))) ((rs @ [r]) ! i)) \<longleftrightarrow>
      (\<forall>i < length rs. record_ok limits spaces (pr_sequenceId ` set (take i rs)) (rs ! i)) \<and>
      record_ok limits spaces (pr_sequenceId ` set rs) r"
    by (auto simp: less_Suc_eq nth_append)
  then show ?thesis by (auto simp: records_ok_def sorted_wrt_append)
qed

definition metadata_ok :: "pto_metadata \<Rightarrow> bool" where
  "metadata_ok m \<longleftrightarrow> distinct (pm_addressSpaces m) \<and> [] \<notin> set (pm_addressSpaces m) \<and>
     (pm_contentHash m = [] \<or> is_fingerprint (pm_contentHash m))"

definition metadata_cost :: "pto_metadata \<Rightarrow> nat" where
  "metadata_cost m = length (pm_producer m) + length (pm_ptoIdentity m) + length (pm_sourceProgram m) +
     length (pm_dataLayout m) + length (pm_contentHash m) + (if pm_recordCount m = None then 0 else 8) +
     (\<Sum>s \<leftarrow> pm_addressSpaces m. length s)"

definition document_ok :: "trace_limits \<Rightarrow> 'd pto_document \<Rightarrow> bool" where
  "document_ok limits d \<longleftrightarrow> metadata_ok (pd_metadata d) \<and>
     records_ok limits (set (pm_addressSpaces (pd_metadata d))) (pd_records d) \<and>
     length (pd_records d) \<le> tl_maxRecordCount limits \<and>
     (\<forall>n. pm_recordCount (pd_metadata d) = Some n \<longrightarrow> unat n = length (pd_records d))"

definition document_cost :: "'d pto_document \<Rightarrow> nat" where
  "document_cost d = metadata_cost (pd_metadata d) + (\<Sum>r \<leftarrow> pd_records d. record_cost r)"

text \<open>The parser state that corresponds to the records read so far.\<close>

definition reads_so_far :: "trace_limits \<Rightarrow> 'd pto_record list \<Rightarrow> trace_parser \<Rightarrow> bool" where
  "reads_so_far limits rs st \<longleftrightarrow> records_ok limits (set (tr_declaredAddressSpaces st)) rs \<and>
     set (tr_seenSequenceIds st) = pr_sequenceId ` set rs \<and>
     tr_lastSequenceId st = (if rs = [] then None else Some (pr_sequenceId (last rs)))"

lemma reads_so_far_snoc:
  assumes "reads_so_far limits rs st" and "record_read limits st st' r"
  shows "reads_so_far limits (rs @ [r]) st'"
proof -
  have "pr_sequenceId p < pr_sequenceId r" if p: "p \<in> set rs" for p
  proof -
    have "rs \<noteq> []" using p by auto
    then have "pr_sequenceId p \<le> pr_sequenceId (last rs)"
      using assms(1) p unfolding reads_so_far_def records_ok_def
      by (cases rs rule: rev_cases) (auto simp: sorted_wrt_append less_imp_le)
    also have "\<dots> < pr_sequenceId r"
      using assms \<open>rs \<noteq> []\<close> by (simp add: reads_so_far_def record_read_def)
    finally show ?thesis .
  qed
  then show ?thesis
    using assms by (auto simp: reads_so_far_def record_read_def records_ok_snoc)
qed

lemma record_loop_yields:
  fixes out :: "'d pto_record list"
  assumes "reads_so_far limits out st"
  shows "yields limits st (record_loop limits na vs i out st)
     (\<lambda>out' st'. reads_so_far limits out' st' \<and> length out' = length out + length vs \<and>
        tr_declaredAddressSpaces st' = tr_declaredAddressSpaces st \<and>
        tr_decodedBytes st + (\<Sum>r \<leftarrow> out'. record_cost r) \<le> tr_decodedBytes st' + (\<Sum>r \<leftarrow> out. record_cost r) \<and>
        (tr_decodedBytes st \<le> tl_maxAggregateDecodedBytes limits \<longrightarrow> tr_decodedBytes st' \<le> tl_maxAggregateDecodedBytes limits))"
  using assms
proof (induction vs arbitrary: i out st)
  case (Cons v vs)
  show ?case
  proof (cases "getAsObject (Some v)")
    case (Some r)
    show ?thesis
      unfolding record_loop.simps Let_def Some option.case
    proof (rule yields_then [OF parseRecord_yields], rule yields_mono [OF Cons.IH])
      fix r' :: "'d pto_record" and st1 assume "record_read limits st st1 r'"
      with Cons.prems show "reads_so_far limits (out @ [r']) st1" by (rule reads_so_far_snoc)
    qed (auto simp: record_read_def)
  qed simp
qed (simp add: yields_return)

lemma metadata_parts_yield:
  "yields limits st (metadata_string limits m key st) (\<lambda>s st'. pays limits (length s) st st')"
  "yields limits st (metadata_count limits na m st) (\<lambda>n st'. pays limits (if n = None then 0 else 8) st st')"
  "yields limits st (metadata_hash limits m st) (\<lambda>h st'. (h = [] \<or> is_fingerprint h) \<and> pays limits (length h) st st')"
  by (auto simp: metadata_string_def metadata_count_def metadata_hash_def yields_return split: option.split
    intro!: read_yields yields_mono [OF readString_yields])

lemma space_loop_yields:
  assumes "distinct out" and "[] \<notin> set out" and "set unique = set out" and "set (tr_declaredAddressSpaces st) = set out"
  shows "yields limits st (space_loop limits vs i unique out st)
     (\<lambda>out' st'. distinct out' \<and> [] \<notin> set out' \<and> tr_lastSequenceId st' = tr_lastSequenceId st \<and>
        tr_seenSequenceIds st' = tr_seenSequenceIds st \<and> set (tr_declaredAddressSpaces st') = set out' \<and>
        tr_decodedBytes st + (\<Sum>s \<leftarrow> out'. length s) \<le> tr_decodedBytes st' + (\<Sum>s \<leftarrow> out. length s) \<and>
        (tr_decodedBytes st \<le> tl_maxAggregateDecodedBytes limits \<longrightarrow> tr_decodedBytes st' \<le> tl_maxAggregateDecodedBytes limits))"
  using assms
proof (induction vs arbitrary: i unique out st)
  case (Cons v vs)
  show ?case
    unfolding space_loop.simps Let_def
  proof (intro read_yields yields_if yields_fail)
    fix space st1
    assume space: "space \<noteq> []" "\<not> space \<in> set unique" and paid: "pays limits (length space) st st1"
    let ?st2 = "st1\<lparr>tr_declaredAddressSpaces := set_insert space (tr_declaredAddressSpaces st1)\<rparr>"
    have same: "tr_diagnostics st1 = tr_diagnostics ?st2" by simp
    show "yields limits st1 (space_loop limits vs (i + 1) (set_insert space unique) (out @ [space]) ?st2)
      (\<lambda>out' st'. distinct out' \<and> [] \<notin> set out' \<and> tr_lastSequenceId st' = tr_lastSequenceId st \<and>
        tr_seenSequenceIds st' = tr_seenSequenceIds st \<and> set (tr_declaredAddressSpaces st') = set out' \<and>
        tr_decodedBytes st + (\<Sum>s \<leftarrow> out'. length s) \<le> tr_decodedBytes st' + (\<Sum>s \<leftarrow> out. length s) \<and>
        (tr_decodedBytes st \<le> tl_maxAggregateDecodedBytes limits \<longrightarrow> tr_decodedBytes st' \<le> tl_maxAggregateDecodedBytes limits))"
      unfolding yields_cong_start [OF same]
      by (rule yields_mono [OF Cons.IH]) (use Cons.prems space paid in \<open>auto simp: pays_def\<close>)
  qed
qed (simp add: yields_return)

lemma parseMetadata_yields:
  assumes "tr_declaredAddressSpaces st = []"
  shows "yields limits st (parseMetadata limits na m st)
     (\<lambda>m' st'. metadata_ok m' \<and> set (tr_declaredAddressSpaces st') = set (pm_addressSpaces m') \<and>
        tr_lastSequenceId st' = tr_lastSequenceId st \<and> tr_seenSequenceIds st' = tr_seenSequenceIds st \<and>
        tr_decodedBytes st + metadata_cost m' \<le> tr_decodedBytes st' \<and>
        (tr_decodedBytes st \<le> tl_maxAggregateDecodedBytes limits \<longrightarrow> tr_decodedBytes st' \<le> tl_maxAggregateDecodedBytes limits))"
proof -
  have spaces: "tr_declaredAddressSpaces st7 = [] \<Longrightarrow> yields limits st7 (metadata_spaces limits m st7)
      (\<lambda>out' st'. distinct out' \<and> [] \<notin> set out' \<and> tr_lastSequenceId st' = tr_lastSequenceId st7 \<and>
        tr_seenSequenceIds st' = tr_seenSequenceIds st7 \<and> set (tr_declaredAddressSpaces st') = set out' \<and>
        tr_decodedBytes st7 + (\<Sum>s \<leftarrow> out'. length s) \<le> tr_decodedBytes st' \<and>
        (tr_decodedBytes st7 \<le> tl_maxAggregateDecodedBytes limits \<longrightarrow> tr_decodedBytes st' \<le> tl_maxAggregateDecodedBytes limits))" for st7
    by (auto simp: metadata_spaces_def yields_return split: option.split intro!: yields_mono [OF space_loop_yields])
  show ?thesis
    unfolding parseMetadata_def
    by (intro read_yields metadata_parts_yield [THEN yields_then] spaces [THEN yields_then] yields_returnI)
      (use assms in \<open>simp_all add: pays_def metadata_ok_def metadata_cost_def\<close>)
qed

lemma validateContentHash_yields:
  "yields limits st (validateContentHash limits env records declared st)
     (\<lambda>_ st'. st' = st \<and> (declared \<noteq> [] \<longrightarrow>
        (\<exists>t. canonicalizeJson (trace_json_limits limits 100000) (te_numbers env) (JArray records) = Inr t \<and>
             declared = sha256Fingerprint (te_sha256 env) t)))"
  by (auto simp: validateContentHash_def yields_return split: sum.split)

lemma parseRoot_yields:
  "yields limits new_parser (parseRoot limits env root new_parser)
     (\<lambda>d st'. document_ok limits d \<and> document_cost d \<le> tl_maxAggregateDecodedBytes limits)"
  unfolding parseRoot_def
  by (intro read_yields yields_steps yields_option parseMetadata_yields [THEN yields_then] record_loop_yields [THEN yields_then]
      validateContentHash_yields [THEN yields_then])
    (auto simp: document_ok_def document_cost_def reads_so_far_def new_parser_def split: option.split_asm)

section \<open>Loading\<close>

lemma parsePtoTrace_result:
  "(\<exists>d. parsePtoTrace limits env input = \<lparr>lr_document = Some d, lr_diagnostics = []\<rparr> \<and> document_ok limits d \<and>
      document_cost d \<le> tl_maxAggregateDecodedBytes limits) \<or>
   (\<exists>e. td_code e \<in> trace_codes \<and>
      parsePtoTrace limits env input = \<lparr>lr_document = None, lr_diagnostics = take (tl_maxDiagnostics limits) [e]\<rparr>)"
proof -
  have start: "tr_diagnostics new_parser = []" by (simp add: new_parser_def)
  have verdict: "yields limits new_parser r (\<lambda>d st'. document_ok limits d \<and> document_cost d \<le> tl_maxAggregateDecodedBytes limits) \<Longrightarrow>
      (\<exists>d. load_result r = \<lparr>lr_document = Some d, lr_diagnostics = []\<rparr> \<and> document_ok limits d \<and>
        document_cost d \<le> tl_maxAggregateDecodedBytes limits) \<or>
      (\<exists>e. td_code e \<in> trace_codes \<and> load_result r = \<lparr>lr_document = None, lr_diagnostics = take (tl_maxDiagnostics limits) [e]\<rparr>)" for r :: "'a pto_document parsed"
    by (cases r; cases "fst r") (auto simp: yields_def load_result_def start take_Cons' split: if_split_asm)
  show ?thesis
    unfolding parsePtoTrace_def
    by (rule verdict) (auto simp: parseRoot_yields split: sum.split option.split)
qed

end
