(* ===== verification/Trace_Replay.thy ===== *)
theory Trace_Replay
  imports Trace_Parser
begin

text \<open>
  What loading a trace promises to the trace source that replays it: the verdict of a load, the
  well-formedness of a loaded document, the byte stream in front of the parser, and the replay of a
  loaded document by a \<open>TraceSource\<close> up to its end.
\<close>

section \<open>A sample document\<close>

definition quoted :: "string \<Rightarrow> string" where
  "quoted s = CHR 0x22 # s @ [CHR 0x22]"

definition sample_text :: string where
  "sample_text = ''{'' @ quoted ''schema'' @ '':'' @ quoted ''pto-trace'' @ '','' @ quoted ''version'' @ '':'' @ quoted ''0.2'' @ '','' @
     quoted ''contract_epoch'' @ '':'' @ quoted ''0.2'' @ '','' @ quoted ''metadata'' @ '':{},'' @ quoted ''records'' @ '':[{'' @
     quoted ''sequence_id'' @ '':3,'' @ quoted ''opcode'' @ '':'' @ quoted ''load'' @ '','' @ quoted ''operands'' @ '':[{'' @
     quoted ''kind'' @ '':'' @ quoted ''buffer'' @ '','' @ quoted ''id'' @ '':'' @ quoted ''b0'' @ ''}],'' @
     quoted ''dependencies'' @ '':[],'' @ quoted ''attributes'' @ '':{}}]}''"

definition sample_root :: "nat json" where
  "sample_root = JObject [(''schema'', JString ''pto-trace''), (''version'', JString ''0.2''), (''contract_epoch'', JString ''0.2''),
     (''metadata'', JObject []), (''records'', JArray [JObject [(''sequence_id'', JNumber 3), (''opcode'', JString ''load''),
       (''operands'', JArray [JObject [(''kind'', JString ''buffer''), (''id'', JString ''b0'')]]), (''dependencies'', JArray []), (''attributes'', JObject [])]])]"

definition natural_access :: "(nat, unit) number_access" where
  "natural_access = \<lparr>na_integer = (\<lambda>n. if n < 2 ^ 63 then Some (of_nat n) else None),
     na_uint64 = (\<lambda>n. if n < 2 ^ 64 then Some (of_nat n) else None), na_number = (\<lambda>n. Some ())\<rparr>"

definition sample_env :: "(nat, unit) trace_env" where
  "sample_env = \<lparr>te_lexer = plain_lexer, te_parse = (\<lambda>input. if input = sample_text then Inr sample_root else Inl ''parse error''),
     te_numbers = sample_numbers, te_access = natural_access, te_sha256 = (\<lambda>bytes. [])\<rparr>"

definition sample_trace_limits :: trace_limits where
  "sample_trace_limits = \<lparr>tl_maxDocumentBytes = 1000, tl_maxNestingDepth = 9, tl_maxStringBytes = 100, tl_maxRecordCount = 10,
     tl_maxOperandsPerRecord = 10, tl_maxDependenciesPerRecord = 10, tl_maxAttributeMembers = 10,
     tl_maxAggregateDecodedBytes = 1000, tl_maxDiagnostics = 3\<rparr>"

definition loaded_record :: "unit pto_record" where
  "loaded_record = (sample_record 3 [])\<lparr>pr_operands := [empty_operand\<lparr>po_kind := Buffer, po_id := ''b0''\<rparr>]\<rparr>"

definition loaded_document :: "unit pto_document" where
  "loaded_document = \<lparr>pd_metadata = empty_metadata, pd_records = [loaded_record]\<rparr>"

lemma sample_scan: "scanDocument plain_lexer (trace_json_limits sample_trace_limits 1000) sample_text =
    Inr \<lparr>js_position = 196, js_structuralWork = 15, js_totalStringBytes = 122\<rparr>"
  by code_simp

lemma sample_parse_root:
  "\<exists>st. parseRoot sample_trace_limits sample_env (case sample_root of JObject root \<Rightarrow> root | _ \<Rightarrow> []) new_parser = (Some loaded_document, st) \<and>
     tr_diagnostics st = []"
  by (simp add: parseRoot_def sample_root_def checkObject_def parseMetadata_def metadata_string_def metadata_count_def metadata_hash_def
    metadata_spaces_def sample_trace_limits_def sample_env_def parseRecord_def readUInt_def natural_access_def spendDecoded_def new_parser_def
    readString_def record_operands_def record_dependencies_def record_attributes_def record_issue_time_def record_source_def
    validateContentHash_def loaded_document_def loaded_record_def empty_metadata_def sample_record_def is_digit_def parseOperand_def)

lemma sample_load: "parsePtoTrace sample_trace_limits sample_env sample_text = \<lparr>lr_document = Some loaded_document, lr_diagnostics = []\<rparr>"
proof -
  have "max (tl_maxAggregateDecodedBytes sample_trace_limits) 1 = 1000" by (simp add: sample_trace_limits_def)
  with sample_scan sample_parse_root show ?thesis
    by (auto simp: parsePtoTrace_def parseIJson_def load_result_def sample_env_def sample_root_def)
qed

section \<open>The verdict of a load\<close>



text \<open>
  C26: A loaded document is well formed and within the limits. The sequence IDs of its records
  increase strictly; the dependencies of a record are distinct and every one, and every record result
  among its operands, names an earlier record; every address operand names a declared address space,
  and these are distinct; opcodes are spelled as required; counts of records, operands, dependencies
  and attributes are within their limits, and a declared record count is exact. The bytes that the
  decoded document stands for are within the aggregate budget.
\<close>

theorem loaded_trace_well_formed:
  assumes "lr_document (parsePtoTrace limits env input) = Some d"
  shows "document_ok limits d \<and> document_cost d \<le> tl_maxAggregateDecodedBytes limits"
  using parsePtoTrace_result [of limits env input] assms by auto

theorem loaded_trace_well_formed_witness:
  "document_ok sample_trace_limits loaded_document \<and> document_cost loaded_document \<le> 1000"
  using loaded_trace_well_formed [of sample_trace_limits sample_env sample_text loaded_document] sample_load
  by (simp add: sample_trace_limits_def)

section \<open>The byte stream\<close>

definition append_all :: "string list \<Rightarrow> trace_stream \<Rightarrow> trace_stream" where
  "append_all chunks s = fold (\<lambda>chunk s. snd (stream_append chunk s)) chunks s"

definition stream_holds :: "trace_limits \<Rightarrow> string \<Rightarrow> trace_stream \<Rightarrow> bool" where
  "stream_holds limits bytes s \<longleftrightarrow> st_limits s = limits \<and> \<not> st_finished s \<and>
     (if length bytes \<le> tl_maxDocumentBytes limits then st_buffer s = bytes \<and> \<not> st_exceededByteLimit s
      else st_exceededByteLimit s)"

lemma stream_holds_append:
  "stream_holds limits bytes s \<Longrightarrow> stream_holds limits (bytes @ chunk) (snd (stream_append chunk s))"
  by (auto simp: stream_holds_def stream_append_def split: if_split_asm)

lemma stream_holds_all: "stream_holds limits bytes s \<Longrightarrow> stream_holds limits (bytes @ concat chunks) (append_all chunks s)"
proof (induction chunks arbitrary: bytes s)
  case (Cons chunk chunks)
  from Cons.IH [OF stream_holds_append [OF Cons.prems]] show ?case by (simp add: append_all_def)
qed (simp add: append_all_def)


section \<open>Replay\<close>

text \<open>
  One round of a consumer that completes every issued record, lets the source commit, work and
  commit again, and accepts what is offered.
\<close>

definition replay_round :: "epoch \<Rightarrow> 'd pto_document \<Rightarrow> trace_call list" where
  "replay_round e d = map (\<lambda>r. TsComplete (pr_sequenceId r)) (pd_records d) @ [TsXfer e, TsWork e, TsXfer e, TsAccept, TsXfer e]"

abbreviation position :: "('t, 'd, 's) trace_run \<Rightarrow> nat" where
  "position r \<equiv> cursor (tr_component r)"

lemma position_monotone:
  assumes "trace_inv decoder (tr_component r)"
  shows "position r \<le> position (trace_apply api decoder call r)"
proof (cases call)
  case (TsXfer e)
  then show ?thesis
    using assms by (simp add: trace_doXfer_halves [OF assms] trace_accept_half_def trace_offer_half_def)
next
  case (TsWork e)
  then show ?thesis using trace_work_frame [of api decoder e "tr_component r" "tr_system r"] by (auto split: prod.split)
next
  case TsArbitrate
  then show ?thesis
    using trace_arbitrate_object [of api "tr_component r" "tr_system r"]
    by (auto simp: setRuntimeFailureCode_def split: prod.split)
qed (simp_all add: proposeAccept_def markDependencyComplete_def)

text \<open>No dependency of the record at the cursor is open.\<close>

definition unblocked :: "('t, 'd, 's) trace_run \<Rightarrow> bool" where
  "unblocked r \<longleftrightarrow> blocked_on (tr_component r) (current_record (tr_component r)) = []"

lemma complete_all:
  assumes "trace_run_inv decoder d r"
  shows "let r' = fold (trace_apply api decoder) (map (\<lambda>x. TsComplete (pr_sequenceId x)) rs) r in
     trace_run_inv decoder d r' \<and> position r' = position r \<and>
     ts_issuedSequences (tr_component r') = ts_issuedSequences (tr_component r) \<and>
     pr_sequenceId ` set rs \<inter> set (ts_issuedSequences (tr_component r)) \<subseteq> set (ts_completedSequences (tr_component r')) \<and>
     set (ts_completedSequences (tr_component r)) \<subseteq> set (ts_completedSequences (tr_component r'))"
  using assms
proof (induction rs arbitrary: r)
  case (Cons x rs)
  let ?r = "trace_apply api decoder (TsComplete (pr_sequenceId x)) r"
  have step: "position ?r = position r" "ts_issuedSequences (tr_component ?r) = ts_issuedSequences (tr_component r)"
    "{pr_sequenceId x} \<inter> set (ts_issuedSequences (tr_component r)) \<subseteq> set (ts_completedSequences (tr_component ?r))"
    "set (ts_completedSequences (tr_component r)) \<subseteq> set (ts_completedSequences (tr_component ?r))"
    by (auto simp: markDependencyComplete_def)
  from Cons.IH [OF trace_run_inv_apply [OF Cons.prems], of api "TsComplete (pr_sequenceId x)"] step show ?case
    unfolding Let_def list.map fold_simps by auto
qed (simp add: Let_def)

lemma run_inv_document: "trace_run_inv decoder d x \<Longrightarrow> ts_document (tr_component x) = d"
  by (simp add: trace_run_inv_def trace_ledger_def Let_def)

lemma run_inv_issued:
  assumes "trace_run_inv decoder d x"
  shows "set (ts_issuedSequences (tr_component x)) = pr_sequenceId ` set (take (position x) (pd_records d))"
  using assms run_inv_document [OF assms] unfolding trace_run_inv_def trace_inv_def trace_books_def by (elim conjE) simp

lemma unblocked_after_complete:
  assumes "trace_run_inv decoder d r" and "records_ok limits spaces (pd_records d)" and "position r < length (pd_records d)"
  shows "unblocked (fold (trace_apply api decoder) (map (\<lambda>x. TsComplete (pr_sequenceId x)) (pd_records d)) r)"
proof -
  define r' where "r' = fold (trace_apply api decoder) (map (\<lambda>x. TsComplete (pr_sequenceId x)) (pd_records d)) r"
  note after = complete_all [OF assms(1), of api "pd_records d", unfolded Let_def, folded r'_def]
  have doc: "ts_document (tr_component r') = d" using after by (blast intro: run_inv_document)
  have "set (pr_dependencies (pd_records d ! position r)) \<subseteq> pr_sequenceId ` set (take (position r) (pd_records d))"
    using assms(2,3) by (simp add: records_ok_def record_ok_def)
  moreover have "set (take (position r) (pd_records d)) \<subseteq> set (pd_records d)" by (rule set_take_subset)
  ultimately have "set (pr_dependencies (pd_records d ! position r)) \<subseteq> set (ts_completedSequences (tr_component r'))"
    using after run_inv_issued [OF assms(1)] by blast
  then show ?thesis
    using after doc unfolding r'_def [symmetric] by (auto simp: unblocked_def blocked_on_def current_record_def filter_empty_conv)
qed

lemma work_offers:
  assumes "trace_idle (tr_component r) \<longleftrightarrow> ts_committedOffer (tr_component r) \<noteq> None" and "unblocked r"
    and "\<not> ts_acceptProposal (tr_component r)" and "decoder (current_record (tr_component r)) \<noteq> None"
    and "\<not> issue_pending e (current_record (tr_component r))"
  shows "position (trace_apply api decoder (TsWork e) r) = position r"
    and "\<not> ts_acceptProposal (tr_component (trace_apply api decoder (TsWork e) r))"
    and "ts_committedOffer (tr_component (trace_apply api decoder (TsWork e) r)) \<noteq> None \<or>
      ts_offerProposal (tr_component (trace_apply api decoder (TsWork e) r)) \<noteq> None"
proof -
  let ?c = "tr_component (trace_apply api decoder (TsWork e) r)"
  have "cursor ?c = position r \<and> \<not> ts_acceptProposal ?c \<and> (ts_committedOffer ?c \<noteq> None \<or> ts_offerProposal ?c \<noteq> None)"
  proof (cases "ts_committedOffer (tr_component r)")
    case None
    obtain t where "decoder (current_record (tr_component r)) = Some t" using assms(4) by blast
    with None assms show ?thesis by (simp add: trace_doWork_def Let_def unblocked_def blocked_on_def)
  next
    case (Some t)
    with assms show ?thesis by (simp add: trace_doWork_def)
  qed
  then show "position (trace_apply api decoder (TsWork e) r) = position r" and "\<not> ts_acceptProposal ?c"
    and "ts_committedOffer ?c \<noteq> None \<or> ts_offerProposal ?c \<noteq> None" by blast+
qed

lemma xfer_accept:
  assumes "trace_inv decoder (tr_component x)" and "ts_acceptProposal (tr_component x)"
  shows "position (trace_apply api decoder (TsXfer e) x) = position x + 1"
  using assms(2) by (simp add: trace_doXfer_halves [OF assms(1)] trace_accept_half_def)

lemma xfer_offer:
  assumes "trace_inv decoder (tr_component x)" and "\<not> ts_acceptProposal (tr_component x)"
    and "ts_committedOffer (tr_component x) \<noteq> None \<or> ts_offerProposal (tr_component x) \<noteq> None"
  shows "position (trace_apply api decoder (TsXfer e) x) = position x"
    and "\<not> ts_acceptProposal (tr_component (trace_apply api decoder (TsXfer e) x))"
    and "ts_committedOffer (tr_component (trace_apply api decoder (TsXfer e) x)) \<noteq> None"
  using assms(2,3) by (auto simp: trace_doXfer_halves [OF assms(1)] trace_offer_half_def)

lemma accept_offer:
  assumes "ts_committedOffer (tr_component x) \<noteq> None"
  shows "position (trace_apply api decoder TsAccept x) = position x"
    and "ts_acceptProposal (tr_component (trace_apply api decoder TsAccept x))"
  using assms by (auto simp: proposeAccept_def)

text \<open>The five calls of a round, on an unblocked record that decodes and whose time has come.\<close>

lemma round_advances:
  assumes inv: "trace_run_inv decoder d r" and ready: "unblocked r" and lt: "position r < length (pd_records d)"
    and decodes: "decoder (pd_records d ! position r) \<noteq> None" and due: "\<not> issue_pending e (pd_records d ! position r)"
  shows "position r < position (fold (trace_apply api decoder) [TsXfer e, TsWork e, TsXfer e, TsAccept, TsXfer e] r)"
proof -
  let ?step = "trace_apply api decoder"
  let ?r1 = "?step (TsXfer e) r" let ?r2 = "?step (TsWork e) ?r1" let ?r3 = "?step (TsXfer e) ?r2"
  let ?r4 = "?step TsAccept ?r3" let ?r5 = "?step (TsXfer e) ?r4"
  have invs: "trace_run_inv decoder d ?r1" "trace_run_inv decoder d ?r2" "trace_run_inv decoder d ?r3" "trace_run_inv decoder d ?r4"
    using inv by (blast intro: trace_run_inv_apply)+
  have mono: "trace_run_inv decoder d x \<Longrightarrow> position x \<le> position (?step call x)" for x call
    by (rule position_monotone) (simp add: trace_run_inv_def)
  have ti: "trace_inv decoder (tr_component x)" if "trace_run_inv decoder d x" for x using that by (simp add: trace_run_inv_def)
  have doc: "ts_document (tr_component r) = d" using inv by (simp add: trace_run_inv_def trace_ledger_def Let_def)
  show ?thesis
  proof (cases "ts_acceptProposal (tr_component r)")
    case True
    then have "position ?r1 = position r + 1" by (rule xfer_accept [OF ti [OF inv]])
    then show ?thesis
      using mono [OF invs(1), of "TsWork e"] mono [OF invs(2), of "TsXfer e"] mono [OF invs(3), of TsAccept] mono [OF invs(4), of "TsXfer e"]
      unfolding fold_simps by linarith
  next
    case False
    have c1: "position ?r1 = position r" "ts_document (tr_component ?r1) = d" "\<not> ts_acceptProposal (tr_component ?r1)"
      "ts_offerProposal (tr_component ?r1) = None" "unblocked ?r1"
      using False ready doc
      by (auto simp: trace_doXfer_halves [OF ti [OF inv]] trace_offer_half_def unblocked_def blocked_on_def current_record_def)
    have c2: "position ?r2 = position r" "\<not> ts_acceptProposal (tr_component ?r2)"
      "ts_committedOffer (tr_component ?r2) \<noteq> None \<or> ts_offerProposal (tr_component ?r2) \<noteq> None"
    proof -
      have "\<not> tp_endOfTrace (ts_position (tr_component ?r1))"
        using ti [OF invs(1)] c1(1,2) lt unfolding trace_inv_def trace_books_def by (elim conjE) simp
      then have idle: "trace_idle (tr_component ?r1) \<longleftrightarrow> ts_committedOffer (tr_component ?r1) \<noteq> None"
        using c1 lt by (simp add: trace_idle_def)
      have "current_record (tr_component ?r1) = pd_records d ! position r" by (simp only: current_record_def c1(1,2))
      with decodes due have now: "decoder (current_record (tr_component ?r1)) \<noteq> None" "\<not> issue_pending e (current_record (tr_component ?r1))"
        by simp_all
      note w = work_offers [where decoder = decoder and e = e and api = api, OF idle c1(5,3) now]
      show "position ?r2 = position r" using w(1) c1(1) by (rule trans)
      show "\<not> ts_acceptProposal (tr_component ?r2)" by (rule w(2))
      show "ts_committedOffer (tr_component ?r2) \<noteq> None \<or> ts_offerProposal (tr_component ?r2) \<noteq> None" by (rule w(3))
    qed
    have c3: "position ?r3 = position r" "\<not> ts_acceptProposal (tr_component ?r3)" "ts_committedOffer (tr_component ?r3) \<noteq> None"
      using xfer_offer [OF ti [OF invs(2)] c2(2,3), of api e] c2(1) by simp_all
    have c4: "position ?r4 = position r" "ts_acceptProposal (tr_component ?r4)"
      using accept_offer [OF c3(3), of api decoder] c3(1) by simp_all
    have "position ?r5 = position r + 1"
      using xfer_accept [OF ti [OF invs(4)] c4(2), of api e] c4(1) by simp
    then show ?thesis unfolding fold_simps by linarith
  qed
qed

lemma round_position:
  assumes inv: "trace_run_inv decoder d r" and ok: "records_ok limits spaces (pd_records d)"
    and decodes: "\<forall>x \<in> set (pd_records d). decoder x \<noteq> None" and due: "\<forall>x \<in> set (pd_records d). \<not> issue_pending e x"
  shows "min (length (pd_records d)) (position r + 1) \<le> position (fold (trace_apply api decoder) (replay_round e d) r)"
proof -
  define r' where "r' = fold (trace_apply api decoder) (map (\<lambda>x. TsComplete (pr_sequenceId x)) (pd_records d)) r"
  have after: "trace_run_inv decoder d r'" "position r' = position r"
    using complete_all [OF inv, of api "pd_records d", unfolded Let_def, folded r'_def] by blast+
  have round: "fold (trace_apply api decoder) (replay_round e d) r =
      fold (trace_apply api decoder) [TsXfer e, TsWork e, TsXfer e, TsAccept, TsXfer e] r'"
    by (simp add: replay_round_def r'_def)
  show ?thesis
  proof (cases "position r < length (pd_records d)")
    case True
    have "unblocked r'" unfolding r'_def by (rule unblocked_after_complete [OF inv ok True])
    moreover have "pd_records d ! position r \<in> set (pd_records d)" using True by simp
    ultimately have "position r' < position (fold (trace_apply api decoder) [TsXfer e, TsWork e, TsXfer e, TsAccept, TsXfer e] r')"
      using round_advances [OF after(1)] after(2) True decodes due by simp
    then show ?thesis unfolding round using after(2) by linarith
  next
    case False
    have "trace_run_inv decoder d x \<Longrightarrow> position x \<le> position (fold (trace_apply api decoder) calls x)" for calls x
    proof (induction calls arbitrary: x)
      case (Cons call calls)
      have "position x \<le> position (trace_apply api decoder call x)"
        using Cons.prems by (intro position_monotone) (simp add: trace_run_inv_def)
      with Cons.IH [OF trace_run_inv_apply [OF Cons.prems], of api call] show ?case by simp
    qed simp
    from this [OF inv, of "replay_round e d"] False show ?thesis by linarith
  qed
qed

lemma trace_run_inv_calls: "trace_run_inv decoder d r \<Longrightarrow> trace_run_inv decoder d (fold (trace_apply api decoder) calls r)"
  by (induction calls arbitrary: r) (auto intro: trace_run_inv_apply)

lemma rounds_position:
  assumes inv: "trace_run_inv decoder d r" and ok: "records_ok limits spaces (pd_records d)"
    and decodes: "\<forall>x \<in> set (pd_records d). decoder x \<noteq> None" and due: "\<forall>x \<in> set (pd_records d). \<not> issue_pending e x"
  shows "min (length (pd_records d)) (position r + n) \<le>
    position (fold (trace_apply api decoder) (concat (replicate n (replay_round e d))) r)"
  using inv
proof (induction n arbitrary: r)
  case 0
  then show ?case by simp
next
  case (Suc n)
  define r' where "r' = fold (trace_apply api decoder) (replay_round e d) r"
  have inv': "trace_run_inv decoder d r'" unfolding r'_def by (rule trace_run_inv_calls [OF Suc.prems])
  have rest: "fold (trace_apply api decoder) (concat (replicate (Suc n) (replay_round e d))) r =
      fold (trace_apply api decoder) (concat (replicate n (replay_round e d))) r'"
    by (simp add: r'_def)
  show ?case
    using round_position [OF Suc.prems ok decodes due, of api, folded r'_def] Suc.IH [OF inv'] unfolding rest by linarith
qed

text \<open>
  C27: A loaded trace can always be replayed to its end. Take a document that the parser loaded, with
  records that the decoder accepts, and a trace source on it after any sequence of calls. If from
  then on the consumer goes through rounds in which it completes the issued records, lets the source
  work and commit at an epoch when all issue times have come, and accepts what is offered, then after
  as many rounds as there are records the source is at the end of the trace and exactly the decoded
  records were handed out, once each and in order. The dependencies that the parser admits can never
  block the replay.
\<close>

theorem loaded_trace_replays_to_end:
  fixes decoder :: "'d pto_record \<Rightarrow> 't option" and api :: "'s sim_api" and env :: "('n, 'd) trace_env"
  assumes "lr_document (parsePtoTrace limits env input) = Some d"
    and "\<forall>x \<in> set (pd_records d). decoder x \<noteq> None" and "\<forall>x \<in> set (pd_records d). \<not> issue_pending e x"
  shows "let r = fold (trace_apply api decoder) (calls @ concat (replicate (length (pd_records d)) (replay_round e d)))
             \<lparr>tr_component = newTraceSourceWith nm i parent d system obs, tr_system = s, tr_accepted = []\<rparr> in
     tp_endOfTrace (ts_position (tr_component r)) \<and> map Some (tr_accepted r) = map decoder (pd_records d)"
proof -
  have ok: "records_ok limits (set (pm_addressSpaces (pd_metadata d))) (pd_records d)"
    using parsePtoTrace_result [of limits env input] assms(1) by (auto simp: document_ok_def)
  then have "distinct_sequences d"
    by (auto simp: records_ok_def distinct_sequences_def strict_sorted_iff)
  then have fresh: "trace_run_inv decoder d \<lparr>tr_component = newTraceSourceWith nm i parent d system obs, tr_system = s, tr_accepted = []\<rparr>"
    (is "trace_run_inv _ _ ?r0")
    by (intro trace_fresh_inv) (unfold trace_fresh_def trace_run.simps, blast)
  define r1 where "r1 = fold (trace_apply api decoder) calls ?r0"
  define r where "r = fold (trace_apply api decoder) (concat (replicate (length (pd_records d)) (replay_round e d))) r1"
  have inv1: "trace_run_inv decoder d r1" unfolding r1_def by (rule trace_run_inv_calls [OF fresh])
  then have inv: "trace_run_inv decoder d r" unfolding r_def by (rule trace_run_inv_calls)
  have "length (pd_records d) \<le> position r"
    using rounds_position [OF inv1 ok assms(2,3), of "length (pd_records d)" api] unfolding r_def by simp
  then have "tp_endOfTrace (ts_position (tr_component r)) \<and> map Some (tr_accepted r) = map decoder (pd_records d)"
    using inv run_inv_document [OF inv] unfolding trace_run_inv_def trace_inv_def trace_books_def trace_ledger_def Let_def
    by (elim conjE) simp
  then show ?thesis by (simp add: Let_def r_def r1_def)
qed

theorem loaded_trace_replays_to_end_witness:
  "tr_accepted (fold (trace_apply permissive_api (\<lambda>r. Some (pr_sequenceId r)))
     (TsWork epoch0 # replay_round epoch0 loaded_document)
     \<lparr>tr_component = newTraceSourceWith ''t'' 4 None loaded_document None None, tr_system = (), tr_accepted = []\<rparr>) = [3]"
proof -
  have one: "concat (replicate (length (pd_records loaded_document)) (replay_round epoch0 loaded_document)) = replay_round epoch0 loaded_document"
    by (simp add: loaded_document_def)
  have load: "lr_document (parsePtoTrace sample_trace_limits sample_env sample_text) = Some loaded_document" by (simp add: sample_load)
  have due: "\<forall>x \<in> set (pd_records loaded_document). \<not> issue_pending epoch0 x"
    by (simp add: loaded_document_def loaded_record_def sample_record_def issue_pending_def)
  have "\<forall>x \<in> set (pd_records loaded_document). Some (pr_sequenceId x) \<noteq> None" by simp
  from loaded_trace_replays_to_end [OF load this due, of permissive_api "[TsWork epoch0]" "''t''" 4 None None None "()"]
  have "map Some (tr_accepted (fold (trace_apply permissive_api (\<lambda>r. Some (pr_sequenceId r)))
     (TsWork epoch0 # replay_round epoch0 loaded_document)
     \<lparr>tr_component = newTraceSourceWith ''t'' 4 None loaded_document None None, tr_system = (), tr_accepted = []\<rparr>)) =
     map (\<lambda>r. Some (pr_sequenceId r)) (pd_records loaded_document)"
    unfolding Let_def one append_Cons append_Nil by blast
  moreover have "map (\<lambda>r. Some (pr_sequenceId r)) (pd_records loaded_document) = map Some [3]"
    by (simp add: loaded_document_def loaded_record_def sample_record_def)
  ultimately show ?thesis by (simp only: inj_map_eq_map [OF inj_Some])
qed

section \<open>Decoded operands\<close>

text \<open>
  C30: The operands of a loaded trace are well typed. The kind of an operand says which of its members
  are meaningful: an immediate has a type name and a scalar value, a buffer, tile or symbol a
  non-empty identifier, an address a declared space and a value, a record result the sequence ID of an
  earlier record and an index; all other members have their default values. Objects inside attribute
  values are maps with increasing keys.
\<close>

theorem loaded_operands_typed:
  assumes "lr_document (parsePtoTrace limits env input) = Some d" and "k < length (pd_records d)"
    and "op \<in> set (pr_operands (pd_records d ! k))"
  shows "(case po_kind op of
       Immediate \<Rightarrow> po_type op \<noteq> [] \<and> (\<exists>v. is_scalar v \<and> op = empty_operand\<lparr>po_type := po_type op, po_immediate := Some v\<rparr>)
     | Address \<Rightarrow> po_addressSpace op \<in> set (pm_addressSpaces (pd_metadata d)) \<and>
         op = empty_operand\<lparr>po_kind := Address, po_addressSpace := po_addressSpace op, po_address := po_address op\<rparr>
     | RecordResult \<Rightarrow> (\<exists>j < k. po_sequenceId op = pr_sequenceId (pd_records d ! j)) \<and>
         op = empty_operand\<lparr>po_kind := RecordResult, po_sequenceId := po_sequenceId op, po_resultIndex := po_resultIndex op\<rparr>
     | kind \<Rightarrow> po_id op \<noteq> [] \<and> op = empty_operand\<lparr>po_kind := kind, po_id := po_id op\<rparr>) \<and>
     (\<forall>m \<in> set (pr_attributes (pd_records d ! k)). value_ok (snd m))"
proof -
  have "records_ok limits (set (pm_addressSpaces (pd_metadata d))) (pd_records d)"
    using parsePtoTrace_result [of limits env input] assms(1) by (auto simp: document_ok_def)
  then have r: "record_ok limits (set (pm_addressSpaces (pd_metadata d))) (pr_sequenceId ` set (take k (pd_records d))) (pd_records d ! k)"
    using assms(2) by (simp add: records_ok_def)
  have earlier: "q \<in> pr_sequenceId ` set (take k (pd_records d)) \<Longrightarrow> \<exists>j < k. q = pr_sequenceId (pd_records d ! j)" for q
    using assms(2) by (fastforce simp: in_set_conv_nth)
  have op: "operand_typed op" "operand_refers (set (pm_addressSpaces (pd_metadata d))) (pr_sequenceId ` set (take k (pd_records d))) op"
    using r assms(3) by (auto simp: record_ok_def operand_ok_def)
  then have "case po_kind op of
       Immediate \<Rightarrow> po_type op \<noteq> [] \<and> (\<exists>v. is_scalar v \<and> op = empty_operand\<lparr>po_type := po_type op, po_immediate := Some v\<rparr>)
     | Address \<Rightarrow> po_addressSpace op \<in> set (pm_addressSpaces (pd_metadata d)) \<and>
         op = empty_operand\<lparr>po_kind := Address, po_addressSpace := po_addressSpace op, po_address := po_address op\<rparr>
     | RecordResult \<Rightarrow> (\<exists>j < k. po_sequenceId op = pr_sequenceId (pd_records d ! j)) \<and>
         op = empty_operand\<lparr>po_kind := RecordResult, po_sequenceId := po_sequenceId op, po_resultIndex := po_resultIndex op\<rparr>
     | kind \<Rightarrow> po_id op \<noteq> [] \<and> op = empty_operand\<lparr>po_kind := kind, po_id := po_id op\<rparr>"
    using earlier by (cases "po_kind op") (auto simp: operand_typed_def operand_refers_def empty_operand_def)
  then show ?thesis using r by (simp add: record_ok_def)
qed

theorem loaded_operands_typed_witness:
  "loaded_document \<in> {d. lr_document (parsePtoTrace sample_trace_limits sample_env sample_text) = Some d} \<and>
   (empty_operand\<lparr>po_kind := Buffer, po_id := ''b0''\<rparr> :: unit pto_operand) \<in> set (pr_operands (pd_records loaded_document ! 0)) \<and>
   po_id (empty_operand\<lparr>po_kind := Buffer, po_id := ''b0''\<rparr> :: unit pto_operand) \<noteq> []"
proof -
  have load: "lr_document (parsePtoTrace sample_trace_limits sample_env sample_text) = Some loaded_document" by (simp add: sample_load)
  have one: "0 < length (pd_records loaded_document)" by (simp add: loaded_document_def)
  have op: "(empty_operand\<lparr>po_kind := Buffer, po_id := ''b0''\<rparr> :: unit pto_operand) \<in> set (pr_operands (pd_records loaded_document ! 0))"
    by (simp add: loaded_document_def loaded_record_def)
  from loaded_operands_typed [OF load one op] load op show ?thesis by simp
qed

section \<open>Limits that differ\<close>



text \<open>
  An input above the byte limit is reported with different texts by a stream and by a whole parse,
  although both use the limit code.
\<close>

theorem oversize_message_differs:
  fixes env :: "('n, 'd) trace_env"
  assumes "tl_maxDocumentBytes limits < length input" and "0 < tl_maxDiagnostics limits"
  shows "map td_message (lr_diagnostics (parsePtoTrace limits env input)) = [''ACLOWER-BINDING-JSON: input byte limit exceeded''] \<and>
     map td_message (lr_diagnostics (fst (stream_finish env (append_all [input] (newTraceStream limits))))) = [''document byte limit exceeded'']"
proof -
  have "scanDocument lx (trace_json_limits limits n) input = jsonError ''input byte limit exceeded''" for lx n
    using assms(1) by (simp add: scanDocument_def trace_json_limits_def)
  then have "map td_message (lr_diagnostics (parsePtoTrace limits env input)) = [''ACLOWER-BINDING-JSON: input byte limit exceeded'']"
    using assms(2) by (simp add: parsePtoTrace_def parseIJson_def jsonError_def load_result_def trace_fail_def new_parser_def)
  then show ?thesis
    using assms(1) by (simp add: append_all_def stream_append_def newTraceStream_def stream_finish_def Let_def)
qed

end
