(* ===== verification/Packet.thy ===== *)
theory Packet
  imports Gfsim_Prelude
begin

text \<open>
  Packets of \<open>include/gfsim/packet.h\<close>: the compile-time layout check, typed access to the fields of
  a packet's byte array in either byte order, and the byte-wise conversions. An \<open>AtomicPacket\<close> is
  its byte array. A field of \<open>k\<close> bytes holds an unsigned number; its object representation, which
  \<open>memcpy\<close> copies, depends on the byte order of the host, the parameter \<open>host\<close>. The lemmas show that
  an accepted layout makes the fields independent cells, and that the bytes of a packet do not
  depend on the host.
\<close>

type_synonym byte = "8 word"

datatype endianness = Little | Big

record packet_field =
  pf_name :: string
  pf_offset :: nat
  pf_size :: nat

record packet_traits =
  pt_isPacket :: bool
  pt_schema :: string
  pt_serializedSize :: nat
  pt_maximumSerializedSize :: nat
  pt_alignment :: nat
  pt_endianness :: endianness
  pt_fields :: "packet_field list"
  pt_routingField :: "string option"
  pt_correlationField :: "string option"

section \<open>The layout check\<close>

fun fields_fit :: "nat \<Rightarrow> nat \<Rightarrow> packet_field list \<Rightarrow> bool" where
  "fields_fit limit previousEnd [] = True"
| "fields_fit limit previousEnd (field # fs) =
     (if pf_name field = [] \<or> pf_size field = 0 \<or> pf_offset field < previousEnd \<or>
         pf_offset field > limit \<or> pf_size field > limit - pf_offset field
      then False
      else fields_fit limit (pf_offset field + pf_size field) fs)"

definition hasField :: "packet_traits \<Rightarrow> string \<Rightarrow> bool" where
  "hasField t nm = list_ex (\<lambda>field. pf_name field = nm) (pt_fields t)"

definition hasValidPacketLayout :: "packet_traits \<Rightarrow> bool" where
  "hasValidPacketLayout t =
     (if \<not> pt_isPacket t \<or> pt_schema t = [] \<or> pt_serializedSize t = 0 \<or>
         pt_maximumSerializedSize t < pt_serializedSize t \<or> pt_alignment t = 0
      then False
      else if \<not> fields_fit (pt_serializedSize t) 0 (pt_fields t) then False
      else if (case pt_routingField t of None \<Rightarrow> False | Some nm \<Rightarrow> \<not> hasField t nm) \<or>
              (case pt_correlationField t of None \<Rightarrow> False | Some nm \<Rightarrow> \<not> hasField t nm)
      then False else True)"

section \<open>Object representations\<close>

text \<open>The \<open>k\<close> bytes of a number, least significant first, and back.\<close>

fun number_bytes :: "nat \<Rightarrow> nat \<Rightarrow> byte list" where
  "number_bytes 0 v = []"
| "number_bytes (Suc k) v = of_nat v # number_bytes k (v div 256)"

fun bytes_number :: "byte list \<Rightarrow> nat" where
  "bytes_number [] = 0"
| "bytes_number (b # bs) = unat b + 256 * bytes_number bs"

definition representation :: "endianness \<Rightarrow> nat \<Rightarrow> nat \<Rightarrow> byte list" where
  "representation host k v = (case host of Little \<Rightarrow> number_bytes k v | Big \<Rightarrow> rev (number_bytes k v))"

definition represented :: "endianness \<Rightarrow> byte list \<Rightarrow> nat" where
  "represented host bs = (case host of Little \<Rightarrow> bytes_number bs | Big \<Rightarrow> bytes_number (rev bs))"

section \<open>Field access\<close>

definition packetFieldGet :: "endianness \<Rightarrow> nat \<Rightarrow> nat \<Rightarrow> bool \<Rightarrow> byte list \<Rightarrow> nat" where
  "packetFieldGet host k offset bigEndian packet =
     (let bytes = take k (drop offset packet);
          bytes' = (if (bigEndian \<and> host = Little) \<or> (\<not> bigEndian \<and> host = Big) then rev bytes else bytes)
      in represented host bytes')"

definition packetFieldSet :: "endianness \<Rightarrow> nat \<Rightarrow> nat \<Rightarrow> bool \<Rightarrow> nat \<Rightarrow> byte list \<Rightarrow> byte list" where
  "packetFieldSet host k offset bigEndian v packet =
     (let bytes = representation host k v;
          bytes' = (if (bigEndian \<and> host = Little) \<or> (\<not> bigEndian \<and> host = Big) then rev bytes else bytes)
      in take offset packet @ bytes' @ drop (offset + length bytes') packet)"

definition packetFieldWith :: "endianness \<Rightarrow> nat \<Rightarrow> nat \<Rightarrow> bool \<Rightarrow> nat \<Rightarrow> byte list \<Rightarrow> byte list" where
  "packetFieldWith host k offset bigEndian v packet = packetFieldSet host k offset bigEndian v packet"

text \<open>\<open>std::to_integer<int8_t>\<close> and the cast back keep the bits of a byte; the array is a list.\<close>

definition packetSerializeBytes :: "byte list \<Rightarrow> int list" where
  "packetSerializeBytes packet = map sint packet"

definition packetDeserializeBytes :: "int list \<Rightarrow> byte list" where
  "packetDeserializeBytes bytes = map of_int bytes"

text \<open>\<open>deserialize\<close> is the member that a public packet type provides.\<close>

definition deserializePacket ::
  "packet_traits \<Rightarrow> (byte list \<Rightarrow> 'p option) \<Rightarrow> byte list \<Rightarrow> 'p option" where
  "deserializePacket t deserialize bytes =
     (if length bytes \<noteq> pt_serializedSize t then None else deserialize bytes)"

section \<open>Lemmas\<close>

lemma length_number_bytes [simp]: "length (number_bytes k v) = k"
  by (induction k arbitrary: v) simp_all

lemma bytes_number_bytes: "v < 256 ^ k \<Longrightarrow> bytes_number (number_bytes k v) = v"
proof (induction k arbitrary: v)
  case (Suc k)
  then have "v div 256 < 256 ^ k" by (simp add: less_mult_imp_div_less mult.commute)
  with Suc.IH have "bytes_number (number_bytes k (v div 256)) = v div 256" .
  then show ?case by (simp add: unat_of_nat)
qed simp

lemma number_bytes_number: "number_bytes (length bs) (bytes_number bs) = bs"
proof (induction bs)
  case (Cons b bs)
  have b: "unat b < 256" using unsigned_less [of b] by simp
  then have "(unat b + 256 * bytes_number bs) div 256 = bytes_number bs" by simp
  moreover have "(of_nat (unat b + 256 * bytes_number bs) :: byte) = b"
  proof -
    have zero: "(256 :: byte) = 0" by simp
    have "(of_nat (256 * bytes_number bs) :: byte) = 0"
      by (simp only: of_nat_mult of_nat_numeral zero mult_zero_left)
    then show ?thesis by (simp del: of_nat_mult)
  qed
  ultimately show ?case using Cons by simp
qed simp

text \<open>The bytes of a field on the wire: most significant first exactly for a big-endian field.\<close>

definition wire_bytes :: "nat \<Rightarrow> bool \<Rightarrow> nat \<Rightarrow> byte list" where
  "wire_bytes k bigEndian v = (if bigEndian then rev (number_bytes k v) else number_bytes k v)"

lemma length_wire_bytes [simp]: "length (wire_bytes k bigEndian v) = k"
  by (simp add: wire_bytes_def)

lemma packetFieldSet_wire:
  "packetFieldSet host k offset bigEndian v packet =
     take offset packet @ wire_bytes k bigEndian v @ drop (offset + k) packet"
  by (cases host) (simp_all add: packetFieldSet_def representation_def wire_bytes_def Let_def)

lemma packetFieldGet_wire:
  "packetFieldGet host k offset bigEndian packet =
     bytes_number (if bigEndian then rev (take k (drop offset packet)) else take k (drop offset packet))"
  by (cases host) (simp_all add: packetFieldGet_def represented_def Let_def)

lemma packetFieldSet_length: "offset + k \<le> length packet \<Longrightarrow>
    length (packetFieldSet host k offset bigEndian v packet) = length packet"
  by (simp add: packetFieldSet_wire)

lemma field_get_set:
  assumes "offset + k \<le> length packet" and "v < 256 ^ k"
  shows "packetFieldGet host' k offset bigEndian (packetFieldSet host k offset bigEndian v packet) = v"
  using assms by (simp add: packetFieldGet_wire packetFieldSet_wire wire_bytes_def bytes_number_bytes)

lemma field_set_get:
  assumes "offset + k \<le> length packet"
  shows "packetFieldSet host k offset bigEndian (packetFieldGet host' k offset bigEndian packet) packet = packet"
proof -
  let ?bs = "take k (drop offset packet)"
  have "length ?bs = k" using assms by simp
  then have "wire_bytes k bigEndian (packetFieldGet host' k offset bigEndian packet) = ?bs"
    using number_bytes_number [of ?bs] number_bytes_number [of "rev ?bs"]
    by (simp add: wire_bytes_def packetFieldGet_wire)
  then show ?thesis
    by (simp add: packetFieldSet_wire) (metis append_take_drop_id drop_drop add.commute)
qed

lemma take_drop_other:
  assumes "offset + k \<le> length packet" and "o2 + k2 \<le> length packet"
    and "o2 + k2 \<le> offset \<or> offset + k \<le> o2" and "length bs = k"
  shows "take k2 (drop o2 (take offset packet @ bs @ drop (offset + k) packet)) = take k2 (drop o2 packet)"
proof (rule nth_equalityI)
  fix i assume "i < length (take k2 (drop o2 (take offset packet @ bs @ drop (offset + k) packet)))"
  then show "take k2 (drop o2 (take offset packet @ bs @ drop (offset + k) packet)) ! i = take k2 (drop o2 packet) ! i"
    using assms by (auto simp: nth_append)
qed (use assms in auto)

lemma field_get_other:
  assumes "offset + k \<le> length packet" and "o2 + k2 \<le> length packet"
    and "o2 + k2 \<le> offset \<or> offset + k \<le> o2"
  shows "packetFieldGet host' k2 o2 be2 (packetFieldSet host k offset be v packet) =
    packetFieldGet host' k2 o2 be2 packet"
  unfolding packetFieldGet_wire packetFieldSet_wire take_drop_other [OF assms length_wire_bytes] by (rule refl)

lemma fields_fit_range:
  assumes "fields_fit limit e fs" and "field \<in> set fs"
  shows "e \<le> pf_offset field \<and> pf_offset field + pf_size field \<le> limit \<and> pf_size field > 0 \<and> pf_name field \<noteq> []"
  using assms
proof (induction fs arbitrary: e)
  case (Cons f fs)
  then show ?case by (fastforce split: if_splits)
qed simp

lemma fields_fit_apart:
  "fields_fit limit e fs \<Longrightarrow> i < j \<Longrightarrow> j < length fs \<Longrightarrow>
   pf_offset (fs ! i) + pf_size (fs ! i) \<le> pf_offset (fs ! j)"
proof (induction fs arbitrary: e i j)
  case (Cons f fs)
  then have fit: "fields_fit limit (pf_offset f + pf_size f) fs" by (simp split: if_splits)
  obtain j' where j: "j = Suc j'" using Cons.prems(2) by (cases j) auto
  show ?case
  proof (cases i)
    case 0
    with fields_fit_range [OF fit, of "fs ! j'"] Cons.prems(3) j show ?thesis by simp
  next
    case (Suc i')
    with Cons.IH [OF fit, of i' j'] Cons.prems(2,3) j show ?thesis by simp
  qed
qed simp

text \<open>What the layout check accepts: nonempty named fields, inside the packet and apart.\<close>

lemma layout_fields:
  assumes "hasValidPacketLayout t"
  shows "fields_fit (pt_serializedSize t) 0 (pt_fields t)"
  using assms by (simp add: hasValidPacketLayout_def split: if_splits)

lemma layout_apart:
  assumes "hasValidPacketLayout t" and "i < length (pt_fields t)" and "j < length (pt_fields t)" and "i \<noteq> j"
  shows "pf_offset (pt_fields t ! j) + pf_size (pt_fields t ! j) \<le> pf_offset (pt_fields t ! i) \<or>
    pf_offset (pt_fields t ! i) + pf_size (pt_fields t ! i) \<le> pf_offset (pt_fields t ! j)"
  using fields_fit_apart [OF layout_fields [OF assms(1)], of i j]
    fields_fit_apart [OF layout_fields [OF assms(1)], of j i] assms(2-4)
  by (cases "i < j") auto

section \<open>Properties\<close>

text \<open>
  C35: The fields of a packet type with an accepted layout are independent cells. Writing a value that
  fits a field and reading the field gives the value back, in either byte order and whatever hosts
  write and read; every other field reads as before, the packet keeps its size, and writing back
  what was read changes nothing.
\<close>

theorem packet_fields_are_cells:
  assumes "hasValidPacketLayout t" and "length packet = pt_serializedSize t"
    and "i < length (pt_fields t)" and "v < 256 ^ pf_size (pt_fields t ! i)"
  defines "k \<equiv> pf_size (pt_fields t ! i)" and "f \<equiv> pf_offset (pt_fields t ! i)"
  shows "packetFieldGet reader k f be (packetFieldWith writer k f be v packet) = v \<and>
    length (packetFieldWith writer k f be v packet) = pt_serializedSize t \<and>
    packetFieldWith writer k f be (packetFieldGet reader k f be packet) packet = packet \<and>
    (\<forall>j < length (pt_fields t). j \<noteq> i \<longrightarrow>
       packetFieldGet reader (pf_size (pt_fields t ! j)) (pf_offset (pt_fields t ! j)) be2
         (packetFieldWith writer k f be v packet) =
       packetFieldGet reader (pf_size (pt_fields t ! j)) (pf_offset (pt_fields t ! j)) be2 packet)"
proof -
  have range: "pf_offset (pt_fields t ! j) + pf_size (pt_fields t ! j) \<le> length packet" if "j < length (pt_fields t)" for j
    using fields_fit_range [OF layout_fields [OF assms(1)], of "pt_fields t ! j"] that assms(2) by simp
  have fits: "f + k \<le> length packet" using range [OF assms(3)] by (simp add: k_def f_def)
  show ?thesis
    unfolding packetFieldWith_def
    using field_get_set [OF fits] field_set_get [OF fits] packetFieldSet_length [OF fits] assms(2,4)
      field_get_other [OF fits range] layout_apart [OF assms(1) assms(3)]
    by (simp add: k_def f_def)
qed

definition sample_traits :: packet_traits where
  "sample_traits = \<lparr>pt_isPacket = True, pt_schema = ''p'', pt_serializedSize = 6, pt_maximumSerializedSize = 6,
     pt_alignment = 1, pt_endianness = Big,
     pt_fields = [\<lparr>pf_name = ''a'', pf_offset = 0, pf_size = 2\<rparr>, \<lparr>pf_name = ''b'', pf_offset = 2, pf_size = 4\<rparr>],
     pt_routingField = Some ''a'', pt_correlationField = None\<rparr>"

theorem packet_fields_are_cells_witness:
  "hasValidPacketLayout sample_traits \<and>
   packetFieldGet Big 2 0 True (packetFieldWith Little 2 0 True 513 [1, 2, 3, 4, 5, 6]) = 513 \<and>
   packetFieldGet Big 4 2 True (packetFieldWith Little 2 0 True 513 [1, 2, 3, 4, 5, 6]) =
     packetFieldGet Big 4 2 True [1, 2, 3, 4, 5, 6]"
proof -
  have v: "hasValidPacketLayout sample_traits"
    by (simp add: hasValidPacketLayout_def sample_traits_def hasField_def)
  have fs: "pt_fields sample_traits ! 0 = \<lparr>pf_name = ''a'', pf_offset = 0, pf_size = 2\<rparr>"
    "pt_fields sample_traits ! Suc 0 = \<lparr>pf_name = ''b'', pf_offset = 2, pf_size = 4\<rparr>"
    "length (pt_fields sample_traits) = 2" "pt_serializedSize sample_traits = 6"
    by (simp_all add: sample_traits_def)
  have pre: "length [1, 2, 3, 4, 5, 6 :: byte] = pt_serializedSize sample_traits"
    "0 < length (pt_fields sample_traits)" "(513 :: nat) < 256 ^ pf_size (pt_fields sample_traits ! 0)"
    by (simp_all add: fs)
  from packet_fields_are_cells [OF v pre, of Big True Little True] v
  show ?thesis by (auto simp: fs dest!: spec [of _ 1])
qed

text \<open>
  The bytes of a packet do not depend on the host: hosts of both byte orders write the same
  bytes and read the same value, a little-endian field with its least significant byte first and a
  big-endian one with its most significant byte first. The signed byte array conversion is undone
  exactly by its inverse, and \<open>deserializePacket\<close> accepts only arrays of the serialized size.
\<close>

theorem packet_wire_portable:
  "packetFieldSet Little k offset be v packet = packetFieldSet Big k offset be v packet \<and>
   packetFieldGet Little k offset be packet = packetFieldGet Big k offset be packet \<and>
   packetFieldSet host k offset False v packet = take offset packet @ number_bytes k v @ drop (offset + k) packet \<and>
   packetFieldSet host k offset True v packet = take offset packet @ rev (number_bytes k v) @ drop (offset + k) packet \<and>
   packetDeserializeBytes (packetSerializeBytes packet) = packet \<and>
   (deserializePacket t deserialize packet =
      (if length packet = pt_serializedSize t then deserialize packet else None))"
  by (simp add: packetFieldSet_wire packetFieldGet_wire wire_bytes_def packetDeserializeBytes_def
      packetSerializeBytes_def deserializePacket_def comp_def)

end
