(* ===== verification/Npu_Decoder.thy ===== *)
theory Npu_Decoder
  imports Trace_Parser
begin

text \<open>
  The decoder of the NPU reference model (\<open>NpuDecoder\<close> of \<open>lib/gfsim/npu.cpp\<close>): a trace record with
  imported DavinciOO attributes becomes a typed instruction, or is rejected with a coded diagnostic.
  A \<open>double\<close> inside a \<open>PtoValue\<close> keeps its carrier \<open>'d\<close>; the comparison \<open>==\<close> of two doubles is the
  argument \<open>deq\<close>, because it is not the identity of values (it identifies the two zeros, and a NaN
  differs from itself).

  The lemmas show that the opcode tables partition the 146 opcodes, and that the decoder accepts
  exactly the records that describe an ordered list of typed operands, yielding their instruction.
\<close>

section \<open>Instructions\<close>

datatype npu_engine = Scalar | Vector | Cube | Tma

record npu_timestamps =
  nt_decoded :: "u64 option"
  nt_dispatched :: "u64 option"
  nt_issued :: "u64 option"
  nt_completed :: "u64 option"
  nt_retired :: "u64 option"

definition no_timestamps :: npu_timestamps where
  "no_timestamps = \<lparr>nt_decoded = None, nt_dispatched = None, nt_issued = None,
     nt_completed = None, nt_retired = None\<rparr>"

record 'd npu_scalar =
  ns_type :: string
  ns_value :: "'d pto_value"

record 'd npu_tile =
  nd_identity :: string
  nd_address :: string
  nd_type :: string
  nd_layout :: string
  nd_shape :: "'d pto_value list"

record 'd npu_instruction =
  ni_sequenceId :: u64
  ni_blockId :: u64
  ni_opcode :: string
  ni_dependencies :: "u64 list"
  ni_operands :: "'d pto_operand list"
  ni_inputTiles :: "string list"
  ni_outputTiles :: "string list"
  ni_inputTileDescriptors :: "'d npu_tile list"
  ni_outputTileDescriptors :: "'d npu_tile list"
  ni_scalarInputs :: "'d npu_scalar list"
  ni_engine :: npu_engine
  ni_timestamps :: npu_timestamps

type_synonym npu_diagnostic = "string \<times> string"

record 'd npu_decode_result =
  dr_instruction :: "'d npu_instruction option"
  dr_diagnostics :: "npu_diagnostic list"
  dr_observations :: "event_proposal list"

definition decode_succeeded :: "'d npu_decode_result \<Rightarrow> bool" where
  "decode_succeeded r \<longleftrightarrow> dr_instruction r \<noteq> None \<and> dr_diagnostics r = []"

definition primaryDiagnostic :: "'d npu_decode_result \<Rightarrow> string" where
  "primaryDiagnostic r = (case dr_diagnostics r of [] \<Rightarrow> [] | d # _ \<Rightarrow> fst d)"

fun engine_name :: "npu_engine \<Rightarrow> string" where
  "engine_name Scalar = ''scalar''"
| "engine_name Vector = ''vector''"
| "engine_name Cube = ''cube''"
| "engine_name Tma = ''tma''"

section \<open>Opcode classes\<close>

definition kTmaOpcodes :: "string list" where
  "kTmaOpcodes =
     [''TLOAD'', ''TSTORE'', ''TSTORE_FP'', ''MGATHER'', ''MSCATTER'', ''TPUT'', ''TGET'',
      ''TPUT_ASYNC'', ''TGET_ASYNC'', ''TBROADCAST'', ''TREDUCE'', ''TPREFETCH'', ''TIMG2COL'']"

definition kScalarOpcodes :: "string list" where
  "kScalarOpcodes =
     [''RECORD_EVENT'', ''WAIT_EVENT'', ''BARRIER'', ''TSYNC'', ''TALLOC'', ''TFREE'', ''TPUSH'',
      ''TPOP'', ''TNOTIFY'', ''TWAIT'', ''TTEST'', ''TRESHAPE'', ''TASSIGN'', ''TCI'',
      ''TPRINT'', ''SETFMATRIX'', ''SET_IMG2COL_RPT'', ''SET_IMG2COL_PADDING'',
      ''TGET_SCALE_ADDR'']"

definition kCubeOpcodes :: "string list" where
  "kCubeOpcodes =
     [''TMATMUL'', ''TMATMUL_MX'', ''TMATMUL_ACC'', ''TMATMUL_BIAS'', ''TMATMUL_MX_ACC'',
      ''TMATMUL_MX_BIAS'', ''TGEMV'', ''TGEMV_ACC'', ''TGEMV_BIAS'', ''TGEMV_MX'']"

definition kVectorOpcodes :: "string list" where
  "kVectorOpcodes =
     [''TADD'', ''TSUB'', ''TMUL'', ''TDIV'', ''TREM'', ''TAND'', ''TOR'', ''TXOR'', ''TSHL'',
      ''TSHR'', ''TMAX'', ''TMIN'', ''TPRELU'', ''TCMP'', ''TABS'', ''TEXP'', ''TLOG'',
      ''TSQRT'', ''TRSQRT'', ''TRECIP'', ''TNEG'', ''TNOT'', ''TRELU'', ''TCVT'', ''TADDC'',
      ''TSUBC'', ''TSEL'', ''TADDS'', ''TSUBS'', ''TMULS'', ''TDIVS'', ''TREMS'', ''TANDS'',
      ''TORS'', ''TXORS'', ''TSHLS'', ''TSHRS'', ''TMAXS'', ''TMINS'', ''TLRELU'', ''TAXPY'',
      ''TCMPS'', ''TADDSC'', ''TSUBSC'', ''TSELS'', ''TEXPANDS'', ''TROWSUM'', ''TROWPROD'',
      ''TROWMAX'', ''TROWMIN'', ''TROWARGMAX'', ''TROWARGMIN'', ''TROWEXPAND'', ''TCOLSUM'',
      ''TCOLPROD'', ''TCOLMAX'', ''TCOLMIN'', ''TCOLARGMAX'', ''TCOLARGMIN'', ''TCOLEXPAND'',
      ''TROWEXPANDDIV'', ''TROWEXPANDMUL'', ''TROWEXPANDSUB'', ''TROWEXPANDADD'',
      ''TROWEXPANDMAX'', ''TROWEXPANDMIN'', ''TROWEXPANDEXPDIF'', ''TCOLEXPANDDIV'',
      ''TCOLEXPANDMUL'', ''TCOLEXPANDSUB'', ''TCOLEXPANDADD'', ''TCOLEXPANDMAX'',
      ''TCOLEXPANDMIN'', ''TCOLEXPANDEXPDIF'', ''TFILLPAD'', ''TFILLPAD_INPLACE'',
      ''TFILLPAD_EXPAND'', ''TMOV'', ''TMOV_FP'', ''TTRANS'', ''TEXTRACT'', ''TEXTRACT_FP'',
      ''TTRI'', ''TGATHER'', ''TGATHERB'', ''TSCATTER'', ''TSORT32'', ''TMRGSORT'', ''TPARTADD'',
      ''TPARTMUL'', ''TPARTMAX'', ''TPARTMIN'', ''TPARTARGMAX'', ''TPARTARGMIN'', ''TRANDOM'',
      ''TCONCAT'', ''TDEQUANT'', ''TINSERT'', ''TINSERT_FP'', ''TFMOD'', ''TFMODS'',
      ''THISTOGRAM'', ''TQUANT'', ''TSUBVIEW'']"

definition classify :: "string \<Rightarrow> npu_engine option" where
  "classify opcode =
     (if opcode \<in> set kScalarOpcodes then Some Scalar
      else if opcode \<in> set kVectorOpcodes then Some Vector
      else if opcode \<in> set kCubeOpcodes then Some Cube
      else if opcode \<in> set kTmaOpcodes then Some Tma
      else None)"

section \<open>Comparison of values\<close>

text \<open>The defaulted \<open>operator==\<close> of \<open>PtoValue\<close>, of operands and of instructions.\<close>

fun pto_equal :: "('d \<Rightarrow> 'd \<Rightarrow> bool) \<Rightarrow> 'd pto_value \<Rightarrow> 'd pto_value \<Rightarrow> bool"
  and pto_equal_array :: "('d \<Rightarrow> 'd \<Rightarrow> bool) \<Rightarrow> 'd pto_value list \<Rightarrow> 'd pto_value list \<Rightarrow> bool"
  and pto_equal_object ::
    "('d \<Rightarrow> 'd \<Rightarrow> bool) \<Rightarrow> (string \<times> 'd pto_value) list \<Rightarrow> (string \<times> 'd pto_value) list \<Rightarrow> bool" where
  "pto_equal deq PNull w = (w = PNull)"
| "pto_equal deq (PBool b) w = (w = PBool b)"
| "pto_equal deq (PInt i) w = (w = PInt i)"
| "pto_equal deq (PUInt i) w = (w = PUInt i)"
| "pto_equal deq (PDouble d) w = (case w of PDouble e \<Rightarrow> deq d e | _ \<Rightarrow> False)"
| "pto_equal deq (PString s) w = (w = PString s)"
| "pto_equal deq (PArray vs) w = (case w of PArray ws \<Rightarrow> pto_equal_array deq vs ws | _ \<Rightarrow> False)"
| "pto_equal deq (PObject ms) w = (case w of PObject ns \<Rightarrow> pto_equal_object deq ms ns | _ \<Rightarrow> False)"
| "pto_equal_array deq [] ws = (ws = [])"
| "pto_equal_array deq (v # vs) ws =
     (case ws of [] \<Rightarrow> False | w # ws' \<Rightarrow> pto_equal deq v w \<and> pto_equal_array deq vs ws')"
| "pto_equal_object deq [] ns = (ns = [])"
| "pto_equal_object deq ((k, v) # ms) ns =
     (case ns of [] \<Rightarrow> False | (l, w) # ns' \<Rightarrow> k = l \<and> pto_equal deq v w \<and> pto_equal_object deq ms ns')"

definition operand_equal :: "('d \<Rightarrow> 'd \<Rightarrow> bool) \<Rightarrow> 'd pto_operand \<Rightarrow> 'd pto_operand \<Rightarrow> bool" where
  "operand_equal deq x y \<longleftrightarrow> po_kind x = po_kind y \<and> po_type x = po_type y \<and>
     rel_option (pto_equal deq) (po_immediate x) (po_immediate y) \<and> po_id x = po_id y \<and>
     po_addressSpace x = po_addressSpace y \<and> po_address x = po_address y \<and>
     po_sequenceId x = po_sequenceId y \<and> po_resultIndex x = po_resultIndex y"

definition tile_equal :: "('d \<Rightarrow> 'd \<Rightarrow> bool) \<Rightarrow> 'd npu_tile \<Rightarrow> 'd npu_tile \<Rightarrow> bool" where
  "tile_equal deq x y \<longleftrightarrow> nd_identity x = nd_identity y \<and> nd_address x = nd_address y \<and>
     nd_type x = nd_type y \<and> nd_layout x = nd_layout y \<and> pto_equal_array deq (nd_shape x) (nd_shape y)"

definition scalar_equal :: "('d \<Rightarrow> 'd \<Rightarrow> bool) \<Rightarrow> 'd npu_scalar \<Rightarrow> 'd npu_scalar \<Rightarrow> bool" where
  "scalar_equal deq x y \<longleftrightarrow> ns_type x = ns_type y \<and> pto_equal deq (ns_value x) (ns_value y)"

definition instruction_equal ::
  "('d \<Rightarrow> 'd \<Rightarrow> bool) \<Rightarrow> 'd npu_instruction \<Rightarrow> 'd npu_instruction \<Rightarrow> bool" where
  "instruction_equal deq x y \<longleftrightarrow> ni_sequenceId x = ni_sequenceId y \<and> ni_blockId x = ni_blockId y \<and>
     ni_opcode x = ni_opcode y \<and> ni_dependencies x = ni_dependencies y \<and>
     list_all2 (operand_equal deq) (ni_operands x) (ni_operands y) \<and>
     ni_inputTiles x = ni_inputTiles y \<and> ni_outputTiles x = ni_outputTiles y \<and>
     list_all2 (tile_equal deq) (ni_inputTileDescriptors x) (ni_inputTileDescriptors y) \<and>
     list_all2 (tile_equal deq) (ni_outputTileDescriptors x) (ni_outputTileDescriptors y) \<and>
     list_all2 (scalar_equal deq) (ni_scalarInputs x) (ni_scalarInputs y) \<and>
     ni_engine x = ni_engine y \<and> ni_timestamps x = ni_timestamps y"

section \<open>Decoding\<close>

definition reject :: "string \<Rightarrow> string \<Rightarrow> 'd npu_decode_result" where
  "reject code message = \<lparr>dr_instruction = None, dr_diagnostics = [(code, message)], dr_observations = []\<rparr>"

fun unsignedInteger :: "'d pto_value \<Rightarrow> u64 option" where
  "unsignedInteger (PUInt n) = Some n"
| "unsignedInteger (PInt n) = (if 0 \<le> sint n then Some n else None)"
| "unsignedInteger _ = None"

definition hasExactKeys :: "(string \<times> 'd pto_value) list \<Rightarrow> string list \<Rightarrow> bool" where
  "hasExactKeys ob keys \<longleftrightarrow> length ob = length keys \<and> list_all (\<lambda>k. map_of ob k \<noteq> None) keys"

text \<open>\<open>get<T>\<close> of the alternatives the decoder asks for.\<close>

fun get_string :: "'d pto_value \<Rightarrow> string option" where
  "get_string (PString s) = Some s"
| "get_string _ = None"

fun get_array :: "'d pto_value \<Rightarrow> 'd pto_value list option" where
  "get_array (PArray vs) = Some vs"
| "get_array _ = None"

fun get_object :: "'d pto_value \<Rightarrow> (string \<times> 'd pto_value) list option" where
  "get_object (PObject ms) = Some ms"
| "get_object _ = None"

fun isScalarValue :: "'d pto_value \<Rightarrow> bool" where
  "isScalarValue PNull = False"
| "isScalarValue (PArray _) = False"
| "isScalarValue (PObject _) = False"
| "isScalarValue _ = True"

fun is_integer :: "'d pto_value \<Rightarrow> bool" where
  "is_integer (PInt _) = True"
| "is_integer (PUInt _) = True"
| "is_integer _ = False"

record 'd tile_attribute =
  ta_address :: string
  ta_type :: string
  ta_layout :: string
  ta_shape :: "'d pto_value list"

definition parseTile :: "'d pto_value \<Rightarrow> 'd tile_attribute option" where
  "parseTile v =
     (case get_object v of
        None \<Rightarrow> None
      | Some ob \<Rightarrow>
          if \<not> hasExactKeys ob [''address'', ''dtype'', ''layout'', ''shape''] then None
          else case (map_of ob ''address'', map_of ob ''dtype'', map_of ob ''layout'', map_of ob ''shape'') of
            (Some address, Some dtype, Some layout, Some shape) \<Rightarrow>
              (case (get_string address, get_string dtype, get_string layout, get_array shape) of
                 (Some addressText, Some dtypeText, Some layoutText, Some dimensions) \<Rightarrow>
                   if addressText = [] \<or> dtypeText = [] \<or> layoutText = [] then None
                   else if \<not> list_all is_integer dimensions then None
                   else Some \<lparr>ta_address = addressText, ta_type = dtypeText, ta_layout = layoutText,
                              ta_shape = dimensions\<rparr>
               | _ \<Rightarrow> None)
          | _ \<Rightarrow> None)"

definition parseScalar :: "'d pto_value \<Rightarrow> (string \<times> 'd pto_value) option" where
  "parseScalar v =
     (case get_object v of
        None \<Rightarrow> None
      | Some ob \<Rightarrow>
          if \<not> hasExactKeys ob [''dtype'', ''value''] then None
          else case (map_of ob ''dtype'', map_of ob ''value'') of
            (Some dtype, Some scalarValue) \<Rightarrow>
              (case get_string dtype of
                 None \<Rightarrow> None
               | Some ty \<Rightarrow> if ty = [] \<or> \<not> isScalarValue scalarValue then None else Some (ty, scalarValue))
          | _ \<Rightarrow> None)"

definition tileIdentity :: "u64 \<Rightarrow> string \<Rightarrow> string" where
  "tileIdentity blockId address = ''block/'' @ decimal (unat blockId) @ ''/tile/'' @ address"

definition npu_observation :: "string \<Rightarrow> 'd npu_instruction \<Rightarrow> event_proposal" where
  "npu_observation nm i = (observation ''instruction'' nm Instant)
     \<lparr>op_rootSequenceId := Some (ni_sequenceId i),
      op_arguments := [(''block_id'', OUInt (ni_blockId i)), (''engine'', OString (engine_name (ni_engine i))),
        (''opcode'', OString (ni_opcode i))]\<rparr>"

text \<open>The three cursors of the operand loop, and the instruction it fills.\<close>

record 'd decode_cursor =
  dc_inputIndex :: nat
  dc_outputIndex :: nat
  dc_scalarIndex :: nat
  dc_instruction :: "'d npu_instruction"

definition tile_descriptor :: "u64 \<Rightarrow> 'd tile_attribute \<Rightarrow> 'd npu_tile" where
  "tile_descriptor blockId t = \<lparr>nd_identity = tileIdentity blockId (ta_address t),
     nd_address = ta_address t, nd_type = ta_type t, nd_layout = ta_layout t, nd_shape = ta_shape t\<rparr>"

definition push_tile :: "bool \<Rightarrow> u64 \<Rightarrow> 'd tile_attribute \<Rightarrow> 'd decode_cursor \<Rightarrow> 'd decode_cursor" where
  "push_tile input blockId t c =
     (let i = dc_instruction c; identity = tileIdentity blockId (ta_address t);
          d = tile_descriptor blockId t
      in if input
         then c\<lparr>dc_inputIndex := dc_inputIndex c + 1,
                dc_instruction := i\<lparr>ni_inputTiles := ni_inputTiles i @ [identity],
                  ni_inputTileDescriptors := ni_inputTileDescriptors i @ [d]\<rparr>\<rparr>
         else c\<lparr>dc_outputIndex := dc_outputIndex c + 1,
                dc_instruction := i\<lparr>ni_outputTiles := ni_outputTiles i @ [identity],
                  ni_outputTileDescriptors := ni_outputTileDescriptors i @ [d]\<rparr>\<rparr>)"

definition push_scalar :: "string \<Rightarrow> 'd pto_value \<Rightarrow> 'd decode_cursor \<Rightarrow> 'd decode_cursor" where
  "push_scalar ty v c =
     (let i = dc_instruction c in
      c\<lparr>dc_scalarIndex := dc_scalarIndex c + 1,
        dc_instruction := i\<lparr>ni_scalarInputs := ni_scalarInputs i @ [\<lparr>ns_type = ty, ns_value = v\<rparr>]\<rparr>\<rparr>)"

text \<open>One operand with its role; the three arrays are the imported attributes.\<close>

definition decode_operand ::
  "('d \<Rightarrow> 'd \<Rightarrow> bool) \<Rightarrow> u64 \<Rightarrow> 'd pto_value list \<Rightarrow> 'd pto_value list \<Rightarrow> 'd pto_value list
   \<Rightarrow> 'd pto_value \<Rightarrow> 'd pto_operand \<Rightarrow> 'd decode_cursor \<Rightarrow> npu_diagnostic + 'd decode_cursor" where
  "decode_operand deq blockId inputs outputs scalars roleValue operand c =
     (case get_string roleValue of
        None \<Rightarrow> Inl (''npu_operand_role_mismatch'', ''every operand role must be a string'')
      | Some role \<Rightarrow>
          if role = ''input_tile'' \<or> role = ''output_tile''
          then let input = (role = ''input_tile'');
                   tiles = (if input then inputs else outputs);
                   tileIndex = (if input then dc_inputIndex c else dc_outputIndex c)
            in if tileIndex \<ge> length tiles
               then Inl (''npu_operand_role_mismatch'', ''tile role count does not match imported tile arrays'')
               else case parseTile (tiles ! tileIndex) of
                 None \<Rightarrow> Inl (''npu_invalid_davincioo_attributes'', ''tile attributes are malformed'')
               | Some t \<Rightarrow>
                   if po_kind operand \<noteq> Tile \<or> po_id operand \<noteq> tileIdentity blockId (ta_address t)
                   then Inl (''npu_tile_identity_mismatch'',
                             ''ordered tile operand does not match its imported identity'')
                   else Inr (push_tile input blockId t c)
          else if role = ''scalar_input''
          then if dc_scalarIndex c \<ge> length scalars
               then Inl (''npu_operand_role_mismatch'', ''scalar role count does not match scalar_inputs'')
               else case parseScalar (scalars ! dc_scalarIndex c) of
                 None \<Rightarrow> Inl (''npu_invalid_davincioo_attributes'', ''scalar input attributes are malformed'')
               | Some (ty, v) \<Rightarrow>
                   if po_kind operand \<noteq> Immediate \<or> po_type operand \<noteq> ty \<or>
                      \<not> (case po_immediate operand of None \<Rightarrow> False | Some w \<Rightarrow> pto_equal deq w v)
                   then Inl (''npu_scalar_mismatch'', ''ordered immediate does not match its imported scalar'')
                   else Inr (push_scalar ty v c)
          else Inl (''npu_operand_role_mismatch'', ''operand role is not supported by the DavinciOO adapter''))"

fun decode_loop ::
  "('d \<Rightarrow> 'd \<Rightarrow> bool) \<Rightarrow> u64 \<Rightarrow> 'd pto_value list \<Rightarrow> 'd pto_value list \<Rightarrow> 'd pto_value list
   \<Rightarrow> ('d pto_value \<times> 'd pto_operand) list \<Rightarrow> 'd decode_cursor \<Rightarrow> npu_diagnostic + 'd decode_cursor" where
  "decode_loop deq blockId inputs outputs scalars [] c = Inr c"
| "decode_loop deq blockId inputs outputs scalars ((role, operand) # rest) c =
     (case decode_operand deq blockId inputs outputs scalars role operand c of
        Inl d \<Rightarrow> Inl d
      | Inr c' \<Rightarrow> decode_loop deq blockId inputs outputs scalars rest c')"

definition new_instruction :: "'d pto_record \<Rightarrow> npu_engine \<Rightarrow> u64 \<Rightarrow> 'd npu_instruction" where
  "new_instruction r engine blockId =
     \<lparr>ni_sequenceId = pr_sequenceId r, ni_blockId = blockId, ni_opcode = pr_opcode r,
      ni_dependencies = pr_dependencies r, ni_operands = pr_operands r, ni_inputTiles = [],
      ni_outputTiles = [], ni_inputTileDescriptors = [], ni_outputTileDescriptors = [],
      ni_scalarInputs = [], ni_engine = engine, ni_timestamps = no_timestamps\<rparr>"

text \<open>The operand loop and what follows it, once the attributes have their types.\<close>

definition decode_typed ::
  "('d \<Rightarrow> 'd \<Rightarrow> bool) \<Rightarrow> 'd pto_record \<Rightarrow> npu_engine \<Rightarrow> u64 \<Rightarrow> 'd pto_value list \<Rightarrow> 'd pto_value list
   \<Rightarrow> 'd pto_value list \<Rightarrow> 'd pto_value list \<Rightarrow> 'd npu_decode_result" where
  "decode_typed deq r engine blockId inputs roles outputs scalars =
     (if length roles \<noteq> length (pr_operands r)
      then reject ''npu_operand_role_mismatch'' ''operand_roles must have one entry per ordered operand''
      else case decode_loop deq blockId inputs outputs scalars (zip roles (pr_operands r))
             \<lparr>dc_inputIndex = 0, dc_outputIndex = 0, dc_scalarIndex = 0,
              dc_instruction = new_instruction r engine blockId\<rparr> of
        Inl (code, message) \<Rightarrow> reject code message
      | Inr c \<Rightarrow>
          if dc_inputIndex c \<noteq> length inputs \<or> dc_outputIndex c \<noteq> length outputs \<or>
             dc_scalarIndex c \<noteq> length scalars
          then reject ''npu_operand_role_mismatch'' ''imported operand arrays contain unreferenced entries''
          else \<lparr>dr_instruction = Some (dc_instruction c), dr_diagnostics = [],
                dr_observations = [npu_observation ''decode'' (dc_instruction c),
                  npu_observation ''dispatch'' (dc_instruction c)]\<rparr>)"

definition decode :: "('d \<Rightarrow> 'd \<Rightarrow> bool) \<Rightarrow> 'd pto_record \<Rightarrow> 'd npu_decode_result" where
  "decode deq r =
     (case classify (pr_opcode r) of
        None \<Rightarrow> reject ''npu_unsupported_opcode'' ''opcode is not in the pinned DavinciOO opcode table''
      | Some engine \<Rightarrow>
     case map_of (pr_attributes r) ''davincioo'' of
        None \<Rightarrow> reject ''npu_missing_davincioo_attributes'' ''record does not contain attributes.davincioo''
      | Some davincioo \<Rightarrow>
     case get_object davincioo of
        None \<Rightarrow> reject ''npu_invalid_davincioo_attributes'' ''attributes.davincioo is not the closed imported shape''
      | Some attributes \<Rightarrow>
     if \<not> hasExactKeys attributes
          [''block_idx'', ''input_tiles'', ''operand_roles'', ''output_tiles'', ''scalar_inputs'']
     then reject ''npu_invalid_davincioo_attributes'' ''attributes.davincioo is not the closed imported shape''
     else case (map_of attributes ''block_idx'', map_of attributes ''input_tiles'',
                map_of attributes ''operand_roles'', map_of attributes ''output_tiles'',
                map_of attributes ''scalar_inputs'') of
        (Some blockValue, Some inputValue, Some roleValue, Some outputValue, Some scalarValue) \<Rightarrow>
          (case (unsignedInteger blockValue, get_array inputValue, get_array roleValue,
                 get_array outputValue, get_array scalarValue) of
             (Some blockId, Some inputs, Some roles, Some outputs, Some scalars) \<Rightarrow>
               decode_typed deq r engine blockId inputs roles outputs scalars
           | _ \<Rightarrow> reject ''npu_invalid_davincioo_attributes''
                    ''attributes.davincioo contains a value of the wrong type'')
      | _ \<Rightarrow> reject ''npu_invalid_davincioo_attributes'' ''attributes.davincioo is incomplete'')"

text \<open>\<open>NpuDecoder::operator()\<close>, the decoder a \<open>TraceSource\<close> is instantiated with.\<close>

definition npu_decoder :: "('d \<Rightarrow> 'd \<Rightarrow> bool) \<Rightarrow> 'd pto_record \<Rightarrow> 'd npu_instruction option" where
  "npu_decoder deq r = dr_instruction (decode deq r)"

section \<open>The opcode tables\<close>

definition opcode_table :: "npu_engine \<Rightarrow> string list" where
  "opcode_table e = (case e of Scalar \<Rightarrow> kScalarOpcodes | Vector \<Rightarrow> kVectorOpcodes
     | Cube \<Rightarrow> kCubeOpcodes | Tma \<Rightarrow> kTmaOpcodes)"

text \<open>A text as a number: distinct numbers are cheaper to tell apart than distinct texts.\<close>

definition text_code :: "string \<Rightarrow> nat" where
  "text_code s = fold (\<lambda>c n. of_char c + 256 * n) s 0"

lemma opcodes_distinct:
  "distinct (kScalarOpcodes @ kVectorOpcodes @ kCubeOpcodes @ kTmaOpcodes)"
proof -
  have "distinct (map text_code (kScalarOpcodes @ kVectorOpcodes @ kCubeOpcodes @ kTmaOpcodes))"
    by (simp add: kScalarOpcodes_def kVectorOpcodes_def kCubeOpcodes_def kTmaOpcodes_def text_code_def)
  then show ?thesis by (simp only: distinct_map)
qed

lemma opcodes_count:
  "length (kScalarOpcodes @ kVectorOpcodes @ kCubeOpcodes @ kTmaOpcodes) = 146"
  by (simp add: kScalarOpcodes_def kVectorOpcodes_def kCubeOpcodes_def kTmaOpcodes_def)

lemma classify_iff: "classify opcode = Some e \<longleftrightarrow> opcode \<in> set (opcode_table e)"
proof -
  have "set kScalarOpcodes \<inter> set kVectorOpcodes = {}" "set kScalarOpcodes \<inter> set kCubeOpcodes = {}"
    "set kScalarOpcodes \<inter> set kTmaOpcodes = {}" "set kVectorOpcodes \<inter> set kCubeOpcodes = {}"
    "set kVectorOpcodes \<inter> set kTmaOpcodes = {}" "set kCubeOpcodes \<inter> set kTmaOpcodes = {}"
    using opcodes_distinct by (simp_all add: Int_Un_distrib)
  then show ?thesis
    by (cases e) (auto simp: classify_def opcode_table_def)
qed

section \<open>What the decoder accepts\<close>

text \<open>
  The reference notion: a record describes a list of operands, each an input tile, an output tile or
  a scalar input. The attributes of the record are the exact encoding of that list, and each ordered
  operand of the record is the one its entry names.
\<close>

datatype 'd operand_spec = InTile "'d tile_attribute" | OutTile "'d tile_attribute"
  | ScalarIn string "'d pto_value"

fun role_of :: "'d operand_spec \<Rightarrow> string" where
  "role_of (InTile _) = ''input_tile''"
| "role_of (OutTile _) = ''output_tile''"
| "role_of (ScalarIn _ _) = ''scalar_input''"

definition tile_value :: "'d tile_attribute \<Rightarrow> 'd pto_value" where
  "tile_value t = PObject [(''address'', PString (ta_address t)), (''dtype'', PString (ta_type t)),
     (''layout'', PString (ta_layout t)), (''shape'', PArray (ta_shape t))]"

definition tile_attr_ok :: "'d tile_attribute \<Rightarrow> bool" where
  "tile_attr_ok t \<longleftrightarrow> ta_address t \<noteq> [] \<and> ta_type t \<noteq> [] \<and> ta_layout t \<noteq> [] \<and> list_all is_integer (ta_shape t)"

definition scalar_value :: "string \<times> 'd pto_value \<Rightarrow> 'd pto_value" where
  "scalar_value tv = PObject [(''dtype'', PString (fst tv)), (''value'', snd tv)]"

definition scalar_attr_ok :: "string \<times> 'd pto_value \<Rightarrow> bool" where
  "scalar_attr_ok tv \<longleftrightarrow> fst tv \<noteq> [] \<and> isScalarValue (snd tv)"

fun spec_ok :: "'d operand_spec \<Rightarrow> bool" where
  "spec_ok (InTile t) = tile_attr_ok t"
| "spec_ok (OutTile t) = tile_attr_ok t"
| "spec_ok (ScalarIn ty v) = scalar_attr_ok (ty, v)"

fun describes :: "('d \<Rightarrow> 'd \<Rightarrow> bool) \<Rightarrow> u64 \<Rightarrow> 'd operand_spec \<Rightarrow> 'd pto_operand \<Rightarrow> bool" where
  "describes deq b (InTile t) x \<longleftrightarrow> po_kind x = Tile \<and> po_id x = tileIdentity b (ta_address t)"
| "describes deq b (OutTile t) x \<longleftrightarrow> po_kind x = Tile \<and> po_id x = tileIdentity b (ta_address t)"
| "describes deq b (ScalarIn ty v) x \<longleftrightarrow> po_kind x = Immediate \<and> po_type x = ty \<and>
     (\<exists>w. po_immediate x = Some w \<and> pto_equal deq w v)"

fun in_tiles :: "'d operand_spec list \<Rightarrow> 'd tile_attribute list" where
  "in_tiles [] = []"
| "in_tiles (InTile t # ss) = t # in_tiles ss"
| "in_tiles (_ # ss) = in_tiles ss"

fun out_tiles :: "'d operand_spec list \<Rightarrow> 'd tile_attribute list" where
  "out_tiles [] = []"
| "out_tiles (OutTile t # ss) = t # out_tiles ss"
| "out_tiles (_ # ss) = out_tiles ss"

fun scalar_ins :: "'d operand_spec list \<Rightarrow> (string \<times> 'd pto_value) list" where
  "scalar_ins [] = []"
| "scalar_ins (ScalarIn ty v # ss) = (ty, v) # scalar_ins ss"
| "scalar_ins (_ # ss) = scalar_ins ss"

definition instruction_of ::
  "'d pto_record \<Rightarrow> npu_engine \<Rightarrow> u64 \<Rightarrow> 'd operand_spec list \<Rightarrow> 'd npu_instruction" where
  "instruction_of r e b ss = (new_instruction r e b)
     \<lparr>ni_inputTiles := map (\<lambda>t. tileIdentity b (ta_address t)) (in_tiles ss),
      ni_outputTiles := map (\<lambda>t. tileIdentity b (ta_address t)) (out_tiles ss),
      ni_inputTileDescriptors := map (tile_descriptor b) (in_tiles ss),
      ni_outputTileDescriptors := map (tile_descriptor b) (out_tiles ss),
      ni_scalarInputs := map (\<lambda>tv. \<lparr>ns_type = fst tv, ns_value = snd tv\<rparr>) (scalar_ins ss)\<rparr>"

definition record_describes ::
  "('d \<Rightarrow> 'd \<Rightarrow> bool) \<Rightarrow> 'd pto_record \<Rightarrow> npu_engine \<Rightarrow> u64 \<Rightarrow> 'd operand_spec list \<Rightarrow> bool" where
  "record_describes deq r e b ss \<longleftrightarrow>
     pr_opcode r \<in> set (opcode_table e) \<and>
     (\<exists>bv. unsignedInteger bv = Some b \<and>
        map_of (pr_attributes r) ''davincioo'' = Some (PObject
          [(''block_idx'', bv), (''input_tiles'', PArray (map tile_value (in_tiles ss))),
           (''operand_roles'', PArray (map (PString \<circ> role_of) ss)),
           (''output_tiles'', PArray (map tile_value (out_tiles ss))),
           (''scalar_inputs'', PArray (map scalar_value (scalar_ins ss)))])) \<and>
     list_all spec_ok ss \<and> list_all2 (describes deq b) ss (pr_operands r)"

lemma exact_keys:
  assumes "ordered ob" and "increasing keys"
  shows "hasExactKeys ob keys \<longleftrightarrow> map fst ob = keys"
proof
  assume ex: "hasExactKeys ob keys"
  then have "set keys \<subseteq> set (map fst ob)" and len: "length (map fst ob) = length keys"
    by (auto simp: hasExactKeys_def list_all_iff map_of_eq_None_iff)
  moreover have "card (set (map fst ob)) = length (map fst ob)" "card (set keys) = length keys"
    using assms by (simp_all only: increasing_length)
  ultimately have "set (map fst ob) = set keys"
    by (metis card_subset_eq finite_set)
  then show "map fst ob = keys"
    using assms by (intro sorted_distinct_set_unique) (simp_all add: strict_sorted_iff)
next
  assume "map fst ob = keys"
  then show "hasExactKeys ob keys"
    by (auto simp: hasExactKeys_def list_all_iff map_of_eq_None_iff)
qed

lemma map_fst_Cons: "map fst ob = k # ks \<longleftrightarrow> (\<exists>v ob'. ob = (k, v) # ob' \<and> map fst ob' = ks)"
  by (cases ob) (auto simp: prod_eq_iff)

lemma get_simps [simp]:
  "get_string v = Some s \<longleftrightarrow> v = PString s"
  "get_array v = Some vs \<longleftrightarrow> v = PArray vs"
  "get_object v = Some ms \<longleftrightarrow> v = PObject ms"
  by (cases v; auto)+

lemma parseTile_iff:
  assumes "value_ok v"
  shows "parseTile v = Some t \<longleftrightarrow> v = tile_value t \<and> tile_attr_ok t"
proof (cases "get_object v")
  case (Some ob)
  with assms have ob: "v = PObject ob" "ordered ob" by auto
  have keys: "increasing [''address'', ''dtype'', ''layout'', ''shape'']" by simp
  show ?thesis
    unfolding parseTile_def ob(1) get_object.simps option.case exact_keys [OF ob(2) keys]
    by (auto simp: map_fst_Cons tile_value_def tile_attr_ok_def split: option.splits)
qed (auto simp: parseTile_def tile_value_def split: option.split)

lemma parseScalar_iff:
  assumes "value_ok v"
  shows "parseScalar v = Some tv \<longleftrightarrow> v = scalar_value tv \<and> scalar_attr_ok tv"
proof (cases "get_object v")
  case (Some ob)
  with assms have ob: "v = PObject ob" "ordered ob" by auto
  have keys: "increasing [''dtype'', ''value'']" by simp
  show ?thesis
    unfolding parseScalar_def ob(1) get_object.simps option.case exact_keys [OF ob(2) keys]
    by (cases tv) (auto simp: map_fst_Cons scalar_value_def scalar_attr_ok_def split: option.splits)
qed (auto simp: parseScalar_def scalar_value_def split: option.split)

fun push_spec :: "u64 \<Rightarrow> 'd operand_spec \<Rightarrow> 'd decode_cursor \<Rightarrow> 'd decode_cursor" where
  "push_spec b (InTile t) c = push_tile True b t c"
| "push_spec b (OutTile t) c = push_tile False b t c"
| "push_spec b (ScalarIn ty v) c = push_scalar ty v c"

fun next_is ::
  "'d pto_value list \<Rightarrow> 'd pto_value list \<Rightarrow> 'd pto_value list \<Rightarrow> 'd decode_cursor \<Rightarrow> 'd operand_spec \<Rightarrow> bool" where
  "next_is ins outs scs c (InTile t) \<longleftrightarrow> dc_inputIndex c < length ins \<and> ins ! dc_inputIndex c = tile_value t"
| "next_is ins outs scs c (OutTile t) \<longleftrightarrow> dc_outputIndex c < length outs \<and> outs ! dc_outputIndex c = tile_value t"
| "next_is ins outs scs c (ScalarIn ty v) \<longleftrightarrow>
     dc_scalarIndex c < length scs \<and> scs ! dc_scalarIndex c = scalar_value (ty, v)"

lemma decode_operand_sound:
  assumes ok: "\<forall>v \<in> set ins \<union> set outs \<union> set scs. value_ok v"
    and run: "decode_operand deq b ins outs scs role x c = Inr c'"
  shows "\<exists>s. role = PString (role_of s) \<and> spec_ok s \<and> describes deq b s x \<and> next_is ins outs scs c s \<and>
    c' = push_spec b s c"
proof -
  obtain nm where nm: "role = PString nm"
    using run by (auto simp: decode_operand_def split: option.splits)
  note run = run [unfolded decode_operand_def nm get_string.simps option.case Let_def]
  consider "nm = ''input_tile''" | "nm = ''output_tile''" | "nm = ''scalar_input''"
    using run by (auto split: if_splits)
  then show ?thesis
  proof cases
    case 1
    with run have i: "dc_inputIndex c < length ins" by (auto split: if_splits)
    with ok have "value_ok (ins ! dc_inputIndex c)" by simp
    note tile = parseTile_iff [OF this]
    from run 1 i tile obtain t where "ins ! dc_inputIndex c = tile_value t" "tile_attr_ok t" "po_kind x = Tile"
        "po_id x = tileIdentity b (ta_address t)" "c' = push_tile True b t c"
      by (auto split: option.splits if_splits)
    with i nm 1 show ?thesis by (intro exI [of _ "InTile t"]) simp
  next
    case 2
    with run have i: "dc_outputIndex c < length outs" by (auto split: if_splits)
    with ok have "value_ok (outs ! dc_outputIndex c)" by simp
    note tile = parseTile_iff [OF this]
    from run 2 i tile obtain t where "outs ! dc_outputIndex c = tile_value t" "tile_attr_ok t" "po_kind x = Tile"
        "po_id x = tileIdentity b (ta_address t)" "c' = push_tile False b t c"
      by (auto split: option.splits if_splits)
    with i nm 2 show ?thesis by (intro exI [of _ "OutTile t"]) simp
  next
    case 3
    with run have i: "dc_scalarIndex c < length scs" by (auto split: if_splits)
    with ok have "value_ok (scs ! dc_scalarIndex c)" by simp
    note scalar = parseScalar_iff [OF this]
    from run 3 i obtain ty v w where "parseScalar (scs ! dc_scalarIndex c) = Some (ty, v)"
        "po_kind x = Immediate" "po_type x = ty" "po_immediate x = Some w" "pto_equal deq w v"
        "c' = push_scalar ty v c"
      by (auto split: option.splits if_splits)
    then have "scs ! dc_scalarIndex c = scalar_value (ty, v)" "scalar_attr_ok (ty, v)"
        "po_kind x = Immediate" "po_type x = ty" "po_immediate x = Some w" "pto_equal deq w v"
        "c' = push_scalar ty v c"
      using scalar by blast+
    with i nm 3 show ?thesis by (intro exI [of _ "ScalarIn ty v"]) simp
  qed
qed

lemma decode_operand_complete:
  assumes ok: "\<forall>v \<in> set ins \<union> set outs \<union> set scs. value_ok v"
    and "spec_ok s" "describes deq b s x" "next_is ins outs scs c s"
  shows "decode_operand deq b ins outs scs (PString (role_of s)) x c = Inr (push_spec b s c)"
proof (cases s)
  case (InTile t)
  with assms(4) have "ins ! dc_inputIndex c \<in> set ins" by (metis next_is.simps nth_mem)
  with ok have "value_ok (ins ! dc_inputIndex c)" by blast
  from parseTile_iff [OF this, of t] assms InTile show ?thesis by (simp add: decode_operand_def)
next
  case (OutTile t)
  with assms(4) have "outs ! dc_outputIndex c \<in> set outs" by (metis next_is.simps nth_mem)
  with ok have "value_ok (outs ! dc_outputIndex c)" by blast
  from parseTile_iff [OF this, of t] assms OutTile show ?thesis by (simp add: decode_operand_def)
next
  case (ScalarIn ty v)
  with assms(4) have "scs ! dc_scalarIndex c \<in> set scs" by (metis next_is.simps nth_mem)
  with ok have "value_ok (scs ! dc_scalarIndex c)" by blast
  from parseScalar_iff [OF this, of "(ty, v)"] assms ScalarIn show ?thesis
    by (auto simp: decode_operand_def)
qed

lemma push_spec_indices:
  "dc_inputIndex (fold (push_spec b) ss c) = dc_inputIndex c + length (in_tiles ss)"
  "dc_outputIndex (fold (push_spec b) ss c) = dc_outputIndex c + length (out_tiles ss)"
  "dc_scalarIndex (fold (push_spec b) ss c) = dc_scalarIndex c + length (scalar_ins ss)"
proof (induction ss arbitrary: c)
  case (Cons s ss)
  { case 1 show ?case by (cases s) (simp_all add: Cons.IH push_tile_def push_scalar_def Let_def) }
  { case 2 show ?case by (cases s) (simp_all add: Cons.IH push_tile_def push_scalar_def Let_def) }
  { case 3 show ?case by (cases s) (simp_all add: Cons.IH push_tile_def push_scalar_def Let_def) }
qed simp_all

lemma push_spec_instruction:
  "dc_instruction (fold (push_spec b) ss c) = (dc_instruction c)
     \<lparr>ni_inputTiles := ni_inputTiles (dc_instruction c) @ map (\<lambda>t. tileIdentity b (ta_address t)) (in_tiles ss),
      ni_outputTiles := ni_outputTiles (dc_instruction c) @ map (\<lambda>t. tileIdentity b (ta_address t)) (out_tiles ss),
      ni_inputTileDescriptors := ni_inputTileDescriptors (dc_instruction c) @ map (tile_descriptor b) (in_tiles ss),
      ni_outputTileDescriptors := ni_outputTileDescriptors (dc_instruction c) @ map (tile_descriptor b) (out_tiles ss),
      ni_scalarInputs := ni_scalarInputs (dc_instruction c) @
        map (\<lambda>tv. \<lparr>ns_type = fst tv, ns_value = snd tv\<rparr>) (scalar_ins ss)\<rparr>"
proof (induction ss arbitrary: c)
  case (Cons s ss)
  show ?case by (cases s) (simp_all add: Cons.IH push_tile_def push_scalar_def Let_def)
qed simp

text \<open>The three arrays, from the cursors on, start with the encodings of the operands.\<close>

definition lines_up ::
  "'d pto_value list \<Rightarrow> 'd pto_value list \<Rightarrow> 'd pto_value list \<Rightarrow> 'd decode_cursor \<Rightarrow> 'd operand_spec list \<Rightarrow> bool" where
  "lines_up ins outs scs c ss \<longleftrightarrow>
     take (length (in_tiles ss)) (drop (dc_inputIndex c) ins) = map tile_value (in_tiles ss) \<and>
     take (length (out_tiles ss)) (drop (dc_outputIndex c) outs) = map tile_value (out_tiles ss) \<and>
     take (length (scalar_ins ss)) (drop (dc_scalarIndex c) scs) = map scalar_value (scalar_ins ss)"

lemma take_drop_Cons:
  "take (Suc n) (drop i xs) = y # ys \<longleftrightarrow> i < length xs \<and> xs ! i = y \<and> take n (drop (Suc i) xs) = ys"
  by (cases "i < length xs") (auto simp: Cons_nth_drop_Suc [symmetric])

lemma lines_up_Cons:
  "lines_up ins outs scs c (s # ss) \<longleftrightarrow> next_is ins outs scs c s \<and> lines_up ins outs scs (push_spec b s c) ss"
  by (cases s) (auto simp: lines_up_def push_tile_def push_scalar_def Let_def take_drop_Cons)

lemma decode_loop_iff:
  assumes ok: "\<forall>v \<in> set ins \<union> set outs \<union> set scs. value_ok v" and "length roles = length xs"
  shows "decode_loop deq b ins outs scs (zip roles xs) c = Inr c' \<longleftrightarrow>
    (\<exists>ss. roles = map (PString \<circ> role_of) ss \<and> list_all spec_ok ss \<and> list_all2 (describes deq b) ss xs \<and>
       lines_up ins outs scs c ss \<and> c' = fold (push_spec b) ss c)"
  using assms(2)
proof (induction roles xs arbitrary: c rule: list_induct2)
  case Nil
  show ?case by (auto simp: lines_up_def)
next
  case (Cons role roles x xs)
  show ?case
  proof (intro iffI; (elim exE conjE)?)
    assume run: "decode_loop deq b ins outs scs (zip (role # roles) (x # xs)) c = Inr c'"
    then obtain c1 where one: "decode_operand deq b ins outs scs role x c = Inr c1"
      and rest: "decode_loop deq b ins outs scs (zip roles xs) c1 = Inr c'"
      by (auto split: sum.splits)
    from decode_operand_sound [OF ok one] obtain s where s: "role = PString (role_of s)" "spec_ok s"
      "describes deq b s x" "next_is ins outs scs c s" "c1 = push_spec b s c" by blast
    from rest Cons.IH obtain ss where "roles = map (PString \<circ> role_of) ss" "list_all spec_ok ss"
      "list_all2 (describes deq b) ss xs" "lines_up ins outs scs c1 ss" "c' = fold (push_spec b) ss c1" by blast
    with s show "\<exists>ss. role # roles = map (PString \<circ> role_of) ss \<and> list_all spec_ok ss \<and>
       list_all2 (describes deq b) ss (x # xs) \<and> lines_up ins outs scs c ss \<and> c' = fold (push_spec b) ss c"
      by (intro exI [of _ "s # ss"]) (simp add: lines_up_Cons [where b = b])
  next
    fix ss assume ss: "role # roles = map (PString \<circ> role_of) ss" "list_all spec_ok ss"
      "list_all2 (describes deq b) ss (x # xs)" "lines_up ins outs scs c ss" "c' = fold (push_spec b) ss c"
    then obtain s ss' where s: "ss = s # ss'" by (cases ss) auto
    with ss have "decode_operand deq b ins outs scs role x c = Inr (push_spec b s c)"
      using decode_operand_complete [OF ok, of s deq b x c] by (simp add: lines_up_Cons [where b = b])
    moreover have "decode_loop deq b ins outs scs (zip roles xs) (push_spec b s c) = Inr c'"
      unfolding Cons.IH using ss s by (intro exI [of _ ss']) (simp add: lines_up_Cons [where b = b])
    ultimately show "decode_loop deq b ins outs scs (zip (role # roles) (x # xs)) c = Inr c'"
      by simp
  qed
qed

lemma value_ok_member:
  "ordered m \<Longrightarrow> \<forall>e \<in> set m. value_ok (snd e) \<Longrightarrow> map_of m k = Some v \<Longrightarrow> value_ok v"
  by (force dest: map_of_SomeD)

lemma decode_typed_iff:
  assumes ok: "\<forall>v \<in> set inputs \<union> set outputs \<union> set scalars. value_ok v"
  shows "dr_instruction (decode_typed deq r e b inputs roles outputs scalars) = Some i \<longleftrightarrow>
    (\<exists>ss. roles = map (PString \<circ> role_of) ss \<and> inputs = map tile_value (in_tiles ss) \<and>
       outputs = map tile_value (out_tiles ss) \<and> scalars = map scalar_value (scalar_ins ss) \<and>
       list_all spec_ok ss \<and> list_all2 (describes deq b) ss (pr_operands r) \<and> i = instruction_of r e b ss)"
    (is "?run \<longleftrightarrow> ?spec")
proof (cases "length roles = length (pr_operands r)")
  case len: True
  let ?c = "\<lparr>dc_inputIndex = 0, dc_outputIndex = 0, dc_scalarIndex = 0, dc_instruction = new_instruction r e b\<rparr>"
  have same: "dc_instruction (fold (push_spec b) ss ?c) = instruction_of r e b ss" for ss
    by (simp add: push_spec_instruction instruction_of_def new_instruction_def)
  have whole: "lines_up inputs outputs scalars ?c ss \<and> length (in_tiles ss) = length inputs \<and>
      length (out_tiles ss) = length outputs \<and> length (scalar_ins ss) = length scalars \<longleftrightarrow>
      inputs = map tile_value (in_tiles ss) \<and> outputs = map tile_value (out_tiles ss) \<and>
      scalars = map scalar_value (scalar_ins ss)" for ss
    by (auto simp: lines_up_def)
  have "?run \<longleftrightarrow> (\<exists>c. decode_loop deq b inputs outputs scalars (zip roles (pr_operands r)) ?c = Inr c \<and>
      dc_inputIndex c = length inputs \<and> dc_outputIndex c = length outputs \<and>
      dc_scalarIndex c = length scalars \<and> i = dc_instruction c)"
    using len by (auto simp: decode_typed_def reject_def split: sum.split)
  also have "\<dots> \<longleftrightarrow> (\<exists>ss. roles = map (PString \<circ> role_of) ss \<and> list_all spec_ok ss \<and>
      list_all2 (describes deq b) ss (pr_operands r) \<and> i = instruction_of r e b ss \<and>
      (lines_up inputs outputs scalars ?c ss \<and> length (in_tiles ss) = length inputs \<and>
       length (out_tiles ss) = length outputs \<and> length (scalar_ins ss) = length scalars))"
    unfolding decode_loop_iff [OF ok len] by (auto simp: push_spec_indices same)
  also have "\<dots> \<longleftrightarrow> ?spec"
    unfolding whole by blast
  finally show ?thesis .
next
  case False
  then show ?thesis
    by (auto simp: decode_typed_def reject_def dest: list_all2_lengthD)
qed

lemma decode_diagnosed:
  "(dr_diagnostics (decode deq r) = [] \<and> dr_instruction (decode deq r) \<noteq> None \<and>
    map op_name (dr_observations (decode deq r)) = [''decode'', ''dispatch'']) \<or>
   (length (dr_diagnostics (decode deq r)) = 1 \<and> dr_instruction (decode deq r) = None \<and>
    dr_observations (decode deq r) = [])"
  by (auto simp: decode_def decode_typed_def reject_def npu_observation_def observation_def
      split: option.split sum.split prod.split)

text \<open>
  The attribute object of a record is an ordered map, as the parser builds it.
\<close>

definition attributes_ok :: "'d pto_record \<Rightarrow> bool" where
  "attributes_ok r \<longleftrightarrow> value_ok (PObject (pr_attributes r))"

lemma attribute_keys:
  "increasing [''block_idx'', ''input_tiles'', ''operand_roles'', ''output_tiles'', ''scalar_inputs'']"
  by simp

lemma five_present:
  "dr_instruction (case (x1, x2, x3, x4, x5) of (Some a1, Some a2, Some a3, Some a4, Some a5) \<Rightarrow> f a1 a2 a3 a4 a5
     | _ \<Rightarrow> reject code message) = Some i \<longleftrightarrow>
   (\<exists>a1 a2 a3 a4 a5. x1 = Some a1 \<and> x2 = Some a2 \<and> x3 = Some a3 \<and> x4 = Some a4 \<and> x5 = Some a5 \<and>
      dr_instruction (f a1 a2 a3 a4 a5) = Some i)"
  by (cases x1; cases x2; cases x3; cases x4; cases x5; simp add: reject_def)

lemma decode_instruction_iff:
  assumes "attributes_ok r"
  shows "dr_instruction (decode deq r) = Some i \<longleftrightarrow>
    (\<exists>e b ss. record_describes deq r e b ss \<and> i = instruction_of r e b ss)"
proof -
  let ?typed = "\<lambda>e bv iv rv ov sv. case (unsignedInteger bv, get_array iv, get_array rv, get_array ov, get_array sv) of
       (Some b, Some inputs, Some roles, Some outputs, Some scalars) \<Rightarrow> decode_typed deq r e b inputs roles outputs scalars
     | _ \<Rightarrow> reject ''npu_invalid_davincioo_attributes'' ''attributes.davincioo contains a value of the wrong type''"
  have "dr_instruction (decode deq r) = Some i \<longleftrightarrow>
    (\<exists>e ob bv iv rv ov sv. classify (pr_opcode r) = Some e \<and> map_of (pr_attributes r) ''davincioo'' = Some (PObject ob) \<and>
       ob = [(''block_idx'', bv), (''input_tiles'', iv), (''operand_roles'', rv), (''output_tiles'', ov), (''scalar_inputs'', sv)] \<and>
       dr_instruction (?typed e bv iv rv ov sv) = Some i)"
  proof (cases "\<exists>e ob. classify (pr_opcode r) = Some e \<and> map_of (pr_attributes r) ''davincioo'' = Some (PObject ob)")
    case True
    then obtain e ob where e: "classify (pr_opcode r) = Some e" "map_of (pr_attributes r) ''davincioo'' = Some (PObject ob)"
      by blast
    with assms have "ordered ob"
      using value_ok_member [of "pr_attributes r" "''davincioo''"] by (auto simp: attributes_ok_def)
    note exact = exact_keys [OF this attribute_keys]
    show ?thesis
      unfolding decode_def e option.case get_object.simps exact
      by (auto simp: e reject_def map_fst_Cons)
  next
    case False
    then have "dr_instruction (decode deq r) = None"
      by (cases "classify (pr_opcode r)"; cases "map_of (pr_attributes r) ''davincioo''";
          cases "get_object (the (map_of (pr_attributes r) ''davincioo''))"; simp add: decode_def reject_def)
    with False show ?thesis by (simp only: option.simps) blast
  qed
  also have "\<dots> \<longleftrightarrow> (\<exists>e b ss. record_describes deq r e b ss \<and> i = instruction_of r e b ss)"
    (is "?left \<longleftrightarrow> ?right")
  proof
    assume ?left
    then obtain e ob bv iv rv ov sv where a: "classify (pr_opcode r) = Some e"
      "map_of (pr_attributes r) ''davincioo'' = Some (PObject ob)"
      "ob = [(''block_idx'', bv), (''input_tiles'', iv), (''operand_roles'', rv), (''output_tiles'', ov), (''scalar_inputs'', sv)]"
      "dr_instruction (?typed e bv iv rv ov sv) = Some i" by blast
    from a(4) obtain b inputs roles outputs scalars where t: "unsignedInteger bv = Some b" "iv = PArray inputs"
      "rv = PArray roles" "ov = PArray outputs" "sv = PArray scalars"
      "dr_instruction (decode_typed deq r e b inputs roles outputs scalars) = Some i"
      unfolding five_present get_simps by blast
    have "value_ok (PObject ob)"
      using assms a(2) value_ok_member [of "pr_attributes r" "''davincioo''"] by (auto simp: attributes_ok_def)
    with a(3) t have "\<forall>v \<in> set inputs \<union> set outputs \<union> set scalars. value_ok v" by auto
    from t(6) [unfolded decode_typed_iff [OF this]] a t show ?right
      by (auto simp: record_describes_def classify_iff)
  next
    assume ?right
    then obtain e b ss bv where d: "pr_opcode r \<in> set (opcode_table e)" "unsignedInteger bv = Some b"
      "map_of (pr_attributes r) ''davincioo'' = Some (PObject
          [(''block_idx'', bv), (''input_tiles'', PArray (map tile_value (in_tiles ss))),
           (''operand_roles'', PArray (map (PString \<circ> role_of) ss)),
           (''output_tiles'', PArray (map tile_value (out_tiles ss))),
           (''scalar_inputs'', PArray (map scalar_value (scalar_ins ss)))])"
      "list_all spec_ok ss" "list_all2 (describes deq b) ss (pr_operands r)" "i = instruction_of r e b ss"
      by (auto simp: record_describes_def)
    have ok: "\<forall>v \<in> set (map tile_value (in_tiles ss)) \<union> set (map tile_value (out_tiles ss)) \<union>
        set (map scalar_value (scalar_ins ss)). value_ok v"
      using assms d(3) value_ok_member [of "pr_attributes r" "''davincioo''"] by (auto simp: attributes_ok_def)
    have "dr_instruction (decode_typed deq r e b (map tile_value (in_tiles ss)) (map (PString \<circ> role_of) ss)
        (map tile_value (out_tiles ss)) (map scalar_value (scalar_ins ss))) = Some i"
      unfolding decode_typed_iff [OF ok] using d by blast
    with d show ?left
      by (simp add: classify_iff) blast
  qed
  finally show ?thesis .
qed

section \<open>Properties\<close>

text \<open>
  C13: The decoder accepts exactly the records that describe a list of typed operands, and yields their
  instruction. For every record whose attributes are ordered maps, decoding gives the instruction
  \<open>i\<close> if and only if the opcode is in the table of an engine class, the imported attributes are
  the closed encoding of some operand list (roles, input tiles, output tiles and scalars, with no
  entry left over), every ordered operand of the record is the tile or immediate its entry names,
  and \<open>i\<close> carries the tiles and scalars of that list in order. Any other record is rejected with
  exactly one diagnostic and without an observation.
\<close>

theorem decode_exact:
  assumes "attributes_ok r"
  shows "(dr_instruction (decode deq r) = Some i \<longleftrightarrow>
      (\<exists>e b ss. record_describes deq r e b ss \<and> i = instruction_of r e b ss)) \<and>
    (if \<exists>e b ss. record_describes deq r e b ss
     then decode_succeeded (decode deq r) \<and>
       map op_name (dr_observations (decode deq r)) = [''decode'', ''dispatch'']
     else length (dr_diagnostics (decode deq r)) = 1 \<and> dr_instruction (decode deq r) = None \<and>
       dr_observations (decode deq r) = [])"
proof -
  have ex: "dr_instruction (decode deq r) \<noteq> None \<longleftrightarrow> (\<exists>e b ss. record_describes deq r e b ss)"
    using decode_instruction_iff [OF assms, of deq] by (metis not_None_eq)
  from ex decode_instruction_iff [OF assms, of deq i] decode_diagnosed [of deq r] show ?thesis
    by (auto simp: decode_succeeded_def)
qed

definition sample_tile :: "string \<Rightarrow> bool tile_attribute" where
  "sample_tile address = \<lparr>ta_address = address, ta_type = ''f16'', ta_layout = ''ND'', ta_shape = [PUInt 16]\<rparr>"

definition tile_operand :: "string \<Rightarrow> bool pto_operand" where
  "tile_operand identity = \<lparr>po_kind = Tile, po_type = ''f16'', po_immediate = None, po_id = identity,
     po_addressSpace = [], po_address = 0, po_sequenceId = 0, po_resultIndex = 0\<rparr>"

definition immediate_operand :: "bool pto_operand" where
  "immediate_operand = \<lparr>po_kind = Immediate, po_type = ''f32'', po_immediate = Some (PDouble True), po_id = [],
     po_addressSpace = [], po_address = 0, po_sequenceId = 0, po_resultIndex = 0\<rparr>"

definition sample_specs :: "bool operand_spec list" where
  "sample_specs = [OutTile (sample_tile ''0x20''), InTile (sample_tile ''0x10''), ScalarIn ''f32'' (PDouble True)]"

definition sample_instruction_record :: "bool pto_record" where
  "sample_instruction_record = \<lparr>pr_sequenceId = 7, pr_opcode = ''TADDS'',
     pr_operands = [tile_operand ''block/3/tile/0x20'', tile_operand ''block/3/tile/0x10'', immediate_operand],
     pr_dependencies = [],
     pr_attributes = [(''davincioo'', PObject
       [(''block_idx'', PUInt 3), (''input_tiles'', PArray [tile_value (sample_tile ''0x10'')]),
        (''operand_roles'', PArray [PString ''output_tile'', PString ''input_tile'', PString ''scalar_input'']),
        (''output_tiles'', PArray [tile_value (sample_tile ''0x20'')]),
        (''scalar_inputs'', PArray [scalar_value (''f32'', PDouble True)])])],
     pr_issueTime = None, pr_source = None\<rparr>"

lemma decimal_3: "decimal 3 = ''3''"
  by code_simp

lemma sample_described: "record_describes (=) sample_instruction_record Vector 3 sample_specs"
  by (simp add: record_describes_def sample_instruction_record_def sample_specs_def opcode_table_def
      kVectorOpcodes_def tile_attr_ok_def scalar_attr_ok_def sample_tile_def tileIdentity_def decimal_3
      tile_operand_def immediate_operand_def)

theorem decode_exact_witness:
  "decode_succeeded (decode (=) sample_instruction_record) \<and>
   dr_instruction (decode (=) sample_instruction_record) =
     Some (instruction_of sample_instruction_record Vector 3 sample_specs)"
proof -
  have "attributes_ok sample_instruction_record"
    by (simp add: attributes_ok_def sample_instruction_record_def tile_value_def scalar_value_def sample_tile_def)
  from decode_exact [OF this, of "(=)" "instruction_of sample_instruction_record Vector 3 sample_specs"]
  show ?thesis using sample_described by metis
qed

end
