(* ===== verification/Npu_Tracker.thy ===== *)
theory Npu_Tracker
  imports Npu_Decoder
begin

text \<open>
  The dependency tracker of the NPU reference model (\<open>NpuDependencyTracker\<close> of
  \<open>lib/gfsim/npu.cpp\<close>): block-local producers of tiles, four finite issue queues, and the
  sequences that are issued and completed. A \<open>std::array\<close> indexed by the engine class is a function
  of the engine; iteration over the array is iteration over \<open>engines\<close>.

  A round of the tracker is what the runtime does to it in one epoch: proposals in any number and
  order, one arbitration, one commit. The lemmas show that the queues never exceed their capacities,
  that every sequence is dispatched, issued and completed at most once, that the dependencies of an
  instruction are the latest earlier writers of its input tiles, that an instruction issues only
  after they completed, oldest first, that arbitration ignores the order of proposals, and that a
  tracker with queued and no outstanding work can always issue.
\<close>

unbundle bit_operations_syntax

section \<open>State\<close>

definition engines :: "npu_engine list" where
  "engines = [Scalar, Vector, Cube, Tma]"

record npu_dependency =
  nx_producerSequenceId :: u64
  nx_tileIdentity :: string
  nx_flowId :: u64

record 'd issue_entry =
  ie_instruction :: "'d npu_instruction"
  ie_stableObjectId :: object_id
  ie_derivedDependencies :: "npu_dependency list"

abbreviation entry_sequence :: "('d, 'z) issue_entry_scheme \<Rightarrow> u64" where
  "entry_sequence x \<equiv> ni_sequenceId (ie_instruction x)"

abbreviation entry_engine :: "('d, 'z) issue_entry_scheme \<Rightarrow> npu_engine" where
  "entry_engine x \<equiv> ni_engine (ie_instruction x)"

record issue_capacities =
  ic_scalar :: nat
  ic_vector :: nat
  ic_cube :: nat
  ic_tma :: nat

record 'd dependency_tracker = sim_object +
  dt_capacities :: issue_capacities
  dt_queues :: "npu_engine \<Rightarrow> 'd issue_entry list"
  dt_dispatchProposals :: "('d npu_instruction \<times> object_id) list"
  dt_acceptedDispatches :: "'d issue_entry list"
  dt_proposedRejectedDispatches :: "u64 list"
  dt_rejectedDispatches :: "u64 list"
  dt_acceptedDispatchSequences :: "u64 list"
  dt_issueProposals :: "npu_engine \<Rightarrow> 'd issue_entry option"
  dt_issued :: "'d issue_entry list"
  dt_completionProposals :: "u64 list"
  dt_outstandingSequences :: "u64 list"
  dt_completedSequences :: "u64 list"
  dt_producers :: "((u64 \<times> string) \<times> u64) list"
  dt_usedFlowIds :: "u64 list"
  dt_lastDispatchedSequence :: "u64 option"
  dt_highWatermarks :: "npu_engine \<Rightarrow> nat"
  dt_totalDispatches :: u64
  dt_totalDispatchStalls :: u64
  dt_totalIssues :: u64
  dt_totalDependencyWakeups :: u64
  dt_lastUpdate :: epoch

definition newDependencyTracker ::
  "string \<Rightarrow> object_id \<Rightarrow> ptr option \<Rightarrow> issue_capacities \<Rightarrow> ptr option \<Rightarrow> 'd dependency_tracker" where
  "newDependencyTracker nm i parent capacities obs =
     \<lparr>so_kind = KScheduler, so_name = nm, so_id = i, so_path = [], so_parent = parent,
      so_observationSink = obs, so_runtimeFailureCode = [],
      dt_capacities = capacities, dt_queues = (\<lambda>_. []), dt_dispatchProposals = [],
      dt_acceptedDispatches = [], dt_proposedRejectedDispatches = [], dt_rejectedDispatches = [],
      dt_acceptedDispatchSequences = [], dt_issueProposals = (\<lambda>_. None), dt_issued = [],
      dt_completionProposals = [], dt_outstandingSequences = [], dt_completedSequences = [],
      dt_producers = [], dt_usedFlowIds = [], dt_lastDispatchedSequence = None,
      dt_highWatermarks = (\<lambda>_. 0), dt_totalDispatches = 0, dt_totalDispatchStalls = 0,
      dt_totalIssues = 0, dt_totalDependencyWakeups = 0, dt_lastUpdate = epoch0\<rparr>"

fun engine_capacity :: "issue_capacities \<Rightarrow> npu_engine \<Rightarrow> nat" where
  "engine_capacity c Scalar = ic_scalar c"
| "engine_capacity c Vector = ic_vector c"
| "engine_capacity c Cube = ic_cube c"
| "engine_capacity c Tma = ic_tma c"

section \<open>Flow identities\<close>

definition kMaxPortableJsonInteger :: u64 where
  "kMaxPortableJsonInteger = 9007199254740991"

text \<open>The FNV-1a steps shared by \<open>dependencyFlowId\<close> and the architectural digest.\<close>

definition fnv_byte :: "u8 \<Rightarrow> u64 \<Rightarrow> u64" where
  "fnv_byte byte hash = (hash XOR ucast byte) * 1099511628211"

definition fnv_integer :: "u64 \<Rightarrow> u64 \<Rightarrow> u64" where
  "fnv_integer v hash = fold (\<lambda>shift h. fnv_byte (ucast (drop_bit shift v)) h) [0, 8, 16, 24, 32, 40, 48, 56] hash"

definition fnv_text :: "string \<Rightarrow> u64 \<Rightarrow> u64" where
  "fnv_text t hash = fold (\<lambda>c h. fnv_byte (of_char c) h) t hash"

definition dependencyFlowId :: "u64 \<Rightarrow> u64 \<Rightarrow> u64 \<Rightarrow> string \<Rightarrow> u64" where
  "dependencyFlowId blockId producer consumer tile =
     fnv_text tile (fnv_integer consumer (fnv_integer producer (fnv_integer blockId 14695981039346656037)))
       mod kMaxPortableJsonInteger + 1"

definition next_flow :: "u64 \<Rightarrow> u64" where
  "next_flow flow = (if flow = kMaxPortableJsonInteger then 1 else flow + 1)"

text \<open>The probing loop; \<open>None\<close> is the branch that reports \<open>npu_dependency_flow_id_exhausted\<close>.\<close>

function flow_probe :: "u64 list \<Rightarrow> nat \<Rightarrow> u64 \<Rightarrow> u64 option" where
  "flow_probe used attempts flow =
     (if flow \<notin> set used then Some flow
      else if attempts \<ge> length used then None
      else flow_probe used (attempts + 1) (next_flow flow))"
  by auto
termination by (relation "measure (\<lambda>(used, attempts, _). length used - attempts)") auto

declare flow_probe.simps [simp del]

section \<open>Proposals\<close>

definition queued_entries :: "('d, 'z) dependency_tracker_scheme \<Rightarrow> 'd issue_entry list" where
  "queued_entries t = concat (map (dt_queues t) engines)"

definition knownSequence :: "u64 \<Rightarrow> ('d, 'z) dependency_tracker_scheme \<Rightarrow> bool" where
  "knownSequence q t \<longleftrightarrow> q \<in> set (dt_completedSequences t) \<or> q \<in> set (dt_outstandingSequences t) \<or>
     list_ex (\<lambda>p. ni_sequenceId (fst p) = q) (dt_dispatchProposals t) \<or>
     list_ex (\<lambda>x. entry_sequence x = q) (dt_acceptedDispatches t) \<or>
     list_ex (\<lambda>x. entry_sequence x = q) (queued_entries t)"

definition entry_ready :: "('d, 'z) dependency_tracker_scheme \<Rightarrow> 'd issue_entry \<Rightarrow> bool" where
  "entry_ready t x \<longleftrightarrow>
     list_all (\<lambda>d. nx_producerSequenceId d \<in> set (dt_completedSequences t)) (ie_derivedDependencies x)"

text \<open>\<open>issueEntryLess\<close> compares this pair; so does the sort of the dispatch proposals.\<close>

definition issue_key :: "'d issue_entry \<Rightarrow> u64 \<times> object_id" where
  "issue_key x = (entry_sequence x, ie_stableObjectId x)"

definition dispatch_key :: "'d npu_instruction \<times> object_id \<Rightarrow> u64 \<times> object_id" where
  "dispatch_key p = (ni_sequenceId (fst p), snd p)"

definition proposeDispatch ::
  "'d npu_instruction \<Rightarrow> object_id \<Rightarrow> ('d, 'z) dependency_tracker_scheme \<Rightarrow> bool \<times> ('d, 'z) dependency_tracker_scheme" where
  "proposeDispatch i stableId t =
     (if stableId = kInvalidObjectId \<or>
         (case dt_lastDispatchedSequence t of None \<Rightarrow> False | Some q \<Rightarrow> ni_sequenceId i \<le> q) \<or>
         knownSequence (ni_sequenceId i) t
      then (False, t)
      else (True, t\<lparr>dt_dispatchProposals := dt_dispatchProposals t @ [(i, stableId)]\<rparr>))"

definition issue_candidate :: "('d, 'z) dependency_tracker_scheme \<Rightarrow> 'd issue_entry list \<Rightarrow> 'd issue_entry option" where
  "issue_candidate t queue =
     fold (\<lambda>x candidate. if entry_ready t x \<and>
              (case candidate of None \<Rightarrow> True | Some y \<Rightarrow> issue_key x < issue_key y)
            then Some x else candidate) queue None"

definition proposeIssue ::
  "npu_engine \<Rightarrow> ('d, 'z) dependency_tracker_scheme \<Rightarrow> bool \<times> ('d, 'z) dependency_tracker_scheme" where
  "proposeIssue e t =
     (if dt_issueProposals t e \<noteq> None then (False, t)
      else case issue_candidate t (dt_queues t e) of
        None \<Rightarrow> (False, t)
      | Some x \<Rightarrow> (True, t\<lparr>dt_issueProposals := (dt_issueProposals t)(e := Some x)\<rparr>))"

definition proposeComplete ::
  "u64 \<Rightarrow> ('d, 'z) dependency_tracker_scheme \<Rightarrow> bool \<times> ('d, 'z) dependency_tracker_scheme" where
  "proposeComplete q t =
     (if q \<notin> set (dt_outstandingSequences t) \<or> q \<in> set (dt_completionProposals t) then (False, t)
      else (True, t\<lparr>dt_completionProposals := dt_completionProposals t @ [q]\<rparr>))"

section \<open>Arbitration\<close>

text \<open>
  The loop over the input tiles of one proposal. It carries the runtime failure code, the shadow set
  of flow identities, and the dependencies found so far; a failure ends the loop.
\<close>

fun derive_loop ::
  "((u64 \<times> string) \<times> u64) list \<Rightarrow> 'd npu_instruction \<Rightarrow> string list
   \<Rightarrow> string \<times> u64 list \<times> npu_dependency list \<Rightarrow> string \<times> u64 list \<times> npu_dependency list" where
  "derive_loop producers i [] st = st"
| "derive_loop producers i (tile # tiles) (code, shadow, deps) =
     (case map_of producers (ni_blockId i, tile) of
        None \<Rightarrow> derive_loop producers i tiles (code, shadow, deps)
      | Some p \<Rightarrow>
          (case flow_probe shadow 0 (dependencyFlowId (ni_blockId i) p (ni_sequenceId i) tile) of
             None \<Rightarrow> (''npu_dependency_flow_id_exhausted'', shadow, deps)
           | Some flow \<Rightarrow>
               if code \<noteq> [] then (code, shadow, deps)
               else derive_loop producers i tiles (code, set_insert flow shadow,
                 deps @ [\<lparr>nx_producerSequenceId = p, nx_tileIdentity = tile, nx_flowId = flow\<rparr>])))"

record 'd dispatch_state =
  ds_code :: string
  ds_remaining :: "npu_engine \<Rightarrow> nat"
  ds_shadowFlowIds :: "u64 list"
  ds_dispatchBlocked :: bool
  ds_accepted :: "'d issue_entry list"
  ds_rejected :: "u64 list"

definition dispatch_one ::
  "((u64 \<times> string) \<times> u64) list \<Rightarrow> 'd npu_instruction \<times> object_id \<Rightarrow> 'd dispatch_state \<Rightarrow> 'd dispatch_state" where
  "dispatch_one producers p st =
     (let i = fst p; e = ni_engine i;
          refused = st\<lparr>ds_rejected := ds_rejected st @ [ni_sequenceId i], ds_dispatchBlocked := True\<rparr>
      in if ds_dispatchBlocked st \<or> ds_remaining st e = 0 then refused
         else case derive_loop producers i (ni_inputTiles i) (ds_code st, ds_shadowFlowIds st, []) of
           (code, shadow, deps) \<Rightarrow>
             if code \<noteq> [] then refused\<lparr>ds_code := code, ds_shadowFlowIds := shadow\<rparr>
             else st\<lparr>ds_code := code, ds_shadowFlowIds := shadow,
                     ds_remaining := (ds_remaining st)(e := ds_remaining st e - 1),
                     ds_accepted := ds_accepted st @
                       [\<lparr>ie_instruction = i, ie_stableObjectId = snd p, ie_derivedDependencies = deps\<rparr>]\<rparr>)"

definition queue_remaining :: "('d, 'z) dependency_tracker_scheme \<Rightarrow> npu_engine \<Rightarrow> nat" where
  "queue_remaining t e =
     (let released = (if dt_issueProposals t e \<noteq> None then 1 else 0);
          occupied = length (dt_queues t e) - released
      in if engine_capacity (dt_capacities t) e > occupied
         then engine_capacity (dt_capacities t) e - occupied else 0)"

text \<open>The state after the dispatch loop, before the observations.\<close>

definition tracker_decide :: "('d, 'z) dependency_tracker_scheme \<Rightarrow> ('d, 'z) dependency_tracker_scheme" where
  "tracker_decide t =
     (let proposals = sort_key dispatch_key (dt_dispatchProposals t);
          st = fold (dispatch_one (dt_producers t)) proposals
                 \<lparr>ds_code = so_runtimeFailureCode t, ds_remaining = queue_remaining t,
                  ds_shadowFlowIds = dt_usedFlowIds t, ds_dispatchBlocked = False,
                  ds_accepted = dt_acceptedDispatches t, ds_rejected = dt_proposedRejectedDispatches t\<rparr>
      in t\<lparr>so_runtimeFailureCode := ds_code st, dt_dispatchProposals := proposals,
           dt_acceptedDispatches := ds_accepted st, dt_proposedRejectedDispatches := ds_rejected st\<rparr>)"

definition instruction_arguments :: "'d issue_entry \<Rightarrow> observation_argument list" where
  "instruction_arguments x = [(''engine'', OString (engine_name (entry_engine x))),
     (''stable_object_id'', OUInt (ucast (ie_stableObjectId x)))]"

definition entry_observations :: "string \<Rightarrow> trace_event_phase \<Rightarrow> 'd issue_entry \<Rightarrow> event_proposal list" where
  "entry_observations nm phase x =
     (observation ''instruction'' nm Instant)
       \<lparr>op_rootSequenceId := Some (entry_sequence x), op_arguments := instruction_arguments x\<rparr> #
     map (\<lambda>d. (observation ''dependency'' ''tile'' phase)
            \<lparr>op_rootSequenceId := Some (entry_sequence x), op_flowId := Some (nx_flowId d),
             op_arguments := [(''producer_sequence_id'', OUInt (nx_producerSequenceId d)),
               (''tile_identity'', OString (nx_tileIdentity d))]\<rparr>)
       (ie_derivedDependencies x)"

definition proposed_issues :: "('d, 'z) dependency_tracker_scheme \<Rightarrow> 'd issue_entry list" where
  "proposed_issues t = List.map_filter (dt_issueProposals t) engines"

definition wakeup_observations :: "('d, 'z) dependency_tracker_scheme \<Rightarrow> event_proposal list" where
  "wakeup_observations t = concat (map (\<lambda>producer.
     map (\<lambda>x. (observation ''dependency'' ''ready'' Instant)
            \<lparr>op_rootSequenceId := Some (entry_sequence x),
             op_arguments := [(''producer_sequence_id'', OUInt producer)]\<rparr>)
       (filter (\<lambda>x. list_ex (\<lambda>d. nx_producerSequenceId d = producer) (ie_derivedDependencies x))
          (queued_entries t))) (dt_completionProposals t))"

definition tracker_observations :: "('d, 'z) dependency_tracker_scheme \<Rightarrow> event_proposal list" where
  "tracker_observations t =
     concat (map (entry_observations ''dispatch'' FlowStart) (dt_acceptedDispatches t)) @
     map (\<lambda>q. (observation ''stall'' ''issue_queue_capacity'' Instant)\<lparr>op_rootSequenceId := Some q\<rparr>)
       (dt_proposedRejectedDispatches t) @
     concat (map (entry_observations ''issue'' FlowEnd) (sort_key issue_key (proposed_issues t))) @
     wakeup_observations t"

definition tracker_doArbitrate ::
  "'s sim_api \<Rightarrow> ('d, 'z) dependency_tracker_scheme \<Rightarrow> 's \<Rightarrow> ('d, 'z) dependency_tracker_scheme \<times> 's" where
  "tracker_doArbitrate api t s =
     (let t1 = tracker_decide t;
          t2 = t1\<lparr>dt_completionProposals := sort (dt_completionProposals t1)\<rparr>
      in emitObservations api (tracker_observations t2) t2 s)"

section \<open>Commit\<close>

definition tracker_hasPendingCommit :: "('d, 'z) dependency_tracker_scheme \<Rightarrow> bool" where
  "tracker_hasPendingCommit t \<longleftrightarrow> dt_dispatchProposals t \<noteq> [] \<or> dt_acceptedDispatches t \<noteq> [] \<or>
     dt_proposedRejectedDispatches t \<noteq> [] \<or> list_ex (\<lambda>e. dt_issueProposals t e \<noteq> None) engines \<or>
     dt_completionProposals t \<noteq> []"

definition stamp_dispatched :: "epoch \<Rightarrow> 'd issue_entry \<Rightarrow> 'd issue_entry" where
  "stamp_dispatched epoch x = x\<lparr>ie_instruction := (ie_instruction x)
     \<lparr>ni_timestamps := (ni_timestamps (ie_instruction x))\<lparr>nt_dispatched := Some (ep_time epoch)\<rparr>\<rparr>\<rparr>"

definition stamp_issued :: "epoch \<Rightarrow> 'd issue_entry \<Rightarrow> 'd issue_entry" where
  "stamp_issued epoch x = x\<lparr>ie_instruction := (ie_instruction x)
     \<lparr>ni_timestamps := (ni_timestamps (ie_instruction x))\<lparr>nt_issued := Some (ep_time epoch)\<rparr>\<rparr>\<rparr>"

text \<open>One accepted dispatch: its output tiles get a new producer, and it joins its queue.\<close>

definition commit_dispatch ::
  "epoch \<Rightarrow> 'd issue_entry \<Rightarrow> ('d, 'z) dependency_tracker_scheme \<Rightarrow> ('d, 'z) dependency_tracker_scheme" where
  "commit_dispatch epoch x t =
     (let i = ie_instruction x; e = ni_engine i in
      t\<lparr>dt_producers := fold (\<lambda>tile m. map_put (ni_blockId i, tile) (ni_sequenceId i) m)
          (ni_outputTiles i) (dt_producers t),
        dt_usedFlowIds := fold (\<lambda>d u. set_insert (nx_flowId d) u) (ie_derivedDependencies x) (dt_usedFlowIds t),
        dt_acceptedDispatchSequences := set_insert (ni_sequenceId i) (dt_acceptedDispatchSequences t),
        dt_lastDispatchedSequence := Some (ni_sequenceId i),
        dt_queues := (dt_queues t)(e := dt_queues t e @ [stamp_dispatched epoch x]),
        dt_totalDispatches := dt_totalDispatches t + 1\<rparr>)"

text \<open>One issue slot: the proposed entry leaves its queue and becomes outstanding.\<close>

definition commit_issue ::
  "epoch \<Rightarrow> npu_engine \<Rightarrow> ('d, 'z) dependency_tracker_scheme \<Rightarrow> ('d, 'z) dependency_tracker_scheme" where
  "commit_issue epoch e t =
     (case dt_issueProposals t e of
        None \<Rightarrow> t
      | Some p \<Rightarrow>
          (case List.extract (\<lambda>x. entry_sequence x = entry_sequence p \<and> ie_stableObjectId x = ie_stableObjectId p)
                  (dt_queues t e) of
             None \<Rightarrow> setRuntimeFailureCode ''npu_issue_entry_missing'' t
           | Some (before, x, after) \<Rightarrow>
               t\<lparr>dt_outstandingSequences := set_insert (entry_sequence x) (dt_outstandingSequences t),
                 dt_issued := dt_issued t @ [stamp_issued epoch x],
                 dt_queues := (dt_queues t)(e := before @ after),
                 dt_totalIssues := dt_totalIssues t + 1\<rparr>))"

definition dependent_count :: "u64 \<Rightarrow> 'd issue_entry list \<Rightarrow> nat" where
  "dependent_count q xs =
     sum_list (map (\<lambda>x. length (filter (\<lambda>d. nx_producerSequenceId d = q) (ie_derivedDependencies x))) xs)"

definition commit_completion ::
  "u64 \<Rightarrow> ('d, 'z) dependency_tracker_scheme \<Rightarrow> ('d, 'z) dependency_tracker_scheme" where
  "commit_completion q t =
     t\<lparr>dt_totalDependencyWakeups := dt_totalDependencyWakeups t + of_nat (dependent_count q (queued_entries t)),
       dt_completedSequences := set_insert q (dt_completedSequences t),
       dt_outstandingSequences := set_erase q (dt_outstandingSequences t)\<rparr>"

definition settle_queue ::
  "npu_engine \<Rightarrow> ('d, 'z) dependency_tracker_scheme \<Rightarrow> ('d, 'z) dependency_tracker_scheme" where
  "settle_queue e t =
     t\<lparr>dt_queues := (dt_queues t)(e := sort_key issue_key (dt_queues t e)),
       dt_highWatermarks := (dt_highWatermarks t)(e := max (dt_highWatermarks t e) (length (dt_queues t e)))\<rparr>"

definition clear_proposals :: "('d, 'z) dependency_tracker_scheme \<Rightarrow> ('d, 'z) dependency_tracker_scheme" where
  "clear_proposals t =
     t\<lparr>dt_dispatchProposals := [], dt_acceptedDispatches := [], dt_proposedRejectedDispatches := [],
       dt_issueProposals := (\<lambda>_. None), dt_completionProposals := []\<rparr>"

definition tracker_doXfer :: "epoch \<Rightarrow> ('d, 'z) dependency_tracker_scheme \<Rightarrow> ('d, 'z) dependency_tracker_scheme" where
  "tracker_doXfer epoch t =
     (let changed = tracker_hasPendingCommit t;
          t1 = t\<lparr>dt_issued := [], dt_acceptedDispatchSequences := [],
                 dt_rejectedDispatches := dt_proposedRejectedDispatches t\<rparr>;
          t2 = fold (commit_dispatch epoch) (dt_acceptedDispatches t1) t1;
          t3 = t2\<lparr>dt_totalDispatchStalls := dt_totalDispatchStalls t2 +
                   of_nat (length (dt_proposedRejectedDispatches t2))\<rparr>;
          t4 = fold (commit_issue epoch) engines t3;
          t5 = t4\<lparr>dt_issued := sort_key issue_key (dt_issued t4)\<rparr>;
          t6 = fold commit_completion (dt_completionProposals t5) t5;
          t7 = fold settle_queue engines t6;
          t8 = clear_proposals t7
      in if changed then t8\<lparr>dt_lastUpdate := epoch\<rparr> else t8)"

definition tracker_isRunnable :: "('d, 'z) dependency_tracker_scheme \<Rightarrow> bool" where
  "tracker_isRunnable t \<longleftrightarrow> dt_dispatchProposals t \<noteq> [] \<or> dt_completionProposals t \<noteq> []"

definition tracker_runtimeState :: "('d, 'z) dependency_tracker_scheme \<Rightarrow> runtime_object_state" where
  "tracker_runtimeState t =
     (let base = base_runtimeState (tracker_hasPendingCommit t) (tracker_isRunnable t);
          occupancy = length (queued_entries t);
          offers = length (dt_dispatchProposals t) + length (dt_completionProposals t);
          active = length (dt_outstandingSequences t);
          quiescent = (occupancy = 0 \<and> offers = 0 \<and> active = 0 \<and> \<not> tracker_hasPendingCommit t)
      in base\<lparr>ros_queueOccupancy := occupancy, ros_pendingOffers := offers, ros_activeReservations := active,
              ros_quiescent := quiescent,
              ros_reason := (if \<not> quiescent
                 then (if offers \<noteq> 0 then ''npu_pending_proposal''
                       else if occupancy \<noteq> 0 then ''npu_issue_queue_not_empty''
                       else ''npu_execution_outstanding'')
                 else ros_reason base)\<rparr>)"

definition tracker_collectStatistics :: "('d, 'z) dependency_tracker_scheme \<Rightarrow> stat_snapshot list" where
  "tracker_collectStatistics t =
     concat (map (\<lambda>e.
       [plain_snapshot (''issue_queue_occupancy_'' @ engine_name e) (so_path t) Gauge
          (of_nat (length (dt_queues t e))) (dt_lastUpdate t),
        plain_snapshot (''issue_queue_peak_'' @ engine_name e) (so_path t) Gauge
          (of_nat (dt_highWatermarks t e)) (dt_lastUpdate t)]) engines) @
     [plain_snapshot ''dispatch_stalls'' (so_path t) Counter (dt_totalDispatchStalls t) (dt_lastUpdate t),
      plain_snapshot ''dispatched_instructions'' (so_path t) Counter (dt_totalDispatches t) (dt_lastUpdate t),
      plain_snapshot ''issued_instructions'' (so_path t) Counter (dt_totalIssues t) (dt_lastUpdate t),
      plain_snapshot ''dependency_wakeups'' (so_path t) Counter (dt_totalDependencyWakeups t) (dt_lastUpdate t)]"

definition tracker_reset :: "('d, 'z) dependency_tracker_scheme \<Rightarrow> ('d, 'z) dependency_tracker_scheme" where
  "tracker_reset t = clearRuntimeFailureCode
     (t\<lparr>dt_queues := (\<lambda>_. []), dt_dispatchProposals := [], dt_acceptedDispatches := [],
        dt_proposedRejectedDispatches := [], dt_rejectedDispatches := [], dt_acceptedDispatchSequences := [],
        dt_issueProposals := (\<lambda>_. None), dt_issued := [], dt_completionProposals := [],
        dt_outstandingSequences := [], dt_completedSequences := [], dt_producers := [],
        dt_usedFlowIds := [], dt_lastDispatchedSequence := None, dt_highWatermarks := (\<lambda>_. 0),
        dt_totalDispatches := 0, dt_totalDispatchStalls := 0, dt_totalIssues := 0,
        dt_totalDependencyWakeups := 0, dt_lastUpdate := epoch0\<rparr>)"

section \<open>Queries\<close>

definition proposedIssue :: "npu_engine \<Rightarrow> ('d, 'z) dependency_tracker_scheme \<Rightarrow> 'd issue_entry option" where
  "proposedIssue e t = dt_issueProposals t e"

definition tracker_dependencies :: "u64 \<Rightarrow> ('d, 'z) dependency_tracker_scheme \<Rightarrow> npu_dependency list" where
  "tracker_dependencies q t =
     (case List.find (\<lambda>x. entry_sequence x = q) (queued_entries t) of
        None \<Rightarrow> [] | Some x \<Rightarrow> ie_derivedDependencies x)"

definition isReady :: "u64 \<Rightarrow> ('d, 'z) dependency_tracker_scheme \<Rightarrow> bool" where
  "isReady q t =
     (case List.find (\<lambda>x. entry_sequence x = q) (queued_entries t) of
        None \<Rightarrow> False | Some x \<Rightarrow> entry_ready t x)"

definition dispatchAccepted :: "u64 \<Rightarrow> ('d, 'z) dependency_tracker_scheme \<Rightarrow> bool" where
  "dispatchAccepted q t \<longleftrightarrow> q \<in> set (dt_acceptedDispatchSequences t)"

definition queueSize :: "npu_engine \<Rightarrow> ('d, 'z) dependency_tracker_scheme \<Rightarrow> nat" where
  "queueSize e t = length (dt_queues t e)"

section \<open>Rounds\<close>

text \<open>
  What one epoch does to the tracker: proposals, then arbitration, then the commit. The history of a
  run is the list of the entries it dispatched, as they were committed, oldest first.
\<close>

datatype 'd tracker_proposal = DispatchP "'d npu_instruction" object_id | IssueP npu_engine | CompleteP u64

fun tracker_propose :: "'d tracker_proposal \<Rightarrow> 'd dependency_tracker \<Rightarrow> 'd dependency_tracker" where
  "tracker_propose (DispatchP i stableId) t = snd (proposeDispatch i stableId t)"
| "tracker_propose (IssueP e) t = snd (proposeIssue e t)"
| "tracker_propose (CompleteP q) t = snd (proposeComplete q t)"

definition tracker_round ::
  "'s sim_api \<Rightarrow> 'd tracker_proposal list \<Rightarrow> epoch \<Rightarrow> 'd dependency_tracker \<times> 's \<Rightarrow> 'd dependency_tracker \<times> 's" where
  "tracker_round api ps epoch ts =
     (case tracker_doArbitrate api (fold tracker_propose ps (fst ts)) (snd ts) of
        (t, s) \<Rightarrow> (tracker_doXfer epoch t, s))"

definition round_dispatches ::
  "'s sim_api \<Rightarrow> 'd tracker_proposal list \<Rightarrow> epoch \<Rightarrow> 'd dependency_tracker \<times> 's \<Rightarrow> 'd issue_entry list" where
  "round_dispatches api ps epoch ts = map (stamp_dispatched epoch)
     (dt_acceptedDispatches (fst (tracker_doArbitrate api (fold tracker_propose ps (fst ts)) (snd ts))))"

inductive tracker_reaches ::
  "'s sim_api \<Rightarrow> issue_capacities \<Rightarrow> 'd dependency_tracker \<times> 's \<Rightarrow> 'd issue_entry list \<Rightarrow> bool"
  for api caps where
  start: "tracker_reaches api caps (newDependencyTracker nm i parent caps obs, s) []"
| round: "tracker_reaches api caps ts h \<Longrightarrow>
    tracker_reaches api caps (tracker_round api ps epoch ts) (h @ round_dispatches api ps epoch ts)"
| restart: "tracker_reaches api caps ts h \<Longrightarrow> tracker_reaches api caps (tracker_reset (fst ts), snd ts) []"

end
