(* ===== verification/Npu_Dependencies.thy ===== *)
theory Npu_Dependencies
  imports Npu_Tracker
begin

text \<open>
  Correctness of the dependency tracker: probing of flow identities, the dispatch loop against the
  reference notion of a true dependency, the commit field by field, the invariant of a reachable
  tracker together with the history of its dispatches, progress, and the properties with witnesses
  on a small concrete run.
\<close>

section \<open>Flow identities\<close>

definition flow_range :: "u64 set" where
  "flow_range = {1..kMaxPortableJsonInteger}"

lemma flow_range_iff: "f \<in> flow_range \<longleftrightarrow> 1 \<le> unat f \<and> unat f \<le> 9007199254740991"
  by (simp add: flow_range_def kMaxPortableJsonInteger_def word_le_nat_alt)

lemma dependencyFlowId_range: "dependencyFlowId b p c tile \<in> flow_range"
proof -
  have "unat (x mod 9007199254740991 + 1) = unat x mod 9007199254740991 + 1" for x :: u64
  proof -
    have "unat x mod 9007199254740991 < 9007199254740991" by simp
    then show ?thesis by (simp add: unat_word_ariths)
  qed
  then show ?thesis
    by (simp add: flow_range_iff dependencyFlowId_def kMaxPortableJsonInteger_def)
qed

lemma unat_next_flow: "f \<in> flow_range \<Longrightarrow> unat (next_flow f) = unat f mod 9007199254740991 + 1"
proof -
  assume f: "f \<in> flow_range"
  show ?thesis
  proof (cases "f = kMaxPortableJsonInteger")
    case True
    then show ?thesis by (simp add: next_flow_def kMaxPortableJsonInteger_def)
  next
    case False
    then have "unat f \<noteq> 9007199254740991"
      by (auto simp: kMaxPortableJsonInteger_def word_unat_eq_iff)
    with f have "unat f < 9007199254740991" by (simp add: flow_range_iff)
    with False show ?thesis by (simp add: next_flow_def unat_word_ariths)
  qed
qed

lemma next_flow_range: "f \<in> flow_range \<Longrightarrow> next_flow f \<in> flow_range"
  using unat_next_flow [of f] by (simp add: flow_range_iff Suc_le_eq)

lemma flow_probe_some:
  "flow_probe used n f = Some g \<Longrightarrow> g \<notin> set used \<and> (f \<in> flow_range \<longrightarrow> g \<in> flow_range)"
proof (induction used n f rule: flow_probe.induct)
  case (1 used n f)
  then show ?case
    by (subst (asm) (2) flow_probe.simps) (auto split: if_splits simp: next_flow_range)
qed

text \<open>The identities a failed probe has visited.\<close>

lemma flow_probe_none:
  "flow_probe used n f = None \<Longrightarrow> n \<le> length used \<Longrightarrow> k \<le> length used - n \<Longrightarrow> (next_flow ^^ k) f \<in> set used"
proof (induction used n f arbitrary: k rule: flow_probe.induct)
  case (1 used n f)
  from "1.prems"(1) have mem: "f \<in> set used"
    by (subst (asm) flow_probe.simps) (auto split: if_splits)
  show ?case
  proof (cases k)
    case (Suc j)
    with "1.prems" have "n < length used" by simp
    moreover have "flow_probe used (n + 1) (next_flow f) = None"
      using "1.prems"(1) mem \<open>n < length used\<close> by (subst (asm) flow_probe.simps) simp
    ultimately have "(next_flow ^^ j) (next_flow f) \<in> set used"
      using "1.IH" mem "1.prems"(3) Suc by simp
    then show ?thesis by (simp add: Suc funpow_swap1)
  qed (simp add: mem)
qed

lemma unat_funpow_next_flow:
  "f \<in> flow_range \<Longrightarrow> (next_flow ^^ k) f \<in> flow_range \<and>
     unat ((next_flow ^^ k) f) = (unat f - 1 + k) mod 9007199254740991 + 1"
proof (induction k)
  case 0
  then show ?case by (auto simp: flow_range_iff)
next
  case (Suc k)
  then show ?case
    using unat_next_flow [of "(next_flow ^^ k) f"] by (simp add: next_flow_range mod_Suc_eq)
qed

lemma flow_probe_exhausted:
  assumes "flow_probe used 0 f = None" and f: "f \<in> flow_range" and "distinct used"
  shows "flow_range \<subseteq> set used"
proof -
  define M :: nat where "M = 9007199254740991"
  have visited: "(next_flow ^^ k) f \<in> set used" if "k \<le> length used" for k
    using flow_probe_none [OF assms(1)] that by simp
  have val: "unat ((next_flow ^^ k) f) = (unat f - 1 + k) mod M + 1" for k
    using unat_funpow_next_flow [OF f, of k] by (simp add: M_def)
  have inj: "inj_on (\<lambda>k. (next_flow ^^ k) f) {..<M}"
  proof (rule linorder_inj_onI')
    fix i j assume "i \<in> {..<M}" "j \<in> {..<M}" "i < j"
    show "(next_flow ^^ i) f \<noteq> (next_flow ^^ j) f"
    proof
      assume "(next_flow ^^ i) f = (next_flow ^^ j) f"
      then have "(unat f - 1 + i) mod M = (unat f - 1 + j) mod M"
        using val [of i] val [of j] by simp
      then have "M dvd (unat f - 1 + j) - (unat f - 1 + i)"
        by (metis mod_eq_dvd_iff_nat add_le_cancel_left less_imp_le \<open>i < j\<close>)
      then have "M dvd j - i" using \<open>i < j\<close> by simp
      with \<open>i < j\<close> \<open>j \<in> {..<M}\<close> show False by (auto dest!: dvd_imp_le)
    qed
  qed
  have "M \<le> length used"
  proof (rule ccontr)
    assume "\<not> M \<le> length used"
    then have "Suc (length used) \<le> M" by simp
    then have "{..<Suc (length used)} \<subseteq> {..<M}" by auto
    with inj have "inj_on (\<lambda>k. (next_flow ^^ k) f) {..<Suc (length used)}"
      by (rule inj_on_subset)
    then have "card ((\<lambda>k. (next_flow ^^ k) f) ` {..<Suc (length used)}) = Suc (length used)"
      by (simp add: card_image)
    moreover have "(\<lambda>k. (next_flow ^^ k) f) ` {..<Suc (length used)} \<subseteq> set used"
      using visited by (auto simp: less_Suc_eq_le)
    ultimately have "Suc (length used) \<le> card (set used)"
      by (metis card_mono finite_set)
    with card_length [of used] show False by simp
  qed
  have "flow_range \<subseteq> (\<lambda>k. (next_flow ^^ k) f) ` {..<M}"
  proof
    fix g assume g: "g \<in> flow_range"
    define k where "k = (unat g + M - unat f) mod M"
    have bounds: "1 \<le> unat g" "unat g \<le> M" "1 \<le> unat f" "unat f \<le> M"
      using f g by (simp_all add: flow_range_iff M_def)
    have "(unat f - 1 + k) mod M = (unat f - 1 + (unat g + M - unat f)) mod M"
      unfolding k_def by (simp add: mod_add_right_eq)
    also have "unat f - 1 + (unat g + M - unat f) = unat g - 1 + M"
      using bounds by simp
    also have "(unat g - 1 + M) mod M = unat g - 1"
      using bounds by (simp only: mod_add_self2) simp
    finally have "(unat f - 1 + k) mod M = unat g - 1" .
    with val [of k] bounds have "unat ((next_flow ^^ k) f) = unat g" by simp
    then have "(next_flow ^^ k) f = g" by (simp add: word_unat_eq_iff)
    moreover have "k < M" unfolding k_def M_def by simp
    ultimately show "g \<in> (\<lambda>k. (next_flow ^^ k) f) ` {..<M}" by auto
  qed
  also have "\<dots> \<subseteq> set used"
    using visited \<open>M \<le> length used\<close> by auto
  finally show ?thesis .
qed

section \<open>Arbitration of dispatches\<close>

text \<open>
  The reference for renaming: for each input tile in order, the producer recorded for it, if any.
\<close>

definition true_dependencies ::
  "(u64 \<times> string \<Rightarrow> u64 option) \<Rightarrow> 'd npu_instruction \<Rightarrow> (u64 \<times> string) list" where
  "true_dependencies producer i =
     List.map_filter (\<lambda>tile. map_option (\<lambda>p. (p, tile)) (producer (ni_blockId i, tile))) (ni_inputTiles i)"

definition dependency_pairs :: "npu_dependency list \<Rightarrow> (u64 \<times> string) list" where
  "dependency_pairs ds = map (\<lambda>d. (nx_producerSequenceId d, nx_tileIdentity d)) ds"

definition entry_flows :: "'d issue_entry list \<Rightarrow> u64 list" where
  "entry_flows xs = concat (map (\<lambda>x. map nx_flowId (ie_derivedDependencies x)) xs)"

lemma entry_flows_simps [simp]:
  "entry_flows [] = []"
  "entry_flows (x # xs) = map nx_flowId (ie_derivedDependencies x) @ entry_flows xs"
  "entry_flows (xs @ ys) = entry_flows xs @ entry_flows ys"
  by (simp_all add: entry_flows_def)

lemma derive_loop_fails: "code \<noteq> [] \<Longrightarrow> fst (derive_loop producers i tiles (code, shadow, deps)) \<noteq> []"
  by (induction tiles arbitrary: shadow deps) (auto split: option.split)

lemma derive_loop_ok:
  assumes "derive_loop producers i tiles ([], shadow, deps) = ([], shadow', deps')"
  shows "\<exists>new. deps' = deps @ new \<and>
    dependency_pairs new = List.map_filter
      (\<lambda>tile. map_option (\<lambda>p. (p, tile)) (map_of producers (ni_blockId i, tile))) tiles \<and>
    set shadow' = set shadow \<union> set (map nx_flowId new) \<and> distinct (map nx_flowId new) \<and>
    set (map nx_flowId new) \<inter> set shadow = {} \<and> set (map nx_flowId new) \<subseteq> flow_range"
  using assms
proof (induction tiles arbitrary: shadow deps)
  case Nil
  then show ?case by (simp add: dependency_pairs_def)
next
  case (Cons tile tiles)
  show ?case
  proof (cases "map_of producers (ni_blockId i, tile)")
    case None
    with Cons show ?thesis by (simp add: List.map_filter_simps)
  next
    case (Some p)
    let ?f = "dependencyFlowId (ni_blockId i) p (ni_sequenceId i) tile"
    obtain flow where flow: "flow_probe shadow 0 ?f = Some flow"
      using Cons.prems Some by (auto split: option.splits)
    let ?d = "\<lparr>nx_producerSequenceId = p, nx_tileIdentity = tile, nx_flowId = flow\<rparr>"
    have fresh: "flow \<notin> set shadow" "flow \<in> flow_range"
      using flow_probe_some [OF flow] dependencyFlowId_range by blast+
    have "derive_loop producers i tiles ([], set_insert flow shadow, deps @ [?d]) = ([], shadow', deps')"
      using Cons.prems Some flow by simp
    from Cons.IH [OF this] obtain new where new: "deps' = (deps @ [?d]) @ new"
      "dependency_pairs new = List.map_filter
         (\<lambda>tile. map_option (\<lambda>p. (p, tile)) (map_of producers (ni_blockId i, tile))) tiles"
      "set shadow' = set (set_insert flow shadow) \<union> set (map nx_flowId new)" "distinct (map nx_flowId new)"
      "set (map nx_flowId new) \<inter> set (set_insert flow shadow) = {}" "set (map nx_flowId new) \<subseteq> flow_range"
      by blast
    show ?thesis
      by (rule exI [of _ "?d # new"])
        (use new fresh Some in \<open>auto simp: dependency_pairs_def List.map_filter_simps\<close>)
  qed
qed

definition entry_request :: "'d issue_entry \<Rightarrow> 'd npu_instruction \<times> object_id" where
  "entry_request x = (ie_instruction x, ie_stableObjectId x)"

definition engine_count :: "npu_engine \<Rightarrow> 'd issue_entry list \<Rightarrow> nat" where
  "engine_count e xs = length (filter (\<lambda>x. entry_engine x = e) xs)"

lemma dispatch_blocked:
  "ds_dispatchBlocked st \<Longrightarrow> fold (dispatch_one producers) ps st =
     st\<lparr>ds_rejected := ds_rejected st @ map (\<lambda>p. ni_sequenceId (fst p)) ps\<rparr>"
  by (induction ps arbitrary: st) (simp_all add: dispatch_one_def Let_def)

text \<open>
  What the dispatch loop does with sorted proposals: it accepts a prefix, and the rest is rejected.
\<close>

definition dispatch_outcome ::
  "((u64 \<times> string) \<times> u64) list \<Rightarrow> ('d npu_instruction \<times> object_id) list \<Rightarrow> 'd dispatch_state
   \<Rightarrow> 'd dispatch_state \<Rightarrow> 'd issue_entry list \<Rightarrow> bool" where
  "dispatch_outcome producers ps st st' new \<longleftrightarrow>
     ds_accepted st' = ds_accepted st @ new \<and> length new \<le> length ps \<and>
     map entry_request new = take (length new) ps \<and>
     ds_rejected st' = ds_rejected st @ map (\<lambda>p. ni_sequenceId (fst p)) (drop (length new) ps) \<and>
     (\<forall>x \<in> set new. dependency_pairs (ie_derivedDependencies x) =
        true_dependencies (map_of producers) (ie_instruction x)) \<and>
     (\<forall>e. engine_count e new \<le> ds_remaining st e) \<and>
     distinct (entry_flows new) \<and> set (entry_flows new) \<inter> set (ds_shadowFlowIds st) = {} \<and>
     set (entry_flows new) \<subseteq> flow_range \<and>
     (length new < length ps \<and> ds_code st' = [] \<longrightarrow>
        (let e = ni_engine (fst (ps ! length new)) in engine_count e new = ds_remaining st e))"

lemma dispatch_outcome_fold:
  assumes "\<not> ds_dispatchBlocked st"
  shows "\<exists>new. dispatch_outcome producers ps st (fold (dispatch_one producers) ps st) new"
  using assms
proof (induction ps arbitrary: st)
  case Nil
  show ?case by (rule exI [of _ "[]"]) (simp add: dispatch_outcome_def engine_count_def)
next
  case (Cons p ps)
  let ?i = "fst p"
  obtain code shadow deps where d:
    "derive_loop producers ?i (ni_inputTiles ?i) (ds_code st, ds_shadowFlowIds st, []) = (code, shadow, deps)"
    by (metis prod_cases3)
  show ?case
  proof (cases "ds_remaining st (ni_engine ?i) = 0 \<or> code \<noteq> []")
    case True
    let ?st = "dispatch_one producers p st"
    have "ds_dispatchBlocked ?st" "ds_rejected ?st = ds_rejected st @ [ni_sequenceId ?i]"
      "ds_accepted ?st = ds_accepted st" "ds_remaining st (ni_engine ?i) = 0 \<or> ds_code ?st \<noteq> []"
      using True Cons.prems by (auto simp: dispatch_one_def Let_def d)
    then show ?thesis
      by (intro exI [of _ "[]"]) (auto simp: dispatch_outcome_def dispatch_blocked engine_count_def)
  next
    case False
    let ?x = "\<lparr>ie_instruction = ?i, ie_stableObjectId = snd p, ie_derivedDependencies = deps\<rparr>"
    let ?e = "ni_engine ?i"
    have code: "ds_code st = []"
      using derive_loop_fails [of "ds_code st" producers ?i "ni_inputTiles ?i" "ds_shadowFlowIds st" "[]"] False d
      by auto
    define st1 where "st1 = dispatch_one producers p st"
    have st1: "ds_accepted st1 = ds_accepted st @ [?x]" "ds_rejected st1 = ds_rejected st"
      "ds_remaining st1 = (ds_remaining st)(?e := ds_remaining st ?e - 1)" "ds_shadowFlowIds st1 = shadow"
      "\<not> ds_dispatchBlocked st1"
      using False Cons.prems by (simp_all add: st1_def dispatch_one_def Let_def d)
    from derive_loop_ok [of producers ?i "ni_inputTiles ?i" "ds_shadowFlowIds st" "[]" shadow deps] d False code
    have deps: "dependency_pairs deps = true_dependencies (map_of producers) ?i"
      "set shadow = set (ds_shadowFlowIds st) \<union> set (map nx_flowId deps)" "distinct (map nx_flowId deps)"
      "set (map nx_flowId deps) \<inter> set (ds_shadowFlowIds st) = {}" "set (map nx_flowId deps) \<subseteq> flow_range"
      by (auto simp: true_dependencies_def)
    from Cons.IH [OF st1(5)] obtain new where
      new: "dispatch_outcome producers ps st1 (fold (dispatch_one producers) ps st1) new" by blast
    define st' where "st' = fold (dispatch_one producers) ps st1"
    have count: "engine_count e (?x # new) \<le> ds_remaining st e" for e
      using new False st1(3) unfolding dispatch_outcome_def
      by (elim conjE allE [of _ e]) (auto simp: engine_count_def)
    have full: "engine_count e (?x # new) = ds_remaining st e" if "engine_count e new = ds_remaining st1 e" for e
      using that False st1(3) by (auto simp: engine_count_def)
    have "dispatch_outcome producers (p # ps) st st' (?x # new)"
      unfolding dispatch_outcome_def
    proof (intro conjI)
      show "ds_accepted st' = ds_accepted st @ ?x # new"
        using new st1 by (simp add: dispatch_outcome_def st'_def)
      show "\<forall>e. engine_count e (?x # new) \<le> ds_remaining st e" using count by blast
      show "length (?x # new) < length (p # ps) \<and> ds_code st' = [] \<longrightarrow>
        (let e = ni_engine (fst ((p # ps) ! length (?x # new))) in engine_count e (?x # new) = ds_remaining st e)"
        using new full by (auto simp: dispatch_outcome_def st'_def Let_def)
    qed (use new st1 deps in \<open>auto simp: dispatch_outcome_def st'_def entry_request_def Let_def\<close>)
    then show ?thesis
      by (intro exI [of _ "?x # new"]) (simp add: st'_def st1_def)
  qed
qed

section \<open>The commit, field by field\<close>

definition writes_tile :: "u64 \<times> string \<Rightarrow> 'd issue_entry \<Rightarrow> bool" where
  "writes_tile k x \<longleftrightarrow> ni_blockId (ie_instruction x) = fst k \<and> snd k \<in> set (ni_outputTiles (ie_instruction x))"

definition latest_producer :: "'d issue_entry list \<Rightarrow> u64 \<times> string \<Rightarrow> u64 option" where
  "latest_producer h k = map_option entry_sequence (List.find (writes_tile k) (rev h))"

lemma latest_producer_simps [simp]:
  "latest_producer [] k = None"
  "latest_producer (h @ [x]) k = (if writes_tile k x then Some (entry_sequence x) else latest_producer h k)"
  by (simp_all add: latest_producer_def)

lemma latest_producer_member:
  "latest_producer h k = Some q \<Longrightarrow> \<exists>x \<in> set h. entry_sequence x = q \<and> writes_tile k x"
  by (induction h rule: rev_induct) (auto split: if_splits)

lemma stamp_simps [simp]:
  "entry_sequence (stamp_dispatched epoch x) = entry_sequence x"
  "entry_engine (stamp_dispatched epoch x) = entry_engine x"
  "ie_derivedDependencies (stamp_dispatched epoch x) = ie_derivedDependencies x"
  "ie_stableObjectId (stamp_dispatched epoch x) = ie_stableObjectId x"
  "writes_tile k (stamp_dispatched epoch x) = writes_tile k x"
  "true_dependencies m (ie_instruction (stamp_dispatched epoch x)) = true_dependencies m (ie_instruction x)"
  "entry_sequence (stamp_issued epoch x) = entry_sequence x"
  "entry_engine (stamp_issued epoch x) = entry_engine x"
  "ie_derivedDependencies (stamp_issued epoch x) = ie_derivedDependencies x"
  "ie_stableObjectId (stamp_issued epoch x) = ie_stableObjectId x"
  by (simp_all add: stamp_dispatched_def stamp_issued_def writes_tile_def true_dependencies_def)

definition put_outputs :: "'d issue_entry \<Rightarrow> ((u64 \<times> string) \<times> u64) list \<Rightarrow> ((u64 \<times> string) \<times> u64) list" where
  "put_outputs x m = fold (\<lambda>tile m. map_put (ni_blockId (ie_instruction x), tile) (entry_sequence x) m)
     (ni_outputTiles (ie_instruction x)) m"

lemma ordered_fold_put [simp]: "ordered m \<Longrightarrow> ordered (fold (\<lambda>tile m. map_put (f tile) v m) ts m)"
  by (induction ts arbitrary: m) simp_all

lemma map_of_fold_put:
  "ordered m \<Longrightarrow> map_of (fold (\<lambda>tile m. map_put (f tile) v m) ts m) k =
     (if k \<in> f ` set ts then Some v else map_of m k)"
  by (induction ts arbitrary: m) (auto simp: map_of_map_put)

lemma put_outputs_ordered [simp]: "ordered m \<Longrightarrow> ordered (put_outputs x m)"
  by (simp add: put_outputs_def)

lemma put_outputs_lookup:
  "ordered m \<Longrightarrow> map_of (put_outputs x m) k = (if writes_tile k x then Some (entry_sequence x) else map_of m k)"
  by (cases k) (auto simp: put_outputs_def map_of_fold_put writes_tile_def)

lemma producers_latest:
  assumes "ordered m" and "map_of m = latest_producer h"
  shows "ordered (fold put_outputs xs m) \<and>
    map_of (fold put_outputs xs m) = latest_producer (h @ map (stamp_dispatched epoch) xs)"
  using assms
proof (induction xs arbitrary: m h)
  case (Cons x xs)
  have "map_of (put_outputs x m) = latest_producer (h @ [stamp_dispatched epoch x])"
    using Cons.prems by (auto simp: put_outputs_lookup fun_eq_iff)
  with Cons.IH [of "put_outputs x m" "h @ [stamp_dispatched epoch x]"] Cons.prems
  show ?case by simp
qed simp_all

lemma commit_dispatches:
  "fold (commit_dispatch epoch) xs t =
     t\<lparr>dt_producers := fold put_outputs xs (dt_producers t),
       dt_usedFlowIds := fold set_insert (entry_flows xs) (dt_usedFlowIds t),
       dt_acceptedDispatchSequences := fold set_insert (map entry_sequence xs) (dt_acceptedDispatchSequences t),
       dt_lastDispatchedSequence :=
         (if xs = [] then dt_lastDispatchedSequence t else Some (entry_sequence (List.last xs))),
       dt_queues := (\<lambda>e. dt_queues t e @ map (stamp_dispatched epoch) (filter (\<lambda>x. entry_engine x = e) xs)),
       dt_totalDispatches := dt_totalDispatches t + of_nat (length xs)\<rparr>"
proof (induction xs arbitrary: t)
  case (Cons x xs)
  have flows: "fold (\<lambda>d u. set_insert (nx_flowId d) u) ds u = fold set_insert (map nx_flowId ds) u" for ds u
    by (induction ds arbitrary: u) simp_all
  define t1 where "t1 = commit_dispatch epoch x t"
  have t1: "t1 = t\<lparr>dt_producers := put_outputs x (dt_producers t),
      dt_usedFlowIds := fold set_insert (map nx_flowId (ie_derivedDependencies x)) (dt_usedFlowIds t),
      dt_acceptedDispatchSequences := set_insert (entry_sequence x) (dt_acceptedDispatchSequences t),
      dt_lastDispatchedSequence := Some (entry_sequence x),
      dt_queues := (dt_queues t)(entry_engine x := dt_queues t (entry_engine x) @ [stamp_dispatched epoch x]),
      dt_totalDispatches := dt_totalDispatches t + 1\<rparr>"
    by (simp add: t1_def commit_dispatch_def Let_def put_outputs_def flows)
  have queues: "(\<lambda>e. dt_queues t1 e @ map (stamp_dispatched epoch) (filter (\<lambda>x. entry_engine x = e) xs)) =
      (\<lambda>e. dt_queues t e @ map (stamp_dispatched epoch) (filter (\<lambda>x. entry_engine x = e) (x # xs)))"
    by (auto simp: t1)
  have "fold (commit_dispatch epoch) (x # xs) t = fold (commit_dispatch epoch) xs t1"
    by (simp add: t1_def)
  also note Cons.IH [of t1, unfolded queues]
  finally show ?case
    by (simp add: t1)
qed simp

text \<open>The issue slots hold entries of their queues, whose sequences are distinct.\<close>

definition slots_ok :: "npu_engine list \<Rightarrow> ('d, 'z) dependency_tracker_scheme \<Rightarrow> bool" where
  "slots_ok es t \<longleftrightarrow> (\<forall>e \<in> set es. distinct (map entry_sequence (dt_queues t e)) \<and>
     (\<forall>x. dt_issueProposals t e = Some x \<longrightarrow> x \<in> set (dt_queues t e)))"

definition left_in_queue :: "('d, 'z) dependency_tracker_scheme \<Rightarrow> npu_engine \<Rightarrow> 'd issue_entry list" where
  "left_in_queue t e = (case dt_issueProposals t e of None \<Rightarrow> dt_queues t e
     | Some p \<Rightarrow> filter (\<lambda>x. entry_sequence x \<noteq> entry_sequence p) (dt_queues t e))"

lemma extract_distinct:
  assumes "distinct (map entry_sequence xs)" and "p \<in> set xs"
  shows "\<exists>before after. List.extract (\<lambda>x. entry_sequence x = entry_sequence p \<and>
      ie_stableObjectId x = ie_stableObjectId p) xs = Some (before, p, after) \<and>
    before @ after = filter (\<lambda>x. entry_sequence x \<noteq> entry_sequence p) xs"
proof -
  from split_list [OF assms(2)] obtain before after where xs: "xs = before @ p # after" by blast
  with assms(1) have other: "\<forall>x \<in> set before \<union> set after. entry_sequence x \<noteq> entry_sequence p"
    by (auto simp: image_iff)
  have "List.extract (\<lambda>x. entry_sequence x = entry_sequence p \<and> ie_stableObjectId x = ie_stableObjectId p) xs =
      Some (before, p, after)"
    unfolding extract_Some_iff using xs other by (auto simp: disjoint_iff)
  moreover have "before @ after = filter (\<lambda>x. entry_sequence x \<noteq> entry_sequence p) xs"
    using xs other by (auto simp: filter_id_conv)
  ultimately show ?thesis by blast
qed

lemma commit_issues:
  assumes "slots_ok es t" and "distinct es"
  shows "fold (commit_issue epoch) es t =
     t\<lparr>dt_outstandingSequences := fold set_insert
         (map entry_sequence (List.map_filter (dt_issueProposals t) es)) (dt_outstandingSequences t),
       dt_issued := dt_issued t @ map (stamp_issued epoch) (List.map_filter (dt_issueProposals t) es),
       dt_queues := (\<lambda>e. if e \<in> set es then left_in_queue t e else dt_queues t e),
       dt_totalIssues := dt_totalIssues t + of_nat (length (List.map_filter (dt_issueProposals t) es))\<rparr>"
  using assms
proof (induction es arbitrary: t)
  case Nil
  then show ?case by (simp add: List.map_filter_simps)
next
  case (Cons e es)
  define t1 where "t1 = commit_issue epoch e t"
  have t1: "t1 = t\<lparr>dt_outstandingSequences := fold set_insert
        (map entry_sequence (List.map_filter (dt_issueProposals t) [e])) (dt_outstandingSequences t),
      dt_issued := dt_issued t @ map (stamp_issued epoch) (List.map_filter (dt_issueProposals t) [e]),
      dt_queues := (dt_queues t)(e := left_in_queue t e),
      dt_totalIssues := dt_totalIssues t + of_nat (length (List.map_filter (dt_issueProposals t) [e]))\<rparr>"
  proof (cases "dt_issueProposals t e")
    case (Some p)
    have "p \<in> set (dt_queues t e)" "distinct (map entry_sequence (dt_queues t e))"
      using Cons.prems(1) Some by (auto simp: slots_ok_def)
    from extract_distinct [OF this(2,1)] obtain before after where
      ex: "List.extract (\<lambda>x. entry_sequence x = entry_sequence p \<and>
        ie_stableObjectId x = ie_stableObjectId p) (dt_queues t e) = Some (before, p, after)"
        "before @ after = filter (\<lambda>x. entry_sequence x \<noteq> entry_sequence p) (dt_queues t e)" by blast
    then show ?thesis
      by (simp add: t1_def commit_issue_def Some left_in_queue_def List.map_filter_simps)
  qed (simp add: t1_def commit_issue_def left_in_queue_def List.map_filter_simps)
  have fields: "dt_queues t1 = (dt_queues t)(e := left_in_queue t e)" "dt_issueProposals t1 = dt_issueProposals t"
    by (simp_all add: t1)
  have "slots_ok es t1"
    using Cons.prems by (auto simp: slots_ok_def fields)
  have left: "left_in_queue t1 e' = left_in_queue t e'" if "e' \<noteq> e" for e'
    using that by (simp add: left_in_queue_def fields split: option.split)
  have queues: "(\<lambda>e'. if e' \<in> set es then left_in_queue t1 e' else dt_queues t1 e') =
      (\<lambda>e'. if e' \<in> set (e # es) then left_in_queue t e' else dt_queues t e')"
    using Cons.prems(2) by (auto simp: fields fun_eq_iff intro!: left)
  have split: "List.map_filter (dt_issueProposals t) (e # es) =
      List.map_filter (dt_issueProposals t) [e] @ List.map_filter (dt_issueProposals t) es"
    by (simp add: List.map_filter_simps split: option.split)
  have "fold (commit_issue epoch) (e # es) t = fold (commit_issue epoch) es t1"
    by (simp add: t1_def)
  also note Cons.IH [OF \<open>slots_ok es t1\<close>, unfolded queues fields(2)]
  finally show ?case
    using Cons.prems(2) unfolding split by (simp add: t1)
qed

lemma commit_completions:
  "\<exists>w. fold commit_completion qs t = t\<lparr>dt_totalDependencyWakeups := w,
     dt_completedSequences := fold set_insert qs (dt_completedSequences t),
     dt_outstandingSequences := fold set_erase qs (dt_outstandingSequences t)\<rparr>"
proof (induction qs arbitrary: t)
  case Nil
  show ?case by (rule exI [of _ "dt_totalDependencyWakeups t"]) simp
next
  case (Cons q qs)
  define t1 where "t1 = commit_completion q t"
  from Cons.IH [of t1] obtain w where
    "fold commit_completion qs t1 = t1\<lparr>dt_totalDependencyWakeups := w,
     dt_completedSequences := fold set_insert qs (dt_completedSequences t1),
     dt_outstandingSequences := fold set_erase qs (dt_outstandingSequences t1)\<rparr>" by blast
  moreover have "dt_completedSequences t1 = set_insert q (dt_completedSequences t)"
    "dt_outstandingSequences t1 = set_erase q (dt_outstandingSequences t)"
    "t1\<lparr>dt_totalDependencyWakeups := w, dt_completedSequences := c, dt_outstandingSequences := u\<rparr> =
     t\<lparr>dt_totalDependencyWakeups := w, dt_completedSequences := c, dt_outstandingSequences := u\<rparr>" for c u
    by (simp_all add: t1_def commit_completion_def)
  ultimately show ?case by (intro exI [of _ w]) (simp add: t1_def [symmetric])
qed

lemma settle_queues:
  "distinct es \<Longrightarrow> fold settle_queue es t =
     t\<lparr>dt_queues := (\<lambda>e. if e \<in> set es then sort_key issue_key (dt_queues t e) else dt_queues t e),
       dt_highWatermarks := (\<lambda>e. if e \<in> set es then max (dt_highWatermarks t e) (length (dt_queues t e))
          else dt_highWatermarks t e)\<rparr>"
proof (induction es arbitrary: t)
  case (Cons e es)
  define t1 where "t1 = settle_queue e t"
  have fields: "dt_queues t1 = (dt_queues t)(e := sort_key issue_key (dt_queues t e))"
    "dt_highWatermarks t1 = (dt_highWatermarks t)(e := max (dt_highWatermarks t e) (length (dt_queues t e)))"
    by (simp_all add: t1_def settle_queue_def)
  have queues: "(\<lambda>e'. if e' \<in> set es then sort_key issue_key (dt_queues t1 e') else dt_queues t1 e') =
      (\<lambda>e'. if e' \<in> set (e # es) then sort_key issue_key (dt_queues t e') else dt_queues t e')"
    and marks: "(\<lambda>e'. if e' \<in> set es then max (dt_highWatermarks t1 e') (length (dt_queues t1 e')) else dt_highWatermarks t1 e') =
      (\<lambda>e'. if e' \<in> set (e # es) then max (dt_highWatermarks t e') (length (dt_queues t e')) else dt_highWatermarks t e')"
    using Cons.prems by (auto simp: fields fun_eq_iff)
  have "fold settle_queue (e # es) t = fold settle_queue es t1"
    by (simp add: t1_def)
  also have "\<dots> = t1\<lparr>dt_queues := (\<lambda>e'. if e' \<in> set (e # es) then sort_key issue_key (dt_queues t e') else dt_queues t e'),
      dt_highWatermarks := (\<lambda>e'. if e' \<in> set (e # es) then max (dt_highWatermarks t e') (length (dt_queues t e'))
        else dt_highWatermarks t e')\<rparr>"
    using Cons.IH [of t1] Cons.prems unfolding queues marks by simp
  also have "t1\<lparr>dt_queues := q, dt_highWatermarks := m\<rparr> = t\<lparr>dt_queues := q, dt_highWatermarks := m\<rparr>" for q m
    by (simp add: t1_def settle_queue_def)
  finally show ?case .
qed simp

lemma engines_all [simp]: "set engines = UNIV" "distinct engines"
proof -
  have "e \<in> set engines" for e by (cases e) (simp_all add: engines_def)
  then show "set engines = UNIV" by blast
qed (simp add: engines_def)

definition dispatched_queue :: "epoch \<Rightarrow> 'd dependency_tracker \<Rightarrow> npu_engine \<Rightarrow> 'd issue_entry list" where
  "dispatched_queue epoch t e =
     dt_queues t e @ map (stamp_dispatched epoch) (filter (\<lambda>x. entry_engine x = e) (dt_acceptedDispatches t))"

definition remaining_queue :: "epoch \<Rightarrow> 'd dependency_tracker \<Rightarrow> npu_engine \<Rightarrow> 'd issue_entry list" where
  "remaining_queue epoch t e = (case dt_issueProposals t e of None \<Rightarrow> dispatched_queue epoch t e
     | Some p \<Rightarrow> filter (\<lambda>x. entry_sequence x \<noteq> entry_sequence p) (dispatched_queue epoch t e))"

lemma tracker_doXfer_fields:
  assumes "\<forall>e. distinct (map entry_sequence (dispatched_queue epoch t e)) \<and>
      (\<forall>x. dt_issueProposals t e = Some x \<longrightarrow> x \<in> set (dt_queues t e))"
  shows "dt_queues (tracker_doXfer epoch t) = (\<lambda>e. sort_key issue_key (remaining_queue epoch t e))"
    and "dt_highWatermarks (tracker_doXfer epoch t) = (\<lambda>e. max (dt_highWatermarks t e) (length (remaining_queue epoch t e)))"
    and "dt_producers (tracker_doXfer epoch t) = fold put_outputs (dt_acceptedDispatches t) (dt_producers t)"
    and "dt_usedFlowIds (tracker_doXfer epoch t) = fold set_insert (entry_flows (dt_acceptedDispatches t)) (dt_usedFlowIds t)"
    and "dt_lastDispatchedSequence (tracker_doXfer epoch t) = (if dt_acceptedDispatches t = []
        then dt_lastDispatchedSequence t else Some (entry_sequence (List.last (dt_acceptedDispatches t))))"
    and "dt_outstandingSequences (tracker_doXfer epoch t) = fold set_erase (dt_completionProposals t)
        (fold set_insert (map entry_sequence (proposed_issues t)) (dt_outstandingSequences t))"
    and "dt_completedSequences (tracker_doXfer epoch t) = fold set_insert (dt_completionProposals t) (dt_completedSequences t)"
    and "dt_issued (tracker_doXfer epoch t) = sort_key issue_key (map (stamp_issued epoch) (proposed_issues t))"
    and "dt_totalDispatches (tracker_doXfer epoch t) = dt_totalDispatches t + of_nat (length (dt_acceptedDispatches t))"
    and "dt_totalIssues (tracker_doXfer epoch t) = dt_totalIssues t + of_nat (length (proposed_issues t))"
    and "dt_totalDispatchStalls (tracker_doXfer epoch t) = dt_totalDispatchStalls t + of_nat (length (dt_proposedRejectedDispatches t))"
    and "dt_rejectedDispatches (tracker_doXfer epoch t) = dt_proposedRejectedDispatches t"
    and "dt_acceptedDispatchSequences (tracker_doXfer epoch t) = fold set_insert (map entry_sequence (dt_acceptedDispatches t)) []"
    and "dt_dispatchProposals (tracker_doXfer epoch t) = []" "dt_acceptedDispatches (tracker_doXfer epoch t) = []"
    and "dt_proposedRejectedDispatches (tracker_doXfer epoch t) = []" "dt_completionProposals (tracker_doXfer epoch t) = []"
    and "dt_issueProposals (tracker_doXfer epoch t) = (\<lambda>_. None)"
    and "dt_capacities (tracker_doXfer epoch t) = dt_capacities t"
    and "so_runtimeFailureCode (tracker_doXfer epoch t) = so_runtimeFailureCode t"
    and "so_id (tracker_doXfer epoch t) = so_id t" "so_observationSink (tracker_doXfer epoch t) = so_observationSink t"
proof -
  define t1 where "t1 = t\<lparr>dt_issued := [], dt_acceptedDispatchSequences := [],
     dt_rejectedDispatches := dt_proposedRejectedDispatches t\<rparr>"
  define t2 where "t2 = fold (commit_dispatch epoch) (dt_acceptedDispatches t1) t1"
  have t2: "dt_totalDispatchStalls t2 = dt_totalDispatchStalls t"
    "dt_proposedRejectedDispatches t2 = dt_proposedRejectedDispatches t"
    by (simp_all add: t2_def t1_def commit_dispatches)
  define t3 where "t3 = t2
     \<lparr>dt_totalDispatchStalls := dt_totalDispatchStalls t + of_nat (length (dt_proposedRejectedDispatches t))\<rparr>"
  have t3: "dt_queues t3 = dispatched_queue epoch t" "dt_issueProposals t3 = dt_issueProposals t"
    by (auto simp: t3_def t2_def t1_def commit_dispatches dispatched_queue_def)
  have slots: "slots_ok engines t3"
    using assms by (auto simp: slots_ok_def t3 dispatched_queue_def)
  have left: "left_in_queue t3 = remaining_queue epoch t"
    by (auto simp: left_in_queue_def remaining_queue_def t3 fun_eq_iff split: option.split)
  define t4 where "t4 = fold (commit_issue epoch) engines t3"
  define t5 where "t5 = t4\<lparr>dt_issued := sort_key issue_key (dt_issued t4)\<rparr>"
  note t5 = t5_def [unfolded t4_def commit_issues [OF slots engines_all(2)] t3(2) proposed_issues_def [symmetric]]
  have comp: "dt_completionProposals t5 = dt_completionProposals t"
    by (simp add: t5 t3_def t2_def t1_def commit_dispatches)
  obtain w where t6: "fold commit_completion (dt_completionProposals t) t5 = t5\<lparr>dt_totalDependencyWakeups := w,
     dt_completedSequences := fold set_insert (dt_completionProposals t) (dt_completedSequences t5),
     dt_outstandingSequences := fold set_erase (dt_completionProposals t) (dt_outstandingSequences t5)\<rparr>"
    using commit_completions by blast
  have run: "tracker_doXfer epoch t = (let t8 = clear_proposals (fold settle_queue engines
      (fold commit_completion (dt_completionProposals t) t5))
     in if tracker_hasPendingCommit t then t8\<lparr>dt_lastUpdate := epoch\<rparr> else t8)"
    by (simp only: tracker_doXfer_def Let_def t1_def [symmetric] t2_def [symmetric] t2 t3_def [symmetric]
        t4_def [symmetric] t5_def [symmetric] comp)
  note facts = run [unfolded t6 settle_queues [OF engines_all(2)] Let_def clear_proposals_def]
  have t5q: "dt_queues t5 = remaining_queue epoch t" by (simp add: t5 left)
  have t3f: "dt_highWatermarks t3 = dt_highWatermarks t" "dt_capacities t3 = dt_capacities t"
    "dt_producers t3 = fold put_outputs (dt_acceptedDispatches t) (dt_producers t)"
    "dt_usedFlowIds t3 = fold set_insert (entry_flows (dt_acceptedDispatches t)) (dt_usedFlowIds t)"
    "dt_lastDispatchedSequence t3 = (if dt_acceptedDispatches t = []
        then dt_lastDispatchedSequence t else Some (entry_sequence (List.last (dt_acceptedDispatches t))))"
    "dt_outstandingSequences t3 = dt_outstandingSequences t" "dt_completedSequences t3 = dt_completedSequences t"
    "dt_issued t3 = []" "dt_totalIssues t3 = dt_totalIssues t"
    "dt_totalDispatches t3 = dt_totalDispatches t + of_nat (length (dt_acceptedDispatches t))"
    "dt_totalDispatchStalls t3 = dt_totalDispatchStalls t + of_nat (length (dt_proposedRejectedDispatches t))"
    "dt_rejectedDispatches t3 = dt_proposedRejectedDispatches t"
    "dt_acceptedDispatchSequences t3 = fold set_insert (map entry_sequence (dt_acceptedDispatches t)) []"
    "so_runtimeFailureCode t3 = so_runtimeFailureCode t" "so_id t3 = so_id t"
    "so_observationSink t3 = so_observationSink t"
    by (simp_all add: t3_def t2_def t1_def commit_dispatches)
  have t5f: "dt_highWatermarks t5 = dt_highWatermarks t3" "dt_capacities t5 = dt_capacities t3"
    "dt_producers t5 = dt_producers t3" "dt_usedFlowIds t5 = dt_usedFlowIds t3"
    "dt_lastDispatchedSequence t5 = dt_lastDispatchedSequence t3"
    "dt_outstandingSequences t5 = fold set_insert (map entry_sequence (proposed_issues t)) (dt_outstandingSequences t3)"
    "dt_completedSequences t5 = dt_completedSequences t3"
    "dt_issued t5 = sort_key issue_key (dt_issued t3 @ map (stamp_issued epoch) (proposed_issues t))"
    "dt_totalIssues t5 = dt_totalIssues t3 + of_nat (length (proposed_issues t))"
    "dt_totalDispatches t5 = dt_totalDispatches t3" "dt_totalDispatchStalls t5 = dt_totalDispatchStalls t3"
    "dt_rejectedDispatches t5 = dt_rejectedDispatches t3"
    "dt_acceptedDispatchSequences t5 = dt_acceptedDispatchSequences t3"
    "so_runtimeFailureCode t5 = so_runtimeFailureCode t3" "so_id t5 = so_id t3"
    "so_observationSink t5 = so_observationSink t3"
    unfolding t5 by simp_all
  show "dt_queues (tracker_doXfer epoch t) = (\<lambda>e. sort_key issue_key (remaining_queue epoch t e))"
    and "dt_highWatermarks (tracker_doXfer epoch t) = (\<lambda>e. max (dt_highWatermarks t e) (length (remaining_queue epoch t e)))"
    by (simp_all add: facts t5q t5f t3f)
  show "dt_producers (tracker_doXfer epoch t) = fold put_outputs (dt_acceptedDispatches t) (dt_producers t)"
    and "dt_usedFlowIds (tracker_doXfer epoch t) = fold set_insert (entry_flows (dt_acceptedDispatches t)) (dt_usedFlowIds t)"
    and "dt_lastDispatchedSequence (tracker_doXfer epoch t) = (if dt_acceptedDispatches t = []
        then dt_lastDispatchedSequence t else Some (entry_sequence (List.last (dt_acceptedDispatches t))))"
    and "dt_outstandingSequences (tracker_doXfer epoch t) = fold set_erase (dt_completionProposals t)
        (fold set_insert (map entry_sequence (proposed_issues t)) (dt_outstandingSequences t))"
    and "dt_completedSequences (tracker_doXfer epoch t) = fold set_insert (dt_completionProposals t) (dt_completedSequences t)"
    and "dt_issued (tracker_doXfer epoch t) = sort_key issue_key (map (stamp_issued epoch) (proposed_issues t))"
    and "dt_totalDispatches (tracker_doXfer epoch t) = dt_totalDispatches t + of_nat (length (dt_acceptedDispatches t))"
    and "dt_totalIssues (tracker_doXfer epoch t) = dt_totalIssues t + of_nat (length (proposed_issues t))"
    and "dt_totalDispatchStalls (tracker_doXfer epoch t) = dt_totalDispatchStalls t + of_nat (length (dt_proposedRejectedDispatches t))"
    and "dt_rejectedDispatches (tracker_doXfer epoch t) = dt_proposedRejectedDispatches t"
    and "dt_acceptedDispatchSequences (tracker_doXfer epoch t) = fold set_insert (map entry_sequence (dt_acceptedDispatches t)) []"
    and "dt_dispatchProposals (tracker_doXfer epoch t) = []" "dt_acceptedDispatches (tracker_doXfer epoch t) = []"
    and "dt_proposedRejectedDispatches (tracker_doXfer epoch t) = []" "dt_completionProposals (tracker_doXfer epoch t) = []"
    and "dt_issueProposals (tracker_doXfer epoch t) = (\<lambda>_. None)"
    and "dt_capacities (tracker_doXfer epoch t) = dt_capacities t"
    and "so_runtimeFailureCode (tracker_doXfer epoch t) = so_runtimeFailureCode t"
    and "so_id (tracker_doXfer epoch t) = so_id t" "so_observationSink (tracker_doXfer epoch t) = so_observationSink t"
    by (simp_all add: facts t5f t3f)
qed

section \<open>The invariant\<close>

definition queued_sequences :: "('d, 'z) dependency_tracker_scheme \<Rightarrow> u64 set" where
  "queued_sequences t = entry_sequence ` (\<Union>e. set (dt_queues t e))"

definition queues_ok :: "issue_capacities \<Rightarrow> ('d, 'z) dependency_tracker_scheme \<Rightarrow> 'd issue_entry list \<Rightarrow> bool" where
  "queues_ok caps t h \<longleftrightarrow> dt_capacities t = caps \<and>
     (\<forall>e. increasing (map entry_sequence (dt_queues t e)) \<and> length (dt_queues t e) \<le> engine_capacity caps e \<and>
        (\<forall>x \<in> set (dt_queues t e). x \<in> set h \<and> entry_engine x = e))"

definition ledger_ok :: "('d, 'z) dependency_tracker_scheme \<Rightarrow> 'd issue_entry list \<Rightarrow> bool" where
  "ledger_ok t h \<longleftrightarrow> increasing (map entry_sequence h) \<and>
     dt_lastDispatchedSequence t = (if h = [] then None else Some (entry_sequence (List.last h))) \<and>
     increasing (dt_outstandingSequences t) \<and> increasing (dt_completedSequences t) \<and>
     set (dt_outstandingSequences t) \<inter> set (dt_completedSequences t) = {} \<and>
     queued_sequences t \<inter> (set (dt_outstandingSequences t) \<union> set (dt_completedSequences t)) = {} \<and>
     entry_sequence ` set h = queued_sequences t \<union> set (dt_outstandingSequences t) \<union> set (dt_completedSequences t) \<and>
     dt_totalDispatches t = of_nat (length h) \<and>
     dt_totalIssues t = of_nat (length (dt_outstandingSequences t) + length (dt_completedSequences t))"

definition rename_ok :: "('d, 'z) dependency_tracker_scheme \<Rightarrow> 'd issue_entry list \<Rightarrow> bool" where
  "rename_ok t h \<longleftrightarrow> ordered (dt_producers t) \<and> map_of (dt_producers t) = latest_producer h \<and>
     (\<forall>x \<in> set h. \<forall>d \<in> set (ie_derivedDependencies x).
        nx_producerSequenceId d \<in> entry_sequence ` set h \<and> nx_producerSequenceId d < entry_sequence x)"

definition flows_ok :: "('d, 'z) dependency_tracker_scheme \<Rightarrow> 'd issue_entry list \<Rightarrow> bool" where
  "flows_ok t h \<longleftrightarrow> increasing (dt_usedFlowIds t) \<and> set (dt_usedFlowIds t) = set (entry_flows h) \<and>
     distinct (entry_flows h) \<and> set (entry_flows h) \<subseteq> flow_range"

definition proposals_ok :: "('d, 'z) dependency_tracker_scheme \<Rightarrow> 'd issue_entry list \<Rightarrow> bool" where
  "proposals_ok t h \<longleftrightarrow> dt_acceptedDispatches t = [] \<and> dt_proposedRejectedDispatches t = [] \<and>
     distinct (map (\<lambda>p. ni_sequenceId (fst p)) (dt_dispatchProposals t)) \<and>
     (\<forall>p \<in> set (dt_dispatchProposals t). \<forall>x \<in> set h. entry_sequence x < ni_sequenceId (fst p)) \<and>
     (\<forall>e x. dt_issueProposals t e = Some x \<longrightarrow> x \<in> set (dt_queues t e) \<and> entry_ready t x) \<and>
     distinct (dt_completionProposals t) \<and> set (dt_completionProposals t) \<subseteq> set (dt_outstandingSequences t)"

definition tracker_inv :: "issue_capacities \<Rightarrow> ('d, 'z) dependency_tracker_scheme \<Rightarrow> 'd issue_entry list \<Rightarrow> bool" where
  "tracker_inv caps t h \<longleftrightarrow> queues_ok caps t h \<and> ledger_ok t h \<and> rename_ok t h \<and> flows_ok t h \<and> proposals_ok t h"

lemmas tracker_parts = queues_ok_def ledger_ok_def rename_ok_def flows_ok_def queued_sequences_def

definition no_proposals :: "('d, 'z) dependency_tracker_scheme \<Rightarrow> bool" where
  "no_proposals t \<longleftrightarrow> dt_dispatchProposals t = [] \<and> dt_acceptedDispatches t = [] \<and>
     dt_proposedRejectedDispatches t = [] \<and> dt_issueProposals t = (\<lambda>_. None) \<and> dt_completionProposals t = []"

lemma no_proposals_ok: "no_proposals t \<Longrightarrow> proposals_ok t h"
  by (simp add: no_proposals_def proposals_ok_def)

subsection \<open>Proposals\<close>

lemma issue_candidate_fold:
  "fold (\<lambda>x candidate. if P x \<and> (case candidate of None \<Rightarrow> True | Some y \<Rightarrow> (k x :: 'k::linorder) < k y)
      then Some x else candidate) xs c = Some z \<Longrightarrow>
   ((z \<in> set xs \<and> P z) \<or> c = Some z) \<and> (\<forall>x \<in> set xs. P x \<longrightarrow> k z \<le> k x) \<and> (\<forall>y. c = Some y \<longrightarrow> k z \<le> k y)"
proof (induction xs arbitrary: c)
  case (Cons x xs)
  define c' where "c' = (if P x \<and> (case c of None \<Rightarrow> True | Some y \<Rightarrow> k x < k y) then Some x else c)"
  from Cons.prems have "fold (\<lambda>x candidate. if P x \<and> (case candidate of None \<Rightarrow> True | Some y \<Rightarrow> k x < k y)
      then Some x else candidate) xs c' = Some z" by (simp add: c'_def)
  from Cons.IH [OF this] show ?case
    by (cases c) (auto simp: c'_def split: if_splits)
qed simp

lemma issue_candidate_none:
  "fold (\<lambda>x candidate. if P x \<and> (case candidate of None \<Rightarrow> True | Some y \<Rightarrow> (k x :: 'k::linorder) < k y)
      then Some x else candidate) xs c = None \<longleftrightarrow> c = None \<and> (\<forall>x \<in> set xs. \<not> P x)"
  by (induction xs arbitrary: c) (auto split: option.split)

lemma issue_candidate_some:
  "issue_candidate t q = Some x \<Longrightarrow>
     x \<in> set q \<and> entry_ready t x \<and> (\<forall>y \<in> set q. entry_ready t y \<longrightarrow> issue_key x \<le> issue_key y)"
  using issue_candidate_fold [of "entry_ready t" issue_key q None x] by (auto simp: issue_candidate_def)

lemma issue_candidate_None: "issue_candidate t q = None \<longleftrightarrow> (\<forall>x \<in> set q. \<not> entry_ready t x)"
  using issue_candidate_none [of "entry_ready t" issue_key q None] by (simp add: issue_candidate_def)

lemma last_greatest:
  "increasing (map f h) \<Longrightarrow> h \<noteq> [] \<Longrightarrow> x \<in> set h \<Longrightarrow> f x \<le> f (List.last h)"
  by (induction h rule: rev_induct) (auto simp: sorted_wrt_append less_imp_le)

lemma proposals_ok_dispatch:
  assumes "ledger_ok t h" and "proposals_ok t h"
  shows "proposals_ok (snd (proposeDispatch i stableId t)) h"
proof (cases "fst (proposeDispatch i stableId t)")
  case True
  then have late: "case dt_lastDispatchedSequence t of None \<Rightarrow> True | Some q \<Rightarrow> q < ni_sequenceId i"
    and new: "\<not> knownSequence (ni_sequenceId i) t"
    and r: "snd (proposeDispatch i stableId t) = t\<lparr>dt_dispatchProposals := dt_dispatchProposals t @ [(i, stableId)]\<rparr>"
    by (auto simp: proposeDispatch_def split: if_splits option.splits)
  have "entry_sequence x < ni_sequenceId i" if "x \<in> set h" for x
  proof -
    have "h \<noteq> []" using that by auto
    with assms(1) late have "entry_sequence (List.last h) < ni_sequenceId i" by (simp add: ledger_ok_def)
    moreover have "entry_sequence x \<le> entry_sequence (List.last h)"
      using assms(1) \<open>h \<noteq> []\<close> that last_greatest [of entry_sequence h x] by (simp add: ledger_ok_def)
    ultimately show ?thesis by (rule le_less_trans [rotated])
  qed
  moreover have "ni_sequenceId i \<notin> (\<lambda>p. ni_sequenceId (fst p)) ` set (dt_dispatchProposals t)"
    using new by (auto simp: knownSequence_def list_ex_iff)
  ultimately show ?thesis
    using assms(2) by (auto simp: r proposals_ok_def entry_ready_def)
qed (use assms in \<open>auto simp: proposeDispatch_def split: if_splits\<close>)

lemma proposals_ok_issue:
  assumes "proposals_ok t h"
  shows "proposals_ok (snd (proposeIssue e t)) h"
proof (cases "dt_issueProposals t e = None \<and> issue_candidate t (dt_queues t e) \<noteq> None")
  case True
  then obtain x where x: "issue_candidate t (dt_queues t e) = Some x" by blast
  with True have "snd (proposeIssue e t) = t\<lparr>dt_issueProposals := (dt_issueProposals t)(e := Some x)\<rparr>"
    by (simp add: proposeIssue_def)
  with issue_candidate_some [OF x] assms show ?thesis
    by (simp add: proposals_ok_def entry_ready_def)
qed (use assms in \<open>auto simp: proposeIssue_def\<close>)

lemma proposals_ok_complete: "proposals_ok t h \<Longrightarrow> proposals_ok (snd (proposeComplete q t)) h"
  by (auto simp: proposeComplete_def proposals_ok_def entry_ready_def)

lemma parts_propose [simp]:
  "queues_ok caps (tracker_propose p t) h = queues_ok caps t h"
  "ledger_ok (tracker_propose p t) h = ledger_ok t h"
  "rename_ok (tracker_propose p t) h = rename_ok t h"
  "flows_ok (tracker_propose p t) h = flows_ok t h"
  by (cases p; simp add: tracker_parts proposeDispatch_def proposeIssue_def proposeComplete_def split: option.split)+

lemma tracker_inv_propose:
  assumes "tracker_inv caps t h"
  shows "tracker_inv caps (tracker_propose p t) h"
proof -
  have "proposals_ok (tracker_propose p t) h"
    using assms by (cases p)
      (simp_all add: tracker_inv_def proposals_ok_dispatch proposals_ok_issue proposals_ok_complete)
  then show ?thesis using assms by (simp add: tracker_inv_def)
qed

lemma tracker_inv_proposes: "tracker_inv caps t h \<Longrightarrow> tracker_inv caps (fold tracker_propose ps t) h"
  by (induction ps arbitrary: t) (simp_all add: tracker_inv_propose)

subsection \<open>Arbitration and commit\<close>

definition sorted_proposals :: "('d, 'z) dependency_tracker_scheme \<Rightarrow> ('d npu_instruction \<times> object_id) list" where
  "sorted_proposals t = sort_key dispatch_key (dt_dispatchProposals t)"

definition dispatch_start :: "('d, 'z) dependency_tracker_scheme \<Rightarrow> 'd dispatch_state" where
  "dispatch_start t = \<lparr>ds_code = so_runtimeFailureCode t, ds_remaining = queue_remaining t,
     ds_shadowFlowIds = dt_usedFlowIds t, ds_dispatchBlocked = False,
     ds_accepted = dt_acceptedDispatches t, ds_rejected = dt_proposedRejectedDispatches t\<rparr>"

definition dispatch_end :: "('d, 'z) dependency_tracker_scheme \<Rightarrow> 'd dispatch_state" where
  "dispatch_end t = fold (dispatch_one (dt_producers t)) (sorted_proposals t) (dispatch_start t)"

lemma tracker_arbitrate_object:
  "\<exists>code. fst (tracker_doArbitrate api t s) = t\<lparr>so_runtimeFailureCode := code,
     dt_dispatchProposals := sorted_proposals t, dt_acceptedDispatches := ds_accepted (dispatch_end t),
     dt_proposedRejectedDispatches := ds_rejected (dispatch_end t),
     dt_completionProposals := sort (dt_completionProposals t)\<rparr>"
proof -
  define t1 where "t1 = (tracker_decide t)\<lparr>dt_completionProposals := sort (dt_completionProposals (tracker_decide t))\<rparr>"
  have t1: "t1 = t\<lparr>so_runtimeFailureCode := ds_code (dispatch_end t),
     dt_dispatchProposals := sorted_proposals t, dt_acceptedDispatches := ds_accepted (dispatch_end t),
     dt_proposedRejectedDispatches := ds_rejected (dispatch_end t),
     dt_completionProposals := sort (dt_completionProposals t)\<rparr>"
    by (simp add: t1_def tracker_decide_def Let_def sorted_proposals_def [symmetric] dispatch_start_def [symmetric]
        dispatch_end_def [symmetric])
  have "fst (tracker_doArbitrate api t s) = t1 \<or>
      fst (tracker_doArbitrate api t s) = setRuntimeFailureCode ''observation_proposal_failed'' t1"
    using emitObservations_object [of api _ t1 s] by (simp add: tracker_doArbitrate_def Let_def t1_def [symmetric])
  then show ?thesis
  proof
    assume "fst (tracker_doArbitrate api t s) = t1"
    then show ?thesis unfolding t1 by (rule exI)
  next
    assume "fst (tracker_doArbitrate api t s) = setRuntimeFailureCode ''observation_proposal_failed'' t1"
    then show ?thesis unfolding t1 by (intro exI [of _ "''observation_proposal_failed''"]) (simp add: setRuntimeFailureCode_def)
  qed
qed

lemma sorted_proposals_increasing:
  assumes "proposals_ok t h"
  shows "increasing (map (\<lambda>p. ni_sequenceId (fst p)) (sorted_proposals t))"
    and "set (sorted_proposals t) = set (dt_dispatchProposals t)"
proof -
  have "sorted (map dispatch_key (sorted_proposals t))"
    by (simp add: sorted_proposals_def)
  then have "sorted_wrt (\<lambda>p q. ni_sequenceId (fst p) \<le> ni_sequenceId (fst q)) (sorted_proposals t)"
    unfolding sorted_map by (rule sorted_wrt_mono_rel [rotated]) (auto simp: dispatch_key_def)
  then have "sorted (map (\<lambda>p. ni_sequenceId (fst p)) (sorted_proposals t))"
    by (simp add: sorted_map)
  moreover have "mset (map (\<lambda>p. ni_sequenceId (fst p)) (sorted_proposals t)) =
      mset (map (\<lambda>p. ni_sequenceId (fst p)) (dt_dispatchProposals t))"
    by (simp add: sorted_proposals_def)
  then have "distinct (map (\<lambda>p. ni_sequenceId (fst p)) (sorted_proposals t))"
    using assms unfolding proposals_ok_def by (metis mset_eq_imp_distinct_iff)
  ultimately show "increasing (map (\<lambda>p. ni_sequenceId (fst p)) (sorted_proposals t))"
    by (simp add: strict_sorted_iff)
qed (simp add: sorted_proposals_def)

lemma accepted_increasing:
  assumes "proposals_ok t h" and "dispatch_outcome producers (sorted_proposals t) st st' new"
  shows "increasing (map entry_sequence new)" and "\<forall>x \<in> set new. \<forall>y \<in> set h. entry_sequence y < entry_sequence x"
proof -
  have req: "map entry_request new = take (length new) (sorted_proposals t)"
    using assms(2) by (simp add: dispatch_outcome_def)
  have "map entry_sequence new = map (\<lambda>p. ni_sequenceId (fst p)) (map entry_request new)"
    by (simp add: entry_request_def)
  also have "\<dots> = take (length new) (map (\<lambda>p. ni_sequenceId (fst p)) (sorted_proposals t))"
    by (simp add: req take_map)
  finally show "increasing (map entry_sequence new)"
    using sorted_proposals_increasing(1) [OF assms(1)] by (simp add: sorted_wrt_take)
  show "\<forall>x \<in> set new. \<forall>y \<in> set h. entry_sequence y < entry_sequence x"
  proof (intro ballI)
    fix x y assume "x \<in> set new" "y \<in> set h"
    then have "entry_request x \<in> set (sorted_proposals t)"
      by (metis req image_eqI list.set_map in_set_takeD)
    with sorted_proposals_increasing(2) [OF assms(1)] assms(1) \<open>y \<in> set h\<close>
    show "entry_sequence y < entry_sequence x"
      by (fastforce simp: proposals_ok_def entry_request_def)
  qed
qed

text \<open>
  The situation between arbitration and commit: \<open>t\<close> went into arbitration, \<open>a\<close> came out of it.
\<close>

definition commit_ready ::
  "issue_capacities \<Rightarrow> 'd dependency_tracker \<Rightarrow> 'd issue_entry list \<Rightarrow> 'd dependency_tracker \<Rightarrow> 'd issue_entry list \<Rightarrow> bool" where
  "commit_ready caps t h a new \<longleftrightarrow> tracker_inv caps t h \<and>
     (\<exists>code. a = t\<lparr>so_runtimeFailureCode := code, dt_dispatchProposals := sorted_proposals t,
       dt_acceptedDispatches := new, dt_proposedRejectedDispatches := ds_rejected (dispatch_end t),
       dt_completionProposals := sort (dt_completionProposals t)\<rparr>) \<and>
     dispatch_outcome (dt_producers t) (sorted_proposals t) (dispatch_start t) (dispatch_end t) new"

lemma arbitrate_commit_ready:
  assumes "tracker_inv caps t h"
  shows "commit_ready caps t h (fst (tracker_doArbitrate api t s)) (dt_acceptedDispatches (fst (tracker_doArbitrate api t s)))"
proof -
  obtain code where run: "fst (tracker_doArbitrate api t s) = t\<lparr>so_runtimeFailureCode := code,
     dt_dispatchProposals := sorted_proposals t, dt_acceptedDispatches := ds_accepted (dispatch_end t),
     dt_proposedRejectedDispatches := ds_rejected (dispatch_end t),
     dt_completionProposals := sort (dt_completionProposals t)\<rparr>"
    using tracker_arbitrate_object [of api t s] by (elim exE) (rule that)
  have "\<not> ds_dispatchBlocked (dispatch_start t)" by (simp add: dispatch_start_def)
  from dispatch_outcome_fold [OF this] obtain new where
    new: "dispatch_outcome (dt_producers t) (sorted_proposals t) (dispatch_start t) (dispatch_end t) new"
    unfolding dispatch_end_def by blast
  moreover have "dt_acceptedDispatches t = []"
    using assms by (simp add: tracker_inv_def proposals_ok_def)
  ultimately have "ds_accepted (dispatch_end t) = new"
    by (simp add: dispatch_outcome_def dispatch_start_def)
  with new run assms show ?thesis
    unfolding commit_ready_def by auto
qed

lemma commit_ready_parts:
  assumes "commit_ready caps t h a new"
  shows "queues_ok caps t h" "ledger_ok t h" "rename_ok t h" "flows_ok t h" "proposals_ok t h"
    and "dispatch_outcome (dt_producers t) (sorted_proposals t) (dispatch_start t) (dispatch_end t) new"
  using assms by (simp_all add: commit_ready_def tracker_inv_def)

lemma commit_ready_frame:
  assumes "commit_ready caps t h a new"
  shows "dt_queues a = dt_queues t" "dt_issueProposals a = dt_issueProposals t" "dt_acceptedDispatches a = new"
    "dt_producers a = dt_producers t" "dt_usedFlowIds a = dt_usedFlowIds t"
    "dt_lastDispatchedSequence a = dt_lastDispatchedSequence t"
    "dt_outstandingSequences a = dt_outstandingSequences t" "dt_completedSequences a = dt_completedSequences t"
    "dt_totalDispatches a = dt_totalDispatches t" "dt_totalIssues a = dt_totalIssues t"
    "dt_completionProposals a = sort (dt_completionProposals t)" "dt_capacities a = dt_capacities t"
    "dt_proposedRejectedDispatches a = ds_rejected (dispatch_end t)" "proposed_issues a = proposed_issues t"
  using assms by (auto simp: commit_ready_def proposed_issues_def)


lemma new_increasing:
  assumes "commit_ready caps t h a new"
  shows "increasing (map entry_sequence new)"
    and "\<And>x y. x \<in> set new \<Longrightarrow> y \<in> set h \<Longrightarrow> entry_sequence y < entry_sequence x"
  using accepted_increasing [OF commit_ready_parts(5) [OF assms] commit_ready_parts(6) [OF assms]] by blast+

lemma queued_in_history:
  "commit_ready caps t h a new \<Longrightarrow> x \<in> set (dt_queues t e) \<Longrightarrow> x \<in> set h \<and> entry_engine x = e"
  using commit_ready_parts(1) [of caps t h a new] by (simp add: queues_ok_def)

lemma dispatched_increasing:
  assumes cr: "commit_ready caps t h a new"
  shows "increasing (map entry_sequence (dispatched_queue epoch a e))"
proof -
  have "increasing (map entry_sequence (dt_queues t e))"
    using commit_ready_parts(1) [OF cr] by (simp add: queues_ok_def)
  moreover have "increasing (map entry_sequence (filter (\<lambda>x. entry_engine x = e) new))"
    using new_increasing(1) [OF cr] by (simp add: sorted_wrt_map sorted_wrt_filter)
  ultimately show ?thesis
    using queued_in_history [OF cr] new_increasing(2) [OF cr]
    by (auto simp: dispatched_queue_def commit_ready_frame [OF cr] sorted_wrt_append comp_def)
qed

lemma issue_slot:
  "commit_ready caps t h a new \<Longrightarrow> dt_issueProposals t e = Some x \<Longrightarrow> x \<in> set (dt_queues t e) \<and> entry_ready t x"
  using commit_ready_parts(5) [of caps t h a new] by (simp add: proposals_ok_def)

lemma commit_slots:
  assumes cr: "commit_ready caps t h a new"
  shows "\<forall>e. distinct (map entry_sequence (dispatched_queue epoch a e)) \<and>
    (\<forall>x. dt_issueProposals a e = Some x \<longrightarrow> x \<in> set (dt_queues a e))"
  using dispatched_increasing [OF cr] issue_slot [OF cr]
  by (auto simp: increasing_distinct commit_ready_frame [OF cr])

lemmas commit_fields = tracker_doXfer_fields [OF commit_slots]

lemma remaining_increasing:
  assumes cr: "commit_ready caps t h a new"
  shows "increasing (map entry_sequence (remaining_queue epoch a e))"
  using dispatched_increasing [OF cr, of epoch e]
  by (simp add: remaining_queue_def sorted_wrt_map sorted_wrt_filter split: option.split)

lemma queues_after:
  assumes cr: "commit_ready caps t h a new"
  shows "dt_queues (tracker_doXfer epoch a) e = remaining_queue epoch a e"
proof -
  have "sorted_wrt (\<lambda>x y. issue_key x \<le> issue_key y) (remaining_queue epoch a e)"
    using remaining_increasing [OF cr, of epoch e] unfolding sorted_wrt_map
    by (rule sorted_wrt_mono_rel [rotated]) (simp add: issue_key_def)
  then have "sorted (map issue_key (remaining_queue epoch a e))" by (simp add: sorted_map)
  then show ?thesis by (simp add: commit_fields(1) [OF cr] sort_key_id_if_sorted)
qed

lemma queue_sequence_unique:
  assumes "queues_ok caps t h" "x \<in> set (dt_queues t e)" "y \<in> set (dt_queues t e)" "entry_sequence x = entry_sequence y"
  shows "x = y"
proof -
  have "distinct (map entry_sequence (dt_queues t e))"
    using assms(1) by (simp add: queues_ok_def increasing_distinct)
  with assms(2-) show ?thesis by (auto simp: distinct_map dest: inj_onD)
qed

lemma remaining_set:
  assumes cr: "commit_ready caps t h a new"
  shows "set (remaining_queue epoch a e) = {x \<in> set (dt_queues t e). dt_issueProposals t e \<noteq> Some x} \<union>
     {x \<in> set (map (stamp_dispatched epoch) new). entry_engine x = e}"
proof (cases "dt_issueProposals t e")
  case None
  then show ?thesis by (auto simp: remaining_queue_def dispatched_queue_def commit_ready_frame [OF cr])
next
  case (Some p)
  have p: "p \<in> set (dt_queues t e)" using issue_slot [OF cr Some] by blast
  have other: "entry_sequence x \<noteq> entry_sequence p" if "x \<in> set new" for x
    using new_increasing(2) [OF cr that] queued_in_history [OF cr p] by (metis less_irrefl)
  have "set (remaining_queue epoch a e) = {x \<in> set (dt_queues t e). entry_sequence x \<noteq> entry_sequence p} \<union>
     {x \<in> set (map (stamp_dispatched epoch) new). entry_engine x = e \<and> entry_sequence x \<noteq> entry_sequence p}"
    using Some by (auto simp: remaining_queue_def dispatched_queue_def commit_ready_frame [OF cr])
  also have "{x \<in> set (dt_queues t e). entry_sequence x \<noteq> entry_sequence p} = {x \<in> set (dt_queues t e). dt_issueProposals t e \<noteq> Some x}"
    using queue_sequence_unique [OF commit_ready_parts(1) [OF cr] _ p] Some by auto
  finally show ?thesis using other by auto
qed

lemma length_filter_sequence:
  assumes "distinct (map entry_sequence xs)" and "p \<in> set xs"
  shows "length (filter (\<lambda>x. entry_sequence x \<noteq> entry_sequence p) xs) = length xs - 1"
  using extract_distinct [OF assms]
proof (elim exE conjE)
  fix before after
  assume "List.extract (\<lambda>x. entry_sequence x = entry_sequence p \<and> ie_stableObjectId x = ie_stableObjectId p) xs =
      Some (before, p, after)" and rest: "before @ after = filter (\<lambda>x. entry_sequence x \<noteq> entry_sequence p) xs"
  then have "xs = before @ p # after" by (simp add: extract_Some_iff)
  with rest [symmetric] show ?thesis by simp
qed

lemma queues_ok_after:
  assumes cr: "commit_ready caps t h a new"
  shows "queues_ok caps (tracker_doXfer epoch a) (h @ map (stamp_dispatched epoch) new)"
  unfolding queues_ok_def
proof (intro conjI allI ballI)
  note q = commit_ready_parts(1) [OF cr, unfolded queues_ok_def]
  show "dt_capacities (tracker_doXfer epoch a) = caps"
    using q by (simp add: commit_fields(19) [OF cr] commit_ready_frame [OF cr])
  fix e
  show "increasing (map entry_sequence (dt_queues (tracker_doXfer epoch a) e))"
    unfolding queues_after [OF cr] by (rule remaining_increasing [OF cr])
  show "length (dt_queues (tracker_doXfer epoch a) e) \<le> engine_capacity caps e"
  proof -
    have count: "engine_count e new \<le> queue_remaining t e"
      using commit_ready_parts(6) [OF cr] by (simp add: dispatch_outcome_def dispatch_start_def)
    have len: "length (dispatched_queue epoch a e) = length (dt_queues t e) + engine_count e new"
      by (simp add: dispatched_queue_def engine_count_def commit_ready_frame [OF cr])
    show ?thesis
    proof (cases "dt_issueProposals t e")
      case None
      with count len q show ?thesis
        by (simp add: queues_after [OF cr] remaining_queue_def commit_ready_frame [OF cr] queue_remaining_def Let_def
            split: if_splits)
    next
      case (Some p)
      then have "p \<in> set (dispatched_queue epoch a e)" and "dt_queues t e \<noteq> []"
        using issue_slot [OF cr Some] by (auto simp: dispatched_queue_def commit_ready_frame [OF cr])
      moreover have "distinct (map entry_sequence (dispatched_queue epoch a e))"
        using commit_slots [OF cr] by blast
      ultimately have "length (remaining_queue epoch a e) = length (dt_queues t e) + engine_count e new - 1"
        using length_filter_sequence [of "dispatched_queue epoch a e" p] Some len
        by (simp add: remaining_queue_def commit_ready_frame [OF cr])
      moreover have "length (dt_queues t e) \<le> engine_capacity caps e" "dt_capacities t = caps" "0 < length (dt_queues t e)"
        using q \<open>dt_queues t e \<noteq> []\<close> by simp_all
      ultimately show ?thesis
        using count Some by (simp add: queues_after [OF cr] queue_remaining_def Let_def split: if_splits)
    qed
  qed
  fix x assume "x \<in> set (dt_queues (tracker_doXfer epoch a) e)"
  then show "x \<in> set (h @ map (stamp_dispatched epoch) new)" "entry_engine x = e"
    using queued_in_history [OF cr] unfolding queues_after [OF cr] remaining_set [OF cr] by auto
qed

lemma set_map_filter: "set (List.map_filter f xs) = {y. \<exists>x \<in> set xs. f x = Some y}"
  by (induction xs) (auto simp: List.map_filter_simps split: option.split)

lemma set_proposed_issues: "set (proposed_issues t) = {x. \<exists>e. dt_issueProposals t e = Some x}"
  by (simp add: proposed_issues_def set_map_filter)

lemma issued_sequences:
  "set (map entry_sequence (proposed_issues t)) = {entry_sequence x |e x. dt_issueProposals t e = Some x}"
  by (auto simp: set_proposed_issues)

lemma queued_after:
  assumes cr: "commit_ready caps t h a new"
  shows "queued_sequences (tracker_doXfer epoch a) =
    (queued_sequences t - set (map entry_sequence (proposed_issues t))) \<union> entry_sequence ` set new"
proof -
  have "queued_sequences (tracker_doXfer epoch a) =
    {entry_sequence x |e x. x \<in> set (dt_queues t e) \<and> dt_issueProposals t e \<noteq> Some x} \<union> entry_sequence ` set new"
  proof -
    have "(\<Union>e. {x \<in> set (map (stamp_dispatched epoch) new). entry_engine x = e}) = stamp_dispatched epoch ` set new" by auto
    then show ?thesis
      unfolding queued_sequences_def queues_after [OF cr] remaining_set [OF cr] UN_Un_distrib image_Un
      by (auto simp: image_image)
  qed
  also have "{entry_sequence x |e x. x \<in> set (dt_queues t e) \<and> dt_issueProposals t e \<noteq> Some x} =
      queued_sequences t - set (map entry_sequence (proposed_issues t))"
    (is "?l = ?r")
  proof -
    have one: "x = y" if "x \<in> set (dt_queues t e)" "y \<in> set (dt_queues t e')" "entry_sequence x = entry_sequence y" for x y e e'
    proof -
      have "increasing (map entry_sequence h)"
        using commit_ready_parts(2) [OF cr] by (simp add: ledger_ok_def)
      then have "inj_on entry_sequence (set h)"
        by (metis increasing_distinct distinct_map)
      with that queued_in_history [OF cr that(1)] queued_in_history [OF cr that(2)] show ?thesis
        by (auto dest: inj_onD)
    qed
    show ?thesis
    proof (intro equalityI subsetI)
      fix q assume "q \<in> ?l"
      then obtain e x where x: "q = entry_sequence x" "x \<in> set (dt_queues t e)" "dt_issueProposals t e \<noteq> Some x" by blast
      have "\<not> (\<exists>e' y. dt_issueProposals t e' = Some y \<and> entry_sequence y = q)"
      proof (intro notI; elim exE conjE)
        fix e' y assume y: "dt_issueProposals t e' = Some y" "entry_sequence y = q"
        then have "y \<in> set (dt_queues t e')" using issue_slot [OF cr] by blast
        with x y one have "x = y" by metis
        moreover have "e = e'"
          using queued_in_history [OF cr x(2)] queued_in_history [OF cr \<open>y \<in> set (dt_queues t e')\<close>] \<open>x = y\<close> by simp
        ultimately show False using x(3) y(1) by simp
      qed
      with x show "q \<in> ?r" unfolding issued_sequences queued_sequences_def by blast
    next
      fix q assume "q \<in> ?r"
      then show "q \<in> ?l" unfolding issued_sequences queued_sequences_def by blast
    qed
  qed
  finally show ?thesis .
qed

lemma issues_queued:
  "commit_ready caps t h a new \<Longrightarrow> set (map entry_sequence (proposed_issues t)) \<subseteq> queued_sequences t"
  unfolding issued_sequences queued_sequences_def by (auto dest: issue_slot)

lemma issues_distinct:
  assumes cr: "commit_ready caps t h a new"
  shows "distinct (map entry_sequence (proposed_issues t))"
proof -
  have inj: "inj_on entry_sequence (set h)"
    using commit_ready_parts(2) [OF cr] unfolding ledger_ok_def by (metis increasing_distinct distinct_map)
  have "distinct (map entry_sequence (List.map_filter (dt_issueProposals t) es))" if "distinct es" for es
    using that
  proof (induction es)
    case (Cons e es)
    have other: "entry_sequence x \<noteq> entry_sequence y" if x: "dt_issueProposals t e = Some x"
      and y: "dt_issueProposals t e' = Some y" and "e' \<in> set es" for x y e'
    proof
      assume "entry_sequence x = entry_sequence y"
      moreover have "x \<in> set h \<and> entry_engine x = e" "y \<in> set h \<and> entry_engine y = e'"
        using issue_slot [OF cr x] issue_slot [OF cr y] queued_in_history [OF cr] by blast+
      ultimately have "e = e'" using inj by (metis inj_onD)
      with Cons.prems that show False by simp
    qed
    with Cons show ?case
      by (auto simp: List.map_filter_simps set_map_filter split: option.split)
  qed (simp add: List.map_filter_simps)
  then show ?thesis by (simp add: proposed_issues_def)
qed

lemma length_fold_insert:
  assumes "increasing ys" "distinct xs" "set xs \<inter> set ys = {}"
  shows "length (fold set_insert xs ys) = length xs + length ys"
proof -
  have "length (fold set_insert xs ys) = card (set xs \<union> set ys)"
    using increasing_length [OF increasing_fold_insert [OF assms(1)], of xs] by simp
  also have "\<dots> = length xs + length ys"
    using assms by (simp add: card_Un_disjoint distinct_card increasing_distinct)
  finally show ?thesis .
qed

lemma length_fold_erase:
  assumes "increasing ys" "distinct xs" "set xs \<subseteq> set ys"
  shows "length (fold set_erase xs ys) + length xs = length ys"
proof -
  have "length (fold set_erase xs ys) = card (set ys - set xs)"
    using increasing_length [OF increasing_fold_erase [OF assms(1)], of xs] by simp
  also have "\<dots> = length ys - length xs"
    using assms by (simp add: card_Diff_subset distinct_card increasing_distinct)
  moreover have "length xs \<le> length ys"
    using assms card_mono [of "set ys" "set xs"] by (simp add: distinct_card increasing_distinct)
  ultimately show ?thesis by simp
qed

lemma ledger_ok_after:
  assumes cr: "commit_ready caps t h a new"
  shows "ledger_ok (tracker_doXfer epoch a) (h @ map (stamp_dispatched epoch) new)"
proof -
  note l = commit_ready_parts(2) [OF cr, unfolded ledger_ok_def]
  note f = commit_fields [OF cr] and g = commit_ready_frame [OF cr]
  define I where "I = map entry_sequence (proposed_issues t)"
  define C where "C = dt_completionProposals t"
  define out fin where "out = dt_outstandingSequences t" and "fin = dt_completedSequences t"
  have I: "set I \<subseteq> queued_sequences t" "distinct I"
    using issues_queued [OF cr] issues_distinct [OF cr] by (simp_all add: I_def)
  have C: "set C \<subseteq> set out" "distinct C"
    using commit_ready_parts(5) [OF cr] by (simp_all add: C_def out_def proposals_ok_def)
  have out: "dt_outstandingSequences (tracker_doXfer epoch a) = fold set_erase (sort C) (fold set_insert I out)"
    and fin: "dt_completedSequences (tracker_doXfer epoch a) = fold set_insert (sort C) fin"
    and q: "queued_sequences (tracker_doXfer epoch a) = (queued_sequences t - set I) \<union> entry_sequence ` set new"
    by (simp_all add: f(6,7) g I_def C_def out_def fin_def queued_after [OF cr])
  have inc: "increasing out" "increasing fin" and dis: "set out \<inter> set fin = {}"
    "queued_sequences t \<inter> (set out \<union> set fin) = {}"
    and cover: "entry_sequence ` set h = queued_sequences t \<union> set out \<union> set fin"
    and lens: "dt_totalIssues t = of_nat (length out + length fin)"
    using l by (simp_all add: out_def fin_def)
  have fresh: "entry_sequence ` set new \<inter> entry_sequence ` set h = {}"
    using new_increasing(2) [OF cr] by fastforce
  have lenI: "length (fold set_insert I out) = length I + length out"
    using I dis inc by (intro length_fold_insert) auto
  moreover have "length (fold set_erase (sort C) (fold set_insert I out)) + length (sort C) = length (fold set_insert I out)"
    using C inc by (intro length_fold_erase) auto
  moreover have "length (fold set_insert (sort C) fin) = length (sort C) + length fin"
    using C dis inc by (intro length_fold_insert) auto
  ultimately have total: "length (fold set_erase (sort C) (fold set_insert I out)) + length (fold set_insert (sort C) fin) =
      length I + (length out + length fin)" by simp
  show ?thesis
    unfolding ledger_ok_def
  proof (intro conjI)
    show "increasing (map entry_sequence (h @ map (stamp_dispatched epoch) new))"
    proof -
      have "increasing (map entry_sequence h)" using l by blast
      moreover have "map entry_sequence (map (stamp_dispatched epoch) new) = map entry_sequence new" by simp
      ultimately show ?thesis
        unfolding map_append sorted_wrt_append using new_increasing [OF cr]
        by (auto simp: sorted_wrt_map)
    qed
    show "dt_lastDispatchedSequence (tracker_doXfer epoch a) = (if h @ map (stamp_dispatched epoch) new = [] then None
        else Some (entry_sequence (List.last (h @ map (stamp_dispatched epoch) new))))"
      using l by (auto simp: f(5) g last_map)
    show "queued_sequences (tracker_doXfer epoch a) \<inter> (set (dt_outstandingSequences (tracker_doXfer epoch a)) \<union>
        set (dt_completedSequences (tracker_doXfer epoch a))) = {}"
      unfolding out fin q using I C dis cover fresh by auto
    show "entry_sequence ` set (h @ map (stamp_dispatched epoch) new) = queued_sequences (tracker_doXfer epoch a) \<union>
        set (dt_outstandingSequences (tracker_doXfer epoch a)) \<union> set (dt_completedSequences (tracker_doXfer epoch a))"
      unfolding out fin q using I C cover by (auto simp: image_image image_Un)
    show "dt_totalDispatches (tracker_doXfer epoch a) = of_nat (length (h @ map (stamp_dispatched epoch) new))"
      using l by (simp add: f(9) g)
    have "dt_totalIssues (tracker_doXfer epoch a) = of_nat (length out + length fin) + of_nat (length I)"
      using lens by (simp add: f(10) g I_def)
    then show "dt_totalIssues (tracker_doXfer epoch a) = of_nat (length (dt_outstandingSequences (tracker_doXfer epoch a)) +
        length (dt_completedSequences (tracker_doXfer epoch a)))"
      unfolding out fin total by simp
  qed (use inc dis I C in \<open>auto simp: out fin\<close>)
qed

lemma rename_ok_after:
  assumes cr: "commit_ready caps t h a new"
  shows "rename_ok (tracker_doXfer epoch a) (h @ map (stamp_dispatched epoch) new)"
proof -
  note r = commit_ready_parts(3) [OF cr, unfolded rename_ok_def]
  have "ordered (dt_producers t)" "map_of (dt_producers t) = latest_producer h" using r by blast+
  note prods = producers_latest [OF this, of new epoch]
  have late: "nx_producerSequenceId d \<in> entry_sequence ` set h \<and> nx_producerSequenceId d < entry_sequence x"
    if "x \<in> set new" "d \<in> set (ie_derivedDependencies x)" for x d
  proof -
    have "dependency_pairs (ie_derivedDependencies x) = true_dependencies (latest_producer h) (ie_instruction x)"
      using commit_ready_parts(6) [OF cr] that(1) r by (simp add: dispatch_outcome_def)
    moreover have "(nx_producerSequenceId d, nx_tileIdentity d) \<in> set (dependency_pairs (ie_derivedDependencies x))"
      using that(2) by (auto simp: dependency_pairs_def)
    ultimately obtain tile where "latest_producer h (ni_blockId (ie_instruction x), tile) = Some (nx_producerSequenceId d)"
      by (auto simp: true_dependencies_def List.map_filter_def)
    from latest_producer_member [OF this] obtain y where "y \<in> set h" "entry_sequence y = nx_producerSequenceId d" by blast
    with new_increasing(2) [OF cr that(1)] show ?thesis by (metis image_eqI)
  qed
  show ?thesis
    unfolding rename_ok_def commit_fields(3) [OF cr] commit_ready_frame(3,4) [OF cr]
    using prods r late by (auto simp: image_Un)
qed

lemma flows_ok_after:
  assumes cr: "commit_ready caps t h a new"
  shows "flows_ok (tracker_doXfer epoch a) (h @ map (stamp_dispatched epoch) new)"
proof -
  have flows: "entry_flows (map (stamp_dispatched epoch) new) = entry_flows new"
    by (simp add: entry_flows_def comp_def)
  show ?thesis
    using commit_ready_parts(4,6) [OF cr]
    unfolding flows_ok_def commit_fields(4) [OF cr] commit_ready_frame(3,5) [OF cr] dispatch_outcome_def dispatch_start_def
    by (auto simp: flows)
qed

lemma no_proposals_after: "commit_ready caps t h a new \<Longrightarrow> no_proposals (tracker_doXfer epoch a)"
  by (simp add: no_proposals_def commit_fields(14-18))

lemma tracker_inv_after:
  "commit_ready caps t h a new \<Longrightarrow>
     tracker_inv caps (tracker_doXfer epoch a) (h @ map (stamp_dispatched epoch) new) \<and>
     no_proposals (tracker_doXfer epoch a)"
  unfolding tracker_inv_def
  by (blast intro: queues_ok_after ledger_ok_after rename_ok_after flows_ok_after no_proposals_after no_proposals_ok)

section \<open>Reachable trackers\<close>

lemma tracker_inv_fresh:
  "no_proposals t \<Longrightarrow> dt_capacities t = caps \<Longrightarrow> dt_queues t = (\<lambda>_. []) \<Longrightarrow> dt_outstandingSequences t = [] \<Longrightarrow>
   dt_completedSequences t = [] \<Longrightarrow> dt_producers t = [] \<Longrightarrow> dt_usedFlowIds t = [] \<Longrightarrow>
   dt_lastDispatchedSequence t = None \<Longrightarrow> dt_totalDispatches t = 0 \<Longrightarrow> dt_totalIssues t = 0 \<Longrightarrow> tracker_inv caps t []"
  by (auto simp: tracker_inv_def no_proposals_ok tracker_parts)

lemma tracker_reaches_inv:
  "tracker_reaches api caps ts h \<Longrightarrow> tracker_inv caps (fst ts) h \<and> no_proposals (fst ts)"
proof (induction rule: tracker_reaches.induct)
  case (start nm i parent obs s)
  have "no_proposals (newDependencyTracker nm i parent caps obs)"
    by (simp add: no_proposals_def newDependencyTracker_def)
  moreover from this have "tracker_inv caps (newDependencyTracker nm i parent caps obs) []"
    by (rule tracker_inv_fresh) (simp_all add: newDependencyTracker_def)
  ultimately show ?case by simp
next
  case (round ts h ps epoch)
  let ?t = "fold tracker_propose ps (fst ts)"
  have "tracker_inv caps ?t h" using round.IH tracker_inv_proposes by blast
  from tracker_inv_after [OF arbitrate_commit_ready [OF this, of api "snd ts"], of epoch]
  show ?case by (simp add: tracker_round_def round_dispatches_def case_prod_beta)
next
  case (restart ts h)
  have "dt_capacities (fst ts) = caps" using restart.IH by (simp add: tracker_inv_def queues_ok_def)
  then have "tracker_inv caps (tracker_reset (fst ts)) []"
    by (intro tracker_inv_fresh) (simp_all add: tracker_reset_def clearRuntimeFailureCode_def no_proposals_def)
  then show ?case
    by (simp add: tracker_reset_def clearRuntimeFailureCode_def no_proposals_def)
qed

lemma history_injective:
  "ledger_ok t h \<Longrightarrow> x \<in> set h \<Longrightarrow> y \<in> set h \<Longrightarrow> entry_sequence x = entry_sequence y \<Longrightarrow> x = y"
  unfolding ledger_ok_def by (metis increasing_distinct distinct_map inj_onD)

lemma queued_entries_distinct:
  assumes "queues_ok caps t h" and "ledger_ok t h"
  shows "distinct (map entry_sequence (queued_entries t))"
    and "set (map entry_sequence (queued_entries t)) = queued_sequences t"
proof -
  have "distinct (concat (map (\<lambda>e. map entry_sequence (dt_queues t e)) es))" if "distinct es" for es
    using that
  proof (induction es)
    case (Cons e es)
    have "entry_sequence x \<noteq> entry_sequence y" if "x \<in> set (dt_queues t e)" "y \<in> set (dt_queues t e')" "e' \<in> set es" for x y e'
    proof
      assume "entry_sequence x = entry_sequence y"
      with that assms have "x = y" "entry_engine x = e" "entry_engine y = e'"
        by (auto simp: queues_ok_def intro: history_injective)
      with that Cons.prems show False by auto
    qed
    moreover have "distinct (map entry_sequence (dt_queues t e))"
      using assms(1) by (simp add: queues_ok_def increasing_distinct)
    ultimately show ?case using Cons by auto
  qed simp
  from this [of engines] show "distinct (map entry_sequence (queued_entries t))"
    by (simp add: queued_entries_def map_concat comp_def)
  show "set (map entry_sequence (queued_entries t)) = queued_sequences t"
    by (auto simp: queued_entries_def queued_sequences_def)
qed

lemma entry_ready_frame: "dt_completedSequences t' = dt_completedSequences t \<Longrightarrow> entry_ready t' = entry_ready t"
  by (auto simp: entry_ready_def fun_eq_iff)

lemma issue_candidate_frame:
  "dt_completedSequences t' = dt_completedSequences t \<Longrightarrow> issue_candidate t' = issue_candidate t"
  by (simp add: issue_candidate_def fun_eq_iff entry_ready_frame [of t' t])

lemma propose_frame [simp]:
  "dt_queues (tracker_propose p t) = dt_queues t"
  "dt_completedSequences (tracker_propose p t) = dt_completedSequences t"
  "dt_outstandingSequences (tracker_propose p t) = dt_outstandingSequences t"
  "dt_producers (tracker_propose p t) = dt_producers t"
  by (cases p; simp add: proposeDispatch_def proposeIssue_def proposeComplete_def split: option.split)+

lemma proposes_frame [simp]:
  "dt_queues (fold tracker_propose ps t) = dt_queues t"
  "dt_completedSequences (fold tracker_propose ps t) = dt_completedSequences t"
  "dt_outstandingSequences (fold tracker_propose ps t) = dt_outstandingSequences t"
  "dt_producers (fold tracker_propose ps t) = dt_producers t"
  by (induction ps arbitrary: t) simp_all

lemma proposed_is_candidate:
  assumes "\<forall>e x. dt_issueProposals t e = Some x \<longrightarrow> issue_candidate t (dt_queues t e) = Some x"
  shows "\<forall>e x. dt_issueProposals (fold tracker_propose ps t) e = Some x \<longrightarrow> issue_candidate t (dt_queues t e) = Some x"
  using assms
proof (induction ps arbitrary: t)
  case (Cons p ps)
  have frame: "issue_candidate (tracker_propose p t) = issue_candidate t"
    by (rule issue_candidate_frame) simp
  have "\<forall>e x. dt_issueProposals (tracker_propose p t) e = Some x \<longrightarrow>
      issue_candidate (tracker_propose p t) (dt_queues (tracker_propose p t) e) = Some x"
    unfolding frame propose_frame
    using Cons.prems by (cases p) (auto simp: proposeDispatch_def proposeIssue_def proposeComplete_def split: option.splits)
  from Cons.IH [OF this] show ?case
    by (simp add: frame)
qed simp

section \<open>Progress\<close>

lemma oldest_is_ready:
  assumes inv: "tracker_inv caps t h" and "dt_outstandingSequences t = []" and "queued_entries t \<noteq> []"
  shows "\<exists>e. issue_candidate t (dt_queues t e) \<noteq> None"
proof -
  note q = inv [unfolded tracker_inv_def]
  define m where "m = Min (queued_sequences t)"
  have fin: "finite (queued_sequences t)" "queued_sequences t \<noteq> {}"
    using queued_entries_distinct(2) [of caps t h] q assms(3) by (metis List.finite_set, metis list.map_disc_iff set_empty)
  then have "m \<in> queued_sequences t" by (simp add: m_def)
  then obtain e x where x: "x \<in> set (dt_queues t e)" "entry_sequence x = m"
    by (auto simp: queued_sequences_def)
  have "nx_producerSequenceId d \<in> set (dt_completedSequences t)" if "d \<in> set (ie_derivedDependencies x)" for d
  proof -
    have "x \<in> set h" using q x by (simp add: queues_ok_def)
    with q that have "nx_producerSequenceId d \<in> entry_sequence ` set h" "nx_producerSequenceId d < m"
      using x by (auto simp: rename_ok_def)
    moreover have "entry_sequence ` set h = queued_sequences t \<union> set (dt_completedSequences t)"
      using q assms(2) by (simp add: ledger_ok_def)
    moreover have "nx_producerSequenceId d \<notin> queued_sequences t"
      using fin calculation(2) unfolding m_def by (metis Min_le leD)
    ultimately show ?thesis by blast
  qed
  then have "entry_ready t x" by (simp add: entry_ready_def list_all_iff)
  with x have "issue_candidate t (dt_queues t e) \<noteq> None" by (auto simp: issue_candidate_None)
  then show ?thesis ..
qed

text \<open>
  A driver that broadcasts the completion of everything outstanding and offers every engine an
  issue slot in each epoch.
\<close>

definition drain_proposals :: "'d dependency_tracker \<Rightarrow> 'd tracker_proposal list" where
  "drain_proposals t = map CompleteP (dt_outstandingSequences t) @ map IssueP engines"

definition drain_round :: "'s sim_api \<Rightarrow> epoch \<Rightarrow> 'd dependency_tracker \<times> 's \<Rightarrow> 'd dependency_tracker \<times> 's" where
  "drain_round api epoch ts = tracker_round api (drain_proposals (fst ts)) epoch ts"

lemma propose_completions:
  "distinct qs \<Longrightarrow> set qs \<subseteq> set (dt_outstandingSequences t) \<Longrightarrow> set qs \<inter> set (dt_completionProposals t) = {} \<Longrightarrow>
     fold tracker_propose (map CompleteP qs) t = t\<lparr>dt_completionProposals := dt_completionProposals t @ qs\<rparr>"
  by (induction qs arbitrary: t) (simp_all add: proposeComplete_def)

lemma propose_issues:
  "distinct es \<Longrightarrow> \<forall>e \<in> set es. dt_issueProposals t e = None \<Longrightarrow>
     fold tracker_propose (map IssueP es) t = t\<lparr>dt_issueProposals := (\<lambda>e. if e \<in> set es
        then issue_candidate t (dt_queues t e) else dt_issueProposals t e)\<rparr>"
proof (induction es arbitrary: t)
  case (Cons e es)
  define t1 where "t1 = tracker_propose (IssueP e) t"
  have t1: "t1 = t\<lparr>dt_issueProposals := (dt_issueProposals t)(e := issue_candidate t (dt_queues t e))\<rparr>"
    using Cons.prems by (cases "issue_candidate t (dt_queues t e)") (simp_all add: t1_def proposeIssue_def fun_upd_idem)
  have frame: "issue_candidate t1 = issue_candidate t" by (rule issue_candidate_frame) (simp add: t1)
  have slots: "(\<lambda>e'. if e' \<in> set es then issue_candidate t (dt_queues t e') else dt_issueProposals t1 e') =
      (\<lambda>e'. if e' \<in> set (e # es) then issue_candidate t (dt_queues t e') else dt_issueProposals t e')"
    by (auto simp: t1 fun_eq_iff)
  have "fold tracker_propose (map IssueP es) t1 = t1\<lparr>dt_issueProposals := (\<lambda>e'. if e' \<in> set es
        then issue_candidate t1 (dt_queues t1 e') else dt_issueProposals t1 e')\<rparr>"
    using Cons.prems by (intro Cons.IH) (auto simp: t1)
  also have "dt_queues t1 = dt_queues t" by (simp add: t1)
  finally have "fold tracker_propose (map IssueP es) t1 = t\<lparr>dt_issueProposals := (\<lambda>e'. if e' \<in> set (e # es)
        then issue_candidate t (dt_queues t e') else dt_issueProposals t e')\<rparr>"
    unfolding frame slots by (simp add: t1)
  then show ?case by (simp only: list.map fold_simps t1_def [symmetric])
qed simp

lemma drain_proposed:
  assumes "no_proposals t" and "increasing (dt_outstandingSequences t)"
  shows "fold tracker_propose (drain_proposals t) t =
    t\<lparr>dt_completionProposals := dt_outstandingSequences t, dt_issueProposals := (\<lambda>e. issue_candidate t (dt_queues t e))\<rparr>"
proof -
  let ?t = "t\<lparr>dt_completionProposals := dt_outstandingSequences t\<rparr>"
  have "fold tracker_propose (map CompleteP (dt_outstandingSequences t)) t = ?t"
    using assms propose_completions [of "dt_outstandingSequences t" t]
    by (simp add: no_proposals_def increasing_distinct)
  moreover have "issue_candidate ?t = issue_candidate t" by (rule issue_candidate_frame) simp
  ultimately show ?thesis
    using assms propose_issues [of engines ?t] by (simp add: drain_proposals_def no_proposals_def)
qed

definition drain_work :: "'d dependency_tracker \<Rightarrow> nat" where
  "drain_work t = 2 * card (queued_sequences t) + length (dt_outstandingSequences t)"

lemma drain_round_reaches:
  assumes "tracker_reaches api caps ts h"
  shows "tracker_reaches api caps (drain_round api epoch ts) h"
    and "drain_work (fst (drain_round api epoch ts)) \<le> drain_work (fst ts) - 1"
proof -
  define t where "t = fst ts"
  have inv: "tracker_inv caps t h" "no_proposals t"
    using tracker_reaches_inv [OF assms] by (simp_all add: t_def)
  have inc: "increasing (dt_outstandingSequences t)"
    using inv(1) by (simp add: tracker_inv_def ledger_ok_def)
  define w where "w = fold tracker_propose (drain_proposals t) t"
  have w: "w = t\<lparr>dt_completionProposals := dt_outstandingSequences t,
      dt_issueProposals := (\<lambda>e. issue_candidate t (dt_queues t e))\<rparr>"
    unfolding w_def by (rule drain_proposed [OF inv(2) inc])
  define a where "a = fst (tracker_doArbitrate api w (snd ts))"
  define new where "new = dt_acceptedDispatches a"
  have winv: "tracker_inv caps w h" unfolding w_def by (rule tracker_inv_proposes [OF inv(1)])
  have cr: "commit_ready caps w h a new"
    unfolding a_def new_def by (rule arbitrate_commit_ready [OF winv])
  have round: "fst (drain_round api epoch ts) = tracker_doXfer epoch a"
    by (simp add: drain_round_def tracker_round_def case_prod_beta a_def w_def t_def)
  have "sorted_proposals w = []"
    using inv(2) by (simp add: sorted_proposals_def w no_proposals_def)
  then have new: "new = []"
    using commit_ready_parts(6) [OF cr] by (simp add: dispatch_outcome_def)
  have "round_dispatches api (drain_proposals t) epoch ts = map (stamp_dispatched epoch) new"
    by (simp add: round_dispatches_def new_def a_def w_def t_def)
  with tracker_reaches.round [OF assms, of "drain_proposals t" epoch] new
  show "tracker_reaches api caps (drain_round api epoch ts) h"
    by (simp add: drain_round_def t_def)
  define I where "I = map entry_sequence (proposed_issues w)"
  have I: "set I \<subseteq> queued_sequences t" "distinct I"
    using issues_queued [OF cr] issues_distinct [OF cr] by (simp_all add: I_def queued_sequences_def w)
  have fin: "finite (queued_sequences t)"
    using queued_entries_distinct(2) [of caps t h] inv(1) unfolding tracker_inv_def by (metis List.finite_set)
  have "queued_sequences (tracker_doXfer epoch a) = queued_sequences t - set I"
    using queued_after [OF cr, of epoch] new by (simp add: I_def queued_sequences_def w)
  then have q: "card (queued_sequences (tracker_doXfer epoch a)) = card (queued_sequences t) - length I"
    using I fin by (simp add: card_Diff_subset distinct_card)
  have kq: "length I \<le> card (queued_sequences t)"
    using I fin by (metis card_mono distinct_card)
  have out: "dt_outstandingSequences (tracker_doXfer epoch a) =
      fold set_erase (sort (dt_outstandingSequences t)) (fold set_insert I (dt_outstandingSequences t))"
    using commit_fields(6) [OF cr, of epoch] commit_ready_frame [OF cr] by (simp add: I_def w)
  have disj: "set I \<inter> set (dt_outstandingSequences t) = {}"
    using I inv(1) unfolding tracker_inv_def ledger_ok_def by blast
  have "length (dt_outstandingSequences (tracker_doXfer epoch a)) + length (sort (dt_outstandingSequences t)) =
      length (fold set_insert I (dt_outstandingSequences t))"
    unfolding out using inc by (intro length_fold_erase) (auto simp: increasing_distinct)
  then have k: "length (dt_outstandingSequences (tracker_doXfer epoch a)) = length I"
    using length_fold_insert [OF inc I(2) disj] by simp
  have "drain_work (tracker_doXfer epoch a) + length I = 2 * card (queued_sequences t)"
    using q k kq by (simp add: drain_work_def)
  moreover have "length I \<noteq> 0" if "dt_outstandingSequences t = []" "card (queued_sequences t) \<noteq> 0"
  proof -
    have "queued_entries t \<noteq> []"
      using that(2) queued_entries_distinct(2) [of caps t h] inv(1) unfolding tracker_inv_def by force
    from oldest_is_ready [OF inv(1) that(1) this] obtain e x where
      "issue_candidate t (dt_queues t e) = Some x" by blast
    then have "entry_sequence x \<in> set I"
      unfolding I_def issued_sequences by (auto simp: w)
    then show ?thesis by auto
  qed
  ultimately show "drain_work (fst (drain_round api epoch ts)) \<le> drain_work (fst ts) - 1"
    unfolding round t_def [symmetric] drain_work_def [of t]
    by (cases "dt_outstandingSequences t"; cases "card (queued_sequences t) = 0"; cases I) simp_all
qed

lemma drain_rounds:
  assumes "tracker_reaches api caps ts h"
  shows "tracker_reaches api caps (fold (drain_round api) epochs ts) h \<and>
    drain_work (fst (fold (drain_round api) epochs ts)) \<le> drain_work (fst ts) - length epochs"
  using assms
proof (induction epochs arbitrary: ts)
  case (Cons epoch epochs)
  with Cons.IH [OF drain_round_reaches(1) [OF Cons.prems, of epoch]] drain_round_reaches(2) [OF Cons.prems, of epoch]
  show ?case by (simp, linarith)
qed simp

section \<open>Properties\<close>

text \<open>
  C14: Every dispatched instruction is in exactly one place. In every state the tracker can reach by
  rounds of proposals and resets, each issue queue holds at most its capacity, only instructions of
  its own engine, in strictly increasing sequence order; the sequences ever dispatched are strictly
  increasing, and counted with multiplicity they are exactly those queued, outstanding and completed;
  the two counters are the numbers of dispatches and of issues.
\<close>

theorem tracker_accounts_for_every_sequence:
  assumes "tracker_reaches api caps ts h"
  shows "let t = fst ts in
    (\<forall>e. queueSize e t \<le> engine_capacity caps e \<and> increasing (map entry_sequence (dt_queues t e)) \<and>
       (\<forall>x \<in> set (dt_queues t e). x \<in> set h \<and> entry_engine x = e)) \<and>
    increasing (map entry_sequence h) \<and>
    mset (map entry_sequence h) = mset (map entry_sequence (queued_entries t)) +
      mset (dt_outstandingSequences t) + mset (dt_completedSequences t) \<and>
    dt_totalDispatches t = of_nat (length h) \<and>
    dt_totalIssues t = of_nat (length (dt_outstandingSequences t) + length (dt_completedSequences t))"
proof -
  define t where "t = fst ts"
  have inv: "queues_ok caps t h" "ledger_ok t h"
    using tracker_reaches_inv [OF assms] by (simp_all add: t_def tracker_inv_def)
  note q = queued_entries_distinct [OF inv]
  have "distinct (map entry_sequence h)"
    "distinct (map entry_sequence (queued_entries t) @ dt_outstandingSequences t @ dt_completedSequences t)"
    "set (map entry_sequence h) =
       set (map entry_sequence (queued_entries t) @ dt_outstandingSequences t @ dt_completedSequences t)"
    using inv(2) q unfolding ledger_ok_def by (auto simp: increasing_distinct)
  then have "mset (map entry_sequence h) =
      mset (map entry_sequence (queued_entries t) @ dt_outstandingSequences t @ dt_completedSequences t)"
    by (simp only: set_eq_iff_mset_eq_distinct)
  with inv show ?thesis
    by (simp add: Let_def t_def [symmetric] queueSize_def queues_ok_def ledger_ok_def)
qed

text \<open>
  C15: Renaming yields exactly the true dependencies. The dependencies derived for an instruction that a
  round dispatches are, one per input tile in order, the latest instruction of its block dispatched
  in an earlier round that writes the tile, and none for a tile nothing has written; each producer
  precedes the instruction. Flow identities are never reused: over the whole history they are
  distinct, and all are portable JSON integers between 1 and \<open>2\<^sup>5\<^sup>3 - 1\<close>.
\<close>

theorem dependencies_are_latest_writers:
  assumes "tracker_reaches api caps ts h" and "x \<in> set (round_dispatches api ps epoch ts)"
  shows "dependency_pairs (ie_derivedDependencies x) = true_dependencies (latest_producer h) (ie_instruction x) \<and>
    (\<forall>d \<in> set (ie_derivedDependencies x). nx_producerSequenceId d < entry_sequence x) \<and>
    distinct (entry_flows (h @ round_dispatches api ps epoch ts)) \<and>
    set (entry_flows (h @ round_dispatches api ps epoch ts)) \<subseteq> {1..kMaxPortableJsonInteger}"
proof -
  let ?t = "fold tracker_propose ps (fst ts)"
  have "tracker_inv caps ?t h"
    using tracker_reaches_inv [OF assms(1)] tracker_inv_proposes by blast
  note cr = arbitrate_commit_ready [OF this, of api "snd ts"]
  let ?new = "dt_acceptedDispatches (fst (tracker_doArbitrate api ?t (snd ts)))"
  obtain y where y: "y \<in> set ?new" "x = stamp_dispatched epoch y"
    using assms(2) by (auto simp: round_dispatches_def)
  have "map_of (dt_producers ?t) = latest_producer h"
    using commit_ready_parts(3) [OF cr] by (simp add: rename_ok_def)
  with y commit_ready_parts(6) [OF cr]
  have pairs: "dependency_pairs (ie_derivedDependencies x) = true_dependencies (latest_producer h) (ie_instruction x)"
    by (simp add: dispatch_outcome_def)
  have "tracker_inv caps (fst (tracker_round api ps epoch ts)) (h @ round_dispatches api ps epoch ts)"
    using tracker_reaches_inv [OF tracker_reaches.round [OF assms(1)]] by blast
  then have "rename_ok (fst (tracker_round api ps epoch ts)) (h @ round_dispatches api ps epoch ts)"
    "flows_ok (fst (tracker_round api ps epoch ts)) (h @ round_dispatches api ps epoch ts)"
    by (simp_all add: tracker_inv_def)
  with assms(2) pairs show ?thesis
    by (auto simp: rename_ok_def flows_ok_def flow_range_def simp del: entry_flows_simps)
qed

text \<open>
  C16: Issue is oldest-ready and never early. Whatever a round issues was queued before it, all its
  producers had completed in earlier rounds, no ready entry of the same queue precedes it in
  \<open>(sequence, stable object)\<close> order, and afterwards it is outstanding and in no queue.
\<close>

theorem issues_oldest_ready:
  assumes "tracker_reaches api caps ts h" and "x \<in> set (dt_issued (fst (tracker_round api ps epoch ts)))"
  shows "(\<exists>y \<in> set (dt_queues (fst ts) (entry_engine x)). x = stamp_issued epoch y \<and>
      (\<forall>d \<in> set (ie_derivedDependencies y). nx_producerSequenceId d \<in> set (dt_completedSequences (fst ts))) \<and>
      (\<forall>z \<in> set (dt_queues (fst ts) (entry_engine x)). entry_ready (fst ts) z \<longrightarrow> issue_key y \<le> issue_key z)) \<and>
    entry_sequence x \<in> set (dt_outstandingSequences (fst (tracker_round api ps epoch ts))) \<and>
    entry_sequence x \<notin> set (map entry_sequence (queued_entries (fst (tracker_round api ps epoch ts))))"
proof -
  define t where "t = fst ts"
  let ?w = "fold tracker_propose ps t"
  have inv: "tracker_inv caps t h" "no_proposals t"
    using tracker_reaches_inv [OF assms(1)] by (simp_all add: t_def)
  have winv: "tracker_inv caps ?w h" by (rule tracker_inv_proposes [OF inv(1)])
  note cr = arbitrate_commit_ready [OF winv, of api "snd ts"]
  define a where "a = fst (tracker_doArbitrate api ?w (snd ts))"
  define new where "new = dt_acceptedDispatches a"
  note cr = cr [folded a_def, folded new_def]
  have round: "fst (tracker_round api ps epoch ts) = tracker_doXfer epoch a"
    by (simp add: tracker_round_def case_prod_beta a_def t_def)
  have "x \<in> stamp_issued epoch ` set (proposed_issues ?w)"
    using assms(2) unfolding round commit_fields(8) [OF cr] commit_ready_frame(14) [OF cr] by simp
  then obtain e y where y: "dt_issueProposals ?w e = Some y" "x = stamp_issued epoch y"
    by (auto simp: set_proposed_issues)
  have "issue_candidate t (dt_queues t e) = Some y"
    using proposed_is_candidate [of t ps] inv(2) y(1) by (simp add: no_proposals_def)
  note cand = issue_candidate_some [OF this]
  have eng: "entry_engine x = e"
    using cand inv(1) y(2) by (simp add: tracker_inv_def queues_ok_def)
  define I where "I = set (map entry_sequence (proposed_issues ?w))"
  have mem: "entry_sequence x \<in> I" using y by (auto simp: I_def set_proposed_issues)
  have "I \<subseteq> queued_sequences ?w" using issues_queued [OF cr] by (simp add: I_def)
  moreover have l: "queued_sequences ?w \<inter> set (dt_outstandingSequences ?w) = {}"
    "set (dt_completionProposals ?w) \<subseteq> set (dt_outstandingSequences ?w)"
    using winv by (auto simp: tracker_inv_def ledger_ok_def proposals_ok_def)
  ultimately have "entry_sequence x \<in> set (dt_outstandingSequences (tracker_doXfer epoch a))"
    using mem commit_fields(6) [OF cr, of epoch] commit_ready_frame(7,11,14) [OF cr] by (auto simp: I_def)
  moreover have "entry_sequence x \<notin> queued_sequences (tracker_doXfer epoch a)"
  proof -
    have "entry_sequence x \<notin> entry_sequence ` set new"
      using new_increasing(2) [OF cr] queued_in_history [OF cr] issue_slot [OF cr y(1)] y(2) by fastforce
    then show ?thesis using mem by (simp add: queued_after [OF cr] I_def)
  qed
  moreover have "set (map entry_sequence (queued_entries (tracker_doXfer epoch a))) = queued_sequences (tracker_doXfer epoch a)"
    by (auto simp: queued_entries_def queued_sequences_def)
  ultimately show ?thesis
    using cand y(2) eng by (auto simp: round t_def [symmetric] entry_ready_def list_all_iff)
qed

text \<open>
  C17: The tracker cannot deadlock: from every reachable state, rounds that complete what is outstanding
  and offer each engine an issue slot leave it quiescent with every dispatched sequence completed,
  within two rounds for each queued entry and one for each outstanding one.
\<close>

theorem tracker_drains:
  assumes "tracker_reaches api caps ts h"
    and "2 * length (queued_entries (fst ts)) + length (dt_outstandingSequences (fst ts)) \<le> length epochs"
  shows "let t = fst (fold (drain_round api) epochs ts) in
    ros_quiescent (tracker_runtimeState t) \<and> set (dt_completedSequences t) = entry_sequence ` set h"
proof -
  define t where "t = fst (fold (drain_round api) epochs ts)"
  have len: "length (queued_entries u) = card (queued_sequences u)" if "tracker_inv caps u h" for u :: "'b dependency_tracker"
  proof -
    have "queues_ok caps u h" "ledger_ok u h" using that by (simp_all add: tracker_inv_def)
    from queued_entries_distinct [OF this] show ?thesis by (metis distinct_card length_map)
  qed
  have "tracker_inv caps (fst ts) h" using tracker_reaches_inv [OF assms(1)] by blast
  with drain_rounds [OF assms(1), of epochs] assms(2) len [of "fst ts"]
  have r: "tracker_reaches api caps (fold (drain_round api) epochs ts) h" and "drain_work t = 0"
    by (simp_all add: t_def drain_work_def [of "fst ts"])
  from tracker_reaches_inv [OF r] have inv: "tracker_inv caps t h" "no_proposals t" by (simp_all add: t_def)
  have "queued_entries t = []" "dt_outstandingSequences t = []"
    using \<open>drain_work t = 0\<close> len [OF inv(1)] by (simp_all add: drain_work_def)
  moreover have "queued_sequences t = {}"
    using queued_entries_distinct(2) [of caps t h] inv(1) \<open>queued_entries t = []\<close> by (simp add: tracker_inv_def)
  ultimately show ?thesis
    using inv unfolding t_def [symmetric] Let_def
    by (simp add: tracker_runtimeState_def tracker_hasPendingCommit_def no_proposals_def engines_def Let_def
        tracker_inv_def ledger_ok_def)
qed

text \<open>
  C18: Dispatch is in sequence order and independent of the order of the proposals. However the proposals
  of a round were ordered, arbitration decides the same: it accepts the longest prefix, by sequence,
  that fits the free places of the issue queues, and rejects the rest; an accepted proposal never
  overtakes a rejected one, and unless the tracker has failed, the first rejected one found its queue
  full.
\<close>

theorem dispatch_in_order:
  assumes "tracker_reaches api caps ts h" and "t = fold tracker_propose props (fst ts)"
    and "mset ps = mset (dt_dispatchProposals t)"
  shows "tracker_decide (t\<lparr>dt_dispatchProposals := ps\<rparr>) = tracker_decide t \<and>
    (let acc = dt_acceptedDispatches (tracker_decide t); qs = sort_key dispatch_key ps in
       increasing (map (\<lambda>p. ni_sequenceId (fst p)) qs) \<and>
       map entry_request acc = take (length acc) qs \<and>
       dt_proposedRejectedDispatches (tracker_decide t) = map (\<lambda>p. ni_sequenceId (fst p)) (drop (length acc) qs) \<and>
       (\<forall>e. engine_count e acc \<le> queue_remaining t e) \<and>
       (length acc < length qs \<and> so_runtimeFailureCode (tracker_decide t) = [] \<longrightarrow>
          (let e = ni_engine (fst (qs ! length acc)) in engine_count e acc = queue_remaining t e)))"
proof -
  have inv: "tracker_inv caps t h"
    unfolding assms(2) using tracker_reaches_inv [OF assms(1)] tracker_inv_proposes by blast
  then have p: "proposals_ok t h" by (simp add: tracker_inv_def)
  then have "distinct (map (\<lambda>p. ni_sequenceId (fst p)) (dt_dispatchProposals t))" by (simp add: proposals_ok_def)
  then have "distinct (map dispatch_key (dt_dispatchProposals t))"
    by (rule distinct_map_coarser) (simp add: dispatch_key_def)
  then have same: "sort_key dispatch_key ps = sorted_proposals t"
    unfolding sorted_proposals_def by (intro sort_key_unique) (simp_all add: assms(3))
  have "\<not> ds_dispatchBlocked (dispatch_start t)" by (simp add: dispatch_start_def)
  from dispatch_outcome_fold [OF this] obtain new where
    new: "dispatch_outcome (dt_producers t) (sorted_proposals t) (dispatch_start t) (dispatch_end t) new"
    unfolding dispatch_end_def by blast
  have dec: "dt_acceptedDispatches (tracker_decide t) = new"
    "dt_proposedRejectedDispatches (tracker_decide t) = ds_rejected (dispatch_end t)"
    "so_runtimeFailureCode (tracker_decide t) = ds_code (dispatch_end t)"
    using new p by (simp_all add: tracker_decide_def Let_def sorted_proposals_def [symmetric]
        dispatch_start_def [symmetric] dispatch_end_def [symmetric])
      (simp_all add: dispatch_outcome_def dispatch_start_def proposals_ok_def)
  have remaining: "queue_remaining (t\<lparr>dt_dispatchProposals := ps\<rparr>) = queue_remaining t"
    by (simp add: queue_remaining_def fun_eq_iff Let_def)
  have "tracker_decide (t\<lparr>dt_dispatchProposals := ps\<rparr>) = tracker_decide t"
    using remaining same by (simp add: tracker_decide_def Let_def sorted_proposals_def)
  then show ?thesis
    using new p sorted_proposals_increasing(1) [OF p]
    unfolding Let_def dec same by (simp add: dispatch_outcome_def dispatch_start_def proposals_ok_def Let_def)
qed

text \<open>
  Probing finds a free flow identity whenever one exists. Starting anywhere in the portable range,
  the loop fails only when every one of the \<open>2\<^sup>5\<^sup>3 - 1\<close> identities is taken; otherwise it returns an
  unused identity of the range.
\<close>

theorem flow_probe_total:
  assumes "distinct used"
  shows "case flow_probe used 0 (dependencyFlowId b p c tile) of
      None \<Rightarrow> {1..kMaxPortableJsonInteger} \<subseteq> set used
    | Some f \<Rightarrow> f \<notin> set used \<and> f \<in> {1..kMaxPortableJsonInteger}"
  using flow_probe_exhausted [OF _ dependencyFlowId_range assms, of b p c tile]
    flow_probe_some [of used 0 "dependencyFlowId b p c tile"] dependencyFlowId_range [of b p c tile]
  by (auto simp: flow_range_def split: option.split)

subsection \<open>Witnesses\<close>

definition sample_op :: "u64 \<Rightarrow> npu_engine \<Rightarrow> string list \<Rightarrow> string list \<Rightarrow> bool npu_instruction" where
  "sample_op q e ins outs = \<lparr>ni_sequenceId = q, ni_blockId = 0, ni_opcode = ''TADD'', ni_dependencies = [],
     ni_operands = [], ni_inputTiles = ins, ni_outputTiles = outs, ni_inputTileDescriptors = [],
     ni_outputTileDescriptors = [], ni_scalarInputs = [], ni_engine = e, ni_timestamps = no_timestamps\<rparr>"

definition sample_caps :: issue_capacities where
  "sample_caps = \<lparr>ic_scalar = 1, ic_vector = 1, ic_cube = 1, ic_tma = 1\<rparr>"

definition sample_start :: "bool dependency_tracker \<times> unit" where
  "sample_start = (newDependencyTracker ''d'' 10 None sample_caps None, ())"

definition sample_loads :: "bool tracker_proposal list" where
  "sample_loads = [DispatchP (sample_op 2 Tma [] [''b'']) 23, DispatchP (sample_op 1 Tma [] [''a'']) 23]"

definition sample_loaded :: "bool dependency_tracker \<times> unit" where
  "sample_loaded = tracker_round permissive_api sample_loads epoch0 sample_start"

lemmas sample_tracker_defs = sample_op_def sample_caps_def sample_start_def sample_loads_def
  newDependencyTracker_def

lemma sample_start_reaches: "tracker_reaches permissive_api sample_caps sample_start []"
  unfolding sample_start_def by (rule tracker_reaches.start)

lemma sample_loads_arbitrated:
  "fold tracker_propose sample_loads (fst sample_start) = (fst sample_start)
     \<lparr>dt_dispatchProposals := [(sample_op 2 Tma [] [''b''], 23), (sample_op 1 Tma [] [''a''], 23)]\<rparr>"
  by (simp add: sample_tracker_defs proposeDispatch_def knownSequence_def kInvalidObjectId_def
      queued_entries_def engines_def)

lemma sample_loads_outcome:
  "round_dispatches permissive_api sample_loads epoch0 sample_start =
     [\<lparr>ie_instruction = (sample_op 1 Tma [] [''a''])\<lparr>ni_timestamps := no_timestamps\<lparr>nt_dispatched := Some 0\<rparr>\<rparr>,
       ie_stableObjectId = 23, ie_derivedDependencies = []\<rparr>]"
  unfolding round_dispatches_def sample_loads_arbitrated
  by (simp add: tracker_doArbitrate_def tracker_decide_def sample_tracker_defs dispatch_key_def
      dispatch_one_def queue_remaining_def stamp_dispatched_def epoch0_def Let_def word_less_nat_alt word_le_nat_alt)

lemma sample_loaded_reaches:
  "tracker_reaches permissive_api sample_caps sample_loaded
     (round_dispatches permissive_api sample_loads epoch0 sample_start)"
  unfolding sample_loaded_def using tracker_reaches.round [OF sample_start_reaches] by fastforce

theorem tracker_accounts_for_every_sequence_witness:
  "queueSize Tma (fst sample_loaded) \<le> 1 \<and>
   mset [1] = mset (map entry_sequence (queued_entries (fst sample_loaded))) +
     mset (dt_outstandingSequences (fst sample_loaded)) + mset (dt_completedSequences (fst sample_loaded)) \<and>
   dt_totalDispatches (fst sample_loaded) = 1"
  using tracker_accounts_for_every_sequence [OF sample_loaded_reaches, unfolded sample_loads_outcome]
  by (auto simp: Let_def sample_caps_def sample_op_def dest: spec [of _ Tma])

theorem tracker_drains_witness:
  "ros_quiescent (tracker_runtimeState (fst (fold (drain_round permissive_api) (replicate 3 epoch0) sample_loaded))) \<and>
   set (dt_completedSequences (fst (fold (drain_round permissive_api) (replicate 3 epoch0) sample_loaded))) = {1}"
proof -
  have m: "mset (map entry_sequence (round_dispatches permissive_api sample_loads epoch0 sample_start)) = {#1#}"
    by (simp add: sample_loads_outcome sample_op_def)
  let ?t = "fst sample_loaded"
  have inv: "tracker_inv sample_caps ?t (round_dispatches permissive_api sample_loads epoch0 sample_start)"
    using tracker_reaches_inv [OF sample_loaded_reaches] by blast
  then have "entry_sequence ` set (round_dispatches permissive_api sample_loads epoch0 sample_start) =
      queued_sequences ?t \<union> set (dt_outstandingSequences ?t) \<union> set (dt_completedSequences ?t)"
    and inc: "increasing (dt_outstandingSequences ?t)"
    by (simp_all add: tracker_inv_def ledger_ok_def)
  then have sub: "queued_sequences ?t \<subseteq> {1}" "set (dt_outstandingSequences ?t) \<subseteq> {1}"
    by (auto simp: sample_loads_outcome sample_op_def)
  have parts: "queues_ok sample_caps ?t (round_dispatches permissive_api sample_loads epoch0 sample_start)"
    "ledger_ok ?t (round_dispatches permissive_api sample_loads epoch0 sample_start)"
    using inv by (simp_all add: tracker_inv_def)
  have "length (queued_entries ?t) = card (queued_sequences ?t)"
    using queued_entries_distinct [OF parts] by (metis distinct_card length_map)
  also have "\<dots> \<le> 1" using card_mono [OF _ sub(1)] by simp
  finally have q: "length (queued_entries ?t) \<le> 1" .
  have "length (dt_outstandingSequences ?t) = card (set (dt_outstandingSequences ?t))"
    by (rule increasing_length [OF inc])
  also have "\<dots> \<le> 1" using card_mono [OF _ sub(2)] by simp
  finally have "2 * length (queued_entries ?t) + length (dt_outstandingSequences ?t) \<le> length (replicate 3 epoch0)"
    using q by simp
  from tracker_drains [OF sample_loaded_reaches this] show ?thesis
    by (simp add: Let_def sample_loads_outcome sample_op_def)
qed

theorem dispatch_in_order_witness:
  "tracker_decide ((fst sample_start)\<lparr>dt_dispatchProposals :=
      [(sample_op 1 Tma [] [''a''], 23), (sample_op 2 Tma [] [''b''], 23)]\<rparr>) =
   tracker_decide (fold tracker_propose sample_loads (fst sample_start)) \<and>
   dt_proposedRejectedDispatches (tracker_decide (fold tracker_propose sample_loads (fst sample_start))) = [2]"
proof -
  have "mset [(sample_op 1 Tma [] [''a''], 23), (sample_op 2 Tma [] [''b''], 23)] =
      mset (dt_dispatchProposals (fold tracker_propose sample_loads (fst sample_start)))"
    by (simp add: sample_loads_arbitrated add_mset_commute)
  from dispatch_in_order [OF sample_start_reaches refl this]
  have "tracker_decide ((fold tracker_propose sample_loads (fst sample_start))\<lparr>dt_dispatchProposals :=
      [(sample_op 1 Tma [] [''a''], 23), (sample_op 2 Tma [] [''b''], 23)]\<rparr>) =
    tracker_decide (fold tracker_propose sample_loads (fst sample_start))" by blast
  moreover have "dt_proposedRejectedDispatches (tracker_decide (fold tracker_propose sample_loads (fst sample_start))) = [2]"
    unfolding sample_loads_arbitrated
    by (simp add: tracker_decide_def sample_tracker_defs dispatch_key_def dispatch_one_def queue_remaining_def Let_def
        word_less_nat_alt word_le_nat_alt)
  ultimately show ?thesis by (simp add: sample_loads_arbitrated)
qed

theorem flow_probe_total_witness:
  "case flow_probe [5] 0 (dependencyFlowId 0 1 2 ''a'') of None \<Rightarrow> False
     | Some f \<Rightarrow> f \<noteq> 5 \<and> f \<in> {1..kMaxPortableJsonInteger}"
proof -
  have "\<not> {1..kMaxPortableJsonInteger} \<subseteq> set [5]"
  proof
    assume "{1..kMaxPortableJsonInteger} \<subseteq> set [5]"
    moreover have "1 \<in> {1..kMaxPortableJsonInteger}" by (simp add: kMaxPortableJsonInteger_def word_le_nat_alt)
    ultimately show False by auto
  qed
  moreover have "distinct [5 :: u64]" by simp
  note flow_probe_total [OF this, of 0 1 2 "''a''"]
  ultimately show ?thesis by (auto split: option.splits)
qed

definition sample_use :: "bool tracker_proposal list" where
  "sample_use = [IssueP Tma, DispatchP (sample_op 3 Vector [''c'', ''a''] [''a'']) 21]"

abbreviation sample_entry :: "bool issue_entry" where
  "sample_entry \<equiv> \<lparr>ie_instruction = sample_op 1 Tma [] [''a''], ie_stableObjectId = 23, ie_derivedDependencies = []\<rparr>"

lemma sample_arbitrated:
  "fst (tracker_doArbitrate permissive_api (fold tracker_propose sample_loads (fst sample_start)) ()) =
     (fst sample_start)\<lparr>dt_dispatchProposals := [(sample_op 1 Tma [] [''a''], 23), (sample_op 2 Tma [] [''b''], 23)],
       dt_acceptedDispatches := [sample_entry], dt_proposedRejectedDispatches := [2]\<rparr>"
  unfolding sample_loads_arbitrated
  by (simp add: tracker_doArbitrate_def tracker_decide_def sample_tracker_defs dispatch_key_def
      dispatch_one_def queue_remaining_def Let_def word_less_nat_alt word_le_nat_alt)

lemma sample_loaded_fields:
  "dt_queues (fst sample_loaded) = (\<lambda>_. [])(Tma := [stamp_dispatched epoch0 sample_entry])"
  "dt_producers (fst sample_loaded) = [((0, ''a''), 1)]" "dt_usedFlowIds (fst sample_loaded) = []"
  "dt_lastDispatchedSequence (fst sample_loaded) = Some 1" "dt_completedSequences (fst sample_loaded) = []"
  "dt_outstandingSequences (fst sample_loaded) = []" "so_runtimeFailureCode (fst sample_loaded) = []"
  "so_observationSink (fst sample_loaded) = None" "dt_capacities (fst sample_loaded) = sample_caps"
  "no_proposals (fst sample_loaded)"
proof -
  let ?a = "(fst sample_start)\<lparr>dt_dispatchProposals := [(sample_op 1 Tma [] [''a''], 23), (sample_op 2 Tma [] [''b''], 23)],
       dt_acceptedDispatches := [sample_entry], dt_proposedRejectedDispatches := [2]\<rparr>"
  have slots: "\<forall>e. distinct (map entry_sequence (dispatched_queue epoch0 ?a e)) \<and>
      (\<forall>x. dt_issueProposals ?a e = Some x \<longrightarrow> x \<in> set (dt_queues ?a e))"
    by (simp add: dispatched_queue_def sample_tracker_defs)
  have run: "fst sample_loaded = tracker_doXfer epoch0 ?a"
    unfolding sample_arbitrated [symmetric] by (simp add: sample_loaded_def tracker_round_def case_prod_beta sample_start_def)
  show "dt_queues (fst sample_loaded) = (\<lambda>_. [])(Tma := [stamp_dispatched epoch0 sample_entry])"
    unfolding run tracker_doXfer_fields(1) [OF slots]
    by (auto simp: fun_eq_iff remaining_queue_def dispatched_queue_def sample_tracker_defs)
  show "dt_producers (fst sample_loaded) = [((0, ''a''), 1)]" "dt_usedFlowIds (fst sample_loaded) = []"
    "dt_lastDispatchedSequence (fst sample_loaded) = Some 1" "dt_completedSequences (fst sample_loaded) = []"
    "dt_outstandingSequences (fst sample_loaded) = []" "so_runtimeFailureCode (fst sample_loaded) = []"
    "so_observationSink (fst sample_loaded) = None" "dt_capacities (fst sample_loaded) = sample_caps"
    "no_proposals (fst sample_loaded)"
    unfolding run no_proposals_def tracker_doXfer_fields [OF slots]
    by (simp_all add: sample_tracker_defs put_outputs_def proposed_issues_def engines_def List.map_filter_simps)
qed

lemma sample_use_proposed:
  "fold tracker_propose sample_use (fst sample_loaded) = (fst sample_loaded)
     \<lparr>dt_issueProposals := (\<lambda>_. None)(Tma := Some (stamp_dispatched epoch0 sample_entry)),
      dt_dispatchProposals := [(sample_op 3 Vector [''c'', ''a''] [''a''], 21)]\<rparr>"
proof -
  have "dt_issueProposals (fst sample_loaded) = (\<lambda>_. None)" "dt_dispatchProposals (fst sample_loaded) = []"
    "dt_acceptedDispatches (fst sample_loaded) = []"
    using sample_loaded_fields(10) by (simp_all add: no_proposals_def)
  then show ?thesis
    by (simp add: sample_use_def proposeIssue_def issue_candidate_def entry_ready_def proposeDispatch_def
        knownSequence_def queued_entries_def engines_def kInvalidObjectId_def word_le_nat_alt sample_loaded_fields)
      (simp add: sample_op_def)
qed

lemma sample_use_arbitrated:
  "\<exists>d. dt_acceptedDispatches (fst (tracker_doArbitrate permissive_api
      (fold tracker_propose sample_use (fst sample_loaded)) (snd sample_loaded))) =
     [\<lparr>ie_instruction = sample_op 3 Vector [''c'', ''a''] [''a''], ie_stableObjectId = 21, ie_derivedDependencies = [d]\<rparr>]"
proof -
  have "dt_acceptedDispatches (fst sample_loaded) = []"
    using sample_loaded_fields(10) by (simp add: no_proposals_def)
  then show ?thesis
    unfolding sample_use_proposed
    by (simp add: tracker_doArbitrate_def tracker_decide_def sample_op_def dispatch_one_def queue_remaining_def
        flow_probe.simps [of "[]"] Let_def sample_loaded_fields sample_caps_def)
qed

theorem dependencies_are_latest_writers_witness:
  "\<exists>x. round_dispatches permissive_api sample_use (Epoch 1 0) sample_loaded = [x] \<and>
     dependency_pairs (ie_derivedDependencies x) = [(1, ''a'')]"
proof -
  obtain d where "round_dispatches permissive_api sample_use (Epoch 1 0) sample_loaded =
      [stamp_dispatched (Epoch 1 0) \<lparr>ie_instruction = sample_op 3 Vector [''c'', ''a''] [''a''], ie_stableObjectId = 21,
         ie_derivedDependencies = [d]\<rparr>]"
    using sample_use_arbitrated by (auto simp: round_dispatches_def)
  then obtain x where x: "round_dispatches permissive_api sample_use (Epoch 1 0) sample_loaded = [x]"
    and i: "ie_instruction x = (sample_op 3 Vector [''c'', ''a''] [''a''])
      \<lparr>ni_timestamps := no_timestamps\<lparr>nt_dispatched := Some 1\<rparr>\<rparr>"
    by (simp add: stamp_dispatched_def sample_op_def)
  have "x \<in> set (round_dispatches permissive_api sample_use (Epoch 1 0) sample_loaded)" by (simp add: x)
  from dependencies_are_latest_writers [OF sample_loaded_reaches this]
  have "dependency_pairs (ie_derivedDependencies x) = true_dependencies
      (latest_producer (round_dispatches permissive_api sample_loads epoch0 sample_start)) (ie_instruction x)" by blast
  then have "dependency_pairs (ie_derivedDependencies x) = [(1, ''a'')]"
    by (simp add: sample_loads_outcome i true_dependencies_def latest_producer_def writes_tile_def sample_op_def
        List.map_filter_simps)
  with x show ?thesis by blast
qed

theorem issues_oldest_ready_witness:
  "\<exists>x. dt_issued (fst (tracker_round permissive_api sample_use (Epoch 1 0) sample_loaded)) = [x] \<and>
     entry_sequence x = 1 \<and>
     1 \<in> set (dt_outstandingSequences (fst (tracker_round permissive_api sample_use (Epoch 1 0) sample_loaded)))"
proof -
  let ?x = "stamp_issued (Epoch 1 0) (stamp_dispatched epoch0 sample_entry)"
  let ?w = "fold tracker_propose sample_use (fst sample_loaded)"
  have "tracker_inv sample_caps ?w (round_dispatches permissive_api sample_loads epoch0 sample_start)"
    using tracker_reaches_inv [OF sample_loaded_reaches] tracker_inv_proposes by blast
  note cr = arbitrate_commit_ready [OF this, of permissive_api "snd sample_loaded"]
  have "proposed_issues ?w = [stamp_dispatched epoch0 sample_entry]"
    by (simp add: sample_use_proposed proposed_issues_def engines_def List.map_filter_simps)
  then have one: "dt_issued (fst (tracker_round permissive_api sample_use (Epoch 1 0) sample_loaded)) = [?x]"
    using commit_fields(8) [OF cr, of "Epoch 1 0"] commit_ready_frame(14) [OF cr]
    by (simp add: tracker_round_def case_prod_beta)
  then have "?x \<in> set (dt_issued (fst (tracker_round permissive_api sample_use (Epoch 1 0) sample_loaded)))" by simp
  from issues_oldest_ready [OF sample_loaded_reaches this] one show ?thesis
    by (simp add: sample_op_def)
qed

end
