(* ===== verification/Npu_Pipeline.thy ===== *)
theory Npu_Pipeline
  imports Npu_Tracker Protocols Resource
begin

text \<open>
  The execution pipeline of the NPU reference model (\<open>NpuExecutionPipeline\<close> of
  \<open>lib/gfsim/npu.cpp\<close>): per-block reorder buffers, execution units per engine class, the memory
  path over a \<open>RequestResponse\<close> channel and a \<open>Resource\<close>, the scratchpad, the global memory and the
  architectural result. The pointer to the implementation object is flattened into the record. The
  comparison of instructions uses the \<open>==\<close> of doubles, the argument \<open>deq\<close> of the decoder.
\<close>

section \<open>State\<close>

record execution_config =
  xc_scalarUnits :: nat
  xc_vectorUnits :: nat
  xc_cubeUnits :: nat
  xc_tmaUnits :: nat
  xc_memoryRequests :: nat
  xc_scratchpadTiles :: nat

record memory_request =
  mq_sequenceId :: u64
  mq_correlationId :: u64
  mq_address :: u64
  mq_write :: bool
  mq_tileIdentity :: string

record memory_response =
  ms_correlationId :: u64
  ms_value :: u64

record architectural_result =
  ar_retiredInstructions :: u64
  ar_digest :: u64
  ar_retiredSequenceIds :: "u64 list"

definition new_result :: architectural_result where
  "new_result = \<lparr>ar_retiredInstructions = 0, ar_digest = 14695981039346656037, ar_retiredSequenceIds = []\<rparr>"

record 'd rob_entry =
  rb_instruction :: "'d npu_instruction"
  rb_completed :: bool

record 'd active_execution =
  ax_entry :: "'d issue_entry"
  ax_issueEpoch :: epoch
  ax_readyEpoch :: epoch
  ax_unitIndex :: nat
  ax_memoryDelivered :: bool
  ax_memoryRequest :: "memory_request option"

record 'd pipeline = sim_object +
  px_config :: execution_config
  px_system :: "ptr option"
  px_memoryProtocol :: "(memory_request, memory_response) request_response"
  px_memoryController :: resource
  px_rob :: "(u64 \<times> 'd rob_entry list) list"
  px_lastAdmittedSequence :: "(u64 \<times> u64) list"
  px_admissionProposals :: "'d npu_instruction list"
  px_executionProposals :: "'d active_execution list"
  px_active :: "(u64 \<times> 'd active_execution) list"
  px_deliveryProposals :: "u64 list"
  px_completionProposals :: "u64 list"
  px_traceExhaustedProposal :: bool
  px_traceExhausted :: bool
  px_executedSequences :: "u64 list"
  px_completed :: "'d issue_entry list"
  px_retired :: "'d npu_instruction list"
  px_memoryRequests :: "memory_request list"
  px_memoryResponses :: "memory_response list"
  px_scratchpad :: "(string \<times> u64) list"
  px_globalMemory :: "(u64 \<times> u64) list"
  px_result :: architectural_result
  px_unitHighWatermarks :: "npu_engine \<Rightarrow> nat"
  px_totalExecutions :: u64
  px_totalCompletions :: u64
  px_totalUnitStalls :: u64
  px_unitStallProposals :: u64
  px_totalMemoryRequests :: u64
  px_lastUpdate :: epoch

definition kNpuCompletionEvent :: u32 where "kNpuCompletionEvent = 0x4e505501"
definition kNpuMemoryServiceEvent :: u32 where "kNpuMemoryServiceEvent = 0x4e505502"
definition kNpuMemoryCleanupEvent :: u32 where "kNpuMemoryCleanupEvent = 0x4e505503"

fun configuredUnits :: "execution_config \<Rightarrow> npu_engine \<Rightarrow> nat" where
  "configuredUnits c Scalar = xc_scalarUnits c"
| "configuredUnits c Vector = xc_vectorUnits c"
| "configuredUnits c Cube = xc_cubeUnits c"
| "configuredUnits c Tma = xc_tmaUnits c"

text \<open>The members of a freshly constructed \<open>Impl\<close>, over the base object \<open>ob\<close>.\<close>

definition fresh_impl :: "execution_config \<Rightarrow> ptr option \<Rightarrow> sim_object \<Rightarrow> 'd pipeline" where
  "fresh_impl config system ob = sim_object.extend ob (pipeline.fields config system
     (newRequestResponse ''memory_protocol'' kInvalidObjectId None (xc_memoryRequests config) None)
     (newResource ''memory_controller'' kInvalidObjectId None
        (of_nat (min (xc_memoryRequests config) 4294967295)) None)
     [] [] [] [] [] [] [] False False [] [] [] [] [] [] [] new_result (\<lambda>_. 0) 0 0 0 0 0 epoch0)"

definition newExecutionPipeline ::
  "string \<Rightarrow> object_id \<Rightarrow> ptr option \<Rightarrow> execution_config \<Rightarrow> ptr option \<Rightarrow> ptr option \<Rightarrow> 'd pipeline" where
  "newExecutionPipeline nm i parent config system obs = fresh_impl config system
     \<lparr>so_kind = KCompute, so_name = nm, so_id = i, so_path = [], so_parent = parent, so_observationSink = obs,
      so_runtimeFailureCode = (if xc_memoryRequests config > 4294967295 then ''npu_memory_capacity_invalid'' else [])\<rparr>"

section \<open>Admission and execution\<close>

text \<open>The entries of all reorder buffers, in block order.\<close>

definition rob_entries :: "('d, 'z) pipeline_scheme \<Rightarrow> 'd rob_entry list" where
  "rob_entries c = concat (map snd (px_rob c))"

abbreviation rob_sequence :: "('d, 'z) rob_entry_scheme \<Rightarrow> u64" where
  "rob_sequence r \<equiv> ni_sequenceId (rb_instruction r)"

abbreviation active_sequence :: "('d, 'z) active_execution_scheme \<Rightarrow> u64" where
  "active_sequence x \<equiv> entry_sequence (ax_entry x)"

abbreviation active_engine :: "('d, 'z) active_execution_scheme \<Rightarrow> npu_engine" where
  "active_engine x \<equiv> entry_engine (ax_entry x)"

definition proposeAdmit :: "'d npu_instruction \<Rightarrow> ('d, 'z) pipeline_scheme \<Rightarrow> bool \<times> ('d, 'z) pipeline_scheme" where
  "proposeAdmit i c =
     (if list_ex (\<lambda>p. ni_sequenceId p = ni_sequenceId i) (px_admissionProposals c) then (False, c)
      else if (case map_of (px_lastAdmittedSequence c) (ni_blockId i) of None \<Rightarrow> False
               | Some q \<Rightarrow> ni_sequenceId i \<le> q) then (False, c)
      else if list_ex (\<lambda>r. rob_sequence r = ni_sequenceId i) (rob_entries c) then (False, c)
      else (True, c\<lparr>px_admissionProposals := px_admissionProposals c @ [i]\<rparr>))"

definition starts_with :: "string \<Rightarrow> string \<Rightarrow> bool" where
  "starts_with t s \<longleftrightarrow> take (length s) t = s"

definition executionLatency :: "'d npu_instruction \<Rightarrow> u64" where
  "executionLatency i =
     (case ni_engine i of
        Scalar \<Rightarrow> 1
      | Vector \<Rightarrow> if ni_opcode i \<in> {''TEXP'', ''TLOG'', ''TSQRT'', ''TRSQRT''} then 3 else 2
      | Cube \<Rightarrow> if starts_with (ni_opcode i) ''TMATMUL_MX'' then 5 else 4
      | Tma \<Rightarrow> if ni_opcode i = ''TSTORE'' \<or> ni_opcode i = ''TSTORE_FP'' then 4 else 3)"

definition is_store :: "'d npu_instruction \<Rightarrow> bool" where
  "is_store i = starts_with (ni_opcode i) ''TSTORE''"

definition activeExecutions :: "npu_engine \<Rightarrow> ('d, 'z) pipeline_scheme \<Rightarrow> nat" where
  "activeExecutions e c = length (filter (\<lambda>x. active_engine (snd x) = e) (px_active c))"

definition proposed_on :: "npu_engine \<Rightarrow> ('d, 'z) pipeline_scheme \<Rightarrow> nat" where
  "proposed_on e c = length (filter (\<lambda>x. active_engine x = e) (px_executionProposals c))"

text \<open>The scan for a free unit: \<open>while (occupiedUnit(unit)) ++unit\<close>.\<close>

definition occupied_units :: "npu_engine \<Rightarrow> ('d, 'z) pipeline_scheme \<Rightarrow> nat list" where
  "occupied_units e c = map ax_unitIndex
     (filter (\<lambda>x. active_engine x = e) (map snd (px_active c) @ px_executionProposals c))"

function first_free :: "nat list \<Rightarrow> nat \<Rightarrow> nat" where
  "first_free us n = (if n \<in> set us then first_free us (n + 1) else n)"
  by auto
termination
proof (relation "measure (\<lambda>(us, n). card {m \<in> set us. n \<le> m})", goal_cases)
  case (2 us n)
  then have "n \<in> {m \<in> set us. n \<le> m}" and "n \<notin> {m \<in> set us. n + 1 \<le> m}" by simp_all
  moreover have "{m \<in> set us. n + 1 \<le> m} \<subseteq> {m \<in> set us. n \<le> m}" by (intro Collect_mono) simp
  ultimately have "{m \<in> set us. n + 1 \<le> m} \<subset> {m \<in> set us. n \<le> m}" by blast
  then have "card {m \<in> set us. n + 1 \<le> m} < card {m \<in> set us. n \<le> m}"
    by (rule psubset_card_mono [rotated]) simp
  then show ?case by simp
qed simp

declare first_free.simps [simp del]

text \<open>The tiles that executions under way will still allocate in the scratchpad.\<close>

definition new_tiles :: "(string \<times> u64) list \<Rightarrow> 'd npu_instruction \<Rightarrow> string list" where
  "new_tiles scratchpad i = (if is_store i then []
     else filter (\<lambda>t. map_of scratchpad t = None) (map nd_identity (ni_outputTileDescriptors i)))"

definition pending_tiles :: "('d, 'z) pipeline_scheme \<Rightarrow> 'd npu_instruction \<Rightarrow> string list" where
  "pending_tiles c i = fold set_insert
     (concat (map (\<lambda>x. new_tiles (px_scratchpad c) (ie_instruction (ax_entry x)))
        (map snd (px_active c) @ px_executionProposals c)) @ new_tiles (px_scratchpad c) i) []"

definition memory_occupied :: "('d, 'z) pipeline_scheme \<Rightarrow> nat" where
  "memory_occupied c = length (filter (\<lambda>x. ax_memoryRequest x \<noteq> None) (map snd (px_active c) @ px_executionProposals c))"

fun hex_digit :: "char \<Rightarrow> nat option" where
  "hex_digit ch = (let n = of_char ch :: nat in
     if 48 \<le> n \<and> n \<le> 57 then Some (n - 48)
     else if 97 \<le> n \<and> n \<le> 102 then Some (n - 87)
     else if 65 \<le> n \<and> n \<le> 70 then Some (n - 55) else None)"

fun hex_value :: "string \<Rightarrow> nat \<Rightarrow> nat option" where
  "hex_value [] acc = Some acc"
| "hex_value (ch # t) acc = (case hex_digit ch of None \<Rightarrow> None | Some d \<Rightarrow> hex_value t (16 * acc + d))"

definition parseAddress :: "string \<Rightarrow> u64 option" where
  "parseAddress t =
     (if length t < 3 \<or> \<not> starts_with t ''0x'' then None
      else case hex_value (drop 2 t) 0 of
        None \<Rightarrow> None
      | Some n \<Rightarrow> if n \<ge> 2 ^ 64 then None else Some (of_nat n))"

definition untimed :: "'d npu_instruction \<Rightarrow> 'd npu_instruction" where
  "untimed i = i\<lparr>ni_timestamps := no_timestamps\<rparr>"

text \<open>
  \<open>proposeExecute\<close> answers through its result, the failure code and the stall counter. The memory
  part is the block for the TMA engine; it yields the request, or the reason it refused.
\<close>

datatype refusal = Stall | Failure string

definition stall :: "('d, 'z) pipeline_scheme \<Rightarrow> ('d, 'z) pipeline_scheme" where
  "stall c = c\<lparr>px_unitStallProposals := px_unitStallProposals c + 1\<rparr>"

definition memory_part ::
  "'d npu_instruction \<Rightarrow> ('d, 'z) pipeline_scheme \<Rightarrow> refusal + memory_request option" where
  "memory_part i c =
     (if ni_engine i \<noteq> Tma then Inr None
      else if memory_occupied c \<ge> xc_memoryRequests (px_config c) then Inl Stall
      else let write = is_store i;
               descriptors = (if write then ni_outputTileDescriptors i else ni_inputTileDescriptors i)
        in if descriptors = [] \<or> (\<not> write \<and> ni_outputTileDescriptors i = [])
           then Inl (Failure ''npu_memory_descriptor_missing'')
           else case parseAddress (nd_address (hd descriptors)) of
             None \<Rightarrow> Inl (Failure ''npu_memory_address_invalid'')
           | Some address \<Rightarrow> Inr (Some \<lparr>mq_sequenceId = ni_sequenceId i, mq_correlationId = ni_sequenceId i,
               mq_address = address, mq_write = write,
               mq_tileIdentity = nd_identity (hd (if write then ni_inputTileDescriptors i
                 else ni_outputTileDescriptors i))\<rparr>))"

definition admitted_instruction :: "u64 \<Rightarrow> ('d, 'z) pipeline_scheme \<Rightarrow> 'd npu_instruction option" where
  "admitted_instruction q c =
     fold (\<lambda>r admitted. if rob_sequence r = q then Some (rb_instruction r) else admitted) (rob_entries c) None"

definition npu_event :: "object_id \<Rightarrow> epoch \<Rightarrow> u32 \<Rightarrow> u64 \<Rightarrow> event" where
  "npu_event i wake kind q =
     \<lparr>ev_readyTime = wake, ev_targetId = i, ev_eventKind = kind, ev_payload = q, ev_sequence = 0\<rparr>"

definition proposeExecute ::
  "'s sim_api \<Rightarrow> ('d \<Rightarrow> 'd \<Rightarrow> bool) \<Rightarrow> 'd issue_entry \<Rightarrow> epoch \<Rightarrow> ('d, 'z) pipeline_scheme \<Rightarrow> 's
   \<Rightarrow> (bool \<times> ('d, 'z) pipeline_scheme) \<times> 's" where
  "proposeExecute api deq x issueEpoch c s =
     (let i = ie_instruction x; q = ni_sequenceId i; e = ni_engine i in
      case admitted_instruction q c of
        None \<Rightarrow> ((False, c), s)
      | Some admitted \<Rightarrow>
     if q \<in> set (px_executedSequences c) \<or> map_of (px_active c) q \<noteq> None \<or>
        list_ex (\<lambda>p. active_sequence p = q) (px_executionProposals c) then ((False, c), s)
     else if \<not> instruction_equal deq (untimed admitted) (untimed i)
     then ((False, setRuntimeFailureCode ''npu_execution_identity_mismatch'' c), s)
     else if activeExecutions e c + proposed_on e c \<ge> configuredUnits (px_config c) e
     then ((False, stall c), s)
     else let latency = executionLatency i in
     if ep_time issueEpoch > - 1 - latency
     then ((False, setRuntimeFailureCode ''npu_execution_time_overflow'' c), s)
     else let readyEpoch = Epoch (ep_time issueEpoch + latency) 0;
              unit_index = first_free (occupied_units e c) 0 in
     if length (px_scratchpad c) + length (pending_tiles c i) > xc_scratchpadTiles (px_config c)
     then ((False, stall c), s)
     else if is_store i \<and> (ni_inputTileDescriptors i = [] \<or>
               map_of (px_scratchpad c) (nd_identity (hd (ni_inputTileDescriptors i))) = None)
     then ((False, setRuntimeFailureCode ''npu_scratchpad_input_missing'' c), s)
     else case memory_part i c of
        Inl Stall \<Rightarrow> ((False, stall c), s)
      | Inl (Failure code) \<Rightarrow> ((False, setRuntimeFailureCode code c), s)
      | Inr request \<Rightarrow>
     let proposal = \<lparr>ax_entry = x, ax_issueEpoch = issueEpoch, ax_readyEpoch = readyEpoch,
           ax_unitIndex = unit_index, ax_memoryDelivered = False, ax_memoryRequest = request\<rparr>;
         wake = (if e = Tma then Epoch (ep_time issueEpoch + 1) 0 else readyEpoch);
         kind = (if e = Tma then kNpuMemoryServiceEvent else kNpuCompletionEvent);
         (ok, s1) = (case px_system c of None \<Rightarrow> (True, s)
                     | Some _ \<Rightarrow> api_scheduleEvent api (npu_event (so_id c) wake kind q) s)
     in if \<not> ok then ((False, setRuntimeFailureCode ''npu_completion_schedule_failed'' c), s1)
        else ((True, c\<lparr>px_executionProposals := px_executionProposals c @ [proposal]\<rparr>), s1))"

definition proposeTraceExhausted :: "('d, 'z) pipeline_scheme \<Rightarrow> bool \<times> ('d, 'z) pipeline_scheme" where
  "proposeTraceExhausted c =
     (if px_traceExhausted c \<or> px_traceExhaustedProposal c then (False, c)
      else (True, c\<lparr>px_traceExhaustedProposal := True\<rparr>))"

section \<open>Work\<close>

text \<open>\<open>while (auto response = memoryProtocol.proposePopResponse())\<close>\<close>

function pop_responses ::
  "('q, 'r) request_response \<Rightarrow> ('q, 'r) request_response" where
  "pop_responses p = (case rr_proposePopResponse p of (None, p1) \<Rightarrow> p1 | (Some _, p1) \<Rightarrow> pop_responses p1)"
  by auto
termination
  by (relation "measure (\<lambda>p. length (rr_committedResponses p) - rr_responsePopCount p)")
    (auto simp: rr_proposePopResponse_def split: if_splits)

declare pop_responses.simps [simp del]

text \<open>
  The service loop over the memory requests. It looks at the front request every time, as
  \<open>peekRequest\<close> does not advance with the pops proposed so far.
\<close>

definition service_blocked :: "epoch \<Rightarrow> 'd active_execution \<Rightarrow> bool" where
  "service_blocked epoch x \<longleftrightarrow> ep_time (ax_issueEpoch x) = - 1 \<or> ep_time epoch < ep_time (ax_issueEpoch x) + 1"

function service_loop :: "epoch \<Rightarrow> 'd pipeline \<Rightarrow> 'd pipeline" where
  "service_loop epoch c =
     (case rr_peekRequest (px_memoryProtocol c) of
        None \<Rightarrow> c
      | Some request \<Rightarrow>
          (case map_of (px_active c) (snd request) of
             None \<Rightarrow> setRuntimeFailureCode ''npu_memory_correlation_missing'' c
           | Some x \<Rightarrow>
               if service_blocked epoch x then c
               else if ax_memoryDelivered x
               then setRuntimeFailureCode ''npu_memory_request_delivered_twice'' c
               else (case rr_proposePopRequest (px_memoryProtocol c) of
                  (None, _) \<Rightarrow> c
                | (Some popped, p1) \<Rightarrow> service_loop epoch
                    (c\<lparr>px_memoryProtocol := p1, px_deliveryProposals := px_deliveryProposals c @ [snd popped]\<rparr>))))"
  by auto
termination
  by (relation "measure (\<lambda>(epoch, c). length (rr_committedRequests (px_memoryProtocol c)) -
       rr_requestPopCount (px_memoryProtocol c))")
    (auto simp: rr_proposePopRequest_def split: if_splits)

declare service_loop.simps [simp del]

text \<open>The value a memory access carries: a store reads its tile, a load is address \<open>xor\<close> sequence.\<close>

definition memory_value :: "(string \<times> u64) list \<Rightarrow> memory_request \<Rightarrow> u64 \<Rightarrow> u64" where
  "memory_value scratchpad r q =
     (if mq_write r then the (map_of scratchpad (mq_tileIdentity r)) else mq_address r XOR q)"

definition propose_completion :: "epoch \<Rightarrow> u64 \<times> 'd active_execution \<Rightarrow> 'd pipeline \<Rightarrow> 'd pipeline" where
  "propose_completion epoch ax c =
     (case ax of (q, x) \<Rightarrow>
      if ax_readyEpoch x \<noteq> epoch \<or> q \<in> set (px_completionProposals c) then c
      else case ax_memoryRequest x of
        None \<Rightarrow> c\<lparr>px_completionProposals := px_completionProposals c @ [q]\<rparr>
      | Some r \<Rightarrow>
          if \<not> ax_memoryDelivered x then c
          else case rr_proposeResponse \<lparr>ms_correlationId = q, ms_value = memory_value (px_scratchpad c) r q\<rparr> q
                      (px_memoryProtocol c) of
            (False, p1) \<Rightarrow> setRuntimeFailureCode ''npu_memory_response_failed'' (c\<lparr>px_memoryProtocol := p1\<rparr>)
          | (True, p1) \<Rightarrow>
              (case proposeCancel (so_id c) q (px_memoryController c) of
                 (False, m1) \<Rightarrow> setRuntimeFailureCode ''npu_memory_response_failed''
                   (c\<lparr>px_memoryProtocol := p1, px_memoryController := m1\<rparr>)
               | (True, m1) \<Rightarrow> c\<lparr>px_memoryProtocol := p1, px_memoryController := m1,
                   px_completionProposals := px_completionProposals c @ [q]\<rparr>))"

definition pipeline_doWork :: "epoch \<Rightarrow> 'd pipeline \<Rightarrow> 'd pipeline" where
  "pipeline_doWork epoch c =
     (let c1 = c\<lparr>px_memoryProtocol := pop_responses (px_memoryProtocol c)\<rparr>;
          c2 = service_loop epoch c1
      in fold (propose_completion epoch) (px_active c2) c2)"

section \<open>Arbitration\<close>

definition admission_key :: "'d npu_instruction \<Rightarrow> u64 \<times> u64" where
  "admission_key i = (ni_sequenceId i, ni_blockId i)"

definition request_memory :: "'d active_execution \<Rightarrow> 'd pipeline \<Rightarrow> 'd pipeline" where
  "request_memory x c =
     (case ax_memoryRequest x of
        None \<Rightarrow> c
      | Some r \<Rightarrow>
          (case rr_proposeRequest r (active_sequence x) (px_memoryProtocol c) of
             (False, p1) \<Rightarrow> setRuntimeFailureCode ''npu_memory_request_failed'' (c\<lparr>px_memoryProtocol := p1\<rparr>)
           | (True, p1) \<Rightarrow>
               (case proposeReserve_full (so_id c) 1 (ax_issueEpoch x) (active_sequence x) (ax_readyEpoch x)
                       (active_sequence x) (px_memoryController c) of
                  (ok, m1) \<Rightarrow>
                    let c1 = c\<lparr>px_memoryProtocol := p1, px_memoryController := m1\<rparr>
                    in if ok then c1 else setRuntimeFailureCode ''npu_memory_request_failed'' c1)))"

definition execute_observation :: "'d active_execution \<Rightarrow> event_proposal" where
  "execute_observation x = (observation ''instruction'' ''execute'' Complete)
     \<lparr>op_rootSequenceId := Some (active_sequence x),
      op_duration := Some (executionLatency (ie_instruction (ax_entry x))),
      op_arguments := [(''engine'', OString (engine_name (active_engine x))),
        (''unit_index'', OUInt (of_nat (ax_unitIndex x)))]\<rparr>"

definition instant_observation :: "string \<Rightarrow> u64 \<Rightarrow> event_proposal" where
  "instant_observation nm q = (observation ''instruction'' nm Instant)\<lparr>op_rootSequenceId := Some q\<rparr>"

definition pipeline_doArbitrate :: "'s sim_api \<Rightarrow> 'd pipeline \<Rightarrow> 's \<Rightarrow> 'd pipeline \<times> 's" where
  "pipeline_doArbitrate api c s =
     (let c1 = c\<lparr>px_admissionProposals := sort_key admission_key (px_admissionProposals c),
                 px_executionProposals := sort_key (issue_key \<circ> ax_entry) (px_executionProposals c)\<rparr>;
          c2 = fold request_memory (px_executionProposals c1) c1;
          (p3, s3) = rr_doArbitrate api (px_memoryProtocol c2) s;
          (m4, s4) = resource_doArbitrate api (px_memoryController c2) s3;
          c4 = c2\<lparr>px_memoryProtocol := p3, px_memoryController := m4\<rparr>
      in emitObservations api (map execute_observation (px_executionProposals c4) @
           map (instant_observation ''complete'') (px_completionProposals c4)) c4 s4)"

section \<open>Commit\<close>

definition pipeline_hasPendingCommit :: "('d, 'z) pipeline_scheme \<Rightarrow> bool" where
  "pipeline_hasPendingCommit c \<longleftrightarrow> px_admissionProposals c \<noteq> [] \<or> px_executionProposals c \<noteq> [] \<or>
     px_deliveryProposals c \<noteq> [] \<or> px_completionProposals c \<noteq> [] \<or> px_traceExhaustedProposal c \<or>
     px_unitStallProposals c \<noteq> 0 \<or> rr_hasPendingCommit (px_memoryProtocol c) \<or>
     resource_hasPendingCommit (px_memoryController c)"

definition rob_at :: "u64 \<Rightarrow> (u64 \<times> 'd rob_entry list) list \<Rightarrow> 'd rob_entry list" where
  "rob_at b rob = (case map_of rob b of None \<Rightarrow> [] | Some rs \<Rightarrow> rs)"

definition commit_admission :: "'d npu_instruction \<Rightarrow> 'd pipeline \<Rightarrow> 'd pipeline" where
  "commit_admission i c =
     (let b = ni_blockId i in
      c\<lparr>px_rob := map_put b (sort_key rob_sequence (rob_at b (px_rob c) @
           [\<lparr>rb_instruction = i, rb_completed = False\<rparr>])) (px_rob c),
        px_lastAdmittedSequence := map_put b (ni_sequenceId i) (px_lastAdmittedSequence c)\<rparr>)"

definition commit_execution :: "'d active_execution \<Rightarrow> 'd pipeline \<Rightarrow> 'd pipeline" where
  "commit_execution x c =
     (let q = active_sequence x;
          c1 = c\<lparr>px_executedSequences := set_insert q (px_executedSequences c)\<rparr>;
          c2 = (case ax_memoryRequest x of None \<Rightarrow> c1
                | Some r \<Rightarrow> c1\<lparr>px_memoryRequests := px_memoryRequests c1 @ [r],
                               px_totalMemoryRequests := px_totalMemoryRequests c1 + 1\<rparr>)
      in c2\<lparr>px_active := map_emplace q x (px_active c2), px_totalExecutions := px_totalExecutions c2 + 1\<rparr>)"

definition commit_delivery :: "'s sim_api \<Rightarrow> u64 \<Rightarrow> 'd pipeline \<times> 's \<Rightarrow> 'd pipeline \<times> 's" where
  "commit_delivery api q cs =
     (case cs of (c, s) \<Rightarrow>
      case map_of (px_active c) q of
        None \<Rightarrow> (setRuntimeFailureCode ''npu_memory_correlation_missing'' c, s)
      | Some x \<Rightarrow>
          let c1 = c\<lparr>px_active := map_put q (x\<lparr>ax_memoryDelivered := True\<rparr>) (px_active c)\<rparr>
          in case px_system c of
            None \<Rightarrow> (c1, s)
          | Some _ \<Rightarrow>
              (case api_scheduleEvent api (npu_event (so_id c) (ax_readyEpoch x) kNpuCompletionEvent q) s of
                 (True, s1) \<Rightarrow> (c1, s1)
               | (False, s1) \<Rightarrow> (setRuntimeFailureCode ''npu_completion_schedule_failed'' c1, s1)))"

text \<open>Marking the reorder-buffer entry of a completed instruction.\<close>

definition mark_completed :: "'d npu_instruction \<Rightarrow> 'd rob_entry \<Rightarrow> 'd rob_entry" where
  "mark_completed i r =
     (if rob_sequence r = ni_sequenceId i then r\<lparr>rb_instruction := i, rb_completed := True\<rparr> else r)"

definition stamp_completed :: "epoch \<Rightarrow> 'd issue_entry \<Rightarrow> 'd issue_entry" where
  "stamp_completed epoch x = x\<lparr>ie_instruction := (ie_instruction x)
     \<lparr>ni_timestamps := (ni_timestamps (ie_instruction x))\<lparr>nt_completed := Some (ep_time epoch)\<rparr>\<rparr>\<rparr>"

text \<open>The memory side of a completion: the value, the store, the response and the clean-up event.\<close>

definition complete_memory ::
  "'s sim_api \<Rightarrow> epoch \<Rightarrow> u64 \<Rightarrow> memory_request \<Rightarrow> 'd pipeline \<times> 's \<Rightarrow> u64 \<times> 'd pipeline \<times> 's" where
  "complete_memory api epoch q r cs =
     (case cs of (c, s) \<Rightarrow>
      let v = memory_value (px_scratchpad c) r q;
          c1 = (if mq_write r then c\<lparr>px_globalMemory := map_put (mq_address r) v (px_globalMemory c)\<rparr> else c);
          c2 = c1\<lparr>px_memoryResponses := px_memoryResponses c1 @
                 [\<lparr>ms_correlationId = mq_correlationId r, ms_value = v\<rparr>]\<rparr>
      in case px_system c2 of
        None \<Rightarrow> (v, c2, s)
      | Some _ \<Rightarrow>
          if ep_time epoch = - 1
          then (v, setRuntimeFailureCode ''npu_completion_schedule_failed'' c2, s)
          else (case api_scheduleEvent api
                       (npu_event (so_id c2) (Epoch (ep_time epoch + 1) 0) kNpuMemoryCleanupEvent q) s of
                  (True, s1) \<Rightarrow> (v, c2, s1)
                | (False, s1) \<Rightarrow> (v, setRuntimeFailureCode ''npu_completion_schedule_failed'' c2, s1)))"

definition commit_completed :: "'s sim_api \<Rightarrow> epoch \<Rightarrow> u64 \<Rightarrow> 'd pipeline \<times> 's \<Rightarrow> 'd pipeline \<times> 's" where
  "commit_completed api epoch q cs =
     (case cs of (c, s) \<Rightarrow>
      case map_of (px_active c) q of
        None \<Rightarrow> (setRuntimeFailureCode ''npu_completion_correlation_missing'' c, s)
      | Some x \<Rightarrow>
          let completed = stamp_completed epoch (ax_entry x);
              i = ie_instruction completed;
              c1 = c\<lparr>px_rob := map (\<lambda>(b, rs). (b, map (mark_completed i) rs)) (px_rob c)\<rparr>;
              (v, c2, s2) = (case ax_memoryRequest x of
                  None \<Rightarrow> (q, c1, s) | Some r \<Rightarrow> complete_memory api epoch q r (c1, s));
              c3 = (if is_store i then c2
                    else c2\<lparr>px_scratchpad := fold (\<lambda>t m. map_put (nd_identity t) v m)
                           (ni_outputTileDescriptors i) (px_scratchpad c2)\<rparr>)
          in (c3\<lparr>px_completed := px_completed c3 @ [completed], px_active := map_del q (px_active c3),
                 px_totalCompletions := px_totalCompletions c3 + 1\<rparr>, s2))"

text \<open>Retirement.\<close>

definition updateDigest :: "'d npu_instruction \<Rightarrow> u64 \<Rightarrow> u64" where
  "updateDigest i digest =
     fold (\<lambda>tile h. fnv_byte 0 (fnv_text tile h)) (ni_outputTiles i)
       (fnv_byte 0 (fnv_text (ni_opcode i) (fnv_integer (ni_blockId i) (fnv_integer (ni_sequenceId i) digest))))"

definition stamp_retired :: "epoch \<Rightarrow> 'd npu_instruction \<Rightarrow> 'd npu_instruction" where
  "stamp_retired epoch i = i\<lparr>ni_timestamps := (ni_timestamps i)\<lparr>nt_retired := Some (ep_time epoch)\<rparr>\<rparr>"

definition retire_one :: "'s sim_api \<Rightarrow> epoch \<Rightarrow> 'd npu_instruction \<Rightarrow> 'd pipeline \<times> 's \<Rightarrow> 'd pipeline \<times> 's" where
  "retire_one api epoch i0 cs =
     (case cs of (c, s) \<Rightarrow>
      let i = stamp_retired epoch i0;
          r = px_result c;
          c1 = c\<lparr>px_result := \<lparr>ar_retiredInstructions = ar_retiredInstructions r + 1,
                  ar_digest = updateDigest i (ar_digest r),
                  ar_retiredSequenceIds = ar_retiredSequenceIds r @ [ni_sequenceId i]\<rparr>\<rparr>;
          (c2, s2) = emitObservation api (instant_observation ''retire'' (ni_sequenceId i)) c1 s
      in (c2\<lparr>px_retired := px_retired c2 @ [i]\<rparr>, s2))"

definition retire_block :: "'s sim_api \<Rightarrow> epoch \<Rightarrow> u64 \<times> 'd rob_entry list \<Rightarrow> 'd pipeline \<times> 's \<Rightarrow> 'd pipeline \<times> 's" where
  "retire_block api epoch br cs =
     (case fold (\<lambda>r. retire_one api epoch (rb_instruction r)) (takeWhile rb_completed (snd br)) cs of
        (c, s) \<Rightarrow> (c\<lparr>px_rob := map_put (fst br) (dropWhile rb_completed (snd br)) (px_rob c)\<rparr>, s))"

definition retire_key :: "'d npu_instruction \<Rightarrow> u64 \<times> u64" where
  "retire_key i = (ni_blockId i, ni_sequenceId i)"

definition pipeline_doXfer :: "'s sim_api \<Rightarrow> epoch \<Rightarrow> 'd pipeline \<Rightarrow> 's \<Rightarrow> 'd pipeline \<times> 's" where
  "pipeline_doXfer api epoch c s =
     (let changed = pipeline_hasPendingCommit c;
          c1 = c\<lparr>px_completed := [], px_retired := [],
                 px_memoryProtocol := rr_doXfer epoch (px_memoryProtocol c),
                 px_memoryController := resource_doXfer epoch (px_memoryController c)\<rparr>;
          c2 = fold commit_admission (px_admissionProposals c1) c1;
          c3 = fold commit_execution (px_executionProposals c2) c2;
          (c4, s4) = fold (commit_delivery api) (px_deliveryProposals c3) (c3, s);
          c5 = c4\<lparr>px_completionProposals := sort (px_completionProposals c4)\<rparr>;
          (c6, s6) = fold (commit_completed api epoch) (px_completionProposals c5) (c5, s4);
          c7 = c6\<lparr>px_completed := sort_key issue_key (px_completed c6)\<rparr>;
          (c8, s8) = fold (retire_block api epoch) (px_rob c7) (c7, s6);
          c9 = c8\<lparr>px_retired := sort_key retire_key (px_retired c8),
                  px_traceExhausted := px_traceExhausted c8 \<or> px_traceExhaustedProposal c8,
                  px_totalUnitStalls := px_totalUnitStalls c8 + px_unitStallProposals c8,
                  px_unitHighWatermarks := (\<lambda>e. max (px_unitHighWatermarks c8 e) (activeExecutions e c8)),
                  px_admissionProposals := [], px_executionProposals := [], px_deliveryProposals := [],
                  px_completionProposals := [], px_traceExhaustedProposal := False, px_unitStallProposals := 0\<rparr>
      in (if changed then c9\<lparr>px_lastUpdate := epoch\<rparr> else c9, s8))"

section \<open>Queries\<close>

definition pipeline_isRunnable :: "epoch \<Rightarrow> ('d, 'z) pipeline_scheme \<Rightarrow> bool" where
  "pipeline_isRunnable epoch c \<longleftrightarrow>
     pipeline_hasPendingCommit c \<or> list_ex (\<lambda>x. ax_readyEpoch (snd x) = epoch) (px_active c)"

definition pipeline_complete :: "('d, 'z) pipeline_scheme \<Rightarrow> bool" where
  "pipeline_complete c \<longleftrightarrow> px_traceExhausted c \<and> px_active c = [] \<and> px_admissionProposals c = [] \<and>
     px_executionProposals c = [] \<and> \<not> pipeline_hasPendingCommit c \<and>
     list_all (\<lambda>br. snd br = []) (px_rob c) \<and>
     ros_quiescent (rr_runtimeState (px_memoryProtocol c)) \<and>
     ros_quiescent (resource_runtimeState (px_memoryController c))"

definition pipeline_runtimeState :: "epoch \<Rightarrow> ('d, 'z) pipeline_scheme \<Rightarrow> runtime_object_state" where
  "pipeline_runtimeState epoch c =
     (let base = base_runtimeState (pipeline_hasPendingCommit c) (pipeline_isRunnable epoch c);
          occupancy = sum_list (map (\<lambda>br. length (snd br)) (px_rob c));
          active = length (px_active c);
          offers = length (px_admissionProposals c) + length (px_executionProposals c) + length (px_completionProposals c);
          quiescent = (pipeline_complete c \<or>
            (occupancy = 0 \<and> active = 0 \<and> offers = 0 \<and> \<not> pipeline_hasPendingCommit c))
      in base\<lparr>ros_queueOccupancy := occupancy, ros_activeReservations := active, ros_pendingOffers := offers,
              ros_quiescent := quiescent,
              ros_reason := (if \<not> quiescent
                 then (if active \<noteq> 0 then ''npu_execution_active'' else ''npu_retirement_pending'')
                 else ros_reason base)\<rparr>)"

definition pipeline_collectStatistics :: "('d, 'z) pipeline_scheme \<Rightarrow> stat_snapshot list" where
  "pipeline_collectStatistics c =
     (let append = (\<lambda>nm kind v. plain_snapshot nm (so_path c) kind v (px_lastUpdate c)) in
      [append ''active_executions'' Gauge (of_nat (length (px_active c))),
       append ''executed_instructions'' Counter (px_totalExecutions c),
       append ''completed_instructions'' Counter (px_totalCompletions c),
       append ''retired_instructions'' Counter (ar_retiredInstructions (px_result c)),
       append ''execution_unit_stalls'' Counter (px_totalUnitStalls c),
       append ''memory_requests'' Counter (px_totalMemoryRequests c),
       append ''scratchpad_tiles'' Gauge (of_nat (length (px_scratchpad c)))])"

definition pipeline_bindSystem :: "ptr option \<Rightarrow> ('d, 'z) pipeline_scheme \<Rightarrow> ('d, 'z) pipeline_scheme" where
  "pipeline_bindSystem system c = c\<lparr>px_system := system\<rparr>"

definition completionEpoch :: "u64 \<Rightarrow> ('d, 'z) pipeline_scheme \<Rightarrow> epoch" where
  "completionEpoch q c = (case map_of (px_active c) q of None \<Rightarrow> epoch0 | Some x \<Rightarrow> ax_readyEpoch x)"

definition canAccept :: "npu_engine \<Rightarrow> ('d, 'z) pipeline_scheme \<Rightarrow> bool" where
  "canAccept e c \<longleftrightarrow>
     (if activeExecutions e c + proposed_on e c \<ge> configuredUnits (px_config c) e then False
      else if e \<noteq> Tma then True
      else memory_occupied c < xc_memoryRequests (px_config c))"

definition scratchpadContains :: "string \<Rightarrow> ('d, 'z) pipeline_scheme \<Rightarrow> bool" where
  "scratchpadContains t c \<longleftrightarrow> map_of (px_scratchpad c) t \<noteq> None"

definition globalMemoryValue :: "u64 \<Rightarrow> ('d, 'z) pipeline_scheme \<Rightarrow> u64 option" where
  "globalMemoryValue a c = map_of (px_globalMemory c) a"

definition pipeline_reset :: "'d pipeline \<Rightarrow> 'd pipeline" where
  "pipeline_reset c = fresh_impl (px_config c) (px_system c)
     \<lparr>so_kind = so_kind c, so_name = so_name c, so_id = so_id c, so_path = so_path c, so_parent = so_parent c,
      so_observationSink = so_observationSink c, so_runtimeFailureCode = []\<rparr>"

end
