(* ===== verification/Npu_Retirement.thy ===== *)
theory Npu_Retirement
  imports Npu_Pipeline
begin

text \<open>
  What the execution pipeline promises. A round is what the runtime does to the pipeline in one
  epoch: proposals and Work calls in any number and order, one arbitration, one commit. The ghost
  histories of a run are the instructions admitted, the entries completed and the instructions
  retired, in commit order.
\<close>

section \<open>Rounds\<close>

datatype 'd pipeline_request =
  AdmitP "'d npu_instruction" | ExecuteP "'d issue_entry" epoch | ExhaustP | WorkP epoch

fun pipeline_propose ::
  "'s sim_api \<Rightarrow> ('d \<Rightarrow> 'd \<Rightarrow> bool) \<Rightarrow> 'd pipeline_request \<Rightarrow> 'd pipeline \<times> 's \<Rightarrow> 'd pipeline \<times> 's" where
  "pipeline_propose api deq (AdmitP i) cs = (snd (proposeAdmit i (fst cs)), snd cs)"
| "pipeline_propose api deq (ExecuteP x e) cs =
     (snd (fst (proposeExecute api deq x e (fst cs) (snd cs))), snd (proposeExecute api deq x e (fst cs) (snd cs)))"
| "pipeline_propose api deq ExhaustP cs = (snd (proposeTraceExhausted (fst cs)), snd cs)"
| "pipeline_propose api deq (WorkP e) cs = (pipeline_doWork e (fst cs), snd cs)"

definition pipeline_arbitrated ::
  "'s sim_api \<Rightarrow> ('d \<Rightarrow> 'd \<Rightarrow> bool) \<Rightarrow> 'd pipeline_request list \<Rightarrow> 'd pipeline \<times> 's \<Rightarrow> 'd pipeline \<times> 's" where
  "pipeline_arbitrated api deq reqs cs =
     (case fold (pipeline_propose api deq) reqs cs of (c, s) \<Rightarrow> pipeline_doArbitrate api c s)"

definition pipeline_round ::
  "'s sim_api \<Rightarrow> ('d \<Rightarrow> 'd \<Rightarrow> bool) \<Rightarrow> 'd pipeline_request list \<Rightarrow> epoch \<Rightarrow> 'd pipeline \<times> 's \<Rightarrow> 'd pipeline \<times> 's" where
  "pipeline_round api deq reqs epoch cs =
     (case pipeline_arbitrated api deq reqs cs of (c, s) \<Rightarrow> pipeline_doXfer api epoch c s)"

inductive pipeline_reaches ::
  "'s sim_api \<Rightarrow> ('d \<Rightarrow> 'd \<Rightarrow> bool) \<Rightarrow> execution_config \<Rightarrow> 'd pipeline \<times> 's \<Rightarrow>
   'd npu_instruction list \<Rightarrow> 'd issue_entry list \<Rightarrow> 'd npu_instruction list \<Rightarrow> bool"
  for api deq config where
  start: "pipeline_reaches api deq config (newExecutionPipeline nm i parent config system obs, s) [] [] []"
| round: "pipeline_reaches api deq config cs h K R \<Longrightarrow>
    cs' = pipeline_round api deq reqs epoch cs \<Longrightarrow>
    pipeline_reaches api deq config cs'
      (h @ px_admissionProposals (fst (pipeline_arbitrated api deq reqs cs)))
      (K @ px_completed (fst cs')) (R @ px_retired (fst cs'))"
| bind: "pipeline_reaches api deq config (c, s) h K R \<Longrightarrow>
    pipeline_reaches api deq config (pipeline_bindSystem system c, s) h K R"
| env: "pipeline_reaches api deq config (c, s) h K R \<Longrightarrow> pipeline_reaches api deq config (c, s') h K R"
| restart: "pipeline_reaches api deq config (c, s) h K R \<Longrightarrow>
    pipeline_reaches api deq config (pipeline_reset c, s) [] [] []"

section \<open>Frames\<close>

lemma pipeline_failure_frame [simp]:
  fixes c :: "'d pipeline"
  shows "px_config (setRuntimeFailureCode x c) = px_config c"
    "px_system (setRuntimeFailureCode x c) = px_system c"
    "px_memoryProtocol (setRuntimeFailureCode x c) = px_memoryProtocol c"
    "px_memoryController (setRuntimeFailureCode x c) = px_memoryController c"
    "px_rob (setRuntimeFailureCode x c) = px_rob c"
    "px_lastAdmittedSequence (setRuntimeFailureCode x c) = px_lastAdmittedSequence c"
    "px_admissionProposals (setRuntimeFailureCode x c) = px_admissionProposals c"
    "px_executionProposals (setRuntimeFailureCode x c) = px_executionProposals c"
    "px_active (setRuntimeFailureCode x c) = px_active c"
    "px_deliveryProposals (setRuntimeFailureCode x c) = px_deliveryProposals c"
    "px_completionProposals (setRuntimeFailureCode x c) = px_completionProposals c"
    "px_traceExhaustedProposal (setRuntimeFailureCode x c) = px_traceExhaustedProposal c"
    "px_traceExhausted (setRuntimeFailureCode x c) = px_traceExhausted c"
    "px_executedSequences (setRuntimeFailureCode x c) = px_executedSequences c"
    "px_completed (setRuntimeFailureCode x c) = px_completed c"
    "px_retired (setRuntimeFailureCode x c) = px_retired c"
    "px_scratchpad (setRuntimeFailureCode x c) = px_scratchpad c"
    "px_result (setRuntimeFailureCode x c) = px_result c"
    "px_unitHighWatermarks (setRuntimeFailureCode x c) = px_unitHighWatermarks c"
    "px_unitStallProposals (setRuntimeFailureCode x c) = px_unitStallProposals c"
    "so_observationSink (setRuntimeFailureCode x c) = so_observationSink c"
  unfolding setRuntimeFailureCode_def by (cases c; simp)+

lemma emitObservation_cases:
  obtains "fst (emitObservation api p ob s) = ob"
  | "fst (emitObservation api p ob s) = setRuntimeFailureCode ''observation_proposal_failed'' ob"
  using emitObservation_object [of api p ob s] by blast

lemma emitObservations_cases:
  obtains "fst (emitObservations api ps ob s) = ob"
  | "fst (emitObservations api ps ob s) = setRuntimeFailureCode ''observation_proposal_failed'' ob"
  using emitObservations_object [of api ps ob s] by blast

section \<open>Retirement in program order\<close>

text \<open>
  The identity check of \<open>proposeExecute\<close>: equal up to the timestamps. An instruction that was not
  compared is the same value.
\<close>

definition same_instruction :: "('d \<Rightarrow> 'd \<Rightarrow> bool) \<Rightarrow> 'd npu_instruction \<Rightarrow> 'd npu_instruction \<Rightarrow> bool" where
  "same_instruction deq i j \<longleftrightarrow> untimed i = untimed j \<or> instruction_equal deq (untimed i) (untimed j)"

lemma same_instruction_fields:
  assumes "same_instruction deq i j"
  shows "ni_sequenceId i = ni_sequenceId j" "ni_blockId i = ni_blockId j" "ni_opcode i = ni_opcode j"
    "ni_outputTiles i = ni_outputTiles j" "ni_engine i = ni_engine j"
proof -
  define a b where "a = untimed i" and "b = untimed j"
  have "a = b \<or> instruction_equal deq a b" using assms by (simp add: same_instruction_def a_def b_def)
  then have "ni_sequenceId a = ni_sequenceId b" "ni_blockId a = ni_blockId b" "ni_opcode a = ni_opcode b"
    "ni_outputTiles a = ni_outputTiles b" "ni_engine a = ni_engine b"
    by (auto simp: instruction_equal_def)
  then show "ni_sequenceId i = ni_sequenceId j" "ni_blockId i = ni_blockId j" "ni_opcode i = ni_opcode j"
    "ni_outputTiles i = ni_outputTiles j" "ni_engine i = ni_engine j"
    by (simp_all add: a_def b_def untimed_def)
qed

lemma untimed_stamps [simp]:
  "untimed (stamp_retired e i) = untimed i"
  "untimed (ie_instruction (stamp_completed e x)) = untimed (ie_instruction x)"
  "ni_sequenceId (stamp_retired e i) = ni_sequenceId i"
  "ni_blockId (stamp_retired e i) = ni_blockId i"
  "ni_sequenceId (ie_instruction (stamp_completed e x)) = entry_sequence x"
  by (simp_all add: untimed_def stamp_retired_def stamp_completed_def)

definition of_block :: "u64 \<Rightarrow> 'd npu_instruction list \<Rightarrow> 'd npu_instruction list" where
  "of_block b is = filter (\<lambda>i. ni_blockId i = b) is"

definition rob_match :: "('d \<Rightarrow> 'd \<Rightarrow> bool) \<Rightarrow> 'd npu_instruction \<Rightarrow> 'd rob_entry \<Rightarrow> bool" where
  "rob_match deq a r \<longleftrightarrow>
     (if rb_completed r then same_instruction deq a (rb_instruction r) else rb_instruction r = a)"

lemma rob_match_same: "rob_match deq a r \<Longrightarrow> same_instruction deq a (rb_instruction r)"
  by (auto simp: rob_match_def same_instruction_def split: if_splits)

text \<open>
  The instructions admitted to a block are those retired from it followed by those in its reorder
  buffer, both in admission order, which is the order of sequences.
\<close>

definition block_ok ::
  "('d \<Rightarrow> 'd \<Rightarrow> bool) \<Rightarrow> 'd npu_instruction list \<Rightarrow> 'd npu_instruction list \<Rightarrow> 'd rob_entry list \<Rightarrow> bool" where
  "block_ok deq hb Rb rs \<longleftrightarrow> increasing (map ni_sequenceId hb) \<and>
     (\<exists>old new. hb = old @ new \<and> list_all2 (same_instruction deq) old Rb \<and> list_all2 (rob_match deq) new rs)"

definition last_sequence :: "'d npu_instruction list \<Rightarrow> u64 option" where
  "last_sequence is = (if is = [] then None else Some (ni_sequenceId (last is)))"

definition rob_ok ::
  "('d \<Rightarrow> 'd \<Rightarrow> bool) \<Rightarrow> 'd npu_instruction list \<Rightarrow> 'd issue_entry list \<Rightarrow> 'd npu_instruction list \<Rightarrow> 'd pipeline \<Rightarrow> bool" where
  "rob_ok deq h K R c \<longleftrightarrow> ordered (px_rob c) \<and> ordered (px_lastAdmittedSequence c) \<and>
     (\<forall>b. \<forall>r \<in> set (rob_at b (px_rob c)). ni_blockId (rb_instruction r) = b) \<and>
     distinct (map rob_sequence (rob_entries c)) \<and>
     (\<forall>b. block_ok deq (of_block b h) (of_block b R) (rob_at b (px_rob c)) \<and>
          map_of (px_lastAdmittedSequence c) b = last_sequence (of_block b h)) \<and>
     (\<forall>r \<in> set (rob_entries c). rb_completed r \<longrightarrow> rb_instruction r \<in> ie_instruction ` set K)"

lemma block_ok_sequences:
  assumes "block_ok deq hb Rb rs"
  shows "map ni_sequenceId hb = map ni_sequenceId Rb @ map rob_sequence rs"
    and "increasing (map ni_sequenceId hb)" and "increasing (map rob_sequence rs)"
proof -
  obtain old new where s: "hb = old @ new" "list_all2 (same_instruction deq) old Rb" "list_all2 (rob_match deq) new rs"
    and inc: "increasing (map ni_sequenceId hb)"
    using assms by (auto simp: block_ok_def)
  have "map ni_sequenceId old = map ni_sequenceId Rb"
    using s(2) by (induction rule: list_all2_induct) (simp_all add: same_instruction_fields(1))
  moreover have "map ni_sequenceId new = map rob_sequence rs"
    using s(3) by (induction rule: list_all2_induct) (simp_all add: same_instruction_fields(1) [OF rob_match_same])
  ultimately show eq: "map ni_sequenceId hb = map ni_sequenceId Rb @ map rob_sequence rs"
    by (simp add: s(1))
  show "increasing (map ni_sequenceId hb)" by (rule inc)
  with eq show "increasing (map rob_sequence rs)" by (simp add: sorted_wrt_append)
qed

lemma rob_at_simps: "map_of rob b = Some rs \<Longrightarrow> rob_at b rob = rs" "map_of rob b = None \<Longrightarrow> rob_at b rob = []"
  by (simp_all add: rob_at_def)

lemma rob_at_in_entries: "set (rob_at b (px_rob c)) \<subseteq> set (rob_entries c)"
proof (cases "map_of (px_rob c) b")
  case (Some rs)
  then have "(b, rs) \<in> set (px_rob c)" by (rule map_of_SomeD)
  then show ?thesis using Some by (force simp: rob_at_simps rob_entries_def)
qed (simp add: rob_at_simps)

lemma rob_entries_at:
  assumes "ordered (px_rob c)" and "r \<in> set (rob_entries c)"
  obtains b where "r \<in> set (rob_at b (px_rob c))"
proof -
  obtain b rs where "(b, rs) \<in> set (px_rob c)" and r: "r \<in> set rs"
    using assms(2) by (auto simp: rob_entries_def)
  then have "map_of (px_rob c) b = Some rs" using assms(1) by (simp add: map_of_in_ordered)
  with r have "r \<in> set (rob_at b (px_rob c))" by (simp add: rob_at_simps)
  then show ?thesis by (rule that)
qed

lemma rob_at_map: "rob_at b (map (\<lambda>(b, rs). (b, f rs)) rob) = (case map_of rob b of None \<Rightarrow> [] | Some rs \<Rightarrow> f rs)"
  by (induction rob) (auto simp: rob_at_def)

subsection \<open>Admission\<close>

lemma rob_at_put: "ordered rob \<Longrightarrow> rob_at b (map_put k rs rob) = (if b = k then rs else rob_at b rob)"
  by (simp add: rob_at_def map_of_map_put)

lemma rob_entries_put:
  fixes rob :: "(u64 \<times> 'd rob_entry list) list"
  assumes "ordered rob"
  shows "mset (rob_at b rob) + mset (concat (map snd (map_put b rs rob))) = mset rs + mset (concat (map snd rob))"
proof -
  let ?g = "\<lambda>M :: (u64 \<times> 'd rob_entry list) multiset. sum_mset (image_mset (mset \<circ> snd) M)"
  have g: "mset (concat (map snd xs)) = ?g (mset xs)" for xs :: "(u64 \<times> 'd rob_entry list) list"
    by (induction xs) simp_all
  show ?thesis
  proof (cases "map_of rob b")
    case None
    then show ?thesis by (simp add: g mset_map_put_new [OF assms] rob_at_simps)
  next
    case (Some ws)
    have "?g (add_mset (b, ws) (mset (map_put b rs rob))) = ?g (add_mset (b, rs) (mset rob))"
      by (simp only: mset_map_put_old [OF assms Some])
    then show ?thesis by (simp add: g rob_at_simps(1) [OF Some])
  qed
qed

lemma commit_admission_frame:
  shows "px_rob (commit_admission i c) = map_put (ni_blockId i) (sort_key rob_sequence
      (rob_at (ni_blockId i) (px_rob c) @ [\<lparr>rb_instruction = i, rb_completed = False\<rparr>])) (px_rob c)"
    "px_lastAdmittedSequence (commit_admission i c) =
      map_put (ni_blockId i) (ni_sequenceId i) (px_lastAdmittedSequence c)"
  by (simp_all add: commit_admission_def Let_def)

definition admissible :: "'d npu_instruction \<Rightarrow> 'd pipeline \<Rightarrow> bool" where
  "admissible i c \<longleftrightarrow>
     (case map_of (px_lastAdmittedSequence c) (ni_blockId i) of None \<Rightarrow> True | Some q \<Rightarrow> q < ni_sequenceId i) \<and>
     ni_sequenceId i \<notin> rob_sequence ` set (rob_entries c)"

lemma last_sequence_bound:
  assumes "increasing (map ni_sequenceId is)" and "case last_sequence is of None \<Rightarrow> True | Some q \<Rightarrow> q < k"
  shows "\<forall>i \<in> set is. ni_sequenceId i < k"
proof (cases "is" rule: rev_cases)
  case (snoc js j)
  with assms show ?thesis by (auto simp: last_sequence_def sorted_wrt_append)
qed simp

lemma commit_admission_block:
  assumes "rob_ok deq h K R c" and "admissible i c"
  shows "rob_at b (px_rob (commit_admission i c)) = (if b = ni_blockId i
      then rob_at b (px_rob c) @ [\<lparr>rb_instruction = i, rb_completed = False\<rparr>] else rob_at b (px_rob c))"
    and "block_ok deq (of_block b (h @ [i])) (of_block b R) (rob_at b (px_rob (commit_admission i c)))"
proof -
  let ?b = "ni_blockId i" and ?new = "\<lparr>rb_instruction = i, rb_completed = False\<rparr>"
  have ord: "ordered (px_rob c)" using assms(1) by (simp add: rob_ok_def)
  have ok: "block_ok deq (of_block b h) (of_block b R) (rob_at b (px_rob c))" for b
    using assms(1) by (simp add: rob_ok_def)
  have below: "\<forall>j \<in> set (of_block ?b h). ni_sequenceId j < ni_sequenceId i"
    by (rule last_sequence_bound [OF block_ok_sequences(2) [OF ok]])
      (use assms in \<open>simp add: rob_ok_def admissible_def\<close>)
  then have "\<forall>q \<in> set (map ni_sequenceId (of_block ?b h)). q < ni_sequenceId i" by simp
  then have "\<forall>r \<in> set (rob_at ?b (px_rob c)). rob_sequence r < ni_sequenceId i"
    unfolding block_ok_sequences(1) [OF ok] by simp
  then have "sorted_by rob_sequence (rob_at ?b (px_rob c) @ [?new])"
    using block_ok_sequences(3) [OF ok, of ?b] by (auto simp: sorted_append strict_sorted_iff less_imp_le)
  then have at: "sort_key rob_sequence (rob_at ?b (px_rob c) @ [?new]) = rob_at ?b (px_rob c) @ [?new]"
    by (rule sort_key_id_if_sorted)
  show rob: "rob_at b (px_rob (commit_admission i c)) = (if b = ?b
      then rob_at b (px_rob c) @ [?new] else rob_at b (px_rob c))"
    by (simp add: commit_admission_frame rob_at_put [OF ord] at)
  show "block_ok deq (of_block b (h @ [i])) (of_block b R) (rob_at b (px_rob (commit_admission i c)))"
  proof (cases "b = ?b")
    case True
    obtain old new where s: "of_block b h = old @ new" "list_all2 (same_instruction deq) old (of_block b R)"
      "list_all2 (rob_match deq) new (rob_at b (px_rob c))"
      using ok [of b] by (auto simp: block_ok_def)
    have "list_all2 (rob_match deq) (new @ [i]) (rob_at b (px_rob c) @ [?new])"
      using s(3) by (simp add: list_all2_appendI rob_match_def)
    moreover have "of_block b (h @ [i]) = old @ (new @ [i])" using s(1) True by (simp add: of_block_def)
    moreover have "increasing (map ni_sequenceId (of_block b (h @ [i])))"
      using below True block_ok_sequences(2) [OF ok, of b] by (simp add: of_block_def sorted_wrt_append)
    ultimately show ?thesis using True s(2) unfolding rob block_ok_def by auto
  next
    case False
    then show ?thesis using ok [of b] by (simp add: rob of_block_def)
  qed
qed

lemma commit_admission_ok:
  assumes "rob_ok deq h K R c" and "admissible i c"
  shows "rob_ok deq (h @ [i]) K R (commit_admission i c)"
    and "mset (rob_entries (commit_admission i c)) =
      add_mset \<lparr>rb_instruction = i, rb_completed = False\<rparr> (mset (rob_entries c))"
proof -
  let ?new = "\<lparr>rb_instruction = i, rb_completed = False\<rparr>"
  have ord: "ordered (px_rob c)" and ordl: "ordered (px_lastAdmittedSequence c)"
    using assms(1) by (simp_all add: rob_ok_def)
  note blk = commit_admission_block [OF assms]
  show ms: "mset (rob_entries (commit_admission i c)) = add_mset ?new (mset (rob_entries c))"
    using rob_entries_put [OF ord, of "ni_blockId i" "sort_key rob_sequence (rob_at (ni_blockId i) (px_rob c) @ [?new])"]
    by (simp add: rob_entries_def commit_admission_frame)
  have "mset (map rob_sequence (rob_entries (commit_admission i c))) =
      mset (ni_sequenceId i # map rob_sequence (rob_entries c))"
    using ms by (metis (no_types, lifting) image_mset_add_mset mset.simps(2) mset_map rob_entry.select_convs(1))
  then have "distinct (map rob_sequence (rob_entries (commit_admission i c)))"
    using assms unfolding rob_ok_def admissible_def by (metis distinct.simps(2) list.set_map mset_eq_imp_distinct_iff)
  moreover have "set (rob_entries (commit_admission i c)) = insert ?new (set (rob_entries c))"
    using ms by (metis set_mset_add_mset_insert set_mset_mset)
  moreover have "map_of (px_lastAdmittedSequence (commit_admission i c)) b = last_sequence (of_block b (h @ [i]))" for b
    using assms(1) ordl by (simp add: commit_admission_frame map_of_map_put rob_ok_def of_block_def last_sequence_def)
  ultimately show "rob_ok deq (h @ [i]) K R (commit_admission i c)"
    using assms(1) blk(1,2) unfolding rob_ok_def by (simp add: commit_admission_frame)
qed

lemma fold_frame: "(\<And>x c. f (g x c) = f c) \<Longrightarrow> f (fold g xs c) = f c"
  by (induction xs arbitrary: c) simp_all

definition new_rob :: "'d npu_instruction \<Rightarrow> 'd rob_entry" where
  "new_rob i = \<lparr>rb_instruction = i, rb_completed = False\<rparr>"

lemma admissible_after:
  assumes "rob_ok deq h K R c" and "admissible i c" and "admissible j c" and "ni_sequenceId i < ni_sequenceId j"
  shows "admissible j (commit_admission i c)"
proof -
  have "set (rob_entries (commit_admission i c)) = insert (new_rob i) (set (rob_entries c))"
    using commit_admission_ok(2) [OF assms(1,2)] by (metis new_rob_def set_mset_add_mset_insert set_mset_mset)
  moreover have "ordered (px_lastAdmittedSequence c)" using assms(1) by (simp add: rob_ok_def)
  ultimately show ?thesis
    using assms(3,4) by (auto simp: admissible_def commit_admission_frame map_of_map_put new_rob_def)
qed

lemma commit_admissions_ok:
  assumes "rob_ok deq h K R c" and "increasing (map ni_sequenceId A)" and "\<forall>i \<in> set A. admissible i c"
  shows "rob_ok deq (h @ A) K R (fold commit_admission A c) \<and>
    mset (rob_entries (fold commit_admission A c)) = mset (map new_rob A) + mset (rob_entries c)"
  using assms
proof (induction A arbitrary: h c)
  case (Cons i A)
  have i: "admissible i c" using Cons.prems(3) by simp
  have "rob_ok deq ((h @ [i]) @ A) K R (fold commit_admission A (commit_admission i c)) \<and>
    mset (rob_entries (fold commit_admission A (commit_admission i c))) =
      mset (map new_rob A) + mset (rob_entries (commit_admission i c))"
    by (rule Cons.IH [OF commit_admission_ok(1) [OF Cons.prems(1) i]])
      (use Cons.prems admissible_after [OF Cons.prems(1) i] in auto)
  then show ?case using commit_admission_ok(2) [OF Cons.prems(1) i] by (simp add: new_rob_def [of i])
qed simp

lemma commit_admissions_frame:
  fixes c :: "'d pipeline"
  shows "px_config (fold commit_admission A c) = px_config c"
    "px_system (fold commit_admission A c) = px_system c"
    "px_memoryProtocol (fold commit_admission A c) = px_memoryProtocol c"
    "px_memoryController (fold commit_admission A c) = px_memoryController c"
    "px_executionProposals (fold commit_admission A c) = px_executionProposals c"
    "px_active (fold commit_admission A c) = px_active c"
    "px_deliveryProposals (fold commit_admission A c) = px_deliveryProposals c"
    "px_completionProposals (fold commit_admission A c) = px_completionProposals c"
    "px_executedSequences (fold commit_admission A c) = px_executedSequences c"
    "px_completed (fold commit_admission A c) = px_completed c"
    "px_retired (fold commit_admission A c) = px_retired c"
    "px_scratchpad (fold commit_admission A c) = px_scratchpad c"
    "px_result (fold commit_admission A c) = px_result c"
    "so_id (fold commit_admission A c) = so_id c"
    "so_runtimeFailureCode (fold commit_admission A c) = so_runtimeFailureCode c"
    "px_traceExhausted (fold commit_admission A c) = px_traceExhausted c"
    "px_traceExhaustedProposal (fold commit_admission A c) = px_traceExhaustedProposal c"
  by (rule fold_frame; simp add: commit_admission_def Let_def)+

subsection \<open>Completion\<close>

lemma complete_memory_effect:
  fixes c :: "'d pipeline"
  obtains gm resp d s' where
    "complete_memory api e q r (c, s) = (memory_value (px_scratchpad c) r q, d, s')"
    "d = c\<lparr>px_globalMemory := gm, px_memoryResponses := resp\<rparr> \<or>
     px_system c \<noteq> None \<and> d = setRuntimeFailureCode ''npu_completion_schedule_failed''
       (c\<lparr>px_globalMemory := gm, px_memoryResponses := resp\<rparr>)"
proof -
  define gm where "gm = (if mq_write r then map_put (mq_address r) (memory_value (px_scratchpad c) r q) (px_globalMemory c)
    else px_globalMemory c)"
  define resp where "resp = px_memoryResponses c @
    [\<lparr>ms_correlationId = mq_correlationId r, ms_value = memory_value (px_scratchpad c) r q\<rparr>]"
  define c2 where "c2 = c\<lparr>px_globalMemory := gm, px_memoryResponses := resp\<rparr>"
  have sys: "px_system c2 = px_system c" by (simp add: c2_def)
  have base: "(if mq_write r then c\<lparr>px_globalMemory := map_put (mq_address r) (memory_value (px_scratchpad c) r q)
      (px_globalMemory c)\<rparr> else c)\<lparr>px_memoryResponses := resp\<rparr> = c2"
    by (simp add: gm_def c2_def)
  have resp: "px_memoryResponses (if mq_write r then c\<lparr>px_globalMemory := v\<rparr> else c) = px_memoryResponses c" for v
    by simp
  have "complete_memory api e q r (c, s) = (case px_system c2 of
        None \<Rightarrow> (memory_value (px_scratchpad c) r q, c2, s)
      | Some _ \<Rightarrow>
          if ep_time e = - 1
          then (memory_value (px_scratchpad c) r q, setRuntimeFailureCode ''npu_completion_schedule_failed'' c2, s)
          else (case api_scheduleEvent api (npu_event (so_id c2) (Epoch (ep_time e + 1) 0) kNpuMemoryCleanupEvent q) s of
                  (True, s1) \<Rightarrow> (memory_value (px_scratchpad c) r q, c2, s1)
                | (False, s1) \<Rightarrow> (memory_value (px_scratchpad c) r q,
                    setRuntimeFailureCode ''npu_completion_schedule_failed'' c2, s1)))"
    unfolding complete_memory_def Let_def case_prod_conv resp resp_def [symmetric] base ..
  then have "\<exists>d s'. complete_memory api e q r (c, s) = (memory_value (px_scratchpad c) r q, d, s') \<and>
      (d = c2 \<or> px_system c \<noteq> None \<and> d = setRuntimeFailureCode ''npu_completion_schedule_failed'' c2)"
    unfolding sys by (simp split: option.split prod.split bool.split)
  then show ?thesis using that unfolding c2_def by blast
qed

text \<open>The value a completing execution leaves in its output tiles.\<close>

definition result_value :: "(string \<times> u64) list \<Rightarrow> u64 \<Rightarrow> 'd active_execution \<Rightarrow> u64" where
  "result_value scratchpad q x =
     (case ax_memoryRequest x of None \<Rightarrow> q | Some r \<Rightarrow> memory_value scratchpad r q)"

definition write_tiles :: "u64 \<Rightarrow> 'd npu_instruction \<Rightarrow> (string \<times> u64) list \<Rightarrow> (string \<times> u64) list" where
  "write_tiles v i m = (if is_store i then m
     else fold (\<lambda>t m. map_put (nd_identity t) v m) (ni_outputTileDescriptors i) m)"

definition mark_rob :: "'d npu_instruction \<Rightarrow> (u64 \<times> 'd rob_entry list) list \<Rightarrow> (u64 \<times> 'd rob_entry list) list" where
  "mark_rob i rob = map (\<lambda>(b, rs). (b, map (mark_completed i) rs)) rob"

lemma commit_completed_effect:
  fixes c :: "'d pipeline"
  assumes "map_of (px_active c) q = Some x"
  obtains d s' where "commit_completed api e q (c, s) = (d, s')"
    "px_rob d = mark_rob (ie_instruction (stamp_completed e (ax_entry x))) (px_rob c)"
    "px_active d = map_del q (px_active c)"
    "px_completed d = px_completed c @ [stamp_completed e (ax_entry x)]"
    "px_scratchpad d = write_tiles (result_value (px_scratchpad c) q x)
       (ie_instruction (stamp_completed e (ax_entry x))) (px_scratchpad c)"
    "px_config d = px_config c" "px_system d = px_system c" "px_memoryProtocol d = px_memoryProtocol c"
    "px_memoryController d = px_memoryController c" "px_lastAdmittedSequence d = px_lastAdmittedSequence c"
    "px_executedSequences d = px_executedSequences c" "px_retired d = px_retired c"
    "px_result d = px_result c" "so_id d = so_id c" "px_traceExhausted d = px_traceExhausted c"
    "px_traceExhaustedProposal d = px_traceExhaustedProposal c"
    "so_runtimeFailureCode d = so_runtimeFailureCode c \<or>
     px_system c \<noteq> None \<and> so_runtimeFailureCode d = ''npu_completion_schedule_failed''"
proof -
  define k where "k = stamp_completed e (ax_entry x)"
  define c1 where "c1 = c\<lparr>px_rob := mark_rob (ie_instruction k) (px_rob c)\<rparr>"
  have pad: "px_scratchpad c1 = px_scratchpad c" "px_system c1 = px_system c" by (simp_all add: c1_def)
  obtain v c2 s2 gm resp where mem: "(case ax_memoryRequest x of None \<Rightarrow> (q, c1, s)
      | Some r \<Rightarrow> complete_memory api e q r (c1, s)) = (v, c2, s2)"
    and v: "v = result_value (px_scratchpad c) q x"
    and c2: "c2 = c1 \<or> c2 = c1\<lparr>px_globalMemory := gm, px_memoryResponses := resp\<rparr> \<or> px_system c \<noteq> None \<and>
      c2 = setRuntimeFailureCode ''npu_completion_schedule_failed'' (c1\<lparr>px_globalMemory := gm, px_memoryResponses := resp\<rparr>)"
  proof (cases "ax_memoryRequest x")
    case None
    show ?thesis by (rule that [of q c1 s "[]" "[]"]) (simp_all only: None option.case result_value_def simp_thms)
  next
    case (Some r)
    obtain gm resp d s' where "complete_memory api e q r (c1, s) = (memory_value (px_scratchpad c1) r q, d, s')"
      "d = c1\<lparr>px_globalMemory := gm, px_memoryResponses := resp\<rparr> \<or>
       px_system c1 \<noteq> None \<and> d = setRuntimeFailureCode ''npu_completion_schedule_failed''
         (c1\<lparr>px_globalMemory := gm, px_memoryResponses := resp\<rparr>)"
      by (rule complete_memory_effect)
    note d = this [unfolded pad]
    show ?thesis by (rule that [OF _ _ disjI2 [OF d(2)]]) (simp_all only: Some option.case result_value_def d(1))
  qed
  define c3 where "c3 = (if is_store (ie_instruction k) then c2 else c2\<lparr>px_scratchpad :=
    fold (\<lambda>t m. map_put (nd_identity t) v m) (ni_outputTileDescriptors (ie_instruction k)) (px_scratchpad c2)\<rparr>)"
  define d where "d = c3\<lparr>px_completed := px_completed c3 @ [k], px_active := map_del q (px_active c3),
    px_totalCompletions := px_totalCompletions c3 + 1\<rparr>"
  have eq: "commit_completed api e q (c, s) = (d, s2)"
    unfolding commit_completed_def case_prod_conv assms option.case Let_def k_def [symmetric]
      mark_rob_def [symmetric] c1_def [symmetric] mem c3_def [symmetric] d_def [symmetric] ..
  have f: "px_rob c2 = mark_rob (ie_instruction k) (px_rob c)" "px_active c2 = px_active c"
    "px_completed c2 = px_completed c" "px_scratchpad c2 = px_scratchpad c"
    "px_config c2 = px_config c" "px_system c2 = px_system c" "px_memoryProtocol c2 = px_memoryProtocol c"
    "px_memoryController c2 = px_memoryController c" "px_lastAdmittedSequence c2 = px_lastAdmittedSequence c"
    "px_executedSequences c2 = px_executedSequences c" "px_retired c2 = px_retired c"
    "px_result c2 = px_result c" "so_id c2 = so_id c" "px_traceExhausted c2 = px_traceExhausted c"
    "px_traceExhaustedProposal c2 = px_traceExhaustedProposal c"
    using c2 by (auto simp: c1_def)
  have code: "so_runtimeFailureCode c2 = so_runtimeFailureCode c \<or>
     px_system c \<noteq> None \<and> so_runtimeFailureCode c2 = ''npu_completion_schedule_failed''"
    using c2 by (auto simp: c1_def)
  have d_f: "px_rob d = px_rob c2" "px_active d = map_del q (px_active c2)"
    "px_completed d = px_completed c2 @ [k]" "px_scratchpad d = write_tiles v (ie_instruction k) (px_scratchpad c2)"
    "px_config d = px_config c2" "px_system d = px_system c2" "px_memoryProtocol d = px_memoryProtocol c2"
    "px_memoryController d = px_memoryController c2" "px_lastAdmittedSequence d = px_lastAdmittedSequence c2"
    "px_executedSequences d = px_executedSequences c2" "px_retired d = px_retired c2"
    "px_result d = px_result c2" "so_id d = so_id c2" "px_traceExhausted d = px_traceExhausted c2"
    "px_traceExhaustedProposal d = px_traceExhaustedProposal c2"
    "so_runtimeFailureCode d = so_runtimeFailureCode c2"
    unfolding d_def c3_def write_tiles_def by (cases "is_store (ie_instruction k)"; simp)+
  show ?thesis
    by (rule that [OF eq]) (use d_f f code in \<open>simp_all add: k_def [symmetric] v [symmetric]\<close>)
qed

lemma mark_completed_sequence [simp]: "rob_sequence (mark_completed i r) = rob_sequence r"
  by (simp add: mark_completed_def)

lemma mark_rob_at: "rob_at b (mark_rob i rob) = map (mark_completed i) (rob_at b rob)"
  unfolding mark_rob_def rob_at_map by (simp add: rob_at_def split: option.split)

lemma mark_rob_entries: "concat (map snd (mark_rob i rob)) = map (mark_completed i) (concat (map snd rob))"
  unfolding mark_rob_def by (induction rob) auto

lemma mark_rob_keys: "map fst (mark_rob i rob) = map fst rob"
  by (induction rob) (auto simp: mark_rob_def)

lemma mark_rob_ok:
  assumes ok: "rob_ok deq h K R c" and r0: "r0 \<in> set (rob_entries c)" "rob_sequence r0 = ni_sequenceId i"
      "\<not> rb_completed r0" "same_instruction deq (rb_instruction r0) i"
    and c': "px_rob c' = mark_rob i (px_rob c)" "px_lastAdmittedSequence c' = px_lastAdmittedSequence c"
    and i: "i = ie_instruction k"
  shows "rob_ok deq h (K @ [k]) R c'" and "rob_entries c' = map (mark_completed i) (rob_entries c)"
proof -
  show ent: "rob_entries c' = map (mark_completed i) (rob_entries c)"
    by (simp add: rob_entries_def c' mark_rob_entries)
  have dist: "distinct (map rob_sequence (rob_entries c))" using ok by (simp add: rob_ok_def)
  have only: "r = r0" if "r \<in> set (rob_entries c)" "rob_sequence r = ni_sequenceId i" for r
    using dist that r0 unfolding distinct_map inj_on_def by auto
  have match: "rob_match deq a (mark_completed i r)" if "rob_match deq a r" "r \<in> set (rob_entries c)" for a r
    using that only [of r] r0(3,4) by (auto simp: mark_completed_def rob_match_def)
  have blk: "ni_blockId (rb_instruction (mark_completed i r)) = ni_blockId (rb_instruction r)"
    if "r \<in> set (rob_entries c)" for r
    using that only [of r] same_instruction_fields(2) [OF r0(4)] by (auto simp: mark_completed_def)
  have "block_ok deq (of_block b h) (of_block b R) (map (mark_completed i) (rob_at b (px_rob c)))" for b
  proof -
    obtain old new where "of_block b h = old @ new" "list_all2 (same_instruction deq) old (of_block b R)"
      and m: "list_all2 (rob_match deq) new (rob_at b (px_rob c))" and "increasing (map ni_sequenceId (of_block b h))"
      using ok unfolding rob_ok_def block_ok_def by blast
    moreover have "list_all2 (rob_match deq) new (map (mark_completed i) (rob_at b (px_rob c)))"
      unfolding list_all2_map2
      by (rule list.rel_mono_strong [OF m]) (use match rob_at_in_entries [of b c] in blast)
    ultimately show ?thesis by (auto simp: block_ok_def)
  qed
  moreover have "\<forall>r \<in> set (rob_at b (px_rob c')). ni_blockId (rb_instruction r) = b" for b
    using ok rob_at_in_entries [of b c] blk by (auto simp: c' mark_rob_at rob_ok_def)
  moreover have "distinct (map rob_sequence (rob_entries c'))" using dist by (simp add: ent comp_def)
  moreover have "rb_completed r \<longrightarrow> rb_instruction r \<in> ie_instruction ` set (K @ [k])" if r: "r \<in> set (rob_entries c')" for r
  proof -
    obtain r1 where r1: "r1 \<in> set (rob_entries c)" "r = mark_completed i r1" using r by (auto simp: ent)
    then have "rb_completed r1 \<longrightarrow> rb_instruction r1 \<in> ie_instruction ` set K" using ok by (simp add: rob_ok_def)
    then show ?thesis by (auto simp: r1(2) mark_completed_def i)
  qed
  moreover have "ordered (px_rob c')" using ok by (simp add: c' mark_rob_keys rob_ok_def)
  ultimately show "rob_ok deq h (K @ [k]) R c'"
    using ok unfolding rob_ok_def c' by (simp add: mark_rob_at)
qed

subsection \<open>Retirement\<close>

definition retire_result :: "'d npu_instruction \<Rightarrow> architectural_result \<Rightarrow> architectural_result" where
  "retire_result i r = \<lparr>ar_retiredInstructions = ar_retiredInstructions r + 1,
     ar_digest = updateDigest i (ar_digest r), ar_retiredSequenceIds = ar_retiredSequenceIds r @ [ni_sequenceId i]\<rparr>"

definition retirees :: "epoch \<Rightarrow> 'd rob_entry list \<Rightarrow> 'd npu_instruction list" where
  "retirees e rs = map (\<lambda>r. stamp_retired e (rb_instruction r)) (takeWhile rb_completed rs)"

text \<open>What retirement leaves alone.\<close>

definition retire_frame :: "'d pipeline \<Rightarrow> 'd pipeline \<Rightarrow> bool" where
  "retire_frame c d \<longleftrightarrow> px_config d = px_config c \<and> px_system d = px_system c \<and>
     px_memoryProtocol d = px_memoryProtocol c \<and> px_memoryController d = px_memoryController c \<and>
     px_lastAdmittedSequence d = px_lastAdmittedSequence c \<and> px_active d = px_active c \<and>
     px_executedSequences d = px_executedSequences c \<and> px_completed d = px_completed c \<and>
     px_scratchpad d = px_scratchpad c \<and> so_id d = so_id c \<and> px_traceExhausted d = px_traceExhausted c \<and>
     px_traceExhaustedProposal d = px_traceExhaustedProposal c \<and>
     (so_runtimeFailureCode d = so_runtimeFailureCode c \<or> so_runtimeFailureCode d = ''observation_proposal_failed'')"

lemma retire_frame_refl: "retire_frame c c"
  by (simp add: retire_frame_def)

lemma retire_frame_trans: "retire_frame a b \<Longrightarrow> retire_frame b c \<Longrightarrow> retire_frame a c"
  unfolding retire_frame_def by (elim conjE, intro conjI) metis+

lemma retire_one_effect:
  fixes c :: "'d pipeline"
  obtains d s' where "retire_one api e i (c, s) = (d, s')" "retire_frame c d" "px_rob d = px_rob c"
    "px_retired d = px_retired c @ [stamp_retired e i]" "px_result d = retire_result (stamp_retired e i) (px_result c)"
proof -
  define c1 where "c1 = c\<lparr>px_result := retire_result (stamp_retired e i) (px_result c)\<rparr>"
  obtain c2 s2 where em: "emitObservation api (instant_observation ''retire'' (ni_sequenceId (stamp_retired e i))) c1 s = (c2, s2)"
    by (rule prod.exhaust)
  have eq: "retire_one api e i (c, s) = (c2\<lparr>px_retired := px_retired c2 @ [stamp_retired e i]\<rparr>, s2)"
    unfolding retire_one_def case_prod_conv Let_def retire_result_def [symmetric] c1_def [symmetric] em ..
  have c2: "c2 = c1 \<or> c2 = setRuntimeFailureCode ''observation_proposal_failed'' c1"
    using emitObservation_object [of api _ c1 s] em by (metis fst_conv)
  show ?thesis by (rule that [OF eq]) (use c2 in \<open>auto simp: retire_frame_def c1_def\<close>)
qed

lemma retire_many_effect:
  fixes c :: "'d pipeline"
  obtains d s' where "fold (\<lambda>r. retire_one api e (rb_instruction r)) rs (c, s) = (d, s')" "retire_frame c d"
    "px_rob d = px_rob c"
    "px_retired d = px_retired c @ map (\<lambda>r. stamp_retired e (rb_instruction r)) rs"
    "px_result d = fold retire_result (map (\<lambda>r. stamp_retired e (rb_instruction r)) rs) (px_result c)"
proof (induction rs arbitrary: c s thesis)
  case Nil
  show ?case by (rule Nil) (simp_all add: retire_frame_refl)
next
  case (Cons r rs)
  obtain c1 s1 where one: "retire_one api e (rb_instruction r) (c, s) = (c1, s1)" "retire_frame c c1" "px_rob c1 = px_rob c"
    "px_retired c1 = px_retired c @ [stamp_retired e (rb_instruction r)]"
    "px_result c1 = retire_result (stamp_retired e (rb_instruction r)) (px_result c)"
    by (rule retire_one_effect)
  obtain d s' where d: "fold (\<lambda>r. retire_one api e (rb_instruction r)) rs (c1, s1) = (d, s')" "retire_frame c1 d"
    "px_rob d = px_rob c1"
    "px_retired d = px_retired c1 @ map (\<lambda>r. stamp_retired e (rb_instruction r)) rs"
    "px_result d = fold retire_result (map (\<lambda>r. stamp_retired e (rb_instruction r)) rs) (px_result c1)"
    by (rule Cons.IH)
  show ?case by (rule Cons.prems) (use one d retire_frame_trans [OF one(2) d(2)] in simp_all)
qed

lemma retire_blocks_effect:
  fixes c :: "'d pipeline"
  obtains d s' where "fold (retire_block api e) brs (c, s) = (d, s')" "retire_frame c d"
    "px_rob d = fold (\<lambda>br. map_put (fst br) (dropWhile rb_completed (snd br))) brs (px_rob c)"
    "px_retired d = px_retired c @ concat (map (\<lambda>br. retirees e (snd br)) brs)"
    "px_result d = fold retire_result (concat (map (\<lambda>br. retirees e (snd br)) brs)) (px_result c)"
proof (induction brs arbitrary: c s thesis)
  case Nil
  show ?case by (rule Nil) (simp_all add: retire_frame_refl)
next
  case (Cons br brs)
  obtain c1 s1 where one: "fold (\<lambda>r. retire_one api e (rb_instruction r)) (takeWhile rb_completed (snd br)) (c, s) = (c1, s1)"
    "retire_frame c c1" "px_rob c1 = px_rob c" "px_retired c1 = px_retired c @ retirees e (snd br)"
    "px_result c1 = fold retire_result (retirees e (snd br)) (px_result c)"
    unfolding retirees_def by (rule retire_many_effect)
  define c2 where "c2 = c1\<lparr>px_rob := map_put (fst br) (dropWhile rb_completed (snd br)) (px_rob c1)\<rparr>"
  have blk: "retire_block api e br (c, s) = (c2, s1)"
    unfolding retire_block_def one(1) case_prod_conv c2_def ..
  have f: "retire_frame c1 c2" "px_retired c2 = px_retired c1" "px_result c2 = px_result c1"
    "px_rob c2 = map_put (fst br) (dropWhile rb_completed (snd br)) (px_rob c1)"
    by (simp_all add: c2_def retire_frame_def)
  obtain d s' where d: "fold (retire_block api e) brs (c2, s1) = (d, s')" "retire_frame c2 d"
    "px_rob d = fold (\<lambda>br. map_put (fst br) (dropWhile rb_completed (snd br))) brs (px_rob c2)"
    "px_retired d = px_retired c2 @ concat (map (\<lambda>br. retirees e (snd br)) brs)"
    "px_result d = fold retire_result (concat (map (\<lambda>br. retirees e (snd br)) brs)) (px_result c2)"
    by (rule Cons.IH)
  have fr: "retire_frame c d"
    using retire_frame_trans [OF one(2) retire_frame_trans [OF f(1) d(2)]] .
  show ?case
    by (rule Cons.prems [of d s']) (use blk one d f fr in simp_all)
qed

lemma map_put_here:
  "\<forall>e \<in> set pre. fst e < k \<Longrightarrow> map_put k v (pre @ (k, w) # suf) = pre @ (k, v) # suf"
  by (induction pre) auto

lemma fold_map_put_self:
  assumes "ordered (pre @ m)"
  shows "fold (\<lambda>e. map_put (fst e) (f (snd e))) m (pre @ m) = pre @ map (\<lambda>(k, v). (k, f v)) m"
  using assms
proof (induction m arbitrary: pre)
  case (Cons e m)
  obtain k v where e: "e = (k, v)" by fastforce
  have "map_put k (f v) (pre @ (k, v) # m) = (pre @ [(k, f v)]) @ m"
    using Cons.prems by (subst map_put_here) (auto simp: e sorted_wrt_append)
  moreover have "ordered ((pre @ [(k, f v)]) @ m)" using Cons.prems by (simp add: e sorted_wrt_append)
  ultimately show ?case using Cons.IH [of "pre @ [(k, f v)]"] by (simp add: e)
qed simp

definition retired_now :: "epoch \<Rightarrow> (u64 \<times> 'd rob_entry list) list \<Rightarrow> 'd npu_instruction list" where
  "retired_now e rob = concat (map (\<lambda>br. retirees e (snd br)) rob)"

definition blocks_ok :: "(u64 \<times> 'd rob_entry list) list \<Rightarrow> bool" where
  "blocks_ok rob \<longleftrightarrow> ordered rob \<and>
     (\<forall>(b, rs) \<in> set rob. increasing (map rob_sequence rs) \<and> (\<forall>r \<in> set rs. ni_blockId (rb_instruction r) = b))"

lemma blocks_ok_Cons: "blocks_ok ((b, rs) # rob) \<Longrightarrow> blocks_ok rob \<and> b \<notin> fst ` set rob \<and>
    increasing (map rob_sequence rs) \<and> (\<forall>r \<in> set rs. ni_blockId (rb_instruction r) = b) \<and>
    (\<forall>e \<in> set rob. b < fst e)"
  by (auto simp: blocks_ok_def)

lemma rob_ok_blocks:
  assumes "rob_ok deq h K R c"
  shows "blocks_ok (px_rob c)"
proof -
  have ord: "ordered (px_rob c)" using assms by (simp add: rob_ok_def)
  have "increasing (map rob_sequence rs) \<and> (\<forall>r \<in> set rs. ni_blockId (rb_instruction r) = b)"
    if "(b, rs) \<in> set (px_rob c)" for b rs
  proof -
    have rs: "rob_at b (px_rob c) = rs" using that ord by (simp add: map_of_in_ordered rob_at_simps)
    have "block_ok deq (of_block b h) (of_block b R) rs" using assms unfolding rob_ok_def by (metis rs)
    then show ?thesis using block_ok_sequences(3) assms unfolding rob_ok_def by (metis rs)
  qed
  with ord show ?thesis by (auto simp: blocks_ok_def)
qed

lemma of_block_simps [simp]:
  "of_block b [] = []" "of_block b (xs @ ys) = of_block b xs @ of_block b ys"
  by (simp_all add: of_block_def)

lemma retirees_Nil [simp]: "retirees e [] = []"
  by (simp add: retirees_def)

lemma retirees_block:
  "\<forall>r \<in> set rs. ni_blockId (rb_instruction r) = k \<Longrightarrow> of_block b (retirees e rs) = (if b = k then retirees e rs else [])"
  by (induction rs) (auto simp: retirees_def of_block_def)

lemma retired_now_block: "blocks_ok rob \<Longrightarrow> of_block b (retired_now e rob) = retirees e (rob_at b rob)"
proof (induction rob)
  case (Cons br rob)
  obtain k rs where br: "br = (k, rs)" by fastforce
  note ok = blocks_ok_Cons [OF Cons.prems [unfolded br]]
  have "map_of rob k = None" using ok by (simp add: map_of_eq_None_iff)
  then have "rob_at k rob = []" by (rule rob_at_simps)
  then show ?case
    using Cons.IH ok retirees_block [of rs k b e] by (auto simp: br retired_now_def rob_at_def)
qed (simp add: retired_now_def rob_at_def retirees_def)

lemma retirees_sorted:
  assumes "increasing (map rob_sequence rs)" and "\<forall>r \<in> set rs. ni_blockId (rb_instruction r) = b"
  shows "sorted_by retire_key (retirees e rs)"
proof -
  have "sorted_wrt (\<lambda>r s. rob_sequence r < rob_sequence s) (takeWhile rb_completed rs)"
    using assms(1) by (metis sorted_wrt_append sorted_wrt_map takeWhile_dropWhile_id)
  moreover have "\<forall>r \<in> set (takeWhile rb_completed rs). ni_blockId (rb_instruction r) = b"
    using assms(2) by (auto dest: set_takeWhileD)
  ultimately have "sorted_wrt (\<lambda>r s. retire_key (stamp_retired e (rb_instruction r)) \<le> retire_key (stamp_retired e (rb_instruction s)))
      (takeWhile rb_completed rs)"
    by (auto intro: sorted_wrt_mono_rel [rotated] simp: retire_key_def less_eq_prod_def less_imp_le)
  then show ?thesis by (simp add: retirees_def sorted_map comp_def sorted_wrt_map)
qed

lemma retired_now_sorted: "blocks_ok rob \<Longrightarrow> sorted_by retire_key (retired_now e rob)"
proof (induction rob)
  case (Cons br rob)
  obtain k rs where br: "br = (k, rs)" by fastforce
  note ok = blocks_ok_Cons [OF Cons.prems [unfolded br]]
  have here: "ni_blockId i = k" if "i \<in> set (retirees e rs)" for i
    using that ok by (auto simp: retirees_def dest!: set_takeWhileD)
  have there: "k < ni_blockId i" if "i \<in> set (retired_now e rob)" for i
    using that ok by (fastforce simp: retired_now_def retirees_def blocks_ok_def dest!: set_takeWhileD)
  have "retired_now e (br # rob) = retirees e rs @ retired_now e rob" by (simp add: retired_now_def br)
  moreover have "sorted_by retire_key (retirees e rs)" using ok retirees_sorted by blast
  moreover have "retire_key i \<le> retire_key j" if "i \<in> set (retirees e rs)" "j \<in> set (retired_now e rob)" for i j
    using here [OF that(1)] there [OF that(2)] by (simp add: retire_key_def less_eq_prod_def)
  ultimately show ?case using Cons.IH ok by (auto simp: sorted_append)
qed (simp add: retired_now_def)

definition nothing_retirable :: "'d pipeline \<Rightarrow> bool" where
  "nothing_retirable c \<longleftrightarrow> (\<forall>b. rob_at b (px_rob c) \<noteq> [] \<longrightarrow> \<not> rb_completed (hd (rob_at b (px_rob c))))"

lemma retire_block_ok:
  assumes "block_ok deq hb Rb rs"
  shows "block_ok deq hb (Rb @ retirees e rs) (dropWhile rb_completed rs)"
proof -
  obtain old new where s: "hb = old @ new" "list_all2 (same_instruction deq) old Rb" "list_all2 (rob_match deq) new rs"
    and inc: "increasing (map ni_sequenceId hb)"
    using assms unfolding block_ok_def by blast
  let ?n = "length (takeWhile rb_completed rs)"
  have t: "list_all2 (rob_match deq) (take ?n new) (takeWhile rb_completed rs)"
    "list_all2 (rob_match deq) (drop ?n new) (dropWhile rb_completed rs)"
    using list_all2_takeI [OF s(3), of ?n] list_all2_dropI [OF s(3), of ?n]
    by (simp_all add: takeWhile_eq_take [symmetric] dropWhile_eq_drop [symmetric])
  have "list_all2 (same_instruction deq) (take ?n new) (retirees e rs)"
    unfolding retirees_def list_all2_map2
    by (rule list.rel_mono_strong [OF t(1)]) (auto dest!: rob_match_same simp: same_instruction_def)
  then have "list_all2 (same_instruction deq) (old @ take ?n new) (Rb @ retirees e rs)"
    using s(2) by (rule list_all2_appendI [rotated])
  moreover have "hb = (old @ take ?n new) @ drop ?n new" by (simp add: s(1))
  ultimately show ?thesis using t(2) inc unfolding block_ok_def by blast
qed

lemma retire_ok:
  assumes ok: "rob_ok deq h K R c"
    and d: "px_rob d = map (\<lambda>(b, rs). (b, dropWhile rb_completed rs)) (px_rob c)"
      "px_lastAdmittedSequence d = px_lastAdmittedSequence c"
  shows "rob_ok deq h K (R @ retired_now e (px_rob c)) d" and "nothing_retirable d"
    and "set (rob_entries d) \<subseteq> set (rob_entries c)"
    and "\<forall>r \<in> set (rob_entries c). \<not> rb_completed r \<longrightarrow> r \<in> set (rob_entries d)"
    and "\<forall>i \<in> set (retired_now e (px_rob c)). \<exists>k \<in> set K. i = stamp_retired e (ie_instruction k)"
proof -
  note blocks = rob_ok_blocks [OF ok]
  have at: "rob_at b (px_rob d) = dropWhile rb_completed (rob_at b (px_rob c))" for b
    unfolding d rob_at_map by (simp add: rob_at_def split: option.split)
  have ent: "rob_entries d = concat (map (\<lambda>br. dropWhile rb_completed (snd br)) (px_rob c))"
    unfolding rob_entries_def d by (simp add: comp_def case_prod_beta)
  show sub: "set (rob_entries d) \<subseteq> set (rob_entries c)"
    unfolding ent by (auto simp: rob_entries_def dest!: set_dropWhileD)
  show "\<forall>r \<in> set (rob_entries c). \<not> rb_completed r \<longrightarrow> r \<in> set (rob_entries d)"
  proof (intro ballI impI)
    fix r assume "r \<in> set (rob_entries c)" and r: "\<not> rb_completed r"
    then obtain br where br: "br \<in> set (px_rob c)" "r \<in> set (snd br)" by (auto simp: rob_entries_def)
    then have "r \<in> set (dropWhile rb_completed (snd br))"
      using r by (metis UnE set_append set_takeWhileD takeWhile_dropWhile_id)
    with br(1) show "r \<in> set (rob_entries d)" by (auto simp: ent)
  qed
  show "nothing_retirable d"
    unfolding nothing_retirable_def at by (simp add: hd_dropWhile)
  show "\<forall>i \<in> set (retired_now e (px_rob c)). \<exists>k \<in> set K. i = stamp_retired e (ie_instruction k)"
  proof
    fix i assume "i \<in> set (retired_now e (px_rob c))"
    then obtain r where "r \<in> set (rob_entries c)" "rb_completed r" and i: "i = stamp_retired e (rb_instruction r)"
      by (auto simp: retired_now_def retirees_def rob_entries_def dest!: set_takeWhileD)
    then have "rb_instruction r \<in> ie_instruction ` set K" using ok by (simp add: rob_ok_def)
    then show "\<exists>k \<in> set K. i = stamp_retired e (ie_instruction k)" by (auto simp: i)
  qed
  have "distinct (map rob_sequence (concat (map (\<lambda>br. dropWhile rb_completed (snd br)) rob)))"
    if "distinct (map rob_sequence (concat (map snd rob)))" for rob :: "(u64 \<times> 'a rob_entry list) list"
    using that
  proof (induction rob)
    case (Cons br rob)
    have "map rob_sequence (snd br) =
        map rob_sequence (takeWhile rb_completed (snd br)) @ map rob_sequence (dropWhile rb_completed (snd br))"
      by (metis map_append takeWhile_dropWhile_id)
    then have "distinct (map rob_sequence (dropWhile rb_completed (snd br)))"
      using Cons.prems by (metis concat.simps(2) distinct_append list.simps(9) map_append)
    moreover have "set (map rob_sequence (dropWhile rb_completed (snd br))) \<subseteq> set (map rob_sequence (snd br))"
      "set (map rob_sequence (concat (map (\<lambda>br. dropWhile rb_completed (snd br)) rob))) \<subseteq>
       set (map rob_sequence (concat (map snd rob)))"
      by (auto dest!: set_dropWhileD)
    moreover have "set (map rob_sequence (snd br)) \<inter> set (map rob_sequence (concat (map snd rob))) = {}"
      using Cons.prems by (simp only: list.map concat.simps map_append distinct_append)
    ultimately have "set (map rob_sequence (dropWhile rb_completed (snd br))) \<inter>
        set (map rob_sequence (concat (map (\<lambda>br. dropWhile rb_completed (snd br)) rob))) = {}" by blast
    moreover have "distinct (map rob_sequence (concat (map (\<lambda>br. dropWhile rb_completed (snd br)) rob)))"
      using Cons by simp
    ultimately show ?case
      using \<open>distinct (map rob_sequence (dropWhile rb_completed (snd br)))\<close>
      by (simp only: list.map concat.simps map_append distinct_append simp_thms)
  qed simp
  then have dist: "distinct (map rob_sequence (rob_entries d))"
    using ok unfolding ent by (simp add: rob_ok_def rob_entries_def)
  have ord: "ordered (px_rob d)" using ok unfolding rob_ok_def d by (simp add: comp_def case_prod_beta)
  have blk: "block_ok deq (of_block b h) (of_block b (R @ retired_now e (px_rob c))) (rob_at b (px_rob d))" for b
    unfolding at of_block_simps retired_now_block [OF blocks]
    by (rule retire_block_ok) (use ok in \<open>simp add: rob_ok_def\<close>)
  have "\<forall>r \<in> set (rob_at b (px_rob d)). ni_blockId (rb_instruction r) = b" for b
    using ok by (auto simp: at rob_ok_def dest!: set_dropWhileD)
  with dist ord blk sub ok show "rob_ok deq h K (R @ retired_now e (px_rob c)) d"
    unfolding rob_ok_def d(2) by blast
qed

end
