(* ===== verification/Npu_Execution.thy ===== *)
theory Npu_Execution
  imports Npu_Retirement
begin

text \<open>
  Execution in the pipeline: the invariant of the executions under way (their units, the tiles they
  will write, their reorder-buffer entries), that every call keeps it, and the properties of a run.
\<close>

lemma memory_update_base [simp]:
  fixes c :: "'d pipeline"
  shows "so_id (c\<lparr>px_memoryProtocol := p\<rparr>) = so_id c" "so_id (c\<lparr>px_memoryController := m\<rparr>) = so_id c"
    "so_runtimeFailureCode (c\<lparr>px_memoryProtocol := p\<rparr>) = so_runtimeFailureCode c"
    "so_runtimeFailureCode (c\<lparr>px_memoryController := m\<rparr>) = so_runtimeFailureCode c"
  by (cases c; simp)+

section \<open>The proposal to execute\<close>

definition execution_failures :: "string set" where
  "execution_failures = {''npu_execution_identity_mismatch'', ''npu_execution_time_overflow'',
     ''npu_scratchpad_input_missing'', ''npu_memory_descriptor_missing'', ''npu_memory_address_invalid'',
     ''npu_completion_schedule_failed''}"

definition executable :: "('d \<Rightarrow> 'd \<Rightarrow> bool) \<Rightarrow> 'd active_execution \<Rightarrow> 'd pipeline \<Rightarrow> bool" where
  "executable deq p c \<longleftrightarrow> (let i = ie_instruction (ax_entry p); q = ni_sequenceId i; e = ni_engine i in
     (\<exists>a. admitted_instruction q c = Some a \<and> instruction_equal deq (untimed a) (untimed i)) \<and>
     q \<notin> set (px_executedSequences c) \<and> map_of (px_active c) q = None \<and>
     q \<notin> active_sequence ` set (px_executionProposals c) \<and>
     activeExecutions e c + proposed_on e c < configuredUnits (px_config c) e \<and>
     ep_time (ax_issueEpoch p) \<le> - 1 - executionLatency i \<and>
     ax_readyEpoch p = Epoch (ep_time (ax_issueEpoch p) + executionLatency i) 0 \<and>
     ax_unitIndex p = first_free (occupied_units e c) 0 \<and> \<not> ax_memoryDelivered p \<and>
     length (px_scratchpad c) + length (pending_tiles c i) \<le> xc_scratchpadTiles (px_config c) \<and>
     (is_store i \<longrightarrow> ni_inputTileDescriptors i \<noteq> [] \<and>
        map_of (px_scratchpad c) (nd_identity (hd (ni_inputTileDescriptors i))) \<noteq> None) \<and>
     memory_part i c = Inr (ax_memoryRequest p))"

lemma memory_part_failure: "memory_part i c = Inl (Failure code) \<Longrightarrow> code \<in> execution_failures"
  by (auto simp: memory_part_def Let_def execution_failures_def split: if_splits option.splits)

lemma proposeExecute_cases:
  fixes c :: "'d pipeline"
  obtains (refused) "fst (proposeExecute api deq x e c s) = (False, c)"
  | (stalled) "fst (proposeExecute api deq x e c s) = (False, stall c)"
  | (failed) code where "fst (proposeExecute api deq x e c s) = (False, setRuntimeFailureCode code c)"
      "code \<in> execution_failures"
  | (accepted) p where "fst (proposeExecute api deq x e c s) =
      (True, c\<lparr>px_executionProposals := px_executionProposals c @ [p]\<rparr>)"
      "executable deq p c" "ax_entry p = x" "ax_issueEpoch p = e"
proof -
  let ?i = "ie_instruction x"
  let ?q = "ni_sequenceId ?i" and ?e = "ni_engine ?i"
  let ?r = "proposeExecute api deq x e c s"
  show ?thesis
  proof (cases "admitted_instruction ?q c")
    case None
    then show ?thesis by (intro refused) (simp add: proposeExecute_def Let_def)
  next
    case (Some a)
    note unf = proposeExecute_def [of api deq x e c s] Let_def Some option.case
    consider (again) "?q \<in> set (px_executedSequences c) \<or> map_of (px_active c) ?q \<noteq> None \<or>
        list_ex (\<lambda>p. active_sequence p = ?q) (px_executionProposals c)"
      | (fresh) "\<not> (?q \<in> set (px_executedSequences c) \<or> map_of (px_active c) ?q \<noteq> None \<or>
        list_ex (\<lambda>p. active_sequence p = ?q) (px_executionProposals c))" by blast
    then show ?thesis
    proof cases
      case again
      then show ?thesis by (intro refused) (simp only: unf if_True fst_conv)
    next
      case fresh
      show ?thesis
      proof (cases "instruction_equal deq (untimed a) (untimed ?i)")
        case False
        then show ?thesis using fresh
          by (intro failed [of "''npu_execution_identity_mismatch''"])
            (simp_all only: unf if_True if_False simp_thms fst_conv, simp add: execution_failures_def)
      next
        case same: True
        show ?thesis
        proof (cases "activeExecutions ?e c + proposed_on ?e c \<ge> configuredUnits (px_config c) ?e")
          case True
          then show ?thesis using fresh same
            by (intro stalled) (simp only: unf if_True if_False simp_thms fst_conv)
        next
          case unit: False
          show ?thesis
          proof (cases "ep_time e > - 1 - executionLatency ?i")
            case True
            then show ?thesis using fresh same unit
              by (intro failed [of "''npu_execution_time_overflow''"])
                (simp_all only: unf if_True if_False simp_thms fst_conv, simp add: execution_failures_def)
          next
            case time: False
            show ?thesis
            proof (cases "length (px_scratchpad c) + length (pending_tiles c ?i) > xc_scratchpadTiles (px_config c)")
              case True
              then show ?thesis using fresh same unit time
                by (intro stalled) (simp only: unf if_True if_False simp_thms fst_conv)
            next
              case tiles: False
              show ?thesis
              proof (cases "is_store ?i \<and> (ni_inputTileDescriptors ?i = [] \<or>
                  map_of (px_scratchpad c) (nd_identity (hd (ni_inputTileDescriptors ?i))) = None)")
                case True
                then show ?thesis using fresh same unit time tiles
                  by (intro failed [of "''npu_scratchpad_input_missing''"])
                    (simp_all only: unf if_True if_False simp_thms fst_conv, simp add: execution_failures_def)
              next
                case input: False
                note no = fresh same unit time tiles input
                show ?thesis
                proof (cases "memory_part ?i c")
                  case (Inl why)
                  show ?thesis
                  proof (cases why)
                    case Stall
                    then show ?thesis using no Inl
                      by (intro stalled) (simp only: unf if_True if_False simp_thms fst_conv sum.case refusal.case)
                  next
                    case (Failure code)
                    then show ?thesis using no Inl memory_part_failure [of ?i c code]
                      by (intro failed [of code]) (simp_all only: unf if_True if_False simp_thms fst_conv sum.case refusal.case)
                  qed
                next
                  case (Inr request)
                  define p where "p = \<lparr>ax_entry = x, ax_issueEpoch = e, ax_readyEpoch = Epoch (ep_time e + executionLatency ?i) 0,
                    ax_unitIndex = first_free (occupied_units ?e c) 0, ax_memoryDelivered = False, ax_memoryRequest = request\<rparr>"
                  have ex: "executable deq p c"
                    unfolding executable_def Let_def using no Inr Some
                    by (auto simp: p_def list_ex_iff image_iff not_less)
                  define ok where "ok = fst (case px_system c of None \<Rightarrow> (True, s)
                    | Some _ \<Rightarrow> api_scheduleEvent api (npu_event (so_id c)
                       (if ?e = Tma then Epoch (ep_time e + 1) 0 else Epoch (ep_time e + executionLatency ?i) 0)
                       (if ?e = Tma then kNpuMemoryServiceEvent else kNpuCompletionEvent) ?q) s)"
                  have "fst ?r = (if \<not> ok then (False, setRuntimeFailureCode ''npu_completion_schedule_failed'' c)
                      else (True, c\<lparr>px_executionProposals := px_executionProposals c @ [p]\<rparr>))"
                    using no Inr
                    by (simp only: unf if_True if_False simp_thms sum.case p_def [symmetric] case_prod_beta
                        ok_def [symmetric]) simp
                  then show ?thesis
                    using accepted [of p] failed [of "''npu_completion_schedule_failed''"] ex
                    by (cases ok) (simp_all add: p_def execution_failures_def)
                qed
              qed
            qed
          qed
        qed
      qed
    qed
  qed
qed

section \<open>Units and tiles\<close>

text \<open>The free unit is the least one: every smaller index is taken.\<close>

lemma first_free_least:
  "n \<le> first_free us n \<and> first_free us n \<notin> set us \<and> (\<forall>m. n \<le> m \<and> m < first_free us n \<longrightarrow> m \<in> set us)"
proof (induction us n rule: first_free.induct)
  case (1 us n)
  show ?case
  proof (cases "n \<in> set us")
    case True
    with 1 have "n + 1 \<le> first_free us (n + 1)" "first_free us (n + 1) \<notin> set us"
      "\<forall>m. n + 1 \<le> m \<and> m < first_free us (n + 1) \<longrightarrow> m \<in> set us" by simp_all
    moreover have "first_free us n = first_free us (n + 1)" using True by (simp add: first_free.simps [of us n])
    ultimately show ?thesis using True by (metis Suc_eq_plus1 Suc_leD Suc_leI le_neq_implies_less)
  qed (auto simp: first_free.simps [of us n])
qed

lemma first_free_bound: "first_free us 0 \<le> length us"
proof -
  have "{0..<first_free us 0} \<subseteq> set us" using first_free_least [of 0 us] by auto
  then have "first_free us 0 \<le> card (set us)" using card_mono [of "set us" "{0..<first_free us 0}"] by simp
  then show ?thesis using card_length [of us] by linarith
qed

definition underway :: "'d pipeline \<Rightarrow> 'd active_execution list" where
  "underway c = map snd (px_active c) @ px_executionProposals c"

definition units_ok :: "execution_config \<Rightarrow> 'd active_execution list \<Rightarrow> bool" where
  "units_ok config U \<longleftrightarrow>
     (\<forall>e. distinct (map ax_unitIndex (filter (\<lambda>x. active_engine x = e) U))) \<and>
     (\<forall>x \<in> set U. ax_unitIndex x < configuredUnits config (active_engine x))"

lemma distinct_submset: "distinct ys \<Longrightarrow> mset xs \<subseteq># mset ys \<Longrightarrow> distinct xs"
proof -
  assume "distinct ys" and "mset xs \<subseteq># mset ys"
  then obtain M where "mset ys = mset xs + M" by (metis mset_subset_eq_exists_conv)
  moreover obtain zs where "M = mset zs" using ex_mset by metis
  ultimately have "mset ys = mset (xs @ zs)" by simp
  with \<open>distinct ys\<close> have "distinct (xs @ zs)" by (metis mset_eq_imp_distinct_iff)
  then show ?thesis by simp
qed

lemma units_ok_mset:
  assumes "units_ok config U" and "mset V \<subseteq># mset U"
  shows "units_ok config V"
proof -
  have "mset (map ax_unitIndex (filter (\<lambda>x. active_engine x = e) V)) \<subseteq>#
      mset (map ax_unitIndex (filter (\<lambda>x. active_engine x = e) U))" for e
    using assms(2) by (simp add: image_mset_subseteq_mono multiset_filter_mono)
  then have "distinct (map ax_unitIndex (filter (\<lambda>x. active_engine x = e) V))" for e
    using assms(1) by (metis distinct_submset units_ok_def)
  moreover have "set V \<subseteq> set U" using assms(2) by (metis set_mset_mono set_mset_mset)
  ultimately show ?thesis using assms(1) by (auto simp: units_ok_def)
qed

lemma units_ok_add:
  fixes c :: "'d pipeline"
  assumes "units_ok (px_config c) (underway c)" and "executable deq p c"
  shows "units_ok (px_config c) (underway c @ [p])"
proof -
  let ?e = "active_engine p"
  have occ: "occupied_units ?e c = map ax_unitIndex (filter (\<lambda>x. active_engine x = ?e) (underway c))"
    by (simp add: occupied_units_def underway_def)
  have len: "length (occupied_units ?e c) = activeExecutions ?e c + proposed_on ?e c"
    by (simp add: occ underway_def activeExecutions_def proposed_on_def filter_map comp_def)
  have u: "ax_unitIndex p = first_free (occupied_units ?e c) 0"
    "activeExecutions ?e c + proposed_on ?e c < configuredUnits (px_config c) ?e"
    using assms(2) by (simp_all add: executable_def Let_def)
  have "ax_unitIndex p \<notin> set (occupied_units ?e c)" using first_free_least [of 0 "occupied_units ?e c"] u(1) by simp
  moreover have "ax_unitIndex p < configuredUnits (px_config c) ?e"
    using first_free_bound [of "occupied_units ?e c"] u len by linarith
  ultimately show ?thesis using assms(1) unfolding occ by (auto simp: units_ok_def)
qed

text \<open>The tiles an execution will hold in the scratchpad once it completes.\<close>

definition output_identities :: "'d active_execution \<Rightarrow> string set" where
  "output_identities x = (let i = ie_instruction (ax_entry x) in
     if is_store i then {} else nd_identity ` set (ni_outputTileDescriptors i))"

definition tiles_ok :: "execution_config \<Rightarrow> (string \<times> u64) list \<Rightarrow> 'd active_execution list \<Rightarrow> bool" where
  "tiles_ok config pad U \<longleftrightarrow> ordered pad \<and>
     card (fst ` set pad \<union> (\<Union>x \<in> set U. output_identities x)) \<le> xc_scratchpadTiles config \<and>
     (\<forall>x \<in> set U. case ax_memoryRequest x of None \<Rightarrow> True
        | Some r \<Rightarrow> mq_write r \<longrightarrow> mq_tileIdentity r \<in> fst ` set pad)"

lemma output_identities_finite: "finite (\<Union>x \<in> set U. output_identities x)"
  by (simp add: output_identities_def Let_def)

lemma tiles_ok_subset:
  "tiles_ok config pad U \<Longrightarrow> set V \<subseteq> set U \<Longrightarrow> tiles_ok config pad V"
proof -
  assume ok: "tiles_ok config pad U" and sub: "set V \<subseteq> set U"
  have "card (fst ` set pad \<union> (\<Union>x \<in> set V. output_identities x)) \<le>
      card (fst ` set pad \<union> (\<Union>x \<in> set U. output_identities x))"
    by (rule card_mono) (use output_identities_finite [of U] sub in auto)
  then show ?thesis using ok sub unfolding tiles_ok_def by auto
qed

lemma pending_tiles_set:
  fixes c :: "'d pipeline"
  shows "set (pending_tiles c (ie_instruction (ax_entry p))) =
    (\<Union>x \<in> set (underway c @ [p]). output_identities x) - fst ` set (px_scratchpad c)"
    and "increasing (pending_tiles c (ie_instruction (ax_entry p)))"
proof -
  have nt: "set (new_tiles (px_scratchpad c) (ie_instruction (ax_entry x))) =
      output_identities x - fst ` set (px_scratchpad c)" for x :: "'d active_execution"
    by (auto simp: new_tiles_def output_identities_def Let_def map_of_eq_None_iff)
  show "set (pending_tiles c (ie_instruction (ax_entry p))) =
    (\<Union>x \<in> set (underway c @ [p]). output_identities x) - fst ` set (px_scratchpad c)"
    unfolding pending_tiles_def underway_def by (auto simp: nt)
  show "increasing (pending_tiles c (ie_instruction (ax_entry p)))" by (simp add: pending_tiles_def)
qed

lemma tiles_ok_add:
  fixes c :: "'d pipeline"
  assumes "tiles_ok (px_config c) (px_scratchpad c) (underway c)" and "executable deq p c"
  shows "tiles_ok (px_config c) (px_scratchpad c) (underway c @ [p])"
proof -
  let ?i = "ie_instruction (ax_entry p)" and ?D = "fst ` set (px_scratchpad c)"
  let ?O = "\<Union>x \<in> set (underway c @ [p]). output_identities x"
  have ord: "ordered (px_scratchpad c)" using assms(1) by (simp add: tiles_ok_def)
  have ex: "length (px_scratchpad c) + length (pending_tiles c ?i) \<le> xc_scratchpadTiles (px_config c)"
    "is_store ?i \<longrightarrow> ni_inputTileDescriptors ?i \<noteq> [] \<and>
        map_of (px_scratchpad c) (nd_identity (hd (ni_inputTileDescriptors ?i))) \<noteq> None"
    "memory_part ?i c = Inr (ax_memoryRequest p)"
    using assms(2) by (simp_all add: executable_def Let_def)
  have "card (?D \<union> ?O) = card ?D + card (?O - ?D)"
    using card_Un_disjoint [of ?D "?O - ?D"] output_identities_finite [of "underway c @ [p]"]
    by (metis (no_types, lifting) Diff_disjoint List.finite_set Un_Diff_cancel finite_Diff finite_imageI)
  also have "card ?D = length (px_scratchpad c)"
    using increasing_length [OF ord] by simp
  also have "card (?O - ?D) = length (pending_tiles c ?i)"
    using pending_tiles_set [of c p] by (metis increasing_length)
  finally have "card (?D \<union> ?O) \<le> xc_scratchpadTiles (px_config c)" using ex(1) by simp
  moreover have "mq_tileIdentity r \<in> ?D" if "ax_memoryRequest p = Some r" "mq_write r" for r
  proof -
    have "is_store ?i" "mq_tileIdentity r = nd_identity (hd (ni_inputTileDescriptors ?i))"
      using ex(3) that by (auto simp: memory_part_def Let_def split: if_splits option.splits)
    then show ?thesis using ex(2) by (metis map_of_eq_None_iff)
  qed
  ultimately show ?thesis using assms(1) ord unfolding tiles_ok_def by (auto split: option.splits)
qed

lemma write_tiles_keys:
  "ordered m \<Longrightarrow> ordered (write_tiles v i m) \<and> fst ` set (write_tiles v i m) =
     fst ` set m \<union> (if is_store i then {} else nd_identity ` set (ni_outputTileDescriptors i))"
proof -
  have "ordered m \<Longrightarrow> ordered (fold (\<lambda>t m. map_put (nd_identity t) v m) ts m) \<and>
      fst ` set (fold (\<lambda>t m. map_put (nd_identity t) v m) ts m) = fst ` set m \<union> nd_identity ` set ts"
    for ts :: "'a npu_tile list" by (induction ts arbitrary: m) auto
  then show "ordered m \<Longrightarrow> ?thesis" by (simp add: write_tiles_def)
qed

text \<open>A completing execution turns its pending tiles into scratchpad tiles.\<close>

lemma tiles_ok_complete:
  assumes "tiles_ok config pad U" and "x \<in> set U" and "set V \<subseteq> set U"
    and "i = ie_instruction (stamp_completed e (ax_entry x))"
  shows "tiles_ok config (write_tiles v i pad) V"
proof -
  have ord: "ordered pad" using assms(1) by (simp add: tiles_ok_def)
  have "is_store i = is_store (ie_instruction (ax_entry x))"
    "ni_outputTileDescriptors i = ni_outputTileDescriptors (ie_instruction (ax_entry x))"
    by (simp_all add: assms(4) stamp_completed_def is_store_def)
  then have keys: "fst ` set (write_tiles v i pad) = fst ` set pad \<union> output_identities x"
    and ord': "ordered (write_tiles v i pad)"
    using write_tiles_keys [OF ord, of v i] by (simp_all add: output_identities_def Let_def)
  have "card (fst ` set (write_tiles v i pad) \<union> (\<Union>x \<in> set V. output_identities x)) \<le>
      card (fst ` set pad \<union> (\<Union>x \<in> set U. output_identities x))"
    by (rule card_mono) (use output_identities_finite [of U] assms(2,3) in \<open>auto simp: keys\<close>)
  then show ?thesis using assms(1,3) ord' unfolding tiles_ok_def keys by (auto split: option.splits)
qed

section \<open>The invariant\<close>

text \<open>
  Each execution under way belongs to an uncompleted reorder-buffer entry that passed the identity
  check; what was executed is active or completed, never both, and completed once.
\<close>

definition in_rob :: "('d \<Rightarrow> 'd \<Rightarrow> bool) \<Rightarrow> 'd rob_entry list \<Rightarrow> 'd active_execution \<Rightarrow> bool" where
  "in_rob deq rs x \<longleftrightarrow> (\<exists>r \<in> set rs. rob_sequence r = active_sequence x \<and> \<not> rb_completed r \<and>
     same_instruction deq (rb_instruction r) (ie_instruction (ax_entry x)))"

definition exec_ok :: "('d \<Rightarrow> 'd \<Rightarrow> bool) \<Rightarrow> 'd issue_entry list \<Rightarrow> 'd pipeline \<Rightarrow> bool" where
  "exec_ok deq K c \<longleftrightarrow> ordered (px_active c) \<and> (\<forall>(q, x) \<in> set (px_active c). active_sequence x = q) \<and>
     set (px_executedSequences c) = fst ` set (px_active c) \<union> entry_sequence ` set K \<and>
     fst ` set (px_active c) \<inter> entry_sequence ` set K = {} \<and> distinct (map entry_sequence K) \<and>
     (\<forall>x \<in> set (underway c). in_rob deq (rob_entries c) x)"

definition requests_ok :: "'d pipeline \<Rightarrow> bool" where
  "requests_ok c \<longleftrightarrow> distinct (map active_sequence (px_executionProposals c)) \<and>
     (\<forall>x \<in> set (px_executionProposals c). active_sequence x \<notin> set (px_executedSequences c)) \<and>
     distinct (px_completionProposals c) \<and> set (px_completionProposals c) \<subseteq> fst ` set (px_active c) \<and>
     distinct (map ni_sequenceId (px_admissionProposals c)) \<and>
     (\<forall>i \<in> set (px_admissionProposals c). admissible i c)"

definition history_ok :: "'d issue_entry list \<Rightarrow> 'd npu_instruction list \<Rightarrow> 'd pipeline \<Rightarrow> bool" where
  "history_ok K R c \<longleftrightarrow> px_result c = fold retire_result R new_result \<and>
     (\<forall>i \<in> set R. \<exists>k \<in> set K. \<exists>e. i = stamp_retired e (ie_instruction k))"

definition pipe_inv ::
  "('d \<Rightarrow> 'd \<Rightarrow> bool) \<Rightarrow> execution_config \<Rightarrow> 'd npu_instruction list \<Rightarrow> 'd issue_entry list \<Rightarrow> 'd npu_instruction list
   \<Rightarrow> 'd pipeline \<Rightarrow> bool" where
  "pipe_inv deq config h K R c \<longleftrightarrow> px_config c = config \<and> rob_ok deq h K R c \<and> exec_ok deq K c \<and>
     units_ok config (underway c) \<and> tiles_ok config (px_scratchpad c) (underway c) \<and> requests_ok c \<and>
     history_ok K R c \<and> nothing_retirable c"

text \<open>The committed fields; the calls before the commit leave them alone.\<close>

definition work_frame :: "'d pipeline \<Rightarrow> 'd pipeline \<Rightarrow> bool" where
  "work_frame c d \<longleftrightarrow> px_config d = px_config c \<and> px_system d = px_system c \<and> px_rob d = px_rob c \<and>
     px_lastAdmittedSequence d = px_lastAdmittedSequence c \<and> px_active d = px_active c \<and>
     px_executedSequences d = px_executedSequences c \<and> px_scratchpad d = px_scratchpad c \<and>
     px_result d = px_result c \<and> so_id d = so_id c \<and> px_traceExhausted d = px_traceExhausted c"

lemma work_frame_refl: "work_frame c c"
  by (simp add: work_frame_def)

lemma work_frame_trans: "work_frame a b \<Longrightarrow> work_frame b c \<Longrightarrow> work_frame a c"
  unfolding work_frame_def by (elim conjE, intro conjI) metis+

lemma pipe_inv_frame:
  assumes "pipe_inv deq config h K R c" and "work_frame c d"
    and "mset (px_executionProposals d) = mset (px_executionProposals c)" and "requests_ok d"
  shows "pipe_inv deq config h K R d"
proof -
  have f: "px_config d = px_config c" "px_rob d = px_rob c" "px_lastAdmittedSequence d = px_lastAdmittedSequence c"
    "px_active d = px_active c" "px_executedSequences d = px_executedSequences c"
    "px_scratchpad d = px_scratchpad c" "px_result d = px_result c"
    using assms(2) by (simp_all add: work_frame_def)
  have ms: "mset (underway d) = mset (underway c)" using assms(3) by (simp add: underway_def f)
  then have st: "set (underway d) = set (underway c)" by (metis set_mset_mset)
  have ent: "rob_entries d = rob_entries c" by (simp add: rob_entries_def f)
  have "rob_ok deq h K R d" "exec_ok deq K d" "history_ok K R d" "nothing_retirable d" "px_config d = config"
    using assms(1) st ent
    by (simp_all add: pipe_inv_def rob_ok_def exec_ok_def history_ok_def nothing_retirable_def f)
  moreover have "units_ok config (underway d)"
    using assms(1) units_ok_mset [of config "underway c" "underway d"] ms by (simp add: pipe_inv_def)
  moreover have "tiles_ok config (px_scratchpad d) (underway d)"
    using assms(1) tiles_ok_subset [of config _ "underway c" "underway d"] st by (simp add: pipe_inv_def f)
  ultimately show ?thesis using assms(4) by (simp add: pipe_inv_def)
qed

lemma requests_ok_frame:
  assumes "requests_ok c" and "work_frame c d"
    and "mset (px_executionProposals d) = mset (px_executionProposals c)"
    and "mset (px_admissionProposals d) = mset (px_admissionProposals c)"
    and "distinct (px_completionProposals d)" "set (px_completionProposals d) \<subseteq> fst ` set (px_active c)"
  shows "requests_ok d"
proof -
  have f: "px_rob d = px_rob c" "px_lastAdmittedSequence d = px_lastAdmittedSequence c"
    "px_active d = px_active c" "px_executedSequences d = px_executedSequences c"
    using assms(2) by (simp_all add: work_frame_def)
  have adm: "admissible i d = admissible i c" for i by (simp add: admissible_def rob_entries_def f)
  have "distinct (map active_sequence (px_executionProposals d)) = distinct (map active_sequence (px_executionProposals c))"
    "distinct (map ni_sequenceId (px_admissionProposals d)) = distinct (map ni_sequenceId (px_admissionProposals c))"
    by (rule mset_eq_imp_distinct_iff, simp add: assms(3,4))+
  moreover have "set (px_executionProposals d) = set (px_executionProposals c)"
    "set (px_admissionProposals d) = set (px_admissionProposals c)"
    using assms(3,4) by (metis set_mset_mset)+
  ultimately show ?thesis using assms(1,5,6) by (simp add: requests_ok_def f adm)
qed

lemma pipe_inv_work:
  assumes "pipe_inv deq config h K R c" and "work_frame c d"
    and "mset (px_executionProposals d) = mset (px_executionProposals c)"
    and "mset (px_admissionProposals d) = mset (px_admissionProposals c)"
    and "distinct (px_completionProposals d)" "set (px_completionProposals d) \<subseteq> fst ` set (px_active c)"
  shows "pipe_inv deq config h K R d"
  using pipe_inv_frame [OF assms(1-3) requests_ok_frame [OF _ assms(2-6)]] assms(1) by (simp add: pipe_inv_def)

lemma pipe_inv_same:
  assumes inv: "pipe_inv deq config h K R c" and "work_frame c d"
    and eq: "px_executionProposals d = px_executionProposals c" "px_admissionProposals d = px_admissionProposals c"
      "px_completionProposals d = px_completionProposals c"
  shows "pipe_inv deq config h K R d"
proof -
  have "distinct (px_completionProposals d)" "set (px_completionProposals d) \<subseteq> fst ` set (px_active c)"
    using inv unfolding pipe_inv_def requests_ok_def eq by blast+
  then show ?thesis by (intro pipe_inv_work [OF inv assms(2)]) (simp_all only: eq)
qed

lemma pipe_inv_code: "pipe_inv deq config h K R c \<Longrightarrow> pipe_inv deq config h K R (setRuntimeFailureCode code c)"
  by (rule pipe_inv_same) (simp_all add: work_frame_def)

section \<open>Calls before the commit\<close>

lemma proposeAdmit_cases:
  fixes c :: "'d pipeline"
  obtains (refused) "proposeAdmit i c = (False, c)"
  | (accepted) "proposeAdmit i c = (True, c\<lparr>px_admissionProposals := px_admissionProposals c @ [i]\<rparr>)"
      "admissible i c" "ni_sequenceId i \<notin> ni_sequenceId ` set (px_admissionProposals c)"
proof -
  define d where "d = c\<lparr>px_admissionProposals := px_admissionProposals c @ [i]\<rparr>"
  define known where "known = list_ex (\<lambda>p. ni_sequenceId p = ni_sequenceId i) (px_admissionProposals c)"
  define old where "old = (case map_of (px_lastAdmittedSequence c) (ni_blockId i) of None \<Rightarrow> False
    | Some q \<Rightarrow> ni_sequenceId i \<le> q)"
  define present where "present = list_ex (\<lambda>r. rob_sequence r = ni_sequenceId i) (rob_entries c)"
  have eq: "proposeAdmit i c = (if known then (False, c) else if old then (False, c)
      else if present then (False, c) else (True, d))"
    unfolding proposeAdmit_def known_def old_def present_def d_def ..
  have "admissible i c" if "\<not> old" "\<not> present"
    using that by (auto simp: admissible_def old_def present_def list_ex_iff not_le split: option.splits)
  moreover have "ni_sequenceId i \<notin> ni_sequenceId ` set (px_admissionProposals c)" if "\<not> known"
    using that by (auto simp: known_def list_ex_iff)
  ultimately show ?thesis using refused accepted unfolding d_def [symmetric] eq
    by (cases known; cases old; cases present; simp)
qed

lemma admit_inv:
  assumes inv: "pipe_inv deq config h K R c"
  shows "pipe_inv deq config h K R (snd (proposeAdmit i c))"
proof (cases rule: proposeAdmit_cases [of i c])
  case refused
  with inv show ?thesis by simp
next
  case accepted
  define d where "d = c\<lparr>px_admissionProposals := px_admissionProposals c @ [i]\<rparr>"
  have wf: "work_frame c d" by (simp add: work_frame_def d_def)
  have "admissible j d = admissible j c" for j by (simp add: admissible_def d_def rob_entries_def)
  moreover have f: "px_executionProposals d = px_executionProposals c" "px_active d = px_active c"
    "px_completionProposals d = px_completionProposals c" "px_executedSequences d = px_executedSequences c"
    "px_admissionProposals d = px_admissionProposals c @ [i]"
    by (simp_all add: d_def)
  ultimately have "requests_ok d" using inv accepted(2,3) by (simp add: pipe_inv_def requests_ok_def)
  with f(1) have "pipe_inv deq config h K R d" by (intro pipe_inv_frame [OF inv wf]) (simp_all only:)
  then show ?thesis by (simp only: accepted(1) snd_conv d_def)
qed

lemma admitted_in_rob:
  "admitted_instruction q c = Some a \<Longrightarrow> \<exists>r \<in> set (rob_entries c). rob_sequence r = q \<and> rb_instruction r = a"
proof -
  have "fold (\<lambda>r admitted. if rob_sequence r = q then Some (rb_instruction r) else admitted) rs b = Some a \<Longrightarrow>
      b = Some a \<or> (\<exists>r \<in> set rs. rob_sequence r = q \<and> rb_instruction r = a)" for rs b
    by (induction rs arbitrary: b) (auto split: if_splits)
  then show "admitted_instruction q c = Some a \<Longrightarrow> ?thesis" by (fastforce simp: admitted_instruction_def)
qed

lemma executable_in_rob:
  assumes inv: "pipe_inv deq config h K R c" and ex: "executable deq p c"
  shows "in_rob deq (rob_entries c) p"
proof -
  let ?i = "ie_instruction (ax_entry p)"
  obtain a where a: "admitted_instruction (ni_sequenceId ?i) c = Some a" "instruction_equal deq (untimed a) (untimed ?i)"
    and fresh: "ni_sequenceId ?i \<notin> set (px_executedSequences c)"
    using ex by (auto simp: executable_def Let_def)
  obtain r where r: "r \<in> set (rob_entries c)" "rob_sequence r = ni_sequenceId ?i" "rb_instruction r = a"
    using admitted_in_rob [OF a(1)] by blast
  have "\<not> rb_completed r"
  proof
    assume "rb_completed r"
    then have "rb_instruction r \<in> ie_instruction ` set K" using inv r(1) by (simp add: pipe_inv_def rob_ok_def)
    then have "rob_sequence r \<in> entry_sequence ` set K" by auto
    then show False using inv fresh r(2) by (auto simp: pipe_inv_def exec_ok_def)
  qed
  with r a(2) show ?thesis by (auto simp: in_rob_def same_instruction_def)
qed

lemma execute_inv:
  assumes inv: "pipe_inv deq config h K R c"
  shows "pipe_inv deq config h K R (snd (fst (proposeExecute api deq x e c s)))"
proof (cases rule: proposeExecute_cases [of api deq x e c s])
  case refused
  then show ?thesis using inv by simp
next
  case stalled
  have "pipe_inv deq config h K R (stall c)"
    by (rule pipe_inv_same [OF inv]) (simp_all add: stall_def work_frame_def)
  then show ?thesis by (simp only: stalled snd_conv)
next
  case (failed code)
  then show ?thesis using pipe_inv_code [OF inv] by (simp only: snd_conv)
next
  case (accepted p)
  define d where "d = c\<lparr>px_executionProposals := px_executionProposals c @ [p]\<rparr>"
  have f: "px_config d = px_config c" "px_rob d = px_rob c" "px_lastAdmittedSequence d = px_lastAdmittedSequence c"
    "px_active d = px_active c" "px_executedSequences d = px_executedSequences c"
    "px_scratchpad d = px_scratchpad c" "px_result d = px_result c" "px_admissionProposals d = px_admissionProposals c"
    "px_completionProposals d = px_completionProposals c"
    "px_executionProposals d = px_executionProposals c @ [p]" "underway d = underway c @ [p]"
    by (simp_all add: d_def underway_def)
  have ent: "rob_entries d = rob_entries c" by (simp add: rob_entries_def f)
  have adm: "admissible i d = admissible i c" for i by (simp add: admissible_def rob_entries_def f)
  have cfg: "px_config c = config" using inv by (simp add: pipe_inv_def)
  have "units_ok config (underway d)" "tiles_ok config (px_scratchpad d) (underway d)"
    using units_ok_add [OF _ accepted(2)] tiles_ok_add [OF _ accepted(2)] inv by (simp_all add: pipe_inv_def f cfg)
  moreover have "active_sequence p \<notin> set (px_executedSequences c)"
    "active_sequence p \<notin> active_sequence ` set (px_executionProposals c)"
    using accepted(2) by (simp_all add: executable_def Let_def)
  then have "requests_ok d" using inv by (auto simp: pipe_inv_def requests_ok_def f adm)
  moreover have "exec_ok deq K d"
    using inv executable_in_rob [OF inv accepted(2)] by (simp add: pipe_inv_def exec_ok_def f ent)
  moreover have "rob_ok deq h K R d" "history_ok K R d" "nothing_retirable d"
    using inv by (simp_all add: pipe_inv_def rob_ok_def history_ok_def nothing_retirable_def f ent)
  ultimately have "pipe_inv deq config h K R d" by (simp add: pipe_inv_def f cfg)
  then show ?thesis using accepted(1) by (simp add: d_def)
qed

subsection \<open>Work\<close>

definition proposal_frame :: "'d pipeline \<Rightarrow> 'd pipeline \<Rightarrow> bool" where
  "proposal_frame c d \<longleftrightarrow> work_frame c d \<and> px_executionProposals d = px_executionProposals c \<and>
     px_admissionProposals d = px_admissionProposals c \<and>
     px_traceExhaustedProposal d = px_traceExhaustedProposal c"

lemma proposal_frame_trans: "proposal_frame a b \<Longrightarrow> proposal_frame b c \<Longrightarrow> proposal_frame a c"
  unfolding proposal_frame_def using work_frame_trans by metis

lemma proposal_frame_refl: "proposal_frame c c"
  by (simp add: proposal_frame_def work_frame_refl)

lemma proposal_frame_code [simp]: "proposal_frame c (setRuntimeFailureCode code d) = proposal_frame c d"
  by (simp add: proposal_frame_def work_frame_def)

lemma proposal_frame_memory [simp]:
  "proposal_frame c (d\<lparr>px_memoryProtocol := p\<rparr>) = proposal_frame c d"
  "proposal_frame c (d\<lparr>px_memoryController := m\<rparr>) = proposal_frame c d"
  "proposal_frame c (d\<lparr>px_deliveryProposals := ds\<rparr>) = proposal_frame c d"
  "proposal_frame c (d\<lparr>px_completionProposals := qs\<rparr>) = proposal_frame c d"
  by (simp_all add: proposal_frame_def work_frame_def)

lemma service_step:
  fixes c :: "'d pipeline"
  obtains (stop) "service_loop e c = c"
  | (failed) code where "service_loop e c = setRuntimeFailureCode code c"
      "code = ''npu_memory_correlation_missing'' \<and> (\<exists>request. rr_peekRequest (px_memoryProtocol c) = Some request \<and>
         map_of (px_active c) (snd request) = None) \<or>
       code = ''npu_memory_request_delivered_twice'' \<and> (\<exists>request x. rr_peekRequest (px_memoryProtocol c) = Some request \<and>
         map_of (px_active c) (snd request) = Some x \<and> ax_memoryDelivered x)"
  | (pop) popped p1 where "rr_proposePopRequest (px_memoryProtocol c) = (Some popped, p1)"
      "service_loop e c = service_loop e
         (c\<lparr>px_memoryProtocol := p1, px_deliveryProposals := px_deliveryProposals c @ [snd popped]\<rparr>)"
proof (cases "rr_peekRequest (px_memoryProtocol c)")
  case None
  then show ?thesis by (intro stop) (simp only: service_loop.simps [of e c] option.case)
next
  case (Some request)
  note step = service_loop.simps [of e c] Some option.case
  show ?thesis
  proof (cases "map_of (px_active c) (snd request)")
    case None
    then show ?thesis using Some
      by (intro failed [of "''npu_memory_correlation_missing''"]) (simp only: step, blast)
  next
    case x: (Some x)
    show ?thesis
    proof (cases "service_blocked e x")
      case True
      then show ?thesis by (intro stop) (simp only: step x if_True)
    next
      case blocked: False
      show ?thesis
      proof (cases "ax_memoryDelivered x")
        case True
        then show ?thesis using blocked Some x
          by (intro failed [of "''npu_memory_request_delivered_twice''"]) (simp only: step x if_True if_False, blast)
      next
        case del: False
        obtain o1 p1 where pop: "rr_proposePopRequest (px_memoryProtocol c) = (o1, p1)" by (rule prod.exhaust)
        show ?thesis
        proof (cases o1)
          case None
          then show ?thesis using blocked del
            by (intro stop) (simp only: step x pop if_False case_prod_conv option.case)
        next
          case (Some popped)
          note \<open>o1 = Some popped\<close>
          then show ?thesis using blocked del pop
            by (intro that(3) [of popped p1]) (simp_all only: step x if_False case_prod_conv option.case)
        qed
      qed
    qed
  qed
qed

lemma service_measure:
  assumes "rr_proposePopRequest p = (Some popped, p1)"
  shows "length (rr_committedRequests p1) - rr_requestPopCount p1 < length (rr_committedRequests p) - rr_requestPopCount p"
  using assms by (auto simp: rr_proposePopRequest_def split: if_splits)

lemma service_loop_frame:
  "proposal_frame c (service_loop e c) \<and> px_completionProposals (service_loop e c) = px_completionProposals c \<and>
   px_memoryController (service_loop e c) = px_memoryController c"
proof (induction "length (rr_committedRequests (px_memoryProtocol c)) - rr_requestPopCount (px_memoryProtocol c)"
    arbitrary: c rule: less_induct)
  case less
  show ?case
  proof (cases rule: service_step [of e c])
    case (pop popped p1)
    define d where "d = c\<lparr>px_memoryProtocol := p1, px_deliveryProposals := px_deliveryProposals c @ [snd popped]\<rparr>"
    have f: "proposal_frame c d" "px_completionProposals d = px_completionProposals c" "px_memoryProtocol d = p1"
      "px_memoryController d = px_memoryController c"
      by (simp_all add: d_def proposal_frame_refl)
    have "proposal_frame d (service_loop e d) \<and> px_completionProposals (service_loop e d) = px_completionProposals d \<and>
        px_memoryController (service_loop e d) = px_memoryController d"
      by (rule less) (use service_measure [OF pop(1)] f in simp)
    then show ?thesis unfolding pop(2) d_def [symmetric] using f proposal_frame_trans by metis
  qed (simp_all add: proposal_frame_refl)
qed

lemma propose_completion_cases:
  fixes c :: "'d pipeline"
  obtains (skip) "propose_completion e (q, x) c = c"
  | (failed) p1 m1 where "propose_completion e (q, x) c =
      setRuntimeFailureCode ''npu_memory_response_failed'' (c\<lparr>px_memoryProtocol := p1, px_memoryController := m1\<rparr>)"
      "\<exists>r. ax_memoryRequest x = Some r \<and> ax_memoryDelivered x \<and>
         (\<not> fst (rr_proposeResponse \<lparr>ms_correlationId = q, ms_value = memory_value (px_scratchpad c) r q\<rparr> q (px_memoryProtocol c)) \<or>
          \<not> fst (proposeCancel (so_id c) q (px_memoryController c)))" "q \<notin> set (px_completionProposals c)"
  | (plain) "propose_completion e (q, x) c = c\<lparr>px_completionProposals := px_completionProposals c @ [q]\<rparr>"
      "ax_memoryRequest x = None" "q \<notin> set (px_completionProposals c)" "ax_readyEpoch x = e"
  | (memory) r p1 m1 where "propose_completion e (q, x) c = c\<lparr>px_memoryProtocol := p1, px_memoryController := m1,
        px_completionProposals := px_completionProposals c @ [q]\<rparr>"
      "ax_memoryRequest x = Some r" "ax_memoryDelivered x" "q \<notin> set (px_completionProposals c)"
      "rr_proposeResponse \<lparr>ms_correlationId = q, ms_value = memory_value (px_scratchpad c) r q\<rparr> q (px_memoryProtocol c) = (True, p1)"
      "proposeCancel (so_id c) q (px_memoryController c) = (True, m1)" "ax_readyEpoch x = e"
proof (cases "ax_readyEpoch x \<noteq> e \<or> q \<in> set (px_completionProposals c)")
  case True
  then show ?thesis by (intro skip) (simp only: propose_completion_def case_prod_conv if_True)
next
  case due: False
  note step = propose_completion_def case_prod_conv if_False
  show ?thesis
  proof (cases "ax_memoryRequest x")
    case None
    then show ?thesis using due by (intro plain) (simp_all only: step option.case, blast+)
  next
    case (Some r)
    let ?resp = "rr_proposeResponse \<lparr>ms_correlationId = q, ms_value = memory_value (px_scratchpad c) r q\<rparr> q (px_memoryProtocol c)"
    obtain o1 p1 where resp: "?resp = (o1, p1)" by (rule prod.exhaust)
    obtain o2 m1 where cancel: "proposeCancel (so_id c) q (px_memoryController c) = (o2, m1)" by (rule prod.exhaust)
    consider "\<not> ax_memoryDelivered x" | "ax_memoryDelivered x" "\<not> o1" | "ax_memoryDelivered x" o1 "\<not> o2"
      | "ax_memoryDelivered x" o1 o2 by blast
    then show ?thesis
    proof cases
      case 1
      then show ?thesis using due Some by (intro skip) (simp only: step option.case if_True simp_thms)
    next
      case 2
      have same: "c\<lparr>px_memoryProtocol := p1, px_memoryController := px_memoryController c\<rparr> = c\<lparr>px_memoryProtocol := p1\<rparr>"
        by (cases c) simp
      show ?thesis by (rule failed [of "px_memoryController c" p1])
          (use 2 due Some resp in \<open>simp_all add: propose_completion_def same\<close>)
    next
      case 3
      show ?thesis by (rule failed [of m1 p1])
          (use 3 due Some resp cancel in \<open>simp_all add: propose_completion_def\<close>)
    next
      case 4
      show ?thesis by (rule memory [of m1 p1 r])
          (use 4 due Some resp cancel in \<open>simp_all add: propose_completion_def\<close>)
    qed
  qed
qed

lemma propose_completion_frame:
  shows "proposal_frame c (propose_completion e qx c)"
    and "px_completionProposals (propose_completion e qx c) = px_completionProposals c \<or>
      fst qx \<notin> set (px_completionProposals c) \<and>
      px_completionProposals (propose_completion e qx c) = px_completionProposals c @ [fst qx]"
proof -
  obtain q x where qx: "qx = (q, x)" by fastforce
  have "proposal_frame c (propose_completion e (q, x) c) \<and>
    (px_completionProposals (propose_completion e (q, x) c) = px_completionProposals c \<or>
      q \<notin> set (px_completionProposals c) \<and>
      px_completionProposals (propose_completion e (q, x) c) = px_completionProposals c @ [q])"
    by (cases rule: propose_completion_cases [of e q x c]) (simp_all add: proposal_frame_refl)
  then show "proposal_frame c (propose_completion e qx c)"
    and "px_completionProposals (propose_completion e qx c) = px_completionProposals c \<or>
      fst qx \<notin> set (px_completionProposals c) \<and>
      px_completionProposals (propose_completion e qx c) = px_completionProposals c @ [fst qx]"
    by (simp_all add: qx)
qed

lemma propose_completions_frame:
  assumes "distinct (px_completionProposals c)" and "set (px_completionProposals c) \<subseteq> A" and "fst ` set axs \<subseteq> A"
  shows "proposal_frame c (fold (propose_completion e) axs c) \<and>
    distinct (px_completionProposals (fold (propose_completion e) axs c)) \<and>
    set (px_completionProposals (fold (propose_completion e) axs c)) \<subseteq> A"
  using assms
proof (induction axs arbitrary: c)
  case (Cons qx axs)
  let ?d = "propose_completion e qx c"
  have "proposal_frame ?d (fold (propose_completion e) axs ?d) \<and>
    distinct (px_completionProposals (fold (propose_completion e) axs ?d)) \<and>
    set (px_completionProposals (fold (propose_completion e) axs ?d)) \<subseteq> A"
    by (rule Cons.IH) (use Cons.prems propose_completion_frame(2) [of e qx c] in auto)
  then show ?case using proposal_frame_trans [OF propose_completion_frame(1) [of c e qx]] by simp
qed (simp add: proposal_frame_refl)

lemma work_effect:
  assumes inv: "pipe_inv deq config h K R c"
  shows "proposal_frame c (pipeline_doWork e c)"
    and "distinct (px_completionProposals (pipeline_doWork e c))"
    and "set (px_completionProposals (pipeline_doWork e c)) \<subseteq> fst ` set (px_active c)"
proof -
  define c1 where "c1 = c\<lparr>px_memoryProtocol := pop_responses (px_memoryProtocol c)\<rparr>"
  define c2 where "c2 = service_loop e c1"
  have f1: "proposal_frame c c1" "px_completionProposals c1 = px_completionProposals c"
    by (simp_all add: c1_def proposal_frame_refl)
  have f2: "proposal_frame c1 c2" "px_completionProposals c2 = px_completionProposals c1"
    using service_loop_frame [of c1 e] by (simp_all add: c2_def)
  note f = proposal_frame_trans [OF f1(1) f2(1)]
  have "px_active c2 = px_active c" using f by (simp add: proposal_frame_def work_frame_def)
  moreover have "distinct (px_completionProposals c)" "set (px_completionProposals c) \<subseteq> fst ` set (px_active c)"
    using inv by (simp_all add: pipe_inv_def requests_ok_def)
  ultimately have fin: "proposal_frame c2 (fold (propose_completion e) (px_active c2) c2) \<and>
    distinct (px_completionProposals (fold (propose_completion e) (px_active c2) c2)) \<and>
    set (px_completionProposals (fold (propose_completion e) (px_active c2) c2)) \<subseteq> fst ` set (px_active c)"
    using propose_completions_frame [of c2 "fst ` set (px_active c)" "px_active c2" e] f1(2) f2(2) by simp
  have eq: "pipeline_doWork e c = fold (propose_completion e) (px_active c2) c2"
    by (simp add: pipeline_doWork_def Let_def c1_def c2_def)
  show "proposal_frame c (pipeline_doWork e c)" "distinct (px_completionProposals (pipeline_doWork e c))"
    "set (px_completionProposals (pipeline_doWork e c)) \<subseteq> fst ` set (px_active c)"
    unfolding eq using fin proposal_frame_trans [OF f] by blast+
qed

lemma work_inv:
  assumes inv: "pipe_inv deq config h K R c"
  shows "pipe_inv deq config h K R (pipeline_doWork e c)"
  by (rule pipe_inv_work [OF inv]) (use work_effect [OF inv, of e] in \<open>simp_all add: proposal_frame_def\<close>)

lemma exhaust_inv:
  assumes inv: "pipe_inv deq config h K R c"
  shows "pipe_inv deq config h K R (snd (proposeTraceExhausted c))"
  by (rule pipe_inv_same [OF inv]) (simp_all add: proposeTraceExhausted_def work_frame_def)

lemma propose_inv:
  assumes "pipe_inv deq config h K R (fst cs)"
  shows "pipe_inv deq config h K R (fst (fold (pipeline_propose api deq) reqs cs))"
  using assms
proof (induction reqs arbitrary: cs)
  case (Cons req reqs)
  have "pipe_inv deq config h K R (fst (pipeline_propose api deq req cs))"
    using Cons.prems by (cases req) (simp_all add: admit_inv execute_inv exhaust_inv work_inv)
  from Cons.IH [OF this] show ?case by simp
qed simp

subsection \<open>Arbitration\<close>

lemma request_memory_frame:
  "proposal_frame c (request_memory x c) \<and> px_completionProposals (request_memory x c) = px_completionProposals c \<and>
   px_deliveryProposals (request_memory x c) = px_deliveryProposals c"
proof (cases "ax_memoryRequest x")
  case None
  then show ?thesis by (simp add: request_memory_def proposal_frame_refl)
next
  case (Some r)
  obtain o1 p1 where req: "rr_proposeRequest r (active_sequence x) (px_memoryProtocol c) = (o1, p1)" by (rule prod.exhaust)
  obtain o2 m1 where res: "proposeReserve_full (so_id c) 1 (ax_issueEpoch x) (active_sequence x) (ax_readyEpoch x)
      (active_sequence x) (px_memoryController c) = (o2, m1)" by (rule prod.exhaust)
  show ?thesis unfolding request_memory_def Some option.case req res case_prod_conv Let_def
    by (cases o1; cases o2) (simp_all add: proposal_frame_refl)
qed

lemma request_memories_frame:
  "proposal_frame c (fold request_memory xs c) \<and>
   px_completionProposals (fold request_memory xs c) = px_completionProposals c \<and>
   px_deliveryProposals (fold request_memory xs c) = px_deliveryProposals c"
proof (induction xs arbitrary: c)
  case (Cons x xs)
  show ?case using Cons.IH [of "request_memory x c"] request_memory_frame [of c x]
      proposal_frame_trans [of c "request_memory x c" "fold request_memory xs (request_memory x c)"] by simp
qed (simp add: proposal_frame_refl)

text \<open>Arbitration sorts the proposals and hands the memory requests to the channel and the controller.\<close>

definition in_arbitration_order :: "'d pipeline \<Rightarrow> 'd pipeline" where
  "in_arbitration_order c = c\<lparr>px_admissionProposals := sort_key admission_key (px_admissionProposals c),
     px_executionProposals := sort_key (issue_key \<circ> ax_entry) (px_executionProposals c)\<rparr>"

definition requested_memory :: "'d pipeline \<Rightarrow> 'd pipeline" where
  "requested_memory c = fold request_memory (px_executionProposals (in_arbitration_order c)) (in_arbitration_order c)"

lemma arbitrate_effect:
  fixes c :: "'d pipeline"
  defines "r \<equiv> requested_memory c"
  shows "\<exists>d. (fst (pipeline_doArbitrate api c s) = d \<or>
      fst (pipeline_doArbitrate api c s) = setRuntimeFailureCode ''observation_proposal_failed'' d) \<and>
    d = r\<lparr>px_memoryProtocol := fst (rr_doArbitrate api (px_memoryProtocol r) s),
      px_memoryController := fst (resource_doArbitrate api (px_memoryController r) (snd (rr_doArbitrate api (px_memoryProtocol r) s)))\<rparr>"
proof -
  obtain p3 s3 where p3: "rr_doArbitrate api (px_memoryProtocol r) s = (p3, s3)" by (rule prod.exhaust)
  obtain m4 s4 where m4: "resource_doArbitrate api (px_memoryController r) s3 = (m4, s4)" by (rule prod.exhaust)
  define d where "d = r\<lparr>px_memoryProtocol := p3, px_memoryController := m4\<rparr>"
  have eq: "pipeline_doArbitrate api c s = emitObservations api (map execute_observation (px_executionProposals d) @
      map (instant_observation ''complete'') (px_completionProposals d)) d s4"
    unfolding pipeline_doArbitrate_def Let_def in_arbitration_order_def [symmetric] requested_memory_def [symmetric]
      r_def [symmetric] p3 m4 case_prod_conv d_def [symmetric] ..
  show ?thesis using emitObservations_object [of api _ d s4] unfolding eq p3 fst_conv snd_conv m4 d_def by blast
qed

lemma arbitration_order_frame:
  fixes c :: "'d pipeline"
  shows "work_frame c (in_arbitration_order c)" "px_completionProposals (in_arbitration_order c) = px_completionProposals c"
    "px_deliveryProposals (in_arbitration_order c) = px_deliveryProposals c"
    "px_admissionProposals (in_arbitration_order c) = sort_key admission_key (px_admissionProposals c)"
    "px_executionProposals (in_arbitration_order c) = sort_key (issue_key \<circ> ax_entry) (px_executionProposals c)"
    "px_memoryProtocol (in_arbitration_order c) = px_memoryProtocol c"
    "px_memoryController (in_arbitration_order c) = px_memoryController c"
    "so_runtimeFailureCode (in_arbitration_order c) = so_runtimeFailureCode c"
    "px_traceExhaustedProposal (in_arbitration_order c) = px_traceExhaustedProposal c"
  by (simp_all add: in_arbitration_order_def work_frame_def)

lemma arbitrate_frame:
  fixes c :: "'d pipeline"
  assumes d_def: "d = fst (pipeline_doArbitrate api c s)"
  shows "work_frame c d" "px_completionProposals d = px_completionProposals c"
    "px_deliveryProposals d = px_deliveryProposals c"
    "px_admissionProposals d = sort_key admission_key (px_admissionProposals c)"
    "px_executionProposals d = sort_key (issue_key \<circ> ax_entry) (px_executionProposals c)"
    "px_traceExhaustedProposal d = px_traceExhaustedProposal c"
proof -
  note f = request_memories_frame [of "in_arbitration_order c" "px_executionProposals (in_arbitration_order c)",
      folded requested_memory_def] arbitration_order_frame [of c]
  have w: "work_frame c (requested_memory c)"
    using f(1,2) work_frame_trans by (auto simp: proposal_frame_def)
  define p where "p = fst (rr_doArbitrate api (px_memoryProtocol (requested_memory c)) s)"
  define m where "m = fst (resource_doArbitrate api (px_memoryController (requested_memory c))
    (snd (rr_doArbitrate api (px_memoryProtocol (requested_memory c)) s)))"
  have "d = (requested_memory c)\<lparr>px_memoryProtocol := p, px_memoryController := m\<rparr> \<or>
    d = setRuntimeFailureCode ''observation_proposal_failed'' ((requested_memory c)\<lparr>px_memoryProtocol := p, px_memoryController := m\<rparr>)"
    using arbitrate_effect [of api c s] unfolding d_def p_def m_def by blast
  then have "proposal_frame (requested_memory c) d \<and> px_completionProposals d = px_completionProposals (requested_memory c) \<and>
      px_deliveryProposals d = px_deliveryProposals (requested_memory c)"
    by (elim disjE) (simp_all add: proposal_frame_refl)
  then have g: "work_frame (requested_memory c) d" "px_completionProposals d = px_completionProposals (requested_memory c)"
    "px_deliveryProposals d = px_deliveryProposals (requested_memory c)"
    "px_admissionProposals d = px_admissionProposals (requested_memory c)"
    "px_executionProposals d = px_executionProposals (requested_memory c)"
    "px_traceExhaustedProposal d = px_traceExhaustedProposal (requested_memory c)"
    by (simp_all only: proposal_frame_def)
  show "work_frame c d" by (rule work_frame_trans [OF w g(1)])
  show "px_completionProposals d = px_completionProposals c"
    "px_deliveryProposals d = px_deliveryProposals c"
    "px_admissionProposals d = sort_key admission_key (px_admissionProposals c)"
    "px_executionProposals d = sort_key (issue_key \<circ> ax_entry) (px_executionProposals c)"
    "px_traceExhaustedProposal d = px_traceExhaustedProposal c"
    unfolding g(2-6) using f by (simp_all only: proposal_frame_def)
qed

lemma arbitrate_inv:
  assumes inv: "pipe_inv deq config h K R c"
  shows "pipe_inv deq config h K R (fst (pipeline_doArbitrate api c s))"
proof -
  note f = arbitrate_frame [OF refl, where c = c and api = api and s = s]
  have "distinct (px_completionProposals c)" "set (px_completionProposals c) \<subseteq> fst ` set (px_active c)"
    using inv by (simp_all add: pipe_inv_def requests_ok_def)
  then show ?thesis by (intro pipe_inv_work [OF inv f(1)]) (simp_all add: f(2-6))
qed

section \<open>Commit\<close>

text \<open>The invariant between the steps of the commit, where only the active executions are under way.\<close>

definition stage_ok ::
  "('d \<Rightarrow> 'd \<Rightarrow> bool) \<Rightarrow> execution_config \<Rightarrow> 'd npu_instruction list \<Rightarrow> 'd issue_entry list \<Rightarrow> 'd npu_instruction list
   \<Rightarrow> 'd pipeline \<Rightarrow> bool" where
  "stage_ok deq config h K R c \<longleftrightarrow> px_config c = config \<and> rob_ok deq h K R c \<and>
     ordered (px_active c) \<and> (\<forall>(q, x) \<in> set (px_active c). active_sequence x = q) \<and>
     set (px_executedSequences c) = fst ` set (px_active c) \<union> entry_sequence ` set K \<and>
     fst ` set (px_active c) \<inter> entry_sequence ` set K = {} \<and> distinct (map entry_sequence K) \<and>
     (\<forall>x \<in> snd ` set (px_active c). in_rob deq (rob_entries c) x) \<and>
     units_ok config (map snd (px_active c)) \<and> tiles_ok config (px_scratchpad c) (map snd (px_active c)) \<and>
     history_ok K R c"

subsection \<open>Executions\<close>

lemma commit_execution_fields:
  fixes c :: "'d pipeline"
  shows "px_active (commit_execution x c) = map_emplace (active_sequence x) x (px_active c)"
    "px_executedSequences (commit_execution x c) = set_insert (active_sequence x) (px_executedSequences c)"
  by (simp_all add: commit_execution_def Let_def split: option.split)

lemma commit_executions_frame:
  fixes c :: "'d pipeline"
  shows "px_config (fold commit_execution X c) = px_config c"
    "px_system (fold commit_execution X c) = px_system c"
    "px_memoryProtocol (fold commit_execution X c) = px_memoryProtocol c"
    "px_memoryController (fold commit_execution X c) = px_memoryController c"
    "px_rob (fold commit_execution X c) = px_rob c"
    "px_lastAdmittedSequence (fold commit_execution X c) = px_lastAdmittedSequence c"
    "px_deliveryProposals (fold commit_execution X c) = px_deliveryProposals c"
    "px_completionProposals (fold commit_execution X c) = px_completionProposals c"
    "px_completed (fold commit_execution X c) = px_completed c"
    "px_retired (fold commit_execution X c) = px_retired c"
    "px_scratchpad (fold commit_execution X c) = px_scratchpad c"
    "px_result (fold commit_execution X c) = px_result c"
    "so_id (fold commit_execution X c) = so_id c"
    "so_runtimeFailureCode (fold commit_execution X c) = so_runtimeFailureCode c"
    "px_traceExhausted (fold commit_execution X c) = px_traceExhausted c"
    "px_traceExhaustedProposal (fold commit_execution X c) = px_traceExhaustedProposal c"
  by (rule fold_frame; simp add: commit_execution_def Let_def split: option.split)+

lemma commit_executions_active:
  fixes c :: "'d pipeline"
  assumes "ordered (px_active c)" and "distinct (map active_sequence X)"
    and "\<forall>x \<in> set X. active_sequence x \<notin> fst ` set (px_active c)"
  shows "ordered (px_active (fold commit_execution X c)) \<and>
    mset (px_active (fold commit_execution X c)) = mset (map (\<lambda>x. (active_sequence x, x)) X) + mset (px_active c) \<and>
    set (px_executedSequences (fold commit_execution X c)) = active_sequence ` set X \<union> set (px_executedSequences c)"
  using assms
proof (induction X arbitrary: c)
  case (Cons x X)
  have new: "map_of (px_active c) (active_sequence x) = None" using Cons.prems(3) by (simp add: map_of_eq_None_iff)
  then have act: "px_active (commit_execution x c) = map_put (active_sequence x) x (px_active c)"
    by (simp add: commit_execution_fields map_emplace_def)
  have "ordered (px_active (fold commit_execution X (commit_execution x c))) \<and>
    mset (px_active (fold commit_execution X (commit_execution x c))) =
      mset (map (\<lambda>x. (active_sequence x, x)) X) + mset (px_active (commit_execution x c)) \<and>
    set (px_executedSequences (fold commit_execution X (commit_execution x c))) =
      active_sequence ` set X \<union> set (px_executedSequences (commit_execution x c))"
    by (rule Cons.IH) (use Cons.prems in \<open>auto simp: act image_iff\<close>)
  then show ?case
    using mset_map_put_new [OF Cons.prems(1) new] by (simp add: act commit_execution_fields(2))
qed simp

subsection \<open>Deliveries\<close>

definition deliver :: "u64 list \<Rightarrow> u64 \<times> 'd active_execution \<Rightarrow> u64 \<times> 'd active_execution" where
  "deliver D qx = (fst qx, if fst qx \<in> set D then (snd qx)\<lparr>ax_memoryDelivered := True\<rparr> else snd qx)"

lemma deliver_fields [simp]:
  "fst (deliver D qx) = fst qx" "ax_entry (snd (deliver D qx)) = ax_entry (snd qx)"
  "ax_unitIndex (snd (deliver D qx)) = ax_unitIndex (snd qx)"
  "ax_memoryRequest (snd (deliver D qx)) = ax_memoryRequest (snd qx)"
  "ax_readyEpoch (snd (deliver D qx)) = ax_readyEpoch (snd qx)"
  "ax_issueEpoch (snd (deliver D qx)) = ax_issueEpoch (snd qx)"
  by (simp_all add: deliver_def)

lemma map_put_update:
  assumes "ordered m" and "map_of m k = Some v"
  shows "map_put k w m = map (\<lambda>e. if fst e = k then (k, w) else e) m"
  using assms
proof (induction m)
  case (Cons e m)
  show ?case
  proof (cases "fst e < k")
    case True
    with Cons show ?thesis by (cases e) (auto split: if_splits)
  next
    case False
    have "fst e = k" using Cons.prems False by (cases e) (auto dest!: map_of_SomeD split: if_splits)
    moreover have "map (\<lambda>e. if fst e = k then (k, w) else e) m = m"
      using Cons.prems(1) \<open>fst e = k\<close> by (intro map_idI) auto
    ultimately show ?thesis by (cases e) simp
  qed
qed simp

definition delivery_frame :: "'d pipeline \<Rightarrow> 'd pipeline \<Rightarrow> bool" where
  "delivery_frame c d \<longleftrightarrow> px_config d = px_config c \<and> px_system d = px_system c \<and>
     px_memoryProtocol d = px_memoryProtocol c \<and> px_memoryController d = px_memoryController c \<and>
     px_rob d = px_rob c \<and> px_lastAdmittedSequence d = px_lastAdmittedSequence c \<and>
     px_completionProposals d = px_completionProposals c \<and>
     px_executedSequences d = px_executedSequences c \<and> px_completed d = px_completed c \<and>
     px_retired d = px_retired c \<and> px_result d = px_result c \<and>
     px_scratchpad d = px_scratchpad c \<and> so_id d = so_id c \<and> px_traceExhausted d = px_traceExhausted c \<and>
     px_traceExhaustedProposal d = px_traceExhaustedProposal c"

lemma delivery_frame_trans: "delivery_frame a b \<Longrightarrow> delivery_frame b c \<Longrightarrow> delivery_frame a c"
  unfolding delivery_frame_def by (elim conjE, intro conjI) metis+

lemma commit_delivery_effect:
  fixes c :: "'d pipeline"
  assumes "ordered (px_active c)"
  obtains d s' where "commit_delivery api q (c, s) = (d, s')" "delivery_frame c d"
    "px_active d = map (deliver [q]) (px_active c)"
    "so_runtimeFailureCode d = so_runtimeFailureCode c \<or>
     q \<notin> fst ` set (px_active c) \<and> so_runtimeFailureCode d = ''npu_memory_correlation_missing'' \<or>
     px_system c \<noteq> None \<and> so_runtimeFailureCode d = ''npu_completion_schedule_failed''"
proof (cases "map_of (px_active c) q")
  case None
  then have out: "q \<notin> fst ` set (px_active c)" by (simp add: map_of_eq_None_iff)
  then have "map (deliver [q]) (px_active c) = px_active c" by (intro map_idI) (auto simp: deliver_def)
  moreover have "commit_delivery api q (c, s) = (setRuntimeFailureCode ''npu_memory_correlation_missing'' c, s)"
    unfolding commit_delivery_def case_prod_conv None option.case ..
  ultimately show ?thesis using out that [of "setRuntimeFailureCode ''npu_memory_correlation_missing'' c" s]
    by (simp add: delivery_frame_def)
next
  case (Some x)
  define c1 where "c1 = c\<lparr>px_active := map_put q (x\<lparr>ax_memoryDelivered := True\<rparr>) (px_active c)\<rparr>"
  have "map (deliver [q]) (px_active c) = map_put q (x\<lparr>ax_memoryDelivered := True\<rparr>) (px_active c)"
    unfolding map_put_update [OF assms Some]
    using assms Some by (intro map_cong) (auto simp: deliver_def map_of_in_ordered prod_eq_iff)
  then have f: "delivery_frame c c1" "px_active c1 = map (deliver [q]) (px_active c)"
    "so_runtimeFailureCode c1 = so_runtimeFailureCode c"
    by (simp_all add: c1_def delivery_frame_def)
  then have g: "delivery_frame c (setRuntimeFailureCode x c1)"
    "px_active (setRuntimeFailureCode x c1) = map (deliver [q]) (px_active c)" for x
    by (simp_all add: delivery_frame_def)
  show ?thesis
  proof (cases "px_system c")
    case None
    have "commit_delivery api q (c, s) = (c1, s)"
      unfolding commit_delivery_def case_prod_conv Some option.case Let_def c1_def [symmetric] None ..
    then show ?thesis by (rule that) (simp_all add: f)
  next
    case sys: (Some sys)
    obtain ok s1 where ev: "api_scheduleEvent api (npu_event (so_id c) (ax_readyEpoch x) kNpuCompletionEvent q) s = (ok, s1)"
      by (rule prod.exhaust)
    have "commit_delivery api q (c, s) = (case ok of True \<Rightarrow> (c1, s1)
        | False \<Rightarrow> (setRuntimeFailureCode ''npu_completion_schedule_failed'' c1, s1))"
      unfolding commit_delivery_def case_prod_conv Some option.case Let_def c1_def [symmetric] sys ev ..
    then show ?thesis using that f g sys by (cases ok) simp_all
  qed
qed

lemma deliver_append: "map (deliver D) (map (deliver [q]) m) = map (deliver (q # D)) m"
  by (auto simp: deliver_def)

lemma commit_deliveries_effect:
  fixes c :: "'d pipeline"
  assumes "ordered (px_active c)"
  obtains d s' where "fold (commit_delivery api) D (c, s) = (d, s')" "delivery_frame c d"
    "px_active d = map (deliver D) (px_active c)"
    "so_runtimeFailureCode d = so_runtimeFailureCode c \<or>
     \<not> set D \<subseteq> fst ` set (px_active c) \<and> so_runtimeFailureCode d = ''npu_memory_correlation_missing'' \<or>
     px_system c \<noteq> None \<and> so_runtimeFailureCode d = ''npu_completion_schedule_failed''"
  using assms
proof (induction D arbitrary: c s thesis)
  case Nil
  have "map (deliver []) (px_active c) = px_active c" by (intro map_idI) (simp add: deliver_def)
  then show ?case using Nil.prems(1) [of c s] by (simp add: delivery_frame_def)
next
  case (Cons q D)
  obtain c1 s1 where one: "commit_delivery api q (c, s) = (c1, s1)" "delivery_frame c c1"
    "px_active c1 = map (deliver [q]) (px_active c)"
    "so_runtimeFailureCode c1 = so_runtimeFailureCode c \<or>
     q \<notin> fst ` set (px_active c) \<and> so_runtimeFailureCode c1 = ''npu_memory_correlation_missing'' \<or>
     px_system c \<noteq> None \<and> so_runtimeFailureCode c1 = ''npu_completion_schedule_failed''"
    by (rule commit_delivery_effect [OF Cons.prems(2)])
  have keys: "map fst (px_active c1) = map fst (px_active c)" "fst ` set (px_active c1) = fst ` set (px_active c)"
    by (simp_all add: one(3) comp_def image_image)
  have ord: "ordered (px_active c1)" using Cons.prems(2) by (simp only: keys)
  have sys: "px_system c1 = px_system c" using one(2) by (simp add: delivery_frame_def)
  obtain d s' where d: "fold (commit_delivery api) D (c1, s1) = (d, s')" "delivery_frame c1 d"
    "px_active d = map (deliver D) (px_active c1)"
    "so_runtimeFailureCode d = so_runtimeFailureCode c1 \<or>
     \<not> set D \<subseteq> fst ` set (px_active c1) \<and> so_runtimeFailureCode d = ''npu_memory_correlation_missing'' \<or>
     px_system c1 \<noteq> None \<and> so_runtimeFailureCode d = ''npu_completion_schedule_failed''"
    by (rule Cons.IH [OF _ ord])
  show ?case
  proof (rule Cons.prems(1))
    show "fold (commit_delivery api) (q # D) (c, s) = (d, s')" by (simp add: one(1) d(1))
    show "delivery_frame c d" by (rule delivery_frame_trans [OF one(2) d(2)])
    show "px_active d = map (deliver (q # D)) (px_active c)"
      unfolding d(3) one(3) by (rule deliver_append)
    show "so_runtimeFailureCode d = so_runtimeFailureCode c \<or>
       \<not> set (q # D) \<subseteq> fst ` set (px_active c) \<and> so_runtimeFailureCode d = ''npu_memory_correlation_missing'' \<or>
       px_system c \<noteq> None \<and> so_runtimeFailureCode d = ''npu_completion_schedule_failed''"
      using one(4) d(4) unfolding keys sys by auto
  qed
qed

subsection \<open>Completions\<close>

lemma stage_complete:
  fixes c d :: "'d pipeline"
  assumes ok: "stage_ok deq config h K R c" and x: "map_of (px_active c) q = Some x"
    and d: "px_rob d = mark_rob (ie_instruction (stamp_completed e (ax_entry x))) (px_rob c)"
      "px_active d = map_del q (px_active c)"
      "px_scratchpad d = write_tiles v (ie_instruction (stamp_completed e (ax_entry x))) (px_scratchpad c)"
      "px_config d = px_config c" "px_lastAdmittedSequence d = px_lastAdmittedSequence c"
      "px_executedSequences d = px_executedSequences c" "px_result d = px_result c"
  shows "stage_ok deq config h (K @ [stamp_completed e (ax_entry x)]) R d"
proof -
  define k where "k = stamp_completed e (ax_entry x)"
  let ?i = "ie_instruction k"
  have rob: "rob_ok deq h K R c" and ord: "ordered (px_active c)" using ok by (simp_all add: stage_ok_def)
  have qx: "(q, x) \<in> set (px_active c)" using x by (rule map_of_SomeD)
  then have seq: "active_sequence x = q" "entry_sequence k = q" using ok by (auto simp: stage_ok_def k_def)
  have xin: "x \<in> set (map snd (px_active c))" using qx by force
  obtain r0 where r0: "r0 \<in> set (rob_entries c)" "rob_sequence r0 = q" "\<not> rb_completed r0"
    "same_instruction deq (rb_instruction r0) (ie_instruction (ax_entry x))"
    using ok xin seq(1) by (auto simp: stage_ok_def in_rob_def)
  have same: "same_instruction deq (rb_instruction r0) ?i" using r0(4) by (simp add: same_instruction_def k_def)
  note marked = mark_rob_ok [OF rob r0(1) _ r0(3) same d(1) [folded k_def] d(5) refl]
  have rob': "rob_ok deq h (K @ [k]) R d" "rob_entries d = map (mark_completed ?i) (rob_entries c)"
    using marked r0(2) seq(2) by simp_all
  have act: "set (px_active d) = {e \<in> set (px_active c). fst e \<noteq> q}" by (simp add: d(2))
  have "in_rob deq (rob_entries d) y" if y: "y \<in> snd ` set (px_active d)" for y
  proof -
    obtain p where p: "(p, y) \<in> set (px_active c)" "p \<noteq> q" using y by (auto simp: act)
    then have "active_sequence y = p" "in_rob deq (rob_entries c) y" using ok by (force simp: stage_ok_def)+
    then obtain r where r: "r \<in> set (rob_entries c)" "rob_sequence r = p" "\<not> rb_completed r"
      "same_instruction deq (rb_instruction r) (ie_instruction (ax_entry y))" by (auto simp: in_rob_def)
    have "mark_completed ?i r = r" using r(2) p(2) seq(2) by (simp add: mark_completed_def)
    then have "r \<in> set (rob_entries d)" using r(1) unfolding rob'(2) by force
    with r \<open>active_sequence y = p\<close> show ?thesis by (auto simp: in_rob_def)
  qed
  moreover have "mset (map snd (px_active d)) \<subseteq># mset (map snd (px_active c))"
    using mset_map_del [OF increasing_distinct [OF ord] x] by (simp add: d(2) image_mset_subseteq_mono)
  then have "units_ok config (map snd (px_active d))" using ok unfolding stage_ok_def by (metis units_ok_mset)
  moreover have "tiles_ok config (px_scratchpad d) (map snd (px_active d))"
    unfolding d(3) by (rule tiles_ok_complete [OF _ xin _ refl]) (use ok in \<open>auto simp: stage_ok_def act\<close>)
  moreover have "set (px_executedSequences d) = fst ` set (px_active d) \<union> entry_sequence ` set (K @ [k])"
    using ok qx seq(2) by (auto simp: stage_ok_def d(6) act image_iff) force+
  moreover have "fst ` set (px_active d) \<inter> entry_sequence ` set (K @ [k]) = {}"
    using ok seq(2) by (auto simp: stage_ok_def act)
  moreover have "distinct (map entry_sequence (K @ [k]))"
    using ok qx seq(2) by (auto simp: stage_ok_def)
  moreover have "ordered (px_active d)" "\<forall>(q, x) \<in> set (px_active d). active_sequence x = q"
    using ok by (auto simp: stage_ok_def d(2))
  moreover have "history_ok (K @ [k]) R d" using ok by (auto simp: stage_ok_def history_ok_def d(7))
  ultimately show ?thesis using rob'(1) ok unfolding stage_ok_def k_def [symmetric] by (simp add: d(4))
qed

definition completion_frame :: "'d pipeline \<Rightarrow> 'd pipeline \<Rightarrow> bool" where
  "completion_frame c d \<longleftrightarrow> px_config d = px_config c \<and> px_system d = px_system c \<and>
     px_memoryProtocol d = px_memoryProtocol c \<and> px_memoryController d = px_memoryController c \<and>
     px_lastAdmittedSequence d = px_lastAdmittedSequence c \<and>
     px_executedSequences d = px_executedSequences c \<and>
     px_retired d = px_retired c \<and> px_result d = px_result c \<and> so_id d = so_id c \<and>
     px_traceExhausted d = px_traceExhausted c \<and> px_traceExhaustedProposal d = px_traceExhaustedProposal c \<and>
     (so_runtimeFailureCode d = so_runtimeFailureCode c \<or>
      px_system c \<noteq> None \<and> so_runtimeFailureCode d = ''npu_completion_schedule_failed'')"

lemma completion_frame_trans: "completion_frame a b \<Longrightarrow> completion_frame b c \<Longrightarrow> completion_frame a c"
  unfolding completion_frame_def by (elim conjE, intro conjI) metis+

lemma stage_completions:
  fixes c :: "'d pipeline"
  assumes "stage_ok deq config h (K @ px_completed c) R c" and "distinct Q" and "set Q \<subseteq> fst ` set (px_active c)"
  obtains d s' where "fold (commit_completed api e) Q (c, s) = (d, s')" "completion_frame c d"
    "stage_ok deq config h (K @ px_completed d) R d"
    "px_active d = filter (\<lambda>qx. fst qx \<notin> set Q) (px_active c)"
    "px_completed d = px_completed c @ map (\<lambda>q. stamp_completed e (ax_entry (the (map_of (px_active c) q)))) Q"
  using assms
proof (induction Q arbitrary: c s thesis)
  case Nil
  show ?case by (rule Nil.prems(1)) (use Nil.prems(2) in \<open>simp_all add: completion_frame_def\<close>)
next
  case (Cons q Q)
  obtain x where x: "map_of (px_active c) q = Some x"
    using Cons.prems(4) by (metis insert_subset list.simps(15) map_of_eq_None_iff option.exhaust)
  let ?k = "stamp_completed e (ax_entry x)"
  obtain c1 s1 where eff: "commit_completed api e q (c, s) = (c1, s1)"
    "px_rob c1 = mark_rob (ie_instruction ?k) (px_rob c)" "px_active c1 = map_del q (px_active c)"
    "px_completed c1 = px_completed c @ [?k]"
    "px_scratchpad c1 = write_tiles (result_value (px_scratchpad c) q x) (ie_instruction ?k) (px_scratchpad c)"
    "px_config c1 = px_config c" "px_system c1 = px_system c" "px_memoryProtocol c1 = px_memoryProtocol c"
    "px_memoryController c1 = px_memoryController c" "px_lastAdmittedSequence c1 = px_lastAdmittedSequence c"
    "px_executedSequences c1 = px_executedSequences c" "px_retired c1 = px_retired c"
    "px_result c1 = px_result c" "so_id c1 = so_id c" "px_traceExhausted c1 = px_traceExhausted c"
    "px_traceExhaustedProposal c1 = px_traceExhaustedProposal c"
    "so_runtimeFailureCode c1 = so_runtimeFailureCode c \<or>
     px_system c \<noteq> None \<and> so_runtimeFailureCode c1 = ''npu_completion_schedule_failed''"
    by (rule commit_completed_effect [OF x])
  have fr: "completion_frame c c1" using eff by (simp add: completion_frame_def)
  have "stage_ok deq config h ((K @ px_completed c) @ [?k]) R c1"
    by (rule stage_complete [OF Cons.prems(2) x eff(2,3,5,6,10,11,13)])
  then have ok: "stage_ok deq config h (K @ px_completed c1) R c1" by (simp add: eff(4))
  have "fst ` set (px_active c1) = fst ` set (px_active c) - {q}" by (force simp: eff(3))
  then have sub: "set Q \<subseteq> fst ` set (px_active c1)" "distinct Q" "q \<notin> set Q"
    using Cons.prems(3,4) by auto
  have same: "map_of (px_active c1) p = map_of (px_active c) p" if "p \<in> set Q" for p
    using that sub(3) by (auto simp: eff(3) map_of_map_del)
  obtain d s' where d: "fold (commit_completed api e) Q (c1, s1) = (d, s')" "completion_frame c1 d"
    "stage_ok deq config h (K @ px_completed d) R d"
    "px_active d = filter (\<lambda>qx. fst qx \<notin> set Q) (px_active c1)"
    "px_completed d = px_completed c1 @ map (\<lambda>q. stamp_completed e (ax_entry (the (map_of (px_active c1) q)))) Q"
    by (rule Cons.IH [OF _ ok sub(2,1)])
  show ?case
  proof (rule Cons.prems(1))
    show "fold (commit_completed api e) (q # Q) (c, s) = (d, s')" by (simp add: eff(1) d(1))
    show "completion_frame c d" by (rule completion_frame_trans [OF fr d(2)])
    show "stage_ok deq config h (K @ px_completed d) R d" by (rule d(3))
    show "px_active d = filter (\<lambda>qx. fst qx \<notin> set (q # Q)) (px_active c)"
      unfolding d(4) eff(3) map_del_def by (simp add: conj_commute)
    have "map (\<lambda>q. stamp_completed e (ax_entry (the (map_of (px_active c1) q)))) Q =
        map (\<lambda>q. stamp_completed e (ax_entry (the (map_of (px_active c) q)))) Q"
      using same by simp
    then show "px_completed d = px_completed c @ map (\<lambda>q. stamp_completed e (ax_entry (the (map_of (px_active c) q)))) (q # Q)"
      unfolding d(5) eff(4) by (simp add: x)
  qed
qed

subsection \<open>The whole commit\<close>

definition nothing_proposed :: "'d pipeline \<Rightarrow> bool" where
  "nothing_proposed c \<longleftrightarrow> px_admissionProposals c = [] \<and> px_executionProposals c = [] \<and>
     px_deliveryProposals c = [] \<and> px_completionProposals c = []"

lemma stage_permute:
  assumes "stage_ok deq config h K R c" and "mset K' = mset K"
  shows "stage_ok deq config h K' R c"
proof -
  have "set K' = set K" using assms(2) by (metis set_mset_mset)
  moreover have "distinct (map entry_sequence K') = distinct (map entry_sequence K)"
    by (rule mset_eq_imp_distinct_iff) (simp add: assms(2))
  ultimately show ?thesis using assms(1) by (simp add: stage_ok_def rob_ok_def history_ok_def)
qed

lemma stage_frame:
  assumes ok: "stage_ok deq config h K R c" and "work_frame c d"
  shows "stage_ok deq config h K R d"
proof -
  have f: "px_config d = px_config c" "px_rob d = px_rob c" "px_lastAdmittedSequence d = px_lastAdmittedSequence c"
    "px_active d = px_active c" "px_executedSequences d = px_executedSequences c"
    "px_scratchpad d = px_scratchpad c" "px_result d = px_result c"
    using assms(2) by (simp_all add: work_frame_def)
  have ent: "rob_entries d = rob_entries c" by (simp add: rob_entries_def f)
  have "rob_ok deq h K R d" "history_ok K R d"
    using ok by (simp_all add: stage_ok_def rob_ok_def history_ok_def f ent)
  with ok show ?thesis by (simp add: stage_ok_def f ent)
qed

lemma stage_start:
  fixes c c2 c3 :: "'d pipeline"
  assumes inv: "pipe_inv deq config h K R c" and A: "increasing (map ni_sequenceId A)" "A = px_admissionProposals c"
    and c1: "work_frame c c1"
    and c2: "c2 = fold commit_admission A c1" and c3: "c3 = fold commit_execution (px_executionProposals c) c2"
  shows "stage_ok deq config (h @ A) K R c3"
    and "mset (map snd (px_active c3)) = mset (underway c)"
    and "fst ` set (px_active c) \<subseteq> fst ` set (px_active c3)"
    and "mset (px_active c3) = mset (map (\<lambda>x. (active_sequence x, x)) (px_executionProposals c)) + mset (px_active c)"
proof -
  let ?X = "px_executionProposals c"
  have f1: "px_config c1 = px_config c" "px_rob c1 = px_rob c" "px_lastAdmittedSequence c1 = px_lastAdmittedSequence c"
    "px_active c1 = px_active c" "px_executedSequences c1 = px_executedSequences c"
    "px_scratchpad c1 = px_scratchpad c" "px_result c1 = px_result c"
    using c1 by (simp_all add: work_frame_def)
  have adm: "admissible i c1 = admissible i c" for i by (simp add: admissible_def rob_entries_def f1)
  have "rob_ok deq h K R c1" using inv by (simp add: pipe_inv_def rob_ok_def rob_entries_def f1)
  then have rob2: "rob_ok deq (h @ A) K R c2" "mset (rob_entries c2) = mset (map new_rob A) + mset (rob_entries c1)"
    using commit_admissions_ok [of deq h K R c1 A] A inv unfolding c2
    by (simp_all add: pipe_inv_def requests_ok_def adm)
  have f2: "px_config c2 = px_config c" "px_active c2 = px_active c" "px_executedSequences c2 = px_executedSequences c"
    "px_scratchpad c2 = px_scratchpad c" "px_result c2 = px_result c"
    by (simp_all add: c2 commit_admissions_frame f1)
  have f3: "px_config c3 = px_config c2" "px_rob c3 = px_rob c2" "px_lastAdmittedSequence c3 = px_lastAdmittedSequence c2"
    "px_scratchpad c3 = px_scratchpad c2" "px_result c3 = px_result c2"
    by (simp_all add: c3 commit_executions_frame)
  have e: "ordered (px_active c)" "\<forall>(q, x) \<in> set (px_active c). active_sequence x = q"
    "set (px_executedSequences c) = fst ` set (px_active c) \<union> entry_sequence ` set K"
    "fst ` set (px_active c) \<inter> entry_sequence ` set K = {}" "distinct (map entry_sequence K)"
    "\<forall>x \<in> set (underway c). in_rob deq (rob_entries c) x" "distinct (map active_sequence ?X)"
    "\<forall>x \<in> set ?X. active_sequence x \<notin> set (px_executedSequences c)"
    using inv unfolding pipe_inv_def exec_ok_def requests_ok_def by blast+
  have "\<forall>x \<in> set ?X. active_sequence x \<notin> fst ` set (px_active c2)" using e(3,8) by (auto simp: f2)
  then have act: "ordered (px_active c3)"
    "mset (px_active c3) = mset (map (\<lambda>x. (active_sequence x, x)) ?X) + mset (px_active c)"
    "set (px_executedSequences c3) = active_sequence ` set ?X \<union> set (px_executedSequences c)"
    using commit_executions_active [of c2 ?X] e(1,7) by (simp_all add: c3 f2)
  show "mset (px_active c3) = mset (map (\<lambda>x. (active_sequence x, x)) ?X) + mset (px_active c)" by (rule act)
  have set3: "set (px_active c3) = (\<lambda>x. (active_sequence x, x)) ` set ?X \<union> set (px_active c)"
    using arg_cong [OF act(2), of set_mset] by simp
  have "mset (map snd (px_active c3)) = image_mset snd (mset (map (\<lambda>x. (active_sequence x, x)) ?X) + mset (px_active c))"
    using act(2) by simp
  then show ms: "mset (map snd (px_active c3)) = mset (underway c)"
    by (simp add: underway_def multiset.map_comp comp_def)
  then have under: "snd ` set (px_active c3) = set (underway c)" by (metis set_map set_mset_mset)
  show "fst ` set (px_active c) \<subseteq> fst ` set (px_active c3)" unfolding set3 by auto
  have ent3: "set (rob_entries c) \<subseteq> set (rob_entries c3)"
  proof -
    have "set (rob_entries c2) = new_rob ` set A \<union> set (rob_entries c1)"
      using arg_cong [OF rob2(2), of set_mset] by simp
    then show ?thesis by (simp add: rob_entries_def f1 f3)
  qed
  have "rob_ok deq (h @ A) K R c3" using rob2(1) by (simp add: rob_ok_def rob_entries_def f3)
  moreover have "\<forall>x \<in> snd ` set (px_active c3). in_rob deq (rob_entries c3) x"
    using e(6) ent3 unfolding under by (fastforce simp: in_rob_def)
  moreover have "units_ok config (map snd (px_active c3))"
    using inv units_ok_mset [of config "underway c" "map snd (px_active c3)"] ms by (simp add: pipe_inv_def)
  moreover have "tiles_ok config (px_scratchpad c3) (map snd (px_active c3))"
    using inv tiles_ok_subset [of config _ "underway c" "map snd (px_active c3)"] under by (simp add: pipe_inv_def f2 f3)
  moreover have "set (px_executedSequences c3) = fst ` set (px_active c3) \<union> entry_sequence ` set K"
    using e(3) unfolding act(3) set3 by (simp add: image_Un image_image Un_assoc)
  moreover have "fst ` set (px_active c3) \<inter> entry_sequence ` set K = {}"
    using e(3,4,8) unfolding set3 by auto
  moreover have "\<forall>(q, x) \<in> set (px_active c3). active_sequence x = q" using e(2) unfolding set3 by auto
  moreover have "history_ok K R c3" "px_config c3 = config"
    using inv by (simp_all add: pipe_inv_def history_ok_def f2 f3)
  ultimately show "stage_ok deq config (h @ A) K R c3" using act(1) e(5) by (simp add: stage_ok_def)
qed

lemma stage_deliver:
  fixes c d :: "'d pipeline"
  assumes ok: "stage_ok deq config h K R c" and fr: "delivery_frame c d"
    and act: "px_active d = map (deliver D) (px_active c)"
  shows "stage_ok deq config h K R d"
proof -
  have f: "px_config d = px_config c" "px_rob d = px_rob c" "px_lastAdmittedSequence d = px_lastAdmittedSequence c"
    "px_executedSequences d = px_executedSequences c" "px_scratchpad d = px_scratchpad c" "px_result d = px_result c"
    using fr by (simp_all add: delivery_frame_def)
  have keys: "map fst (px_active d) = map fst (px_active c)" by (simp add: act comp_def)
  then have fsts: "fst ` set (px_active d) = fst ` set (px_active c)" by (metis set_map)
  have ent: "rob_entries d = rob_entries c" by (simp add: rob_entries_def f)
  have "map ax_unitIndex (filter (\<lambda>x. active_engine x = e) (map snd (px_active d))) =
      map ax_unitIndex (filter (\<lambda>x. active_engine x = e) (map snd (px_active c)))" for e
    by (simp add: act filter_map comp_def)
  moreover have "\<forall>x \<in> set (map snd (px_active d)). ax_unitIndex x < configuredUnits config (active_engine x)"
    using ok by (auto simp: act stage_ok_def units_ok_def)
  ultimately have "units_ok config (map snd (px_active d))" using ok by (simp add: stage_ok_def units_ok_def)
  moreover have "(\<Union>x \<in> set (map snd (px_active d)). output_identities x) =
      (\<Union>x \<in> set (map snd (px_active c)). output_identities x)"
    by (simp add: act output_identities_def)
  then have "tiles_ok config (px_scratchpad d) (map snd (px_active d))"
    using ok by (auto simp: act stage_ok_def tiles_ok_def f)
  moreover have "\<forall>x \<in> snd ` set (px_active d). in_rob deq (rob_entries d) x"
    using ok by (auto simp: act stage_ok_def in_rob_def ent)
  moreover have "\<forall>(q, x) \<in> set (px_active d). active_sequence x = q"
    using ok by (auto simp: act stage_ok_def case_prod_beta)
  moreover have "rob_ok deq h K R d" "history_ok K R d"
    using ok by (simp_all add: stage_ok_def rob_ok_def history_ok_def ent f)
  moreover have "ordered (px_active d)" using ok by (simp only: stage_ok_def keys)
  moreover have "set (px_executedSequences d) = fst ` set (px_active d) \<union> entry_sequence ` set K"
    "fst ` set (px_active d) \<inter> entry_sequence ` set K = {}" "distinct (map entry_sequence K)" "px_config d = config"
    using ok by (simp_all add: stage_ok_def fsts f)
  ultimately show ?thesis by (simp only: stage_ok_def simp_thms)
qed

lemma stage_retire:
  fixes c :: "'d pipeline"
  assumes ok: "stage_ok deq config h K R c"
  obtains d s' where "fold (retire_block api e) (px_rob c) (c, s) = (d, s')" "retire_frame c d"
    "px_retired d = px_retired c @ retired_now e (px_rob c)" "nothing_retirable d"
    "stage_ok deq config h K (R @ retired_now e (px_rob c)) d"
proof -
  obtain d s' where d: "fold (retire_block api e) (px_rob c) (c, s) = (d, s')" "retire_frame c d"
    "px_rob d = fold (\<lambda>br. map_put (fst br) (dropWhile rb_completed (snd br))) (px_rob c) (px_rob c)"
    "px_retired d = px_retired c @ retired_now e (px_rob c)"
    "px_result d = fold retire_result (retired_now e (px_rob c)) (px_result c)"
    unfolding retired_now_def by (rule retire_blocks_effect)
  have rob: "rob_ok deq h K R c" using ok by (simp add: stage_ok_def)
  then have ord: "ordered ([] @ px_rob c)" by (simp add: rob_ok_def)
  have f: "px_config d = px_config c" "px_lastAdmittedSequence d = px_lastAdmittedSequence c"
    "px_active d = px_active c" "px_executedSequences d = px_executedSequences c" "px_scratchpad d = px_scratchpad c"
    using d(2) by (simp_all add: retire_frame_def)
  have "px_rob d = map (\<lambda>(b, rs). (b, dropWhile rb_completed rs)) (px_rob c)"
    using fold_map_put_self [OF ord, of "dropWhile rb_completed"] by (simp add: d(3))
  note r = retire_ok [OF rob this f(2)]
  have "in_rob deq (rob_entries d) x" if "x \<in> snd ` set (px_active d)" for x
  proof -
    have "in_rob deq (rob_entries c) x" using that ok unfolding stage_ok_def f by blast
    then show ?thesis using r(4) by (auto simp: in_rob_def)
  qed
  moreover have "history_ok K (R @ retired_now e (px_rob c)) d"
  proof -
    have h: "history_ok K R c" using ok by (simp add: stage_ok_def)
    have "\<forall>i \<in> set (R @ retired_now e (px_rob c)). \<exists>k \<in> set K. \<exists>e. i = stamp_retired e (ie_instruction k)"
      using h r(5) [of e] unfolding history_ok_def set_append by blast
    with h show ?thesis by (simp add: history_ok_def d(5))
  qed
  ultimately have "stage_ok deq config h K (R @ retired_now e (px_rob c)) d"
    using ok r(1) by (simp add: stage_ok_def f)
  then show ?thesis using that d(1,2,4) r(2) by blast
qed

lemma stage_finish:
  fixes c d :: "'d pipeline"
  assumes "stage_ok deq config h K R c" and "nothing_retirable c" and "nothing_proposed d"
    and f: "px_config d = px_config c" "px_rob d = px_rob c" "px_lastAdmittedSequence d = px_lastAdmittedSequence c"
    "px_active d = px_active c" "px_executedSequences d = px_executedSequences c"
    "px_scratchpad d = px_scratchpad c" "px_result d = px_result c"
  shows "pipe_inv deq config h K R d"
proof -
  have u: "underway d = map snd (px_active c)" using assms(3) by (simp add: underway_def f nothing_proposed_def)
  have ent: "rob_entries d = rob_entries c" by (simp add: rob_entries_def f)
  have "rob_ok deq h K R d" "exec_ok deq K d" "history_ok K R d" "px_config d = config" "nothing_retirable d"
    using assms(1,2) by (simp_all add: stage_ok_def rob_ok_def exec_ok_def history_ok_def nothing_retirable_def f ent u)
  moreover have "requests_ok d" using assms(3) by (simp add: requests_ok_def nothing_proposed_def)
  moreover have "units_ok config (underway d)" "tiles_ok config (px_scratchpad d) (underway d)"
    using assms(1) by (simp_all add: stage_ok_def u f)
  ultimately show ?thesis by (simp only: pipe_inv_def simp_thms)
qed

text \<open>The commit in its stages; the ghost histories grow by what the pipeline reports.\<close>

lemma xfer_effect:
  fixes c :: "'d pipeline"
  assumes inv: "pipe_inv deq config h K R c" and A: "increasing (map ni_sequenceId (px_admissionProposals c))"
  obtains c' s' act where "pipeline_doXfer api e c s = (c', s')" "nothing_proposed c'"
    "pipe_inv deq config (h @ px_admissionProposals c) (K @ px_completed c') (R @ px_retired c') c'"
    "px_traceExhausted c' = (px_traceExhausted c \<or> px_traceExhaustedProposal c)"
    "\<not> px_traceExhaustedProposal c'" "px_unitStallProposals c' = 0" "px_system c' = px_system c" "so_id c' = so_id c"
    "px_memoryProtocol c' = rr_doXfer e (px_memoryProtocol c)"
    "px_memoryController c' = resource_doXfer e (px_memoryController c)"
    "mset act = mset (map (\<lambda>x. (active_sequence x, x)) (px_executionProposals c)) + mset (px_active c)"
    "ordered act"
    "px_active c' = filter (\<lambda>qx. fst qx \<notin> set (px_completionProposals c)) (map (deliver (px_deliveryProposals c)) act)"
    "so_runtimeFailureCode c' \<in> {so_runtimeFailureCode c, ''observation_proposal_failed''} \<or>
     so_runtimeFailureCode c' = ''npu_memory_correlation_missing'' \<and>
       \<not> set (px_deliveryProposals c) \<subseteq> fst ` set act \<or>
     so_runtimeFailureCode c' = ''npu_completion_schedule_failed'' \<and> px_system c \<noteq> None"
proof -
  define c1 where "c1 = c\<lparr>px_completed := [], px_retired := [], px_memoryProtocol := rr_doXfer e (px_memoryProtocol c),
    px_memoryController := resource_doXfer e (px_memoryController c)\<rparr>"
  have w1: "work_frame c c1" and f1: "px_completed c1 = []" "px_retired c1 = []"
    "px_memoryProtocol c1 = rr_doXfer e (px_memoryProtocol c)" "px_memoryController c1 = resource_doXfer e (px_memoryController c)"
    "px_admissionProposals c1 = px_admissionProposals c" "px_executionProposals c1 = px_executionProposals c"
    "px_deliveryProposals c1 = px_deliveryProposals c" "px_completionProposals c1 = px_completionProposals c"
    "so_runtimeFailureCode c1 = so_runtimeFailureCode c" "px_traceExhaustedProposal c1 = px_traceExhaustedProposal c"
    by (simp_all add: c1_def work_frame_def)
  define c2 where "c2 = fold commit_admission (px_admissionProposals c) c1"
  define c3 where "c3 = fold commit_execution (px_executionProposals c) c2"
  note start = stage_start [OF inv A refl w1 c2_def c3_def]
  have f2: "px_executionProposals c2 = px_executionProposals c" by (simp add: c2_def commit_admissions_frame f1)
  have f3: "px_completed c3 = []" "px_retired c3 = []" "px_memoryProtocol c3 = rr_doXfer e (px_memoryProtocol c)"
    "px_memoryController c3 = resource_doXfer e (px_memoryController c)" "px_deliveryProposals c3 = px_deliveryProposals c"
    "px_completionProposals c3 = px_completionProposals c" "so_runtimeFailureCode c3 = so_runtimeFailureCode c"
    "px_traceExhaustedProposal c3 = px_traceExhaustedProposal c" "px_traceExhausted c3 = px_traceExhausted c"
    "px_system c3 = px_system c" "so_id c3 = so_id c"
    using w1 by (simp_all add: c3_def commit_executions_frame c2_def commit_admissions_frame f1 work_frame_def)
  have ord3: "ordered (px_active c3)" using start(1) by (simp add: stage_ok_def)
  obtain c4 s4 where d4: "fold (commit_delivery api) (px_deliveryProposals c) (c3, s) = (c4, s4)" "delivery_frame c3 c4"
    "px_active c4 = map (deliver (px_deliveryProposals c)) (px_active c3)"
    "so_runtimeFailureCode c4 = so_runtimeFailureCode c3 \<or>
     \<not> set (px_deliveryProposals c) \<subseteq> fst ` set (px_active c3) \<and> so_runtimeFailureCode c4 = ''npu_memory_correlation_missing'' \<or>
     px_system c3 \<noteq> None \<and> so_runtimeFailureCode c4 = ''npu_completion_schedule_failed''"
    by (rule commit_deliveries_effect [OF ord3])
  have ok4: "stage_ok deq config (h @ px_admissionProposals c) K R c4" by (rule stage_deliver [OF start(1) d4(2,3)])
  define Q where "Q = sort (px_completionProposals c)"
  define c5 where "c5 = c4\<lparr>px_completionProposals := Q\<rparr>"
  have f4: "px_completed c4 = []" "px_retired c4 = []" "px_completionProposals c4 = px_completionProposals c"
    "px_memoryProtocol c4 = rr_doXfer e (px_memoryProtocol c)" "px_memoryController c4 = resource_doXfer e (px_memoryController c)"
    "px_traceExhaustedProposal c4 = px_traceExhaustedProposal c" "px_traceExhausted c4 = px_traceExhausted c"
    "px_system c4 = px_system c" "so_id c4 = so_id c"
    using d4(2) f3 by (simp_all add: delivery_frame_def)
  have f5: "px_completed c5 = []" "px_retired c5 = []" "px_active c5 = px_active c4" "px_completionProposals c5 = Q"
    "px_memoryProtocol c5 = rr_doXfer e (px_memoryProtocol c)" "px_memoryController c5 = resource_doXfer e (px_memoryController c)"
    "px_traceExhaustedProposal c5 = px_traceExhaustedProposal c" "px_traceExhausted c5 = px_traceExhausted c"
    "px_system c5 = px_system c" "so_id c5 = so_id c" "so_runtimeFailureCode c5 = so_runtimeFailureCode c4"
    by (simp_all add: c5_def f4)
  have ok5: "stage_ok deq config (h @ px_admissionProposals c) (K @ px_completed c5) R c5"
    using stage_frame [OF ok4, of c5] by (simp add: f5(1)) (simp add: c5_def work_frame_def)
  have Q: "distinct Q" "set Q \<subseteq> fst ` set (px_active c5)" "set Q = set (px_completionProposals c)"
  proof -
    have "distinct (px_completionProposals c)" "set (px_completionProposals c) \<subseteq> fst ` set (px_active c)"
      using inv by (simp_all add: pipe_inv_def requests_ok_def)
    then show "distinct Q" "set Q \<subseteq> fst ` set (px_active c5)" "set Q = set (px_completionProposals c)"
      using start(3) by (auto simp: Q_def f5 d4(3) image_image)
  qed
  obtain c6 s6 where d6: "fold (commit_completed api e) Q (c5, s4) = (c6, s6)" "completion_frame c5 c6"
    "stage_ok deq config (h @ px_admissionProposals c) (K @ px_completed c6) R c6"
    "px_active c6 = filter (\<lambda>qx. fst qx \<notin> set Q) (px_active c5)"
    "px_completed c6 = px_completed c5 @ map (\<lambda>q. stamp_completed e (ax_entry (the (map_of (px_active c5) q)))) Q"
    by (rule stage_completions [OF ok5 Q(1,2)])
  define c7 where "c7 = c6\<lparr>px_completed := sort_key issue_key (px_completed c6)\<rparr>"
  have f7: "px_completed c7 = sort_key issue_key (px_completed c6)" "px_retired c7 = []" "px_active c7 = px_active c6"
    "px_memoryProtocol c7 = rr_doXfer e (px_memoryProtocol c)" "px_memoryController c7 = resource_doXfer e (px_memoryController c)"
    "px_traceExhaustedProposal c7 = px_traceExhaustedProposal c" "px_traceExhausted c7 = px_traceExhausted c"
    "px_system c7 = px_system c" "so_id c7 = so_id c" "so_runtimeFailureCode c7 = so_runtimeFailureCode c6"
    using d6(2) f5 by (simp_all add: c7_def completion_frame_def)
  have "stage_ok deq config (h @ px_admissionProposals c) (K @ px_completed c6) R c7"
    by (rule stage_frame [OF d6(3)]) (simp add: c7_def work_frame_def)
  then have ok7: "stage_ok deq config (h @ px_admissionProposals c) (K @ px_completed c7) R c7"
    by (rule stage_permute) (simp add: f7)
  obtain c8 s8 where d8: "fold (retire_block api e) (px_rob c7) (c7, s6) = (c8, s8)" "retire_frame c7 c8"
    "px_retired c8 = px_retired c7 @ retired_now e (px_rob c7)" "nothing_retirable c8"
    "stage_ok deq config (h @ px_admissionProposals c) (K @ px_completed c7) (R @ retired_now e (px_rob c7)) c8"
    by (rule stage_retire [OF ok7])
  have f8: "px_completed c8 = px_completed c7" "px_active c8 = px_active c6"
    "px_memoryProtocol c8 = rr_doXfer e (px_memoryProtocol c)" "px_memoryController c8 = resource_doXfer e (px_memoryController c)"
    "px_traceExhaustedProposal c8 = px_traceExhaustedProposal c" "px_traceExhausted c8 = px_traceExhausted c"
    "px_system c8 = px_system c" "so_id c8 = so_id c"
    using d8(2) f7 by (simp_all add: retire_frame_def)
  define c9 where "c9 = c8\<lparr>px_retired := sort_key retire_key (px_retired c8),
    px_traceExhausted := px_traceExhausted c8 \<or> px_traceExhaustedProposal c8,
    px_totalUnitStalls := px_totalUnitStalls c8 + px_unitStallProposals c8,
    px_unitHighWatermarks := (\<lambda>e. max (px_unitHighWatermarks c8 e) (activeExecutions e c8)),
    px_admissionProposals := [], px_executionProposals := [], px_deliveryProposals := [],
    px_completionProposals := [], px_traceExhaustedProposal := False, px_unitStallProposals := 0\<rparr>"
  define c' where "c' = (if pipeline_hasPendingCommit c then c9\<lparr>px_lastUpdate := e\<rparr> else c9)"
  have eq: "pipeline_doXfer api e c s = (c', s8)"
    unfolding pipeline_doXfer_def Let_def c1_def [symmetric] f1 c2_def [symmetric] f2 c3_def [symmetric] f3 d4(1)
      case_prod_conv f4 Q_def [symmetric] c5_def [symmetric] f5 d6(1) c7_def [symmetric] d8(1) c9_def [symmetric]
      c'_def [symmetric] ..
  have sorted: "px_retired c' = retired_now e (px_rob c7)"
  proof -
    have "blocks_ok (px_rob c7)" using ok7 rob_ok_blocks by (auto simp: stage_ok_def)
    then have "sort_key retire_key (retired_now e (px_rob c7)) = retired_now e (px_rob c7)"
      by (intro sort_key_id_if_sorted retired_now_sorted)
    moreover have "px_retired c' = sort_key retire_key (px_retired c8)" by (simp add: c'_def c9_def)
    ultimately show ?thesis by (simp add: d8(3) f7(2))
  qed
  have fin: "px_config c' = px_config c8" "px_system c' = px_system c8" "px_rob c' = px_rob c8"
    "px_lastAdmittedSequence c' = px_lastAdmittedSequence c8" "px_active c' = px_active c8"
    "px_executedSequences c' = px_executedSequences c8" "px_scratchpad c' = px_scratchpad c8"
    "px_result c' = px_result c8" "so_id c' = so_id c8" "px_completed c' = px_completed c8"
    "px_memoryProtocol c' = px_memoryProtocol c8" "px_memoryController c' = px_memoryController c8"
    "px_traceExhausted c' = (px_traceExhausted c8 \<or> px_traceExhaustedProposal c8)" "\<not> px_traceExhaustedProposal c'"
    "px_unitStallProposals c' = 0" "so_runtimeFailureCode c' = so_runtimeFailureCode c8"
    "px_admissionProposals c' = []" "px_executionProposals c' = []" "px_deliveryProposals c' = []" "px_completionProposals c' = []"
    unfolding c'_def c9_def by (cases "pipeline_hasPendingCommit c"; simp)+
  have np: "nothing_proposed c'" by (simp add: nothing_proposed_def fin)
  have inv': "pipe_inv deq config (h @ px_admissionProposals c) (K @ px_completed c') (R @ px_retired c') c'"
    unfolding sorted fin f8 by (rule stage_finish [OF d8(5,4) np fin(1,3,4,5,6,7,8)])
  have code: "so_runtimeFailureCode c' \<in> {so_runtimeFailureCode c, ''observation_proposal_failed''} \<or>
     so_runtimeFailureCode c' = ''npu_memory_correlation_missing'' \<and>
       \<not> set (px_deliveryProposals c) \<subseteq> fst ` set (px_active c3) \<or>
     so_runtimeFailureCode c' = ''npu_completion_schedule_failed'' \<and> px_system c \<noteq> None"
  proof -
    have "so_runtimeFailureCode c8 \<in> {so_runtimeFailureCode c7, ''observation_proposal_failed''}"
      using d8(2) by (auto simp: retire_frame_def)
    moreover have "so_runtimeFailureCode c7 = so_runtimeFailureCode c4 \<or>
        px_system c \<noteq> None \<and> so_runtimeFailureCode c7 = ''npu_completion_schedule_failed''"
      using d6(2) by (auto simp: completion_frame_def f7 f5)
    ultimately show ?thesis using d4(4) unfolding f3 fin by auto
  qed
  have act: "px_active c' = filter (\<lambda>qx. fst qx \<notin> set (px_completionProposals c))
      (map (deliver (px_deliveryProposals c)) (px_active c3))"
    by (simp only: fin f8 d6(4) Q(3) f5(3) d4(3))
  show ?thesis
    by (rule that [OF eq np inv' _ fin(14,15) _ _ _ _ start(4) ord3 act code]) (simp_all add: fin f8)
qed

section \<open>Runs\<close>

lemma sorted_admissions:
  assumes "requests_ok c"
  shows "increasing (map ni_sequenceId (sort_key admission_key (px_admissionProposals c)))"
proof -
  let ?A = "sort_key admission_key (px_admissionProposals c)"
  have "distinct (map ni_sequenceId ?A)"
    using assms mset_eq_imp_distinct_iff [of "map ni_sequenceId ?A" "map ni_sequenceId (px_admissionProposals c)"]
    by (simp add: requests_ok_def)
  moreover have "sorted_by admission_key ?A" by simp
  then have "sorted_by ni_sequenceId ?A"
    unfolding sorted_map by (rule sorted_wrt_mono_rel [rotated]) (auto simp: admission_key_def less_eq_prod_def)
  ultimately show ?thesis by (simp add: strict_sorted_iff)
qed

lemma new_pipeline_inv:
  assumes c: "px_config c = config" "px_rob c = []" "px_lastAdmittedSequence c = []" "px_active c = []"
      "px_executedSequences c = []" "px_scratchpad c = []" "px_result c = new_result"
    and "nothing_proposed c"
  shows "pipe_inv deq config [] [] [] c"
proof -
  have "rob_ok deq [] [] [] c"
    by (simp add: rob_ok_def c rob_at_def rob_entries_def block_ok_def last_sequence_def)
  moreover have "underway c = []" using assms(8) by (simp add: underway_def c nothing_proposed_def)
  ultimately show ?thesis using assms(8)
    by (simp add: pipe_inv_def exec_ok_def units_ok_def tiles_ok_def requests_ok_def history_ok_def
        nothing_retirable_def rob_at_def c nothing_proposed_def)
qed

lemma fresh_impl_fields:
  "px_config (fresh_impl config system ob) = config" "px_system (fresh_impl config system ob) = system"
  "px_rob (fresh_impl config system ob) = []" "px_lastAdmittedSequence (fresh_impl config system ob) = []"
  "px_active (fresh_impl config system ob) = []" "px_executedSequences (fresh_impl config system ob) = []"
  "px_scratchpad (fresh_impl config system ob) = []" "px_result (fresh_impl config system ob) = new_result"
  "px_admissionProposals (fresh_impl config system ob) = []" "px_executionProposals (fresh_impl config system ob) = []"
  "px_deliveryProposals (fresh_impl config system ob) = []" "px_completionProposals (fresh_impl config system ob) = []"
  "px_traceExhausted (fresh_impl config system ob) = False" "px_traceExhaustedProposal (fresh_impl config system ob) = False"
  "px_memoryProtocol (fresh_impl config system ob) =
     newRequestResponse ''memory_protocol'' kInvalidObjectId None (xc_memoryRequests config) None"
  "px_memoryController (fresh_impl config system ob) = newResource ''memory_controller'' kInvalidObjectId None
     (of_nat (min (xc_memoryRequests config) 4294967295)) None"
  "so_id (fresh_impl config system ob) = so_id ob"
  "so_runtimeFailureCode (fresh_impl config system ob) = so_runtimeFailureCode ob"
  by (simp_all add: fresh_impl_def sim_object.defs pipeline.defs)

lemma fresh_impl_inv: "pipe_inv deq config [] [] [] (fresh_impl config system ob) \<and> nothing_proposed (fresh_impl config system ob)"
  using new_pipeline_inv [of "fresh_impl config system ob" config deq] by (simp add: fresh_impl_fields nothing_proposed_def)

lemma arbitrated_inv:
  assumes "pipe_inv deq config h K R (fst cs)"
  shows "pipe_inv deq config h K R (fst (pipeline_arbitrated api deq reqs cs)) \<and>
    increasing (map ni_sequenceId (px_admissionProposals (fst (pipeline_arbitrated api deq reqs cs))))"
proof -
  obtain c s where cs: "fold (pipeline_propose api deq) reqs cs = (c, s)" by (rule prod.exhaust)
  have inv: "pipe_inv deq config h K R c" using propose_inv [OF assms, of api reqs] cs by simp
  have "px_admissionProposals (fst (pipeline_doArbitrate api c s)) = sort_key admission_key (px_admissionProposals c)"
    by (rule arbitrate_frame [OF refl])
  moreover have "requests_ok c" using inv by (simp add: pipe_inv_def)
  ultimately show ?thesis
    using arbitrate_inv [OF inv, of api s] sorted_admissions by (simp add: pipeline_arbitrated_def cs)
qed

lemma pipeline_reaches_inv:
  "pipeline_reaches api deq config cs h K R \<Longrightarrow> pipe_inv deq config h K R (fst cs) \<and> nothing_proposed (fst cs)"
proof (induction rule: pipeline_reaches.induct)
  case (start nm i parent system obs s)
  show ?case by (simp add: newExecutionPipeline_def fresh_impl_inv)
next
  case (round cs h K R cs' reqs epoch)
  obtain c s where a: "pipeline_arbitrated api deq reqs cs = (c, s)" by (rule prod.exhaust)
  have inv: "pipe_inv deq config h K R c" "increasing (map ni_sequenceId (px_admissionProposals c))"
    using arbitrated_inv [of deq config h K R cs api reqs] round.IH a by simp_all
  obtain c' s' where "pipeline_doXfer api epoch c s = (c', s')" "nothing_proposed c'"
    "pipe_inv deq config (h @ px_admissionProposals c) (K @ px_completed c') (R @ px_retired c') c'"
    by (rule xfer_effect [OF inv])
  then show ?case using round.hyps(2) by (simp add: pipeline_round_def a)
next
  case (bind c s h K R system)
  have f: "px_config (pipeline_bindSystem system c) = px_config c" "px_rob (pipeline_bindSystem system c) = px_rob c"
    "px_lastAdmittedSequence (pipeline_bindSystem system c) = px_lastAdmittedSequence c"
    "px_active (pipeline_bindSystem system c) = px_active c"
    "px_executedSequences (pipeline_bindSystem system c) = px_executedSequences c"
    "px_scratchpad (pipeline_bindSystem system c) = px_scratchpad c" "px_result (pipeline_bindSystem system c) = px_result c"
    "nothing_proposed (pipeline_bindSystem system c) = nothing_proposed c"
    by (simp_all add: pipeline_bindSystem_def nothing_proposed_def)
  have inv: "pipe_inv deq config h K R c" "nothing_proposed c" using bind.IH by simp_all
  then have u: "underway c = map snd (px_active c)" by (simp add: underway_def nothing_proposed_def)
  have "stage_ok deq config h K R c" using inv by (simp add: pipe_inv_def stage_ok_def exec_ok_def u)
  from stage_finish [OF this, of "pipeline_bindSystem system c"] inv f show ?case by (simp add: pipe_inv_def)
next
  case (env c s h K R s')
  then show ?case by simp
next
  case (restart c s h K R)
  then have "px_config c = config" by (simp add: pipe_inv_def)
  then show ?case by (simp add: pipeline_reset_def fresh_impl_inv)
qed

lemma fold_retire_result:
  "fold retire_result R r = \<lparr>ar_retiredInstructions = ar_retiredInstructions r + of_nat (length R),
     ar_digest = fold updateDigest R (ar_digest r),
     ar_retiredSequenceIds = ar_retiredSequenceIds r @ map ni_sequenceId R\<rparr>"
  by (induction R arbitrary: r) (simp_all add: retire_result_def)

section \<open>Properties\<close>

text \<open>
  C19: Retirement is in program order, complete and never early. Whatever is admitted, executed and
  completed in whatever order, the instructions admitted to a block (their sequences strictly
  increase) are exactly those retired from it followed by those waiting in its reorder buffer, in
  order, and each is the admitted instruction up to timestamps. Only completed instructions retire,
  and none that could retire is kept waiting. The architectural result is the count, the digest and
  the sequences of the retired instructions.
\<close>

theorem retires_in_program_order:
  assumes "pipeline_reaches api deq config cs h K R"
  shows "(\<forall>b. let rob = rob_at b (px_rob (fst cs)) in
      increasing (map ni_sequenceId (of_block b h)) \<and>
      map ni_sequenceId (of_block b h) = map ni_sequenceId (of_block b R) @ map rob_sequence rob \<and>
      list_all2 (same_instruction deq) (of_block b h) (of_block b R @ map rb_instruction rob) \<and>
      (rob \<noteq> [] \<longrightarrow> \<not> rb_completed (hd rob))) \<and>
    (\<forall>i \<in> set R. \<exists>k \<in> set K. \<exists>e. i = stamp_retired e (ie_instruction k)) \<and>
    px_result (fst cs) = \<lparr>ar_retiredInstructions = of_nat (length R),
      ar_digest = fold updateDigest R 14695981039346656037, ar_retiredSequenceIds = map ni_sequenceId R\<rparr>"
proof -
  have inv: "pipe_inv deq config h K R (fst cs)" using pipeline_reaches_inv [OF assms] by blast
  have blk: "block_ok deq (of_block b h) (of_block b R) (rob_at b (px_rob (fst cs)))" for b
    using inv by (simp add: pipe_inv_def rob_ok_def)
  have "list_all2 (same_instruction deq) (of_block b h) (of_block b R @ map rb_instruction (rob_at b (px_rob (fst cs))))" for b
  proof -
    obtain old new where "of_block b h = old @ new" "list_all2 (same_instruction deq) old (of_block b R)"
      and m: "list_all2 (rob_match deq) new (rob_at b (px_rob (fst cs)))"
      using blk [of b] unfolding block_ok_def by blast
    moreover have "list_all2 (same_instruction deq) new (map rb_instruction (rob_at b (px_rob (fst cs))))"
      unfolding list_all2_map2 by (rule list.rel_mono_strong [OF m]) (rule rob_match_same)
    ultimately show ?thesis by (simp add: list_all2_appendI)
  qed
  moreover have "px_result (fst cs) = fold retire_result R new_result"
    using inv by (simp add: pipe_inv_def history_ok_def)
  ultimately show ?thesis
    using inv block_ok_sequences(1,2) [OF blk] unfolding Let_def
    by (simp add: fold_retire_result new_result_def pipe_inv_def history_ok_def nothing_retirable_def)
qed

text \<open>
  C20: Resources are never exceeded and execution is exactly once. In every reachable state the active
  executions of an engine class sit on distinct units within the configured number; the scratchpad
  never exceeds its tiles, even counting what active executions will still write, so a completion
  can always write its results; every active store finds its source tile; a sequence completes at
  most once, and the sequences ever executed are exactly those active and those completed.
\<close>

theorem execution_within_resources:
  assumes "pipeline_reaches api deq config cs h K R"
  shows "let c = fst cs in
    (\<forall>e. activeExecutions e c \<le> configuredUnits config e \<and>
       distinct (map ax_unitIndex (filter (\<lambda>x. active_engine x = e) (map snd (px_active c))))) \<and>
    length (px_scratchpad c) \<le> xc_scratchpadTiles config \<and>
    card (fst ` set (px_scratchpad c) \<union> (\<Union>x \<in> snd ` set (px_active c). output_identities x)) \<le> xc_scratchpadTiles config \<and>
    (\<forall>(q, x) \<in> set (px_active c). active_sequence x = q \<and> ax_unitIndex x < configuredUnits config (active_engine x) \<and>
       (\<forall>r. ax_memoryRequest x = Some r \<and> mq_write r \<longrightarrow> scratchpadContains (mq_tileIdentity r) c)) \<and>
    distinct (map entry_sequence K) \<and> distinct (map fst (px_active c)) \<and>
    fst ` set (px_active c) \<inter> entry_sequence ` set K = {} \<and>
    set (px_executedSequences c) = fst ` set (px_active c) \<union> entry_sequence ` set K"
proof -
  define c where "c = fst cs"
  have inv: "pipe_inv deq config h K R c" "nothing_proposed c" using pipeline_reaches_inv [OF assms] by (simp_all add: c_def)
  have u: "underway c = map snd (px_active c)" using inv(2) by (simp add: underway_def nothing_proposed_def)
  have units: "units_ok config (map snd (px_active c))" and tiles: "tiles_ok config (px_scratchpad c) (map snd (px_active c))"
    and ex: "exec_ok deq K c"
    using inv(1) by (simp_all add: pipe_inv_def u)
  have "activeExecutions e c \<le> configuredUnits config e" for e
  proof -
    let ?us = "map ax_unitIndex (filter (\<lambda>x. active_engine x = e) (map snd (px_active c)))"
    have "set ?us \<subseteq> {0..<configuredUnits config e}" using units by (auto simp: units_ok_def)
    then have "card (set ?us) \<le> configuredUnits config e"
      using card_mono [of "{0..<configuredUnits config e}" "set ?us"] by simp
    moreover have "card (set ?us) = length ?us" using units by (simp add: units_ok_def distinct_card del: set_map)
    ultimately show ?thesis by (simp add: activeExecutions_def filter_map comp_def)
  qed
  moreover have card: "card (fst ` set (px_scratchpad c) \<union> (\<Union>x \<in> snd ` set (px_active c). output_identities x)) \<le> xc_scratchpadTiles config"
    using tiles by (simp add: tiles_ok_def)
  moreover have "length (px_scratchpad c) \<le> xc_scratchpadTiles config"
  proof -
    have "length (px_scratchpad c) = card (fst ` set (px_scratchpad c))"
      using tiles increasing_length [of "map fst (px_scratchpad c)"] by (simp add: tiles_ok_def)
    also have "\<dots> \<le> card (fst ` set (px_scratchpad c) \<union> (\<Union>x \<in> snd ` set (px_active c). output_identities x))"
      using output_identities_finite [of "map snd (px_active c)"] by (intro card_mono) auto
    finally show ?thesis using card by linarith
  qed
  moreover have "active_sequence x = q \<and> ax_unitIndex x < configuredUnits config (active_engine x) \<and>
      (\<forall>r. ax_memoryRequest x = Some r \<and> mq_write r \<longrightarrow> scratchpadContains (mq_tileIdentity r) c)"
    if "(q, x) \<in> set (px_active c)" for q x
  proof -
    have x: "x \<in> set (map snd (px_active c))" using that by force
    have "active_sequence x = q" using ex that by (auto simp: exec_ok_def)
    moreover have "ax_unitIndex x < configuredUnits config (active_engine x)" using units x by (simp only: units_ok_def)
    moreover have "mq_tileIdentity r \<in> fst ` set (px_scratchpad c)" if "ax_memoryRequest x = Some r" "mq_write r" for r
      using tiles x that unfolding tiles_ok_def by fastforce
    ultimately show ?thesis by (simp add: scratchpadContains_def map_of_eq_None_iff)
  qed
  moreover have "\<forall>e. distinct (map ax_unitIndex (filter (\<lambda>x. active_engine x = e) (map snd (px_active c))))"
    using units unfolding units_ok_def by blast
  moreover have "distinct (map entry_sequence K)" "distinct (map fst (px_active c))"
    "fst ` set (px_active c) \<inter> entry_sequence ` set K = {}"
    "set (px_executedSequences c) = fst ` set (px_active c) \<union> entry_sequence ` set K"
    using ex by (simp_all add: exec_ok_def increasing_distinct)
  ultimately show ?thesis unfolding Let_def c_def [symmetric] by blast
qed

subsection \<open>Witnesses\<close>

text \<open>Two instructions of a block are admitted; the first executes, completes and retires.\<close>

definition pipe_op :: "u64 \<Rightarrow> u64 \<Rightarrow> bool npu_instruction" where
  "pipe_op q b = \<lparr>ni_sequenceId = q, ni_blockId = b, ni_opcode = ''TADDS'', ni_dependencies = [],
     ni_operands = [], ni_inputTiles = [], ni_outputTiles = [], ni_inputTileDescriptors = [],
     ni_outputTileDescriptors = [], ni_scalarInputs = [], ni_engine = Scalar, ni_timestamps = no_timestamps\<rparr>"

definition pipe_entry :: "u64 \<Rightarrow> u64 \<Rightarrow> bool issue_entry" where
  "pipe_entry q b = \<lparr>ie_instruction = pipe_op q b, ie_stableObjectId = 20, ie_derivedDependencies = []\<rparr>"

definition pipe_active :: "bool active_execution" where
  "pipe_active = \<lparr>ax_entry = pipe_entry 1 0, ax_issueEpoch = Epoch 1 0, ax_readyEpoch = Epoch 2 0,
     ax_unitIndex = 0, ax_memoryDelivered = False, ax_memoryRequest = None\<rparr>"

definition sample_units :: execution_config where
  "sample_units = \<lparr>xc_scalarUnits = 1, xc_vectorUnits = 1, xc_cubeUnits = 1, xc_tmaUnits = 1,
     xc_memoryRequests = 2, xc_scratchpadTiles = 8\<rparr>"

definition sample_pipe :: "bool pipeline \<times> unit" where
  "sample_pipe = (newExecutionPipeline ''x'' 11 None sample_units None None, ())"

definition sample_admitted :: "bool pipeline \<times> unit" where
  "sample_admitted = pipeline_round permissive_api (=) [AdmitP (pipe_op 2 0), AdmitP (pipe_op 1 0)] epoch0 sample_pipe"

definition sample_executing :: "bool pipeline \<times> unit" where
  "sample_executing = pipeline_round permissive_api (=) [ExecuteP (pipe_entry 1 0) (Epoch 1 0)] (Epoch 1 0) sample_admitted"

definition sample_retired :: "bool pipeline \<times> unit" where
  "sample_retired = pipeline_round permissive_api (=) [WorkP (Epoch 2 0)] (Epoch 2 0) sample_executing"

lemmas sample_pipe_defs = sample_pipe_def newExecutionPipeline_def fresh_impl_def sim_object.defs pipeline.defs pipe_op_def
  newRequestResponse_def newResource_def sample_units_def

lemmas idle_memory_defs = rr_doArbitrate_def resource_doArbitrate_def resource_decide_def stall_observations_def
  rr_doXfer_def rr_hasPendingCommit_def resource_doXfer_def resource_hasPendingCommit_def Let_def

lemma sample_admissions:
  "pipeline_arbitrated permissive_api (=) [AdmitP (pipe_op 2 0), AdmitP (pipe_op 1 0)] sample_pipe =
    ((fst sample_pipe)\<lparr>px_admissionProposals := [pipe_op 1 0, pipe_op 2 0]\<rparr>, ())"
proof -
  have "fold (pipeline_propose permissive_api (=)) [AdmitP (pipe_op 2 0), AdmitP (pipe_op 1 0)] sample_pipe =
    ((fst sample_pipe)\<lparr>px_admissionProposals := [pipe_op 2 0, pipe_op 1 0]\<rparr>, ())"
    by (simp add: sample_pipe_def newExecutionPipeline_def proposeAdmit_def fresh_impl_fields pipe_op_def rob_entries_def)
  then show ?thesis
    by (simp add: pipeline_arbitrated_def pipeline_doArbitrate_def sample_pipe_defs idle_memory_defs
        admission_key_def word_le_nat_alt)
qed

lemma sample_admitted_eq:
  "sample_admitted = ((fst sample_pipe)\<lparr>px_rob := [(0, [new_rob (pipe_op 1 0), new_rob (pipe_op 2 0)])],
     px_lastAdmittedSequence := [(0, 2)]\<rparr>, ())"
  unfolding sample_admitted_def pipeline_round_def sample_admissions pipeline_doXfer_def
  by (simp add: sample_pipe_defs idle_memory_defs commit_admission_def rob_at_def retire_block_def
      pipeline_hasPendingCommit_def activeExecutions_def epoch0_def word_le_nat_alt new_rob_def)

lemma sample_executions:
  "fold (pipeline_propose permissive_api (=)) [ExecuteP (pipe_entry 1 0) (Epoch 1 0)] sample_admitted =
    ((fst sample_admitted)\<lparr>px_executionProposals := [pipe_active]\<rparr>, ())"
  unfolding sample_admitted_eq
  by (simp add: sample_pipe_defs new_rob_def proposeExecute_def admitted_instruction_def pipe_entry_def pipe_active_def
      rob_entries_def untimed_def instruction_equal_def activeExecutions_def proposed_on_def executionLatency_def
      first_free.simps occupied_units_def pending_tiles_def new_tiles_def is_store_def starts_with_def memory_part_def Let_def)

lemma sample_executing_eq:
  "sample_executing = ((fst sample_admitted)\<lparr>px_executedSequences := [1], px_active := [(1, pipe_active)],
     px_totalExecutions := 1, px_unitHighWatermarks := (\<lambda>e. if Scalar = e then 1 else 0), px_lastUpdate := Epoch 1 0\<rparr>, ())"
  "px_admissionProposals (fst (pipeline_arbitrated permissive_api (=) [ExecuteP (pipe_entry 1 0) (Epoch 1 0)] sample_admitted)) = []"
  unfolding sample_executing_def pipeline_round_def pipeline_arbitrated_def sample_executions pipeline_doXfer_def
  by (simp_all add: emitObservation_def pipeline_doArbitrate_def sample_admitted_eq sample_pipe_defs idle_memory_defs
      new_rob_def pipe_entry_def pipe_active_def request_memory_def commit_execution_def map_emplace_def rob_at_def
      retire_block_def pipeline_hasPendingCommit_def activeExecutions_def word_le_nat_alt fun_eq_iff)

lemma sample_retired_fields:
  "px_retired (fst sample_retired) = [stamp_retired (Epoch 2 0) (ie_instruction (stamp_completed (Epoch 2 0) (pipe_entry 1 0)))]"
  "px_completed (fst sample_retired) = [stamp_completed (Epoch 2 0) (pipe_entry 1 0)]"
  "px_admissionProposals (fst (pipeline_arbitrated permissive_api (=) [WorkP (Epoch 2 0)] sample_executing)) = []"
  unfolding sample_retired_def pipeline_round_def pipeline_arbitrated_def
  by (simp_all add: pipeline_doXfer_def pipeline_doArbitrate_def pipeline_doWork_def pop_responses.simps
      rr_proposePopResponse_def service_loop.simps rr_peekRequest_def propose_completion_def sample_executing_eq(1)
      sample_admitted_eq new_rob_def sample_pipe_defs idle_memory_defs pipe_entry_def pipe_active_def commit_completed_def
      stamp_completed_def mark_completed_def is_store_def starts_with_def retire_block_def retire_one_def
      emitObservation_def stamp_retired_def map_del_def)

lemma sample_admitted_reaches:
  "pipeline_reaches permissive_api (=) sample_units sample_admitted [pipe_op 1 0, pipe_op 2 0] [] []"
proof -
  have start: "pipeline_reaches permissive_api (=) sample_units sample_pipe [] [] []"
    unfolding sample_pipe_def by (rule pipeline_reaches.start)
  show ?thesis using pipeline_reaches.round [OF start sample_admitted_def]
    by (simp add: sample_admissions sample_admitted_eq) (simp add: sample_pipe_defs)
qed

lemma sample_executing_reaches:
  "pipeline_reaches permissive_api (=) sample_units sample_executing [pipe_op 1 0, pipe_op 2 0] [] []"
  using pipeline_reaches.round [OF sample_admitted_reaches sample_executing_def]
  by (simp add: sample_executing_eq(2)) (simp add: sample_executing_eq(1) sample_admitted_eq sample_pipe_defs)

lemma sample_retired_reaches:
  "pipeline_reaches permissive_api (=) sample_units sample_retired [pipe_op 1 0, pipe_op 2 0]
     [stamp_completed (Epoch 2 0) (pipe_entry 1 0)]
     [stamp_retired (Epoch 2 0) (ie_instruction (stamp_completed (Epoch 2 0) (pipe_entry 1 0)))]"
  using pipeline_reaches.round [OF sample_executing_reaches sample_retired_def] by (simp add: sample_retired_fields)

theorem retires_in_program_order_witness:
  "ar_retiredSequenceIds (px_result (fst sample_retired)) = [1] \<and>
   map rob_sequence (rob_at 0 (px_rob (fst sample_retired))) = [2]"
  using retires_in_program_order [OF sample_retired_reaches]
  by (auto simp: Let_def of_block_def pipe_op_def pipe_entry_def stamp_completed_def stamp_retired_def dest: spec [of _ 0])

theorem execution_within_resources_witness:
  "activeExecutions Scalar (fst sample_executing) \<le> 1 \<and> distinct (map fst (px_active (fst sample_executing))) \<and>
   length (px_scratchpad (fst sample_executing)) \<le> 8"
  using execution_within_resources [OF sample_executing_reaches] unfolding Let_def
  by (auto simp: sample_units_def dest: spec [of _ Scalar])

end
