(* ===== verification/Npu_Driver.thy ===== *)
theory Npu_Driver
  imports Npu_Dependencies Npu_Execution "HOL-Library.Code_Target_Nat"
begin

text \<open>
  The trace source of the NPU reference model (\<open>Phase5NpuTraceSource\<close> and \<open>Phase5NpuNode\<close> of
  \<open>npu.h\<close> and \<open>lib/gfsim/npu.cpp\<close>). Its Work call runs a whole trace through a decoder, a dependency
  tracker and an execution pipeline of its own, observed by a recorder of its own, and offers the
  architectural result for commit. The local objects are the record \<open>npu_machine\<close>; a return with a
  failure code drops them, so the loops yield the code or the next machine.
\<close>

section \<open>The local machine\<close>

record 'd npu_machine =
  nm_tracker :: "'d dependency_tracker"
  nm_execution :: "'d pipeline"
  nm_recorder :: observation_recorder

text \<open>The local sink forwards to the recorder; the local objects have no system.\<close>

definition local_sink :: "observation_recorder sim_api" where
  "local_sink = \<lparr>api_registerCommitParticipant = (\<lambda>i s. (False, s)), api_scheduleEvent = (\<lambda>e s. (False, s)),
     api_proposeObservation = recorder_propose, api_currentEpoch = (\<lambda>s. epoch0)\<rparr>"

definition local_config :: "'d pto_record list \<Rightarrow> execution_config" where
  "local_config records = \<lparr>xc_scalarUnits = 1, xc_vectorUnits = 2, xc_cubeUnits = 1, xc_tmaUnits = 1,
     xc_memoryRequests = 2, xc_scratchpadTiles = max (length records * 2) 8\<rparr>"

definition local_machine :: "'d pto_record list \<Rightarrow> 'd npu_machine" where
  "local_machine records =
     (let queueCapacity = max (length records) 1 in
      \<lparr>nm_tracker = newDependencyTracker ''dependencies'' 10 None
         \<lparr>ic_scalar = queueCapacity, ic_vector = queueCapacity, ic_cube = queueCapacity, ic_tma = queueCapacity\<rparr> (Some 0),
       nm_execution = newExecutionPipeline ''execution'' 11 None (local_config records) None (Some 0),
       nm_recorder = empty_recorder\<rparr>)"

definition commitTracker :: "epoch \<Rightarrow> 'd npu_machine \<Rightarrow> bool \<times> 'd npu_machine" where
  "commitTracker epoch m =
     (case tracker_doArbitrate local_sink (nm_tracker m) (nm_recorder m) of (t1, r1) \<Rightarrow>
      case commitOwner (so_id (nm_tracker m)) epoch r1 of (ok, r2) \<Rightarrow>
        (ok, m\<lparr>nm_tracker := tracker_doXfer epoch t1, nm_recorder := r2\<rparr>))"

definition commitExecution :: "epoch \<Rightarrow> 'd npu_machine \<Rightarrow> bool \<times> 'd npu_machine" where
  "commitExecution epoch m =
     (case pipeline_doArbitrate local_sink (nm_execution m) (nm_recorder m) of (c1, r1) \<Rightarrow>
      case pipeline_doXfer local_sink epoch c1 r1 of (c2, r2) \<Rightarrow>
      case commitOwner (so_id (nm_execution m)) epoch r2 of (ok, r3) \<Rightarrow>
        (ok, m\<lparr>nm_execution := c2, nm_recorder := r3\<rparr>))"

section \<open>Dispatch\<close>

fun engine_object :: "npu_engine \<Rightarrow> object_id" where
  "engine_object Scalar = 20"
| "engine_object Vector = 21"
| "engine_object Cube = 22"
| "engine_object Tma = 23"

definition dispatch_record ::
  "('d \<Rightarrow> 'd \<Rightarrow> bool) \<Rightarrow> u64 \<Rightarrow> 'd pto_record \<Rightarrow> 'd npu_machine \<Rightarrow> string + 'd npu_machine" where
  "dispatch_record deq tick record m =
     (if \<not> decode_succeeded (decode deq record) then Inl ''npu_decode_failed''
      else let i = the (dr_instruction (decode deq record));
               (dispatched, t1) = proposeDispatch i (engine_object (ni_engine i)) (nm_tracker m);
               (admitted, c1) = proposeAdmit i (nm_execution m);
               (committed, m1) = commitTracker (Epoch tick 0) (m\<lparr>nm_tracker := t1, nm_execution := c1\<rparr>);
               (executed, m2) = commitExecution (Epoch tick 0) m1
      in if \<not> dispatched \<or> \<not> admitted \<or> \<not> committed \<or> \<not> dispatchAccepted (pr_sequenceId record) (nm_tracker m1) \<or>
            \<not> executed
         then Inl ''npu_dispatch_failed''
         else if so_runtimeFailureCode (nm_tracker m2) \<noteq> [] \<or> so_runtimeFailureCode (nm_execution m2) \<noteq> []
         then Inl ''npu_dispatch_runtime_failed''
         else Inr m2)"

fun dispatch_loop ::
  "('d \<Rightarrow> 'd \<Rightarrow> bool) \<Rightarrow> u64 \<Rightarrow> 'd pto_record list \<Rightarrow> 'd npu_machine \<Rightarrow> string + u64 \<times> 'd npu_machine" where
  "dispatch_loop deq tick [] m = Inr (tick, m)"
| "dispatch_loop deq tick (record # records) m =
     (case dispatch_record deq tick record m of
        Inl code \<Rightarrow> Inl code
      | Inr m1 \<Rightarrow> dispatch_loop deq (tick + 1) records m1)"

section \<open>Execution\<close>

fun execute_issues ::
  "('d \<Rightarrow> 'd \<Rightarrow> bool) \<Rightarrow> epoch \<Rightarrow> 'd issue_entry list \<Rightarrow> 'd npu_machine \<Rightarrow> 'd npu_machine option" where
  "execute_issues deq epoch [] m = Some m"
| "execute_issues deq epoch (issue # issues) m =
     (case proposeExecute local_sink deq issue epoch (nm_execution m) (nm_recorder m) of
        ((True, c1), r1) \<Rightarrow> execute_issues deq epoch issues (m\<lparr>nm_execution := c1, nm_recorder := r1\<rparr>)
      | ((False, c1), r1) \<Rightarrow> None)"

fun broadcast :: "'d issue_entry list \<Rightarrow> 'd dependency_tracker \<Rightarrow> 'd dependency_tracker option" where
  "broadcast [] t = Some t"
| "broadcast (x # xs) t =
     (case proposeComplete (entry_sequence x) t of
        (True, t1) \<Rightarrow> broadcast xs t1
      | (False, t1) \<Rightarrow> None)"

definition offer_slots :: "'d pipeline \<Rightarrow> 'd dependency_tracker \<Rightarrow> 'd dependency_tracker" where
  "offer_slots c t = fold (\<lambda>e t. if canAccept e c then snd (proposeIssue e t) else t) engines t"

text \<open>One iteration: the issues of the previous one execute, completions are broadcast, slots are offered.\<close>

definition machine_finished :: "'d npu_machine \<Rightarrow> bool" where
  "machine_finished m \<longleftrightarrow> pipeline_complete (nm_execution m) \<and> dt_issued (nm_tracker m) = [] \<and>
     ros_quiescent (tracker_runtimeState (nm_tracker m))"

definition machine_tick ::
  "('d \<Rightarrow> 'd \<Rightarrow> bool) \<Rightarrow> epoch \<Rightarrow> 'd issue_entry list \<Rightarrow> 'd npu_machine \<Rightarrow> string + 'd npu_machine" where
  "machine_tick deq epoch pendingIssues m =
     (case execute_issues deq epoch pendingIssues m of
        None \<Rightarrow> Inl ''npu_execution_admission_failed''
      | Some m1 \<Rightarrow>
     let (executed, m2) = commitExecution epoch (m1\<lparr>nm_execution := pipeline_doWork epoch (nm_execution m1)\<rparr>) in
     if \<not> executed then Inl ''npu_execution_observation_failed''
     else if so_runtimeFailureCode (nm_execution m2) \<noteq> [] then Inl ''npu_execution_runtime_failed''
     else case broadcast (px_completed (nm_execution m2)) (nm_tracker m2) of
        None \<Rightarrow> Inl ''npu_completion_broadcast_failed''
      | Some t1 \<Rightarrow>
     let (committed, m3) = commitTracker epoch (m2\<lparr>nm_tracker := offer_slots (nm_execution m2) t1\<rparr>) in
     if \<not> committed then Inl ''npu_dependency_observation_failed''
     else if so_runtimeFailureCode (nm_tracker m3) \<noteq> [] then Inl ''npu_dependency_runtime_failed''
     else Inr m3)"

fun machine_loop ::
  "('d \<Rightarrow> 'd \<Rightarrow> bool) \<Rightarrow> nat \<Rightarrow> u64 \<Rightarrow> 'd issue_entry list \<Rightarrow> 'd npu_machine \<Rightarrow> string + 'd npu_machine" where
  "machine_loop deq 0 tick pendingIssues m = Inl ''npu_execution_limit_reached''"
| "machine_loop deq (Suc n) tick pendingIssues m =
     (case machine_tick deq (Epoch tick 0) pendingIssues m of
        Inl code \<Rightarrow> Inl code
      | Inr m1 \<Rightarrow> if machine_finished m1 then Inr m1
                  else machine_loop deq n (tick + 1) (dt_issued (nm_tracker m1)) m1)"

definition maximumTicks :: "'d pto_record list \<Rightarrow> u64" where
  "maximumTicks records = max 128 (of_nat (length records) * 32)"

definition run_machine :: "('d \<Rightarrow> 'd \<Rightarrow> bool) \<Rightarrow> 'd pto_record list \<Rightarrow> string + 'd npu_machine" where
  "run_machine deq records =
     (case dispatch_loop deq 0 records (local_machine records) of
        Inl code \<Rightarrow> Inl code
      | Inr (tick, m) \<Rightarrow>
          (case proposeTraceExhausted (nm_execution m) of
             (False, c1) \<Rightarrow> Inl ''npu_trace_exhaustion_failed''
           | (True, c1) \<Rightarrow> machine_loop deq (unat (maximumTicks records)) tick [] (m\<lparr>nm_execution := c1\<rparr>)))"

section \<open>The trace source\<close>

record 'd npu_source = sim_object +
  np_document :: "'d pto_document"
  np_result :: architectural_result
  np_eventCount :: u64
  np_loaded :: bool
  np_pending :: bool
  np_committed :: bool
  np_lastUpdate :: epoch

definition newNpuSource :: "string \<Rightarrow> object_id \<Rightarrow> ptr option \<Rightarrow> ptr option \<Rightarrow> 'd npu_source" where
  "newNpuSource nm i parent obs =
     \<lparr>so_kind = KTraceSource, so_name = nm, so_id = i, so_path = [], so_parent = parent,
      so_observationSink = obs, so_runtimeFailureCode = [], np_document = empty_document, np_result = new_result,
      np_eventCount = 0, np_loaded = False, np_pending = False, np_committed = False, np_lastUpdate = epoch0\<rparr>"

definition source_loadDocument :: "'d pto_document \<Rightarrow> 'd npu_source \<Rightarrow> bool \<times> 'd npu_source" where
  "source_loadDocument document c =
     (if np_loaded c \<or> np_pending c \<or> np_committed c then (False, c)
      else (True, c\<lparr>np_document := document, np_loaded := True\<rparr>))"

text \<open>The committed events of the local recorder, offered again with their epoch as arguments.\<close>

definition republished :: "committed_event \<Rightarrow> event_proposal" where
  "republished ev = (observation (ce_category ev) (ce_name ev) (ce_phase ev))
     \<lparr>op_rootSequenceId := ce_rootSequenceId ev, op_duration := ce_duration ev, op_flowId := ce_flowId ev,
      op_arguments := sort_key fst (ce_arguments ev @
        [(''npu_epoch_delta'', OUInt (ucast (ep_delta (ce_epoch ev)))), (''npu_epoch_time'', OUInt (ep_time (ce_epoch ev)))])\<rparr>"

text \<open>Emission that stops at the first refusal.\<close>

fun emit_until ::
  "'s sim_api \<Rightarrow> event_proposal list \<Rightarrow> 'z sim_object_scheme \<Rightarrow> 's \<Rightarrow> (bool \<times> 'z sim_object_scheme) \<times> 's" where
  "emit_until api [] ob s = ((True, ob), s)"
| "emit_until api (p # ps) ob s =
     (case so_observationSink ob of
        None \<Rightarrow> emit_until api ps ob s
      | Some _ \<Rightarrow>
         (case api_proposeObservation api (p\<lparr>op_ownerId := so_id ob\<rparr>) s of
            (True, s') \<Rightarrow> emit_until api ps ob s'
          | (False, s') \<Rightarrow> ((False, setRuntimeFailureCode ''observation_proposal_failed'' ob), s')))"

definition source_doWork ::
  "'s sim_api \<Rightarrow> ('d \<Rightarrow> 'd \<Rightarrow> bool) \<Rightarrow> 'd npu_source \<Rightarrow> 's \<Rightarrow> 'd npu_source \<times> 's" where
  "source_doWork api deq c s =
     (if np_pending c \<or> np_committed c then (c, s)
      else if \<not> np_loaded c then (setRuntimeFailureCode ''npu_trace_not_loaded'' c, s)
      else case run_machine deq (pd_records (np_document c)) of
        Inl code \<Rightarrow> (setRuntimeFailureCode code c, s)
      | Inr m \<Rightarrow>
          let events = or_committed (nm_recorder m);
              c1 = c\<lparr>np_result := px_result (nm_execution m), np_eventCount := of_nat (length events)\<rparr>
          in case emit_until api (map republished events) c1 s of
               ((True, c2), s2) \<Rightarrow> (c2\<lparr>np_pending := True\<rparr>, s2)
             | ((False, c2), s2) \<Rightarrow> (c2, s2))"

definition source_doXfer :: "epoch \<Rightarrow> 'd npu_source \<Rightarrow> 'd npu_source" where
  "source_doXfer epoch c =
     (if \<not> np_pending c then c
      else c\<lparr>np_pending := False, np_committed := True, np_lastUpdate := epoch\<rparr>)"

definition source_hasPendingCommit :: "'d npu_source \<Rightarrow> bool" where
  "source_hasPendingCommit c \<longleftrightarrow> np_pending c"

definition source_runtimeState :: "'d npu_source \<Rightarrow> runtime_object_state" where
  "source_runtimeState c =
     (let records = pd_records (np_document c) in empty_runtime_object_state
     \<lparr>ros_quiescent := np_committed c \<and> \<not> np_pending c,
      ros_runnable := np_loaded c \<and> \<not> np_committed c \<and> \<not> np_pending c,
      ros_pendingCommit := np_pending c,
      ros_reason := (if np_committed c then [] else ''npu_trace_pending''),
      ros_traceOwner := True,
      ros_tracePosition := (if np_committed c then of_nat (length records) else 0),
      ros_traceLastCommittedSequenceId :=
        (if np_committed c \<and> records \<noteq> [] then Some (pr_sequenceId (last records)) else None),
      ros_traceEof := np_committed c\<rparr>)"

definition source_collectStatistics :: "'d npu_source \<Rightarrow> stat_snapshot list" where
  "source_collectStatistics c =
     (if \<not> np_committed c then []
      else let append = (\<lambda>nm v. plain_snapshot nm (so_path c) Counter v (np_lastUpdate c)) in
        [append ''trace_records'' (of_nat (length (pd_records (np_document c)))),
         append ''npu_events'' (np_eventCount c),
         append ''architectural_retired_instructions'' (ar_retiredInstructions (np_result c)),
         append ''architectural_digest'' (ar_digest (np_result c))])"

definition source_reset :: "'d npu_source \<Rightarrow> 'd npu_source" where
  "source_reset c = clearRuntimeFailureCode
     (c\<lparr>np_document := empty_document, np_result := new_result, np_eventCount := 0, np_loaded := False,
        np_pending := False, np_committed := False, np_lastUpdate := epoch0\<rparr>)"

text \<open>The structural marker \<open>Phase5NpuNode\<close>: always quiescent.\<close>

definition newNpuNode :: "string \<Rightarrow> object_id \<Rightarrow> ptr option \<Rightarrow> sim_object" where
  "newNpuNode nm i parent =
     \<lparr>so_kind = KCompute, so_name = nm, so_id = i, so_path = [], so_parent = parent,
      so_observationSink = None, so_runtimeFailureCode = []\<rparr>"

definition node_runtimeState :: "sim_object \<Rightarrow> runtime_object_state" where
  "node_runtimeState c = empty_runtime_object_state\<lparr>ros_quiescent := True\<rparr>"

section \<open>The machine as rounds of the pipeline\<close>

lemma propose_keeps_admissions:
  assumes "pipe_inv deq config h K R (fst cs)" and "\<forall>i. AdmitP i \<notin> set reqs"
  shows "px_admissionProposals (fst (fold (pipeline_propose api deq) reqs cs)) = px_admissionProposals (fst cs)"
  using assms
proof (induction reqs arbitrary: cs)
  case (Cons req reqs)
  have inv: "pipe_inv deq config h K R (fst (pipeline_propose api deq req cs))"
    using propose_inv [OF Cons.prems(1), of api "[req]"] by simp
  have "px_admissionProposals (fst (pipeline_propose api deq req cs)) = px_admissionProposals (fst cs)"
  proof (cases req)
    case (ExecuteP x e)
    have "px_admissionProposals (snd (fst (proposeExecute api deq x e (fst cs) (snd cs)))) = px_admissionProposals (fst cs)"
      by (cases rule: proposeExecute_cases [of api deq x e "fst cs" "snd cs"]) (simp_all add: stall_def)
    then show ?thesis by (simp add: ExecuteP)
  next
    case (WorkP e)
    then show ?thesis using work_effect(1) [OF Cons.prems(1), of e] by (simp add: proposal_frame_def)
  qed (use Cons.prems(2) in \<open>auto simp: proposeTraceExhausted_def\<close>)
  then show ?case using Cons.IH [OF inv] Cons.prems(2) by auto
qed simp

abbreviation machine_reaches ::
  "('d \<Rightarrow> 'd \<Rightarrow> bool) \<Rightarrow> execution_config \<Rightarrow> 'd pipeline \<Rightarrow> 'd npu_instruction list \<Rightarrow> bool" where
  "machine_reaches deq config c h \<equiv> \<exists>s K R. pipeline_reaches local_sink deq config (c, s) h K R"

lemma reaches_any_state:
  assumes "machine_reaches deq config c h"
  shows "\<exists>K R. pipeline_reaches local_sink deq config (c, s) h K R"
proof -
  obtain s0 K R where "pipeline_reaches local_sink deq config (c, s0) h K R" using assms by blast
  from pipeline_reaches.env [OF this] show ?thesis by blast
qed

text \<open>A commit of the execution pipeline closes a round.\<close>

lemma commitExecution_round:
  assumes "machine_reaches deq config c0 h"
    and reqs: "fold (pipeline_propose local_sink deq) reqs (c0, r0) = (nm_execution m, nm_recorder m)"
    and m': "commitExecution epoch m = (ok, m')"
  shows "machine_reaches deq config (nm_execution m') (h @ sort_key admission_key (px_admissionProposals (nm_execution m)))"
    and "nm_tracker m' = nm_tracker m"
proof -
  obtain K R where reach: "pipeline_reaches local_sink deq config (c0, r0) h K R"
    using reaches_any_state [OF assms(1)] by blast
  obtain c1 r1 where a: "pipeline_doArbitrate local_sink (nm_execution m) (nm_recorder m) = (c1, r1)" by (rule prod.exhaust)
  obtain c2 r2 where x: "pipeline_doXfer local_sink epoch c1 r1 = (c2, r2)" by (rule prod.exhaust)
  obtain ok' r3 where o: "commitOwner (so_id (nm_execution m)) epoch r2 = (ok', r3)" by (rule prod.exhaust)
  have m2: "m' = m\<lparr>nm_execution := c2, nm_recorder := r3\<rparr>" using m' by (simp add: commitExecution_def a x o)
  have arb: "pipeline_arbitrated local_sink deq reqs (c0, r0) = (c1, r1)"
    unfolding pipeline_arbitrated_def reqs case_prod_conv a ..
  have "pipeline_round local_sink deq reqs epoch (c0, r0) = (c2, r2)"
    unfolding pipeline_round_def arb case_prod_conv x ..
  from pipeline_reaches.round [OF reach this [symmetric]]
  have "machine_reaches deq config c2 (h @ px_admissionProposals c1)" unfolding arb fst_conv by blast
  moreover have "px_admissionProposals c1 = sort_key admission_key (px_admissionProposals (nm_execution m))"
    using arbitrate_frame(4) [OF refl, of local_sink "nm_execution m" "nm_recorder m"] a by simp
  ultimately show "machine_reaches deq config (nm_execution m') (h @ sort_key admission_key (px_admissionProposals (nm_execution m)))"
    by (simp add: m2)
  show "nm_tracker m' = nm_tracker m" by (simp add: m2)
qed

lemma commitTracker_execution: "commitTracker epoch m = (ok, m') \<Longrightarrow> nm_execution m' = nm_execution m"
  by (auto simp: commitTracker_def split: prod.splits)

lemma machine_reaches_idle:
  assumes "machine_reaches deq config c h"
  shows "nothing_proposed c" and "\<exists>K R. pipe_inv deq config h K R c"
  using assms pipeline_reaches_inv by fastforce+

lemma dispatch_record_reaches:
  assumes "machine_reaches deq config (nm_execution m) h" and ok: "dispatch_record deq tick record m = Inr m'"
  shows "\<exists>i. dr_instruction (decode deq record) = Some i \<and> machine_reaches deq config (nm_execution m') (h @ [i])"
proof -
  obtain i where i: "dr_instruction (decode deq record) = Some i"
    using ok by (auto simp: dispatch_record_def decode_succeeded_def Let_def split: if_splits prod.splits)
  obtain d t1 where d: "proposeDispatch i (engine_object (ni_engine i)) (nm_tracker m) = (d, t1)" by (rule prod.exhaust)
  obtain a c1 where a: "proposeAdmit i (nm_execution m) = (a, c1)" by (rule prod.exhaust)
  obtain k m1 where k: "commitTracker (Epoch tick 0) (m\<lparr>nm_tracker := t1, nm_execution := c1\<rparr>) = (k, m1)" by (rule prod.exhaust)
  obtain x m2 where x: "commitExecution (Epoch tick 0) m1 = (x, m2)" by (rule prod.exhaust)
  have "m' = m2" and acc: "a"
    using ok by (auto simp: dispatch_record_def i d a k x Let_def split: if_splits)
  have e1: "nm_execution m1 = c1" using commitTracker_execution [OF k] by simp
  have admissions: "px_admissionProposals c1 = [i]"
  proof (cases rule: proposeAdmit_cases [of i "nm_execution m"])
    case refused
    then show ?thesis using a acc by simp
  next
    case accepted
    then show ?thesis using a machine_reaches_idle(1) [OF assms(1)] by (auto simp: nothing_proposed_def)
  qed
  have "fold (pipeline_propose local_sink deq) [AdmitP i] (nm_execution m, nm_recorder m1) = (nm_execution m1, nm_recorder m1)"
    by (simp add: a e1)
  from commitExecution_round(1) [OF assms(1) this x] have "machine_reaches deq config (nm_execution m2) (h @ [i])"
    by (simp add: e1 admissions)
  with i \<open>m' = m2\<close> show ?thesis by blast
qed

lemma dispatch_loop_reaches:
  assumes "machine_reaches deq config (nm_execution m) h" and "dispatch_loop deq tick records m = Inr (tick', m')"
  shows "\<exists>is. map (\<lambda>r. dr_instruction (decode deq r)) records = map Some is \<and>
    machine_reaches deq config (nm_execution m') (h @ is)"
  using assms
proof (induction records arbitrary: tick m h)
  case Nil
  then show ?case by auto
next
  case (Cons r records)
  obtain m1 where m1: "dispatch_record deq tick r m = Inr m1"
    and rest: "dispatch_loop deq (tick + 1) records m1 = Inr (tick', m')"
    using Cons.prems(2) by (auto split: sum.splits)
  obtain i where i: "dr_instruction (decode deq r) = Some i" "machine_reaches deq config (nm_execution m1) (h @ [i])"
    using dispatch_record_reaches [OF Cons.prems(1) m1] by blast
  obtain js where js: "map (\<lambda>r. dr_instruction (decode deq r)) records = map Some js"
    "machine_reaches deq config (nm_execution m') ((h @ [i]) @ js)"
    using Cons.IH [OF i(2) rest] by blast
  have "map (\<lambda>r. dr_instruction (decode deq r)) (r # records) = map Some (i # js)" using i(1) js(1) by simp
  moreover have "machine_reaches deq config (nm_execution m') (h @ (i # js))" using js(2) by simp
  ultimately show ?case by blast
qed

lemma execute_issues_fold:
  "execute_issues deq epoch issues m = Some m' \<Longrightarrow>
   fold (pipeline_propose local_sink deq) (map (\<lambda>x. ExecuteP x epoch) issues) (nm_execution m, nm_recorder m) =
     (nm_execution m', nm_recorder m') \<and> nm_tracker m' = nm_tracker m"
proof (induction issues arbitrary: m)
  case (Cons x issues)
  obtain o1 c1 r1 where p: "proposeExecute local_sink deq x epoch (nm_execution m) (nm_recorder m) = ((o1, c1), r1)"
    by (metis prod.exhaust)
  then have "o1" and rest: "execute_issues deq epoch issues (m\<lparr>nm_execution := c1, nm_recorder := r1\<rparr>) = Some m'"
    using Cons.prems by (cases o1; simp)+
  from Cons.IH [OF rest] show ?case by (simp add: p)
qed simp

text \<open>The pipeline between ticks: a reached state, or one with the end of the trace proposed on top.\<close>

definition machine_ok ::
  "('d \<Rightarrow> 'd \<Rightarrow> bool) \<Rightarrow> execution_config \<Rightarrow> 'd npu_instruction list \<Rightarrow> 'd npu_machine \<Rightarrow> bool" where
  "machine_ok deq config h m \<longleftrightarrow> (\<exists>c0. machine_reaches deq config c0 h \<and>
     (nm_execution m = c0 \<or> nm_execution m = snd (proposeTraceExhausted c0)))"

lemma machine_tick_reaches:
  assumes "machine_ok deq config h m" and ok: "machine_tick deq epoch issues m = Inr m'"
  shows "machine_reaches deq config (nm_execution m') h"
proof -
  obtain c0 where c0: "machine_reaches deq config c0 h"
    "nm_execution m = c0 \<or> nm_execution m = snd (proposeTraceExhausted c0)"
    using assms(1) by (auto simp: machine_ok_def)
  define pre where "pre = (if nm_execution m = c0 then [] else [ExhaustP :: 'a pipeline_request])"
  have pre: "fold (pipeline_propose local_sink deq) pre (c0, nm_recorder m) = (nm_execution m, nm_recorder m)"
    using c0(2) by (auto simp: pre_def)
  obtain m1 where m1: "execute_issues deq epoch issues m = Some m1"
    using ok by (auto simp: machine_tick_def split: option.splits)
  define w where "w = m1\<lparr>nm_execution := pipeline_doWork epoch (nm_execution m1)\<rparr>"
  obtain x m2 where x: "commitExecution epoch w = (x, m2)" by (rule prod.exhaust)
  obtain t1 where t1: "broadcast (px_completed (nm_execution m2)) (nm_tracker m2) = Some t1"
    using ok by (auto simp: machine_tick_def m1 w_def [symmetric] x split: if_splits option.splits)
  obtain k m3 where k: "commitTracker epoch (m2\<lparr>nm_tracker := offer_slots (nm_execution m2) t1\<rparr>) = (k, m3)"
    by (rule prod.exhaust)
  have "m' = m3" using ok by (auto simp: machine_tick_def m1 w_def [symmetric] x t1 k split: if_splits)
  then have e: "nm_execution m' = nm_execution m2" using commitTracker_execution [OF k] by simp
  let ?reqs = "pre @ map (\<lambda>x. ExecuteP x epoch) issues @ [WorkP epoch]"
  have run: "fold (pipeline_propose local_sink deq) ?reqs (c0, nm_recorder m) = (nm_execution w, nm_recorder w)"
    using pre execute_issues_fold [OF m1] by (simp add: w_def)
  obtain K R where inv: "pipe_inv deq config h K R (fst (c0, nm_recorder m))"
    using machine_reaches_idle(2) [OF c0(1)] by auto
  have "\<forall>i. AdmitP i \<notin> set ?reqs" by (auto simp: pre_def)
  from propose_keeps_admissions [OF inv this, of local_sink]
  have "px_admissionProposals (nm_execution w) = px_admissionProposals c0" unfolding run fst_conv .
  also have "\<dots> = []" using machine_reaches_idle(1) [OF c0(1)] by (simp add: nothing_proposed_def)
  finally show ?thesis using commitExecution_round(1) [OF c0(1) run x] by (simp add: e)
qed

lemma machine_loop_reaches:
  assumes "machine_ok deq config h m" and "machine_loop deq n tick issues m = Inr m'"
  shows "machine_reaches deq config (nm_execution m') h \<and> machine_finished m'"
  using assms
proof (induction n arbitrary: tick issues m)
  case (Suc n)
  obtain m1 where m1: "machine_tick deq (Epoch tick 0) issues m = Inr m1"
    using Suc.prems(2) by (auto split: sum.splits)
  have r: "machine_reaches deq config (nm_execution m1) h" by (rule machine_tick_reaches [OF Suc.prems(1) m1])
  show ?case
  proof (cases "machine_finished m1")
    case True
    then show ?thesis using Suc.prems(2) m1 r by simp
  next
    case False
    have "machine_ok deq config h m1" using r by (auto simp: machine_ok_def)
    from Suc.IH [OF this] show ?thesis using False Suc.prems(2) m1 by simp
  qed
qed simp

lemma run_machine_reaches:
  assumes "run_machine deq records = Inr m"
  shows "\<exists>is. map (\<lambda>r. dr_instruction (decode deq r)) records = map Some is \<and>
    machine_reaches deq (local_config records) (nm_execution m) is \<and> machine_finished m"
proof -
  have start: "machine_reaches deq (local_config records) (nm_execution (local_machine records)) []"
    unfolding local_machine_def Let_def using pipeline_reaches.start by fastforce
  obtain tick m0 where m0: "dispatch_loop deq 0 records (local_machine records) = Inr (tick, m0)"
    using assms by (auto simp: run_machine_def split: sum.splits)
  obtain js where js: "map (\<lambda>r. dr_instruction (decode deq r)) records = map Some js"
    "machine_reaches deq (local_config records) (nm_execution m0) js"
    using dispatch_loop_reaches [OF start m0] by auto
  obtain o1 c1 where ex: "proposeTraceExhausted (nm_execution m0) = (o1, c1)" by (rule prod.exhaust)
  have "o1" and loop: "machine_loop deq (unat (maximumTicks records)) tick [] (m0\<lparr>nm_execution := c1\<rparr>) = Inr m"
    using assms by (cases o1; simp add: run_machine_def m0 ex)+
  have "machine_ok deq (local_config records) js (m0\<lparr>nm_execution := c1\<rparr>)"
    using js(2) ex unfolding machine_ok_def by (metis npu_machine.select_convs(2) npu_machine.surjective npu_machine.update_convs(2) snd_conv)
  from machine_loop_reaches [OF this loop] js(1) show ?thesis by blast
qed

section \<open>The trace and what retires\<close>

lemma decode_operand_sequence:
  "decode_operand deq b ins outs scs role x c = Inr c' \<Longrightarrow>
   ni_sequenceId (dc_instruction c') = ni_sequenceId (dc_instruction c)"
  by (auto simp: decode_operand_def push_tile_def push_scalar_def Let_def split: option.splits if_splits)

lemma decode_loop_sequence:
  "decode_loop deq b ins outs scs rxs c = Inr c' \<Longrightarrow>
   ni_sequenceId (dc_instruction c') = ni_sequenceId (dc_instruction c)"
proof (induction rxs arbitrary: c)
  case (Cons rx rxs)
  then show ?case by (cases rx) (auto dest: decode_operand_sequence split: sum.splits)
qed simp

lemma decode_sequence:
  assumes "dr_instruction (decode deq r) = Some i"
  shows "ni_sequenceId i = pr_sequenceId r"
proof -
  obtain e b inputs roles outputs scalars where "dr_instruction (decode_typed deq r e b inputs roles outputs scalars) = Some i"
    using assms by (auto simp: decode_def reject_def split: option.splits if_splits)
  then show ?thesis
    by (auto simp: decode_typed_def reject_def new_instruction_def dest!: decode_loop_sequence split: if_splits sum.splits)
qed

lemma decode_sequences:
  "map (\<lambda>r. dr_instruction (decode deq r)) records = map Some program \<Longrightarrow>
   map ni_sequenceId program = map pr_sequenceId records"
  by (induction records arbitrary: program) (auto simp: map_eq_Cons_conv decode_sequence)

lemma of_block_count:
  "count (mset (map (\<lambda>i. (ni_blockId i, ni_sequenceId i)) xs)) (b, q) = count (mset (map ni_sequenceId (of_block b xs))) q"
  by (induction xs) (auto simp: of_block_def)

lemma blockwise_same_sequences:
  assumes "\<And>b. map ni_sequenceId (of_block b xs) = map ni_sequenceId (of_block b ys)"
  shows "mset (map ni_sequenceId xs) = mset (map ni_sequenceId ys)"
proof -
  let ?key = "\<lambda>i. (ni_blockId i, ni_sequenceId i)"
  have "mset (map ?key xs) = mset (map ?key ys)"
  proof (rule multiset_eqI)
    fix k :: "u64 \<times> u64"
    show "count (mset (map ?key xs)) k = count (mset (map ?key ys)) k"
      by (cases k) (simp only: of_block_count assms)
  qed
  then have "image_mset snd (mset (map ?key xs)) = image_mset snd (mset (map ?key ys))" by simp
  then show ?thesis by (simp add: multiset.map_comp comp_def)
qed

text \<open>In a complete pipeline every reorder buffer is empty.\<close>

lemma complete_drained: "pipeline_complete c \<Longrightarrow> rob_at b (px_rob c) = []"
  by (fastforce simp: pipeline_complete_def rob_at_def list_all_iff split: option.split dest: map_of_SomeD)

lemma emit_until_frame:
  assumes "emit_until api ps ob s = ((ok, ob'), s')"
  shows "ob' = ob \<or> (\<exists>code. ob' = setRuntimeFailureCode code ob)"
  using assms
proof (induction ps arbitrary: s)
  case (Cons p ps)
  then show ?case by (auto split: option.splits prod.splits bool.splits)
qed simp

lemma source_doWork_pending:
  assumes "\<not> np_pending c" and "np_pending (fst (source_doWork api deq c s))"
  shows "\<exists>m. run_machine deq (pd_records (np_document c)) = Inr m \<and>
    np_result (fst (source_doWork api deq c s)) = px_result (nm_execution m)"
proof -
  obtain m where m: "run_machine deq (pd_records (np_document c)) = Inr m"
    using assms by (auto simp: source_doWork_def setRuntimeFailureCode_def split: sum.splits if_splits)
  define c1 where "c1 = c\<lparr>np_result := px_result (nm_execution m), np_eventCount := of_nat (length (or_committed (nm_recorder m)))\<rparr>"
  obtain ok c2 s2 where e: "emit_until api (map republished (or_committed (nm_recorder m))) c1 s = ((ok, c2), s2)"
    by (metis prod.exhaust)
  have "np_result c2 = px_result (nm_execution m)"
    using emit_until_frame [OF e] by (auto simp: c1_def setRuntimeFailureCode_def)
  then show ?thesis using assms m
    by (auto simp: source_doWork_def setRuntimeFailureCode_def Let_def c1_def [symmetric] e split: if_splits bool.splits)
qed

section \<open>Properties\<close>

text \<open>
  C12: The trace source retires the whole trace exactly once, in program order. When Work offers a result,
  every record of the document has been decoded; in each block the retired instructions are those of
  the program, in the order of the trace, which is the order of sequences, equal up to the recorded
  times; over all blocks the retired sequences are those of the records, counted with multiplicity;
  and the result is the number of records, the digest of the retired instructions and their sequences.
\<close>

theorem trace_retires_exactly_once:
  assumes "\<not> np_pending c" and "np_pending (fst (source_doWork api deq c s))"
  shows "let records = pd_records (np_document c) in
    \<exists>program R. map (\<lambda>r. dr_instruction (decode deq r)) records = map Some program \<and>
      (\<forall>b. increasing (map ni_sequenceId (of_block b program)) \<and>
           list_all2 (same_instruction deq) (of_block b program) (of_block b R)) \<and>
      mset (map ni_sequenceId R) = mset (map pr_sequenceId records) \<and>
      np_result (fst (source_doWork api deq c s)) = \<lparr>ar_retiredInstructions = of_nat (length records),
        ar_digest = fold updateDigest R 14695981039346656037, ar_retiredSequenceIds = map ni_sequenceId R\<rparr>"
proof -
  let ?records = "pd_records (np_document c)"
  obtain m where m: "run_machine deq ?records = Inr m"
    and result: "np_result (fst (source_doWork api deq c s)) = px_result (nm_execution m)"
    using source_doWork_pending [OF assms] by blast
  obtain program where program: "map (\<lambda>r. dr_instruction (decode deq r)) ?records = map Some program"
    and reach: "machine_reaches deq (local_config ?records) (nm_execution m) program" and fin: "machine_finished m"
    using run_machine_reaches [OF m] by blast
  obtain K R where inv: "pipe_inv deq (local_config ?records) program K R (nm_execution m)"
    using machine_reaches_idle(2) [OF reach] by blast
  have blk: "block_ok deq (of_block b program) (of_block b R) []" for b
  proof -
    have "block_ok deq (of_block b program) (of_block b R) (rob_at b (px_rob (nm_execution m)))"
      using inv by (simp add: pipe_inv_def rob_ok_def)
    then show ?thesis using complete_drained [of "nm_execution m" b] fin by (simp add: machine_finished_def)
  qed
  then have same: "list_all2 (same_instruction deq) (of_block b program) (of_block b R)" for b
    by (auto simp: block_ok_def)
  have "mset (map ni_sequenceId program) = mset (map ni_sequenceId R)"
    by (rule blockwise_same_sequences) (use block_ok_sequences(1) [OF blk] in simp)
  then have seqs: "mset (map ni_sequenceId R) = mset (map pr_sequenceId ?records)"
    unfolding decode_sequences [OF program] by simp
  then have "length R = length ?records" by (metis length_map size_mset)
  moreover have "px_result (nm_execution m) = fold retire_result R new_result"
    using inv by (simp add: pipe_inv_def history_ok_def)
  ultimately have "px_result (nm_execution m) = \<lparr>ar_retiredInstructions = of_nat (length ?records),
      ar_digest = fold updateDigest R 14695981039346656037, ar_retiredSequenceIds = map ni_sequenceId R\<rparr>"
    by (simp add: fold_retire_result new_result_def)
  then show ?thesis
    unfolding Let_def result using program same seqs block_ok_sequences(2) [OF blk] by blast
qed

subsection \<open>Witness\<close>

definition idle_source :: "bool npu_source" where
  "idle_source = snd (source_loadDocument empty_document (newNpuSource ''npu'' 1 None None))"

theorem trace_retires_exactly_once_witness:
  "np_pending (fst (source_doWork permissive_api (=) idle_source ())) \<and>
   ar_retiredSequenceIds (np_result (fst (source_doWork permissive_api (=) idle_source ()))) = []"
proof -
  have start: "\<not> np_pending idle_source" and records: "pd_records (np_document idle_source) = []"
    by (simp_all add: idle_source_def source_loadDocument_def newNpuSource_def empty_document_def)
  have pending: "np_pending (fst (source_doWork permissive_api (=) idle_source ()))" by code_simp
  from trace_retires_exactly_once [OF start this] pending show ?thesis by (auto simp: Let_def records)
qed

end
