(* ===== verification/Spec2Isabelle.thy ===== *)
theory Spec2Isabelle
  imports Simulation Trace_Replay Packet Npu_Driver
begin

text \<open>
  Verification of the gfsim runtime of agentic-circuit.

  The repository compiles circuit-like models to a C++ program over the runtime library gfsim
  (\<open>include/gfsim\<close>, \<open>lib/gfsim\<close>): a deterministic discrete-event simulator. Time is a sequence of
  epochs (a tick and a causal delta). In each epoch the system runs the Work of the scheduled
  objects, which only makes proposals; arbitration decides among proposals; every participant is
  validated; then the participants commit (Xfer) in the order of their IDs; committed objects
  activate others for later epochs, and the system moves to the next epoch that has work or an
  event. A run ends completed, incomplete at a declared cap, or failed with a diagnostic code.

  \<^bold>\<open>Theories and sources.\<close>

  \<^item> \<open>Gfsim_Prelude\<close>: ordered associative containers (\<open>std::map\<close>, \<open>std::set\<close>, \<open>std::multiset\<close>
    as ordered lists), short-circuit sequencing \<open>and_then\<close>, word arithmetic.
  \<^item> \<open>Gfsim_Core\<close>: \<open>core.h\<close>. Epochs and their order, IDs, kinds, events, limits, results,
    snapshots, the no-progress report.
  \<^item> \<open>Dispatch\<close>: \<open>dispatch.h\<close>. The generated dispatch table and the activation adjacency.
  \<^item> \<open>Observation\<close>: \<open>observation.h\<close>, \<open>lib/gfsim/observation.cpp\<close>. The observation recorder.
  \<^item> \<open>Sim_Object\<close>: the base class of \<open>object.h\<close> as the record \<open>sim_object\<close> that every component
    record extends; the record \<open>sim_api\<close> of calls an object makes on the system, with its contract
    as the locale \<open>sim_runtime\<close>; the locale \<open>component_contract\<close> shared by components that are
    characterised by an invariant over call sequences.
  \<^item> \<open>Sim_Queue\<close>, \<open>State_Array\<close>, \<open>Event_Queue\<close>: \<open>queue.h\<close>. FIFO queues and links, state arrays
    with port discipline, the global event queue and delayed queues.
  \<^item> \<open>Resource\<close>: \<open>resource.h\<close>. \<open>Statistic\<close>: \<open>statistics.h\<close>. \<open>Process\<close>: \<open>process.h\<close>.
  \<^item> \<open>Leaf_Components\<close>, \<open>Protocols\<close>: \<open>components.h\<close>. Compute, Sink, Link, Memory; Scheduler,
    ReadyValid, RequestResponse, ProtocolState.
  \<^item> \<open>Trace_Source\<close>: \<open>trace.h\<close>. Trace documents and the cursor that offers their records.
  \<^item> \<open>Json_Canonical\<close>, \<open>Json_Scanner\<close>: the JSON layer of \<open>lib/Bindings/Binding.cpp\<close>. The preflight of
    constructed values, the RFC 8785 emission, and the lexical I-JSON preflight of texts.
  \<^item> \<open>Trace_Parser\<close>: \<open>lib/gfsim/trace.cpp\<close>. The checks that turn a parsed JSON text into a trace
    document, and the byte stream \<open>PtoTraceStream\<close>. \<open>Trace_Replay\<close>: what a loaded document promises,
    and its replay by a trace source.
  \<^item> \<open>Packet\<close>: \<open>packet.h\<close>. The layout check and field access of packets.
  \<^item> \<open>Sim_System\<close>: \<open>lib/gfsim/system.cpp\<close> and the system part of \<open>object.h\<close>. Configuration, the
    registry, scheduling, one epoch step in its phases, the run loop, reset.
  \<^item> \<open>Sim_Scheduler\<close>: the invariant of the scheduler and the locale \<open>runtime_objects\<close>: what the
    scheduler relies on from the objects it dispatches to, and what it guarantees then.
  \<^item> \<open>Gfsim_Objects\<close>: the closed library. One store of all component classes, the virtual function
    table \<open>gfsim_ops\<close>, and the runtime calls that generated process steps can make
    (\<open>lib/CodeGen/ProcessGenerator.cpp\<close>); it interprets \<open>runtime_objects\<close>.
  \<^item> \<open>Npu_Decoder\<close>, \<open>Npu_Tracker\<close>, \<open>Npu_Pipeline\<close>: \<open>npu.h\<close>, \<open>lib/gfsim/npu.cpp\<close>. The NPU reference model:
    the decoder of trace records, the dependency tracker with its issue queues, and the execution
    pipeline with reorder buffers, execution units and the memory path. \<open>Npu_Dependencies\<close>: what the
    tracker promises. \<open>Npu_Retirement\<close>, \<open>Npu_Execution\<close>: what the pipeline promises.
  \<^item> \<open>Npu_Driver\<close>: the trace source of the NPU model, which runs a whole trace through the three, and
    what the composition promises.
  \<^item> \<open>Simulation\<close>: what a run of the closed library promises.

  \<^bold>\<open>State and effects.\<close> A C++ object is a record value in a store indexed by addresses; a member
  function is a function from the record (and the system, where it calls back) to a result and the
  new record. Class inheritance is record extension. Generated code, host decoders and policies
  are the parameter record \<open>model\<close>. Sizes are natural numbers; counters, ticks, deltas and IDs keep
  their machine width, and wrap-around is visible in the definitions. Each failure of the source is
  a branch that sets the result's classification and diagnostic code.

  \<^bold>\<open>What the lemmas show.\<close> Per component: the invariant that the member functions keep, and the
  contract it gives (queues, delayed queues, request/response channels, sinks and trace sources
  deliver exactly once and in order; resources are never oversubscribed and arbitration depends
  only on the set of proposals; state arrays and memories commit exactly what was written;
  statistics are the accumulation of the accepted values; processes decide in every Work call).
  For the system: every reachable state has all work and events due, ordered and uniquely numbered;
  each step moves strictly forward or ends the run; an epoch with an unfit participant commits
  nothing; caps are kept; a completed run is drained; a run always returns. For traces: the verdict
  of a load, well-formedness and budget of a loaded document, replay to the end from any state of
  the source, equality of streamed and whole parsing. For JSON: the constructed-value preflight
  accepts exactly the values within the limits and predicts the size of the canonical text, which
  does not depend on member order; the lexical preflight is total and keeps its limits. For the NPU
  model: the decoder accepts exactly the records that describe a typed operand list; renaming derives
  the true dependencies, issue is oldest-ready and never early, the tracker drains; units and tiles
  are never oversubscribed, retirement is in program order; the trace source retires a trace exactly
  once.

  \<^bold>\<open>Bounds and termination.\<close> The run loop is a partial function to \<open>option\<close>; it returns because the
  epoch strictly increases and an epoch is a 96-bit number. The event delivery loop ends because
  each round removes a committed event. The Work loop of a process carries the fairness bound of
  the source as its count. The JSON scanner ends because depth and entry counts are bounded by its
  limits. The NPU trace source counts its iterations against the limit of the source. No other fuel is
  used.

  \<^bold>\<open>Not modelled.\<close> The command-line harness, host interface and showcase models (I/O and fixed
  demonstration data) and the compiler itself (MLIR dialects,
  conversion, analyses and code emission), whose state lives in the MLIR library; the schema checks
  of binding records and the registry. Library code is a parameter: the LLVM JSON parser and its
  number accessors, \<open>std::to_chars\<close> and \<open>std::from_chars\<close>, SHA-256.
\<close>

end
